(* ===== verification/Prelude.thy ===== *)
theory Prelude
  imports Main "HOL-Library.Word"
begin

text \<open>
  Shared vocabulary of the development: the machine types of the C and C++ sources, the
  two kinds of result every fallible operation returns, the theorem collections the
  component theories feed, and the generic facts about lists, options and words that
  several components use.
\<close>

named_theorems abs_simps
  \<open>equations that push an abstraction function through an operation\<close>

named_theorems inv_intros
  \<open>preservation of a component invariant by one of its operations\<close>

section \<open>Machine types\<close>

type_synonym u8 = "8 word"
type_synonym u32 = "32 word"
type_synonym u64 = "64 word"

text \<open>InnoDB's \<open>ulint\<close> and \<open>ib_int64_t\<close> are 64 bit wide on the platforms built here.\<close>

type_synonym ulint = "64 word"

text \<open>A possibly null C string.\<close>

type_synonym cstr = "string option"

section \<open>Results\<close>

text \<open>
  A run of an operation either returns a value or ends the process (\<open>abort\<close>, \<open>exit\<close>, a failed
  \<open>ut_a\<close>).  Sums are used with the failure on the left.
\<close>

definition bind_res :: "'e + 'a \<Rightarrow> ('a \<Rightarrow> 'e + 'b) \<Rightarrow> 'e + 'b" where
  "bind_res m f = (case m of Inl e \<Rightarrow> Inl e | Inr x \<Rightarrow> f x)"

lemma bind_res_simps [simp]:
  "bind_res (Inl e) f = Inl e"
  "bind_res (Inr x) f = f x"
  by (simp_all add: bind_res_def)

lemma bind_res_Inr_iff:
  "bind_res m f = Inr y \<longleftrightarrow> (\<exists>x. m = Inr x \<and> f x = Inr y)"
  by (cases m) simp_all

lemma bind_res_assoc [simp]:
  "bind_res (bind_res m f) g = bind_res m (\<lambda>x. bind_res (f x) g)"
  by (cases m) simp_all

definition guard_res :: "bool \<Rightarrow> 'e \<Rightarrow> 'e + unit" where
  "guard_res b e = (if b then Inr () else Inl e)"

lemma guard_res_iff [simp]:
  "guard_res b e = Inr u \<longleftrightarrow> b"
  "guard_res b e = Inl e' \<longleftrightarrow> \<not> b \<and> e' = e"
  by (auto simp: guard_res_def)

lemma bind_guard_iff [simp]:
  "bind_res (guard_res b e) f = Inr y \<longleftrightarrow> b \<and> f () = Inr y"
  by (auto simp: guard_res_def)

section \<open>Lists\<close>

lemma find_append:
  "find P (xs @ ys) = (case find P xs of None \<Rightarrow> find P ys | Some x \<Rightarrow> Some x)"
  by (induction xs) simp_all

lemma find_SomeD: "find P xs = Some x \<Longrightarrow> x \<in> set xs \<and> P x"
  by (induction xs) (auto split: if_splits)

lemma find_None_iff_set: "find P xs = None \<longleftrightarrow> (\<forall>x\<in>set xs. \<not> P x)"
  by (induction xs) auto

lemma map_update_notin:
  "k \<notin> f ` set xs \<Longrightarrow> map (\<lambda>x. if f x = k then g x else x) xs = xs"
  by (induction xs) auto

lemma length_remove1_in: "x \<in> set xs \<Longrightarrow> Suc (length (remove1 x xs)) = length xs"
  by (induction xs) auto

section \<open>Words\<close>

lemma word_add_of_nat_neq:
  fixes c :: "'a::len word"
  assumes "0 < n" and "n < 2 ^ LENGTH('a)"
  shows "c + of_nat n \<noteq> c"
proof -
  have "(of_nat n :: 'a word) \<noteq> 0"
    using assms by (metis less_numeral_extra(3) of_nat_inverse unat_0)
  then show ?thesis by simp
qed

lemma unat_Suc_lt:
  fixes c :: "'a::len word"
  assumes "unat c + 1 < 2 ^ LENGTH('a)"
  shows "unat (c + 1) = unat c + 1"
  using assms by (simp add: unat_word_ariths)

end
