(* ===== verification/OsEvent.thy ===== *)
theory OsEvent
  imports Prelude
begin

text \<open>
  The event semaphore of InnoDB's operating system layer
  (\<open>mysql-5.6.10-glibc/storage/innobase/os/os0sync.cc\<close>): the event object, \<open>os_event_set\<close>,
  \<open>os_event_reset\<close>, the untimed wait as a step relation over the threads that block on the
  event, and the timed wait with its deadline arithmetic.  Every operation runs under the
  event's own \<open>os_mutex\<close>, so one call (or one round of a wait loop) is one atomic step.
\<close>

section \<open>The event and its operations\<close>

record os_event =
  is_set :: bool
  signal_count :: u64

text \<open>The fields \<open>os_event_create\<close> writes; 0 is reserved for ``no count passed''.\<close>

definition os_event_new :: os_event where
  "os_event_new = \<lparr>is_set = False, signal_count = 1\<rparr>"

text \<open>\<open>os_event_set\<close> returns the event and whether it broadcasts its condition variable.\<close>

definition os_event_set :: "os_event \<Rightarrow> os_event \<times> bool" where
  "os_event_set e =
     (if is_set e then (e, False)
      else (e\<lparr>is_set := True, signal_count := signal_count e + 1\<rparr>, True))"

definition os_event_reset :: "os_event \<Rightarrow> os_event \<times> u64" where
  "os_event_reset e =
     (let e' = (if \<not> is_set e then e else e\<lparr>is_set := False\<rparr>) in (e', signal_count e'))"

text \<open>The two ingredients of \<open>os_event_wait_low\<close>: the count it waits on and its loop guard.\<close>

definition wait_count :: "os_event \<Rightarrow> u64 \<Rightarrow> u64" where
  "wait_count e reset_sig_count =
     (if reset_sig_count = 0 then signal_count e else reset_sig_count)"

definition wait_blocks :: "os_event \<Rightarrow> u64 \<Rightarrow> bool" where
  "wait_blocks e reset_sig_count \<longleftrightarrow> \<not> is_set e \<and> signal_count e = reset_sig_count"

lemma os_event_set_simps [simp]:
  "is_set (fst (os_event_set e))"
  "snd (os_event_set e) \<longleftrightarrow> \<not> is_set e"
  "signal_count (fst (os_event_set e)) = (if is_set e then signal_count e else signal_count e + 1)"
  by (simp_all add: os_event_set_def)

lemma os_event_reset_simps [simp]:
  "\<not> is_set (fst (os_event_reset e))"
  "signal_count (fst (os_event_reset e)) = signal_count e"
  "snd (os_event_reset e) = signal_count e"
  by (simp_all add: os_event_reset_def Let_def)

section \<open>Waiting threads\<close>

text \<open>
  A thread in \<open>os_event_wait_low\<close> is at the head of its loop (\<open>Looping\<close>, holding the event's
  mutex when it moves), asleep in \<open>os_cond_wait\<close>, or has returned.
\<close>

datatype ev_pc = Outside | Looping u64 | Asleep u64 | Returned

record ev_sys =
  ev :: os_event
  ev_pcs :: "nat \<Rightarrow> ev_pc"

definition wake_all :: "(nat \<Rightarrow> ev_pc) \<Rightarrow> nat \<Rightarrow> ev_pc" where
  "wake_all p = (\<lambda>t. case p t of Asleep c \<Rightarrow> Looping c | q \<Rightarrow> q)"

inductive os_event_step :: "ev_sys \<Rightarrow> ev_sys \<Rightarrow> bool" where
  set: "os_event_set (ev s) = (e', bc) \<Longrightarrow>
     os_event_step s (s\<lparr>ev := e', ev_pcs := (if bc then wake_all (ev_pcs s) else ev_pcs s)\<rparr>)"
| reset: "os_event_step s (s\<lparr>ev := fst (os_event_reset (ev s))\<rparr>)"
| enter: "ev_pcs s t = Outside \<Longrightarrow>
     os_event_step s (s\<lparr>ev_pcs := (ev_pcs s)(t := Looping (wait_count (ev s) c))\<rparr>)"
| sleep: "ev_pcs s t = Looping c \<Longrightarrow> wait_blocks (ev s) c \<Longrightarrow>
     os_event_step s (s\<lparr>ev_pcs := (ev_pcs s)(t := Asleep c)\<rparr>)"
| leave: "ev_pcs s t = Looping c \<Longrightarrow> \<not> wait_blocks (ev s) c \<Longrightarrow>
     os_event_step s (s\<lparr>ev_pcs := (ev_pcs s)(t := Returned)\<rparr>)"
| spurious: "ev_pcs s t = Asleep c \<Longrightarrow>
     os_event_step s (s\<lparr>ev_pcs := (ev_pcs s)(t := Looping c)\<rparr>)"
| again: "ev_pcs s t = Returned \<Longrightarrow>
     os_event_step s (s\<lparr>ev_pcs := (ev_pcs s)(t := Outside)\<rparr>)"

inductive os_event_reach :: "ev_sys \<Rightarrow> bool" where
  init: "os_event_reach \<lparr>ev = os_event_new, ev_pcs = (\<lambda>_. Outside)\<rparr>"
| step: "os_event_reach s \<Longrightarrow> os_event_step s s' \<Longrightarrow> os_event_reach s'"

definition sleepers_blocked :: "ev_sys \<Rightarrow> bool" where
  "sleepers_blocked s \<longleftrightarrow> (\<forall>t c. ev_pcs s t = Asleep c \<longrightarrow> wait_blocks (ev s) c)"

lemma wake_all_not_asleep [simp]: "wake_all p t \<noteq> Asleep c"
  by (simp add: wake_all_def split: ev_pc.split)

lemma os_event_step_sleepers [inv_intros]:
  "os_event_step s s' \<Longrightarrow> sleepers_blocked s \<Longrightarrow> sleepers_blocked s'"
proof (induction rule: os_event_step.induct)
  case (set s e' bc)
  then show ?case
    by (auto simp: sleepers_blocked_def os_event_set_def split: if_splits)
next
  case (reset s)
  then show ?case
    by (auto simp: sleepers_blocked_def wait_blocks_def os_event_reset_def Let_def)
qed (auto simp: sleepers_blocked_def split: if_splits)

lemma os_event_reach_sleepers: "os_event_reach s \<Longrightarrow> sleepers_blocked s"
proof (induction rule: os_event_reach.induct)
  case init
  show ?case by (simp add: sleepers_blocked_def)
next
  case (step s s')
  then show ?case by (blast intro: os_event_step_sleepers)
qed

text \<open>A step after which thread \<open>t\<close> has not (or not yet) returned.\<close>

definition step_before_return :: "nat \<Rightarrow> ev_sys \<Rightarrow> ev_sys \<Rightarrow> bool" where
  "step_before_return t s s' \<longleftrightarrow> os_event_step s s' \<and> ev_pcs s' t \<noteq> Returned"

text \<open>Awake on the count \<open>c\<close>, with the event fired since that count was read.\<close>

definition woken :: "nat \<Rightarrow> u64 \<Rightarrow> nat \<Rightarrow> ev_sys \<Rightarrow> bool" where
  "woken t c n s \<longleftrightarrow> ev_pcs s t = Looping c \<and>
     (\<exists>k. 0 < k \<and> k \<le> n + 1 \<and> signal_count (ev s) = c + of_nat k)"

lemma woken_not_blocked:
  assumes "woken t c n s" and "n + 1 < 2 ^ 64"
  shows "ev_pcs s t = Looping c \<and> \<not> wait_blocks (ev s) c"
  using assms word_add_of_nat_neq [where c = c]
  by (auto simp: woken_def wait_blocks_def)

lemma os_event_set_count:
  "os_event_set e = (e', bc) \<Longrightarrow>
   signal_count e' = signal_count e \<or> signal_count e' = signal_count e + 1"
  by (auto simp: os_event_set_def split: if_splits)

lemma woken_step:
  assumes "step_before_return t s s'" and "woken t c n s" and "n + 1 < 2 ^ 64"
  shows "woken t c (Suc n) s'"
proof -
  obtain k where k: "0 < k" "k \<le> n + 1" "signal_count (ev s) = c + of_nat k"
    and pc: "ev_pcs s t = Looping c" using assms(2) by (auto simp: woken_def)
  have nb: "\<not> wait_blocks (ev s) c" using woken_not_blocked [OF assms(2,3)] by simp
  have "os_event_step s s'" "ev_pcs s' t \<noteq> Returned"
    using assms(1) by (simp_all add: step_before_return_def)
  then have pc': "ev_pcs s' t = Looping c \<and>
      (signal_count (ev s') = signal_count (ev s) \<or> signal_count (ev s') = signal_count (ev s) + 1)"
    using pc nb
    by (induction rule: os_event_step.induct)
      (auto simp: wake_all_def dest: os_event_set_count split: if_splits)
  then have "signal_count (ev s') = c + of_nat k \<or> signal_count (ev s') = c + of_nat (Suc k)"
    using k(3) by auto
  with k pc' show ?thesis unfolding woken_def
    by (metis Suc_le_mono add_Suc le_SucI zero_less_Suc)
qed

lemma woken_run:
  assumes "woken t c 0 s"
  shows "(step_before_return t ^^ n) s s' \<Longrightarrow> n + 1 < 2 ^ 64 \<Longrightarrow> woken t c n s'"
proof (induction n arbitrary: s')
  case 0
  with assms show ?case by simp
next
  case (Suc n)
  then obtain z where "(step_before_return t ^^ n) s z" "step_before_return t z s'" by auto
  with Suc show ?case by (auto intro: woken_step)
qed

section \<open>Histories of set and reset calls\<close>

datatype ev_op = EvSet | EvReset

fun ev_op_apply :: "ev_op \<Rightarrow> os_event \<Rightarrow> os_event" where
  "ev_op_apply EvSet e = fst (os_event_set e)"
| "ev_op_apply EvReset e = fst (os_event_reset e)"

definition ev_run :: "ev_op list \<Rightarrow> os_event \<Rightarrow> os_event" where
  "ev_run ops e = fold ev_op_apply ops e"

text \<open>How many of the calls really moved the event to the signalled state.\<close>

fun ev_effective :: "bool \<Rightarrow> ev_op list \<Rightarrow> nat" where
  "ev_effective b [] = 0"
| "ev_effective b (EvSet # ops) = (if b then 0 else 1) + ev_effective True ops"
| "ev_effective b (EvReset # ops) = ev_effective False ops"

definition n_sets :: "ev_op list \<Rightarrow> nat" where
  "n_sets ops = length (filter ((=) EvSet) ops)"

lemma ev_run_simps [simp]:
  "ev_run [] e = e"
  "ev_run (x # ops) e = ev_run ops (ev_op_apply x e)"
  by (simp_all add: ev_run_def)

lemma ev_run_count:
  "signal_count (ev_run ops e) = signal_count e + of_nat (ev_effective (is_set e) ops)"
proof (induction ops arbitrary: e)
  case (Cons x ops)
  then show ?case by (cases x) simp_all
qed simp

lemma ev_effective_le: "ev_effective b ops \<le> n_sets ops"
  by (induction b ops rule: ev_effective.induct) (auto simp: n_sets_def)

lemma ev_effective_pos: "EvSet \<in> set ops \<Longrightarrow> 0 < ev_effective False ops"
proof (induction ops)
  case (Cons x ops)
  then show ?case by (cases x) simp_all
qed simp

lemma ev_run_after_reset_moves:
  assumes "EvSet \<in> set ops" and "n_sets ops < 2 ^ 64"
  shows "signal_count (ev_run ops (fst (os_event_reset e))) \<noteq> signal_count e"
proof -
  have "0 < ev_effective False ops" using assms(1) by (rule ev_effective_pos)
  moreover have "ev_effective False ops < 2 ^ LENGTH(64)"
    using ev_effective_le [of False ops] assms(2) by simp
  ultimately show ?thesis
    by (simp only: ev_run_count os_event_reset_simps not_False_eq_True
        word_add_of_nat_neq simp_thms)
qed

section \<open>The timed wait\<close>

datatype os_error = AssertFailed | Deadlock | BadHandle | OutOfFuel

definition MICROSECS_IN_A_SECOND :: ulint where
  "MICROSECS_IN_A_SECOND = 1000000"

definition OS_SYNC_INFINITE_TIME :: ulint where
  "OS_SYNC_INFINITE_TIME = - 1"

text \<open>
  The absolute deadline of \<open>os_event_wait_time_low\<close> as (seconds, nanoseconds), from the
  current time (\<open>sec\<close>, \<open>usec\<close>) and the timeout, in the unsigned arithmetic of the source.
\<close>

definition wait_deadline :: "ulint \<Rightarrow> ulint \<Rightarrow> ulint \<Rightarrow> ulint \<times> ulint" where
  "wait_deadline sec usec time_in_usec =
     (if time_in_usec \<noteq> OS_SYNC_INFINITE_TIME then
        (let tv_usec = usec + time_in_usec in
         if MICROSECS_IN_A_SECOND \<le> tv_usec then
           (sec + time_in_usec div MICROSECS_IN_A_SECOND,
            (tv_usec mod MICROSECS_IN_A_SECOND) * 1000)
         else (sec, tv_usec * 1000))
      else (- 1, 999999999))"

text \<open>\<open>os_cond_wait_timed\<close> by the code \<open>pthread_cond_timedwait\<close> returned.\<close>

definition ETIMEDOUT :: int where "ETIMEDOUT = 110"
definition EINTR :: int where "EINTR = 4"

definition os_cond_wait_timed :: "int \<Rightarrow> os_error + bool" where
  "os_cond_wait_timed ret =
     (if ret = 0 \<or> ret = ETIMEDOUT \<or> ret = EINTR then Inr (ret = ETIMEDOUT)
      else Inl AssertFailed)"

text \<open>
  The loop of \<open>os_event_wait_time_low\<close>.  Each element of the list is one return of
  \<open>pthread_cond_timedwait\<close>: its code and the event as the thread finds it on reacquiring the
  mutex.  \<open>Inr None\<close>: the thread is still asleep after those returns.
\<close>

fun wait_time_loop ::
  "os_event \<Rightarrow> u64 \<Rightarrow> (int \<times> os_event) list \<Rightarrow> os_error + bool option" where
  "wait_time_loop e c rets =
     (if is_set e \<or> signal_count e \<noteq> c then Inr (Some False)
      else case rets of
             [] \<Rightarrow> Inr None
           | (ret, e') # rest \<Rightarrow>
               bind_res (os_cond_wait_timed ret)
                 (\<lambda>timed_out. if timed_out then Inr (Some True)
                              else wait_time_loop e' c rest))"

declare wait_time_loop.simps [simp del]

text \<open>The call itself first replaces a count of 0 by the current one.\<close>

definition os_event_wait_time_low ::
  "os_event \<Rightarrow> u64 \<Rightarrow> (int \<times> os_event) list \<Rightarrow> os_error + bool option" where
  "os_event_wait_time_low e reset_sig_count rets =
     wait_time_loop e (wait_count e reset_sig_count) rets"

lemma wait_deadline_nsec:
  assumes "time_in_usec \<noteq> OS_SYNC_INFINITE_TIME"
  shows "unat (snd (wait_deadline sec usec time_in_usec)) \<le> 999999000"
proof -
  have *: "unat ((x::ulint) * 1000) \<le> 999999000" if "unat x < 1000000" for x
    using that by (simp add: unat_word_ariths)
  show ?thesis
  proof (cases "MICROSECS_IN_A_SECOND \<le> usec + time_in_usec")
    case True
    have "unat ((usec + time_in_usec) mod MICROSECS_IN_A_SECOND) < 1000000"
      by (simp add: MICROSECS_IN_A_SECOND_def unat_mod_distrib)
    with True assms * show ?thesis by (simp add: wait_deadline_def Let_def)
  next
    case False
    then have "unat (usec + time_in_usec) < 1000000"
      by (simp add: MICROSECS_IN_A_SECOND_def word_le_nat_alt not_le)
    with False assms * [of "usec + time_in_usec"] show ?thesis
      by (simp only: wait_deadline_def Let_def if_True if_False not_False_eq_True snd_conv)
  qed
qed

text \<open>
  The deadline in microseconds.  The seconds that \<open>usec + time_in_usec mod 1000000\<close> carries are
  dropped by the source, which adds \<open>time_in_usec / 1000000\<close> only.
\<close>

definition deadline_usec :: "ulint \<times> ulint \<Rightarrow> nat" where
  "deadline_usec d = unat (fst d) * 1000000 + unat (snd d) div 1000"

lemma carry_mod:
  fixes u t m :: nat
  assumes "u < m"
  shows "t div m * m + (u + t) mod m = (if u + t mod m < m then u + t else u + t - m)"
proof -
  have t: "t = t div m * m + t mod m" by simp
  have r: "t mod m < m" using assms by simp
  have "(u + t) mod m = (u + t mod m) mod m" by (simp add: mod_add_right_eq)
  also have "\<dots> = (if u + t mod m < m then u + t mod m else u + t mod m - m)"
  proof (cases "u + t mod m < m")
    case False
    then have "(u + t mod m) mod m = (u + t mod m - m) mod m" by (simp add: le_mod_geq)
    also have "\<dots> = u + t mod m - m" using assms r by (intro mod_less) linarith
    finally show ?thesis using False by simp
  qed simp
  finally have e: "(u + t) mod m = (if u + t mod m < m then u + t mod m else u + t mod m - m)" .
  show ?thesis
  proof (cases "u + t mod m < m")
    case True
    with e show ?thesis by simp
  next
    case False
    have "t div m * m + (u + t mod m - m) = t div m * m + (u + t mod m) - m"
      using False by (intro add_diff_assoc) simp
    with False e show ?thesis by simp
  qed
qed

lemma wait_deadline_usec:
  assumes "unat usec < 1000000" and "time_in_usec \<noteq> OS_SYNC_INFINITE_TIME"
    and "unat usec + unat time_in_usec < 2 ^ 64" and "unat sec + unat time_in_usec < 2 ^ 64"
  shows "deadline_usec (wait_deadline sec usec time_in_usec) =
         unat sec * 1000000 + unat usec + unat time_in_usec -
         (if unat usec + unat time_in_usec mod 1000000 < 1000000 then 0 else 1000000)"
proof -
  let ?u = "unat usec" and ?t = "unat time_in_usec"
  have uv: "unat (usec + time_in_usec) = ?u + ?t"
    using assms(3) by (simp add: unat_word_ariths)
  have scale: "unat ((x::ulint) * 1000) div 1000 = unat x" if "unat x < 1000000" for x
    using that by (simp add: unat_word_ariths)
  have ge: "MICROSECS_IN_A_SECOND \<le> usec + time_in_usec \<longleftrightarrow> 1000000 \<le> ?u + ?t"
    by (simp add: MICROSECS_IN_A_SECOND_def word_le_nat_alt uv)
  show ?thesis
  proof (cases "1000000 \<le> ?u + ?t")
    case True
    let ?m = "(usec + time_in_usec) mod MICROSECS_IN_A_SECOND"
    have m: "unat ?m = (?u + ?t) mod 1000000"
      by (simp add: MICROSECS_IN_A_SECOND_def unat_mod_distrib uv)
    have "unat (sec + time_in_usec div MICROSECS_IN_A_SECOND) = unat sec + ?t div 1000000"
      using assms(4) by (simp add: MICROSECS_IN_A_SECOND_def unat_word_ariths unat_div_distrib)
    moreover have "unat (?m * 1000) div 1000 = (?u + ?t) mod 1000000"
      using m by (simp add: scale)
    ultimately have "deadline_usec (wait_deadline sec usec time_in_usec) =
        unat sec * 1000000 + (?t div 1000000 * 1000000 + (?u + ?t) mod 1000000)"
      using assms(2) True ge by (simp add: wait_deadline_def Let_def deadline_usec_def)
    then show ?thesis using carry_mod [OF assms(1), of ?t] by (simp split: if_splits)
  next
    case False
    then have "unat ((usec + time_in_usec) * 1000) div 1000 = ?u + ?t"
      using uv by (simp only: scale)
    then have "deadline_usec (wait_deadline sec usec time_in_usec) =
        unat sec * 1000000 + (?u + ?t)"
      using assms(2) False ge
      by (simp only: wait_deadline_def Let_def deadline_usec_def if_True if_False
          not_False_eq_True fst_conv snd_conv)
    with False show ?thesis by simp
  qed
qed

lemma wait_time_loop_signalled:
  "wait_time_loop e c rets = Inr (Some False) \<Longrightarrow>
   \<exists>e' \<in> insert e (snd ` set rets). is_set e' \<or> signal_count e' \<noteq> c"
proof (induction e c rets rule: wait_time_loop.induct)
  case (1 e c rets)
  show ?case
  proof (cases "is_set e \<or> signal_count e \<noteq> c")
    case False
    with "1.prems" obtain ret e' rest where r: "rets = (ret, e') # rest"
      by (auto simp: wait_time_loop.simps [of e c rets] split: list.splits)
    from r False "1.prems" have "wait_time_loop e' c rest = Inr (Some False)"
      by (auto simp: wait_time_loop.simps [of e "signal_count e" "(ret, e') # rest"]
          bind_res_Inr_iff split: if_splits)
    then have "\<exists>x \<in> insert e' (snd ` set rest). is_set x \<or> signal_count x \<noteq> c"
      using "1.IH" False r by blast
    with r show ?thesis by auto
  qed auto
qed

lemma os_event_wait_time_low_signalled:
  "os_event_wait_time_low e 0 rets = Inr (Some False) \<Longrightarrow>
   is_set e \<or> (\<exists>e' \<in> snd ` set rets. is_set e' \<or> signal_count e' \<noteq> signal_count e)"
  using wait_time_loop_signalled [of e "signal_count e" rets]
  by (auto simp: os_event_wait_time_low_def wait_count_def)

section \<open>Properties\<close>

text \<open>
  C10: no wake-up is lost.  In every reachable state, a thread that sleeps in
  \<open>os_event_wait_low\<close> is one whose loop guard still holds: the event is not set and has not
  been set since the count the thread waits on was read.  When any thread then calls
  \<open>os_event_set\<close>, the sleeper is awake at once, and whatever the threads do next (fewer than
  \<open>2\<^sup>6\<^sup>4 - 1\<close> steps, resets and further sets included) until it has returned, it does not go
  back to sleep: it stays at the head of its loop with a guard that lets it return.
\<close>

theorem os_event_no_lost_wakeup:
  assumes "os_event_reach s" and "ev_pcs s t = Asleep c"
    and "os_event_set (ev s) = (e', bc)"
    and "s1 = s\<lparr>ev := e', ev_pcs := (if bc then wake_all (ev_pcs s) else ev_pcs s)\<rparr>"
    and "(step_before_return t ^^ n) s1 s2" and "n + 1 < 2 ^ 64"
  shows "\<not> is_set (ev s) \<and> signal_count (ev s) = c \<and>
    ev_pcs s2 t = Looping c \<and> \<not> wait_blocks (ev s2) c \<and>
    os_event_step s2 (s2\<lparr>ev_pcs := (ev_pcs s2)(t := Returned)\<rparr>)"
proof -
  have blk: "wait_blocks (ev s) c"
    using os_event_reach_sleepers [OF assms(1)] assms(2) by (simp add: sleepers_blocked_def)
  then have s1: "woken t c 0 s1"
    using assms(2-4) by (auto simp: wait_blocks_def os_event_set_def woken_def wake_all_def)
  have "woken t c n s2" using assms(5,6) by (intro woken_run [OF s1]) simp_all
  then have "ev_pcs s2 t = Looping c \<and> \<not> wait_blocks (ev s2) c"
    using assms(6) by (intro woken_not_blocked)
  with blk show ?thesis by (auto simp: wait_blocks_def intro: os_event_step.leave)
qed

text \<open>The event is reset again before the woken thread 7 has had a chance to look at it.\<close>

theorem os_event_no_lost_wakeup_witness:
  "\<exists>s s1 s2. os_event_reach s \<and> ev_pcs s 7 = Asleep 1 \<and>
     ev_pcs s1 7 = Looping 1 \<and> is_set (ev s1) \<and> os_event_step s1 s2 \<and> \<not> is_set (ev s2) \<and>
     ev_pcs s2 7 = Looping 1 \<and> \<not> wait_blocks (ev s2) 1"
proof -
  let ?s0 = "\<lparr>ev = os_event_new, ev_pcs = (\<lambda>_::nat. Outside)\<rparr>"
  let ?sl = "?s0\<lparr>ev_pcs := (ev_pcs ?s0)(7 := Looping (wait_count (ev ?s0) 1))\<rparr>"
  let ?s = "?sl\<lparr>ev_pcs := (ev_pcs ?sl)(7 := Asleep 1)\<rparr>"
  let ?e = "fst (os_event_set (ev ?s))"
  let ?s1 = "?s\<lparr>ev := ?e, ev_pcs := (if True then wake_all (ev_pcs ?s) else ev_pcs ?s)\<rparr>"
  let ?s2 = "?s1\<lparr>ev := fst (os_event_reset (ev ?s1))\<rparr>"
  have "os_event_reach ?sl"
    by (rule os_event_reach.step [OF os_event_reach.init], rule os_event_step.enter) simp
  then have r: "os_event_reach ?s"
    by (rule os_event_reach.step, intro os_event_step.sleep)
       (simp_all add: wait_count_def wait_blocks_def os_event_new_def)
  have a: "ev_pcs ?s 7 = Asleep 1" by simp
  have e: "os_event_set (ev ?s) = (?e, True)" by (simp add: os_event_set_def os_event_new_def)
  have st: "os_event_step ?s1 ?s2" by (rule os_event_step.reset)
  have w: "ev_pcs ?s1 7 = Looping 1" "is_set (ev ?s1)" by (simp_all add: wake_all_def)
  have "(step_before_return 7 ^^ 1) ?s1 ?s2"
    using st by (simp add: step_before_return_def wake_all_def del: One_nat_def)
  from os_event_no_lost_wakeup [OF r a e refl this] r a st w
  have "os_event_reach ?s \<and> ev_pcs ?s 7 = Asleep 1 \<and> ev_pcs ?s1 7 = Looping 1 \<and> is_set (ev ?s1) \<and>
    os_event_step ?s1 ?s2 \<and> \<not> is_set (ev ?s2) \<and> ev_pcs ?s2 7 = Looping 1 \<and> \<not> wait_blocks (ev ?s2) 1"
    by simp
  then show ?thesis by blast
qed

text \<open>
  the lemma stated in \<open>sync0sync.cc\<close>.  If \<open>os_event_reset\<close> returned a count and at least one
  \<open>os_event_set\<close> was called afterwards, then a wait that passes this count does not block,
  however many further resets and sets (fewer than \<open>2\<^sup>6\<^sup>4\<close>) other threads made in between,
  and although the event itself may be non-signalled again.
\<close>

theorem os_event_reset_set_wait:
  assumes "os_event_reset e = (e1, c)" and "c \<noteq> 0"
    and "EvSet \<in> set ops" and "n_sets ops < 2 ^ 64"
  shows "\<not> wait_blocks (ev_run ops e1) (wait_count (ev_run ops e1) c)"
proof -
  have "e1 = fst (os_event_reset e)" "c = signal_count e"
    using assms(1) os_event_reset_simps(3) [of e] by simp_all
  with ev_run_after_reset_moves [OF assms(3,4), of e] assms(2) show ?thesis
    by (simp add: wait_blocks_def wait_count_def)
qed

theorem os_event_reset_set_wait_witness:
  "\<not> is_set (ev_run [EvSet, EvReset] (fst (os_event_reset os_event_new))) \<and>
   \<not> wait_blocks (ev_run [EvSet, EvReset] (fst (os_event_reset os_event_new)))
       (wait_count (ev_run [EvSet, EvReset] (fst (os_event_reset os_event_new))) 1)"
  using os_event_reset_set_wait
    [of os_event_new "fst (os_event_reset os_event_new)" 1 "[EvSet, EvReset]"]
  by (simp add: os_event_new_def os_event_reset_def os_event_set_def n_sets_def)

text \<open>
  the deadline of the timed wait.  With the current time in range, \<open>os_event_wait_time_low\<close>
  waits until exactly \<open>time_in_usec\<close> after now when adding the microseconds does not carry into
  the seconds, and until one second too early when it does: the carry is dropped.
\<close>

theorem os_event_wait_time_deadline:
  assumes "unat usec < 1000000" and "time_in_usec \<noteq> OS_SYNC_INFINITE_TIME"
    and "unat usec + unat time_in_usec < 2 ^ 64" and "unat sec + unat time_in_usec < 2 ^ 64"
  shows "deadline_usec (wait_deadline sec usec time_in_usec) =
         unat sec * 1000000 + unat usec + unat time_in_usec -
         (if unat usec + unat time_in_usec mod 1000000 < 1000000 then 0 else 1000000)"
  using assms by (rule wait_deadline_usec)

text \<open>The witness is a timeout of half a second whose deadline is already half a second past.\<close>

theorem os_event_wait_time_deadline_witness:
  "deadline_usec (wait_deadline 100 700000 500000) = 100200000 \<and>
   (100200000::nat) < 100 * 1000000 + 700000"
  using os_event_wait_time_deadline [of 700000 500000 100]
  by (simp add: OS_SYNC_INFINITE_TIME_def)

end
