(* ===== verification/OsSync.thy ===== *)
theory OsSync
  imports OsEvent
begin

text \<open>
  The bookkeeping of InnoDB's operating system layer
  (\<open>mysql-5.6.10-glibc/storage/innobase/os/os0sync.cc\<close>): the lists of events and slow
  mutexes, their counters, the fast mutexes underneath them, and the global \<open>os_sync_mutex\<close>
  that protects the lists.  The model is the sequential one of start-up and shutdown: locking
  a fast mutex that is already locked is a deadlock and is an error value, as is a failed
  \<open>ut_a\<close> or the use of a freed object.
\<close>

section \<open>State\<close>

text \<open>A fast mutex is embedded in an event or allocated for a slow mutex.\<close>

datatype fm_ref = EventFm nat | HandleFm nat

record os_mutex =
  om_event :: nat
  om_handle :: fm_ref
  om_count :: ulint

record os_sync =
  os_sync_mutex :: "nat option"
  os_sync_mutex_inited :: bool
  os_sync_free_called :: bool
  os_event_list :: "nat list"
  os_mutex_list :: "nat list"
  os_event_count :: ulint
  os_mutex_count :: ulint
  os_fast_mutex_count :: ulint
  os_events :: "nat \<rightharpoonup> os_event"
  os_mutexes :: "nat \<rightharpoonup> os_mutex"
  os_fasts :: "fm_ref \<rightharpoonup> bool"   \<comment> \<open>live fast mutexes; \<open>True\<close>: locked\<close>
  os_brk :: nat                     \<comment> \<open>next address \<open>ut_malloc\<close> hands out\<close>

type_synonym os_result = "os_error + os_sync"

section \<open>Fast mutexes and slow mutexes\<close>

definition os_fast_mutex_lock :: "fm_ref \<Rightarrow> os_sync \<Rightarrow> os_result" where
  "os_fast_mutex_lock f s =
     (case os_fasts s f of
        None \<Rightarrow> Inl BadHandle
      | Some True \<Rightarrow> Inl Deadlock
      | Some False \<Rightarrow> Inr (s\<lparr>os_fasts := (os_fasts s)(f \<mapsto> True)\<rparr>))"

definition os_fast_mutex_unlock :: "fm_ref \<Rightarrow> os_sync \<Rightarrow> os_result" where
  "os_fast_mutex_unlock f s =
     (case os_fasts s f of
        None \<Rightarrow> Inl BadHandle
      | Some _ \<Rightarrow> Inr (s\<lparr>os_fasts := (os_fasts s)(f \<mapsto> False)\<rparr>))"

definition os_mutex_enter :: "nat \<Rightarrow> os_sync \<Rightarrow> os_result" where
  "os_mutex_enter m s =
     (case os_mutexes s m of
        None \<Rightarrow> Inl BadHandle
      | Some x \<Rightarrow>
          bind_res (os_fast_mutex_lock (om_handle x) s)
            (\<lambda>s. let c = om_count x + 1 in
                 if c = 1 then Inr (s\<lparr>os_mutexes := (os_mutexes s)(m \<mapsto> x\<lparr>om_count := c\<rparr>)\<rparr>)
                 else Inl AssertFailed))"

definition os_mutex_exit :: "nat \<Rightarrow> os_sync \<Rightarrow> os_result" where
  "os_mutex_exit m s =
     (case os_mutexes s m of
        None \<Rightarrow> Inl BadHandle
      | Some x \<Rightarrow>
          if om_count x = 1
          then os_fast_mutex_unlock (om_handle x)
                 (s\<lparr>os_mutexes := (os_mutexes s)(m \<mapsto> x\<lparr>om_count := om_count x - 1\<rparr>)\<rparr>)
          else Inl AssertFailed)"

text \<open>
  The bracket every list update of the file is written in: enter \<open>os_sync_mutex\<close> if the given
  condition holds, update, exit it under the same condition.
\<close>

definition with_os_sync_mutex :: "bool \<Rightarrow> (os_sync \<Rightarrow> os_sync) \<Rightarrow> os_sync \<Rightarrow> os_result" where
  "with_os_sync_mutex b body s =
     (if b then
        (case os_sync_mutex s of
           None \<Rightarrow> Inl BadHandle
         | Some m \<Rightarrow> bind_res (os_mutex_enter m s) (\<lambda>s. os_mutex_exit m (body s)))
      else Inr (body s))"

definition os_fast_mutex_init_func :: "fm_ref \<Rightarrow> os_sync \<Rightarrow> os_result" where
  "os_fast_mutex_init_func f s =
     with_os_sync_mutex (os_sync_mutex_inited s)
       (\<lambda>s. s\<lparr>os_fast_mutex_count := os_fast_mutex_count s + 1\<rparr>)
       (s\<lparr>os_fasts := (os_fasts s)(f \<mapsto> False)\<rparr>)"

text \<open>Destroying a live fast mutex; the return code of \<open>pthread_mutex_destroy\<close> is ignored.\<close>

definition os_fast_mutex_free_func :: "fm_ref \<Rightarrow> os_sync \<Rightarrow> os_result" where
  "os_fast_mutex_free_func f s =
     (case os_fasts s f of
        None \<Rightarrow> Inl BadHandle
      | Some _ \<Rightarrow>
          with_os_sync_mutex (os_sync_mutex_inited s)
            (\<lambda>s. s\<lparr>os_fast_mutex_count := os_fast_mutex_count s - 1\<rparr>)
            (s\<lparr>os_fasts := (os_fasts s)(f := None)\<rparr>))"

section \<open>Events on the list\<close>

definition os_event_create :: "os_sync \<Rightarrow> os_error + (os_sync \<times> nat)" where
  "os_event_create s =
     (let e = os_brk s in
      bind_res (os_fast_mutex_init_func (EventFm e)
                  (s\<lparr>os_brk := Suc e, os_events := (os_events s)(e \<mapsto> os_event_new)\<rparr>))
        (\<lambda>s. bind_res
           (with_os_sync_mutex (os_sync_mutex s \<noteq> None)
              (\<lambda>s. s\<lparr>os_event_list := e # os_event_list s,
                     os_event_count := os_event_count s + 1\<rparr>) s)
           (\<lambda>s. Inr (s, e))))"

definition os_event_unlink :: "nat \<Rightarrow> os_sync \<Rightarrow> os_sync" where
  "os_event_unlink e s =
     s\<lparr>os_event_list := remove1 e (os_event_list s), os_event_count := os_event_count s - 1\<rparr>"

definition os_event_free_internal :: "nat \<Rightarrow> os_sync \<Rightarrow> os_result" where
  "os_event_free_internal e s =
     bind_res (os_fast_mutex_free_func (EventFm e) s)
       (\<lambda>s. let s = os_event_unlink e s in
            Inr (s\<lparr>os_events := (os_events s)(e := None)\<rparr>))"

definition os_event_free :: "nat \<Rightarrow> os_sync \<Rightarrow> os_result" where
  "os_event_free e s =
     bind_res (os_fast_mutex_free_func (EventFm e) s)
       (\<lambda>s. bind_res (with_os_sync_mutex True (os_event_unlink e) s)
          (\<lambda>s. Inr (s\<lparr>os_events := (os_events s)(e := None)\<rparr>)))"

section \<open>Slow mutexes on the list\<close>

definition os_mutex_create :: "os_sync \<Rightarrow> os_error + (os_sync \<times> nat)" where
  "os_mutex_create s =
     (let h = HandleFm (os_brk s); m = Suc (os_brk s) in
      bind_res (os_fast_mutex_init_func h (s\<lparr>os_brk := Suc m\<rparr>))
        (\<lambda>s. bind_res (os_event_create s)
          (\<lambda>(s, e). bind_res
             (with_os_sync_mutex (os_sync_mutex_inited s)
                (\<lambda>s. s\<lparr>os_mutex_list := m # os_mutex_list s,
                       os_mutex_count := os_mutex_count s + 1\<rparr>)
                (s\<lparr>os_mutexes :=
                     (os_mutexes s)(m \<mapsto> \<lparr>om_event = e, om_handle = h, om_count = 0\<rparr>)\<rparr>))
             (\<lambda>s. Inr (s, m)))))"

definition os_mutex_free :: "nat \<Rightarrow> os_sync \<Rightarrow> os_result" where
  "os_mutex_free m s =
     (case os_mutexes s m of
        None \<Rightarrow> Inl BadHandle
      | Some x \<Rightarrow>
          bind_res (if \<not> os_sync_free_called s then os_event_free_internal (om_event x) s
                    else Inr s)
            (\<lambda>s. bind_res
               (with_os_sync_mutex (os_sync_mutex_inited s)
                  (\<lambda>s. s\<lparr>os_mutex_list := remove1 m (os_mutex_list s),
                         os_mutex_count := os_mutex_count s - 1\<rparr>) s)
               (\<lambda>s. bind_res (os_fast_mutex_free_func (om_handle x) s)
                  (\<lambda>s. Inr (s\<lparr>os_mutexes := (os_mutexes s)(m := None)\<rparr>)))))"

section \<open>Start-up and shutdown\<close>

definition os_sync_init :: "os_sync \<Rightarrow> os_result" where
  "os_sync_init s =
     bind_res
       (os_mutex_create
          (s\<lparr>os_event_list := [], os_mutex_list := [], os_sync_mutex := None,
             os_sync_mutex_inited := False\<rparr>))
       (\<lambda>(s, m). Inr (s\<lparr>os_sync_mutex := Some m, os_sync_mutex_inited := True\<rparr>))"

text \<open>
  The two loops of \<open>os_sync_free\<close>, each freeing the first element until its list is empty.
  The fuel is the length of the list on entry.
\<close>

fun os_free_events :: "nat \<Rightarrow> os_sync \<Rightarrow> os_result" where
  "os_free_events n s =
     (case os_event_list s of
        [] \<Rightarrow> Inr s
      | e # _ \<Rightarrow> (case n of 0 \<Rightarrow> Inl OutOfFuel
                  | Suc k \<Rightarrow> bind_res (os_event_free e s) (os_free_events k)))"

fun os_free_mutexes :: "nat \<Rightarrow> os_sync \<Rightarrow> os_result" where
  "os_free_mutexes n s =
     (case os_mutex_list s of
        [] \<Rightarrow> Inr s
      | m # _ \<Rightarrow> (case n of 0 \<Rightarrow> Inl OutOfFuel
                  | Suc k \<Rightarrow>
                      bind_res
                        (os_mutex_free m
                           (if os_sync_mutex s = Some m then s\<lparr>os_sync_mutex_inited := False\<rparr>
                            else s))
                        (os_free_mutexes k)))"

declare os_free_events.simps [simp del] os_free_mutexes.simps [simp del]

definition os_sync_free :: "os_sync \<Rightarrow> os_result" where
  "os_sync_free s =
     (let s = s\<lparr>os_sync_free_called := True\<rparr> in
      bind_res (os_free_events (length (os_event_list s)) s)
        (\<lambda>s. bind_res (os_free_mutexes (length (os_mutex_list s)) s)
           (\<lambda>s. Inr (s\<lparr>os_sync_free_called := False\<rparr>))))"

text \<open>The zero-initialised statics of the file.\<close>

definition os_sync_statics :: os_sync where
  "os_sync_statics =
     \<lparr>os_sync_mutex = None, os_sync_mutex_inited = False, os_sync_free_called = False,
      os_event_list = [], os_mutex_list = [], os_event_count = 0, os_mutex_count = 0,
      os_fast_mutex_count = 0, os_events = Map.empty, os_mutexes = Map.empty,
      os_fasts = Map.empty, os_brk = 0\<rparr>"

section \<open>The bracket succeeds and is invisible\<close>

definition lock_ready :: "os_sync \<Rightarrow> bool" where
  "lock_ready s \<longleftrightarrow>
     (case os_sync_mutex s of
        None \<Rightarrow> False
      | Some m \<Rightarrow> (case os_mutexes s m of
                     None \<Rightarrow> False
                   | Some x \<Rightarrow> om_count x = 0 \<and> os_fasts s (om_handle x) = Some False))"

lemma lock_readyE:
  assumes "lock_ready s"
  obtains m x where "os_sync_mutex s = Some m" "os_mutexes s m = Some x" "om_count x = 0"
    "os_fasts s (om_handle x) = Some False"
  using assms by (auto simp: lock_ready_def split: option.splits)

lemma with_os_sync_mutex_ok:
  assumes ready: "b \<Longrightarrow> lock_ready s"
    and comm: "\<And>F M. body (s\<lparr>os_fasts := F, os_mutexes := M\<rparr>) =
                     (body s)\<lparr>os_fasts := F, os_mutexes := M\<rparr>"
    and keep: "os_fasts (body s) = os_fasts s" "os_mutexes (body s) = os_mutexes s"
  shows "with_os_sync_mutex b body s = Inr (body s)"
proof (cases b)
  case True
  with ready obtain m x where m: "os_sync_mutex s = Some m" "os_mutexes s m = Some x"
    and x: "om_count x = 0" "os_fasts s (om_handle x) = Some False"
    by (auto elim: lock_readyE)
  have x0: "x\<lparr>om_count := 0\<rparr> = x" using x(1) by simp
  have upd: "(os_mutexes s)(m \<mapsto> x) = os_mutexes s"
    "(os_fasts s)(om_handle x \<mapsto> False) = os_fasts s"
    using m(2) x(2) by (simp_all add: fun_upd_idem)
  have same: "(body s)\<lparr>os_mutexes := os_mutexes s, os_fasts := os_fasts s\<rparr> = body s"
    unfolding keep [symmetric] by simp
  have "os_mutex_enter m s =
      Inr (s\<lparr>os_fasts := (os_fasts s)(om_handle x \<mapsto> True),
             os_mutexes := (os_mutexes s)(m \<mapsto> x\<lparr>om_count := 1\<rparr>)\<rparr>)"
    using m x by (simp add: os_mutex_enter_def os_fast_mutex_lock_def Let_def)
  moreover have "os_mutex_exit m
        (body (s\<lparr>os_fasts := (os_fasts s)(om_handle x \<mapsto> True),
                 os_mutexes := (os_mutexes s)(m \<mapsto> x\<lparr>om_count := 1\<rparr>)\<rparr>)) = Inr (body s)"
    using same upd x0 by (simp add: comm os_mutex_exit_def os_fast_mutex_unlock_def)
  ultimately show ?thesis
    using True m by (simp add: with_os_sync_mutex_def)
qed (simp add: with_os_sync_mutex_def)

section \<open>Invariant\<close>

definition os_core :: "os_sync \<Rightarrow> bool" where
  "os_core s \<longleftrightarrow>
     distinct (os_event_list s) \<and> distinct (os_mutex_list s) \<and>
     dom (os_events s) = set (os_event_list s) \<and>
     dom (os_mutexes s) = set (os_mutex_list s) \<and>
     os_event_count s = of_nat (length (os_event_list s)) \<and>
     os_mutex_count s = of_nat (length (os_mutex_list s)) \<and>
     os_fast_mutex_count s = of_nat (length (os_event_list s) + length (os_mutex_list s)) \<and>
     (\<forall>m x. os_mutexes s m = Some x \<longrightarrow> 0 < m \<and> om_handle x = HandleFm (m - 1) \<and> om_count x = 0) \<and>
     (\<forall>e. os_fasts s (EventFm e) = (if e \<in> set (os_event_list s) then Some False else None)) \<and>
     (\<forall>h. os_fasts s (HandleFm h) =
            (if Suc h \<in> set (os_mutex_list s) then Some False else None)) \<and>
     (\<forall>a \<in> set (os_event_list s) \<union> set (os_mutex_list s). a < os_brk s)"

text \<open>Between \<open>os_sync_init\<close> and \<open>os_sync_free\<close>.\<close>

definition os_running :: "os_sync \<Rightarrow> bool" where
  "os_running s \<longleftrightarrow> os_core s \<and> os_sync_mutex_inited s \<and> \<not> os_sync_free_called s \<and>
     (\<exists>m \<in> set (os_mutex_list s). os_sync_mutex s = Some m)"

lemma os_core_lock_ready:
  assumes "os_core s" and "os_sync_mutex s = Some m" and "m \<in> set (os_mutex_list s)"
  shows "lock_ready s"
proof -
  from assms obtain x where x: "os_mutexes s m = Some x"
    unfolding os_core_def by (metis domD)
  with assms have "0 < m" "om_handle x = HandleFm (m - 1)" "om_count x = 0"
    by (auto simp: os_core_def)
  with assms x show ?thesis by (simp add: lock_ready_def os_core_def)
qed

section \<open>What each operation does to a well-formed state\<close>

lemma os_fast_mutex_free_func_eq:
  assumes "os_fasts s f = Some b"
    and "os_sync_mutex_inited s \<Longrightarrow> lock_ready (s\<lparr>os_fasts := (os_fasts s)(f := None)\<rparr>)"
  shows "os_fast_mutex_free_func f s =
         Inr (s\<lparr>os_fasts := (os_fasts s)(f := None),
                os_fast_mutex_count := os_fast_mutex_count s - 1\<rparr>)"
  using assms
  by (subst os_fast_mutex_free_func_def) (simp add: with_os_sync_mutex_ok)

lemma os_fast_mutex_init_func_eq:
  assumes "os_sync_mutex_inited s \<Longrightarrow> lock_ready (s\<lparr>os_fasts := (os_fasts s)(f \<mapsto> False)\<rparr>)"
  shows "os_fast_mutex_init_func f s =
         Inr (s\<lparr>os_fasts := (os_fasts s)(f \<mapsto> False),
                os_fast_mutex_count := os_fast_mutex_count s + 1\<rparr>)"
  using assms
  by (subst os_fast_mutex_init_func_def) (simp add: with_os_sync_mutex_ok)

lemma lock_ready_fasts:
  assumes "lock_ready s" and "\<And>m x. os_sync_mutex s = Some m \<Longrightarrow> os_mutexes s m = Some x \<Longrightarrow>
      F (om_handle x) = Some False"
  shows "lock_ready (s\<lparr>os_fasts := F\<rparr>)"
  using assms by (auto simp: lock_ready_def split: option.splits)

lemma lock_ready_upd [simp]:
  "lock_ready (s\<lparr>os_event_list := a\<rparr>) = lock_ready s"
  "lock_ready (s\<lparr>os_mutex_list := a\<rparr>) = lock_ready s"
  "lock_ready (s\<lparr>os_event_count := c\<rparr>) = lock_ready s"
  "lock_ready (s\<lparr>os_mutex_count := c\<rparr>) = lock_ready s"
  "lock_ready (s\<lparr>os_fast_mutex_count := c\<rparr>) = lock_ready s"
  "lock_ready (s\<lparr>os_events := E\<rparr>) = lock_ready s"
  "lock_ready (s\<lparr>os_brk := n\<rparr>) = lock_ready s"
  "lock_ready (s\<lparr>os_sync_mutex_inited := b\<rparr>) = lock_ready s"
  "lock_ready (s\<lparr>os_sync_free_called := b\<rparr>) = lock_ready s"
  by (simp_all add: lock_ready_def split: option.splits)

text \<open>An event's fast mutex is never the one under \<open>os_sync_mutex\<close>.\<close>

definition os_handles :: "os_sync \<Rightarrow> bool" where
  "os_handles s \<longleftrightarrow> (\<forall>m x. os_mutexes s m = Some x \<longrightarrow> om_handle x = HandleFm (m - 1))"

lemma os_core_handles [intro]: "os_core s \<Longrightarrow> os_handles s"
  by (simp add: os_core_def os_handles_def)

lemma lock_ready_event_fm:
  assumes "lock_ready s" and "os_handles s"
  shows "lock_ready (s\<lparr>os_fasts := (os_fasts s)(EventFm e := v)\<rparr>)"
  using assms by (auto simp: lock_ready_def os_handles_def split: option.splits)

lemma os_event_free_eq:
  assumes core: "os_core s" and ready: "lock_ready s" and e: "e \<in> set (os_event_list s)"
  shows "os_event_free e s =
     Inr (s\<lparr>os_fasts := (os_fasts s)(EventFm e := None),
            os_fast_mutex_count := os_fast_mutex_count s - 1,
            os_event_list := remove1 e (os_event_list s),
            os_event_count := os_event_count s - 1,
            os_events := (os_events s)(e := None)\<rparr>)"
proof -
  have f: "os_fasts s (EventFm e) = Some False" using core e by (simp add: os_core_def)
  have r: "lock_ready (s\<lparr>os_fasts := (os_fasts s)(EventFm e := None)\<rparr>)"
    using ready os_core_handles [OF core] by (rule lock_ready_event_fm)
  show ?thesis
    using r
    by (simp add: os_event_free_def os_fast_mutex_free_func_eq [OF f r] os_event_unlink_def
        with_os_sync_mutex_ok)
qed

text \<open>The state after one event left the list: the invariant holds again.\<close>

lemma of_nat_length_remove1:
  "x \<in> set xs \<Longrightarrow> (of_nat (length xs) :: 'a::ring_1) - 1 = of_nat (length (remove1 x xs))"
  using length_remove1_in [of x xs] by (metis add_diff_cancel_left' of_nat_Suc)

lemma os_core_event_gone [inv_intros]:
  assumes core: "os_core s" and e: "e \<in> set (os_event_list s)"
  shows "os_core (s\<lparr>os_fasts := (os_fasts s)(EventFm e := None),
            os_fast_mutex_count := os_fast_mutex_count s - 1,
            os_event_list := remove1 e (os_event_list s),
            os_event_count := os_event_count s - 1,
            os_events := (os_events s)(e := None)\<rparr>)"
proof -
  have len: "length (os_event_list s) = Suc (length (remove1 e (os_event_list s)))"
    using length_remove1_in [OF e] by simp
  from core show ?thesis
    unfolding os_core_def by (auto simp: len)
qed

text \<open>Freeing one event after another empties the event list.\<close>

lemma lock_ready_event_gone:
  assumes "lock_ready s" and "os_core s"
  shows "lock_ready (s\<lparr>os_fasts := (os_fasts s)(EventFm e := None),
            os_fast_mutex_count := a, os_event_list := l, os_event_count := c,
            os_events := E\<rparr>)"
  using lock_ready_event_fm [OF assms(1) os_core_handles [OF assms(2)], of e None] by simp

lemma os_free_events_ok:
  assumes "os_core s" and "lock_ready s" and "length (os_event_list s) \<le> n"
  shows "\<exists>s'. os_free_events n s = Inr s' \<and> os_core s' \<and> os_event_list s' = [] \<and>
         os_mutex_list s' = os_mutex_list s \<and> os_sync_mutex s' = os_sync_mutex s \<and>
         os_sync_mutex_inited s' = os_sync_mutex_inited s \<and>
         os_sync_free_called s' = os_sync_free_called s"
  using assms
proof (induction n arbitrary: s)
  case 0
  then show ?case by (simp add: os_free_events.simps)
next
  case (Suc n)
  show ?case
  proof (cases "os_event_list s")
    case Nil
    with Suc.prems show ?thesis by (simp add: os_free_events.simps)
  next
    case (Cons e es)
    let ?t = "s\<lparr>os_fasts := (os_fasts s)(EventFm e := None),
            os_fast_mutex_count := os_fast_mutex_count s - 1,
            os_event_list := remove1 e (os_event_list s),
            os_event_count := os_event_count s - 1,
            os_events := (os_events s)(e := None)\<rparr>"
    have e: "e \<in> set (os_event_list s)" using Cons by simp
    have "os_free_events (Suc n) s = os_free_events n ?t"
      using os_event_free_eq [OF Suc.prems(1,2) e] Cons
      by (simp add: os_free_events.simps [of "Suc n"])
    moreover have "os_core ?t" using Suc.prems(1) e by (rule os_core_event_gone)
    moreover have "lock_ready ?t" using Suc.prems(2,1) by (rule lock_ready_event_gone)
    moreover have "length (os_event_list ?t) \<le> n" using Suc.prems(3) Cons by simp
    ultimately show ?thesis using Suc.IH [of ?t] by simp
  qed
qed

text \<open>A slow mutex without its event: the shape every mutex has inside \<open>os_sync_free\<close>.\<close>

lemma os_core_mutex_gone [inv_intros]:
  assumes core: "os_core s" and m: "m \<in> set (os_mutex_list s)"
  shows "os_core (s\<lparr>os_mutex_list := remove1 m (os_mutex_list s),
            os_mutex_count := os_mutex_count s - 1,
            os_fasts := (os_fasts s)(HandleFm (m - 1) := None),
            os_fast_mutex_count := os_fast_mutex_count s - 1,
            os_mutexes := (os_mutexes s)(m := None)\<rparr>)"
proof -
  have len: "length (os_mutex_list s) = Suc (length (remove1 m (os_mutex_list s)))"
    using length_remove1_in [OF m] by simp
  have m0: "0 < m"
    using core m unfolding os_core_def by (metis domD)
  then have pred: "Suc h = m \<longleftrightarrow> h = m - 1" for h by auto
  from core m0 show ?thesis
    unfolding os_core_def by (auto simp: len pred)
qed

text \<open>The second half of \<open>os_mutex_free\<close>, after the mutex's event is out of the way.\<close>

lemma os_mutex_free_rest:
  assumes core: "os_core s" and x: "os_mutexes s m = Some x"
    and ready: "os_sync_mutex_inited s \<Longrightarrow> lock_ready s \<and> os_sync_mutex s \<noteq> Some m"
  shows "bind_res
           (with_os_sync_mutex (os_sync_mutex_inited s)
              (\<lambda>s. s\<lparr>os_mutex_list := remove1 m (os_mutex_list s),
                     os_mutex_count := os_mutex_count s - 1\<rparr>) s)
           (\<lambda>s. bind_res (os_fast_mutex_free_func (om_handle x) s)
              (\<lambda>s. Inr (s\<lparr>os_mutexes := (os_mutexes s)(m := None)\<rparr>))) =
     Inr (s\<lparr>os_mutex_list := remove1 m (os_mutex_list s),
            os_mutex_count := os_mutex_count s - 1,
            os_fasts := (os_fasts s)(HandleFm (m - 1) := None),
            os_fast_mutex_count := os_fast_mutex_count s - 1,
            os_mutexes := (os_mutexes s)(m := None)\<rparr>)"
proof -
  let ?u = "s\<lparr>os_mutex_list := remove1 m (os_mutex_list s),
              os_mutex_count := os_mutex_count s - 1\<rparr>"
  have m: "m \<in> set (os_mutex_list s)" and h: "om_handle x = HandleFm (m - 1)" "0 < m"
    using core x unfolding os_core_def by blast+
  have f: "os_fasts s (HandleFm (m - 1)) = Some False"
    using core m h(2) by (simp add: os_core_def)
  have "lock_ready (?u\<lparr>os_fasts := (os_fasts ?u)(HandleFm (m - 1) := None)\<rparr>)"
    if i: "os_sync_mutex_inited ?u"
  proof (rule lock_ready_fasts)
    have r: "lock_ready s" "os_sync_mutex s \<noteq> Some m" using ready i by simp_all
    show "lock_ready ?u" using r by simp
    fix m' x' assume sm: "os_sync_mutex ?u = Some m'" "os_mutexes ?u m' = Some x'"
    have "0 < m'" "om_handle x' = HandleFm (m' - 1)"
      using core sm(2) unfolding os_core_def by simp_all
    moreover have "os_fasts s (om_handle x') = Some False"
      using r sm by (simp add: lock_ready_def)
    ultimately show "((os_fasts ?u)(HandleFm (m - 1) := None)) (om_handle x') = Some False"
      using h(2) r sm(1) by auto
  qed
  then have "os_fast_mutex_free_func (HandleFm (m - 1)) ?u =
      Inr (?u\<lparr>os_fasts := (os_fasts ?u)(HandleFm (m - 1) := None),
             os_fast_mutex_count := os_fast_mutex_count ?u - 1\<rparr>)"
    using f by (intro os_fast_mutex_free_func_eq [where b = False]) simp_all
  then show ?thesis
    using h(1) ready by (simp add: with_os_sync_mutex_ok)
qed

lemma os_mutex_free_eq:
  assumes core: "os_core s" and m: "m \<in> set (os_mutex_list s)"
    and called: "os_sync_free_called s"
    and ready: "os_sync_mutex_inited s \<Longrightarrow> lock_ready s \<and> os_sync_mutex s \<noteq> Some m"
  shows "os_mutex_free m s =
     Inr (s\<lparr>os_mutex_list := remove1 m (os_mutex_list s),
            os_mutex_count := os_mutex_count s - 1,
            os_fasts := (os_fasts s)(HandleFm (m - 1) := None),
            os_fast_mutex_count := os_fast_mutex_count s - 1,
            os_mutexes := (os_mutexes s)(m := None)\<rparr>)"
proof -
  obtain x where x: "os_mutexes s m = Some x"
    using core m unfolding os_core_def by (metis domD)
  show ?thesis
    using os_mutex_free_rest [OF core x ready] x called by (simp add: os_mutex_free_def)
qed

lemma os_free_mutexes_ok:
  assumes "os_core s" and "os_sync_free_called s"
    and "os_sync_mutex_inited s \<Longrightarrow> \<exists>m \<in> set (os_mutex_list s). os_sync_mutex s = Some m"
    and "length (os_mutex_list s) \<le> n"
  shows "\<exists>s'. os_free_mutexes n s = Inr s' \<and> os_core s' \<and> os_mutex_list s' = [] \<and>
         os_event_list s' = os_event_list s"
  using assms
proof (induction n arbitrary: s)
  case 0
  then show ?case by (simp add: os_free_mutexes.simps)
next
  case (Suc n)
  show ?case
  proof (cases "os_mutex_list s")
    case Nil
    with Suc.prems show ?thesis by (simp add: os_free_mutexes.simps)
  next
    case (Cons m ms)
    define u where "u = (if os_sync_mutex s = Some m then s\<lparr>os_sync_mutex_inited := False\<rparr> else s)"
    let ?t = "u\<lparr>os_mutex_list := remove1 m (os_mutex_list u),
            os_mutex_count := os_mutex_count u - 1,
            os_fasts := (os_fasts u)(HandleFm (m - 1) := None),
            os_fast_mutex_count := os_fast_mutex_count u - 1,
            os_mutexes := (os_mutexes u)(m := None)\<rparr>"
    have m: "m \<in> set (os_mutex_list u)" using Cons by (simp add: u_def)
    have core: "os_core u" using Suc.prems(1) by (simp add: u_def os_core_def)
    have called: "os_sync_free_called u" using Suc.prems(2) by (simp add: u_def)
    have held: "\<exists>k \<in> set (os_mutex_list u). os_sync_mutex u = Some k \<and> k \<noteq> m"
      if "os_sync_mutex_inited u"
      using Suc.prems(3) that by (auto simp: u_def split: if_splits)
    have ready: "lock_ready u \<and> os_sync_mutex u \<noteq> Some m" if "os_sync_mutex_inited u"
      using held [OF that] core by (auto intro: os_core_lock_ready)
    have "os_free_mutexes (Suc n) s = os_free_mutexes n ?t"
      using os_mutex_free_eq [OF core m called ready] Cons
      by (simp add: os_free_mutexes.simps [of "Suc n"] u_def)
    moreover have "os_core ?t" using core m by (rule os_core_mutex_gone)
    moreover have "\<exists>k \<in> set (os_mutex_list ?t). os_sync_mutex ?t = Some k"
      if "os_sync_mutex_inited ?t"
      using held that by auto
    moreover have "length (os_mutex_list ?t) \<le> n"
      using Suc.prems(4) Cons by (simp add: u_def)
    moreover have "os_event_list ?t = os_event_list s" by (simp add: u_def)
    ultimately show ?thesis using Suc.IH [of ?t] called by simp
  qed
qed

text \<open>Creation.\<close>

lemma os_event_create_eq:
  assumes handles: "os_handles s" and ready: "os_sync_mutex s \<noteq> None \<Longrightarrow> lock_ready s"
    and inited: "os_sync_mutex_inited s \<Longrightarrow> os_sync_mutex s \<noteq> None"
  shows "os_event_create s =
     Inr (s\<lparr>os_brk := Suc (os_brk s), os_events := (os_events s)(os_brk s \<mapsto> os_event_new),
            os_fasts := (os_fasts s)(EventFm (os_brk s) \<mapsto> False),
            os_fast_mutex_count := os_fast_mutex_count s + 1,
            os_event_list := os_brk s # os_event_list s,
            os_event_count := os_event_count s + 1\<rparr>, os_brk s)"
proof -
  let ?e = "os_brk s"
  let ?u = "s\<lparr>os_brk := Suc ?e, os_events := (os_events s)(?e \<mapsto> os_event_new)\<rparr>"
  let ?v = "?u\<lparr>os_fasts := (os_fasts ?u)(EventFm ?e \<mapsto> False),
              os_fast_mutex_count := os_fast_mutex_count ?u + 1\<rparr>"
  have r: "lock_ready (s\<lparr>os_fasts := (os_fasts s)(EventFm ?e \<mapsto> False)\<rparr>)"
    if "os_sync_mutex s \<noteq> None"
    using ready [OF that] handles by (rule lock_ready_event_fm)
  have u: "lock_ready (?u\<lparr>os_fasts := (os_fasts ?u)(EventFm ?e \<mapsto> False)\<rparr>)"
    if "os_sync_mutex_inited ?u"
    using r inited that by (auto simp: lock_ready_def split: option.splits)
  have v: "lock_ready ?v" if "os_sync_mutex ?v \<noteq> None"
    using r that by (auto simp: lock_ready_def split: option.splits)
  have "os_fast_mutex_init_func (EventFm ?e) ?u = Inr ?v"
    using u by (rule os_fast_mutex_init_func_eq)
  then show ?thesis
    using v by (simp add: os_event_create_def Let_def with_os_sync_mutex_ok)
qed

lemma os_core_event_new [inv_intros]:
  assumes "os_core s"
  shows "os_core (s\<lparr>os_brk := Suc (os_brk s),
            os_events := (os_events s)(os_brk s \<mapsto> os_event_new),
            os_fasts := (os_fasts s)(EventFm (os_brk s) \<mapsto> False),
            os_fast_mutex_count := os_fast_mutex_count s + 1,
            os_event_list := os_brk s # os_event_list s,
            os_event_count := os_event_count s + 1\<rparr>)"
  using assms unfolding os_core_def by (auto simp: algebra_simps intro: less_SucI)

text \<open>
  A slow mutex is its event, then the mutex itself: \<open>os_mutex_new\<close> is the state change that
  the rest of \<open>os_mutex_create\<close> makes around \<open>os_event_create\<close>.
\<close>

definition os_mutex_new :: "nat \<Rightarrow> nat \<Rightarrow> os_sync \<Rightarrow> os_sync" where
  "os_mutex_new m e s =
     s\<lparr>os_mutexes := (os_mutexes s)(m \<mapsto> \<lparr>om_event = e, om_handle = HandleFm (m - 1), om_count = 0\<rparr>),
       os_mutex_list := m # os_mutex_list s, os_mutex_count := os_mutex_count s + 1,
       os_fasts := (os_fasts s)(HandleFm (m - 1) \<mapsto> False),
       os_fast_mutex_count := os_fast_mutex_count s + 1\<rparr>"

lemma os_core_mutex_new [inv_intros]:
  assumes core: "os_core s" and m: "0 < m" "m < os_brk s" "m \<notin> set (os_mutex_list s)"
  shows "os_core (os_mutex_new m e s)"
proof -
  have pred: "Suc h = m \<longleftrightarrow> h = m - 1" for h using m(1) by auto
  from core m show ?thesis
    unfolding os_core_def os_mutex_new_def by (auto simp: pred algebra_simps)
qed

lemma os_core_brk: "os_core s \<Longrightarrow> os_brk s \<le> n \<Longrightarrow> os_core (s\<lparr>os_brk := n\<rparr>)"
  by (auto simp: os_core_def intro: order_less_le_trans)

lemma fm_upd_twist:
  "f(HandleFm a := x, EventFm b := y) = f(EventFm b := y, HandleFm a := x)"
  by (rule fun_upd_twist) simp

lemma os_mutex_create_eq:
  assumes handles: "os_handles s" and ready: "os_sync_mutex s \<noteq> None \<Longrightarrow> lock_ready s"
    and inited: "os_sync_mutex_inited s \<Longrightarrow> os_sync_mutex s \<noteq> None"
    and fresh: "\<And>m. os_sync_mutex s = Some m \<Longrightarrow> m < os_brk s \<and> 0 < m"
  defines "m \<equiv> Suc (os_brk s)" and "u \<equiv> s\<lparr>os_brk := Suc (Suc (os_brk s))\<rparr>"
  shows "\<exists>v. os_event_create u = Inr (v, Suc m) \<and>
             os_mutex_create s = Inr (os_mutex_new m (Suc m) v, m)"
proof -
  let ?h = "HandleFm (os_brk s)"
  let ?w = "u\<lparr>os_fasts := (os_fasts u)(?h \<mapsto> False), os_fast_mutex_count := os_fast_mutex_count u + 1\<rparr>"
  let ?new = "\<lambda>x. x\<lparr>os_brk := Suc (os_brk x), os_events := (os_events x)(os_brk x \<mapsto> os_event_new),
            os_fasts := (os_fasts x)(EventFm (os_brk x) \<mapsto> False),
            os_fast_mutex_count := os_fast_mutex_count x + 1,
            os_event_list := os_brk x # os_event_list x,
            os_event_count := os_event_count x + 1\<rparr>"
  have u: "os_handles u" "os_sync_mutex u \<noteq> None \<Longrightarrow> lock_ready u"
    "os_sync_mutex_inited u \<Longrightarrow> os_sync_mutex u \<noteq> None"
    using handles ready inited by (simp_all add: u_def os_handles_def)
  have rw: "lock_ready (u\<lparr>os_fasts := (os_fasts u)(?h \<mapsto> False)\<rparr>)" if "os_sync_mutex u \<noteq> None"
    using u(2) [OF that] by (rule lock_ready_fasts) (use u(2) [OF that] in \<open>auto simp: lock_ready_def\<close>)
  then have w: "os_handles ?w" "os_sync_mutex ?w \<noteq> None \<Longrightarrow> lock_ready ?w"
    "os_sync_mutex_inited ?w \<Longrightarrow> os_sync_mutex ?w \<noteq> None"
    using u by (auto simp: os_handles_def)
  have ev_u: "os_event_create u = Inr (?new u, Suc m)"
    using os_event_create_eq [OF u] by (simp add: u_def m_def)
  have ev_w: "os_event_create ?w = Inr (?new ?w, Suc m)"
    using os_event_create_eq [OF w] by (simp add: u_def m_def)
  have init: "os_fast_mutex_init_func ?h u = Inr ?w"
    using rw u(3) by (intro os_fast_mutex_init_func_eq) blast
  let ?z = "(?new ?w)\<lparr>os_mutexes := (os_mutexes ?w)(m \<mapsto> \<lparr>om_event = Suc m, om_handle = ?h, om_count = 0\<rparr>)\<rparr>"
  have z: "lock_ready ?z" if "os_sync_mutex_inited ?z"
    using w(2,3) that fresh handles
    by (auto simp: lock_ready_def u_def m_def os_handles_def split: option.splits)
  then have "os_mutex_create s = Inr (os_mutex_new m (Suc m) (?new u), m)"
    using init ev_w
    by (simp add: os_mutex_create_def Let_def with_os_sync_mutex_ok os_mutex_new_def m_def u_def
        fm_upd_twist)
  with ev_u show ?thesis by blast
qed

lemma os_event_free_internal_eq:
  assumes "os_core s" and "lock_ready s" and "e \<in> set (os_event_list s)"
  shows "os_event_free_internal e s = os_event_free e s"
proof -
  have f: "os_fasts s (EventFm e) = Some False" using assms(1,3) by (simp add: os_core_def)
  have r: "lock_ready (s\<lparr>os_fasts := (os_fasts s)(EventFm e := None)\<rparr>)"
    using assms(2) os_core_handles [OF assms(1)] by (rule lock_ready_event_fm)
  show ?thesis
    unfolding os_event_free_eq [OF assms]
    by (simp add: os_event_free_internal_def os_fast_mutex_free_func_eq [OF f r]
        os_event_unlink_def Let_def)
qed

lemma os_running_ready:
  assumes "os_running s"
  shows "os_core s" "lock_ready s" "os_sync_mutex_inited s" "\<not> os_sync_free_called s"
    "os_sync_mutex s \<noteq> None"
  using assms os_core_lock_ready by (auto simp: os_running_def)

section \<open>The operations of a running system\<close>

lemma os_running_event_create:
  assumes "os_running s"
  shows "\<exists>s' e. os_event_create s = Inr (s', e) \<and> os_running s' \<and>
                os_event_list s' = e # os_event_list s \<and> os_mutex_list s' = os_mutex_list s"
proof -
  note r = os_running_ready [OF assms]
  from os_event_create_eq [OF os_core_handles [OF r(1)] r(2) r(5)] show ?thesis
    using assms os_core_event_new [OF r(1)] by (auto simp: os_running_def)
qed

lemma os_running_mutex_create:
  assumes run: "os_running s"
  shows "\<exists>s' m. os_mutex_create s = Inr (s', m) \<and> os_running s' \<and>
                os_mutex_list s' = m # os_mutex_list s"
proof -
  note r = os_running_ready [OF run]
  let ?m = "Suc (os_brk s)" and ?u = "s\<lparr>os_brk := Suc (Suc (os_brk s))\<rparr>"
  have fresh: "m < os_brk s \<and> 0 < m" if "os_sync_mutex s = Some m" for m
  proof -
    have "m \<in> set (os_mutex_list s)" using run that by (auto simp: os_running_def)
    moreover from this have "0 < m" using r(1) unfolding os_core_def by (metis domD)
    ultimately show ?thesis using r(1) by (auto simp: os_core_def)
  qed
  obtain v where v: "os_event_create ?u = Inr (v, Suc ?m)"
    "os_mutex_create s = Inr (os_mutex_new ?m (Suc ?m) v, ?m)"
    using os_mutex_create_eq [OF os_core_handles [OF r(1)] r(2) r(5) fresh] by blast
  have u: "os_running ?u" using run r(1) os_core_brk [of s "Suc (Suc (os_brk s))"]
    by (auto simp: os_running_def)
  note ru = os_running_ready [OF u]
  have veq: "v = ?u\<lparr>os_brk := Suc (os_brk ?u),
            os_events := (os_events ?u)(os_brk ?u \<mapsto> os_event_new),
            os_fasts := (os_fasts ?u)(EventFm (os_brk ?u) \<mapsto> False),
            os_fast_mutex_count := os_fast_mutex_count ?u + 1,
            os_event_list := os_brk ?u # os_event_list ?u,
            os_event_count := os_event_count ?u + 1\<rparr>"
    using v(1) os_event_create_eq [OF os_core_handles [OF ru(1)] ru(2) ru(5)] by simp
  have "os_core v" unfolding veq by (rule os_core_event_new [OF ru(1)])
  moreover have "?m \<notin> set (os_mutex_list v)" 
    using r(1) by (auto simp: veq os_core_def dest: bspec [of _ _ ?m])
  ultimately have "os_core (os_mutex_new ?m (Suc ?m) v)"
    by (intro os_core_mutex_new) (simp_all add: veq)
  then show ?thesis
    using v(2) run by (auto simp: os_running_def os_mutex_new_def veq)
qed

lemma os_running_event_free:
  assumes "os_running s" and "e \<in> set (os_event_list s)"
  shows "\<exists>s'. os_event_free e s = Inr s' \<and> os_running s' \<and>
              os_event_list s' = remove1 e (os_event_list s) \<and> os_mutexes s' = os_mutexes s"
proof -
  note r = os_running_ready [OF assms(1)]
  from os_event_free_eq [OF r(1,2) assms(2)] os_core_event_gone [OF r(1) assms(2)] show ?thesis
    using assms(1) by (auto simp: os_running_def)
qed

lemma os_running_mutex_free:
  assumes run: "os_running s" and x: "os_mutexes s m = Some x" and sm: "os_sync_mutex s \<noteq> Some m"
    and e: "om_event x \<in> set (os_event_list s)"
  shows "\<exists>s'. os_mutex_free m s = Inr s' \<and> os_running s' \<and>
              os_mutex_list s' = remove1 m (os_mutex_list s) \<and>
              os_event_list s' = remove1 (om_event x) (os_event_list s)"
proof -
  note r = os_running_ready [OF run]
  obtain t where t: "os_event_free (om_event x) s = Inr t" "os_running t"
    "os_event_list t = remove1 (om_event x) (os_event_list s)" "os_mutexes t = os_mutexes s"
    using os_running_event_free [OF run e] by blast
  from t(1) os_event_free_eq [OF r(1,2) e]
  have same: "os_mutex_list t = os_mutex_list s" "os_sync_mutex t = os_sync_mutex s" by auto
  note rt = os_running_ready [OF t(2)]
  have xt: "os_mutexes t m = Some x" using x t(4) by simp
  have m: "m \<in> set (os_mutex_list t)" using rt(1) xt unfolding os_core_def by blast
  have ready: "lock_ready t \<and> os_sync_mutex t \<noteq> Some m" using rt(2) sm same by simp
  show ?thesis
    using os_event_free_internal_eq [OF r(1,2) e] os_mutex_free_rest [OF rt(1) xt ready]
      os_core_mutex_gone [OF rt(1) m] t r(4) x sm same
    by (auto simp: os_mutex_free_def os_running_def)
qed

lemma os_sync_init_ok:
  "\<exists>s. os_sync_init os_sync_statics = Inr s \<and> os_running s \<and>
       length (os_event_list s) = 1 \<and> length (os_mutex_list s) = 1"
proof -
  let ?s = "os_sync_statics"
  let ?u = "?s\<lparr>os_brk := 2\<rparr>"
  have core: "os_core ?s" "os_core ?u" by (simp_all add: os_core_def os_sync_statics_def)
  have u0: "os_sync_mutex ?u = None" "\<not> os_sync_mutex_inited ?u" by (simp_all add: os_sync_statics_def)
  have ev: "os_event_create ?u = Inr (?u\<lparr>os_brk := Suc (os_brk ?u),
            os_events := (os_events ?u)(os_brk ?u \<mapsto> os_event_new),
            os_fasts := (os_fasts ?u)(EventFm (os_brk ?u) \<mapsto> False),
            os_fast_mutex_count := os_fast_mutex_count ?u + 1,
            os_event_list := os_brk ?u # os_event_list ?u,
            os_event_count := os_event_count ?u + 1\<rparr>, os_brk ?u)" (is "_ = Inr (?v, _)")
    using u0 by (intro os_event_create_eq os_core_handles [OF core(2)]) simp_all
  have "\<exists>v. os_event_create ?u = Inr (v, 2) \<and> os_mutex_create ?s = Inr (os_mutex_new 1 2 v, 1)"
    using os_mutex_create_eq [OF os_core_handles [OF core(1)]]
    by (simp add: os_sync_statics_def numeral_2_eq_2)
  with ev have new: "os_mutex_create ?s = Inr (os_mutex_new 1 2 ?v, 1)" by auto
  have "os_core (os_mutex_new 1 2 ?v)"
    by (intro os_core_mutex_new os_core_event_new core) (simp_all add: os_sync_statics_def)
  moreover have "os_sync_init ?s =
      Inr ((os_mutex_new 1 2 ?v)\<lparr>os_sync_mutex := Some 1, os_sync_mutex_inited := True\<rparr>)"
    using new by (simp add: os_sync_init_def os_sync_statics_def)
  ultimately show ?thesis
    by (auto simp: os_running_def os_core_def os_mutex_new_def os_sync_statics_def)
qed

lemma os_running_sync_free:
  assumes run: "os_running s"
  shows "\<exists>s'. os_sync_free s = Inr s' \<and> os_core s' \<and> os_event_list s' = [] \<and> os_mutex_list s' = []"
proof -
  let ?s = "s\<lparr>os_sync_free_called := True\<rparr>"
  note r = os_running_ready [OF run]
  have c: "os_core ?s" "lock_ready ?s" using r(1,2) by (simp_all add: os_core_def)
  obtain t where t: "os_free_events (length (os_event_list ?s)) ?s = Inr t" "os_core t"
    "os_event_list t = []" "os_mutex_list t = os_mutex_list ?s"
    "os_sync_mutex t = os_sync_mutex ?s" "os_sync_free_called t"
    using os_free_events_ok [OF c order_refl] by auto
  obtain u where u: "os_free_mutexes (length (os_mutex_list t)) t = Inr u" "os_core u"
    "os_mutex_list u = []" "os_event_list u = os_event_list t"
    using os_free_mutexes_ok [OF t(2,6) _ order_refl] t(4,5) run by (auto simp: os_running_def)
  have "os_sync_free s = Inr (u\<lparr>os_sync_free_called := False\<rparr>)"
    using t(1) u(1) by (simp add: os_sync_free_def Let_def)
  then show ?thesis using u t(3) by (simp add: os_core_def)
qed

lemma os_core_empty:
  assumes "os_core s" and "os_event_list s = []" and "os_mutex_list s = []"
  shows "os_event_count s = 0 \<and> os_mutex_count s = 0 \<and> os_fast_mutex_count s = 0 \<and>
         os_events s = Map.empty \<and> os_mutexes s = Map.empty \<and> os_fasts s = Map.empty"
proof -
  have "os_fasts s f = None" for f
    using assms by (cases f) (simp_all add: os_core_def)
  then show ?thesis using assms by (auto simp: os_core_def)
qed

section \<open>Properties\<close>

text \<open>
  start-up.  From the zeroed statics \<open>os_sync_init\<close> succeeds (no failed assertion, no
  self-deadlock on \<open>os_sync_mutex\<close>, which does not exist yet) and leaves a well-formed running
  system that holds exactly \<open>os_sync_mutex\<close> and its event.
\<close>

theorem os_sync_init_running:
  "\<exists>s. os_sync_init os_sync_statics = Inr s \<and> os_running s \<and>
       length (os_event_list s) = 1 \<and> length (os_mutex_list s) = 1"
  by (rule os_sync_init_ok)

text \<open>
  C8: every creation and every legal free of a running system succeeds, keeps the system
  well-formed (lists duplicate-free and equal to the live objects, each counter equal to the
  length of its list, every mutex unlocked) and changes the lists as expected.  A slow mutex
  may be freed while its event is live, unless it is \<open>os_sync_mutex\<close> itself.
\<close>

theorem os_running_operations:
  assumes "os_running s"
  shows "(\<exists>s' e. os_event_create s = Inr (s', e) \<and> os_running s' \<and>
                 os_event_list s' = e # os_event_list s) \<and>
         (\<exists>s' m. os_mutex_create s = Inr (s', m) \<and> os_running s' \<and>
                 os_mutex_list s' = m # os_mutex_list s) \<and>
         (\<forall>e \<in> set (os_event_list s).
            \<exists>s'. os_event_free e s = Inr s' \<and> os_running s' \<and>
                 os_event_list s' = remove1 e (os_event_list s)) \<and>
         (\<forall>m x. os_mutexes s m = Some x \<longrightarrow> os_sync_mutex s \<noteq> Some m \<longrightarrow>
            om_event x \<in> set (os_event_list s) \<longrightarrow>
            (\<exists>s'. os_mutex_free m s = Inr s' \<and> os_running s' \<and>
                  os_mutex_list s' = remove1 m (os_mutex_list s) \<and>
                  os_event_list s' = remove1 (om_event x) (os_event_list s)))"
  using os_running_event_create [OF assms] os_running_mutex_create [OF assms]
    os_running_event_free [OF assms] os_running_mutex_free [OF assms]
  by blast

theorem os_running_operations_witness:
  "\<exists>s s' e. os_sync_init os_sync_statics = Inr s \<and> os_event_create s = Inr (s', e) \<and>
            os_running s' \<and> length (os_event_list s') = 2"
proof -
  obtain s where s: "os_sync_init os_sync_statics = Inr s" "os_running s"
    "length (os_event_list s) = 1"
    using os_sync_init_ok by blast
  with os_running_operations [OF s(2)] show ?thesis by fastforce
qed

text \<open>
  C9: shutdown.  On a running system \<open>os_sync_free\<close> ends (its two loops free at most as many
  objects as their lists hold), never fails an assertion or locks a mutex twice, even while it
  frees \<open>os_sync_mutex\<close> itself, and afterwards no event, slow mutex or fast mutex is live and
  the three counters are zero.
\<close>

theorem os_sync_free_releases_all:
  assumes "os_running s"
  shows "\<exists>s'. os_sync_free s = Inr s' \<and> os_event_list s' = [] \<and> os_mutex_list s' = [] \<and>
              os_event_count s' = 0 \<and> os_mutex_count s' = 0 \<and> os_fast_mutex_count s' = 0 \<and>
              os_events s' = Map.empty \<and> os_mutexes s' = Map.empty \<and> os_fasts s' = Map.empty"
  using os_running_sync_free [OF assms] os_core_empty by blast

theorem os_sync_free_releases_all_witness:
  "\<exists>s s'. os_sync_init os_sync_statics = Inr s \<and> os_running s \<and>
          os_sync_free s = Inr s' \<and> os_fast_mutex_count s' = 0"
proof -
  obtain s where s: "os_sync_init os_sync_statics = Inr s" "os_running s"
    using os_sync_init_ok by blast
  with os_sync_free_releases_all [OF s(2)] show ?thesis by blast
qed

end
