(* ===== verification/SpinLock.thy ===== *)
theory SpinLock
  imports Prelude
begin

text \<open>
  Spin locks in general.  A spin lock of the sources is a lock word and four ingredients: the
  atomic instruction it tries to acquire the word with, whether (and on which values) it waits
  with plain loads before it tries (again), and the instruction that releases the word.
  \<open>spin_step\<close> interleaves any number of threads that lock and unlock one word this way.  The
  locale \<open>spin_lock\<close> states what the instructions have to satisfy, and proves mutual exclusion
  and progress from that; every lock function of \<open>hle/lock_functions\<close> and of the modified
  InnoDB interprets it.

  A lock acquired by hardware lock elision is modelled by its non-elided execution, which is
  the one the processor falls back to and whose outcomes elision does not extend.
\<close>

record 'w lock_alg =
  acquire :: "'w \<Rightarrow> bool \<times> 'w"     \<comment> \<open>(the loop condition: still busy, new word)\<close>
  waits_first :: bool                \<comment> \<open>load until free before the first attempt\<close>
  waits_inside :: bool               \<comment> \<open>load until free after a failed attempt\<close>
  wait_more :: "'w \<Rightarrow> bool"          \<comment> \<open>the condition of the load loop\<close>
  release :: "'w \<Rightarrow> 'w"

datatype spin_pc = Idle | Trying | Waiting | Critical

record 'w spin_sys =
  lword :: 'w
  spcs :: "nat \<Rightarrow> spin_pc"

inductive spin_step :: "'w lock_alg \<Rightarrow> 'w spin_sys \<Rightarrow> 'w spin_sys \<Rightarrow> bool" for A where
  start: "spcs s t = Idle \<Longrightarrow>
     spin_step A s (s\<lparr>spcs := (spcs s)(t := if waits_first A then Waiting else Trying)\<rparr>)"
| got: "spcs s t = Trying \<Longrightarrow> acquire A (lword s) = (False, w) \<Longrightarrow>
     spin_step A s (s\<lparr>lword := w, spcs := (spcs s)(t := Critical)\<rparr>)"
| busy: "spcs s t = Trying \<Longrightarrow> acquire A (lword s) = (True, w) \<Longrightarrow>
     spin_step A s
       (s\<lparr>lword := w, spcs := (spcs s)(t := if waits_inside A then Waiting else Trying)\<rparr>)"
| seen_free: "spcs s t = Waiting \<Longrightarrow> \<not> wait_more A (lword s) \<Longrightarrow>
     spin_step A s (s\<lparr>spcs := (spcs s)(t := Trying)\<rparr>)"
| seen_busy: "spcs s t = Waiting \<Longrightarrow> wait_more A (lword s) \<Longrightarrow> spin_step A s s"
| unlock: "spcs s t = Critical \<Longrightarrow>
     spin_step A s (s\<lparr>lword := release A (lword s), spcs := (spcs s)(t := Idle)\<rparr>)"

inductive spin_reach :: "'w lock_alg \<Rightarrow> 'w \<Rightarrow> 'w spin_sys \<Rightarrow> bool" for A w0 where
  init: "spin_reach A w0 \<lparr>lword = w0, spcs = (\<lambda>_. Idle)\<rparr>"
| step: "spin_reach A w0 s \<Longrightarrow> spin_step A s s' \<Longrightarrow> spin_reach A w0 s'"

inductive_cases spin_stepE: "spin_step A s s'"

lemma spin_reach_start:
  "spin_reach A w0
     \<lparr>lword = w0, spcs = (\<lambda>_. Idle)(t := if waits_first A then Waiting else Trying)\<rparr>"
  using spin_reach.step [OF spin_reach.init spin_step.start [of _ t], of w0 A]
  by (simp split del: if_split)

text \<open>What the instructions promise, for lock words in the set \<open>valid\<close>.\<close>

locale spin_lock =
  fixes A :: "'w lock_alg" and valid :: "'w \<Rightarrow> bool" and held :: "'w \<Rightarrow> bool"
  assumes acquire_busy: "valid w \<Longrightarrow> fst (acquire A w) = held w"
    and acquire_held: "valid w \<Longrightarrow> valid (snd (acquire A w)) \<and> held (snd (acquire A w))"
    and release_free: "valid w \<Longrightarrow> valid (release A w) \<and> \<not> held (release A w)"
    and wait_held: "valid w \<Longrightarrow> wait_more A w = held w"
begin

definition lock_inv :: "'w spin_sys \<Rightarrow> bool" where
  "lock_inv s \<longleftrightarrow> valid (lword s) \<and> (held (lword s) \<longleftrightarrow> (\<exists>t. spcs s t = Critical)) \<and>
     (\<forall>t u. spcs s t = Critical \<longrightarrow> spcs s u = Critical \<longrightarrow> t = u)"

lemma acquire_false: "valid w \<Longrightarrow> acquire A w = (False, w') \<Longrightarrow> \<not> held w \<and> held w' \<and> valid w'"
  using acquire_busy [of w] acquire_held [of w] by simp

lemma acquire_true: "valid w \<Longrightarrow> acquire A w = (True, w') \<Longrightarrow> held w \<and> held w' \<and> valid w'"
  using acquire_busy [of w] acquire_held [of w] by simp

lemma step_inv: "spin_step A s s' \<Longrightarrow> lock_inv s \<Longrightarrow> lock_inv s'"
proof (induction rule: spin_step.induct)
  case (got s t w)
  then show ?case by (auto simp: lock_inv_def dest: acquire_false)
next
  case (busy s t w)
  then have "held (lword s)" "held w" "valid w" by (auto simp: lock_inv_def dest: acquire_true)
  with busy show ?case
    by (auto simp: lock_inv_def) (metis spin_pc.distinct(9))+
next
  case (unlock s t)
  then show ?case by (auto simp: lock_inv_def release_free)
qed (auto simp: lock_inv_def split: if_splits; metis spin_pc.distinct)+

lemma reach_inv:
  assumes "valid w0" and "\<not> held w0" and "spin_reach A w0 s"
  shows "lock_inv s"
  using assms(3)
proof (induction rule: spin_reach.induct)
  case init
  show ?case using assms by (simp add: lock_inv_def)
next
  case (step s s')
  then show ?case by (blast intro: step_inv)
qed

lemma mutual_exclusion:
  assumes "valid w0" and "\<not> held w0" and "spin_reach A w0 s"
    and "spcs s t = Critical" and "spcs s u = Critical"
  shows "t = u"
  using reach_inv [OF assms(1-3)] assms(4,5) by (simp add: lock_inv_def)

text \<open>
  Progress: when nobody is inside, a thread that wants the lock gets it in at most two steps
  of its own.
\<close>

lemma progress:
  assumes inv: "lock_inv s" and free: "\<And>u. spcs s u \<noteq> Critical" and want: "spcs s t \<noteq> Idle"
  shows "\<exists>s'. (spin_step A)\<^sup>*\<^sup>* s s' \<and> spcs s' t = Critical"
proof -
  have word: "valid (lword s)" "\<not> held (lword s)" using inv free by (auto simp: lock_inv_def)
  have try_step: "\<exists>s''. spin_step A s' s'' \<and> spcs s'' t = Critical"
    if tr: "spcs s' t = Trying" and lw: "lword s' = lword s" for s'
  proof -
    obtain w where "acquire A (lword s') = (False, w)"
      using acquire_busy [OF word(1)] word(2) lw by (metis prod.collapse)
    from spin_step.got [OF tr this] show ?thesis by force
  qed
  show ?thesis
  proof (cases "spcs s t")
    case Waiting
    let ?s = "s\<lparr>spcs := (spcs s)(t := Trying)\<rparr>"
    have "spin_step A s ?s"
      using Waiting word wait_held by (intro spin_step.seen_free) auto
    moreover obtain s' where "spin_step A ?s s'" "spcs s' t = Critical"
      using try_step [of ?s] by auto
    ultimately show ?thesis by (meson converse_rtranclp_into_rtranclp r_into_rtranclp)
  next
    case Trying
    then show ?thesis using try_step [of s] by blast
  qed (use free want in auto)
qed

end

end
