(* ===== verification/HleOps.thy ===== *)
theory HleOps
  imports Prelude
begin

unbundle bit_operations_syntax

text \<open>
  The atomic operations of \<open>hle/lib/hle-emulation.h\<close>, which the header generates for 8, 16, 32 and
  64 bit words: each macro is one function over words of any width, returning the result of the
  C function and the new content of the word.  The prefixes \<open>__HLE_ACQUIRE\<close> and \<open>__HLE_RELEASE\<close>
  only start and end an elision and do not change the outcome of an instruction.

  \<open>__HLE_STORE\<close> is modelled on bytes: its operand has type \<open>unsigned\<close> for every width, so the
  assembler chooses a four byte move.
\<close>

section \<open>Instructions\<close>

definition xadd :: "'a::len word \<Rightarrow> 'a word \<Rightarrow> 'a word \<times> 'a word" where
  "xadd reg mem = (mem, mem + reg)"

definition xchg :: "'a \<Rightarrow> 'a \<Rightarrow> 'a \<times> 'a" where
  "xchg reg mem = (mem, reg)"

section \<open>Read-modify-write operations\<close>

definition hle_add_fetch :: "'a::len word \<Rightarrow> 'a word \<Rightarrow> 'a word \<times> 'a word" where
  "hle_add_fetch p v = (let oldval = v; (v, p) = xadd v p in (v + oldval, p))"

definition hle_sub_fetch :: "'a::len word \<Rightarrow> 'a word \<Rightarrow> 'a word \<times> 'a word" where
  "hle_sub_fetch p v = (let oldval = v; v = - v; (v, p) = xadd v p in (v - oldval, p))"

definition hle_fetch_add :: "'a::len word \<Rightarrow> 'a word \<Rightarrow> 'a word \<times> 'a word" where
  "hle_fetch_add p v = (let (v, p) = xadd v p in (v, p))"

definition hle_fetch_sub :: "'a::len word \<Rightarrow> 'a word \<Rightarrow> 'a word \<times> 'a word" where
  "hle_fetch_sub p v = (let v = - v; (v, p) = xadd v p in (v, p))"

definition hle_exchange_n :: "'a::len word \<Rightarrow> 'a word \<Rightarrow> 'a word \<times> 'a word" where
  "hle_exchange_n p v = (let (v, p) = xchg v p in (v, p))"

definition hle_test_and_set :: "'a::len word \<Rightarrow> bool \<times> 'a word" where
  "hle_test_and_set p = (let (old, p) = hle_exchange_n p 1 in (old = 1, p))"

text \<open>\<open>cmpxchg\<close>: the result, the word, and the expected value that the caller gets back.\<close>

definition hle_compare_exchange_n ::
  "'a::len word \<Rightarrow> 'a word \<Rightarrow> 'a word \<Rightarrow> bool \<times> 'a word \<times> 'a word" where
  "hle_compare_exchange_n p oldv newv =
     (if p = oldv then (True, newv, oldv) else (False, p, p))"

datatype nonfetch_op = Op_add | Op_sub | Op_or | Op_and | Op_xor

definition hle_nonfetch :: "nonfetch_op \<Rightarrow> 'a::len word \<Rightarrow> 'a word \<Rightarrow> 'a word" where
  "hle_nonfetch oper p v =
     (case oper of Op_add \<Rightarrow> p + v | Op_sub \<Rightarrow> p - v | Op_or \<Rightarrow> p OR v | Op_and \<Rightarrow> p AND v
      | Op_xor \<Rightarrow> p XOR v)"

lemmas hle_op_defs =
  xadd_def xchg_def hle_add_fetch_def hle_sub_fetch_def hle_fetch_add_def hle_fetch_sub_def
  hle_exchange_n_def hle_test_and_set_def hle_compare_exchange_n_def hle_nonfetch_def

section \<open>Stores\<close>

type_synonym mem = "nat \<Rightarrow> u8"

definition byte_of :: "u32 \<Rightarrow> nat \<Rightarrow> u8" where
  "byte_of v i = ucast (drop_bit (8 * i) v)"

definition hle_store_n :: "mem \<Rightarrow> nat \<Rightarrow> u32 \<Rightarrow> mem" where
  "hle_store_n m p v =
     m(p := byte_of v 0, p + 1 := byte_of v 1, p + 2 := byte_of v 2, p + 3 := byte_of v 3)"

definition hle_clear :: "mem \<Rightarrow> nat \<Rightarrow> mem" where
  "hle_clear m p = hle_store_n m p 0"

text \<open>The little-endian number in \<open>k\<close> bytes from address \<open>p\<close>.\<close>

fun load :: "nat \<Rightarrow> mem \<Rightarrow> nat \<Rightarrow> nat" where
  "load 0 m p = 0"
| "load (Suc k) m p = unat (m p) + 256 * load k m (Suc p)"

lemma unat_byte_of: "unat (byte_of v i) = unat v div 2 ^ (8 * i) mod 256"
proof -
  have "unat (byte_of v i) = take_bit 8 (drop_bit (8 * i) (unat v))"
    by (simp add: byte_of_def unsigned_ucast_eq unat_drop_bit_eq)
  then show ?thesis by (simp add: drop_bit_eq_div take_bit_eq_mod)
qed

lemma split_bytes:
  fixes n :: nat
  assumes "n < 2 ^ 32"
  shows "n mod 256 + 256 * (n div 2 ^ 8 mod 256 + 256 * (n div 2 ^ 16 mod 256 + 256 * (n div 2 ^ 24 mod 256))) = n"
proof -
  have "n div 2 ^ 24 mod 256 = n div 2 ^ 24" using assms by (intro mod_less) (simp add: less_mult_imp_div_less)
  moreover have "n div 2 ^ 16 div 256 = n div 2 ^ 24" "n div 2 ^ 8 div 256 = n div 2 ^ 16" "n div 256 = n div 2 ^ 8"
    by (simp_all add: div_mult2_eq [symmetric])
  ultimately show ?thesis by (metis mod_mult_div_eq add.commute mult.commute)
qed

lemma load_4:
  "load 4 m p = unat (m p) + 256 * (unat (m (p + 1)) + 256 * (unat (m (p + 2)) + 256 * unat (m (p + 3))))"
proof -
  have "(4 :: nat) = Suc (Suc (Suc (Suc 0)))" by simp
  then show ?thesis by (simp only: load.simps) (simp add: numeral_3_eq_3)
qed

lemma load_store_n: "load 4 (hle_store_n m p v) p = unat v"
proof -
  have "unat v < 2 ^ 32" using unsigned_less [of v, where ?'a = nat] by simp
  then show ?thesis
    using split_bytes [of "unat v"] by (simp add: load_4 hle_store_n_def unat_byte_of)
qed

lemma load_other:
  "(\<And>i. i < k \<Longrightarrow> m' (p + i) = m (p + i)) \<Longrightarrow> load k m' p = load k m p"
proof (induction k arbitrary: p)
  case (Suc k)
  have "load k m' (Suc p) = load k m (Suc p)"
    using Suc.prems [of "Suc i" for i] by (intro Suc.IH) (simp add: Suc.prems [of "Suc _"])
  moreover have "m' p = m p" using Suc.prems [of 0] by simp
  ultimately show ?case by simp
qed simp

lemma load_add: "load (j + k) m p = load j m p + 256 ^ j * load k m (p + j)"
  by (induction j arbitrary: p) (simp_all add: algebra_simps)

section \<open>Properties\<close>

text \<open>
  The read-modify-write operations do what their names say at every width: the \<open>_fetch\<close> forms
  return the new word, the \<open>fetch_\<close> forms the old one, adding and subtracting wrap around, an
  exchange returns the old word, and a compare-exchange writes only when the word is the
  expected one and always reports the word it found.
\<close>

theorem hle_rmw_correct:
  "hle_add_fetch p v = (p + v, p + v) \<and> hle_sub_fetch p v = (p - v, p - v) \<and>
   hle_fetch_add p v = (p, p + v) \<and> hle_fetch_sub p v = (p, p - v) \<and>
   hle_exchange_n p v = (p, v) \<and> hle_test_and_set p = (p = 1, 1) \<and>
   hle_compare_exchange_n p old new = (p = old, if p = old then new else p, p)"
  by (auto simp: hle_op_defs)

text \<open>
  The store is right for four byte words only.  For one and two byte words it overwrites the
  bytes behind the word; for eight byte words it leaves the upper half, so that \<open>clear8\<close> of a
  word with a set upper bit does not clear it.
\<close>

theorem hle_store_n_width:
  "load 4 (hle_store_n m p v) p = unat v \<and>
   hle_clear m p (p + 1) = 0 \<and> hle_clear m p (p + 3) = 0 \<and>
   load 8 (hle_clear m p) p = 256 ^ 4 * load 4 m (p + 4)"
proof -
  have "load 4 (hle_clear m p) (p + 4) = load 4 m (p + 4)"
    by (intro load_other) (simp add: hle_clear_def hle_store_n_def)
  then have "load 8 (hle_clear m p) p = 256 ^ 4 * load 4 m (p + 4)"
    using load_add [of 4 4 "hle_clear m p" p] load_store_n [of m p 0]
    by (simp add: hle_clear_def)
  moreover have "byte_of 0 i = 0" for i by (simp add: byte_of_def)
  ultimately show ?thesis
    by (simp only: load_store_n) (simp add: hle_clear_def hle_store_n_def)
qed

end
