(* ===== verification/LockFunctions.thy ===== *)
theory LockFunctions
  imports SpinLock HleOps
begin

unbundle bit_operations_syntax

text \<open>
  The lock functions of \<open>hle/lock_functions\<close> and their dispatcher \<open>LockType\<close>.  The lock word
  has type \<open>unsigned\<close> (\<open>def.h\<close>).  Each lock/unlock pair is one \<open>lock_alg\<close> built from the
  instructions it uses; all of them interpret the locale \<open>spin_lock\<close> of \<open>SpinLock\<close>.
\<close>

section \<open>Instructions\<close>

text \<open>gcc's \<open>__atomic_exchange_n\<close> and the emulated \<open>__hle_acquire_exchange_n4\<close>.\<close>

definition exchange_n :: "'a \<Rightarrow> 'a \<Rightarrow> 'a \<times> 'a" where
  "exchange_n w v = (w, v)"

text \<open>gcc's \<open>__atomic_test_and_set\<close> and \<open>__atomic_clear\<close> work on the addressed byte.\<close>

definition atomic_test_and_set :: "u32 \<Rightarrow> bool \<times> u32" where
  "atomic_test_and_set w = (w AND 255 \<noteq> 0, (w AND NOT 255) OR 1)"

definition atomic_clear :: "u32 \<Rightarrow> u32" where
  "atomic_clear w = w AND NOT 255"

text \<open>
  \<open>__hle_acquire_test_and_set4\<close> and \<open>__hle_release_clear4\<close> of \<open>hle-emulation.h\<close>; the store is right
  at this width (\<open>HleOps\<close>).
\<close>

definition hle_test_and_set4 :: "u32 \<Rightarrow> bool \<times> u32" where
  "hle_test_and_set4 w = hle_test_and_set w"

definition hle_clear4 :: "u32 \<Rightarrow> u32" where
  "hle_clear4 w = 0"

text \<open>The loop condition of the exchange based functions: the old word is non-zero.\<close>

definition exchange_busy :: "u32 \<Rightarrow> bool \<times> u32" where
  "exchange_busy w = (let (old, w') = exchange_n w 1 in (old \<noteq> 0, w'))"

section \<open>Lock functions\<close>

definition atomic_exch_lock_busy :: "u32 lock_alg" where
  "atomic_exch_lock_busy = \<lparr>acquire = exchange_busy, waits_first = False, waits_inside = False,
     wait_more = (\<lambda>val. val = 1), release = atomic_clear\<rparr>"

definition atomic_exch_lock_spec :: "u32 lock_alg" where
  "atomic_exch_lock_spec = \<lparr>acquire = exchange_busy, waits_first = False, waits_inside = True,
     wait_more = (\<lambda>val. val = 1), release = atomic_clear\<rparr>"

definition atomic_exch_hle_lock_busy :: "u32 lock_alg" where
  "atomic_exch_hle_lock_busy = \<lparr>acquire = exchange_busy, waits_first = False,
     waits_inside = False, wait_more = (\<lambda>val. val = 1), release = atomic_clear\<rparr>"

definition atomic_exch_hle_lock_spec :: "u32 lock_alg" where
  "atomic_exch_hle_lock_spec = \<lparr>acquire = exchange_busy, waits_first = False,
     waits_inside = True, wait_more = (\<lambda>val. val = 1), release = atomic_clear\<rparr>"

definition atomic_tas_lock_busy :: "u32 lock_alg" where
  "atomic_tas_lock_busy = \<lparr>acquire = atomic_test_and_set, waits_first = False,
     waits_inside = False, wait_more = (\<lambda>val. val = 1), release = atomic_clear\<rparr>"

definition atomic_tas_lock_spec :: "u32 lock_alg" where
  "atomic_tas_lock_spec = \<lparr>acquire = atomic_test_and_set, waits_first = False,
     waits_inside = True, wait_more = (\<lambda>val. val = 1), release = atomic_clear\<rparr>"

definition atomic_tas_hle_lock_busy :: "u32 lock_alg" where
  "atomic_tas_hle_lock_busy = \<lparr>acquire = atomic_test_and_set, waits_first = False,
     waits_inside = False, wait_more = (\<lambda>val. val = 1), release = atomic_clear\<rparr>"

definition atomic_tas_hle_lock_spec :: "u32 lock_alg" where
  "atomic_tas_hle_lock_spec = \<lparr>acquire = atomic_test_and_set, waits_first = False,
     waits_inside = True, wait_more = (\<lambda>val. val = 1), release = atomic_clear\<rparr>"

definition hle_tas_lock_busy :: "u32 lock_alg" where
  "hle_tas_lock_busy = \<lparr>acquire = hle_test_and_set4, waits_first = False,
     waits_inside = False, wait_more = (\<lambda>val. val = 1), release = hle_clear4\<rparr>"

definition hle_tas_lock_spec :: "u32 lock_alg" where
  "hle_tas_lock_spec = \<lparr>acquire = hle_test_and_set4, waits_first = False,
     waits_inside = True, wait_more = (\<lambda>val. val = 1), release = hle_clear4\<rparr>"

definition hle_exch_lock_busy :: "u32 lock_alg" where
  "hle_exch_lock_busy = \<lparr>acquire = exchange_busy, waits_first = False,
     waits_inside = False, wait_more = (\<lambda>val. val = 1), release = hle_clear4\<rparr>"

definition hle_exch_lock_spec :: "u32 lock_alg" where
  "hle_exch_lock_spec = \<lparr>acquire = exchange_busy, waits_first = False,
     waits_inside = True, wait_more = (\<lambda>val. val = 1), release = hle_clear4\<rparr>"

definition hle_exch_lock_spec_noload :: "u32 lock_alg" where
  "hle_exch_lock_spec_noload = \<lparr>acquire = exchange_busy, waits_first = False,
     waits_inside = True, wait_more = (\<lambda>val. val = 1), release = hle_clear4\<rparr>"

definition hle_exch_lock_spec_checked :: "u32 lock_alg" where
  "hle_exch_lock_spec_checked = \<lparr>acquire = exchange_busy, waits_first = True,
     waits_inside = True, wait_more = (\<lambda>val. val = 1), release = hle_clear4\<rparr>"

definition hle_asm_exch_lock_busy :: "u32 lock_alg" where
  "hle_asm_exch_lock_busy = \<lparr>acquire = exchange_busy, waits_first = False,
     waits_inside = False, wait_more = (\<lambda>val. val = 1), release = hle_clear4\<rparr>"

text \<open>This one returns as soon as the old word is not 1 (it never tests for 0 first).\<close>

definition hle_asm_exch_lock_spec :: "u32 lock_alg" where
  "hle_asm_exch_lock_spec =
     \<lparr>acquire = (\<lambda>w. let (val, w') = exchange_n w 1 in (\<not> (val \<noteq> 1), w')),
      waits_first = False, waits_inside = True, wait_more = (\<lambda>val. val = 1),
      release = hle_clear4\<rparr>"

definition hle_asm_exch_lock_asm_spec :: "u32 lock_alg" where
  "hle_asm_exch_lock_asm_spec = \<lparr>acquire = exchange_busy, waits_first = False,
     waits_inside = True, wait_more = (\<lambda>val. val = 1), release = hle_clear4\<rparr>"

lemmas instr_defs =
  exchange_n_def atomic_test_and_set_def atomic_clear_def hle_test_and_set4_def hle_clear4_def
  exchange_busy_def hle_op_defs

lemmas lock_fun_defs =
  atomic_exch_lock_busy_def atomic_exch_lock_spec_def atomic_exch_hle_lock_busy_def
  atomic_exch_hle_lock_spec_def atomic_tas_lock_busy_def atomic_tas_lock_spec_def
  atomic_tas_hle_lock_busy_def atomic_tas_hle_lock_spec_def hle_tas_lock_busy_def
  hle_tas_lock_spec_def hle_exch_lock_busy_def hle_exch_lock_spec_def
  hle_exch_lock_spec_noload_def hle_exch_lock_spec_checked_def hle_asm_exch_lock_busy_def
  hle_asm_exch_lock_spec_def hle_asm_exch_lock_asm_spec_def

text \<open>All of them keep the word in \<open>{0, 1}\<close>; 1 means held.\<close>

definition word01 :: "u32 \<Rightarrow> bool" where
  "word01 w \<longleftrightarrow> w = 0 \<or> w = 1"

definition word_held :: "u32 \<Rightarrow> bool" where
  "word_held w \<longleftrightarrow> w = 1"

lemmas word01_defs = word01_def word_held_def

lemma word01_cases: "word01 w \<Longrightarrow> (w = 0 \<Longrightarrow> P 0) \<Longrightarrow> (w = 1 \<Longrightarrow> P 1) \<Longrightarrow> P w"
  by (auto simp: word01_def)

interpretation atomic_exch_spec: spin_lock atomic_exch_lock_spec word01 word_held
  by unfold_locales (auto simp: lock_fun_defs instr_defs word01_defs)

interpretation atomic_tas_spec: spin_lock atomic_tas_lock_spec word01 word_held
  by unfold_locales (auto simp: lock_fun_defs instr_defs word01_defs)

interpretation hle_tas_spec: spin_lock hle_tas_lock_spec word01 word_held
  by unfold_locales (auto simp: lock_fun_defs instr_defs word01_defs)

interpretation hle_exch_spec_noload: spin_lock hle_exch_lock_spec_noload word01 word_held
  by unfold_locales (auto simp: lock_fun_defs instr_defs word01_defs)

section \<open>Restricted transactional memory\<close>

text \<open>
  \<open>_xbegin\<close> returns more than once: with \<open>_XBEGIN_STARTED\<close> when the transaction begins, and with
  an abort status when it is rolled back.  The model reads the results the processor gives from a
  list; an explicit \<open>_xabort(0)\<close> makes the same \<open>_xbegin\<close> return with bit 0 of the status set.
  \<open>Elided\<close> is a return inside a transaction, \<open>Fallback\<close> a return after the real lock function,
  and \<open>None\<close> means that the loop is still running when the results are used up.
\<close>

datatype xbegin_result = XStarted | XAbort u32

datatype rtm_outcome = Elided | Fallback

fun rtm_lock :: "xbegin_result list \<Rightarrow> rtm_outcome option" where
  "rtm_lock [] = None"
| "rtm_lock (XStarted # es) = Some Elided"
| "rtm_lock (XAbort code # es) = rtm_lock es"

definition max_retries :: int where
  "max_retries = 10000000"

text \<open>
  The loop of \<open>rtm_lock_smart\<close>; \<open>mutex\<close> is the pointer argument.  Both an abort status and the
  explicit abort after \<open>if (mutex != 0)\<close> re-enter the loop test with a status.
\<close>

fun rtm_lock_smart_loop :: "u64 \<Rightarrow> int \<Rightarrow> xbegin_result list \<Rightarrow> rtm_outcome option" where
  "rtm_lock_smart_loop mutex failures [] = None"
| "rtm_lock_smart_loop mutex failures (XAbort code # es) =
     (if code AND 7 > 0 \<and> failures + 1 \<le> max_retries
      then rtm_lock_smart_loop mutex (failures + 1) es
      else Some Fallback)"
| "rtm_lock_smart_loop mutex failures (XStarted # es) =
     (if mutex \<noteq> 0
      then (if failures + 1 \<le> max_retries
            then rtm_lock_smart_loop mutex (failures + 1) es
            else Some Fallback)
      else Some Elided)"

definition rtm_lock_smart :: "u64 \<Rightarrow> xbegin_result list \<Rightarrow> rtm_outcome option" where
  "rtm_lock_smart mutex es = rtm_lock_smart_loop mutex 0 es"

text \<open>What \<open>rtm_unlock_smart\<close> does to the word, given the answer of \<open>_xtest\<close>.\<close>

definition rtm_unlock_smart :: "bool \<Rightarrow> u32 \<Rightarrow> u32" where
  "rtm_unlock_smart xtest w = (if xtest then w else release atomic_exch_lock_spec w)"

lemma rtm_smart_not_elided:
  "mutex \<noteq> 0 \<Longrightarrow> rtm_lock_smart_loop mutex failures es \<noteq> Some Elided"
  by (induction mutex failures es rule: rtm_lock_smart_loop.induct) auto

lemma rtm_smart_returns:
  assumes "mutex \<noteq> 0" and "max_retries < failures + int (length es)"
  shows "failures \<le> max_retries \<Longrightarrow> rtm_lock_smart_loop mutex failures es = Some Fallback"
  using assms by (induction mutex failures es rule: rtm_lock_smart_loop.induct) auto

section \<open>LockType\<close>

datatype EnumType =
  NONE | PTHREAD
| ATOMIC_EXCH_BUSY | ATOMIC_EXCH_SPEC | ATOMIC_EXCH_HLE_BUSY | ATOMIC_EXCH_HLE_SPEC
| ATOMIC_TAS_BUSY | ATOMIC_TAS_SPEC | ATOMIC_TAS_HLE_BUSY | ATOMIC_TAS_HLE_SPEC
| RTM | RTM_SMART
| HLE_TAS_BUSY | HLE_TAS_SPEC
| HLE_EXCH_BUSY | HLE_EXCH_SPEC | HLE_EXCH_SPEC_CHECKED
| HLE_ASM_EXCH_BUSY | HLE_ASM_EXCH_SPEC | HLE_ASM_EXCH_ASM_SPEC

text \<open>
  The member function pointers \<open>lock\<close>/\<open>unlock\<close> and the function pointers
  \<open>type_lock_function\<close>/\<open>type_unlock_function\<close>, which are always assigned in pairs.
\<close>

datatype member_fun = No_fun | Pthread_fun | Type_fun

datatype type_fun = Spin "u32 lock_alg" | Rtm_naive | Rtm_smart

record LockType =
  enum_type :: EnumType
  lock_ptr :: member_fun
  type_function :: "type_fun option"   \<comment> \<open>\<open>None\<close>: not assigned\<close>
  type_mutex :: u32

definition LockType_init :: "EnumType \<Rightarrow> LockType" where
  "LockType_init e =
     \<lparr>enum_type = e,
      lock_ptr = (case e of NONE \<Rightarrow> No_fun | PTHREAD \<Rightarrow> Pthread_fun | _ \<Rightarrow> Type_fun),
      type_function =
        (case e of
           ATOMIC_EXCH_BUSY \<Rightarrow> Some (Spin atomic_exch_lock_busy)
         | ATOMIC_EXCH_SPEC \<Rightarrow> Some (Spin atomic_exch_lock_spec)
         | ATOMIC_TAS_BUSY \<Rightarrow> Some (Spin atomic_tas_lock_busy)
         | ATOMIC_TAS_SPEC \<Rightarrow> Some (Spin atomic_tas_lock_spec)
         | ATOMIC_EXCH_HLE_BUSY \<Rightarrow> Some (Spin atomic_exch_hle_lock_busy)
         | ATOMIC_EXCH_HLE_SPEC \<Rightarrow> Some (Spin atomic_exch_hle_lock_spec)
         | ATOMIC_TAS_HLE_BUSY \<Rightarrow> Some (Spin atomic_tas_hle_lock_busy)
         | ATOMIC_TAS_HLE_SPEC \<Rightarrow> Some (Spin atomic_tas_hle_lock_spec)
         | HLE_TAS_BUSY \<Rightarrow> Some (Spin hle_tas_lock_busy)
         | HLE_TAS_SPEC \<Rightarrow> Some (Spin hle_tas_lock_spec)
         | HLE_EXCH_BUSY \<Rightarrow> Some (Spin hle_exch_lock_busy)
         | HLE_EXCH_SPEC \<Rightarrow> Some (Spin hle_exch_lock_spec)
         | HLE_EXCH_SPEC_CHECKED \<Rightarrow> Some (Spin hle_exch_lock_spec_checked)
         | HLE_ASM_EXCH_BUSY \<Rightarrow> Some (Spin hle_asm_exch_lock_busy)
         | HLE_ASM_EXCH_SPEC \<Rightarrow> Some (Spin hle_asm_exch_lock_spec)
         | HLE_ASM_EXCH_ASM_SPEC \<Rightarrow> Some (Spin hle_asm_exch_lock_asm_spec)
         | RTM \<Rightarrow> Some Rtm_naive
         | RTM_SMART \<Rightarrow> Some Rtm_smart
         | NONE \<Rightarrow> None
         | PTHREAD \<Rightarrow> None),
      type_mutex = 0\<rparr>"

definition getEnumText :: "EnumType \<Rightarrow> string" where
  "getEnumText e =
     (case e of
        NONE \<Rightarrow> ''No synchronization''
      | PTHREAD \<Rightarrow> ''POSIX Thread''
      | ATOMIC_EXCH_BUSY \<Rightarrow> ''atomic_EXCH_BUSY''
      | ATOMIC_EXCH_SPEC \<Rightarrow> ''atomic_EXCH_SPEC''
      | ATOMIC_EXCH_HLE_BUSY \<Rightarrow> ''atomic_EXCH_HLE-busy''
      | ATOMIC_EXCH_HLE_SPEC \<Rightarrow> ''atomic_EXCH_HLE-spec''
      | ATOMIC_TAS_BUSY \<Rightarrow> ''atomic_TAS_BUSY''
      | ATOMIC_TAS_SPEC \<Rightarrow> ''atomic_TAS_SPEC''
      | ATOMIC_TAS_HLE_BUSY \<Rightarrow> ''atomic_TAS_HLE_BUSY''
      | ATOMIC_TAS_HLE_SPEC \<Rightarrow> ''atomic_TAS_HLE_SPEC''
      | HLE_TAS_BUSY \<Rightarrow> ''HLE_TAS_BUSY''
      | HLE_TAS_SPEC \<Rightarrow> ''HLE_TAS_SPEC''
      | HLE_EXCH_BUSY \<Rightarrow> ''HLE_EXCH_BUSY''
      | HLE_EXCH_SPEC \<Rightarrow> ''HLE_EXCH_SPEC''
      | HLE_EXCH_SPEC_CHECKED \<Rightarrow> ''HLE_EXCH_SPEC_CHECKED''
      | HLE_ASM_EXCH_BUSY \<Rightarrow> ''HLE_ASM_EXCH-busy''
      | HLE_ASM_EXCH_SPEC \<Rightarrow> ''HLE_ASM_EXCH-spec''
      | HLE_ASM_EXCH_ASM_SPEC \<Rightarrow> ''HLE_ASM_EXCH-asm_spec''
      | RTM \<Rightarrow> ''RTM''
      | RTM_SMART \<Rightarrow> ''RTM_SMART'')"

text \<open>The header line of the lock types with indices \<open>from .. to - 1\<close>.\<close>

definition printHeaderRange :: "LockType list \<Rightarrow> nat \<Rightarrow> nat \<Rightarrow> string" where
  "printHeaderRange lockTypes from to =
     concat (map (\<lambda>t. getEnumText (enum_type (lockTypes ! t)) @
                      (if t + 1 < to then '';'' else [CHR 0x0A]))
                 [from ..< to])"

definition EnumType_values :: "EnumType list" where
  "EnumType_values =
     [NONE, PTHREAD, ATOMIC_EXCH_BUSY, ATOMIC_EXCH_SPEC, ATOMIC_EXCH_HLE_BUSY,
      ATOMIC_EXCH_HLE_SPEC, ATOMIC_TAS_BUSY, ATOMIC_TAS_SPEC, ATOMIC_TAS_HLE_BUSY,
      ATOMIC_TAS_HLE_SPEC, RTM, RTM_SMART, HLE_TAS_BUSY, HLE_TAS_SPEC, HLE_EXCH_BUSY,
      HLE_EXCH_SPEC, HLE_EXCH_SPEC_CHECKED, HLE_ASM_EXCH_BUSY, HLE_ASM_EXCH_SPEC,
      HLE_ASM_EXCH_ASM_SPEC]"

lemma EnumType_values: "set EnumType_values = UNIV"
proof -
  have "e \<in> set EnumType_values" for e by (cases e) (simp_all add: EnumType_values_def)
  then show ?thesis by auto
qed

text \<open>Different types have different texts, so the columns of a result file are told apart.\<close>

lemma getEnumText_inj: "inj getEnumText"
proof -
  have "distinct (map getEnumText EnumType_values)" by code_simp
  then show ?thesis by (simp only: distinct_map EnumType_values)
qed

text \<open>Every lock function that \<open>init\<close> selects, RTM apart, satisfies the spin lock interface.\<close>

lemma LockType_spin_lock:
  "type_function (LockType_init e) = Some (Spin A) \<Longrightarrow> spin_lock A word01 word_held"
  by (cases e; clarsimp simp: LockType_init_def; unfold_locales;
      auto simp: lock_fun_defs instr_defs word01_defs)

lemma LockType_reach_inv:
  assumes "type_function (LockType_init e) = Some (Spin A)"
    and "spin_reach A (type_mutex (LockType_init e)) s"
  shows "spin_lock.lock_inv word01 word_held s"
  using spin_lock.reach_inv [OF LockType_spin_lock [OF assms(1)] _ _ assms(2)]
  by (simp add: LockType_init_def word01_defs)

section \<open>Properties\<close>

text \<open>
  C3: Whatever spin lock type a \<open>LockType\<close> is initialised with, no two threads are ever between
  \<open>lock\<close> and \<open>unlock\<close> of the same object at the same time.
\<close>

theorem LockType_mutual_exclusion:
  assumes "type_function (LockType_init e) = Some (Spin A)"
    and "spin_reach A (type_mutex (LockType_init e)) s"
    and "spcs s t = Critical" and "spcs s u = Critical"
  shows "t = u"
  using spin_lock.mutual_exclusion [OF LockType_spin_lock [OF assms(1)] _ _ assms(2-4)]
  by (simp add: LockType_init_def word01_defs)

lemma spin_demo:
  "spin_reach hle_tas_lock_spec 0 \<lparr>lword = 1, spcs = (\<lambda>_. Idle)(3 := Critical)\<rparr>"
proof -
  have 1: "spin_reach hle_tas_lock_spec 0 \<lparr>lword = 0, spcs = (\<lambda>_. Idle)(3 := Trying)\<rparr>"
    using spin_reach_start [of hle_tas_lock_spec 0 3]
    by (simp add: lock_fun_defs)
  show ?thesis
    using spin_reach.step [OF 1 spin_step.got [where t = 3 and w = 1]]
    by (simp add: lock_fun_defs instr_defs)
qed

theorem LockType_mutual_exclusion_witness:
  "\<exists>s. spin_reach hle_tas_lock_spec 0 s \<and> spcs s 3 = Critical \<and> (\<forall>u. spcs s u = Critical \<longrightarrow> 3 = u)"
proof -
  let ?s = "\<lparr>lword = 1, spcs = (\<lambda>_. Idle)(3 := Critical)\<rparr> :: u32 spin_sys"
  have f: "type_function (LockType_init HLE_TAS_SPEC) = Some (Spin hle_tas_lock_spec)"
    and r: "spin_reach hle_tas_lock_spec (type_mutex (LockType_init HLE_TAS_SPEC)) ?s"
    using spin_demo by (simp_all add: LockType_init_def)
  have c: "spcs ?s 3 = Critical" by simp
  show ?thesis
    by (intro exI [of _ ?s] conjI allI impI spin_demo c
        LockType_mutual_exclusion [OF f r c])
qed

text \<open>
  C4: A free spin lock is not lost: whenever no thread is inside, every thread that has called
  \<open>lock\<close> can get in by steps of the lock function, for every type.
\<close>

theorem LockType_progress:
  assumes "type_function (LockType_init e) = Some (Spin A)"
    and "spin_reach A (type_mutex (LockType_init e)) s"
    and "\<And>u. spcs s u \<noteq> Critical" and "spcs s t \<noteq> Idle"
  shows "\<exists>s'. (spin_step A)\<^sup>*\<^sup>* s s' \<and> spcs s' t = Critical"
  using spin_lock.progress [OF LockType_spin_lock [OF assms(1)] LockType_reach_inv [OF assms(1,2)]
      assms(3,4)] .

theorem LockType_progress_witness:
  "\<exists>s s'. spin_reach hle_exch_lock_spec_checked 0 s \<and> spcs s 5 = Waiting \<and>
     (spin_step hle_exch_lock_spec_checked)\<^sup>*\<^sup>* s s' \<and> spcs s' 5 = Critical"
proof -
  let ?s = "\<lparr>lword = 0, spcs = (\<lambda>_. Idle)(5 := Waiting)\<rparr> :: u32 spin_sys"
  have r: "spin_reach hle_exch_lock_spec_checked 0 ?s"
    using spin_reach_start [of hle_exch_lock_spec_checked 0 5]
    by (simp add: lock_fun_defs)
  have "\<exists>s'. (spin_step hle_exch_lock_spec_checked)\<^sup>*\<^sup>* ?s s' \<and> spcs s' 5 = Critical"
    by (rule LockType_progress [of HLE_EXCH_SPEC_CHECKED])
      (use r in \<open>simp_all add: LockType_init_def\<close>)
  with r show ?thesis by fastforce
qed

text \<open>
  C14: \<open>rtm_lock_smart\<close> compares the pointer instead of the word it points to, so for every real
  mutex it never returns inside a transaction, whatever the processor answers; after at most
  \<open>max_retries + 1\<close> attempts it has taken the lock with \<open>atomic_exch_lock_spec\<close>.
\<close>

theorem rtm_lock_smart_never_elides:
  assumes "mutex \<noteq> 0"
  shows "rtm_lock_smart mutex es \<noteq> Some Elided \<and>
    (max_retries < int (length es) \<longrightarrow> rtm_lock_smart mutex es = Some Fallback)"
  using rtm_smart_not_elided [OF assms] rtm_smart_returns [OF assms, of 0 es]
  by (simp add: rtm_lock_smart_def max_retries_def)

theorem rtm_lock_smart_never_elides_witness:
  "rtm_lock_smart 4096 (replicate 10000001 XStarted) = Some Fallback"
  using rtm_lock_smart_never_elides [of 4096 "replicate 10000001 XStarted"]
  by (simp add: max_retries_def)

end
