(* ===== verification/IbMutex.thy ===== *)
theory IbMutex
  imports OsEvent LockFunctions
begin

text \<open>
  The InnoDB mutex with the two words this project gives it
  (\<open>mysql-5.6.10-syslock/storage/innobase\<close>: \<open>include/sync0sync.h\<close>, \<open>include/sync0sync.ic\<close>,
  \<open>sync/sync0sync.cc\<close>, \<open>include/myhle.cc\<close>), in the release build with atomic builtins: the
  field accessors, \<open>mutex_enter\<close> with its spin and wait phases, \<open>mutex_exit\<close> with the hand-over
  to waiting threads, the elided pair \<open>hle_mutex_enter\<close>/\<open>hle_mutex_exit\<close>, and the transactional
  pair \<open>rtm_lock\<close>/\<open>rtm_unlock\<close> of the two RTM variants.

  The wait array (\<open>sync0arr.cc\<close>) is not part of the repository.  What the mutex uses of it is a
  record of operations the model takes as an argument; the locale \<open>sync_array\<close> states what the
  comments of \<open>sync0sync.cc\<close> document of it: reserving a cell resets the mutex's event and keeps
  the count that the reset returned, and waiting on the cell waits on the event with that count.
\<close>

section \<open>The mutex object and its accessors\<close>

record 'e ib_mutex =
  event :: 'e
  lock_word :: u8
  hle_mutex :: u32
  waiters :: ulint
  cfile_name :: cstr
  cline :: ulint
  count_os_wait :: u64

text \<open>\<open>os_atomic_test_and_set_byte\<close> is an atomic exchange.\<close>

definition ib_mutex_test_and_set :: "'e ib_mutex \<Rightarrow> u8 \<times> 'e ib_mutex" where
  "ib_mutex_test_and_set m =
     (let (old, new) = exchange_n (lock_word m) 1 in (old, m\<lparr>lock_word := new\<rparr>))"

definition mutex_reset_lock_word :: "'e ib_mutex \<Rightarrow> 'e ib_mutex" where
  "mutex_reset_lock_word m =
     (let (old, new) = exchange_n (lock_word m) 0 in m\<lparr>lock_word := new\<rparr>)"

definition mutex_get_lock_word :: "'e ib_mutex \<Rightarrow> u8" where
  "mutex_get_lock_word m = lock_word m"

definition mutex_get_waiters :: "'e ib_mutex \<Rightarrow> ulint" where
  "mutex_get_waiters m = waiters m"

definition mutex_set_waiters :: "'e ib_mutex \<Rightarrow> ulint \<Rightarrow> 'e ib_mutex" where
  "mutex_set_waiters m n = m\<lparr>waiters := n\<rparr>"

lemmas ib_acc_defs =
  ib_mutex_test_and_set_def mutex_reset_lock_word_def mutex_get_lock_word_def
  mutex_get_waiters_def mutex_set_waiters_def exchange_n_def

text \<open>The fields \<open>mutex_create_func\<close> writes into the memory it is given.\<close>

definition mutex_init_fields ::
  "'e \<Rightarrow> cstr \<Rightarrow> ulint \<Rightarrow> 'e ib_mutex \<Rightarrow> 'e ib_mutex" where
  "mutex_init_fields evt file line m =
     (let m = mutex_reset_lock_word m;
          m = m\<lparr>event := evt\<rparr>;
          m = mutex_set_waiters m 0
      in m\<lparr>cfile_name := file, cline := line, count_os_wait := 0\<rparr>)"

definition mutex_enter_nowait_func :: "'e ib_mutex \<Rightarrow> ulint \<times> 'e ib_mutex" where
  "mutex_enter_nowait_func m =
     (let (old, m') = ib_mutex_test_and_set m in (if old = 0 then 0 else 1, m'))"

definition hle_mutex_enter_nowait_func :: "'e ib_mutex \<Rightarrow> ulint \<times> 'e ib_mutex" where
  "hle_mutex_enter_nowait_func m =
     (let (busy, w) = hle_test_and_set4 (hle_mutex m) in
      (if \<not> busy then 0 else 1, m\<lparr>hle_mutex := w\<rparr>))"

section \<open>Entering and leaving as thread steps\<close>

text \<open>What the mutex uses of the wait array, and \<open>os_event_set\<close>.\<close>

record ('e, 'c) wait_ops =
  reserve_cell :: "'e \<Rightarrow> 'e \<times> 'c"
  event_set :: "'e \<Rightarrow> 'e"
  cell_blocks :: "'e \<Rightarrow> 'c \<Rightarrow> bool"   \<comment> \<open>\<open>sync_array_wait_event\<close> does not return now\<close>

text \<open>
  Where a thread is: outside, in \<open>mutex_spin_wait\<close> (spin loop, test-and-set after it, before the
  reservation, before \<open>mutex_set_waiters\<close>, in the four extra attempts, in
  \<open>sync_array_wait_event\<close>), inside the critical section, or in \<open>mutex_exit_func\<close> after the
  reset of the lock word (before reading \<open>waiters\<close>, before and after clearing it).
\<close>

datatype 'c ib_pc =
  IOut | ISpin ulint | ITas ulint | IReserve | ISetWaiters 'c | ITry nat 'c | IWait 'c
| ICrit | IExit | ISignal | IEventSet

definition mutex_enter_func :: "'e ib_mutex \<Rightarrow> 'c ib_pc \<times> 'e ib_mutex" where
  "mutex_enter_func m =
     (let (old, m') = ib_mutex_test_and_set m in (if old = 0 then ICrit else ISpin 0, m'))"

text \<open>One step of \<open>mutex_spin_wait\<close>; \<open>rounds\<close> is \<open>SYNC_SPIN_ROUNDS\<close>.\<close>

fun mutex_spin_wait ::
  "('e, 'c) wait_ops \<Rightarrow> ulint \<Rightarrow> 'c ib_pc \<Rightarrow> 'e ib_mutex \<Rightarrow> 'c ib_pc \<times> 'e ib_mutex" where
  "mutex_spin_wait W rounds (ISpin i) m =
     (if mutex_get_lock_word m \<noteq> 0 \<and> i < rounds then (ISpin (i + 1), m) else (ITas i, m))"
| "mutex_spin_wait W rounds (ITas i) m =
     (let (old, m') = ib_mutex_test_and_set m in
      (if old = 0 then ICrit else if i + 1 < rounds then ISpin (i + 1) else IReserve, m'))"
| "mutex_spin_wait W rounds IReserve m =
     (let (e, c) = reserve_cell W (event m) in (ISetWaiters c, m\<lparr>event := e\<rparr>))"
| "mutex_spin_wait W rounds (ISetWaiters c) m = (ITry 0 c, mutex_set_waiters m 1)"
| "mutex_spin_wait W rounds (ITry i c) m =
     (let (old, m') = ib_mutex_test_and_set m in
      if old = 0 then (ICrit, m')
      else if i + 1 < 4 then (ITry (i + 1) c, m')
      else (IWait c, m'\<lparr>count_os_wait := count_os_wait m' + 1\<rparr>))"
| "mutex_spin_wait W rounds (IWait c) m =
     (if cell_blocks W (event m) c then (IWait c, m) else (ISpin 0, m))"
| "mutex_spin_wait W rounds pc m = (pc, m)"

definition spinning :: "'c ib_pc \<Rightarrow> bool" where
  "spinning pc \<longleftrightarrow>
     (case pc of ISpin _ \<Rightarrow> True | ITas _ \<Rightarrow> True | IReserve \<Rightarrow> True | ISetWaiters _ \<Rightarrow> True
      | ITry _ _ \<Rightarrow> True | IWait _ \<Rightarrow> True | _ \<Rightarrow> False)"

text \<open>\<open>mutex_signal_object\<close>: clear \<open>waiters\<close>, then set the event.\<close>

fun mutex_signal_object ::
  "('e, 'c) wait_ops \<Rightarrow> 'c ib_pc \<Rightarrow> 'e ib_mutex \<Rightarrow> 'c ib_pc \<times> 'e ib_mutex" where
  "mutex_signal_object W ISignal m = (IEventSet, mutex_set_waiters m 0)"
| "mutex_signal_object W IEventSet m = (IOut, m\<lparr>event := event_set W (event m)\<rparr>)"
| "mutex_signal_object W pc m = (pc, m)"

fun mutex_exit_func ::
  "('e, 'c) wait_ops \<Rightarrow> 'c ib_pc \<Rightarrow> 'e ib_mutex \<Rightarrow> 'c ib_pc \<times> 'e ib_mutex" where
  "mutex_exit_func W ICrit m = (IExit, mutex_reset_lock_word m)"
| "mutex_exit_func W IExit m =
     (if mutex_get_waiters m \<noteq> 0 then ISignal else IOut, m)"
| "mutex_exit_func W pc m = mutex_signal_object W pc m"

definition leaving :: "'c ib_pc \<Rightarrow> bool" where
  "leaving pc \<longleftrightarrow> pc = ICrit \<or> pc = IExit \<or> pc = ISignal \<or> pc = IEventSet"

record ('e, 'c) ib_sys =
  im :: "'e ib_mutex"
  ipcs :: "nat \<Rightarrow> 'c ib_pc"
  event_sets :: nat     \<comment> \<open>how often the event was set so far\<close>

definition ib_put ::
  "('e, 'c) ib_sys \<Rightarrow> nat \<Rightarrow> 'c ib_pc \<times> 'e ib_mutex \<Rightarrow> ('e, 'c) ib_sys" where
  "ib_put s t r =
     s\<lparr>im := snd r, ipcs := (ipcs s)(t := fst r),
       event_sets := event_sets s + (if ipcs s t = IEventSet then 1 else 0)\<rparr>"

inductive ib_step ::
  "('e, 'c) wait_ops \<Rightarrow> ulint \<Rightarrow> ('e, 'c) ib_sys \<Rightarrow> ('e, 'c) ib_sys \<Rightarrow> bool" for W rounds where
  enter: "ipcs s t = IOut \<Longrightarrow> ib_step W rounds s (ib_put s t (mutex_enter_func (im s)))"
| enter_nowait: "ipcs s t = IOut \<Longrightarrow> mutex_enter_nowait_func (im s) = (r, m) \<Longrightarrow>
     ib_step W rounds s (ib_put s t (if r = 0 then ICrit else IOut, m))"
| spin: "spinning (ipcs s t) \<Longrightarrow>
     ib_step W rounds s (ib_put s t (mutex_spin_wait W rounds (ipcs s t) (im s)))"
| exit: "leaving (ipcs s t) \<Longrightarrow>
     ib_step W rounds s (ib_put s t (mutex_exit_func W (ipcs s t) (im s)))"

inductive ib_reach ::
  "('e, 'c) wait_ops \<Rightarrow> ulint \<Rightarrow> 'e ib_mutex \<Rightarrow> ('e, 'c) ib_sys \<Rightarrow> bool" for W rounds m0 where
  init: "ib_reach W rounds m0 \<lparr>im = m0, ipcs = (\<lambda>_. IOut), event_sets = 0\<rparr>"
| step: "ib_reach W rounds m0 s \<Longrightarrow> ib_step W rounds s s' \<Longrightarrow> ib_reach W rounds m0 s'"

lemma ib_put_simps [simp]:
  "im (ib_put s t r) = snd r"
  "ipcs (ib_put s t r) = (ipcs s)(t := fst r)"
  "event_sets (ib_put s t r) = event_sets s + (if ipcs s t = IEventSet then 1 else 0)"
  by (simp_all add: ib_put_def)

section \<open>The lock word\<close>

definition ib_word_inv :: "('e, 'c) ib_sys \<Rightarrow> bool" where
  "ib_word_inv s \<longleftrightarrow>
     (lock_word (im s) = 0 \<or> lock_word (im s) = 1) \<and>
     (lock_word (im s) = 1 \<longleftrightarrow> (\<exists>t. ipcs s t = ICrit)) \<and>
     (\<forall>t u. ipcs s t = ICrit \<longrightarrow> ipcs s u = ICrit \<longrightarrow> t = u)"

text \<open>
  What one thread step may do to the word: take a free word and become critical, give the word
  back when critical, or leave word and status alone.
\<close>

definition word_move :: "'c ib_pc \<Rightarrow> u8 \<Rightarrow> 'c ib_pc \<Rightarrow> u8 \<Rightarrow> bool" where
  "word_move pc w pc' w' \<longleftrightarrow>
     (w = 0 \<and> pc \<noteq> ICrit \<and> pc' = ICrit \<and> w' = 1) \<or>
     (pc = ICrit \<and> pc' \<noteq> ICrit \<and> w' = 0) \<or>
     (pc \<noteq> ICrit \<and> pc' \<noteq> ICrit \<and> (w' = w \<or> w \<noteq> 0 \<and> w' = 1))"

lemma word_move_inv:
  assumes "ib_word_inv s" and "word_move (ipcs s t) (lock_word (im s)) (fst r) (lock_word (snd r))"
  shows "ib_word_inv (ib_put s t r)"
  using assms unfolding ib_word_inv_def word_move_def by (auto split: if_splits)

lemma enter_word_move:
  "pc \<noteq> ICrit \<Longrightarrow> word_move pc (lock_word m) (fst (mutex_enter_func m)) (lock_word (snd (mutex_enter_func m)))"
  by (simp add: mutex_enter_func_def ib_acc_defs word_move_def)

lemma nowait_word_move:
  "mutex_enter_nowait_func m = (r, m') \<Longrightarrow>
   word_move IOut (lock_word m) (if r = 0 then ICrit else IOut) (lock_word m')"
  by (auto simp: mutex_enter_nowait_func_def ib_acc_defs word_move_def split: if_splits)

lemma spin_word_move:
  "spinning pc \<Longrightarrow> word_move pc (lock_word m) (fst (mutex_spin_wait W rounds pc m))
     (lock_word (snd (mutex_spin_wait W rounds pc m)))"
  by (cases pc) (auto simp: spinning_def ib_acc_defs word_move_def split: prod.split)

lemma exit_word_move:
  "leaving pc \<Longrightarrow> word_move pc (lock_word m) (fst (mutex_exit_func W pc m))
     (lock_word (snd (mutex_exit_func W pc m)))"
  by (auto simp: leaving_def ib_acc_defs word_move_def split: if_splits)

lemma ib_step_word_inv [inv_intros]:
  assumes "ib_step W rounds s s'" and "ib_word_inv s"
  shows "ib_word_inv s'"
  using assms
proof (induction rule: ib_step.induct)
  case (enter s t)
  then show ?case by (intro word_move_inv enter_word_move) auto
next
  case (enter_nowait s t r m)
  then show ?case
    using nowait_word_move [of "im s" r m, where ?'b = 'b] by (intro word_move_inv) simp_all
next
  case (spin s t)
  then show ?case by (intro word_move_inv spin_word_move)
next
  case (exit s t)
  then show ?case by (intro word_move_inv exit_word_move)
qed

lemma ib_reach_word_inv:
  assumes "lock_word m0 = 0" and "ib_reach W rounds m0 s"
  shows "ib_word_inv s"
  using assms(2)
proof (induction rule: ib_reach.induct)
  case init
  then show ?case using assms(1) by (simp add: ib_word_inv_def)
next
  case (step s s')
  then show ?case by (blast intro: ib_step_word_inv)
qed

section \<open>Runs without end\<close>

text \<open>
  A run is an infinite sequence of states in which every state is the one before it (nobody
  moves) or comes from it by one step.  It is fair if a thread that is inside the critical section
  or on its way out moves on some time: no critical section lasts for ever, and no thread in
  \<open>mutex_exit_func\<close> is suspended for ever.  Nothing is asked of the threads that wait or enter.
\<close>

definition ib_run :: "('e, 'c) wait_ops \<Rightarrow> ulint \<Rightarrow> (nat \<Rightarrow> ('e, 'c) ib_sys) \<Rightarrow> bool" where
  "ib_run W rounds \<sigma> \<longleftrightarrow> (\<forall>i. \<sigma> (Suc i) = \<sigma> i \<or> ib_step W rounds (\<sigma> i) (\<sigma> (Suc i)))"

definition ib_fair :: "(nat \<Rightarrow> ('e, 'c) ib_sys) \<Rightarrow> bool" where
  "ib_fair \<sigma> \<longleftrightarrow> (\<forall>i u. leaving (ipcs (\<sigma> i) u) \<longrightarrow> (\<exists>j > i. ipcs (\<sigma> j) u \<noteq> ipcs (\<sigma> i) u))"

section \<open>The wait array interface\<close>

text \<open>
  An event semaphore whose firings are counted: \<open>counted e b n\<close> says that \<open>e\<close> has fired \<open>n\<close>
  times and is signalled iff \<open>b\<close>; \<open>stamp c n\<close> that the cell \<open>c\<close> was reserved after \<open>n\<close>
  firings.  A cell of less than \<open>limit\<close> firings ago blocks only if nothing fired since.
\<close>

locale event_sem =
  fixes W :: "('e, 'c) wait_ops" and counted :: "'e \<Rightarrow> bool \<Rightarrow> nat \<Rightarrow> bool"
    and stamp :: "'c \<Rightarrow> nat \<Rightarrow> bool" and limit :: nat
  assumes reserve_law: "counted e b n \<Longrightarrow>
      counted (fst (reserve_cell W e)) False n \<and> stamp (snd (reserve_cell W e)) n"
    and set_law: "counted e b n \<Longrightarrow> counted (event_set W e) True (if b then n else Suc n)"
    and blocks_law: "counted e b n \<Longrightarrow> stamp c m \<Longrightarrow> m \<le> n \<Longrightarrow> n - m < limit \<Longrightarrow>
      cell_blocks W e c \<longleftrightarrow> \<not> b \<and> m = n"
begin

text \<open>The cell a thread has reserved.\<close>

fun cell_of :: "'c ib_pc \<Rightarrow> 'c option" where
  "cell_of (ISetWaiters c) = Some c"
| "cell_of (ITry i c) = Some c"
| "cell_of (IWait c) = Some c"
| "cell_of pc = None"

text \<open>A cell is older than the last firing, or as old and the event is not signalled.\<close>

definition cells_inv :: "('e, 'c) ib_sys \<Rightarrow> bool" where
  "cells_inv s \<longleftrightarrow>
     (\<exists>b k. counted (event (im s)) b k \<and> k \<le> event_sets s \<and>
        (\<forall>t c. cell_of (ipcs s t) = Some c \<longrightarrow> (\<exists>j. stamp c j \<and> j \<le> k \<and> (j < k \<or> \<not> b))))"

definition blocked :: "('e, 'c) ib_sys \<Rightarrow> nat \<Rightarrow> bool" where
  "blocked s t \<longleftrightarrow> (\<exists>c. cell_of (ipcs s t) = Some c \<and> cell_blocks W (event (im s)) c)"

fun after_set_waiters :: "'c ib_pc \<Rightarrow> bool" where
  "after_set_waiters (ITry i c) = True"
| "after_set_waiters (IWait c) = True"
| "after_set_waiters pc = False"

text \<open>
  The content of LEMMA 1: the \<open>waiters\<close> field of a blocked thread that has set it is still set,
  unless another thread has cleared it and is about to set the event; and a thread that has gone
  to wait is followed by a thread that is inside or on its way out.
\<close>

definition handover :: "('e, 'c) ib_sys \<Rightarrow> bool" where
  "handover s \<longleftrightarrow>
     (\<forall>t. blocked s t \<longrightarrow>
        (after_set_waiters (ipcs s t) \<longrightarrow> waiters (im s) \<noteq> 0 \<or> (\<exists>u. ipcs s u = IEventSet)) \<and>
        ((\<exists>c. ipcs s t = IWait c) \<longrightarrow> (\<exists>u. leaving (ipcs s u))))"

lemma cells_inv_same_event:
  assumes "cells_inv s" and "event (snd r) = event (im s)"
    and "cell_of (fst r) = None \<or> cell_of (fst r) = cell_of (ipcs s t)"
  shows "cells_inv (ib_put s t r)"
  using assms unfolding cells_inv_def by (fastforce simp: le_SucI)

lemma blocked_same_event:
  assumes "event (snd r) = event (im s)"
    and "cell_of (fst r) = None \<or> cell_of (fst r) = cell_of (ipcs s t)"
    and "blocked (ib_put s t r) u"
  shows "blocked s u"
  using assms by (auto simp: blocked_def split: if_splits)

text \<open>The two steps that touch the event.\<close>

lemma reserve_cells:
  assumes inv: "cells_inv s" and pc: "ipcs s t = IReserve"
  shows "cells_inv (ib_put s t (mutex_spin_wait W rounds (ipcs s t) (im s)))"
proof -
  from inv obtain b k where k: "counted (event (im s)) b k" "k \<le> event_sets s"
    and cells: "\<And>u c. cell_of (ipcs s u) = Some c \<Longrightarrow> \<exists>j. stamp c j \<and> j \<le> k \<and> (j < k \<or> \<not> b)"
    unfolding cells_inv_def by blast
  obtain e c where ec: "reserve_cell W (event (im s)) = (e, c)" by fastforce
  with reserve_law [OF k(1)] have e: "counted e False k" "stamp c k" by simp_all
  have old: "\<exists>j. stamp d j \<and> j \<le> k" if "cell_of (ipcs s u) = Some d" for u d
    using cells [OF that] by blast
  show ?thesis
    unfolding cells_inv_def
    by (rule exI [of _ False], rule exI [of _ k]) (use ec k(2) pc e old in auto)
qed

lemma reserve_blocked:
  assumes inv: "cells_inv s" and pc: "ipcs s t = IReserve" and lim: "event_sets s < limit"
    and bl: "blocked (ib_put s t (mutex_spin_wait W rounds (ipcs s t) (im s))) u" and ne: "u \<noteq> t"
  shows "blocked s u"
proof -
  from inv obtain b k where k: "counted (event (im s)) b k" "k \<le> event_sets s"
    and cells: "\<And>u c. cell_of (ipcs s u) = Some c \<Longrightarrow> \<exists>j. stamp c j \<and> j \<le> k \<and> (j < k \<or> \<not> b)"
    unfolding cells_inv_def by blast
  obtain e c where ec: "reserve_cell W (event (im s)) = (e, c)" by fastforce
  with reserve_law [OF k(1)] have e: "counted e False k" by simp
  from bl ne ec pc obtain d where d: "cell_of (ipcs s u) = Some d" "cell_blocks W e d"
    by (auto simp: blocked_def)
  from cells [OF d(1)] obtain j where j: "stamp d j" "j \<le> k" "j < k \<or> \<not> b" by blast
  have "k - j < limit" using k(2) lim by simp
  with blocks_law [OF e j(1,2)] blocks_law [OF k(1) j(1,2)] d j(3) show ?thesis
    by (auto simp: blocked_def)
qed

lemma set_cells:
  assumes inv: "cells_inv s" and pc: "ipcs s t = IEventSet"
    and lim: "event_sets s + 1 < limit"
  defines "s' \<equiv> ib_put s t (mutex_exit_func W (ipcs s t) (im s))"
  shows "cells_inv s' \<and> (\<forall>u. \<not> blocked s' u)"
proof -
  from inv obtain b k where k: "counted (event (im s)) b k" "k \<le> event_sets s"
    and cells: "\<And>u c. cell_of (ipcs s u) = Some c \<Longrightarrow> \<exists>j. stamp c j \<and> j \<le> k \<and> (j < k \<or> \<not> b)"
    unfolding cells_inv_def by blast
  let ?k = "if b then k else Suc k"
  have e: "counted (event (im s')) True ?k" using set_law [OF k(1)] pc by (simp add: s'_def)
  have pcs: "ipcs s' = (ipcs s)(t := IOut)" and n: "event_sets s' = Suc (event_sets s)"
    using pc by (simp_all add: s'_def)
  have older: "\<exists>j. stamp c j \<and> j < ?k" if c: "cell_of (ipcs s' u) = Some c" for u c
  proof -
    have "cell_of (ipcs s u) = Some c" using c by (simp add: pcs split: if_splits)
    from cells [OF this] show ?thesis by auto
  qed
  have "cells_inv s'"
    unfolding cells_inv_def
    by (rule exI [of _ True], rule exI [of _ ?k]) (use e older k(2) n in fastforce)
  moreover have "\<not> blocked s' u" for u
  proof
    assume "blocked s' u"
    then obtain c where c: "cell_of (ipcs s' u) = Some c" "cell_blocks W (event (im s')) c"
      by (auto simp: blocked_def)
    from older [OF c(1)] obtain j where j: "stamp c j" "j < ?k" by blast
    have "?k - j < limit" using k(2) lim by auto
    with blocks_law [OF e j(1)] j(2) c(2) show False by simp
  qed
  ultimately show ?thesis by blast
qed

text \<open>All other steps.\<close>

lemma enter_same_event:
  "event (snd (mutex_enter_func m)) = event m" "cell_of (fst (mutex_enter_func m)) = None"
  by (simp_all add: mutex_enter_func_def ib_acc_defs)

lemma nowait_same_event: "mutex_enter_nowait_func m = (r, m') \<Longrightarrow> event m' = event m"
  by (auto simp: mutex_enter_nowait_func_def ib_acc_defs)

lemma spin_same_event:
  assumes "spinning pc" and "pc \<noteq> IReserve"
  shows "event (snd (mutex_spin_wait W rounds pc m)) = event m"
    and "cell_of (fst (mutex_spin_wait W rounds pc m)) = None \<or>
         cell_of (fst (mutex_spin_wait W rounds pc m)) = cell_of pc"
  using assms by (cases pc; auto simp: spinning_def ib_acc_defs)+

lemma exit_same_event:
  assumes "leaving pc" and "pc \<noteq> IEventSet"
  shows "event (snd (mutex_exit_func W pc m)) = event m"
    and "cell_of (fst (mutex_exit_func W pc m)) = None"
  using assms by (auto simp: leaving_def ib_acc_defs)

lemma step_cells:
  assumes "ib_step W rounds s s'" and "cells_inv s" and "event_sets s' < limit"
  shows "cells_inv s'"
  using assms
proof (induction rule: ib_step.induct)
  case (enter s t)
  then show ?case by (intro cells_inv_same_event) (simp_all add: enter_same_event)
next
  case (enter_nowait s t r m)
  then show ?case by (intro cells_inv_same_event) (auto dest: nowait_same_event)
next
  case (spin s t)
  then show ?case
  proof (cases "ipcs s t = IReserve")
    case True
    with spin show ?thesis using reserve_cells by blast
  next
    case False
    with spin show ?thesis by (intro cells_inv_same_event spin_same_event)
  qed
next
  case (exit s t)
  then show ?case
  proof (cases "ipcs s t = IEventSet")
    case True
    with exit show ?thesis using set_cells [of s t] by simp
  next
    case False
    with exit show ?thesis by (intro cells_inv_same_event) (simp_all add: exit_same_event)
  qed
qed

text \<open>The hand-over survives every step.\<close>

lemma handover_keep:
  assumes ho: "handover s" and bl: "\<And>u. blocked (ib_put s t r) u \<Longrightarrow> blocked s u"
    and w: "waiters (snd r) = waiters (im s) \<or> waiters (snd r) \<noteq> 0"
    and out: "leaving (ipcs s t) \<Longrightarrow> leaving (fst r)"
    and ev: "ipcs s t \<noteq> IEventSet"
    and new: "after_set_waiters (fst r) \<Longrightarrow> after_set_waiters (ipcs s t) \<or> waiters (snd r) \<noteq> 0"
    and gone: "\<And>c. fst r = IWait c \<Longrightarrow> (\<exists>d. ipcs s t = IWait d) \<or> (\<exists>u. u \<noteq> t \<and> leaving (ipcs s u))"
  shows "handover (ib_put s t r)"
  unfolding handover_def
proof (intro allI impI conjI)
  fix u assume b: "blocked (ib_put s t r) u"
  note h = ho [unfolded handover_def, rule_format, OF bl [OF b]]
  { assume "after_set_waiters (ipcs (ib_put s t r) u)"
    then have "waiters (snd r) \<noteq> 0 \<or> after_set_waiters (ipcs s u)"
      using new by (auto split: if_splits)
    then have "waiters (snd r) \<noteq> 0 \<or> (\<exists>v. ipcs s v = IEventSet)" using h w by auto
    then show "waiters (im (ib_put s t r)) \<noteq> 0 \<or> (\<exists>v. ipcs (ib_put s t r) v = IEventSet)"
      using ev by auto }
  assume "\<exists>c. ipcs (ib_put s t r) u = IWait c"
  then have "(\<exists>d. ipcs s u = IWait d) \<or> (\<exists>v. v \<noteq> t \<and> leaving (ipcs s v))"
    using gone by (auto split: if_splits)
  then have "\<exists>v. leaving (ipcs s v)" using h by blast
  then show "\<exists>v. leaving (ipcs (ib_put s t r) v)"
    using out by (metis fun_upd_apply ib_put_simps(2))
qed

lemma spinning_not_leaving: "spinning pc \<Longrightarrow> \<not> leaving pc"
  by (auto simp: spinning_def leaving_def)

lemma spin_keeps:
  fixes m :: "'e ib_mutex" and rounds :: ulint
  assumes "spinning pc"
  defines "r \<equiv> mutex_spin_wait W rounds pc m"
  shows "waiters (snd r) = waiters m \<or> waiters (snd r) \<noteq> 0"
    and "after_set_waiters (fst r) \<Longrightarrow> after_set_waiters pc \<or> waiters (snd r) \<noteq> 0"
    and "fst r = IWait c \<Longrightarrow> (\<exists>d. pc = IWait d) \<or> lock_word m \<noteq> 0"
  using assms(1) unfolding r_def
  by (cases pc; (auto simp: spinning_def ib_acc_defs leaving_def split: if_splits prod.splits; fail))+

lemma handover_spin:
  assumes ho: "handover s" and word: "ib_word_inv s" and cells: "cells_inv s"
    and sp: "spinning (ipcs s t)" and lim: "event_sets s < limit"
  shows "handover (ib_put s t (mutex_spin_wait W rounds (ipcs s t) (im s)))" (is "handover (ib_put s t ?r)")
proof (cases "ipcs s t = IReserve")
  case True
  have pc: "\<exists>c. fst ?r = ISetWaiters c" and w: "waiters (snd ?r) = waiters (im s)"
    using True by (auto split: prod.split)
  have old: "blocked s u" if "blocked (ib_put s t ?r) u" "u \<noteq> t" for u
    using reserve_blocked [OF cells True lim that] .
  show ?thesis
    unfolding handover_def
  proof (intro allI impI conjI)
    fix u assume b: "blocked (ib_put s t ?r) u"
    { assume a: "after_set_waiters (ipcs (ib_put s t ?r) u)"
      then have "u \<noteq> t" using pc by auto
      then show "waiters (im (ib_put s t ?r)) \<noteq> 0 \<or> (\<exists>v. ipcs (ib_put s t ?r) v = IEventSet)"
        using a old [OF b] ho w True unfolding handover_def by (auto; metis ib_pc.distinct) }
    assume a: "\<exists>c. ipcs (ib_put s t ?r) u = IWait c"
    then have "u \<noteq> t" using pc by auto
    then have "\<exists>v. leaving (ipcs s v)" using a old [OF b] ho unfolding handover_def by auto
    moreover have "\<not> leaving (ipcs s t)" using True by (simp add: leaving_def)
    ultimately show "\<exists>v. leaving (ipcs (ib_put s t ?r) v)" by auto
  qed
next
  case False
  note k = spin_keeps [OF sp, where rounds = rounds and m = "im s"]
    and nl = spinning_not_leaving [OF sp]
  show ?thesis
  proof (rule handover_keep [OF ho _ k(1)])
    show "blocked s u" if "blocked (ib_put s t ?r) u" for u
      using blocked_same_event [OF spin_same_event [OF sp False] that] .
    show "(\<exists>d. ipcs s t = IWait d) \<or> (\<exists>u. u \<noteq> t \<and> leaving (ipcs s u))" if "fst ?r = IWait c" for c
    proof (rule disjCI)
      assume "\<not> (\<exists>u. u \<noteq> t \<and> leaving (ipcs s u))"
      then have "ipcs s u \<noteq> ICrit" for u using nl by (auto simp: leaving_def)
      then have "lock_word (im s) = 0" using word by (auto simp: ib_word_inv_def)
      with k(3) [OF that] show "\<exists>d. ipcs s t = IWait d" by simp
    qed
  qed (use nl k(2) in \<open>auto simp: leaving_def\<close>)
qed

text \<open>A thread that leaves without signalling has seen \<open>waiters = 0\<close>.\<close>

lemma handover_exit:
  assumes ho: "handover s" and cells: "cells_inv s" and lv: "leaving (ipcs s t)"
    and lim: "ipcs s t = IEventSet \<Longrightarrow> event_sets s + 1 < limit"
  shows "handover (ib_put s t (mutex_exit_func W (ipcs s t) (im s)))" (is "handover (ib_put s t ?r)")
proof (cases "ipcs s t = IEventSet")
  case True
  then show ?thesis using set_cells [OF cells True lim [OF True]] by (simp add: handover_def)
next
  case False
  have old: "blocked s u" if "blocked (ib_put s t ?r) u" for u
    using blocked_same_event [of ?r s t u] exit_same_event [OF lv False] that by blast
  show ?thesis
  proof (cases "ipcs s t = ISignal")
    case True
    then show ?thesis
      unfolding handover_def by (auto simp: leaving_def intro!: exI [of _ t])
  next
    case signal: False
    show ?thesis
    proof (cases "ipcs s t = IExit \<and> waiters (im s) = 0")
      case True
      have ev: "\<exists>v. v \<noteq> t \<and> ipcs s v = IEventSet" if "blocked s u" "after_set_waiters (ipcs s u)" for u
        using ho that True unfolding handover_def by (metis ib_pc.distinct)
      show ?thesis
        unfolding handover_def
      proof (intro allI impI conjI)
        fix u assume b: "blocked (ib_put s t ?r) u"
        { assume "after_set_waiters (ipcs (ib_put s t ?r) u)"
          then have "after_set_waiters (ipcs s u)"
            using True by (auto simp: ib_acc_defs split: if_splits)
          from ev [OF old [OF b] this]
          show "waiters (im (ib_put s t ?r)) \<noteq> 0 \<or> (\<exists>v. ipcs (ib_put s t ?r) v = IEventSet)"
            by auto }
        assume "\<exists>c. ipcs (ib_put s t ?r) u = IWait c"
        then have "after_set_waiters (ipcs s u)"
          using True by (auto simp: ib_acc_defs split: if_splits)
        from ev [OF old [OF b] this] show "\<exists>v. leaving (ipcs (ib_put s t ?r) v)"
          by (auto simp: leaving_def)
      qed
    next
      case other: False
      show ?thesis
        by (rule handover_keep [OF ho old])
          (use lv False signal other in \<open>auto simp: leaving_def ib_acc_defs\<close>)
    qed
  qed
qed

lemma handover_enter:
  assumes ho: "handover s" and pc: "ipcs s t = IOut"
    and ev: "event (snd r) = event (im s)" and w: "waiters (snd r) = waiters (im s)"
    and r: "fst r = ICrit \<or> fst r = IOut \<or> fst r = ISpin 0"
  shows "handover (ib_put s t r)"
proof (rule handover_keep [OF ho])
  show "blocked s u" if "blocked (ib_put s t r) u" for u
    using blocked_same_event [OF ev _ that] r by auto
qed (use pc w r in \<open>auto simp: leaving_def\<close>)

definition ib_inv :: "('e, 'c) ib_sys \<Rightarrow> bool" where
  "ib_inv s \<longleftrightarrow> ib_word_inv s \<and> cells_inv s \<and> handover s"

lemma step_inv:
  assumes "ib_step W rounds s s'" and "ib_inv s" and "event_sets s' < limit"
  shows "ib_inv s'"
proof -
  have word: "ib_word_inv s'" and cells: "cells_inv s'"
    using assms step_cells [of rounds s s'] by (auto simp: ib_inv_def intro: ib_step_word_inv)
  have inv: "ib_word_inv s" "cells_inv s" "handover s" using assms(2) by (simp_all add: ib_inv_def)
  have "handover s'"
    using assms(1,3) inv
  proof (induction rule: ib_step.induct)
    case (enter s t)
    then show ?case by (intro handover_enter) (simp_all add: mutex_enter_func_def ib_acc_defs)
  next
    case (enter_nowait s t r m)
    then show ?case
      by (intro handover_enter) (auto simp: mutex_enter_nowait_func_def ib_acc_defs)
  next
    case (spin s t)
    then show ?case by (intro handover_spin) simp_all
  next
    case (exit s t)
    then show ?case by (intro handover_exit) simp_all
  qed
  with word cells show ?thesis by (simp add: ib_inv_def)
qed

lemma reach_inv:
  assumes m0: "lock_word m0 = 0" "counted (event m0) b 0"
    and "ib_reach W rounds m0 s" and "event_sets s < limit"
  shows "ib_inv s"
  using assms(3,4)
proof (induction rule: ib_reach.induct)
  case init
  have "ib_word_inv \<lparr>im = m0, ipcs = (\<lambda>_. IOut), event_sets = 0\<rparr>"
    using m0(1) by (simp add: ib_word_inv_def)
  then show ?case
    using m0(2) by (auto simp: ib_inv_def cells_inv_def handover_def blocked_def)
next
  case (step s s')
  have "event_sets s \<le> event_sets s'"
    using step.hyps(2) by (induction rule: ib_step.induct) simp_all
  with step show ?case by (auto intro: step_inv)
qed

text \<open>
  What a run without end does to a thread that would block in it for ever: nobody could take the
  step that sets the event, so nobody could be at that step, then nobody at the steps before it.
\<close>

lemma exit_pc:
  assumes "ib_step W rounds s s'" and "leaving (ipcs s u)"
  shows "ipcs s' u = ipcs s u \<or> ipcs s' u = fst (mutex_exit_func W (ipcs s u) (im s))"
  using assms
  by (induction rule: ib_step.induct) (auto dest: spinning_not_leaving simp: leaving_def)

lemma step_event_sets:
  assumes "ib_step W rounds s s'"
  shows "event_sets s' = event_sets s \<and> (\<forall>u. ipcs s u = IEventSet \<longrightarrow> ipcs s' u = IEventSet) \<or>
    (\<exists>u. ipcs s u = IEventSet \<and> s' = ib_put s u (mutex_exit_func W (ipcs s u) (im s)))"
  using assms
proof (induction rule: ib_step.induct)
  case (spin s t)
  then have "ipcs s t \<noteq> IEventSet" by (auto simp: spinning_def)
  then show ?case by simp
next
  case (exit s t)
  then show ?case by (cases "ipcs s t = IEventSet") auto
qed simp_all

lemma blocked_step:
  assumes st: "s' = s \<or> ib_step W rounds s s'" and inv: "ib_inv s"
    and lim: "event_sets s + 1 < limit" and bl: "blocked s' t"
  shows "ib_inv s' \<and> event_sets s' = event_sets s \<and>
    (\<forall>u. ipcs s u = IEventSet \<longrightarrow> ipcs s' u = IEventSet)"
proof (cases "s' = s")
  case False
  with st have step: "ib_step W rounds s s'" by simp
  have "\<not> (\<exists>u. ipcs s u = IEventSet \<and> s' = ib_put s u (mutex_exit_func W (ipcs s u) (im s)))"
    using set_cells [OF _ _ lim] inv bl by (auto simp: ib_inv_def)
  with step_event_sets [OF step] have *: "event_sets s' = event_sets s \<and>
    (\<forall>u. ipcs s u = IEventSet \<longrightarrow> ipcs s' u = IEventSet)" by blast
  with step_inv [OF step inv] lim show ?thesis by simp
qed (use inv in simp)

lemma never_at:
  assumes fair: "ib_fair \<sigma>" and lv: "leaving p"
    and stays: "\<And>i u. ipcs (\<sigma> i) u = p \<Longrightarrow> ipcs (\<sigma> (Suc i)) u = p"
  shows "ipcs (\<sigma> i) u \<noteq> p"
proof
  assume p: "ipcs (\<sigma> i) u = p"
  have "ipcs (\<sigma> (i + d)) u = p" for d by (induction d) (use p stays in auto)
  moreover obtain j where "i < j" "ipcs (\<sigma> j) u \<noteq> ipcs (\<sigma> i) u"
    using fair lv p unfolding ib_fair_def by blast
  ultimately show False using p by (metis less_imp_add_positive)
qed

lemma never_at_next:
  assumes run: "ib_run W rounds \<sigma>" and fair: "ib_fair \<sigma>" and lv: "leaving p"
    and exit: "\<And>i. fst (mutex_exit_func W p (im (\<sigma> i))) = q"
    and q: "\<And>i u. ipcs (\<sigma> i) u \<noteq> q"
  shows "ipcs (\<sigma> i) u \<noteq> p"
proof (rule never_at [OF fair lv])
  fix i u assume p: "ipcs (\<sigma> i) u = p"
  have "\<sigma> (Suc i) = \<sigma> i \<or> ib_step W rounds (\<sigma> i) (\<sigma> (Suc i))" using run by (simp add: ib_run_def)
  then show "ipcs (\<sigma> (Suc i)) u = p"
    using exit_pc [of rounds "\<sigma> i" "\<sigma> (Suc i)" u] p lv exit [of i] q [of "Suc i" u] by auto
qed

lemma not_blocked_for_ever:
  assumes run: "ib_run W rounds \<sigma>" and fair: "ib_fair \<sigma>"
    and inv0: "ib_inv (\<sigma> 0)" and lim: "event_sets (\<sigma> 0) + 1 < limit"
    and wait: "\<And>i. ipcs (\<sigma> i) t = IWait c" and bl: "\<And>i. blocked (\<sigma> i) t"
  shows False
proof -
  have next_step: "\<sigma> (Suc i) = \<sigma> i \<or> ib_step W rounds (\<sigma> i) (\<sigma> (Suc i))" for i
    using run by (simp add: ib_run_def)
  have inv: "ib_inv (\<sigma> i) \<and> event_sets (\<sigma> i) = event_sets (\<sigma> 0)" for i
  proof (induction i)
    case (Suc i)
    with blocked_step [OF next_step [of i] _ _ bl [of "Suc i"]] lim show ?case by simp
  qed (use inv0 in simp)
  have set: "ipcs (\<sigma> i) u \<noteq> IEventSet" for i u
  proof (rule never_at [OF fair])
    fix i u assume "ipcs (\<sigma> i) u = IEventSet"
    then show "ipcs (\<sigma> (Suc i)) u = IEventSet"
      using blocked_step [OF next_step [of i] _ _ bl [of "Suc i"]] lim inv [of i] by simp
  qed (simp add: leaving_def)
  have w: "waiters (im (\<sigma> i)) \<noteq> 0" and lv: "\<exists>u. leaving (ipcs (\<sigma> i) u)" for i
    using inv [of i] bl [of i] wait [of i] set [of i] by (auto simp: ib_inv_def handover_def)
  have signal: "ipcs (\<sigma> i) u \<noteq> ISignal" for i u
    by (rule never_at_next [OF run fair _ _ set]) (simp_all add: leaving_def)
  have exit: "ipcs (\<sigma> i) u \<noteq> IExit" for i u
    by (rule never_at_next [OF run fair _ _ signal]) (use w in \<open>simp_all add: leaving_def ib_acc_defs\<close>)
  have crit: "ipcs (\<sigma> i) u \<noteq> ICrit" for i u
    by (rule never_at_next [OF run fair _ _ exit]) (simp_all add: leaving_def)
  from lv [of 0] set signal exit crit show False by (auto simp: leaving_def)
qed

lemma blocked_waits:
  assumes "ib_step W rounds s s'" and "ipcs s t = IWait c" and "cell_blocks W (event (im s)) c"
  shows "ipcs s' t = IWait c"
  using assms
  by (induction rule: ib_step.induct) (auto simp: leaving_def)

lemma no_new_block:
  assumes "ib_step W rounds s s'" and "ib_inv s" and "event_sets s' < limit"
    and "ipcs s t = IWait c" and "blocked s' t"
  shows "blocked s t"
  using assms
proof (induction rule: ib_step.induct)
  case (enter s u)
  show ?case by (rule blocked_same_event [OF _ _ enter(5)]) (simp_all add: enter_same_event)
next
  case (enter_nowait s u r m)
  show ?case
    by (rule blocked_same_event [OF _ _ enter_nowait(6)])
      (use enter_nowait(2) in \<open>auto dest: nowait_same_event\<close>)
next
  case (spin s u)
  show ?case
  proof (cases "ipcs s u = IReserve")
    case True
    then have "t \<noteq> u" using spin(4) by auto
    with reserve_blocked [OF _ True _ spin(5)] spin(2,3) show ?thesis by (simp add: ib_inv_def)
  next
    case False
    show ?thesis by (rule blocked_same_event [OF spin_same_event [OF spin(1) False] spin(5)])
  qed
next
  case (exit s u)
  show ?case
  proof (cases "ipcs s u = IEventSet")
    case True
    with exit set_cells [of s u] show ?thesis by (auto simp: ib_inv_def)
  next
    case False
    show ?thesis
      by (rule blocked_same_event [OF _ _ exit(5)]) (simp_all add: exit_same_event [OF exit(1) False])
  qed
qed

lemma unblocked_step:
  assumes "s' = s \<or> ib_step W rounds s s'" and "ib_inv s" and "event_sets s' < limit"
    and "ipcs s t = IWait c" and "ipcs s' t = IWait c" and "\<not> cell_blocks W (event (im s)) c"
  shows "ib_inv s' \<and> \<not> cell_blocks W (event (im s')) c"
proof -
  have "\<not> blocked s t" using assms(4,6) by (simp add: blocked_def)
  with assms no_new_block [of rounds s s' t c] have "\<not> blocked s' t" by auto
  with assms step_inv [of rounds s s'] show ?thesis by (auto simp: blocked_def)
qed

lemma wait_ends:
  assumes run: "ib_run W rounds \<sigma>" and fair: "ib_fair \<sigma>"
    and inv0: "ib_inv (\<sigma> 0)" and lim: "event_sets (\<sigma> 0) + 1 < limit"
    and wait: "ipcs (\<sigma> 0) t = IWait c"
  shows "\<exists>i. (\<forall>j \<le> i. ipcs (\<sigma> j) t = IWait c) \<and> \<not> cell_blocks W (event (im (\<sigma> i))) c"
proof (rule ccontr)
  assume "\<not> ?thesis"
  then have blocks: "cell_blocks W (event (im (\<sigma> i))) c" if "\<forall>j \<le> i. ipcs (\<sigma> j) t = IWait c" for i
    using that by blast
  have waits: "\<forall>j \<le> i. ipcs (\<sigma> j) t = IWait c" for i
  proof (induction i)
    case (Suc i)
    have "\<sigma> (Suc i) = \<sigma> i \<or> ib_step W rounds (\<sigma> i) (\<sigma> (Suc i))" using run by (simp add: ib_run_def)
    with blocked_waits [of rounds "\<sigma> i" "\<sigma> (Suc i)" t c] blocks [OF Suc] Suc
    have "ipcs (\<sigma> (Suc i)) t = IWait c" by auto
    with Suc show ?case by (simp add: le_Suc_eq)
  qed (use wait in simp)
  have "blocked (\<sigma> i) t" for i using waits [of i] blocks [OF waits] by (auto simp: blocked_def)
  with not_blocked_for_ever [OF run fair inv0 lim] waits show False by blast
qed

text \<open>A cell that does not block stays that way, also when the event is reset.\<close>

lemma unblocked_stays:
  assumes run: "ib_run W rounds \<sigma>" and inv: "ib_inv (\<sigma> i)"
    and free: "\<not> cell_blocks W (event (im (\<sigma> i))) c"
    and wait: "\<And>k. i \<le> k \<Longrightarrow> k \<le> i + d \<Longrightarrow> ipcs (\<sigma> k) t = IWait c"
    and lim: "event_sets (\<sigma> (i + d)) < limit"
  shows "ib_inv (\<sigma> (i + d)) \<and> \<not> cell_blocks W (event (im (\<sigma> (i + d)))) c"
  using wait lim
proof (induction d)
  case (Suc d)
  have step: "\<sigma> (Suc (i + d)) = \<sigma> (i + d) \<or> ib_step W rounds (\<sigma> (i + d)) (\<sigma> (Suc (i + d)))"
    using run by (simp add: ib_run_def)
  then have le: "event_sets (\<sigma> (i + d)) \<le> event_sets (\<sigma> (Suc (i + d)))"
    by (auto dest: step_event_sets)
  have w: "ipcs (\<sigma> (i + d)) t = IWait c" "ipcs (\<sigma> (Suc (i + d))) t = IWait c"
    using Suc.prems(1) by simp_all
  have IH: "ib_inv (\<sigma> (i + d)) \<and> \<not> cell_blocks W (event (im (\<sigma> (i + d)))) c"
    using Suc.prems le by (intro Suc.IH) auto
  show ?case
    using unblocked_step [OF step, of t c] IH w Suc.prems(2)
    by auto
qed (use inv free in simp)

lemma wait_ends_for_good:
  assumes run: "ib_run W rounds \<sigma>" and fair: "ib_fair \<sigma>"
    and inv0: "ib_inv (\<sigma> 0)" and lim: "event_sets (\<sigma> 0) + 1 < limit"
    and wait: "ipcs (\<sigma> 0) t = IWait c"
  shows "\<exists>i. (\<forall>j \<le> i. ipcs (\<sigma> j) t = IWait c) \<and> \<not> cell_blocks W (event (im (\<sigma> i))) c \<and>
    (\<forall>j \<ge> i. (\<forall>k. i \<le> k \<and> k \<le> j \<longrightarrow> ipcs (\<sigma> k) t = IWait c) \<longrightarrow> event_sets (\<sigma> j) < limit \<longrightarrow>
       \<not> cell_blocks W (event (im (\<sigma> j))) c)"
proof -
  from wait_ends [OF assms] obtain i where i: "\<forall>j \<le> i. ipcs (\<sigma> j) t = IWait c"
    "\<not> cell_blocks W (event (im (\<sigma> i))) c" by blast
  define n where "n = (LEAST i. (\<forall>j \<le> i. ipcs (\<sigma> j) t = IWait c) \<and> \<not> cell_blocks W (event (im (\<sigma> i))) c)"
  note n = LeastI [where P = "\<lambda>i. (\<forall>j \<le> i. ipcs (\<sigma> j) t = IWait c) \<and> \<not> cell_blocks W (event (im (\<sigma> i))) c",
      OF conjI [OF i], folded n_def]
  have before: "ib_inv (\<sigma> k) \<and> event_sets (\<sigma> k) = event_sets (\<sigma> 0)" if "k < n" for k
    using that
  proof (induction k)
    case (Suc k)
    have "blocked (\<sigma> (Suc k)) t"
      using not_less_Least [of "Suc k" "\<lambda>i. (\<forall>j \<le> i. ipcs (\<sigma> j) t = IWait c) \<and> \<not> cell_blocks W (event (im (\<sigma> i))) c"]
        Suc.prems n by (auto simp: n_def [symmetric] blocked_def)
    with Suc blocked_step [of "\<sigma> (Suc k)" "\<sigma> k" rounds t] run lim show ?case by (auto simp: ib_run_def)
  qed (use inv0 in simp)
  have "ib_inv (\<sigma> n)"
  proof (cases n)
    case (Suc k)
    have st: "\<sigma> n = \<sigma> k \<or> ib_step W rounds (\<sigma> k) (\<sigma> n)" using run Suc by (simp add: ib_run_def)
    then have "event_sets (\<sigma> n) \<le> event_sets (\<sigma> k) + 1" by (auto dest: step_event_sets)
    with before [of k] st Suc lim show ?thesis using step_inv [of rounds "\<sigma> k" "\<sigma> n"] by auto
  qed (use inv0 in simp)
  then have "\<not> cell_blocks W (event (im (\<sigma> j))) c"
    if "n \<le> j" "\<forall>k. n \<le> k \<and> k \<le> j \<longrightarrow> ipcs (\<sigma> k) t = IWait c" "event_sets (\<sigma> j) < limit" for j
    using unblocked_stays [OF run, of n c "j - n" t] that n by auto
  with n show ?thesis by blast
qed

end

text \<open>
  What \<open>sync0sync.cc\<close> documents of the wait array, over the events of \<open>os0sync.cc\<close>: \<open>cnt\<close> is the
  count stored in a cell.
\<close>

locale sync_array =
  fixes W :: "(os_event, 'c) wait_ops" and cnt :: "'c \<Rightarrow> u64"
  assumes reserve_resets: "fst (reserve_cell W e) = fst (os_event_reset e)"
    and reserve_keeps_count: "cnt (snd (reserve_cell W e)) = snd (os_event_reset e)"
    and wait_low: "cell_blocks W e c \<longleftrightarrow> wait_blocks e (cnt c)"
    and set_sets: "event_set W e = fst (os_event_set e)"

sublocale sync_array \<subseteq> event_sem W
  "\<lambda>e b n. is_set e = b \<and> signal_count e = 1 + of_nat n" "\<lambda>c n. cnt c = 1 + of_nat n" "2 ^ 64"
proof
  fix e :: os_event and b n
  assume "is_set e = b \<and> signal_count e = 1 + of_nat n"
  then show "(is_set (fst (reserve_cell W e)) = False \<and>
      signal_count (fst (reserve_cell W e)) = 1 + of_nat n) \<and>
      cnt (snd (reserve_cell W e)) = 1 + of_nat n"
    by (simp add: reserve_resets reserve_keeps_count)
next
  fix e :: os_event and b n
  assume "is_set e = b \<and> signal_count e = 1 + of_nat n"
  then show "is_set (event_set W e) = True \<and>
      signal_count (event_set W e) = 1 + of_nat (if b then n else Suc n)"
    by (simp add: set_sets algebra_simps)
next
  fix e :: os_event and b n c m
  assume e: "is_set e = b \<and> signal_count e = 1 + of_nat n" and c: "cnt c = 1 + of_nat m"
    and mn: "m \<le> n" "n - m < 2 ^ 64"
  have "(of_nat n :: u64) = of_nat m + of_nat (n - m)" using mn(1) by (simp flip: of_nat_add)
  moreover have "m \<noteq> n \<Longrightarrow> of_nat m + of_nat (n - m) \<noteq> (of_nat m :: u64)"
    using mn by (intro word_add_of_nat_neq) simp_all
  ultimately have "signal_count e = cnt c \<longleftrightarrow> m = n" using e c by auto
  then show "cell_blocks W e c = (\<not> b \<and> m = n)" using e by (simp add: wait_low wait_blocks_def)
qed

context sync_array begin

lemma is_event_sem:
  "event_sem W (\<lambda>e b n. is_set e = b \<and> signal_count e = 1 + of_nat n)
     (\<lambda>c n. cnt c = 1 + of_nat n) (2 ^ 64)"
  by unfold_locales

end

text \<open>The wait array that keeps nothing but the count satisfies the interface.\<close>

definition count_cells :: "(os_event, u64) wait_ops" where
  "count_cells = \<lparr>reserve_cell = os_event_reset, event_set = fst \<circ> os_event_set,
     cell_blocks = wait_blocks\<rparr>"

interpretation count_cells: sync_array count_cells id
  by unfold_locales (simp_all add: count_cells_def)

section \<open>Lock elision\<close>

text \<open>\<open>hle_lock\<close>/\<open>hle_unlock\<close> of \<open>myhle.cc\<close>, on the word \<open>hle_mutex\<close>.\<close>

definition hle_lock :: "u32 lock_alg" where
  "hle_lock = \<lparr>acquire = exchange_busy, waits_first = False, waits_inside = True,
     wait_more = (\<lambda>val. val = 1), release = hle_clear4\<rparr>"

interpretation hle_mutex: spin_lock hle_lock word01 word_held
  by unfold_locales (auto simp: hle_lock_def instr_defs word01_defs)

text \<open>\<open>hle_mutex_exit_func\<close>: unlock, then wake the waiters of the ordinary mutex if any.\<close>

definition hle_mutex_exit_func :: "('e, 'c) wait_ops \<Rightarrow> 'e ib_mutex \<Rightarrow> 'e ib_mutex" where
  "hle_mutex_exit_func W m =
     (let m = m\<lparr>hle_mutex := release hle_lock (hle_mutex m)\<rparr> in
      if mutex_get_waiters m \<noteq> 0
      then snd (mutex_signal_object W IEventSet (snd (mutex_signal_object W ISignal m)))
      else m)"

lemma nonzero_hle_word:
  assumes "spin_reach hle_lock w s" and "w \<noteq> 0"
  shows "lword s \<noteq> 0 \<and> (\<forall>t. spcs s t \<noteq> Critical)"
  using assms(1)
proof (induction rule: spin_reach.induct)
  case init
  show ?case using assms(2) by simp
next
  case (step s s')
  from step.hyps(2) step.IH show ?case
    by (induction rule: spin_step.induct) (auto simp: hle_lock_def instr_defs)
qed

section \<open>Restricted transactions\<close>

text \<open>
  \<open>rtm_lock\<close> of the variant \<open>syslock-rtm\<close>.  Each list element is one return of \<open>_xbegin\<close> with the
  lock word the transaction would read; \<open>Elided\<close> means that the caller runs as a transaction.
\<close>

fun syslock_rtm_lock :: "int \<Rightarrow> (xbegin_result \<times> u8) list \<Rightarrow> rtm_outcome option" where
  "syslock_rtm_lock failures [] = None"
| "syslock_rtm_lock failures ((XAbort code, w) # rs) =
     (if failures + 1 \<le> 10 then syslock_rtm_lock (failures + 1) rs else Some Fallback)"
| "syslock_rtm_lock failures ((XStarted, w) # rs) =
     (if w \<noteq> 0
      then (if failures + 1 \<le> 10 then syslock_rtm_lock (failures + 1) rs else Some Fallback)
      else Some Elided)"

text \<open>\<open>rtm_lock\<close> of the variant \<open>trx_lock_func-rtm\<close>, which does not look at the word.\<close>

fun trx_rtm_lock :: "int \<Rightarrow> (xbegin_result \<times> u8) list \<Rightarrow> rtm_outcome option" where
  "trx_rtm_lock failures [] = None"
| "trx_rtm_lock failures ((XStarted, w) # rs) = Some Elided"
| "trx_rtm_lock failures ((XAbort code, w) # rs) =
     (if failures + 1 \<le> 1000 then trx_rtm_lock (failures + 1) rs else Some Fallback)"

text \<open>\<open>rtm_unlock\<close> of both variants: whether the thread leaves by \<open>mutex_exit_func\<close>.\<close>

definition rtm_unlock_exits :: "bool \<Rightarrow> bool" where
  "rtm_unlock_exits xtest \<longleftrightarrow> \<not> xtest"

lemma syslock_rtm_elided:
  "syslock_rtm_lock failures rs = Some Elided \<Longrightarrow> (XStarted, 0) \<in> set rs"
  by (induction failures rs rule: syslock_rtm_lock.induct) (auto split: if_splits)

lemma syslock_rtm_returns:
  "10 < failures + int (length rs) \<Longrightarrow> failures \<le> 10 \<Longrightarrow> syslock_rtm_lock failures rs \<noteq> None"
  by (induction failures rs rule: syslock_rtm_lock.induct) auto

lemma trx_rtm_returns:
  "1000 < failures + int (length rs) \<Longrightarrow> failures \<le> 1000 \<Longrightarrow> trx_rtm_lock failures rs \<noteq> None"
  by (induction failures rs rule: trx_rtm_lock.induct) auto

section \<open>Runs\<close>

text \<open>One step of thread \<open>t\<close> in a schedule, with \<open>mutex_enter\<close> as the entry.\<close>

definition ib_sched ::
  "('e, 'c) wait_ops \<Rightarrow> ulint \<Rightarrow> nat \<Rightarrow> ('e, 'c) ib_sys \<Rightarrow> ('e, 'c) ib_sys" where
  "ib_sched W rounds t s =
     (if ipcs s t = IOut then ib_put s t (mutex_enter_func (im s))
      else if spinning (ipcs s t) then ib_put s t (mutex_spin_wait W rounds (ipcs s t) (im s))
      else if leaving (ipcs s t) then ib_put s t (mutex_exit_func W (ipcs s t) (im s))
      else s)"

lemma ib_sched_reach: "ib_reach W rounds m0 s \<Longrightarrow> ib_reach W rounds m0 (ib_sched W rounds t s)"
  by (auto simp: ib_sched_def intro: ib_reach.step ib_step.intros)

lemma ib_sched_run:
  "ib_reach W rounds m0
     (fold (ib_sched W rounds) ts \<lparr>im = m0, ipcs = (\<lambda>_. IOut), event_sets = 0\<rparr>)"
proof -
  have "ib_reach W rounds m0 s \<Longrightarrow> ib_reach W rounds m0 (fold (ib_sched W rounds) ts s)" for s
    by (induction ts arbitrary: s) (auto intro: ib_sched_reach)
  then show ?thesis by (blast intro: ib_reach.init)
qed

section \<open>Properties\<close>

text \<open>
  C1: Mutual exclusion of the InnoDB mutex: from a mutex whose lock word is reset, whatever the
  wait array does, at most one thread is between \<open>mutex_enter\<close> (or a successful
  \<open>mutex_enter_nowait\<close>) and \<open>mutex_exit\<close>, and the lock word is 1 exactly while one is.
\<close>

theorem ib_mutex_mutual_exclusion:
  assumes "lock_word m0 = 0" and "ib_reach W rounds m0 s"
  shows "(ipcs s t = ICrit \<longrightarrow> ipcs s u = ICrit \<longrightarrow> t = u) \<and>
    (lock_word (im s) = 1 \<longleftrightarrow> (\<exists>t. ipcs s t = ICrit))"
  using ib_reach_word_inv [OF assms] by (auto simp: ib_word_inv_def)

text \<open>A mutex in zeroed memory, and a schedule that lets thread 2 wait for thread 1.\<close>

definition demo_mutex :: "os_event ib_mutex" where
  "demo_mutex = mutex_init_fields os_event_new None 0
     \<lparr>event = os_event_new, lock_word = 7, hle_mutex = 0, waiters = 3, cfile_name = None,
      cline = 0, count_os_wait = 9\<rparr>"

definition demo_wait :: "(os_event, u64) ib_sys" where
  "demo_wait = fold (ib_sched count_cells 0) [1, 2, 2, 2, 2, 2, 2, 2, 2, 2]
     \<lparr>im = demo_mutex, ipcs = (\<lambda>_. IOut), event_sets = 0\<rparr>"

lemmas demo_defs = demo_mutex_def mutex_init_fields_def os_event_new_def ib_acc_defs

lemma demo_wait_state:
  "ipcs demo_wait = (\<lambda>_. IOut)(1 := ICrit, 2 := IWait 1)" "event_sets demo_wait = 0"
  "lock_word (im demo_wait) = 1" "is_set (event (im demo_wait)) = False"
  "signal_count (event (im demo_wait)) = 1"
  by (simp_all add: demo_wait_def demo_defs ib_sched_def spinning_def leaving_def
      mutex_enter_func_def count_cells_def os_event_reset_def wait_blocks_def fun_eq_iff)

lemma demo_wait_reach: "ib_reach count_cells 0 demo_mutex demo_wait"
  unfolding demo_wait_def by (rule ib_sched_run)

theorem ib_mutex_mutual_exclusion_witness:
  "lock_word demo_mutex = 0 \<and> ib_reach count_cells 0 demo_mutex demo_wait \<and>
   lock_word (im demo_wait) = 1 \<and> (\<exists>t. ipcs demo_wait t = ICrit)"
proof -
  have "lock_word demo_mutex = 0" by (simp add: demo_defs)
  then show ?thesis
    using ib_mutex_mutual_exclusion [of demo_mutex count_cells 0 demo_wait 1 1]
      demo_wait_reach demo_wait_state(3) by blast
qed

text \<open>
  C2: LEMMA 1 of \<open>sync0sync.cc\<close>, no infinite wait: for every wait array that behaves as
  documented, in every run without end in which no thread stays inside the critical section or in
  \<open>mutex_exit_func\<close> for ever, a thread that waits for the mutex in \<open>sync_array_wait_event\<close> is
  woken: after finitely many steps its wait no longer blocks, without it having had to move; and
  from then on it stays so until the thread moves, also when other threads reset the event, as long
  as the 64-bit signal count of the event does not wrap around.
\<close>

theorem ib_mutex_no_infinite_wait:
  assumes "sync_array W cnt"
    and "lock_word m0 = 0" and "event m0 = os_event_new"
    and "ib_reach W rounds m0 (\<sigma> 0)" and "event_sets (\<sigma> 0) + 1 < 2 ^ 64"
    and "ib_run W rounds \<sigma>" and "ib_fair \<sigma>" and "ipcs (\<sigma> 0) t = IWait c"
  shows "\<exists>i. (\<forall>j \<le> i. ipcs (\<sigma> j) t = IWait c) \<and> \<not> wait_blocks (event (im (\<sigma> i))) (cnt c) \<and>
    (\<forall>j \<ge> i. (\<forall>k. i \<le> k \<and> k \<le> j \<longrightarrow> ipcs (\<sigma> k) t = IWait c) \<longrightarrow> event_sets (\<sigma> j) < 2 ^ 64 \<longrightarrow>
       \<not> wait_blocks (event (im (\<sigma> j))) (cnt c))"
proof -
  have "event_sem.ib_inv W (\<lambda>e b n. is_set e = b \<and> signal_count e = 1 + of_nat n)
      (\<lambda>c n. cnt c = 1 + of_nat n) (\<sigma> 0)"
    by (rule event_sem.reach_inv [where b = False, OF sync_array.is_event_sem [OF assms(1)] assms(2) _ assms(4)])
      (use assms(3,5) in \<open>simp_all add: os_event_new_def\<close>)
  from event_sem.wait_ends_for_good [OF sync_array.is_event_sem [OF assms(1)] assms(6,7) this assms(5,8)]
  show ?thesis by (simp add: sync_array.wait_low [OF assms(1)])
qed

text \<open>The run in which thread 1 leaves the mutex, wakes thread 2, and nothing moves any more.\<close>

definition demo_run :: "nat \<Rightarrow> (os_event, u64) ib_sys" where
  "demo_run i = fold (ib_sched count_cells 0) (replicate (min i 4) 1) demo_wait"

lemma demo_run_run: "ib_run count_cells 0 demo_run"
  unfolding ib_run_def
proof
  fix i
  have "fold (ib_sched count_cells 0) (replicate (Suc k) 1) s =
      ib_sched count_cells 0 1 (fold (ib_sched count_cells 0) (replicate k 1) s)" for k s
    by (induction k arbitrary: s) simp_all
  then have "i < 4 \<Longrightarrow> demo_run (Suc i) = ib_sched count_cells 0 1 (demo_run i)"
    by (simp add: demo_run_def min_def)
  moreover have "ib_sched W rounds u s = s \<or> ib_step W rounds s (ib_sched W rounds u s)"
    for W :: "(os_event, u64) wait_ops" and rounds u s
    by (auto simp: ib_sched_def intro: ib_step.intros)
  ultimately show "demo_run (Suc i) = demo_run i \<or> ib_step count_cells 0 (demo_run i) (demo_run (Suc i))"
    by (cases "i < 4") (auto simp: demo_run_def)
qed

lemma demo_run_end: "4 \<le> i \<Longrightarrow> \<not> leaving (ipcs (demo_run i) u)"
  by (simp add: demo_run_def numeral_eq_Suc demo_wait_def demo_defs ib_sched_def spinning_def leaving_def
      mutex_enter_func_def count_cells_def os_event_reset_def os_event_set_def wait_blocks_def)

lemma demo_run_fair: "ib_fair demo_run"
  unfolding ib_fair_def
proof (intro allI impI)
  fix i u assume lv: "leaving (ipcs (demo_run i) u)"
  then have "ipcs (demo_run 4) u \<noteq> ipcs (demo_run i) u" using demo_run_end [of 4 u] by auto
  moreover have "i < 4" using lv demo_run_end [of i u] by (meson not_le)
  ultimately show "\<exists>j > i. ipcs (demo_run j) u \<noteq> ipcs (demo_run i) u" by blast
qed

theorem ib_mutex_no_infinite_wait_witness:
  "ib_run count_cells 0 demo_run \<and> ib_fair demo_run \<and> ipcs (demo_run 0) 2 = IWait 1 \<and>
   wait_blocks (event (im (demo_run 0))) 1 \<and>
   (\<exists>i. (\<forall>j \<le> i. ipcs (demo_run j) 2 = IWait 1) \<and> \<not> wait_blocks (event (im (demo_run i))) 1)"
proof -
  have m: "lock_word demo_mutex = 0" "event demo_mutex = os_event_new"
    by (simp_all add: demo_defs)
  have z: "demo_run 0 = demo_wait" by (simp add: demo_run_def)
  have t: "ipcs (demo_run 0) 2 = IWait 1" and n: "event_sets (demo_run 0) + 1 < 2 ^ 64"
    and r: "ib_reach count_cells 0 demo_mutex (demo_run 0)"
    and b: "wait_blocks (event (im (demo_run 0))) 1"
    by (simp_all add: z demo_wait_state demo_wait_reach wait_blocks_def)
  from ib_mutex_no_infinite_wait [OF count_cells.sync_array_axioms m r n demo_run_run demo_run_fair t]
  show ?thesis using b t demo_run_run demo_run_fair by auto
qed

text \<open>
  \<open>mutex_create_func\<close> leaves \<open>hle_mutex\<close> as it finds it, and on any word but 0 no call of
  \<open>hle_lock\<close> ever returns: a mutex created in memory that is not zeroed can never be entered with
  \<open>hle_mutex_enter\<close>.
\<close>

theorem hle_mutex_not_initialised:
  assumes "m' = mutex_init_fields evt file line m" and "hle_mutex m \<noteq> 0"
    and "spin_reach hle_lock (hle_mutex m') s"
  shows "spcs s t \<noteq> Critical"
  using nonzero_hle_word [OF assms(3)] assms(1,2)
  by (simp add: mutex_init_fields_def ib_acc_defs)

theorem hle_mutex_not_initialised_witness:
  "\<exists>s. spin_reach hle_lock 5 s \<and> spcs s 1 = Trying \<and> spcs s 1 \<noteq> Critical"
proof -
  let ?m = "\<lparr>event = 0 :: nat, lock_word = 0, hle_mutex = 5, waiters = 0, cfile_name = None,
    cline = 0, count_os_wait = 0\<rparr>"
  let ?s = "\<lparr>lword = 5, spcs = (\<lambda>_. Idle)(1 := Trying)\<rparr> :: u32 spin_sys"
  have r: "spin_reach hle_lock 5 ?s"
    using spin_reach_start [of hle_lock 5 1] by (simp add: hle_lock_def)
  have "spcs ?s 1 \<noteq> Critical"
    by (rule hle_mutex_not_initialised [of "mutex_init_fields 0 None 0 ?m" 0 None 0 ?m])
      (use r in \<open>simp_all add: mutex_init_fields_def ib_acc_defs\<close>)
  with r show ?thesis by fastforce
qed

text \<open>
  The two ways to enter the same mutex do not exclude each other: on a free mutex
  \<open>mutex_enter_nowait\<close> and then \<open>hle_mutex_enter_nowait\<close> both succeed, because they use different
  words.
\<close>

theorem hle_and_plain_enter_both_succeed:
  assumes "lock_word m = 0" and "hle_mutex m = 0"
  shows "fst (mutex_enter_nowait_func m) = 0 \<and>
    fst (hle_mutex_enter_nowait_func (snd (mutex_enter_nowait_func m))) = 0"
  using assms
  by (simp add: mutex_enter_nowait_func_def hle_mutex_enter_nowait_func_def ib_acc_defs instr_defs)

theorem hle_and_plain_enter_both_succeed_witness:
  "fst (hle_mutex_enter_nowait_func (snd (mutex_enter_nowait_func demo_mutex))) = 0"
  using hle_and_plain_enter_both_succeed [of demo_mutex] by (simp add: demo_defs)

text \<open>
  The transactional lock of \<open>syslock-rtm\<close> runs its caller as a transaction only after having
  read a free lock word inside it, and gives up after at most 11 attempts; the one of
  \<open>trx_lock_func-rtm\<close> elides whatever the lock word is, so a transaction can commit in the
  middle of the critical section of a thread that holds the mutex.
\<close>

theorem rtm_lock_word_check:
  "(syslock_rtm_lock 0 rs = Some Elided \<longrightarrow> (XStarted, 0) \<in> set rs) \<and>
   (10 < length rs \<longrightarrow> syslock_rtm_lock 0 rs \<noteq> None) \<and>
   (1000 < length rs \<longrightarrow> trx_rtm_lock 0 rs \<noteq> None) \<and>
   trx_rtm_lock 0 ((XStarted, w) # rs) = Some Elided"
  using syslock_rtm_elided [of 0 rs] syslock_rtm_returns [of 0 rs] trx_rtm_returns [of 0 rs]
  by auto

theorem rtm_lock_word_check_witness:
  "syslock_rtm_lock 0 [(XStarted, 1), (XAbort 2, 1), (XStarted, 0)] = Some Elided \<and>
   (XStarted, 0::u8) \<in> set [(XStarted, 1), (XAbort 2, 1), (XStarted, 0)] \<and>
   trx_rtm_lock 0 [(XStarted, 1)] = Some Elided"
proof -
  have "syslock_rtm_lock 0 [(XStarted, 1), (XAbort 2, 1), (XStarted, 0)] = Some Elided" by simp
  then show ?thesis
    using rtm_lock_word_check [of "[(XStarted, 1), (XAbort 2, 1), (XStarted, 0)]" 1]
      rtm_lock_word_check [of "[]" 1] by blast
qed

end
