(* ===== verification/IbSync.thy ===== *)
theory IbSync
  imports OsSync IbMutex "HOL-Library.Multiset"
begin

text \<open>
  The global list of InnoDB mutexes (\<open>mysql-5.6.10-syslock/storage/innobase/sync/sync0sync.cc\<close>):
  creating and freeing a mutex with its event (\<open>OsSync\<close>), the list under \<open>mutex_list_mutex\<close>,
  start-up and shutdown of the synchronisation layer, and the count of reserved mutexes.  One
  thread runs the operations: entering a mutex that is reserved is a deadlock, an error value as
  is a failed \<open>ut_a\<close>.

  The wait array (\<open>sync0arr.cc\<close>) and the list macros (\<open>ut0lst.h\<close>) are not part of the repository:
  the initialisation and the closing of the array are arguments of the model, and the list is the
  sequence of the addresses of its mutexes, as documented for the macros.
\<close>

section \<open>State\<close>

record 'w ib_sync =
  sync_initialized :: bool
  ib_mutexes :: "nat \<rightharpoonup> nat ib_mutex"    \<comment> \<open>initialised mutexes by address; the event is its address\<close>
  mutex_list :: "nat list"
  sync_os :: os_sync
  wait_array :: 'w

definition mutex_list_mutex :: nat where "mutex_list_mutex = 1"
definition rw_lock_list_mutex :: nat where "rw_lock_list_mutex = 2"

definition set_mutex :: "nat \<Rightarrow> nat ib_mutex \<Rightarrow> 'w ib_sync \<Rightarrow> 'w ib_sync" where
  "set_mutex a m s = s\<lparr>ib_mutexes := (ib_mutexes s)(a \<mapsto> m)\<rparr>"

section \<open>Operations\<close>

definition enter_mutex :: "nat \<Rightarrow> 'w ib_sync \<Rightarrow> os_error + 'w ib_sync" where
  "enter_mutex a s =
     (case ib_mutexes s a of
        None \<Rightarrow> Inl BadHandle
      | Some m \<Rightarrow> (let (old, m) = ib_mutex_test_and_set m
                    in if old = 0 then Inr (set_mutex a m s) else Inl Deadlock))"

definition exit_mutex :: "nat \<Rightarrow> 'w ib_sync \<Rightarrow> os_error + 'w ib_sync" where
  "exit_mutex a s =
     (case ib_mutexes s a of
        None \<Rightarrow> Inl BadHandle
      | Some m \<Rightarrow>
          (let m = mutex_reset_lock_word m
           in if mutex_get_waiters m \<noteq> 0 then
                (case os_events (sync_os s) (event m) of
                   None \<Rightarrow> Inl BadHandle
                 | Some e \<Rightarrow>
                     Inr (set_mutex a (mutex_set_waiters m 0)
                       (s\<lparr>sync_os := (sync_os s)\<lparr>os_events := (os_events (sync_os s))(event m \<mapsto> fst (os_event_set e))\<rparr>\<rparr>)))
              else Inr (set_mutex a m s)))"

text \<open>\<open>m0\<close> is what the memory holds before.\<close>

definition mutex_create_func :: "nat \<Rightarrow> nat ib_mutex \<Rightarrow> cstr \<Rightarrow> ulint \<Rightarrow> 'w ib_sync \<Rightarrow> os_error + 'w ib_sync" where
  "mutex_create_func a m0 file line s =
     bind_res (os_event_create (sync_os s)) (\<lambda>(os, e).
       let s = set_mutex a (mutex_init_fields e file line m0) (s\<lparr>sync_os := os\<rparr>)
       in if a = mutex_list_mutex then Inr s
          else bind_res (enter_mutex mutex_list_mutex s) (\<lambda>s.
            exit_mutex mutex_list_mutex (s\<lparr>mutex_list := a # mutex_list s\<rparr>)))"

definition list_remove :: "nat \<Rightarrow> 'w ib_sync \<Rightarrow> os_error + 'w ib_sync" where
  "list_remove a s =
     (if a \<in> set (mutex_list s) then Inr (s\<lparr>mutex_list := remove1 a (mutex_list s)\<rparr>) else Inl BadHandle)"

definition mutex_free_func :: "nat \<Rightarrow> 'w ib_sync \<Rightarrow> os_error + 'w ib_sync" where
  "mutex_free_func a s =
     (case ib_mutexes s a of
        None \<Rightarrow> Inl BadHandle
      | Some m \<Rightarrow>
          if mutex_get_lock_word m \<noteq> 0 then Inl AssertFailed
          else if mutex_get_waiters m \<noteq> 0 then Inl AssertFailed
          else
            bind_res (if a \<noteq> mutex_list_mutex then
                        bind_res (enter_mutex mutex_list_mutex s) (\<lambda>s.
                        bind_res (list_remove a s) (exit_mutex mutex_list_mutex))
                      else Inr s) (\<lambda>s.
            bind_res (os_event_free (event m) (sync_os s)) (\<lambda>os.
              Inr (s\<lparr>sync_os := os, ib_mutexes := (ib_mutexes s)(a := None)\<rparr>))))"

text \<open>The number of listed mutexes whose lock word is set.\<close>

fun count_reserved :: "nat list \<Rightarrow> 'w ib_sync \<Rightarrow> os_error + ulint" where
  "count_reserved [] s = Inr 0"
| "count_reserved (a # as) s =
     (case ib_mutexes s a of
        None \<Rightarrow> Inl BadHandle
      | Some m \<Rightarrow> bind_res (count_reserved as s) (\<lambda>n. Inr (if mutex_get_lock_word m \<noteq> 0 then n + 1 else n)))"

definition mutex_n_reserved :: "'w ib_sync \<Rightarrow> os_error + (ulint \<times> 'w ib_sync)" where
  "mutex_n_reserved s =
     bind_res (enter_mutex mutex_list_mutex s) (\<lambda>s.
     bind_res (count_reserved (mutex_list s) s) (\<lambda>count.
     bind_res (exit_mutex mutex_list_mutex s) (\<lambda>s.
       if count \<ge> 1 then Inr (count - 1, s) else Inl AssertFailed)))"

text \<open>\<open>rw_lock_n_locked\<close> is not part of the repository.\<close>

definition sync_all_freed :: "ulint \<Rightarrow> 'w ib_sync \<Rightarrow> os_error + (bool \<times> 'w ib_sync)" where
  "sync_all_freed rw_lock_n_locked s =
     bind_res (mutex_n_reserved s) (\<lambda>(n, s). Inr (n + rw_lock_n_locked = 0, s))"

definition sync_init :: "('w \<Rightarrow> 'w) \<Rightarrow> (nat \<Rightarrow> nat ib_mutex) \<Rightarrow> 'w ib_sync \<Rightarrow> os_error + 'w ib_sync" where
  "sync_init sync_array_init mem s =
     (if sync_initialized s then Inl AssertFailed
      else
        let s = s\<lparr>sync_initialized := True, wait_array := sync_array_init (wait_array s), mutex_list := []\<rparr>
        in bind_res (mutex_create_func mutex_list_mutex (mem mutex_list_mutex) None 0 s)
             (mutex_create_func rw_lock_list_mutex (mem rw_lock_list_mutex) None 0))"

fun free_listed :: "nat \<Rightarrow> 'w ib_sync \<Rightarrow> os_error + 'w ib_sync" where
  "free_listed k s =
     (case mutex_list s of
        [] \<Rightarrow> Inr s
      | a # _ \<Rightarrow> (case k of 0 \<Rightarrow> Inl OutOfFuel | Suc k \<Rightarrow> bind_res (mutex_free_func a s) (free_listed k)))"

definition sync_close :: "('w \<Rightarrow> 'w) \<Rightarrow> 'w ib_sync \<Rightarrow> os_error + 'w ib_sync" where
  "sync_close sync_array_close s =
     (let s = s\<lparr>wait_array := sync_array_close (wait_array s)\<rparr>
      in bind_res (free_listed (length (mutex_list s)) s) (\<lambda>s.
         bind_res (mutex_free_func mutex_list_mutex s) (\<lambda>s. Inr (s\<lparr>sync_initialized := False\<rparr>))))"

section \<open>Invariant\<close>

definition event_at :: "'w ib_sync \<Rightarrow> nat \<Rightarrow> nat" where
  "event_at s a = event (the (ib_mutexes s a))"

definition mutex_free_at :: "'w ib_sync \<Rightarrow> nat \<Rightarrow> bool" where
  "mutex_free_at s a \<longleftrightarrow> (\<exists>m. ib_mutexes s a = Some m \<and> lock_word m = 0 \<and> waiters m = 0)"

text \<open>
  The initialised mutexes are those of the list and \<open>mutex_list_mutex\<close>, which is free; the events are
  those of the mutexes and the \<open>others\<close>.
\<close>

definition ib_sync_inv :: "nat multiset \<Rightarrow> 'w ib_sync \<Rightarrow> bool" where
  "ib_sync_inv others s \<longleftrightarrow>
     sync_initialized s \<and> os_running (sync_os s) \<and> distinct (mutex_list_mutex # mutex_list s) \<and>
     dom (ib_mutexes s) = set (mutex_list_mutex # mutex_list s) \<and> mutex_free_at s mutex_list_mutex \<and>
     mset (os_event_list (sync_os s)) = others + mset (map (event_at s) (mutex_list_mutex # mutex_list s))"

lemma enter_free:
  assumes "mutex_free_at s a"
  obtains m where "ib_mutexes s a = Some m" and "lock_word m = 0" and "waiters m = 0"
    and "enter_mutex a s = Inr (set_mutex a (m\<lparr>lock_word := 1\<rparr>) s)"
  using assms by (auto simp: mutex_free_at_def enter_mutex_def ib_acc_defs)

text \<open>The bracket around a change of the list is invisible.\<close>

lemma list_bracket:
  assumes "mutex_free_at s mutex_list_mutex"
  shows "bind_res (enter_mutex mutex_list_mutex s) (\<lambda>s. exit_mutex mutex_list_mutex (s\<lparr>mutex_list := f (mutex_list s)\<rparr>)) =
    Inr (s\<lparr>mutex_list := f (mutex_list s)\<rparr>)"
proof -
  obtain m where m: "ib_mutexes s mutex_list_mutex = Some m" "lock_word m = 0" "waiters m = 0"
    "enter_mutex mutex_list_mutex s = Inr (set_mutex mutex_list_mutex (m\<lparr>lock_word := 1\<rparr>) s)"
    by (rule enter_free [OF assms])
  have "m\<lparr>lock_word := 0\<rparr> = m" using m(2) by simp
  then have "(ib_mutexes s)(mutex_list_mutex \<mapsto> m\<lparr>lock_word := 0\<rparr>) = ib_mutexes s"
    using m(1) by (metis fun_upd_triv)
  then show ?thesis using m by (simp add: exit_mutex_def set_mutex_def ib_acc_defs)
qed

lemma list_bracket_remove:
  assumes "mutex_free_at s mutex_list_mutex" and "a \<in> set (mutex_list s)"
  shows "bind_res (enter_mutex mutex_list_mutex s) (\<lambda>s. bind_res (list_remove a s) (exit_mutex mutex_list_mutex)) =
    Inr (s\<lparr>mutex_list := remove1 a (mutex_list s)\<rparr>)"
proof -
  have "bind_res (enter_mutex mutex_list_mutex s) (\<lambda>s. bind_res (list_remove a s) (exit_mutex mutex_list_mutex)) =
      bind_res (enter_mutex mutex_list_mutex s) (\<lambda>s. exit_mutex mutex_list_mutex (s\<lparr>mutex_list := remove1 a (mutex_list s)\<rparr>))"
    by (rule enter_free [OF assms(1)]) (use assms(2) in \<open>simp add: list_remove_def set_mutex_def\<close>)
  then show ?thesis using list_bracket [OF assms(1), of "remove1 a"] by simp
qed

lemma event_at_other: "a \<noteq> b \<Longrightarrow> event_at (set_mutex b m s) a = event_at s a"
  by (simp add: event_at_def set_mutex_def)

lemma map_event_at_other: "b \<notin> set as \<Longrightarrow> map (event_at (set_mutex b m s)) as = map (event_at s) as"
  by (rule map_cong) (auto intro: event_at_other)

lemma event_at_more [simp]:
  "event_at (s\<lparr>sync_os := os\<rparr>) = event_at s" "event_at (s\<lparr>mutex_list := l\<rparr>) = event_at s"
  "event_at (s\<lparr>sync_initialized := b\<rparr>) = event_at s" "event_at (s\<lparr>wait_array := w\<rparr>) = event_at s"
  by (simp_all add: event_at_def fun_eq_iff)

lemma mutex_free_at_more [simp]:
  "mutex_free_at (s\<lparr>sync_os := os\<rparr>) = mutex_free_at s" "mutex_free_at (s\<lparr>mutex_list := l\<rparr>) = mutex_free_at s"
  "mutex_free_at (s\<lparr>sync_initialized := b\<rparr>) = mutex_free_at s" "mutex_free_at (s\<lparr>wait_array := w\<rparr>) = mutex_free_at s"
  by (simp_all add: mutex_free_at_def fun_eq_iff)

lemma mutex_free_at_other: "a \<noteq> b \<Longrightarrow> mutex_free_at (set_mutex b m s) a = mutex_free_at s a"
  by (simp add: mutex_free_at_def set_mutex_def)

lemma init_fields: "event (mutex_init_fields e f l m) = e" "lock_word (mutex_init_fields e f l m) = 0"
  "waiters (mutex_init_fields e f l m) = 0"
  by (simp_all add: mutex_init_fields_def ib_acc_defs)

section \<open>Creating and freeing\<close>

lemma mutex_create_inv:
  assumes "ib_sync_inv others s" and "ib_mutexes s a = None"
  obtains s' where "mutex_create_func a m0 file line s = Inr s'" and "ib_sync_inv others s'"
    and "mutex_list s' = a # mutex_list s" and "mutex_free_at s' a" and "wait_array s' = wait_array s"
    and "\<And>b. b \<noteq> a \<Longrightarrow> ib_mutexes s' b = ib_mutexes s b"
proof -
  have inv: "os_running (sync_os s)" "distinct (mutex_list_mutex # mutex_list s)"
    "dom (ib_mutexes s) = set (mutex_list_mutex # mutex_list s)" "mutex_free_at s mutex_list_mutex" "sync_initialized s"
    "mset (os_event_list (sync_os s)) = others + mset (map (event_at s) (mutex_list_mutex # mutex_list s))"
    using assms(1) by (auto simp: ib_sync_inv_def)
  have a: "a \<notin> set (mutex_list_mutex # mutex_list s)" using assms(2) inv(3) by (metis domIff)
  obtain os e where os: "os_event_create (sync_os s) = Inr (os, e)" "os_running os" "os_event_list os = e # os_event_list (sync_os s)"
    using os_running_event_create [OF inv(1)] by blast
  let ?m = "mutex_init_fields e file line m0"
  let ?s = "set_mutex a ?m (s\<lparr>sync_os := os\<rparr>)"
  have free: "mutex_free_at ?s mutex_list_mutex" using inv(4) a by (simp add: mutex_free_at_other)
  have "mutex_list ?s = mutex_list s" by (simp add: set_mutex_def)
  then have create: "mutex_create_func a m0 file line s = Inr (?s\<lparr>mutex_list := a # mutex_list s\<rparr>)"
    using os(1) list_bracket [OF free, of "(#) a"] a by (simp add: mutex_create_func_def)
  have ev: "map (event_at ?s) (mutex_list_mutex # mutex_list s) = map (event_at s) (mutex_list_mutex # mutex_list s)"
    using map_event_at_other [OF a, of ?m "s\<lparr>sync_os := os\<rparr>"] by simp
  have "event_at ?s a = e" by (simp add: event_at_def set_mutex_def init_fields)
  then have "mset (map (event_at ?s) (mutex_list_mutex # a # mutex_list s)) =
      add_mset e (mset (map (event_at ?s) (mutex_list_mutex # mutex_list s)))" by simp
  then have "mset (os_event_list os) = others + mset (map (event_at ?s) (mutex_list_mutex # a # mutex_list s))"
    unfolding ev using inv(6) os(3) by simp
  then have "ib_sync_inv others (?s\<lparr>mutex_list := a # mutex_list s\<rparr>)"
    using inv os(2) a free by (auto simp: ib_sync_inv_def set_mutex_def)
  moreover have "mutex_free_at ?s a" by (simp add: mutex_free_at_def set_mutex_def init_fields)
  ultimately show thesis using that [OF create] by (simp add: set_mutex_def)
qed

lemma mutex_free_inv:
  assumes "ib_sync_inv others s" and "mutex_free_at s a" and "a \<noteq> mutex_list_mutex"
  obtains s' where "mutex_free_func a s = Inr s'" and "ib_sync_inv others s'"
    and "mutex_list s' = remove1 a (mutex_list s)" and "ib_mutexes s' = (ib_mutexes s)(a := None)"
    and "wait_array s' = wait_array s"
proof -
  have inv: "os_running (sync_os s)" "distinct (mutex_list_mutex # mutex_list s)"
    "dom (ib_mutexes s) = set (mutex_list_mutex # mutex_list s)" "mutex_free_at s mutex_list_mutex" "sync_initialized s"
    "mset (os_event_list (sync_os s)) = others + mset (map (event_at s) (mutex_list_mutex # mutex_list s))"
    using assms(1) by (auto simp: ib_sync_inv_def)
  obtain m where m: "ib_mutexes s a = Some m" "lock_word m = 0" "waiters m = 0" using assms(2) by (auto simp: mutex_free_at_def)
  have a: "a \<in> set (mutex_list s)" using m(1) inv(3) assms(3) by auto
  have "event m \<in># mset (os_event_list (sync_os s))" using a m(1) unfolding inv(6) by (auto simp: event_at_def image_iff intro!: bexI [of _ a])
  then obtain os where os: "os_event_free (event m) (sync_os s) = Inr os" "os_running os"
    "os_event_list os = remove1 (event m) (os_event_list (sync_os s))"
    using os_running_event_free [OF inv(1)] by auto
  let ?s = "s\<lparr>mutex_list := remove1 a (mutex_list s), sync_os := os, ib_mutexes := (ib_mutexes s)(a := None)\<rparr>"
  have free: "mutex_free_func a s = Inr ?s"
    using m assms(3) list_bracket_remove [OF inv(4) a] os(1)
    by (simp add: mutex_free_func_def mutex_get_lock_word_def mutex_get_waiters_def)
  have "mset (mutex_list s) = add_mset a (mset (remove1 a (mutex_list s)))" using a by simp
  then have "mset (map (event_at s) (mutex_list s)) = add_mset (event_at s a) (mset (map (event_at s) (remove1 a (mutex_list s))))"
    by (metis image_mset_add_mset mset_map)
  then have split: "mset (map (event_at s) (mutex_list_mutex # mutex_list s)) =
      add_mset (event m) (mset (map (event_at s) (mutex_list_mutex # remove1 a (mutex_list s))))"
    using m(1) by (simp add: event_at_def)
  have same: "map (event_at ?s) (mutex_list_mutex # remove1 a (mutex_list s)) = map (event_at s) (mutex_list_mutex # remove1 a (mutex_list s))"
    using inv(2) assms(3) by (auto simp: event_at_def)
  have "mset (os_event_list os) = others + mset (map (event_at ?s) (mutex_list_mutex # remove1 a (mutex_list s)))"
    unfolding same os(3) mset_remove1 inv(6) split by simp
  moreover have "mutex_free_at ?s mutex_list_mutex" using inv(4) assms(3) by (auto simp: mutex_free_at_def)
  ultimately have "ib_sync_inv others ?s"
    using inv(2,3,5) os(2) assms(3) by (auto simp: ib_sync_inv_def)
  then show thesis using that [OF free] by simp
qed

section \<open>Start-up, shutdown and counting\<close>

lemma sync_init_inv:
  assumes "os_running (sync_os s)" and "\<not> sync_initialized s" and "ib_mutexes s = Map.empty"
  obtains s' where "sync_init arr_init mem s = Inr s'" and "ib_sync_inv (mset (os_event_list (sync_os s))) s'"
    and "mutex_list s' = [rw_lock_list_mutex]" and "wait_array s' = arr_init (wait_array s)"
    and "mutex_free_at s' rw_lock_list_mutex"
proof -
  let ?s0 = "s\<lparr>sync_initialized := True, wait_array := arr_init (wait_array s), mutex_list := []\<rparr>"
  obtain os e where os: "os_event_create (sync_os s) = Inr (os, e)" "os_running os" "os_event_list os = e # os_event_list (sync_os s)"
    using os_running_event_create [OF assms(1)] by blast
  let ?s1 = "set_mutex mutex_list_mutex (mutex_init_fields e None 0 (mem mutex_list_mutex)) (?s0\<lparr>sync_os := os\<rparr>)"
  have create: "mutex_create_func mutex_list_mutex (mem mutex_list_mutex) None 0 ?s0 = Inr ?s1"
    using os(1) by (simp add: mutex_create_func_def)
  have inv: "ib_sync_inv (mset (os_event_list (sync_os s))) ?s1"
    using os assms by (simp add: ib_sync_inv_def set_mutex_def mutex_free_at_def event_at_def init_fields)
  have none: "ib_mutexes ?s1 rw_lock_list_mutex = None"
    using assms(3) by (simp add: set_mutex_def mutex_list_mutex_def rw_lock_list_mutex_def)
  obtain s' where s': "mutex_create_func rw_lock_list_mutex (mem rw_lock_list_mutex) None 0 ?s1 = Inr s'"
    "ib_sync_inv (mset (os_event_list (sync_os s))) s'" "mutex_list s' = rw_lock_list_mutex # mutex_list ?s1"
    "mutex_free_at s' rw_lock_list_mutex" "wait_array s' = wait_array ?s1"
    using mutex_create_inv [OF inv none] by metis
  show thesis
    by (rule that [OF _ s'(2)]) (use create s' assms(2) in \<open>simp_all add: sync_init_def set_mutex_def\<close>)
qed

lemma free_listed_inv:
  assumes "ib_sync_inv others s" and "\<And>a. a \<in> set (mutex_list s) \<Longrightarrow> mutex_free_at s a" and "length (mutex_list s) \<le> k"
  obtains s' where "free_listed k s = Inr s'" and "ib_sync_inv others s'" and "mutex_list s' = []"
    and "wait_array s' = wait_array s"
  using assms
proof (induction k arbitrary: s thesis)
  case 0
  then show ?case by simp
next
  case (Suc k)
  show ?case
  proof (cases "mutex_list s")
    case Nil
    then show ?thesis using Suc.prems(1) [of s] Suc.prems(2) by simp
  next
    case (Cons a as)
    have a: "mutex_free_at s a" "a \<noteq> mutex_list_mutex" "distinct (mutex_list s)"
      using Suc.prems(2,3) Cons by (auto simp: ib_sync_inv_def)
    obtain s1 where s1: "mutex_free_func a s = Inr s1" "ib_sync_inv others s1" "mutex_list s1 = remove1 a (mutex_list s)"
      "ib_mutexes s1 = (ib_mutexes s)(a := None)" "wait_array s1 = wait_array s"
      by (rule mutex_free_inv [OF Suc.prems(2) a(1,2)])
    have "mutex_free_at s1 b" if "b \<in> set (mutex_list s1)" for b
    proof -
      have b: "b \<in> set (mutex_list s)" "b \<noteq> a" using that s1(3) Cons a(3) by auto
      show ?thesis using Suc.prems(3) [OF b(1)] b(2) s1(4) by (simp add: mutex_free_at_def)
    qed
    moreover have "length (mutex_list s1) \<le> k" using Suc.prems(4) Cons s1(3) by simp
    ultimately obtain s' where "free_listed k s1 = Inr s'" "ib_sync_inv others s'" "mutex_list s' = []" "wait_array s' = wait_array s1"
      using Suc.IH [OF _ s1(2)] by metis
    then show ?thesis using Suc.prems(1) [of s'] Cons s1(1,5) by simp
  qed
qed

lemma sync_close_inv:
  assumes "ib_sync_inv others s" and "\<And>a. a \<in> set (mutex_list s) \<Longrightarrow> mutex_free_at s a"
  obtains s' where "sync_close arr_close s = Inr s'" and "\<not> sync_initialized s'" and "ib_mutexes s' = Map.empty"
    and "mutex_list s' = []" and "os_running (sync_os s')" and "mset (os_event_list (sync_os s')) = others"
    and "wait_array s' = arr_close (wait_array s)"
proof -
  let ?s = "s\<lparr>wait_array := arr_close (wait_array s)\<rparr>"
  have inv: "ib_sync_inv others ?s" using assms(1) by (simp add: ib_sync_inv_def)
  have free: "\<And>a. a \<in> set (mutex_list ?s) \<Longrightarrow> mutex_free_at ?s a" using assms(2) by simp
  obtain s1 where s1: "free_listed (length (mutex_list ?s)) ?s = Inr s1" "ib_sync_inv others s1" "mutex_list s1 = []"
    "wait_array s1 = wait_array ?s"
    using free_listed_inv [OF inv free order_refl] by blast
  obtain m where m: "ib_mutexes s1 mutex_list_mutex = Some m" "lock_word m = 0" "waiters m = 0"
    using s1(2) by (auto simp: ib_sync_inv_def mutex_free_at_def)
  have ev: "mset (os_event_list (sync_os s1)) = others + {#event m#}" "os_running (sync_os s1)"
    "dom (ib_mutexes s1) = {mutex_list_mutex}"
    using s1(2,3) m(1) by (auto simp: ib_sync_inv_def event_at_def)
  have "event m \<in> set (os_event_list (sync_os s1))" using ev(1) by (metis set_mset_mset union_iff union_single_eq_member)
  then obtain os where os: "os_event_free (event m) (sync_os s1) = Inr os" "os_running os"
    "os_event_list os = remove1 (event m) (os_event_list (sync_os s1))"
    using os_running_event_free [OF ev(2)] by blast
  let ?s' = "s1\<lparr>sync_os := os, ib_mutexes := (ib_mutexes s1)(mutex_list_mutex := None), sync_initialized := False\<rparr>"
  have close: "sync_close arr_close s = Inr ?s'"
    using s1(1) m os(1) by (simp add: sync_close_def mutex_free_func_def mutex_get_lock_word_def mutex_get_waiters_def Let_def del: free_listed.simps)
  have "(ib_mutexes s1)(mutex_list_mutex := None) = Map.empty" using ev(3) by (auto simp: fun_eq_iff dom_def)
  then show thesis using that [OF close] s1(3,4) os(2,3) ev(1) by simp
qed

lemma count_reserved_eq:
  assumes "set as \<subseteq> dom (ib_mutexes s)"
  shows "count_reserved as s = Inr (of_nat (length (filter (\<lambda>a. lock_word (the (ib_mutexes s a)) \<noteq> 0) as)))"
  using assms by (induction as) (auto simp: mutex_get_lock_word_def add.commute)

text \<open>A system after start-up.\<close>

definition demo_mem :: "nat \<Rightarrow> nat ib_mutex" where
  "demo_mem a = \<lparr>event = 0, lock_word = 0, hle_mutex = 0, waiters = 0, cfile_name = None, cline = 0, count_os_wait = 0\<rparr>"

definition demo_sync :: "os_sync \<Rightarrow> unit ib_sync" where
  "demo_sync os = \<lparr>sync_initialized = False, ib_mutexes = Map.empty, mutex_list = [], sync_os = os, wait_array = ()\<rparr>"

lemma demo_started:
  obtains os s where "os_sync_init os_sync_statics = Inr os" and "os_running os" and "length (os_event_list os) = 1"
    and "sync_init id demo_mem (demo_sync os) = Inr s" and "ib_sync_inv (mset (os_event_list os)) s"
    and "mutex_list s = [rw_lock_list_mutex]" and "mutex_free_at s rw_lock_list_mutex"
proof -
  obtain os where os: "os_sync_init os_sync_statics = Inr os" "os_running os" "length (os_event_list os) = 1"
    using os_sync_init_ok by blast
  have "os_running (sync_os (demo_sync os))" "\<not> sync_initialized (demo_sync os)" "ib_mutexes (demo_sync os) = Map.empty"
    using os(2) by (simp_all add: demo_sync_def)
  from sync_init_inv [OF this, of id demo_mem] obtain s where "sync_init id demo_mem (demo_sync os) = Inr s"
    "ib_sync_inv (mset (os_event_list (sync_os (demo_sync os)))) s" "mutex_list s = [rw_lock_list_mutex]"
    "mutex_free_at s rw_lock_list_mutex" by blast
  with os that show thesis by (simp add: demo_sync_def)
qed

section \<open>Properties\<close>

text \<open>
  C13: The mutexes of the system are kept on the list and each has one event.  Creating a mutex in
  memory that holds none, and freeing one that is neither reserved nor waited for, succeed (the
  assertions hold and \<open>mutex_list_mutex\<close> is never entered twice), change the list as expected, and
  keep: the initialised mutexes are those listed and \<open>mutex_list_mutex\<close>, and the live events are
  theirs and those the system had before.  Freeing a reserved mutex fails its assertion.
\<close>

theorem mutex_list_invariant:
  assumes "ib_sync_inv others s"
  shows "(ib_mutexes s a = None \<longrightarrow>
      (\<exists>s'. mutex_create_func a m0 file line s = Inr s' \<and> ib_sync_inv others s' \<and> mutex_list s' = a # mutex_list s \<and>
        mutex_free_at s' a)) \<and>
    (a \<in> set (mutex_list s) \<longrightarrow> mutex_free_at s a \<longrightarrow>
      (\<exists>s'. mutex_free_func a s = Inr s' \<and> ib_sync_inv others s' \<and> mutex_list s' = remove1 a (mutex_list s))) \<and>
    (a \<in> set (mutex_list s) \<longrightarrow> \<not> mutex_free_at s a \<longrightarrow> mutex_free_func a s = Inl AssertFailed)"
proof (intro conjI impI)
  assume "ib_mutexes s a = None"
  then show "\<exists>s'. mutex_create_func a m0 file line s = Inr s' \<and> ib_sync_inv others s' \<and> mutex_list s' = a # mutex_list s \<and>
      mutex_free_at s' a"
    by (rule mutex_create_inv [OF assms]) blast
next
  assume a: "a \<in> set (mutex_list s)" and free: "mutex_free_at s a"
  have "a \<noteq> mutex_list_mutex" using assms a by (auto simp: ib_sync_inv_def)
  then show "\<exists>s'. mutex_free_func a s = Inr s' \<and> ib_sync_inv others s' \<and> mutex_list s' = remove1 a (mutex_list s)"
    using mutex_free_inv [OF assms free] by blast
next
  assume a: "a \<in> set (mutex_list s)" and "\<not> mutex_free_at s a"
  moreover obtain m where "ib_mutexes s a = Some m" using a assms by (auto simp: ib_sync_inv_def)
  ultimately show "mutex_free_func a s = Inl AssertFailed"
    by (auto simp: mutex_free_func_def mutex_free_at_def mutex_get_lock_word_def mutex_get_waiters_def)
qed

theorem mutex_list_invariant_witness:
  "\<exists>os s s'. os_sync_init os_sync_statics = Inr os \<and> sync_init id demo_mem (demo_sync os) = Inr s \<and>
     mutex_create_func 7 (demo_mem 7) None 0 s = Inr s' \<and> mutex_list s' = [7, rw_lock_list_mutex]"
proof -
  obtain os s where s: "os_sync_init os_sync_statics = Inr os" "sync_init id demo_mem (demo_sync os) = Inr s"
    "ib_sync_inv (mset (os_event_list os)) s" "mutex_list s = [rw_lock_list_mutex]"
    using demo_started by blast
  have "7 \<notin> dom (ib_mutexes s)" using s(3,4) by (simp add: ib_sync_inv_def mutex_list_mutex_def rw_lock_list_mutex_def)
  then have "ib_mutexes s 7 = None" by auto
  then show ?thesis using mutex_list_invariant [OF s(3), of 7 "demo_mem 7" None 0] s by auto
qed

text \<open>
  Start-up and shutdown match.  \<open>sync_init\<close> establishes the invariant with \<open>rw_lock_list_mutex\<close>
  on the list; and in any state of the invariant in which no mutex is reserved or waited for,
  \<open>sync_close\<close> ends, frees every mutex, and leaves exactly the events that were live before
  \<open>sync_init\<close>.
\<close>

theorem sync_init_close:
  assumes "os_running (sync_os s0)" and "\<not> sync_initialized s0" and "ib_mutexes s0 = Map.empty"
  shows "(\<exists>s. sync_init arr_init mem s0 = Inr s \<and> ib_sync_inv (mset (os_event_list (sync_os s0))) s \<and>
      mutex_list s = [rw_lock_list_mutex]) \<and>
    (ib_sync_inv (mset (os_event_list (sync_os s0))) s \<longrightarrow> (\<forall>a\<in>set (mutex_list s). mutex_free_at s a) \<longrightarrow>
      (\<exists>s'. sync_close arr_close s = Inr s' \<and> \<not> sync_initialized s' \<and> ib_mutexes s' = Map.empty \<and> mutex_list s' = [] \<and>
        mset (os_event_list (sync_os s')) = mset (os_event_list (sync_os s0))))"
proof (intro conjI impI)
  show "\<exists>s. sync_init arr_init mem s0 = Inr s \<and> ib_sync_inv (mset (os_event_list (sync_os s0))) s \<and>
      mutex_list s = [rw_lock_list_mutex]"
    by (rule sync_init_inv [OF assms, of arr_init mem]) blast
next
  assume inv: "ib_sync_inv (mset (os_event_list (sync_os s0))) s" and "\<forall>a\<in>set (mutex_list s). mutex_free_at s a"
  then show "\<exists>s'. sync_close arr_close s = Inr s' \<and> \<not> sync_initialized s' \<and> ib_mutexes s' = Map.empty \<and> mutex_list s' = [] \<and>
        mset (os_event_list (sync_os s')) = mset (os_event_list (sync_os s0))"
    using sync_close_inv [OF inv, of arr_close] by metis
qed

theorem sync_init_close_witness:
  "\<exists>os s s'. os_sync_init os_sync_statics = Inr os \<and> sync_init id demo_mem (demo_sync os) = Inr s \<and>
     sync_close id s = Inr s' \<and> length (os_event_list (sync_os s')) = 1"
proof -
  obtain os s where s: "os_sync_init os_sync_statics = Inr os" "os_running os" "length (os_event_list os) = 1"
    "sync_init id demo_mem (demo_sync os) = Inr s"
    "ib_sync_inv (mset (os_event_list os)) s" "mutex_list s = [rw_lock_list_mutex]" "mutex_free_at s rw_lock_list_mutex"
    by (rule demo_started)
  have "os_running (sync_os (demo_sync os))" "\<not> sync_initialized (demo_sync os)" "ib_mutexes (demo_sync os) = Map.empty"
    "sync_os (demo_sync os) = os" using s(2) by (simp_all add: demo_sync_def)
  with sync_init_close [of "demo_sync os" id demo_mem s id] s
  obtain s' where "sync_close id s = Inr s'" "mset (os_event_list (sync_os s')) = mset (os_event_list os)" by auto
  with s show ?thesis by (metis size_mset)
qed

text \<open>
  \<open>mutex_n_reserved\<close> miscounts.  It subtracts one for \<open>mutex_list_mutex\<close>, which it holds itself, but
  that mutex is never on the list it counts: with no mutex reserved its assertion fails, so
  \<open>sync_all_freed\<close> never returns true then, and with \<open>n\<close> reserved it returns \<open>n - 1\<close>.
\<close>

theorem mutex_n_reserved_off_by_one:
  assumes "ib_sync_inv others s"
    and "n = length (filter (\<lambda>a. lock_word (the (ib_mutexes s a)) \<noteq> 0) (mutex_list s))" and "n < 2 ^ 64"
  shows "(n = 0 \<longrightarrow> mutex_n_reserved s = Inl AssertFailed \<and> sync_all_freed 0 s = Inl AssertFailed) \<and>
    (0 < n \<longrightarrow> mutex_n_reserved s = Inr (of_nat (n - 1), s) \<and> sync_all_freed 0 s = Inr (n = 1, s))"
proof -
  have inv: "distinct (mutex_list_mutex # mutex_list s)" "dom (ib_mutexes s) = set (mutex_list_mutex # mutex_list s)"
    "mutex_free_at s mutex_list_mutex" using assms(1) by (auto simp: ib_sync_inv_def)
  obtain m where m: "ib_mutexes s mutex_list_mutex = Some m" "lock_word m = 0" "waiters m = 0"
    "enter_mutex mutex_list_mutex s = Inr (set_mutex mutex_list_mutex (m\<lparr>lock_word := 1\<rparr>) s)"
    by (rule enter_free [OF inv(3)])
  let ?s = "set_mutex mutex_list_mutex (m\<lparr>lock_word := 1\<rparr>) s"
  have "filter (\<lambda>a. lock_word (the (ib_mutexes ?s a)) \<noteq> 0) (mutex_list s) =
      filter (\<lambda>a. lock_word (the (ib_mutexes s a)) \<noteq> 0) (mutex_list s)"
    using inv(1) by (intro filter_cong) (auto simp: set_mutex_def)
  moreover have "mutex_list ?s = mutex_list s" "set (mutex_list s) \<subseteq> dom (ib_mutexes ?s)"
    using inv(2) by (auto simp: set_mutex_def)
  ultimately have count: "count_reserved (mutex_list ?s) ?s = Inr (of_nat n)"
    using count_reserved_eq [of "mutex_list s" ?s] assms(2) by simp
  have exit: "exit_mutex mutex_list_mutex ?s = Inr s"
    using list_bracket [OF inv(3), of id] m(4) by simp
  have n: "(1 :: ulint) \<le> of_nat n \<longleftrightarrow> 0 < n"
    using assms(3) by (simp add: word_le_nat_alt unat_of_nat Suc_le_eq)
  have minus: "of_nat n - 1 = (of_nat (n - 1) :: ulint)" if "0 < n" using that by (simp add: of_nat_diff)
  have zero: "(of_nat (n - 1) :: ulint) = 0 \<longleftrightarrow> n = 1" if "0 < n"
  proof -
    obtain k where k: "n = Suc k" using \<open>0 < n\<close> by (cases n) auto
    have "k < 2 ^ 64" using assms(3) k by simp
    then have "(of_nat k :: ulint) = 0 \<longleftrightarrow> k = 0" by (auto simp: word_of_nat_eq_0_iff dest: dvd_imp_le)
    then show ?thesis using k by simp
  qed
  show ?thesis
    using m(4) count exit n minus zero by (simp add: mutex_n_reserved_def sync_all_freed_def)
qed

theorem mutex_n_reserved_off_by_one_witness:
  "\<exists>os s. os_sync_init os_sync_statics = Inr os \<and> sync_init id demo_mem (demo_sync os) = Inr s \<and>
     sync_all_freed 0 s = Inl AssertFailed"
proof -
  obtain os s where s: "os_sync_init os_sync_statics = Inr os" "sync_init id demo_mem (demo_sync os) = Inr s"
    "ib_sync_inv (mset (os_event_list os)) s" "mutex_list s = [rw_lock_list_mutex]" "mutex_free_at s rw_lock_list_mutex"
    by (rule demo_started)
  have "filter (\<lambda>a. lock_word (the (ib_mutexes s a)) \<noteq> 0) (mutex_list s) = []"
    using s(4,5) by (auto simp: mutex_free_at_def)
  with mutex_n_reserved_off_by_one [OF s(3) refl] s(1,2) show ?thesis by auto
qed

end
