(* ===== verification/SyncLevels.thy ===== *)
theory SyncLevels
  imports OsEvent "HOL-Library.Multiset"
begin

text \<open>
  The latching order checks of InnoDB's debug build
  (\<open>mysql-5.6.10-syslock/storage/innobase/sync/sync0sync.cc\<close> and \<open>include/sync0sync.h\<close>): the level
  constants, the per-thread arrays of held latches with their embedded free lists, the checks
  \<open>sync_thread_add_level\<close> makes, and \<open>sync_thread_reset_level\<close>.  A failed \<open>ut_a\<close> or \<open>ut_error\<close> is
  the error value \<open>AssertFailed\<close>, a null dereference \<open>BadHandle\<close>.  All entry points run under
  \<open>sync_thread_mutex\<close>, so each is one atomic function.  Levels and indices are numbers below
  \<open>ULINT_UNDEFINED\<close>.
\<close>

section \<open>Latching order levels\<close>

definition SYNC_USER_TRX_LOCK :: nat where "SYNC_USER_TRX_LOCK = 9999"
definition SYNC_NO_ORDER_CHECK :: nat where "SYNC_NO_ORDER_CHECK = 3000"
definition SYNC_LEVEL_VARYING :: nat where "SYNC_LEVEL_VARYING = 2000"
definition SYNC_TRX_I_S_RWLOCK :: nat where "SYNC_TRX_I_S_RWLOCK = 1910"
definition SYNC_TRX_I_S_LAST_READ :: nat where "SYNC_TRX_I_S_LAST_READ = 1900"
definition SYNC_FILE_FORMAT_TAG :: nat where "SYNC_FILE_FORMAT_TAG = 1200"
definition SYNC_DICT_OPERATION :: nat where "SYNC_DICT_OPERATION = 1010"
definition SYNC_FTS_CACHE :: nat where "SYNC_FTS_CACHE = 1005"
definition SYNC_DICT :: nat where "SYNC_DICT = 1000"
definition SYNC_DICT_AUTOINC_MUTEX :: nat where "SYNC_DICT_AUTOINC_MUTEX = 999"
definition SYNC_STATS_AUTO_RECALC :: nat where "SYNC_STATS_AUTO_RECALC = 997"
definition SYNC_DICT_HEADER :: nat where "SYNC_DICT_HEADER = 995"
definition SYNC_IBUF_HEADER :: nat where "SYNC_IBUF_HEADER = 914"
definition SYNC_IBUF_PESS_INSERT_MUTEX :: nat where "SYNC_IBUF_PESS_INSERT_MUTEX = 912"
definition SYNC_INDEX_TREE :: nat where "SYNC_INDEX_TREE = 900"
definition SYNC_TREE_NODE_NEW :: nat where "SYNC_TREE_NODE_NEW = 892"
definition SYNC_TREE_NODE_FROM_HASH :: nat where "SYNC_TREE_NODE_FROM_HASH = 891"
definition SYNC_TREE_NODE :: nat where "SYNC_TREE_NODE = 890"
definition SYNC_PURGE_LATCH :: nat where "SYNC_PURGE_LATCH = 800"
definition SYNC_TRX_UNDO :: nat where "SYNC_TRX_UNDO = 700"
definition SYNC_RSEG :: nat where "SYNC_RSEG = 600"
definition SYNC_RSEG_HEADER_NEW :: nat where "SYNC_RSEG_HEADER_NEW = 591"
definition SYNC_RSEG_HEADER :: nat where "SYNC_RSEG_HEADER = 590"
definition SYNC_TRX_UNDO_PAGE :: nat where "SYNC_TRX_UNDO_PAGE = 570"
definition SYNC_EXTERN_STORAGE :: nat where "SYNC_EXTERN_STORAGE = 500"
definition SYNC_FSP :: nat where "SYNC_FSP = 400"
definition SYNC_FSP_PAGE :: nat where "SYNC_FSP_PAGE = 395"
definition SYNC_IBUF_MUTEX :: nat where "SYNC_IBUF_MUTEX = 370"
definition SYNC_IBUF_INDEX_TREE :: nat where "SYNC_IBUF_INDEX_TREE = 360"
definition SYNC_IBUF_TREE_NODE_NEW :: nat where "SYNC_IBUF_TREE_NODE_NEW = 359"
definition SYNC_IBUF_TREE_NODE :: nat where "SYNC_IBUF_TREE_NODE = 358"
definition SYNC_IBUF_BITMAP_MUTEX :: nat where "SYNC_IBUF_BITMAP_MUTEX = 351"
definition SYNC_IBUF_BITMAP :: nat where "SYNC_IBUF_BITMAP = 350"
definition SYNC_INDEX_ONLINE_LOG :: nat where "SYNC_INDEX_ONLINE_LOG = 340"
definition SYNC_LOCK_WAIT_SYS :: nat where "SYNC_LOCK_WAIT_SYS = 300"
definition SYNC_LOCK_SYS :: nat where "SYNC_LOCK_SYS = 299"
definition SYNC_TRX_SYS :: nat where "SYNC_TRX_SYS = 298"
definition SYNC_TRX :: nat where "SYNC_TRX = 297"
definition SYNC_THREADS :: nat where "SYNC_THREADS = 295"
definition SYNC_REC_LOCK :: nat where "SYNC_REC_LOCK = 294"
definition SYNC_TRX_SYS_HEADER :: nat where "SYNC_TRX_SYS_HEADER = 290"
definition SYNC_PURGE_QUEUE :: nat where "SYNC_PURGE_QUEUE = 200"
definition SYNC_LOG :: nat where "SYNC_LOG = 170"
definition SYNC_LOG_FLUSH_ORDER :: nat where "SYNC_LOG_FLUSH_ORDER = 147"
definition SYNC_RECV :: nat where "SYNC_RECV = 168"
definition SYNC_FTS_CACHE_INIT :: nat where "SYNC_FTS_CACHE_INIT = 166"
definition SYNC_FTS_BG_THREADS :: nat where "SYNC_FTS_BG_THREADS = 165"
definition SYNC_FTS_OPTIMIZE :: nat where "SYNC_FTS_OPTIMIZE = 164"
definition SYNC_WORK_QUEUE :: nat where "SYNC_WORK_QUEUE = 162"
definition SYNC_SEARCH_SYS :: nat where "SYNC_SEARCH_SYS = 160"
definition SYNC_BUF_POOL :: nat where "SYNC_BUF_POOL = 150"
definition SYNC_BUF_PAGE_HASH :: nat where "SYNC_BUF_PAGE_HASH = 149"
definition SYNC_BUF_BLOCK :: nat where "SYNC_BUF_BLOCK = 146"
definition SYNC_BUF_FLUSH_LIST :: nat where "SYNC_BUF_FLUSH_LIST = 145"
definition SYNC_DOUBLEWRITE :: nat where "SYNC_DOUBLEWRITE = 140"
definition SYNC_ANY_LATCH :: nat where "SYNC_ANY_LATCH = 135"
definition SYNC_MEM_HASH :: nat where "SYNC_MEM_HASH = 131"
definition SYNC_MEM_POOL :: nat where "SYNC_MEM_POOL = 130"

lemmas sync_level_defs =
  SYNC_USER_TRX_LOCK_def SYNC_NO_ORDER_CHECK_def SYNC_LEVEL_VARYING_def
  SYNC_TRX_I_S_RWLOCK_def SYNC_TRX_I_S_LAST_READ_def SYNC_FILE_FORMAT_TAG_def
  SYNC_DICT_OPERATION_def SYNC_FTS_CACHE_def SYNC_DICT_def SYNC_DICT_AUTOINC_MUTEX_def
  SYNC_STATS_AUTO_RECALC_def SYNC_DICT_HEADER_def SYNC_IBUF_HEADER_def
  SYNC_IBUF_PESS_INSERT_MUTEX_def SYNC_INDEX_TREE_def SYNC_TREE_NODE_NEW_def
  SYNC_TREE_NODE_FROM_HASH_def SYNC_TREE_NODE_def SYNC_PURGE_LATCH_def SYNC_TRX_UNDO_def
  SYNC_RSEG_def SYNC_RSEG_HEADER_NEW_def SYNC_RSEG_HEADER_def SYNC_TRX_UNDO_PAGE_def
  SYNC_EXTERN_STORAGE_def SYNC_FSP_def SYNC_FSP_PAGE_def SYNC_IBUF_MUTEX_def
  SYNC_IBUF_INDEX_TREE_def SYNC_IBUF_TREE_NODE_NEW_def SYNC_IBUF_TREE_NODE_def
  SYNC_IBUF_BITMAP_MUTEX_def SYNC_IBUF_BITMAP_def SYNC_INDEX_ONLINE_LOG_def
  SYNC_LOCK_WAIT_SYS_def SYNC_LOCK_SYS_def SYNC_TRX_SYS_def SYNC_TRX_def SYNC_THREADS_def
  SYNC_REC_LOCK_def SYNC_TRX_SYS_HEADER_def SYNC_PURGE_QUEUE_def SYNC_LOG_def
  SYNC_LOG_FLUSH_ORDER_def SYNC_RECV_def SYNC_FTS_CACHE_INIT_def SYNC_FTS_BG_THREADS_def
  SYNC_FTS_OPTIMIZE_def SYNC_WORK_QUEUE_def SYNC_SEARCH_SYS_def SYNC_BUF_POOL_def
  SYNC_BUF_PAGE_HASH_def SYNC_BUF_BLOCK_def SYNC_BUF_FLUSH_LIST_def SYNC_DOUBLEWRITE_def
  SYNC_ANY_LATCH_def SYNC_MEM_HASH_def SYNC_MEM_POOL_def

definition ULINT_UNDEFINED :: nat where "ULINT_UNDEFINED = 2 ^ 64 - 1"
definition SYNC_THREAD_N_LEVELS :: nat where "SYNC_THREAD_N_LEVELS = 10000"

section \<open>The level array of one thread\<close>

text \<open>In an empty slot (\<open>latch = None\<close>) the level is the index of the next free slot.\<close>

record sync_level =
  latch :: "nat option"
  level :: nat

record sync_arr =
  in_use :: nat
  n_elems :: nat
  max_elems :: nat
  next_free :: nat
  elems :: "sync_level list"

definition sync_arr_new :: sync_arr where
  "sync_arr_new =
     \<lparr>in_use = 0, n_elems = 0, max_elems = SYNC_THREAD_N_LEVELS, next_free = ULINT_UNDEFINED,
      elems = replicate SYNC_THREAD_N_LEVELS \<lparr>latch = None, level = 0\<rparr>\<rparr>"

definition sync_thread_levels_g :: "sync_arr \<Rightarrow> nat \<Rightarrow> bool" where
  "sync_thread_levels_g arr limit =
     list_all (\<lambda>slot. \<not> (latch slot \<noteq> None \<and> level slot \<le> limit)) (take (n_elems arr) (elems arr))"

definition sync_thread_levels_contain :: "sync_arr \<Rightarrow> nat \<Rightarrow> sync_level option" where
  "sync_thread_levels_contain arr lv =
     find (\<lambda>slot. latch slot \<noteq> None \<and> level slot = lv) (take (n_elems arr) (elems arr))"

text \<open>The levels whose only rule is that every held latch has a greater one.\<close>

definition strict_levels :: "nat list" where
  "strict_levels =
     [SYNC_MEM_POOL, SYNC_MEM_HASH, SYNC_RECV, SYNC_FTS_BG_THREADS, SYNC_WORK_QUEUE,
      SYNC_FTS_OPTIMIZE, SYNC_FTS_CACHE, SYNC_FTS_CACHE_INIT, SYNC_LOG, SYNC_LOG_FLUSH_ORDER,
      SYNC_ANY_LATCH, SYNC_FILE_FORMAT_TAG, SYNC_DOUBLEWRITE, SYNC_SEARCH_SYS, SYNC_THREADS,
      SYNC_LOCK_SYS, SYNC_LOCK_WAIT_SYS, SYNC_TRX_SYS, SYNC_IBUF_BITMAP_MUTEX, SYNC_RSEG,
      SYNC_TRX_UNDO, SYNC_PURGE_LATCH, SYNC_PURGE_QUEUE, SYNC_DICT_AUTOINC_MUTEX,
      SYNC_DICT_OPERATION, SYNC_DICT_HEADER, SYNC_TRX_I_S_RWLOCK, SYNC_TRX_I_S_LAST_READ,
      SYNC_IBUF_MUTEX, SYNC_INDEX_ONLINE_LOG, SYNC_STATS_AUTO_RECALC]"

text \<open>
  The switch of \<open>sync_thread_add_level\<close>; \<open>False\<close> is \<open>ut_error\<close> or a failed \<open>ut_a\<close>.  The parameters
  are the globals \<open>srv_is_being_started\<close> and \<open>buf_debug_prints\<close>.
\<close>

definition sync_level_check :: "bool \<Rightarrow> bool \<Rightarrow> sync_arr \<Rightarrow> nat \<Rightarrow> bool" where
  "sync_level_check starting debug_prints array lv =
     (let g = sync_thread_levels_g array;
          contain = (\<lambda>l. sync_thread_levels_contain array l \<noteq> None)
      in
      if lv \<in> {SYNC_NO_ORDER_CHECK, SYNC_EXTERN_STORAGE, SYNC_TREE_NODE_FROM_HASH} then True
      else if lv = SYNC_TRX_SYS_HEADER then starting \<or> g lv
      else if lv \<in> set strict_levels then g lv
      else if lv = SYNC_TRX then g lv \<or> (g (lv - 1) \<and> contain SYNC_LOCK_SYS)
      else if lv \<in> {SYNC_BUF_FLUSH_LIST, SYNC_BUF_POOL} then g (lv - 1)
      else if lv \<in> {SYNC_BUF_PAGE_HASH, SYNC_BUF_BLOCK} then
        g lv \<or> (g (lv - 1) \<and> contain SYNC_BUF_POOL)
      else if lv = SYNC_REC_LOCK then
        (if contain SYNC_LOCK_SYS then g (SYNC_REC_LOCK - 1) else g SYNC_REC_LOCK)
      else if lv = SYNC_IBUF_BITMAP then
        (if contain SYNC_IBUF_BITMAP_MUTEX then g (SYNC_IBUF_BITMAP - 1)
         else starting \<or> g SYNC_IBUF_BITMAP)
      else if lv = SYNC_FSP_PAGE then contain SYNC_FSP
      else if lv = SYNC_FSP then contain SYNC_FSP \<or> g SYNC_FSP
      else if lv = SYNC_TRX_UNDO_PAGE then
        contain SYNC_TRX_UNDO \<or> contain SYNC_RSEG \<or> g (lv - 1)
      else if lv = SYNC_RSEG_HEADER then contain SYNC_RSEG
      else if lv = SYNC_RSEG_HEADER_NEW then contain SYNC_FSP_PAGE
      else if lv = SYNC_TREE_NODE then
        contain SYNC_INDEX_TREE \<or> contain SYNC_DICT_OPERATION \<or> g (SYNC_TREE_NODE - 1)
      else if lv = SYNC_TREE_NODE_NEW then contain SYNC_FSP_PAGE
      else if lv = SYNC_INDEX_TREE then g (SYNC_TREE_NODE - 1)
      else if lv = SYNC_IBUF_TREE_NODE then
        contain SYNC_IBUF_INDEX_TREE \<or> g (SYNC_IBUF_TREE_NODE - 1)
      else if lv = SYNC_IBUF_TREE_NODE_NEW then contain SYNC_IBUF_MUTEX \<or> contain SYNC_FSP
      else if lv = SYNC_IBUF_INDEX_TREE then
        (if contain SYNC_FSP then g (lv - 1) else g (SYNC_IBUF_TREE_NODE - 1))
      else if lv = SYNC_IBUF_PESS_INSERT_MUTEX then
        g (SYNC_FSP - 1) \<and> \<not> contain SYNC_IBUF_MUTEX
      else if lv = SYNC_IBUF_HEADER then
        g (SYNC_FSP - 1) \<and> \<not> contain SYNC_IBUF_MUTEX \<and> \<not> contain SYNC_IBUF_PESS_INSERT_MUTEX
      else if lv = SYNC_DICT then debug_prints \<or> g SYNC_DICT
      else False)"

text \<open>From the label \<open>levels_ok\<close> on: take a slot from the free list or the end, and fill it.\<close>

definition sync_arr_add :: "nat \<Rightarrow> nat \<Rightarrow> sync_arr \<Rightarrow> os_error + sync_arr" where
  "sync_arr_add l lv array =
     bind_res
       (if next_free array = ULINT_UNDEFINED then
          (if n_elems array < max_elems array
           then Inr (n_elems array, array\<lparr>n_elems := n_elems array + 1\<rparr>)
           else Inl AssertFailed)
        else Inr (next_free array,
                  array\<lparr>next_free := level (elems array ! next_free array)\<rparr>))
       (\<lambda>(i, array).
          if \<not> (i < n_elems array) \<or> i = ULINT_UNDEFINED \<or> latch (elems array ! i) \<noteq> None
          then Inl AssertFailed
          else Inr (array\<lparr>in_use := in_use array + 1,
                          elems := (elems array)[i := \<lparr>latch = Some l, level = lv\<rparr>]\<rparr>))"

text \<open>The index of the first slot of a latch, and what \<open>sync_thread_reset_level\<close> does to it.\<close>

fun find_latch :: "nat \<Rightarrow> sync_level list \<Rightarrow> nat option" where
  "find_latch l [] = None"
| "find_latch l (slot # slots) =
     (if latch slot = Some l then Some 0 else map_option Suc (find_latch l slots))"

definition sync_arr_release :: "nat \<Rightarrow> sync_arr \<Rightarrow> os_error + sync_arr" where
  "sync_arr_release i array =
     (let array = array\<lparr>elems := (elems array)[i := \<lparr>latch = None, level = next_free array\<rparr>],
                        next_free := i\<rparr>
      in if \<not> (1 \<le> in_use array) then Inl AssertFailed
         else let array = array\<lparr>in_use := in_use array - 1\<rparr>
              in Inr (if in_use array = 0
                      then array\<lparr>n_elems := 0, next_free := ULINT_UNDEFINED\<rparr>
                      else array))"

section \<open>Invariant and abstraction of a level array\<close>

text \<open>The latches a thread holds, with their levels.\<close>

definition held_of :: "sync_level list \<Rightarrow> (nat \<times> nat) multiset" where
  "held_of slots =
     mset (map (\<lambda>slot. (the (latch slot), level slot)) (filter (\<lambda>slot. latch slot \<noteq> None) slots))"

abbreviation held :: "sync_arr \<Rightarrow> (nat \<times> nat) multiset" where
  "held arr \<equiv> held_of (elems arr)"

text \<open>\<open>fs\<close> are the slots of the free list that starts at \<open>p\<close>.\<close>

fun free_path :: "sync_level list \<Rightarrow> nat \<Rightarrow> nat list \<Rightarrow> bool" where
  "free_path slots p [] \<longleftrightarrow> p = ULINT_UNDEFINED"
| "free_path slots p (f # fs) \<longleftrightarrow>
     p = f \<and> f < length slots \<and> latch (slots ! f) = None \<and> free_path slots (level (slots ! f)) fs"

definition sync_arr_ok :: "sync_arr \<Rightarrow> bool" where
  "sync_arr_ok arr \<longleftrightarrow>
     length (elems arr) = max_elems arr \<and> max_elems arr < ULINT_UNDEFINED \<and>
     n_elems arr \<le> max_elems arr \<and> in_use arr = size (held arr) \<and>
     (\<forall>i < max_elems arr. n_elems arr \<le> i \<longrightarrow> latch (elems arr ! i) = None) \<and>
     (\<exists>fs. free_path (elems arr) (next_free arr) fs \<and> distinct fs \<and>
           set fs = {i. i < n_elems arr \<and> latch (elems arr ! i) = None})"

definition slot_held :: "sync_level \<Rightarrow> (nat \<times> nat) multiset" where
  "slot_held slot = (case latch slot of None \<Rightarrow> {#} | Some l \<Rightarrow> {#(l, level slot)#})"

lemma slot_held_simps [simp]:
  "slot_held \<lparr>latch = None, level = n\<rparr> = {#}" "slot_held \<lparr>latch = Some l, level = n\<rparr> = {#(l, n)#}"
  by (simp_all add: slot_held_def)

lemma held_of_simps [simp]:
  "held_of [] = {#}" "held_of (x # xs) = slot_held x + held_of xs"
  "held_of (xs @ ys) = held_of xs + held_of ys"
  by (auto simp: held_of_def slot_held_def split: option.split)

lemma held_of_split: "i < length slots \<Longrightarrow>
    held_of slots = held_of (take i slots) + slot_held (slots ! i) + held_of (drop (Suc i) slots)"
  using arg_cong [OF id_take_nth_drop [of i slots], of held_of] by (simp add: add.assoc)

lemma held_of_update:
  "i < length slots \<Longrightarrow>
    held_of (slots[i := x]) + slot_held (slots ! i) = held_of slots + slot_held x"
  using held_of_split [of i slots] held_of_split [of i "slots[i := x]"]
  by (simp add: ac_simps)

lemma held_of_replicate [simp]: "latch x = None \<Longrightarrow> held_of (replicate n x) = {#}"
  by (induction n) (simp_all add: slot_held_def)

lemma held_of_empty: "held_of slots = {#} \<longleftrightarrow> (\<forall>slot \<in> set slots. latch slot = None)"
  by (induction slots) (auto simp: slot_held_def split: option.split)

lemma in_held_of: "(l, n) \<in># held_of slots \<longleftrightarrow> \<lparr>latch = Some l, level = n\<rparr> \<in> set slots"
proof -
  have "(l, n) \<in># slot_held x \<longleftrightarrow> x = \<lparr>latch = Some l, level = n\<rparr>" for x
    by (cases x) (auto simp: slot_held_def split: option.split)
  then show ?thesis by (induction slots) auto
qed

lemma free_path_head: "free_path slots p fs \<Longrightarrow> (p = ULINT_UNDEFINED \<longleftrightarrow> fs = []) \<or> ULINT_UNDEFINED < length slots"
  by (cases fs) auto

lemma free_path_update:
  "free_path slots p fs \<Longrightarrow> i \<notin> set fs \<Longrightarrow> free_path (slots[i := x]) p fs"
  by (induction slots p fs rule: free_path.induct) auto

lemma sync_arr_okE:
  assumes "sync_arr_ok arr"
  obtains fs where "free_path (elems arr) (next_free arr) fs" "distinct fs"
    "set fs = {i. i < n_elems arr \<and> latch (elems arr ! i) = None}"
    "next_free arr = ULINT_UNDEFINED \<longleftrightarrow> fs = []"
    "length (elems arr) = max_elems arr" "max_elems arr < ULINT_UNDEFINED"
    "n_elems arr \<le> max_elems arr" "in_use arr = size (held arr)"
    "\<forall>i < max_elems arr. n_elems arr \<le> i \<longrightarrow> latch (elems arr ! i) = None"
proof -
  from assms obtain fs where fs: "free_path (elems arr) (next_free arr) fs" "distinct fs"
    "set fs = {i. i < n_elems arr \<and> latch (elems arr ! i) = None}"
    unfolding sync_arr_ok_def by blast
  moreover have "next_free arr = ULINT_UNDEFINED \<longleftrightarrow> fs = []"
    using free_path_head [OF fs(1)] assms by (auto simp: sync_arr_ok_def)
  ultimately show ?thesis using assms that unfolding sync_arr_ok_def by blast
qed

text \<open>The levels of the scanned prefix are the levels of the held latches.\<close>

lemma held_prefix:
  assumes "sync_arr_ok arr"
  shows "held_of (take (n_elems arr) (elems arr)) = held arr"
proof -
  have "held_of (drop (n_elems arr) (elems arr)) = {#}"
    using assms unfolding held_of_empty sync_arr_ok_def by (auto simp: in_set_conv_nth)
  then show ?thesis
    using held_of_simps(3) [of "take (n_elems arr) (elems arr)" "drop (n_elems arr) (elems arr)"]
    by simp
qed

lemma levels_g_iff:
  assumes "sync_arr_ok arr"
  shows "sync_thread_levels_g arr limit \<longleftrightarrow> (\<forall>(l, n) \<in># held arr. limit < n)"
proof -
  have "list_all (\<lambda>slot. \<not> (latch slot \<noteq> None \<and> level slot \<le> limit)) slots \<longleftrightarrow>
      (\<forall>(l, n) \<in># held_of slots. limit < n)" for slots
    by (induction slots) (auto simp: slot_held_def split: option.split)
  then show ?thesis by (simp add: sync_thread_levels_g_def held_prefix [OF assms, symmetric])
qed

lemma contain_iff:
  assumes "sync_arr_ok arr"
  shows "sync_thread_levels_contain arr lv \<noteq> None \<longleftrightarrow> (\<exists>l. (l, lv) \<in># held arr)"
proof -
  have "find (\<lambda>slot. latch slot \<noteq> None \<and> level slot = lv) slots \<noteq> None \<longleftrightarrow>
      (\<exists>l. (l, lv) \<in># held_of slots)" for slots
    by (induction slots) (auto simp: slot_held_def split: option.split)
  then show ?thesis by (simp add: sync_thread_levels_contain_def held_prefix [OF assms, symmetric])
qed

section \<open>Adding and removing a latch\<close>

lemma size_held_of: "size (held_of slots) = length (filter (\<lambda>slot. latch slot \<noteq> None) slots)"
  by (induction slots) (auto simp: slot_held_def split: option.split)

lemma sync_arr_add_end:
  assumes ok: "sync_arr_ok arr" and nf: "next_free arr = ULINT_UNDEFINED"
    and room: "in_use arr < max_elems arr"
  shows "\<exists>arr'. sync_arr_add l lv arr = Inr arr' \<and> sync_arr_ok arr' \<and>
           held arr' = add_mset (l, lv) (held arr)"
proof -
  obtain fs where fs: "free_path (elems arr) (next_free arr) fs" "distinct fs"
    "set fs = {i. i < n_elems arr \<and> latch (elems arr ! i) = None}"
    "next_free arr = ULINT_UNDEFINED \<longleftrightarrow> fs = []"
    and sz: "length (elems arr) = max_elems arr" "max_elems arr < ULINT_UNDEFINED"
      "n_elems arr \<le> max_elems arr" "in_use arr = size (held arr)"
    and tl: "\<forall>i < max_elems arr. n_elems arr \<le> i \<longrightarrow> latch (elems arr ! i) = None"
    by (rule sync_arr_okE [OF ok])
  have "filter (\<lambda>slot. latch slot \<noteq> None) (take (n_elems arr) (elems arr)) = take (n_elems arr) (elems arr)"
    using fs(3,4) nf sz by (auto simp: filter_id_conv in_set_conv_nth)
  then have "in_use arr = n_elems arr"
    using sz held_prefix [OF ok] size_held_of [of "take (n_elems arr) (elems arr)"] by simp
  then have n: "n_elems arr < max_elems arr" using room by simp
  let ?slots = "(elems arr)[n_elems arr := \<lparr>latch = Some l, level = lv\<rparr>]"
  let ?arr' = "arr\<lparr>n_elems := n_elems arr + 1, in_use := in_use arr + 1, elems := ?slots\<rparr>"
  have empty: "latch (elems arr ! n_elems arr) = None" using tl n by simp
  then have add: "sync_arr_add l lv arr = Inr ?arr'"
    using nf n sz(2) by (simp add: sync_arr_add_def)
  have h: "held_of ?slots = add_mset (l, lv) (held arr)"
    using held_of_update [of "n_elems arr" "elems arr"] n sz(1) empty by (simp add: slot_held_def)
  have "{i. i < n_elems arr + 1 \<and> latch (?slots ! i) = None} = {}"
    using fs(3,4) nf n sz(1) by (auto simp: nth_list_update less_Suc_eq)
  then have "sync_arr_ok ?arr'"
    unfolding sync_arr_ok_def using sz n h nf tl
    by (intro conjI exI [of _ "[]"]) (simp_all add: nth_list_update)
  with add h show ?thesis by auto
qed

lemma sync_arr_add_free:
  assumes ok: "sync_arr_ok arr" and nf: "next_free arr \<noteq> ULINT_UNDEFINED"
  shows "\<exists>arr'. sync_arr_add l lv arr = Inr arr' \<and> sync_arr_ok arr' \<and>
           held arr' = add_mset (l, lv) (held arr)"
proof -
  obtain fs0 where fs0: "free_path (elems arr) (next_free arr) fs0" "distinct fs0"
    "set fs0 = {i. i < n_elems arr \<and> latch (elems arr ! i) = None}"
    "next_free arr = ULINT_UNDEFINED \<longleftrightarrow> fs0 = []"
    and sz: "length (elems arr) = max_elems arr" "max_elems arr < ULINT_UNDEFINED"
      "n_elems arr \<le> max_elems arr" "in_use arr = size (held arr)"
    and tl: "\<forall>i < max_elems arr. n_elems arr \<le> i \<longrightarrow> latch (elems arr ! i) = None"
    by (rule sync_arr_okE [OF ok])
  obtain f fs where fs: "fs0 = f # fs" using fs0(4) nf by (cases fs0) auto
  with fs0 have f: "next_free arr = f" "f < n_elems arr" "latch (elems arr ! f) = None"
    "free_path (elems arr) (level (elems arr ! f)) fs" "f \<notin> set fs" "distinct fs" by auto
  let ?slots = "(elems arr)[f := \<lparr>latch = Some l, level = lv\<rparr>]"
  let ?arr' = "arr\<lparr>next_free := level (elems arr ! f), in_use := in_use arr + 1, elems := ?slots\<rparr>"
  have add: "sync_arr_add l lv arr = Inr ?arr'"
    using nf f sz by (simp add: sync_arr_add_def)
  have h: "held_of ?slots = add_mset (l, lv) (held arr)"
    using held_of_update [of f "elems arr"] f sz(1,3) by (simp add: slot_held_def)
  have "free_path ?slots (level (elems arr ! f)) fs" using f by (intro free_path_update)
  moreover have "set fs = {i. i < n_elems arr \<and> latch (?slots ! i) = None}"
  proof -
    have "set fs = {i. i < n_elems arr \<and> latch (elems arr ! i) = None} - {f}"
      using fs fs0(2,3) by auto
    also have "\<dots> = {i. i < n_elems arr \<and> latch (?slots ! i) = None}"
      using f(2) sz by (auto simp: nth_list_update)
    finally show ?thesis .
  qed
  ultimately have "sync_arr_ok ?arr'"
    unfolding sync_arr_ok_def using sz h tl f(2,6)
    by (intro conjI exI [of _ fs]) (simp_all add: nth_list_update)
  with add h show ?thesis by auto
qed

lemma sync_arr_add_ok:
  assumes "sync_arr_ok arr" and "in_use arr < max_elems arr"
  shows "\<exists>arr'. sync_arr_add l lv arr = Inr arr' \<and> sync_arr_ok arr' \<and>
           held arr' = add_mset (l, lv) (held arr)"
  using sync_arr_add_end [OF assms(1) _ assms(2)] sync_arr_add_free [OF assms(1)] by blast

lemma sync_arr_release_ok:
  assumes ok: "sync_arr_ok arr" and i: "i < n_elems arr" "latch (elems arr ! i) = Some l"
  shows "\<exists>arr'. sync_arr_release i arr = Inr arr' \<and> sync_arr_ok arr' \<and>
           held arr = add_mset (l, level (elems arr ! i)) (held arr')"
proof -
  obtain fs where fs: "free_path (elems arr) (next_free arr) fs" "distinct fs"
    "set fs = {i. i < n_elems arr \<and> latch (elems arr ! i) = None}"
    "next_free arr = ULINT_UNDEFINED \<longleftrightarrow> fs = []"
    and sz: "length (elems arr) = max_elems arr" "max_elems arr < ULINT_UNDEFINED"
      "n_elems arr \<le> max_elems arr" "in_use arr = size (held arr)"
    and tl: "\<forall>i < max_elems arr. n_elems arr \<le> i \<longrightarrow> latch (elems arr ! i) = None"
    by (rule sync_arr_okE [OF ok])
  let ?slots = "(elems arr)[i := \<lparr>latch = None, level = next_free arr\<rparr>]"
  have il: "i < length (elems arr)" using i(1) sz by simp
  have h: "held arr = add_mset (l, level (elems arr ! i)) (held_of ?slots)"
    using held_of_update [OF il, of "\<lparr>latch = None, level = next_free arr\<rparr>"] i(2)
    by (simp add: slot_held_def)
  have use: "in_use arr = Suc (size (held_of ?slots))" using sz(4) h by simp
  show ?thesis
  proof (cases "held_of ?slots = {#}")
    case True
    let ?arr' = "arr\<lparr>elems := ?slots, next_free := ULINT_UNDEFINED, in_use := 0, n_elems := 0\<rparr>"
    have rel: "sync_arr_release i arr = Inr ?arr'"
      using use True by (simp add: sync_arr_release_def Let_def)
    have "latch (?slots ! k) = None" if "k < max_elems arr" for k
      using True that sz(1) nth_mem [of k ?slots] unfolding held_of_empty by simp
    then have "sync_arr_ok ?arr'"
      unfolding sync_arr_ok_def using sz True by (intro conjI exI [of _ "[]"]) simp_all
    with rel h show ?thesis by auto
  next
    case False
    let ?arr' = "arr\<lparr>elems := ?slots, next_free := i, in_use := in_use arr - 1\<rparr>"
    have rel: "sync_arr_release i arr = Inr ?arr'"
      using use False by (simp add: sync_arr_release_def Let_def)
    have "i \<notin> set fs" using fs(3) i(2) by simp
    then have "free_path ?slots i (i # fs)"
      using fs(1) il by (simp add: free_path_update)
    moreover have "set (i # fs) = {k. k < n_elems arr \<and> latch (?slots ! k) = None}"
      using fs(3) i(1) il by (auto simp: nth_list_update)
    moreover have "\<forall>k < max_elems arr. n_elems arr \<le> k \<longrightarrow> latch (?slots ! k) = None"
      using tl i(1) by simp
    ultimately have "sync_arr_ok ?arr'"
      unfolding sync_arr_ok_def using sz use fs(2) \<open>i \<notin> set fs\<close>
      by (intro conjI exI [of _ "i # fs"]) (simp_all del: free_path.simps)
    with rel h show ?thesis by auto
  qed
qed

lemma find_latch_Some:
  "find_latch l slots = Some i \<Longrightarrow> i < length slots \<and> latch (slots ! i) = Some l"
  by (induction slots arbitrary: i) (auto split: if_splits)

lemma find_latch_None: "find_latch l slots = None \<longleftrightarrow> (\<forall>slot \<in> set slots. latch slot \<noteq> Some l)"
  by (induction slots) auto

section \<open>The arrays of all threads\<close>

text \<open>A slot with \<open>levels = None\<close> (NULL) is unused.\<close>

record sync_thread =
  thread_id :: nat
  levels :: "sync_arr option"

text \<open>What a latch address is: the two things \<open>sync_thread_reset_level\<close> reads through it.\<close>

datatype latch_info = Mutex_latch | Rw_latch nat

record sync_debug =
  sync_order_checks_on :: bool
  srv_is_being_started :: bool
  buf_debug_prints :: bool
  own_latches :: "nat set"     \<comment> \<open>the four mutexes of the module itself\<close>
  latch_info :: "nat \<Rightarrow> latch_info"
  sync_thread_level_arrays :: "sync_thread list"

fun find_slot :: "nat \<Rightarrow> sync_thread list \<Rightarrow> nat option" where
  "find_slot t [] = None"
| "find_slot t (slot # slots) =
     (if levels slot \<noteq> None \<and> thread_id slot = t then Some 0 else map_option Suc (find_slot t slots))"

definition sync_thread_level_arrays_find_slot :: "nat \<Rightarrow> sync_debug \<Rightarrow> nat option" where
  "sync_thread_level_arrays_find_slot t s = find_slot t (sync_thread_level_arrays s)"

fun find_free :: "sync_thread list \<Rightarrow> nat option" where
  "find_free [] = None"
| "find_free (slot # slots) =
     (if levels slot = None then Some 0 else map_option Suc (find_free slots))"

definition sync_thread_level_arrays_find_free :: "sync_debug \<Rightarrow> nat option" where
  "sync_thread_level_arrays_find_free s = find_free (sync_thread_level_arrays s)"

definition slot_array :: "sync_debug \<Rightarrow> nat \<Rightarrow> sync_arr" where
  "slot_array s i = the (levels (sync_thread_level_arrays s ! i))"

definition set_slot_array :: "nat \<Rightarrow> sync_arr \<Rightarrow> sync_debug \<Rightarrow> sync_debug" where
  "set_slot_array i arr s =
     s\<lparr>sync_thread_level_arrays :=
         (sync_thread_level_arrays s)[i := (sync_thread_level_arrays s ! i)\<lparr>levels := Some arr\<rparr>]\<rparr>"

text \<open>The calling thread is the argument \<open>t\<close>.\<close>

definition sync_thread_add_level ::
  "nat \<Rightarrow> nat \<Rightarrow> nat \<Rightarrow> bool \<Rightarrow> sync_debug \<Rightarrow> os_error + sync_debug" where
  "sync_thread_add_level t l lv relock s =
     (if \<not> sync_order_checks_on s then Inr s
      else if l \<in> own_latches s then Inr s
      else if lv = SYNC_LEVEL_VARYING then Inr s
      else
        bind_res
          (case sync_thread_level_arrays_find_slot t s of
             Some i \<Rightarrow> Inr (i, s)
           | None \<Rightarrow>
               (case sync_thread_level_arrays_find_free s of
                  None \<Rightarrow> Inl BadHandle
                | Some i \<Rightarrow>
                    Inr (i, s\<lparr>sync_thread_level_arrays :=
                                (sync_thread_level_arrays s)
                                  [i := \<lparr>thread_id = t, levels = Some sync_arr_new\<rparr>]\<rparr>)))
          (\<lambda>(i, s).
             if relock \<or>
                sync_level_check (srv_is_being_started s) (buf_debug_prints s) (slot_array s i) lv
             then bind_res (sync_arr_add l lv (slot_array s i))
                    (\<lambda>arr. Inr (set_slot_array i arr s))
             else Inl AssertFailed))"

definition sync_thread_reset_level :: "nat \<Rightarrow> nat \<Rightarrow> sync_debug \<Rightarrow> os_error + (bool \<times> sync_debug)" where
  "sync_thread_reset_level t l s =
     (if \<not> sync_order_checks_on s then Inr (False, s)
      else if l \<in> own_latches s then Inr (False, s)
      else
        (case sync_thread_level_arrays_find_slot t s of
           None \<Rightarrow> Inl AssertFailed
         | Some i \<Rightarrow>
             (let array = slot_array s i in
              case find_latch l (take (n_elems array) (elems array)) of
                Some k \<Rightarrow>
                  bind_res (sync_arr_release k array)
                    (\<lambda>arr. Inr (True, set_slot_array i arr s))
              | None \<Rightarrow>
                  (case latch_info s l of
                     Rw_latch lv \<Rightarrow>
                       if lv = SYNC_LEVEL_VARYING then Inr (True, s) else Inl AssertFailed
                   | Mutex_latch \<Rightarrow> Inl AssertFailed))))"

definition sync_thread_levels_contains :: "nat \<Rightarrow> nat \<Rightarrow> sync_debug \<Rightarrow> nat option" where
  "sync_thread_levels_contains t lv s =
     (if \<not> sync_order_checks_on s then None
      else case sync_thread_level_arrays_find_slot t s of
             None \<Rightarrow> None
           | Some i \<Rightarrow>
               (case sync_thread_levels_contain (slot_array s i) lv of
                  None \<Rightarrow> None
                | Some slot \<Rightarrow> latch slot))"

text \<open>The two emptiness checks; holding a latch that is not allowed is \<open>ut_error\<close>.\<close>

definition levels_nonempty :: "(sync_level \<Rightarrow> bool) \<Rightarrow> nat \<Rightarrow> sync_debug \<Rightarrow> os_error + nat option" where
  "levels_nonempty allowed t s =
     (case sync_thread_level_arrays_find_slot t s of
        None \<Rightarrow> Inr None
      | Some i \<Rightarrow>
          (if list_ex (\<lambda>slot. latch slot \<noteq> None \<and> \<not> allowed slot)
                (take (n_elems (slot_array s i)) (elems (slot_array s i)))
           then Inl AssertFailed else Inr None))"

definition sync_thread_levels_nonempty_gen :: "bool \<Rightarrow> nat \<Rightarrow> sync_debug \<Rightarrow> os_error + nat option" where
  "sync_thread_levels_nonempty_gen dict_mutex_allowed t s =
     (if \<not> sync_order_checks_on s then Inr None
      else levels_nonempty
             (\<lambda>slot. dict_mutex_allowed \<and>
                level slot \<in> {SYNC_DICT, SYNC_DICT_OPERATION, SYNC_FTS_CACHE}) t s)"

definition sync_thread_levels_nonempty_trx :: "bool \<Rightarrow> nat \<Rightarrow> sync_debug \<Rightarrow> os_error + nat option" where
  "sync_thread_levels_nonempty_trx has_search_latch t s =
     (if \<not> sync_order_checks_on s then Inr None
      else if has_search_latch \<and> sync_thread_levels_contains t SYNC_SEARCH_SYS s = None
      then Inl AssertFailed
      else levels_nonempty (\<lambda>slot. has_search_latch \<and> level slot = SYNC_SEARCH_SYS) t s)"

definition sync_thread_level_arrays_free :: "sync_debug \<Rightarrow> sync_debug" where
  "sync_thread_level_arrays_free s =
     s\<lparr>sync_thread_level_arrays := []\<rparr>"

text \<open>The latches of thread \<open>t\<close>, empty if it has no slot; and the invariant of the arrays.\<close>

definition thread_held :: "nat \<Rightarrow> sync_debug \<Rightarrow> (nat \<times> nat) multiset" where
  "thread_held t s =
     (case sync_thread_level_arrays_find_slot t s of None \<Rightarrow> {#} | Some i \<Rightarrow> held (slot_array s i))"

definition slots_ok :: "sync_thread list \<Rightarrow> bool" where
  "slots_ok ss \<longleftrightarrow>
     (\<forall>slot \<in> set ss. \<forall>arr. levels slot = Some arr \<longrightarrow>
        sync_arr_ok arr \<and> max_elems arr = SYNC_THREAD_N_LEVELS) \<and>
     (\<forall>i < length ss. \<forall>j < length ss. levels (ss ! i) \<noteq> None \<longrightarrow> levels (ss ! j) \<noteq> None \<longrightarrow>
        thread_id (ss ! i) = thread_id (ss ! j) \<longrightarrow> i = j)"

section \<open>Slots\<close>

lemma find_slot_Some:
  "find_slot t ss = Some i \<Longrightarrow> i < length ss \<and> levels (ss ! i) \<noteq> None \<and> thread_id (ss ! i) = t"
  by (induction ss arbitrary: i) (auto split: if_splits)

lemma find_slot_None:
  "find_slot t ss = None \<longleftrightarrow> (\<forall>slot \<in> set ss. levels slot \<noteq> None \<longrightarrow> thread_id slot \<noteq> t)"
  by (induction ss) auto

lemma find_free_Some: "find_free ss = Some i \<Longrightarrow> i < length ss \<and> levels (ss ! i) = None"
  by (induction ss arbitrary: i) (auto split: if_splits)

text \<open>With unique owners, \<open>find_slot\<close> finds the slot of a thread wherever it is.\<close>

lemma find_slot_unique:
  assumes "slots_ok ss" and "i < length ss" and "levels (ss ! i) \<noteq> None" and "thread_id (ss ! i) = t"
  shows "find_slot t ss = Some i"
proof (cases "find_slot t ss")
  case None
  with assms(2-4) show ?thesis by (auto simp: find_slot_None)
next
  case (Some j)
  with find_slot_Some [OF this] assms show ?thesis unfolding slots_ok_def by (metis option.inject)
qed

lemma slots_ok_array:
  "slots_ok ss \<Longrightarrow> i < length ss \<Longrightarrow> levels (ss ! i) = Some arr \<Longrightarrow>
   sync_arr_ok arr \<and> max_elems arr = SYNC_THREAD_N_LEVELS"
  using nth_mem unfolding slots_ok_def by blast

lemma slots_ok_update:
  assumes ok: "slots_ok ss" and i: "i < length ss"
    and new: "sync_arr_ok arr" "max_elems arr = SYNC_THREAD_N_LEVELS"
    and own: "find_slot t ss = Some i \<or> find_slot t ss = None \<and> levels (ss ! i) = None"
  shows "slots_ok (ss[i := \<lparr>thread_id = t, levels = Some arr\<rparr>])" (is "slots_ok ?ss")
  unfolding slots_ok_def
proof (intro conjI ballI allI impI)
  fix slot a assume "slot \<in> set ?ss" and "levels slot = Some a"
  then show "sync_arr_ok a" "max_elems a = SYNC_THREAD_N_LEVELS"
    using set_update_subset_insert [of ss i] ok new unfolding slots_ok_def by fastforce+
next
  fix j k assume j: "j < length ?ss" "levels (?ss ! j) \<noteq> None"
    and k: "k < length ?ss" "levels (?ss ! k) \<noteq> None" and same: "thread_id (?ss ! j) = thread_id (?ss ! k)"
  have only_i: "m = i" if "m < length ss" "levels (ss ! m) \<noteq> None" "thread_id (ss ! m) = t" for m
    using own find_slot_unique [OF ok that] that by (auto simp: find_slot_None)
  have at_i: "thread_id (?ss ! i) = t" using i by simp
  have other: "m = i" if m: "m < length ?ss" "levels (?ss ! m) \<noteq> None" "thread_id (?ss ! m) = t" for m
    using only_i [of m] m by (cases "m = i") simp_all
  show "j = k"
  proof (cases "j = i \<or> k = i")
    case True
    then show ?thesis using other [OF j] other [OF k] same at_i by metis
  next
    case False
    with j k same ok show ?thesis unfolding slots_ok_def by simp
  qed
qed

definition thread_array :: "nat \<Rightarrow> sync_debug \<Rightarrow> sync_arr" where
  "thread_array t s =
     (case sync_thread_level_arrays_find_slot t s of None \<Rightarrow> sync_arr_new | Some i \<Rightarrow> slot_array s i)"

lemma sync_arr_new_ok: "sync_arr_ok sync_arr_new" "max_elems sync_arr_new = SYNC_THREAD_N_LEVELS"
  "held sync_arr_new = {#}"
proof -
  have h: "held_of (replicate n \<lparr>latch = None, level = 0\<rparr>) = {#}" for n by simp
  show "sync_arr_ok sync_arr_new" unfolding sync_arr_ok_def
    by (intro conjI exI [of _ "[]"])
      (simp_all add: sync_arr_new_def h ULINT_UNDEFINED_def SYNC_THREAD_N_LEVELS_def)
  show "held sync_arr_new = {#}" using h by (simp add: sync_arr_new_def)
qed (simp add: sync_arr_new_def)

lemma thread_held_array: "thread_held t s = held (thread_array t s)"
  by (simp add: thread_held_def thread_array_def sync_arr_new_ok split: option.split)

lemma thread_array_ok:
  assumes "slots_ok (sync_thread_level_arrays s)"
  shows "sync_arr_ok (thread_array t s)" "max_elems (thread_array t s) = SYNC_THREAD_N_LEVELS"
proof -
  have "sync_arr_ok (thread_array t s) \<and> max_elems (thread_array t s) = SYNC_THREAD_N_LEVELS"
  proof (cases "sync_thread_level_arrays_find_slot t s")
    case None
    then show ?thesis by (simp add: thread_array_def sync_arr_new_ok)
  next
    case (Some i)
    with find_slot_Some [of t _ i] slots_ok_array [OF assms, of i] show ?thesis
      by (auto simp: thread_array_def slot_array_def sync_thread_level_arrays_find_slot_def)
  qed
  then show "sync_arr_ok (thread_array t s)" "max_elems (thread_array t s) = SYNC_THREAD_N_LEVELS"
    by simp_all
qed

text \<open>Storing a new array for thread \<open>t\<close> in its slot or in a free one.\<close>

lemma thread_array_store:
  assumes ok: "slots_ok (sync_thread_level_arrays s)" and i: "i < length (sync_thread_level_arrays s)"
    and new: "sync_arr_ok arr" "max_elems arr = SYNC_THREAD_N_LEVELS"
    and own: "sync_thread_level_arrays_find_slot t s = Some i \<or>
       sync_thread_level_arrays_find_slot t s = None \<and> levels (sync_thread_level_arrays s ! i) = None"
  defines "s' \<equiv> s\<lparr>sync_thread_level_arrays :=
       (sync_thread_level_arrays s)[i := \<lparr>thread_id = t, levels = Some arr\<rparr>]\<rparr>"
  shows "slots_ok (sync_thread_level_arrays s')" and "thread_array t s' = arr"
    and "u \<noteq> t \<Longrightarrow> thread_array u s' = thread_array u s"
proof -
  let ?ss = "sync_thread_level_arrays s" and ?ss' = "sync_thread_level_arrays s'"
  have own': "find_slot t ?ss = Some i \<or> find_slot t ?ss = None \<and> levels (?ss ! i) = None"
    using own by (simp add: sync_thread_level_arrays_find_slot_def)
  have at: "?ss' ! i = \<lparr>thread_id = t, levels = Some arr\<rparr>" and len: "length ?ss' = length ?ss"
    using i by (simp_all add: s'_def)
  show ok': "slots_ok ?ss'" unfolding s'_def using slots_ok_update [OF ok i new own'] by simp
  have "find_slot t ?ss' = Some i" using find_slot_unique [OF ok', of i t] i at len by simp
  then show "thread_array t s' = arr"
    using at by (simp add: thread_array_def slot_array_def sync_thread_level_arrays_find_slot_def)
  assume u: "u \<noteq> t"
  have "find_slot u ?ss' = find_slot u ?ss"
  proof (cases "find_slot u ?ss")
    case None
    then have "find_slot u ?ss' = None"
      using u set_update_subset_insert [of ?ss i "\<lparr>thread_id = t, levels = Some arr\<rparr>"]
      unfolding find_slot_None s'_def by fastforce
    with None show ?thesis by simp
  next
    case (Some j)
    note j = find_slot_Some [OF Some]
    have "j \<noteq> i" using j own' u find_slot_Some [of t ?ss i] by auto
    then have "find_slot u ?ss' = Some j"
      using find_slot_unique [OF ok', of j u] j by (simp add: s'_def)
    with Some show ?thesis by simp
  qed
  moreover have "?ss' ! j = ?ss ! j" if "find_slot u ?ss = Some j" for j
  proof -
    have "j \<noteq> i" using find_slot_Some [OF that] own' u find_slot_Some [of t ?ss i] by auto
    then show ?thesis by (simp add: s'_def)
  qed
  ultimately show "thread_array u s' = thread_array u s"
    by (auto simp: thread_array_def slot_array_def sync_thread_level_arrays_find_slot_def
        split: option.split)
qed

section \<open>Adding and resetting levels\<close>

definition checked_latch :: "sync_debug \<Rightarrow> nat \<Rightarrow> bool" where
  "checked_latch s l \<longleftrightarrow> sync_order_checks_on s \<and> l \<notin> own_latches s"

definition has_slot :: "nat \<Rightarrow> sync_debug \<Rightarrow> bool" where
  "has_slot t s \<longleftrightarrow> sync_thread_level_arrays_find_slot t s \<noteq> None \<or>
     sync_thread_level_arrays_find_free s \<noteq> None"

abbreviation debug_ok :: "sync_debug \<Rightarrow> bool" where
  "debug_ok s \<equiv> slots_ok (sync_thread_level_arrays s)"

lemma set_slot_array_eq:
  assumes "sync_thread_level_arrays_find_slot t s = Some i"
  shows "set_slot_array i arr s = s\<lparr>sync_thread_level_arrays :=
           (sync_thread_level_arrays s)[i := \<lparr>thread_id = t, levels = Some arr\<rparr>]\<rparr>"
proof -
  have "sync_thread_level_arrays s ! i =
      \<lparr>thread_id = t, levels = levels (sync_thread_level_arrays s ! i)\<rparr>"
    using find_slot_Some [of t _ i] assms by (simp add: sync_thread_level_arrays_find_slot_def)
  then have "(sync_thread_level_arrays s ! i)\<lparr>levels := Some arr\<rparr> = \<lparr>thread_id = t, levels = Some arr\<rparr>"
    by (metis sync_thread.update_convs(2))
  then show ?thesis by (simp add: set_slot_array_def)
qed

lemma add_level_stores:
  assumes ok: "debug_ok s" and slot: "has_slot t s" and c: "checked_latch s l"
    and lv: "lv \<noteq> SYNC_LEVEL_VARYING"
    and chk: "relock \<or> sync_level_check (srv_is_being_started s) (buf_debug_prints s) (thread_array t s) lv"
    and add: "sync_arr_add l lv (thread_array t s) = Inr arr"
  shows "\<exists>i < length (sync_thread_level_arrays s).
     (sync_thread_level_arrays_find_slot t s = Some i \<or>
      sync_thread_level_arrays_find_slot t s = None \<and> levels (sync_thread_level_arrays s ! i) = None) \<and>
     sync_thread_add_level t l lv relock s =
       Inr (s\<lparr>sync_thread_level_arrays :=
                (sync_thread_level_arrays s)[i := \<lparr>thread_id = t, levels = Some arr\<rparr>]\<rparr>)"
proof (cases "sync_thread_level_arrays_find_slot t s")
  case (Some i)
  then have i: "i < length (sync_thread_level_arrays s)"
    using find_slot_Some [of t _ i] by (simp add: sync_thread_level_arrays_find_slot_def)
  have "thread_array t s = slot_array s i" using Some by (simp add: thread_array_def)
  then have "sync_thread_add_level t l lv relock s = Inr (set_slot_array i arr s)"
    using Some c lv chk add by (simp add: sync_thread_add_level_def checked_latch_def)
  with i Some set_slot_array_eq [OF Some] show ?thesis by auto
next
  case None
  with slot obtain i where i: "sync_thread_level_arrays_find_free s = Some i"
    by (auto simp: has_slot_def)
  let ?s = "s\<lparr>sync_thread_level_arrays :=
      (sync_thread_level_arrays s)[i := \<lparr>thread_id = t, levels = Some sync_arr_new\<rparr>]\<rparr>"
  have free: "i < length (sync_thread_level_arrays s)" "levels (sync_thread_level_arrays s ! i) = None"
    using find_free_Some [of _ i] i by (simp_all add: sync_thread_level_arrays_find_free_def)
  have arr: "slot_array ?s i = thread_array t s"
    using None free by (simp add: slot_array_def thread_array_def)
  have "sync_thread_add_level t l lv relock s = Inr (set_slot_array i arr ?s)"
    using None i c lv chk add
    by (simp add: sync_thread_add_level_def checked_latch_def arr)
  also have "set_slot_array i arr ?s = s\<lparr>sync_thread_level_arrays :=
      (sync_thread_level_arrays s)[i := \<lparr>thread_id = t, levels = Some arr\<rparr>]\<rparr>"
    using free by (simp add: set_slot_array_def)
  finally show ?thesis using None free by auto
qed

lemma sync_arr_add_max: "sync_arr_add l lv arr = Inr arr' \<Longrightarrow> max_elems arr' = max_elems arr"
  by (auto simp: sync_arr_add_def split: if_splits)

lemma sync_arr_release_max: "sync_arr_release i arr = Inr arr' \<Longrightarrow> max_elems arr' = max_elems arr"
  by (auto simp: sync_arr_release_def Let_def split: if_splits)

lemma add_level_correct:
  assumes ok: "debug_ok s" and slot: "has_slot t s" and c: "checked_latch s l"
    and lv: "lv \<noteq> SYNC_LEVEL_VARYING"
    and chk: "relock \<or> sync_level_check (srv_is_being_started s) (buf_debug_prints s) (thread_array t s) lv"
    and room: "size (thread_held t s) < SYNC_THREAD_N_LEVELS"
  shows "\<exists>s'. sync_thread_add_level t l lv relock s = Inr s' \<and> debug_ok s' \<and>
     thread_held t s' = add_mset (l, lv) (thread_held t s) \<and>
     (\<forall>u. u \<noteq> t \<longrightarrow> thread_held u s' = thread_held u s) \<and>
     sync_order_checks_on s' = sync_order_checks_on s \<and> own_latches s' = own_latches s"
proof -
  note a = thread_array_ok [OF ok, of t]
  have "in_use (thread_array t s) < max_elems (thread_array t s)"
    using a room by (simp add: sync_arr_ok_def thread_held_array)
  with sync_arr_add_ok [OF a(1)] obtain arr where
    arr: "sync_arr_add l lv (thread_array t s) = Inr arr" "sync_arr_ok arr"
    "held arr = add_mset (l, lv) (held (thread_array t s))" by blast
  from add_level_stores [OF ok slot c lv chk arr(1)] obtain i where
    i: "i < length (sync_thread_level_arrays s)"
    "sync_thread_level_arrays_find_slot t s = Some i \<or>
     sync_thread_level_arrays_find_slot t s = None \<and> levels (sync_thread_level_arrays s ! i) = None"
    "sync_thread_add_level t l lv relock s =
       Inr (s\<lparr>sync_thread_level_arrays :=
                (sync_thread_level_arrays s)[i := \<lparr>thread_id = t, levels = Some arr\<rparr>]\<rparr>)" by blast
  have "max_elems arr = SYNC_THREAD_N_LEVELS" using sync_arr_add_max [OF arr(1)] a(2) by simp
  note st = thread_array_store [OF ok i(1) arr(2) this i(2)]
  show ?thesis using i(3) st arr(3) by (simp add: thread_held_array)
qed

lemma reset_level_correct:
  assumes ok: "debug_ok s" and c: "checked_latch s l" and l: "(l, lv) \<in># thread_held t s"
  shows "\<exists>s' lv'. sync_thread_reset_level t l s = Inr (True, s') \<and> debug_ok s' \<and>
     thread_held t s = add_mset (l, lv') (thread_held t s') \<and>
     (\<forall>u. u \<noteq> t \<longrightarrow> thread_held u s' = thread_held u s)"
proof -
  obtain i where i: "sync_thread_level_arrays_find_slot t s = Some i"
    using l by (cases "sync_thread_level_arrays_find_slot t s") (auto simp: thread_held_def)
  let ?arr = "slot_array s i"
  have eq: "thread_array t s = ?arr" using i by (simp add: thread_array_def)
  note a = thread_array_ok [OF ok, of t, unfolded eq]
  have len: "i < length (sync_thread_level_arrays s)"
    using i find_slot_Some [of t _ i] by (simp add: sync_thread_level_arrays_find_slot_def)
  have "(l, lv) \<in># held_of (take (n_elems ?arr) (elems ?arr))"
    using l eq by (simp add: thread_held_array held_prefix [OF a(1)])
  then obtain k where k: "find_latch l (take (n_elems ?arr) (elems ?arr)) = Some k"
    by (cases "find_latch l (take (n_elems ?arr) (elems ?arr))")
      (auto simp: find_latch_None in_held_of)
  then have "k < n_elems ?arr" "latch (elems ?arr ! k) = Some l"
    using find_latch_Some [OF k] by auto
  from sync_arr_release_ok [OF a(1) this] obtain arr where
    arr: "sync_arr_release k ?arr = Inr arr" "sync_arr_ok arr"
    "held ?arr = add_mset (l, level (elems ?arr ! k)) (held arr)" by blast
  have m: "max_elems arr = SYNC_THREAD_N_LEVELS" using sync_arr_release_max [OF arr(1)] a(2) by simp
  have "sync_thread_reset_level t l s = Inr (True, set_slot_array i arr s)"
    using c i k arr(1) by (simp add: sync_thread_reset_level_def checked_latch_def)
  moreover note st = thread_array_store [OF ok len arr(2) m, of t, folded set_slot_array_eq [OF i]]
  ultimately show ?thesis using i arr(3) eq by (simp add: thread_held_array)
qed

section \<open>Strictly ordered levels\<close>

lemma strict_check:
  assumes "lv \<in> set strict_levels"
  shows "sync_level_check starting dbg arr lv = sync_thread_levels_g arr lv"
proof -
  have "lv \<notin> {SYNC_NO_ORDER_CHECK, SYNC_EXTERN_STORAGE, SYNC_TREE_NODE_FROM_HASH}"
    and "lv \<noteq> SYNC_TRX_SYS_HEADER"
    using assms by (auto simp: strict_levels_def sync_level_defs)
  with assms show ?thesis by (simp add: sync_level_check_def)
qed

lemma strict_not_varying: "lv \<in> set strict_levels \<Longrightarrow> lv \<noteq> SYNC_LEVEL_VARYING"
  by (auto simp: strict_levels_def sync_level_defs)

lemma strict_check_held:
  assumes "debug_ok s" and "lv \<in> set strict_levels"
  shows "sync_level_check starting dbg (thread_array t s) lv \<longleftrightarrow> (\<forall>(l, n) \<in># thread_held t s. lv < n)"
  using levels_g_iff [OF thread_array_ok(1) [OF assms(1)]]
  by (simp add: strict_check [OF assms(2)] thread_held_array)

lemma add_level_fails:
  assumes "checked_latch s l" and "lv \<noteq> SYNC_LEVEL_VARYING" and "has_slot t s"
    and "\<not> sync_level_check (srv_is_being_started s) (buf_debug_prints s) (thread_array t s) lv"
  shows "sync_thread_add_level t l lv False s = Inl AssertFailed"
proof (cases "sync_thread_level_arrays_find_slot t s")
  case None
  with assms(3) obtain i where i: "sync_thread_level_arrays_find_free s = Some i"
    by (auto simp: has_slot_def)
  then have "i < length (sync_thread_level_arrays s)"
    using find_free_Some [of _ i] by (simp add: sync_thread_level_arrays_find_free_def)
  with None i assms show ?thesis
    by (simp add: sync_thread_add_level_def checked_latch_def thread_array_def slot_array_def)
next
  case (Some i)
  with assms show ?thesis
    by (simp add: sync_thread_add_level_def checked_latch_def thread_array_def)
qed

text \<open>A system with two unused slots, for concrete runs.\<close>

definition debug_init :: sync_debug where
  "debug_init =
     \<lparr>sync_order_checks_on = True, srv_is_being_started = False, buf_debug_prints = False,
      own_latches = {1, 2, 3, 4}, latch_info = (\<lambda>_. Mutex_latch),
      sync_thread_level_arrays = replicate 2 \<lparr>thread_id = 0, levels = None\<rparr>\<rparr>"

lemma debug_init_facts:
  "debug_ok debug_init" "has_slot t debug_init" "thread_held t debug_init = {#}"
  "checked_latch debug_init 10"
  by (simp_all add: debug_init_def slots_ok_def has_slot_def thread_held_def checked_latch_def
      sync_thread_level_arrays_find_slot_def sync_thread_level_arrays_find_free_def
      numeral_2_eq_2 less_Suc_eq)

lemma lock_sys_strict: "SYNC_LOCK_SYS \<in> set strict_levels"
  by (simp add: strict_levels_def)

section \<open>Properties\<close>

text \<open>
  C5: The latching order check is exact for the strictly ordered levels: adding a latch to a
  thread that is not re-entering succeeds if and only if every latch the thread holds has a
  greater level, and then the latch is recorded for this thread and nothing else changes.
\<close>

theorem sync_thread_add_level_strict:
  assumes "debug_ok s" and "has_slot t s" and "checked_latch s l" and "lv \<in> set strict_levels"
    and "size (thread_held t s) < SYNC_THREAD_N_LEVELS"
  shows "(if \<forall>(l', n) \<in># thread_held t s. lv < n
     then \<exists>s'. sync_thread_add_level t l lv False s = Inr s' \<and> debug_ok s' \<and>
       thread_held t s' = add_mset (l, lv) (thread_held t s) \<and>
       (\<forall>u. u \<noteq> t \<longrightarrow> thread_held u s' = thread_held u s)
     else sync_thread_add_level t l lv False s = Inl AssertFailed)"
proof -
  note chk = strict_check_held [OF assms(1,4), of _ _ t]
  show ?thesis
  proof (cases "\<forall>(l', n) \<in># thread_held t s. lv < n")
    case True
    with add_level_correct [OF assms(1-3) strict_not_varying [OF assms(4)] _ assms(5), of False]
    show ?thesis unfolding chk by auto
  next
    case False
    with add_level_fails [OF assms(3) strict_not_varying [OF assms(4)] assms(2)]
    show ?thesis unfolding chk by simp
  qed
qed

theorem sync_thread_add_level_strict_witness:
  "\<exists>s'. sync_thread_add_level 7 10 SYNC_LOCK_SYS False debug_init = Inr s' \<and>
     thread_held 7 s' = {#(10, SYNC_LOCK_SYS)#}"
  using sync_thread_add_level_strict [OF debug_init_facts(1,2,4) lock_sys_strict, of 7]
  by (auto simp: debug_init_facts SYNC_THREAD_N_LEVELS_def)

text \<open>
  C7: Round trip: a latch that the thread does not hold yet and that passes the check can be
  added, and resetting it afterwards succeeds and restores the latches of every thread.  In
  particular none of the assertions on the embedded free list can fail.
\<close>

theorem sync_thread_level_roundtrip:
  assumes "debug_ok s" and "has_slot t s" and "checked_latch s l" and "lv \<noteq> SYNC_LEVEL_VARYING"
    and "relock \<or> sync_level_check (srv_is_being_started s) (buf_debug_prints s) (thread_array t s) lv"
    and "size (thread_held t s) < SYNC_THREAD_N_LEVELS"
    and "\<And>n. (l, n) \<notin># thread_held t s"
  shows "\<exists>s1 s2. sync_thread_add_level t l lv relock s = Inr s1 \<and>
     sync_thread_reset_level t l s1 = Inr (True, s2) \<and> debug_ok s2 \<and>
     (\<forall>u. thread_held u s2 = thread_held u s)"
proof -
  from add_level_correct [OF assms(1-6)] obtain s1 where
    s1: "sync_thread_add_level t l lv relock s = Inr s1" "debug_ok s1"
    "thread_held t s1 = add_mset (l, lv) (thread_held t s)"
    "\<forall>u. u \<noteq> t \<longrightarrow> thread_held u s1 = thread_held u s"
    "checked_latch s1 l" using assms(3) by (auto simp: checked_latch_def)
  have "(l, lv) \<in># thread_held t s1" using s1(3) by simp
  from reset_level_correct [OF s1(2,5) this] obtain s2 lv' where
    s2: "sync_thread_reset_level t l s1 = Inr (True, s2)" "debug_ok s2"
    "thread_held t s1 = add_mset (l, lv') (thread_held t s2)"
    "\<forall>u. u \<noteq> t \<longrightarrow> thread_held u s2 = thread_held u s1" by blast
  have "lv' = lv" using s1(3) s2(3) assms(7) by (metis add_eq_conv_ex insert_noteq_member prod.inject union_single_eq_member)
  then have "thread_held t s2 = thread_held t s" using s1(3) s2(3) by simp
  with s1 s2 show ?thesis by metis
qed

theorem sync_thread_level_roundtrip_witness:
  "\<exists>s1 s2. sync_thread_add_level 7 10 SYNC_LOCK_SYS True debug_init = Inr s1 \<and>
     sync_thread_reset_level 7 10 s1 = Inr (True, s2) \<and> thread_held 7 s2 = {#}"
  using sync_thread_level_roundtrip [OF debug_init_facts(1,2,4) strict_not_varying [OF lock_sys_strict],
      of True 7]
  by (auto simp: debug_init_facts SYNC_THREAD_N_LEVELS_def)

text \<open>
  C6: The checks prevent deadlock among strictly ordered latches.  Take any chain of threads in
  which each one wants a latch whose level is one of the strictly ordered ones
  (\<open>strict_levels\<close>) and passes the check for it, and each latch but the last is held by the next
  thread: the last latch is not held by the first thread, so no chain of threads that wait for such
  latches ever closes to a cycle.  Nothing is claimed for levels whose check always passes or
  admits equal levels, such as \<open>SYNC_NO_ORDER_CHECK\<close>.
\<close>

theorem strict_levels_no_deadlock:
  assumes "debug_ok s"
    and strict: "\<And>i. i \<le> n \<Longrightarrow> lev (w i) \<in> set strict_levels"
    and chk: "\<And>i. i \<le> n \<Longrightarrow> sync_level_check (srv_is_being_started s) (buf_debug_prints s)
        (thread_array (t i) s) (lev (w i))"
    and holds: "\<And>i. i < n \<Longrightarrow> (w i, lev (w i)) \<in># thread_held (t (Suc i)) s"
  shows "(w n, lev (w n)) \<notin># thread_held (t 0) s"
proof -
  have below: "lev (w i) < k" if "i \<le> n" "(l, k) \<in># thread_held (t i) s" for i l k
    using chk [OF that(1)] strict_check_held [OF assms(1) strict [OF that(1)]] that(2) by blast
  have "i \<le> n \<Longrightarrow> lev (w i) \<le> lev (w 0)" for i
  proof (induction i)
    case (Suc i)
    then show ?case using below [of "Suc i", OF _ holds [of i]] by simp
  qed simp
  then have "lev (w n) \<le> lev (w 0)" by simp
  then show ?thesis using below [of 0] by (metis leD le0)
qed

theorem strict_levels_no_deadlock_witness:
  "\<exists>s. thread_held 1 s = {#(10, SYNC_LOCK_SYS)#} \<and> (11, SYNC_LOG) \<notin># thread_held 0 s"
proof -
  obtain s where s: "debug_ok s" "thread_held 1 s = {#(10, SYNC_LOCK_SYS)#}"
    "thread_held 0 s = {#}"
    using add_level_correct [OF debug_init_facts(1,2,4) strict_not_varying [OF lock_sys_strict],
        of True 1]
    by (auto simp: debug_init_facts SYNC_THREAD_N_LEVELS_def)
  let ?w = "\<lambda>i::nat. if i = 0 then 10 else 11 :: nat"
  let ?lev = "\<lambda>l::nat. if l = 10 then SYNC_LOCK_SYS else SYNC_LOG"
  have st: "?lev l \<in> set strict_levels" for l by (simp add: strict_levels_def)
  have "(?w 1, ?lev (?w 1)) \<notin># thread_held 0 s"
    by (rule strict_levels_no_deadlock [of s 1 ?lev ?w "\<lambda>i. i"])
      (use s st in \<open>auto simp: strict_check_held [OF s(1) st] le_Suc_eq sync_level_defs\<close>)
  with s show ?thesis by auto
qed

end
