(* ===== verification/SbTimer.thy ===== *)
theory SbTimer
  imports Prelude
begin

text \<open>
  The timers of sysbench (\<open>sb_timer.c\<close>, \<open>sb_timer.h\<close>).  The clock is an argument: a \<open>timespec\<close> is a
  pair of seconds and nanoseconds, signed as in C; times are 64-bit words and wrap around.  The
  message a function logs is part of its result, and \<open>abort\<close> is the error value.
\<close>

section \<open>Data\<close>

type_synonym timespec = "int \<times> int"

datatype timer_state = TIMER_UNINITIALIZED | TIMER_INITIALIZED | TIMER_STOPPED | TIMER_RUNNING

record sb_timer =
  time_start :: timespec
  time_end :: timespec
  my_time :: u64
  min_time :: u64
  max_time :: u64
  sum_time :: u64
  events :: u64
  timer_state :: timer_state

datatype timer_error = Timer_abort string

definition SEC2NS :: "int \<Rightarrow> u64" where
  "SEC2NS sec = word_of_int sec * 1000000000"

definition timespec_diff :: "timespec \<Rightarrow> timespec \<Rightarrow> u64" where
  "timespec_diff b a = SEC2NS (fst b - fst a) + word_of_int (snd b - snd a)"

section \<open>Operations\<close>

definition sb_timer_init :: "sb_timer \<Rightarrow> sb_timer" where
  "sb_timer_init t =
     t\<lparr>min_time := 0xffffffffffffffff, max_time := 0, sum_time := 0, events := 0,
       timer_state := TIMER_INITIALIZED\<rparr>"

definition sb_timer_start :: "timespec \<Rightarrow> sb_timer \<Rightarrow> timer_error + sb_timer \<times> string option" where
  "sb_timer_start now t =
     (let started = t\<lparr>time_start := now, timer_state := TIMER_RUNNING\<rparr>
      in case timer_state t of
           TIMER_INITIALIZED \<Rightarrow> Inr (started, None)
         | TIMER_STOPPED \<Rightarrow> Inr (started, None)
         | TIMER_RUNNING \<Rightarrow> Inr (started, Some ''timer was already started'')
         | TIMER_UNINITIALIZED \<Rightarrow> Inl (Timer_abort ''uninitialized timer started''))"

definition timer_record :: "timespec \<Rightarrow> sb_timer \<Rightarrow> sb_timer" where
  "timer_record now t =
     (let t = t\<lparr>time_end := now\<rparr>;
          t = t\<lparr>my_time := timespec_diff (time_end t) (time_start t)\<rparr>;
          t = t\<lparr>events := events t + 1, sum_time := sum_time t + my_time t\<rparr>;
          t = (if my_time t < min_time t then t\<lparr>min_time := my_time t\<rparr> else t);
          t = (if my_time t > max_time t then t\<lparr>max_time := my_time t\<rparr> else t)
      in t\<lparr>timer_state := TIMER_STOPPED\<rparr>)"

definition sb_timer_stop :: "timespec \<Rightarrow> sb_timer \<Rightarrow> timer_error + sb_timer \<times> string option" where
  "sb_timer_stop now t =
     (case timer_state t of
        TIMER_INITIALIZED \<Rightarrow> Inr (timer_record now t, Some ''timer was never started'')
      | TIMER_STOPPED \<Rightarrow> Inr (timer_record now t, Some ''timer was already stopped'')
      | TIMER_RUNNING \<Rightarrow> Inr (timer_record now t, None)
      | TIMER_UNINITIALIZED \<Rightarrow> Inl (Timer_abort ''uninitialized timer stopped''))"

definition sb_timer_value :: "sb_timer \<Rightarrow> u64" where
  "sb_timer_value t = my_time t"

definition sb_timer_current :: "timespec \<Rightarrow> sb_timer \<Rightarrow> timer_error + u64" where
  "sb_timer_current now t =
     (case timer_state t of
        TIMER_INITIALIZED \<Rightarrow> Inr 0
      | TIMER_STOPPED \<Rightarrow> Inr (my_time t)
      | TIMER_RUNNING \<Rightarrow> Inr (timespec_diff now (time_start t))
      | TIMER_UNINITIALIZED \<Rightarrow> Inl (Timer_abort ''uninitialized timer examined''))"

definition get_avg_time :: "sb_timer \<Rightarrow> u64" where
  "get_avg_time t = (if events t = 0 then 0 else sum_time t div events t)"

definition get_sum_time :: "sb_timer \<Rightarrow> u64" where "get_sum_time t = sum_time t"
definition get_min_time :: "sb_timer \<Rightarrow> u64" where "get_min_time t = min_time t"
definition get_max_time :: "sb_timer \<Rightarrow> u64" where "get_max_time t = max_time t"

text \<open>
  \<open>merge_timers\<close> fills a local timer; the fields it does not assign (state and time stamps) keep
  the content \<open>junk\<close> of the stack.
\<close>

definition merge_timers :: "sb_timer \<Rightarrow> sb_timer \<Rightarrow> sb_timer \<Rightarrow> sb_timer" where
  "merge_timers junk t1 t2 =
     junk\<lparr>my_time := my_time t1 + my_time t2, sum_time := sum_time t1 + sum_time t2,
          events := events t1 + events t2,
          max_time := (if max_time t1 > max_time t2 then max_time t1 else max_time t2),
          min_time := (if min_time t1 < min_time t2 then min_time t1 else min_time t2)\<rparr>"

section \<open>A timer as the statistics of its measurements\<close>

definition nanosecs :: "timespec \<Rightarrow> int" where
  "nanosecs t = fst t * 1000000000 + snd t"

lemma timespec_diff_nanosecs: "timespec_diff b a = word_of_int (nanosecs b - nanosecs a)"
proof -
  have "timespec_diff b a = word_of_int ((fst b - fst a) * 1000000000 + (snd b - snd a))"
    by (simp add: timespec_diff_def SEC2NS_def)
  also have "(fst b - fst a) * 1000000000 + (snd b - snd a) = nanosecs b - nanosecs a"
    by (simp add: nanosecs_def algebra_simps)
  finally show ?thesis .
qed

text \<open>\<open>stats t ds\<close>: the timer has recorded the durations \<open>ds\<close>, in nanoseconds.\<close>

definition stats :: "sb_timer \<Rightarrow> u64 list \<Rightarrow> bool" where
  "stats t ds \<longleftrightarrow> events t = of_nat (length ds) \<and> sum_time t = sum_list ds \<and>
     min_time t = Min (insert (- 1) (set ds)) \<and> max_time t = Max (insert 0 (set ds))"

lemma stats_init: "stats (sb_timer_init t) []"
  by (simp add: stats_def sb_timer_init_def)

lemma timer_record_fields:
  "my_time (timer_record now t) = timespec_diff now (time_start t)"
  "events (timer_record now t) = events t + 1"
  "sum_time (timer_record now t) = sum_time t + timespec_diff now (time_start t)"
  "min_time (timer_record now t) = min (min_time t) (timespec_diff now (time_start t))"
  "max_time (timer_record now t) = max (max_time t) (timespec_diff now (time_start t))"
  "timer_state (timer_record now t) = TIMER_STOPPED"
  by (auto simp: timer_record_def Let_def min_def max_def)

lemma stats_record:
  assumes "stats t ds"
  shows "stats (timer_record now t) (ds @ [timespec_diff now (time_start t)])"
proof -
  let ?d = "timespec_diff now (time_start t)"
  have "Min (insert (- 1) (set (ds @ [?d]))) = min ?d (Min (insert (- 1) (set ds)))"
    using Min_insert [of "insert (- 1) (set ds)" ?d] by (simp add: insert_commute)
  moreover have "Max (insert 0 (set (ds @ [?d]))) = max ?d (Max (insert 0 (set ds)))"
    using Max_insert [of "insert 0 (set ds)" ?d] by (simp add: insert_commute)
  ultimately show ?thesis
    using assms by (simp add: stats_def timer_record_fields min.commute max.commute)
qed

lemma stats_merge:
  assumes "stats t1 ds" and "stats t2 es"
  shows "stats (merge_timers junk t1 t2) (ds @ es)"
proof -
  have "Min (insert (- 1) (set ds) \<union> insert (- 1) (set es)) =
      min (Min (insert (- 1) (set ds))) (Min (insert (- 1) (set es)))" by (intro Min_Un) auto
  moreover have "Max (insert 0 (set ds) \<union> insert 0 (set es)) =
      max (Max (insert 0 (set ds))) (Max (insert 0 (set es)))" by (intro Max_Un) auto
  ultimately have
    "Min (insert (- 1) (set (ds @ es))) = min (Min (insert (- 1) (set ds))) (Min (insert (- 1) (set es)))"
    "Max (insert 0 (set (ds @ es))) = max (Max (insert 0 (set ds))) (Max (insert 0 (set es)))"
    by simp_all
  moreover have "max_time (merge_timers junk t1 t2) = max (max_time t1) (max_time t2)"
    "min_time (merge_timers junk t1 t2) = min (min_time t1) (min_time t2)"
    by (auto simp: merge_timers_def max_def min_def)
  ultimately show ?thesis
    using assms by (simp add: stats_def) (simp add: merge_timers_def)
qed

text \<open>A run of start/stop pairs at the given times.\<close>

fun timer_run :: "(timespec \<times> timespec) list \<Rightarrow> sb_timer \<Rightarrow> timer_error + sb_timer" where
  "timer_run [] t = Inr t"
| "timer_run ((a, b) # xs) t =
     bind_res (sb_timer_start a t) (\<lambda>(t, _). bind_res (sb_timer_stop b t) (\<lambda>(t, _). timer_run xs t))"

lemma timer_run_stats:
  assumes "stats t ds" and "timer_state t \<noteq> TIMER_UNINITIALIZED"
  shows "\<exists>t'. timer_run xs t = Inr t' \<and>
     stats t' (ds @ map (\<lambda>(a, b). word_of_int (nanosecs b - nanosecs a)) xs)"
  using assms
proof (induction xs arbitrary: t ds)
  case (Cons x xs)
  obtain a b where x: "x = (a, b)" by (cases x)
  let ?s = "t\<lparr>time_start := a, timer_state := TIMER_RUNNING\<rparr>"
  have s: "stats ?s ds" using Cons.prems(1) by (simp add: stats_def)
  have run: "timer_run (x # xs) t = timer_run xs (timer_record b ?s)"
    using Cons.prems(2) x
    by (cases "timer_state t") (simp_all add: sb_timer_start_def sb_timer_stop_def)
  have "stats (timer_record b ?s) (ds @ [word_of_int (nanosecs b - nanosecs a)])"
    using stats_record [OF s, of b] by (simp add: timespec_diff_nanosecs)
  from Cons.IH [OF this] run x show ?case by (simp add: timer_record_fields)
qed simp

section \<open>Properties\<close>

text \<open>
  A freshly initialised timer that measures any sequence of intervals never aborts, and
  afterwards holds exactly their statistics: their number, the sum (modulo 2 to the 64), the
  minimum and the maximum, with each duration the difference of the clock readings in
  nanoseconds.
\<close>

theorem sb_timer_statistics:
  "\<exists>t'. timer_run xs (sb_timer_init t) = Inr t' \<and>
     stats t' (map (\<lambda>(a, b). word_of_int (nanosecs b - nanosecs a)) xs)"
  using timer_run_stats [OF stats_init, of t xs] by (simp add: sb_timer_init_def)

text \<open>
  Merging the timers of several threads gives the statistics of all their measurements
  together.
\<close>

theorem merge_timers_statistics:
  assumes "stats t1 ds" and "stats t2 es"
  shows "stats (merge_timers junk t1 t2) (ds @ es) \<and>
    (of_nat (length ds + length es) \<noteq> (0 :: u64) \<longrightarrow>
       get_avg_time (merge_timers junk t1 t2) = sum_list (ds @ es) div of_nat (length ds + length es))"
  using stats_merge [OF assms, of junk] by (simp add: stats_def get_avg_time_def)

theorem merge_timers_statistics_witness:
  "\<exists>t1 t2. stats t1 [5] \<and> stats t2 [7] \<and> get_avg_time (merge_timers t1 t1 t2) = 6"
proof -
  let ?t = "\<lambda>d. \<lparr>time_start = (0, 0), time_end = (0, 0), my_time = d, min_time = d, max_time = d,
    sum_time = d, events = 1, timer_state = TIMER_STOPPED\<rparr> :: sb_timer"
  have s: "stats (?t 5) [5]" "stats (?t 7) [7]" by (simp_all add: stats_def)
  have "get_avg_time (merge_timers (?t 5) (?t 5) (?t 7)) = 6"
    using merge_timers_statistics [OF s, of "?t 5"] by simp
  with s show ?thesis by blast
qed

end
