(* ===== verification/CLib.thy ===== *)
theory CLib
  imports Prelude "HOL-Library.Char_ord"
begin

text \<open>
  What the sysbench sources use of the C library on strings.  A C string is the list of its
  characters before the terminating NUL; a \<open>char *\<close> that may be \<open>NULL\<close> is an option of it.
\<close>

section \<open>Characters\<close>

definition is_digit :: "char \<Rightarrow> bool" where
  "is_digit c \<longleftrightarrow> CHR ''0'' \<le> c \<and> c \<le> CHR ''9''"

definition digit_val :: "char \<Rightarrow> nat" where
  "digit_val c = (of_char c :: nat) - 48"

definition digit_char :: "nat \<Rightarrow> char" where
  "digit_char d = char_of (48 + d)"

text \<open>\<open>isspace\<close> in the C locale.\<close>

definition isspace :: "char \<Rightarrow> bool" where
  "isspace c \<longleftrightarrow> c \<in> {CHR '' '', CHR 0x09, CHR 0x0A, CHR 0x0B, CHR 0x0C, CHR 0x0D}"

lemma digit_char_val: "d < 10 \<Longrightarrow> digit_val (digit_char d) = d"
  by (simp add: digit_val_def digit_char_def of_char_of)

lemma digit_char_is_digit: "d < 10 \<Longrightarrow> is_digit (digit_char d)"
  by (auto simp: is_digit_def digit_char_def less_eq_char_def of_char_of)

section \<open>Decimal numbers\<close>

fun dec :: "nat \<Rightarrow> string" where
  "dec n = (if n < 10 then [digit_char n] else dec (n div 10) @ [digit_char (n mod 10)])"

declare dec.simps [simp del]

definition dec_val :: "string \<Rightarrow> nat" where
  "dec_val cs = fold (\<lambda>c v. v * 10 + digit_val c) cs 0"

lemma dec_val_snoc: "dec_val (cs @ [c]) = dec_val cs * 10 + digit_val c"
  by (simp add: dec_val_def)

lemma dec_val_dec: "dec_val (dec n) = n"
proof (induction n rule: dec.induct)
  case (1 n)
  then show ?case
    by (cases "n < 10") (simp_all add: dec.simps [of n] dec_val_snoc digit_char_val,
        simp add: dec_val_def digit_char_val)
qed

lemma dec_digits: "list_all is_digit (dec n)"
proof (induction n rule: dec.induct)
  case (1 n)
  then show ?case
    by (cases "n < 10") (simp_all add: dec.simps [of n] digit_char_is_digit)
qed

lemma dec_not_Nil [simp]: "dec n \<noteq> []"
  by (subst dec.simps) simp

lemma dec_length_mono: "a \<le> b \<Longrightarrow> length (dec a) \<le> length (dec b)"
proof (induction b arbitrary: a rule: dec.induct)
  case (1 b)
  have *: "1 \<le> length (dec m)" for m by (simp add: Suc_le_eq)
  show ?case
  proof (cases "a < 10 \<or> b < 10")
    case True
    then show ?thesis using 1(2) * [of b] by (auto simp: dec.simps [of a])
  next
    case False
    then have "length (dec (a div 10)) \<le> length (dec (b div 10))" using 1 by (simp add: div_le_mono)
    then show ?thesis using False by (simp add: dec.simps [of a] dec.simps [of b])
  qed
qed

lemma dec_length_bound: "n < 10 ^ k \<Longrightarrow> 0 < k \<Longrightarrow> length (dec n) \<le> k"
proof (induction k arbitrary: n)
  case (Suc k)
  show ?case
  proof (cases "n < 10")
    case False
    then have "0 < k" using Suc.prems(1) by (cases k) auto
    moreover have "n div 10 < 10 ^ k" using Suc.prems(1) by (simp add: div_less_iff_less_mult mult.commute)
    ultimately show ?thesis using Suc.IH [of "n div 10"] False by (simp add: dec.simps [of n])
  qed (simp add: dec.simps [of n])
qed simp

section \<open>Conversion\<close>

text \<open>
  \<open>atoi\<close>: white space, an optional sign, digits.  A value that \<open>int\<close> cannot represent is
  undefined in C; it is \<open>None\<close> here.
\<close>

definition int_in_range :: "int \<Rightarrow> int option" where
  "int_in_range v = (if - (2 ^ 31) \<le> v \<and> v < 2 ^ 31 then Some v else None)"

definition atoi :: "string \<Rightarrow> int option" where
  "atoi s =
     (case dropWhile isspace s of
        [] \<Rightarrow> Some 0
      | c # cs \<Rightarrow>
          if c = CHR ''-'' then int_in_range (- int (dec_val (takeWhile is_digit cs)))
          else if c = CHR ''+'' then int_in_range (int (dec_val (takeWhile is_digit cs)))
          else int_in_range (int (dec_val (takeWhile is_digit (c # cs)))))"

lemma digit_not_space: "is_digit c \<Longrightarrow> \<not> isspace c \<and> c \<noteq> CHR ''-'' \<and> c \<noteq> CHR ''+''"
  by (auto simp: is_digit_def isspace_def less_eq_char_def)

lemma atoi_dec: "n < 2 ^ 31 \<Longrightarrow> atoi (dec n) = Some (int n)"
proof -
  assume n: "n < 2 ^ 31"
  obtain c cs where d: "dec n = c # cs" by (metis dec_not_Nil neq_Nil_conv)
  have dig: "list_all is_digit (c # cs)" using dec_digits [of n] d by simp
  have dw: "dropWhile isspace (dec n) = c # cs" using d digit_not_space [of c] dig by simp
  have tw: "takeWhile is_digit cs = cs"
    using dig by (simp add: takeWhile_eq_all_conv list_all_iff)
  have v: "dec_val (c # cs) = n" using dec_val_dec [of n] d by simp
  show ?thesis
    using digit_not_space [of c] dig n by (simp add: atoi_def int_in_range_def dw tw v)
qed

section \<open>Tokens\<close>

text \<open>The successive results of \<open>strtok\<close> with one separator: the non-empty runs between them.\<close>

fun strtok_from :: "char \<Rightarrow> string \<Rightarrow> string \<Rightarrow> string list" where
  "strtok_from sep cur [] = (if cur = [] then [] else [cur])"
| "strtok_from sep cur (c # cs) =
     (if c = sep then (if cur = [] then strtok_from sep [] cs else cur # strtok_from sep [] cs)
      else strtok_from sep (cur @ [c]) cs)"

definition strtok :: "char \<Rightarrow> string \<Rightarrow> string list" where
  "strtok sep s = strtok_from sep [] s"

lemma strtok_from_run:
  "sep \<notin> set t \<Longrightarrow> strtok_from sep cur (t @ rest) = strtok_from sep (cur @ t) rest"
  by (induction t arbitrary: cur) auto

text \<open>Joining non-empty tokens with the separator and splitting gives the tokens back.\<close>

fun join :: "char \<Rightarrow> string list \<Rightarrow> string" where
  "join sep [] = []"
| "join sep [t] = t"
| "join sep (t # ts) = t @ sep # join sep ts"

lemma strtok_join:
  assumes "\<And>t. t \<in> set ts \<Longrightarrow> t \<noteq> [] \<and> sep \<notin> set t"
  shows "strtok sep (join sep ts) = ts"
proof -
  have "strtok_from sep [] (join sep ts) = ts"
    using assms
  proof (induction sep ts rule: join.induct)
    case (2 sep t)
    then show ?case using strtok_from_run [of sep t "[]" "[]"] by simp
  next
    case (3 sep t t' ts)
    then show ?case using strtok_from_run [of sep t "[]" "sep # join sep (t' # ts)"] by simp
  qed simp
  then show ?thesis by (simp add: strtok_def)
qed

section \<open>Lines\<close>

text \<open>
  The successive results of \<open>fgets (buf, n, fp)\<close> on the characters of a file: at most \<open>n - 1\<close>
  characters, ending after a newline.
\<close>

fun fgets_line :: "nat \<Rightarrow> string \<Rightarrow> string \<times> string" where
  "fgets_line 0 cs = ([], cs)"
| "fgets_line (Suc n) [] = ([], [])"
| "fgets_line (Suc n) (c # cs) =
     (if c = CHR 0x0A then ([c], cs)
      else let (l, rest) = fgets_line n cs in (c # l, rest))"

lemma fgets_line_append: "fst (fgets_line n cs) @ snd (fgets_line n cs) = cs"
  by (induction n cs rule: fgets_line.induct) (auto split: prod.split)

function fgets_lines :: "nat \<Rightarrow> string \<Rightarrow> string list" where
  "fgets_lines n cs =
     (if cs = [] \<or> n \<le> 1 then []
      else fst (fgets_line (n - 1) cs) # fgets_lines n (snd (fgets_line (n - 1) cs)))"
  by pat_completeness auto

termination
proof (relation "measure (length \<circ> snd)")
  fix n :: nat and cs :: string
  assume "\<not> (cs = [] \<or> n \<le> 1)"
  then obtain m c ds where "n - 1 = Suc m" "cs = c # ds" by (cases cs; cases "n - 1") auto
  moreover from this have "fst (fgets_line (n - 1) cs) \<noteq> []" by (auto split: prod.split)
  moreover have "length (fst (fgets_line (n - 1) cs)) + length (snd (fgets_line (n - 1) cs)) = length cs"
    using fgets_line_append [of "n - 1" cs] by (metis length_append)
  ultimately show "((n, snd (fgets_line (n - 1) cs)), n, cs) \<in> measure (length \<circ> snd)"
    by (cases "fst (fgets_line (n - 1) cs)") simp_all
qed simp

declare fgets_lines.simps [simp del]

section \<open>Formatted output\<close>

definition show_int :: "int \<Rightarrow> string" where
  "show_int i = (if i < 0 then CHR ''-'' # dec (nat (- i)) else dec (nat i))"

text \<open>
  \<open>snprintf\<close> of a formatted text into a buffer of \<open>buflen\<close> bytes: what the buffer holds, and the
  length of the whole text.
\<close>

definition snprintf :: "nat \<Rightarrow> string \<Rightarrow> string \<times> int" where
  "snprintf buflen text = (take (buflen - 1) text, int (length text))"

section \<open>Comparison without case, and \<open>strtol\<close>\<close>

definition tolower :: "char \<Rightarrow> char" where
  "tolower c = (if CHR ''A'' \<le> c \<and> c \<le> CHR ''Z'' then char_of (of_char c + 32 :: nat) else c)"

definition strcaseeq :: "string \<Rightarrow> string \<Rightarrow> bool" where
  "strcaseeq a b \<longleftrightarrow> map tolower a = map tolower b"

text \<open>
  \<open>strtol (s, &endptr, 10)\<close> for a 64-bit \<open>long\<close>: the value, clamped to its range, and the text at
  \<open>endptr\<close>, which is the whole text when there are no digits.
\<close>

definition clamp_long :: "int \<Rightarrow> int" where
  "clamp_long v = max (- (2 ^ 63)) (min (2 ^ 63 - 1) v)"

definition strtol :: "string \<Rightarrow> int \<times> string" where
  "strtol s =
     (let t = dropWhile isspace s;
          neg = (t \<noteq> [] \<and> hd t = CHR ''-'');
          t = (if t \<noteq> [] \<and> (hd t = CHR ''-'' \<or> hd t = CHR ''+'') then tl t else t);
          ds = takeWhile is_digit t
      in if ds = [] then (0, s)
         else (clamp_long (if neg then - int (dec_val ds) else int (dec_val ds)), dropWhile is_digit t))"

end
