(* ===== verification/SbList.thy ===== *)
theory SbList
  imports Prelude
begin

text \<open>
  The intrusive doubly linked lists of sysbench (\<open>sb_list.h\<close>): circular lists through a head
  item, in a heap of \<open>next_p\<close> and \<open>prev_p\<close> pointers.  Every macro is a function on the heap; the
  predicate \<open>sb_list\<close> relates the heap to the list of items.  The locale \<open>item_sequence\<close> states
  what the clients of the macros (options, values, drivers, tests, log handlers) rely on: the
  items come back in the order they were added.
\<close>

section \<open>The macros\<close>

type_synonym ptr = nat

record sb_heap =
  next_p :: "ptr \<Rightarrow> ptr"
  prev_p :: "ptr \<Rightarrow> ptr"

definition set_next :: "ptr \<Rightarrow> ptr \<Rightarrow> sb_heap \<Rightarrow> sb_heap" where
  "set_next a b h = h\<lparr>next_p := (next_p h)(a := b)\<rparr>"

definition set_prev :: "ptr \<Rightarrow> ptr \<Rightarrow> sb_heap \<Rightarrow> sb_heap" where
  "set_prev a b h = h\<lparr>prev_p := (prev_p h)(a := b)\<rparr>"

definition SB_LIST_INIT :: "ptr \<Rightarrow> sb_heap \<Rightarrow> sb_heap" where
  "SB_LIST_INIT head h = set_prev head head (set_next head head h)"

definition SB_LIST_ITEM_INIT :: "ptr \<Rightarrow> sb_heap \<Rightarrow> sb_heap" where
  "SB_LIST_ITEM_INIT item h = SB_LIST_INIT item h"

definition SB_LIST_ADD :: "ptr \<Rightarrow> ptr \<Rightarrow> sb_heap \<Rightarrow> sb_heap" where
  "SB_LIST_ADD item head h =
     (let h = set_next item (next_p h head) h;
          h = set_prev item head h;
          h = set_next head item h
      in set_prev (next_p h item) item h)"

definition SB_LIST_ADD_TAIL :: "ptr \<Rightarrow> ptr \<Rightarrow> sb_heap \<Rightarrow> sb_heap" where
  "SB_LIST_ADD_TAIL item head h =
     (let h = set_prev item (prev_p h head) h;
          h = set_next item head h;
          h = set_prev head item h
      in set_next (prev_p h item) item h)"

definition SB_LIST_DELETE :: "ptr \<Rightarrow> sb_heap \<Rightarrow> sb_heap" where
  "SB_LIST_DELETE old h =
     (let h = set_prev (next_p h old) (prev_p h old) h
      in set_next (prev_p h old) (next_p h old) h)"

definition SB_LIST_REPLACE :: "ptr \<Rightarrow> ptr \<Rightarrow> sb_heap \<Rightarrow> sb_heap" where
  "SB_LIST_REPLACE item old h =
     (let h = set_next item (next_p h old) h;
          h = set_prev item (prev_p h old) h;
          h = set_prev (next_p h item) item h
      in set_next (prev_p h item) item h)"

definition SB_LIST_IS_EMPTY :: "ptr \<Rightarrow> sb_heap \<Rightarrow> bool" where
  "SB_LIST_IS_EMPTY head h \<longleftrightarrow> next_p h head = head"

definition SB_LIST_ITEM_IN_LIST :: "ptr \<Rightarrow> sb_heap \<Rightarrow> bool" where
  "SB_LIST_ITEM_IN_LIST item h \<longleftrightarrow> next_p h item \<noteq> item"

definition SB_LIST_ITEM_FIRST :: "ptr \<Rightarrow> ptr \<Rightarrow> sb_heap \<Rightarrow> bool" where
  "SB_LIST_ITEM_FIRST item head h \<longleftrightarrow> prev_p h item \<noteq> head"

definition SB_LIST_ITEM_LAST :: "ptr \<Rightarrow> ptr \<Rightarrow> sb_heap \<Rightarrow> bool" where
  "SB_LIST_ITEM_LAST item head h \<longleftrightarrow> next_p h item \<noteq> head"

definition SB_LIST_ITEM_NEXT :: "ptr \<Rightarrow> sb_heap \<Rightarrow> ptr" where
  "SB_LIST_ITEM_NEXT item h = next_p h item"

definition SB_LIST_ITEM_PREV :: "ptr \<Rightarrow> sb_heap \<Rightarrow> ptr" where
  "SB_LIST_ITEM_PREV item h = prev_p h item"

text \<open>
  \<open>SB_LIST_FOR_EACH\<close> with a body that does not change the links: the items visited from \<open>pos\<close>
  on, \<open>None\<close> when the fuel runs out before the head is reached again.
\<close>

fun for_each_from :: "nat \<Rightarrow> ptr \<Rightarrow> ptr \<Rightarrow> sb_heap \<Rightarrow> ptr list option" where
  "for_each_from 0 pos head h = (if pos = head then Some [] else None)"
| "for_each_from (Suc n) pos head h =
     (if pos = head then Some []
      else map_option ((#) pos) (for_each_from n (next_p h pos) head h))"

definition SB_LIST_FOR_EACH :: "nat \<Rightarrow> ptr \<Rightarrow> sb_heap \<Rightarrow> ptr list option" where
  "SB_LIST_FOR_EACH n head h = for_each_from n (next_p h head) head h"

text \<open>
  \<open>SB_LIST_FOR_EACH_SAFE\<close> with a body on heap and client state; the next item is read before
  the body runs.
\<close>

fun for_each_safe_from ::
  "nat \<Rightarrow> (ptr \<Rightarrow> sb_heap \<times> 's \<Rightarrow> sb_heap \<times> 's) \<Rightarrow> ptr \<Rightarrow> ptr \<Rightarrow> ptr \<Rightarrow> sb_heap \<times> 's \<Rightarrow>
   (sb_heap \<times> 's) option" where
  "for_each_safe_from 0 body pos temp head hs = (if pos = head then Some hs else None)"
| "for_each_safe_from (Suc n) body pos temp head hs =
     (if pos = head then Some hs
      else let hs' = body pos hs
           in for_each_safe_from n body temp (next_p (fst hs') temp) head hs')"

definition SB_LIST_FOR_EACH_SAFE ::
  "nat \<Rightarrow> (ptr \<Rightarrow> sb_heap \<times> 's \<Rightarrow> sb_heap \<times> 's) \<Rightarrow> ptr \<Rightarrow> sb_heap \<times> 's \<Rightarrow> (sb_heap \<times> 's) option" where
  "SB_LIST_FOR_EACH_SAFE n body head hs =
     (let pos = next_p (fst hs) head
      in for_each_safe_from n body pos (next_p (fst hs) pos) head hs)"

lemmas sb_list_macros =
  SB_LIST_INIT_def SB_LIST_ITEM_INIT_def SB_LIST_ADD_def SB_LIST_ADD_TAIL_def SB_LIST_DELETE_def
  SB_LIST_REPLACE_def SB_LIST_IS_EMPTY_def SB_LIST_ITEM_IN_LIST_def SB_LIST_ITEM_FIRST_def
  SB_LIST_ITEM_LAST_def SB_LIST_ITEM_NEXT_def SB_LIST_ITEM_PREV_def

lemma set_link_simps [simp]:
  "next_p (set_next a b h) = (next_p h)(a := b)" "prev_p (set_next a b h) = prev_p h"
  "prev_p (set_prev a b h) = (prev_p h)(a := b)" "next_p (set_prev a b h) = next_p h"
  by (simp_all add: set_next_def set_prev_def)

section \<open>Lists in the heap\<close>

text \<open>Consecutive elements of the list are linked in both directions.\<close>

fun links :: "sb_heap \<Rightarrow> ptr list \<Rightarrow> bool" where
  "links h (a # b # zs) \<longleftrightarrow> next_p h a = b \<and> prev_p h b = a \<and> links h (b # zs)"
| "links h _ \<longleftrightarrow> True"

definition sb_list :: "sb_heap \<Rightarrow> ptr \<Rightarrow> ptr list \<Rightarrow> bool" where
  "sb_list h head xs \<longleftrightarrow> distinct (head # xs) \<and> links h (head # xs @ [head])"

lemma links_append: "links h (xs @ a # ys) \<longleftrightarrow> links h (xs @ [a]) \<and> links h (a # ys)"
proof (induction xs)
  case (Cons x xs)
  then show ?case by (cases xs) auto
qed simp

lemma links_cong:
  assumes "\<And>a. a \<in> set (butlast zs) \<Longrightarrow> next_p h' a = next_p h a"
    and "\<And>b. b \<in> set (tl zs) \<Longrightarrow> prev_p h' b = prev_p h b"
    and "links h zs"
  shows "links h' zs"
  using assms
proof (induction zs)
  case (Cons a zs)
  show ?case
  proof (cases zs)
    case (Cons b ys)
    moreover have "links h' zs"
      using Cons Cons.prems by (intro Cons.IH) (auto split: if_splits)
    ultimately show ?thesis using Cons.prems by auto
  qed simp
qed simp

text \<open>A list that no changed pointer belongs to is not touched.\<close>

lemma sb_list_frame:
  assumes "sb_list h head xs"
    and "\<And>a. a \<in> set (head # xs) \<Longrightarrow> next_p h' a = next_p h a \<and> prev_p h' a = prev_p h a"
  shows "sb_list h' head xs"
  using assms unfolding sb_list_def
  by (auto intro!: links_cong [of "head # xs @ [head]" h' h] simp: butlast_append split: if_splits)

lemma sb_list_init: "sb_list (SB_LIST_INIT head h) head []"
  by (simp add: sb_list_def sb_list_macros)

lemma sb_list_add:
  assumes l: "sb_list h head xs" and new: "item \<notin> set (head # xs)"
  shows "sb_list (SB_LIST_ADD item head h) head (item # xs)"
proof (cases xs)
  case Nil
  with l new show ?thesis by (auto simp: sb_list_def sb_list_macros Let_def)
next
  case (Cons x ys)
  let ?h = "SB_LIST_ADD item head h"
  have nx: "next_p h head = x" using l Cons by (simp add: sb_list_def)
  have upd: "next_p ?h = (next_p h)(item := x, head := item)"
    "prev_p ?h = (prev_p h)(item := head, x := item)"
    using new Cons nx by (simp_all add: sb_list_macros Let_def)
  have "links ?h (x # ys @ [head])"
  proof (rule links_cong)
    show "links h (x # ys @ [head])" using l Cons by (simp add: sb_list_def)
  qed (use l new Cons in \<open>auto simp: upd sb_list_def butlast_append split: if_splits\<close>)
  with l new Cons show ?thesis by (simp add: sb_list_def upd)
qed

lemma sb_list_add_tail:
  assumes l: "sb_list h head xs" and new: "item \<notin> set (head # xs)"
  shows "sb_list (SB_LIST_ADD_TAIL item head h) head (xs @ [item])"
proof (cases xs rule: rev_cases)
  case Nil
  with l new show ?thesis by (auto simp: sb_list_def sb_list_macros Let_def)
next
  case (snoc ys x)
  let ?h = "SB_LIST_ADD_TAIL item head h"
  have ln: "links h ((head # ys) @ [x])" "links h [x, head]"
    using l snoc links_append [of h "head # ys" x "[head]"] by (simp_all add: sb_list_def)
  have upd: "prev_p ?h = (prev_p h)(item := x, head := item)"
    "next_p ?h = (next_p h)(item := head, x := item)"
    using new snoc ln(2) by (simp_all add: sb_list_macros Let_def)
  have "links ?h ((head # ys) @ [x])"
    by (rule links_cong [OF _ _ ln(1)])
      (use l new snoc in \<open>auto simp: upd sb_list_def butlast_append split: if_splits\<close>)
  moreover have "links ?h [x, item, head]" using l new snoc by (simp add: upd sb_list_def)
  ultimately have "links ?h ((head # ys) @ x # [item, head])"
    unfolding links_append [of ?h "head # ys" x "[item, head]"] by simp
  with l new snoc show ?thesis by (simp add: sb_list_def)
qed

lemma sb_list_neighbours:
  assumes "sb_list h head (as @ x # bs)"
  shows "prev_p h x = last (head # as)" "next_p h x = hd (bs @ [head])"
    "links h (head # as)" "links h (bs @ [head])"
proof -
  have all: "links h ((head # as) @ x # bs @ [head])" using assms by (simp add: sb_list_def)
  have l1: "links h ((head # as) @ [x])" and l2: "links h (x # bs @ [head])"
    using all links_append [of h "head # as" x "bs @ [head]"] by simp_all
  obtain cs c where cs: "head # as = cs @ [c]" by (metis list.distinct(1) rev_exhaust)
  have "links h (cs @ [c])" "links h [c, x]"
    using l1 links_append [of h cs c "[x]"] cs by (simp_all add: append.assoc [symmetric])
  then show "prev_p h x = last (head # as)" "links h (head # as)" using cs by simp_all
  show "next_p h x = hd (bs @ [head])" "links h (bs @ [head])"
    using l2 by (cases bs; simp)+
qed

lemma links_joined:
  "links h (as @ [a]) \<Longrightarrow> links h (b # bs) \<Longrightarrow> next_p h a = b \<Longrightarrow> prev_p h b = a \<Longrightarrow>
   links h (as @ a # b # bs)"
  by (simp add: links_append [of h as a "b # bs"])

lemma sb_list_delete:
  assumes l: "sb_list h head xs" and x: "x \<in> set xs"
  shows "sb_list (SB_LIST_DELETE x h) head (remove1 x xs)"
proof -
  from x l obtain as bs where xs: "xs = as @ x # bs" by (meson split_list)
  have d: "distinct (head # as @ x # bs)" using l xs by (simp add: sb_list_def)
  note nb = sb_list_neighbours [OF l [unfolded xs]]
  let ?h = "SB_LIST_DELETE x h"
  obtain cs c where cs: "head # as = cs @ [c]" by (metis list.distinct(1) rev_exhaust)
  obtain e es where es: "bs @ [head] = e # es" by (metis Nil_is_append_conv neq_Nil_conv not_Cons_self2)
  have c: "prev_p h x = c" and e: "next_p h x = e" using nb(1,2) cs es by simp_all
  have dc: "c \<noteq> x" "e \<noteq> x" "c \<notin> set cs" "e \<notin> set (tl (head # as))" "c \<notin> set bs"
    "e \<notin> set es \<or> es = []"
    using d cs es by (cases bs; cases cs; auto)+
  have upd: "prev_p ?h = (prev_p h)(e := c)" "next_p ?h = (next_p h)(c := e)"
    using c e dc by (simp_all add: sb_list_macros Let_def)
  have b1: "butlast (e # es) = bs" using es by (metis butlast_snoc)
  have "links ?h (cs @ [c])"
    by (rule links_cong [of _ _ h]) (use nb(3) cs dc in \<open>auto simp: upd\<close>)
  moreover have "links ?h (e # es)"
    by (rule links_cong [of _ _ h]) (use nb(4) es dc b1 in \<open>auto simp: upd\<close>)
  ultimately have "links ?h (cs @ c # e # es)" by (rule links_joined) (simp_all add: upd)
  then have "links ?h (head # (as @ bs) @ [head])" using cs es by (metis append_Cons append_assoc append_Nil)
  moreover have "remove1 x xs = as @ bs" using d xs by (simp add: remove1_append)
  ultimately show ?thesis using d by (auto simp: sb_list_def)
qed

lemma sb_list_empty_iff: "sb_list h head xs \<Longrightarrow> SB_LIST_IS_EMPTY head h \<longleftrightarrow> xs = []"
  by (cases xs) (auto simp: sb_list_def sb_list_macros)

text \<open>Despite its name, the macro is true for every item but the last one.\<close>

lemma sb_list_item_last:
  "sb_list h head xs \<Longrightarrow> x \<in> set xs \<Longrightarrow> SB_LIST_ITEM_LAST x head h \<longleftrightarrow> x \<noteq> last xs"
proof -
  assume l: "sb_list h head xs" and x: "x \<in> set xs"
  from x obtain as bs where xs: "xs = as @ x # bs" by (meson split_list)
  have d: "distinct (head # as @ x # bs)" using l xs by (simp add: sb_list_def)
  have "next_p h x = hd (bs @ [head])" using sb_list_neighbours(2) [OF l [unfolded xs]] .
  then show ?thesis
    using d xs by (cases bs) (auto simp: sb_list_macros)
qed

lemma for_each_from_links:
  "links h (xs @ [head]) \<Longrightarrow> head \<notin> set xs \<Longrightarrow> length xs \<le> n \<Longrightarrow>
   for_each_from n (hd (xs @ [head])) head h = Some xs"
proof (induction xs arbitrary: n)
  case Nil
  show ?case by (cases n) simp_all
next
  case (Cons x xs)
  then obtain m where n: "n = Suc m" by (cases n) auto
  have "next_p h x = hd (xs @ [head])" and "links h (xs @ [head])"
    using Cons.prems by (cases xs; simp)+
  with Cons n show ?case by simp
qed

lemma sb_list_for_each:
  assumes "sb_list h head xs" and "length xs \<le> n"
  shows "SB_LIST_FOR_EACH n head h = Some xs"
proof -
  have "next_p h head = hd (xs @ [head])" and "links h (xs @ [head])"
    using assms(1) by (cases xs; simp add: sb_list_def)+
  with for_each_from_links [of h xs head n] assms show ?thesis
    by (simp add: SB_LIST_FOR_EACH_def sb_list_def)
qed

text \<open>The loop of \<open>free_values\<close>: every item is unlinked while the list is walked.\<close>

lemma for_each_safe_delete:
  assumes "sb_list h head xs" and "length xs \<le> n"
  shows "\<exists>h'. for_each_safe_from n (\<lambda>x (h, s). (SB_LIST_DELETE x h, f x s)) (next_p h head)
           (next_p h (next_p h head)) head (h, s) = Some (h', fold f xs s) \<and> sb_list h' head []"
  using assms
proof (induction xs arbitrary: h s n)
  case Nil
  then have "next_p h head = head" by (simp add: sb_list_def)
  with Nil show ?case by (cases n) auto
next
  case (Cons x xs)
  then obtain m where n: "n = Suc m" by (cases n) auto
  let ?h = "SB_LIST_DELETE x h"
  have l: "sb_list ?h head xs" using sb_list_delete [OF Cons.prems(1), of x] by simp
  have x: "next_p h head = x" "head \<noteq> x" using Cons.prems(1) by (auto simp: sb_list_def)
  have nx: "next_p h x = next_p ?h head"
    using Cons.prems(1) l by (cases xs) (auto simp: sb_list_def)
  show ?case
    using Cons.IH [OF l, of m "f x s"] Cons.prems(2) n x nx by simp
qed

section \<open>The interface of the clients\<close>

locale item_sequence =
  fixes rep :: "'h \<Rightarrow> 'p \<Rightarrow> 'p list \<Rightarrow> bool"
    and init :: "'p \<Rightarrow> 'h \<Rightarrow> 'h" and add_tail :: "'p \<Rightarrow> 'p \<Rightarrow> 'h \<Rightarrow> 'h"
    and delete :: "'p \<Rightarrow> 'h \<Rightarrow> 'h" and for_each :: "nat \<Rightarrow> 'p \<Rightarrow> 'h \<Rightarrow> 'p list option"
  assumes init_empty: "rep (init head h) head []"
    and add_tail_last: "rep h head xs \<Longrightarrow> item \<notin> set (head # xs) \<Longrightarrow>
      rep (add_tail item head h) head (xs @ [item])"
    and delete_removes: "rep h head xs \<Longrightarrow> x \<in> set xs \<Longrightarrow> rep (delete x h) head (remove1 x xs)"
    and for_each_all: "rep h head xs \<Longrightarrow> length xs \<le> n \<Longrightarrow> for_each n head h = Some xs"
begin

lemma build:
  "rep h head xs \<Longrightarrow> distinct (head # xs @ items) \<Longrightarrow>
   rep (fold (\<lambda>i. add_tail i head) items h) head (xs @ items)"
proof (induction items arbitrary: h xs)
  case (Cons i items)
  have "rep (add_tail i head h) head (xs @ [i])" using Cons.prems by (intro add_tail_last) auto
  from Cons.IH [OF this] Cons.prems(2) show ?case by simp
qed simp

lemma build_for_each:
  assumes "distinct (head # items)" and "length items \<le> n"
  shows "for_each n head (fold (\<lambda>i. add_tail i head) items (init head h)) = Some items"
  using build [OF init_empty, of head items] assms by (intro for_each_all) simp_all

lemma build_delete_for_each:
  assumes "distinct (head # items)" and "x \<in> set items" and "length items \<le> n"
  shows "for_each n head (delete x (fold (\<lambda>i. add_tail i head) items (init head h))) =
         Some (remove1 x items)"
  using build [OF init_empty, of head items] assms
  by (intro for_each_all delete_removes) (auto simp: length_remove1)

end

interpretation sb: item_sequence sb_list SB_LIST_INIT SB_LIST_ADD_TAIL SB_LIST_DELETE SB_LIST_FOR_EACH
  by unfold_locales (simp_all add: sb_list_init sb_list_add_tail sb_list_delete sb_list_for_each)

section \<open>Properties\<close>

text \<open>
  C29: The list macros implement a sequence: after \<open>SB_LIST_INIT\<close> and adding distinct items with
  \<open>SB_LIST_ADD_TAIL\<close>, \<open>SB_LIST_FOR_EACH\<close> terminates and visits exactly these items in order; and
  after \<open>SB_LIST_DELETE\<close> of one of them, all the others.
\<close>

theorem sb_list_sequence:
  assumes "distinct (head # items)" and "x \<in> set items" and "length items \<le> n"
  shows "SB_LIST_FOR_EACH n head
      (fold (\<lambda>i. SB_LIST_ADD_TAIL i head) items (SB_LIST_INIT head h)) = Some items \<and>
    SB_LIST_FOR_EACH n head
      (SB_LIST_DELETE x (fold (\<lambda>i. SB_LIST_ADD_TAIL i head) items (SB_LIST_INIT head h))) =
      Some (remove1 x items)"
  using sb.build_for_each [OF assms(1,3)] sb.build_delete_for_each [OF assms] by simp

theorem sb_list_sequence_witness:
  "SB_LIST_FOR_EACH 3 0 (SB_LIST_DELETE 7
     (fold (\<lambda>i. SB_LIST_ADD_TAIL i 0) [5, 7, 9] (SB_LIST_INIT 0 \<lparr>next_p = Fun.id, prev_p = Fun.id\<rparr>))) =
   Some [5, 9]"
  using sb_list_sequence [of 0 "[5, 7, 9]" 7 3 "\<lparr>next_p = Fun.id, prev_p = Fun.id\<rparr>"] by simp

text \<open>
  Walking a list with \<open>SB_LIST_FOR_EACH_SAFE\<close> while deleting every visited item, as
  \<open>free_values\<close> does, visits all items in order, terminates, and leaves an empty list.
\<close>

theorem sb_list_safe_delete_all:
  assumes "sb_list h head xs" and "length xs \<le> n"
  shows "\<exists>h'. SB_LIST_FOR_EACH_SAFE n (\<lambda>x (h, seen). (SB_LIST_DELETE x h, seen @ [x])) head (h, []) =
      Some (h', xs) \<and> SB_LIST_IS_EMPTY head h'"
proof -
  have "fold (\<lambda>x seen. seen @ [x]) xs ys = ys @ xs" for ys by (induction xs arbitrary: ys) simp_all
  then show ?thesis
    using for_each_safe_delete [OF assms, of "\<lambda>x seen. seen @ [x]" "[]"] sb_list_empty_iff
    by (fastforce simp: SB_LIST_FOR_EACH_SAFE_def)
qed

theorem sb_list_safe_delete_all_witness:
  "\<exists>h'. SB_LIST_FOR_EACH_SAFE 1 (\<lambda>x (h, seen). (SB_LIST_DELETE x h, seen @ [x])) 0
      (SB_LIST_ADD_TAIL 4 0 (SB_LIST_INIT 0 \<lparr>next_p = Fun.id, prev_p = Fun.id\<rparr>), []) = Some (h', [4]) \<and>
    SB_LIST_IS_EMPTY 0 h'"
  by (rule sb_list_safe_delete_all) (simp_all add: sb_list_def sb_list_macros Let_def)

end
