(* ===== verification/SbOptions.thy ===== *)
theory SbOptions
  imports Complex_Main CLib SbList
begin

text \<open>
  The option library of sysbench (\<open>sb_options.c\<close>, \<open>sb_options.h\<close>): options with their values,
  typed getters, and the configuration file reader and writer.  The intrusive lists are lists
  here, which \<open>SbList\<close> justifies; a value list is written tail first, as \<open>SB_LIST_ADD_TAIL\<close>
  does.  Allocation never fails in the model, and a pointer argument that is \<open>NULL\<close> in the source
  is an option.
\<close>

section \<open>Data\<close>

datatype sb_arg_type =
  SB_ARG_TYPE_NULL | SB_ARG_TYPE_FLAG | SB_ARG_TYPE_INT | SB_ARG_TYPE_SIZE
| SB_ARG_TYPE_FLOAT | SB_ARG_TYPE_STRING | SB_ARG_TYPE_LIST

record sb_arg =
  arg_name :: string
  arg_desc :: string
  arg_type :: sb_arg_type
  arg_value :: "string option"

record value_t =
  val_data :: string
  val_ignore :: bool

record option_t =
  opt_name :: string
  opt_type :: sb_arg_type
  opt_values :: "value_t list"
  opt_ignore :: bool

definition VALUE_DELIMITER :: char where "VALUE_DELIMITER = CHR ''=''"
definition VALUE_SEPARATOR :: char where "VALUE_SEPARATOR = CHR '',''"
definition COMMENT_CHAR :: char where "COMMENT_CHAR = CHR ''#''"
definition MAXSTRLEN :: nat where "MAXSTRLEN = 256"
definition sizemods :: string where "sizemods = ''KMGT''"

lemmas sb_opt_consts =
  VALUE_DELIMITER_def VALUE_SEPARATOR_def COMMENT_CHAR_def MAXSTRLEN_def sizemods_def

section \<open>Values and options\<close>

definition new_value :: "string \<Rightarrow> value_t" where
  "new_value d = \<lparr>val_data = d, val_ignore = False\<rparr>"

definition new_option :: "string \<Rightarrow> option_t" where
  "new_option name =
     \<lparr>opt_name = name, opt_type = SB_ARG_TYPE_NULL, opt_values = [], opt_ignore = False\<rparr>"

definition add_value :: "value_t list \<Rightarrow> string \<Rightarrow> value_t list" where
  "add_value vs d = vs @ [new_value d]"

definition find_value :: "value_t list \<Rightarrow> string \<Rightarrow> value_t option" where
  "find_value vs d = find (\<lambda>v. val_data v = d) vs"

definition find_option :: "option_t list \<Rightarrow> string \<Rightarrow> option_t option" where
  "find_option opts name = find (\<lambda>opt. opt_name opt = name) opts"

definition add_option :: "option_t list \<Rightarrow> string \<Rightarrow> option_t list" where
  "add_option opts name =
     (case find_option opts name of Some _ \<Rightarrow> opts | None \<Rightarrow> opts @ [new_option name])"

text \<open>The effect of a write through the pointer that \<open>add_option\<close> or \<open>find_option\<close> returned.\<close>

fun update_option :: "string \<Rightarrow> (option_t \<Rightarrow> option_t) \<Rightarrow> option_t list \<Rightarrow> option_t list" where
  "update_option name f [] = []"
| "update_option name f (opt # opts) =
     (if opt_name opt = name then f opt # opts else opt # update_option name f opts)"

definition free_values :: "value_t list \<Rightarrow> value_t list" where
  "free_values vs = []"

text \<open>\<open>remove_value\<close> and \<open>remove_option\<close> return 1 when the entry is missing.\<close>

fun remove_value :: "value_t list \<Rightarrow> string \<Rightarrow> value_t list \<times> int" where
  "remove_value [] d = ([], 1)"
| "remove_value (v # vs) d =
     (if val_data v = d then (vs, 0) else (let (vs', rc) = remove_value vs d in (v # vs', rc)))"

fun remove_option :: "option_t list \<Rightarrow> string \<Rightarrow> option_t list \<times> int" where
  "remove_option [] name = ([], 1)"
| "remove_option (opt # opts) name =
     (if opt_name opt = name then (opts, 0)
      else (let (opts', rc) = remove_option opts name in (opt # opts', rc)))"

definition sb_options_init :: "option_t list" where
  "sb_options_init = []"

definition sb_find_option :: "string \<Rightarrow> option_t list \<Rightarrow> option_t option" where
  "sb_find_option name opts = find_option opts name"

text \<open>The values \<open>set_option\<close> stores; \<open>None\<close> is the unknown type.\<close>

definition set_option_values :: "string option \<Rightarrow> sb_arg_type \<Rightarrow> value_t list option" where
  "set_option_values value type =
     (if type \<noteq> SB_ARG_TYPE_FLAG \<and> (value = None \<or> value = Some []) then Some []
      else case type of
             SB_ARG_TYPE_FLAG \<Rightarrow>
               Some (if value = None \<or> value = Some ''on'' then add_value [] ''on'' else [])
           | SB_ARG_TYPE_INT \<Rightarrow> Some (add_value [] (the value))
           | SB_ARG_TYPE_SIZE \<Rightarrow> Some (add_value [] (the value))
           | SB_ARG_TYPE_FLOAT \<Rightarrow> Some (add_value [] (the value))
           | SB_ARG_TYPE_STRING \<Rightarrow> Some (add_value [] (the value))
           | SB_ARG_TYPE_LIST \<Rightarrow> Some (fold (\<lambda>t vs. add_value vs t) (strtok VALUE_SEPARATOR (the value)) [])
           | SB_ARG_TYPE_NULL \<Rightarrow> None)"

definition set_option :: "string \<Rightarrow> string option \<Rightarrow> sb_arg_type \<Rightarrow> option_t list \<Rightarrow> option_t list \<times> int" where
  "set_option name value type opts =
     (let opts = add_option opts name;
          opts = update_option name (\<lambda>opt. opt\<lparr>opt_values := free_values (opt_values opt), opt_type := type\<rparr>) opts
      in case set_option_values value type of
           None \<Rightarrow> (opts, 1)
         | Some vs \<Rightarrow> (update_option name (\<lambda>opt. opt\<lparr>opt_values := vs\<rparr>) opts, 0))"

fun sb_register_arg_set :: "sb_arg list \<Rightarrow> option_t list \<Rightarrow> option_t list \<times> int" where
  "sb_register_arg_set [] opts = (opts, 0)"
| "sb_register_arg_set (a # as) opts =
     (let (opts, rc) = set_option (arg_name a) (arg_value a) (arg_type a) opts
      in if rc \<noteq> 0 then (opts, 1) else sb_register_arg_set as opts)"

section \<open>Getters\<close>

definition sb_get_value_flag :: "string \<Rightarrow> option_t list \<Rightarrow> bool" where
  "sb_get_value_flag name opts =
     (case find_option opts name of None \<Rightarrow> False | Some opt \<Rightarrow> opt_values opt \<noteq> [])"

text \<open>\<open>None\<close>: undefined in C (the number does not fit).\<close>

definition sb_get_value_int :: "string \<Rightarrow> option_t list \<Rightarrow> int option" where
  "sb_get_value_int name opts =
     (case find_option opts name of
        None \<Rightarrow> Some 0
      | Some opt \<Rightarrow> (case opt_values opt of [] \<Rightarrow> Some 0 | v # _ \<Rightarrow> atoi (val_data v)))"

text \<open>The scanning loop of \<open>sb_get_value_size\<close>: (rc, res, mult).\<close>

fun size_scan :: "string \<Rightarrow> nat \<Rightarrow> u64 \<Rightarrow> nat \<times> u64 \<times> char" where
  "size_scan [] rc res = (rc, res, CHR 0x00)"
| "size_scan (c # cs) rc res =
     (if \<not> is_digit c then (if rc = 1 then (2, res, c) else (rc, res, CHR 0x00))
      else size_scan cs 1 (res * 10 + of_char c - of_char (CHR ''0'')))"

fun size_shift :: "nat \<Rightarrow> u64 \<Rightarrow> u64" where
  "size_shift 0 res = res"
| "size_shift (Suc n) res = size_shift n (res * 1024)"

definition size_of_string :: "string \<Rightarrow> u64" where
  "size_of_string s =
     (let (rc, res, mult) = size_scan s 0 0
      in if rc = 2 then
           (let n = length (takeWhile (\<lambda>m. m \<noteq> mult) sizemods)
            in if n < length sizemods then size_shift (n + 1) res else 0)
         else res)"

definition sb_get_value_size :: "string \<Rightarrow> option_t list \<Rightarrow> u64" where
  "sb_get_value_size name opts =
     (case find_option opts name of
        None \<Rightarrow> 0
      | Some opt \<Rightarrow> (case opt_values opt of [] \<Rightarrow> 0 | v # _ \<Rightarrow> size_of_string (val_data v)))"

text \<open>
  \<open>scan\<close> stands for \<open>sscanf(_, "%f", _)\<close>.  Every value overwrites the result; without values the
  result is the uninitialised local, \<open>None\<close>.
\<close>

definition sb_get_value_float :: "(string \<Rightarrow> 'f option) \<Rightarrow> 'f \<Rightarrow> string \<Rightarrow> option_t list \<Rightarrow> 'f option" where
  "sb_get_value_float scan zero name opts =
     (case find_option opts name of
        None \<Rightarrow> Some zero
      | Some opt \<Rightarrow>
          fold (\<lambda>v res. Some (case scan (val_data v) of None \<Rightarrow> zero | Some f \<Rightarrow> f)) (opt_values opt) None)"

definition sb_get_value_string :: "string \<Rightarrow> option_t list \<Rightarrow> string option" where
  "sb_get_value_string name opts =
     (case find_option opts name of
        None \<Rightarrow> None
      | Some opt \<Rightarrow> (case opt_values opt of [] \<Rightarrow> None | v # _ \<Rightarrow> Some (val_data v)))"

definition sb_get_value_list :: "string \<Rightarrow> option_t list \<Rightarrow> value_t list option" where
  "sb_get_value_list name opts = map_option opt_values (find_option opts name)"

text \<open>
  The scaling loop of \<open>sb_print_value_size\<close>; \<open>sizeof(sizemods)\<close> counts the NUL.  The divisions are
  by a power of two, so the model computes on reals.
\<close>

fun size_scale :: "nat \<Rightarrow> real \<Rightarrow> nat \<Rightarrow> nat \<times> real" where
  "size_scale 0 v i = (i, v)"
| "size_scale (Suc k) v i = (if v \<ge> 1024 then size_scale k (v / 1024) (i + 1) else (i, v))"

definition sb_print_value_size :: "real \<Rightarrow> real \<times> char option" where
  "sb_print_value_size value =
     (let (i, v) = size_scale (length sizemods + 1) value 0
      in (v, if i > 0 then Some ((sizemods @ [CHR 0x00]) ! (i - 1)) else None))"

section \<open>The help text\<close>

definition pad_right :: "nat \<Rightarrow> string \<Rightarrow> string" where
  "pad_right n s = s @ replicate (n - length s) CHR '' ''"

definition arg_format :: "sb_arg_type \<Rightarrow> string" where
  "arg_format type =
     (case type of
        SB_ARG_TYPE_FLAG \<Rightarrow> ''=[on|off]'' | SB_ARG_TYPE_LIST \<Rightarrow> ''=[LIST,...]''
      | SB_ARG_TYPE_SIZE \<Rightarrow> ''=SIZE'' | SB_ARG_TYPE_INT \<Rightarrow> ''=N'' | SB_ARG_TYPE_FLOAT \<Rightarrow> ''=N''
      | SB_ARG_TYPE_STRING \<Rightarrow> ''=STRING'' | SB_ARG_TYPE_NULL \<Rightarrow> ''<UNKNOWN>'')"

definition max_name_len :: "sb_arg list \<Rightarrow> nat" where
  "max_name_len opts = fold (\<lambda>a m. if length (arg_name a) > m then length (arg_name a) else m) opts 0"

definition sb_print_options :: "sb_arg list \<Rightarrow> string" where
  "sb_print_options opts =
     (let maxlen = max_name_len opts
      in concat (map (\<lambda>a. ''  --'' @ arg_name a @
                     pad_right (maxlen - length (arg_name a) + 8) (arg_format (arg_type a)) @
                     arg_desc a @
                     (case arg_value a of None \<Rightarrow> [] | Some v \<Rightarrow> '' ['' @ v @ '']'') @ [CHR 0x0A]) opts) @
         [CHR 0x0A])"

section \<open>Configuration files\<close>

datatype 'a loop_result = Still_running | Failed | Done 'a

text \<open>
  The value loop of \<open>read_config\<close> on the text after the delimiter, one unit of fuel per round.
  In the branch for unquoted values the source cuts the text at the separator, adds the value,
  and does not move \<open>tmp\<close>.
\<close>

fun read_values :: "nat \<Rightarrow> string \<Rightarrow> value_t list \<Rightarrow> value_t list loop_result" where
  "read_values n [] vs = Done vs"
| "read_values 0 (c # cs) vs = Still_running"
| "read_values (Suc n) (c # cs) vs =
     (if isspace c then read_values n cs vs
      else if c = COMMENT_CHAR then Done vs
      else if c = CHR 0x27 \<or> c = CHR 0x22 then
        (let q = takeWhile (\<lambda>x. x \<noteq> c) cs; rest = dropWhile (\<lambda>x. x \<noteq> c) cs
         in case rest of
              [] \<Rightarrow> Failed
            | _ # rest' \<Rightarrow>
                (case dropWhile (\<lambda>x. x \<noteq> VALUE_SEPARATOR) rest' of
                   [] \<Rightarrow> read_values n [] (add_value vs q)
                 | _ # rest'' \<Rightarrow> read_values n rest'' (add_value vs q)))
      else
        (let v = takeWhile (\<lambda>x. x \<noteq> VALUE_SEPARATOR) (c # cs)
         in read_values n v (add_value vs v)))"

fun read_config :: "nat \<Rightarrow> string list \<Rightarrow> option_t list \<Rightarrow> option_t list loop_result" where
  "read_config n [] opts = Done opts"
| "read_config n (buf # bufs) opts =
     (case dropWhile (\<lambda>x. x \<noteq> VALUE_DELIMITER) buf of
        [] \<Rightarrow> read_config n bufs opts
      | _ # tmp \<Rightarrow>
          (let name = takeWhile (\<lambda>x. x \<noteq> VALUE_DELIMITER) buf;
               opts = add_option opts name
           in case read_values n tmp (opt_values (the (find_option opts name))) of
                Still_running \<Rightarrow> Still_running
              | Failed \<Rightarrow> Failed
              | Done vs \<Rightarrow> read_config n bufs (update_option name (\<lambda>opt. opt\<lparr>opt_values := vs\<rparr>) opts)))"

text \<open>
  \<open>write_config\<close> prints the separator where \<open>SB_LIST_ITEM_LAST\<close> is false, which is after the
  last value (\<open>SbList.sb_list_item_last\<close>).
\<close>

fun write_values :: "value_t list \<Rightarrow> string" where
  "write_values [] = []"
| "write_values (v # vs) =
     (if \<not> val_ignore v then val_data v else []) @
     (if \<not> (vs \<noteq> []) then [VALUE_SEPARATOR, CHR '' ''] else []) @ write_values vs"

definition write_option :: "option_t \<Rightarrow> string" where
  "write_option opt = opt_name opt @ '' '' @ [VALUE_DELIMITER] @ '' '' @ write_values (opt_values opt) @ [CHR 0x0A]"

definition write_config :: "option_t list \<Rightarrow> string \<times> option_t list" where
  "write_config opts =
     (concat (map (\<lambda>opt. if opt_ignore opt then [] else write_option opt) opts),
      map (\<lambda>opt. opt\<lparr>opt_ignore := True\<rparr>) opts)"

section \<open>Lookup after update\<close>

definition opts_wf :: "option_t list \<Rightarrow> bool" where
  "opts_wf opts \<longleftrightarrow> distinct (map opt_name opts)"

lemma find_option_None: "find_option opts name = None \<longleftrightarrow> name \<notin> opt_name ` set opts"
  by (auto simp: find_option_def find_None_iff)

lemma find_option_name: "find_option opts name = Some opt \<Longrightarrow> opt_name opt = name"
  by (auto simp: find_option_def find_Some_iff)

lemma update_option_names:
  assumes "\<And>opt. opt_name (f opt) = opt_name opt"
  shows "map opt_name (update_option name f opts) = map opt_name opts"
  by (induction opts) (simp_all add: assms)

lemma find_update_option:
  assumes "\<And>opt. opt_name (f opt) = opt_name opt"
  shows "find_option (update_option name f opts) name' =
         (if name' = name then map_option f (find_option opts name) else find_option opts name')"
  by (induction opts) (auto simp: find_option_def assms)

lemma find_add_option:
  "find_option (add_option opts name) name' =
     (if name' = name \<and> find_option opts name = None then Some (new_option name)
      else find_option opts name')"
  by (auto simp: add_option_def find_option_def find_append new_option_def split: option.split)

lemma add_option_wf [inv_intros]: "opts_wf opts \<Longrightarrow> opts_wf (add_option opts name)"
  by (auto simp: opts_wf_def add_option_def new_option_def find_option_None split: option.split)

lemma set_option_wf [inv_intros]: "opts_wf opts \<Longrightarrow> opts_wf (fst (set_option name value type opts))"
  using add_option_wf [of opts name]
  by (simp add: set_option_def opts_wf_def update_option_names Let_def split: option.split)

lemma remove_option_subset: "set (fst (remove_option opts name)) \<subseteq> set opts"
  by (induction opts) (auto split: prod.split)

lemma remove_option_wf [inv_intros]: "opts_wf opts \<Longrightarrow> opts_wf (fst (remove_option opts name))"
proof (induction opts)
  case (Cons opt opts)
  obtain opts' rc where r: "remove_option opts name = (opts', rc)" by fastforce
  have "set opts' \<subseteq> set opts" using remove_option_subset [of opts name] r by simp
  with Cons r show ?case by (auto simp: opts_wf_def)
qed (simp add: opts_wf_def)

lemma find_remove_option:
  assumes "opts_wf opts"
  shows "find_option (fst (remove_option opts name)) name' =
           (if name' = name then None else find_option opts name')"
    and "snd (remove_option opts name) = (if find_option opts name = None then 1 else 0)"
  using assms
proof (induction opts)
  case Nil
  { case 1 then show ?case by (simp add: find_option_def) }
  { case 2 then show ?case by (simp add: find_option_def) }
next
  case (Cons opt opts)
  have tl: "opts_wf opts" if "opts_wf (opt # opts)" using that by (simp add: opts_wf_def)
  { case 1
    then have "find_option opts (opt_name opt) = None"
      by (auto simp: opts_wf_def find_option_None)
    with 1 Cons.IH(1) [OF tl [OF 1]] show ?case
      by (auto simp: find_option_def split: prod.split) }
  { case 2
    with Cons.IH(2) [OF tl [OF 2]] show ?case by (auto simp: find_option_def split: prod.split) }
qed

lemma find_set_option:
  "find_option (fst (set_option name value type opts)) name' =
     (if name' = name
      then Some ((the (find_option (add_option opts name) name))
             \<lparr>opt_type := type, opt_values := (case set_option_values value type of None \<Rightarrow> [] | Some vs \<Rightarrow> vs)\<rparr>)
      else find_option opts name')"
  by (auto simp: set_option_def Let_def find_update_option find_add_option free_values_def
      split: option.split)

lemma set_option_rc: "snd (set_option name value type opts) = (if set_option_values value type = None then 1 else 0)"
  by (simp add: set_option_def Let_def split: option.split)

lemma fold_add_value: "fold (\<lambda>t vs. add_value vs t) ts vs = vs @ map new_value ts"
  by (induction ts arbitrary: vs) (simp_all add: add_value_def)

section \<open>Sizes\<close>

lemma of_char_digit:
  assumes "is_digit c"
  shows "res * 10 + of_char c - of_char (CHR ''0'') = res * 10 + (of_nat (digit_val c) :: u64)"
proof -
  have "48 \<le> (of_char c :: nat)" using assms by (simp add: is_digit_def less_eq_char_def)
  then have "(of_char c :: nat) = digit_val c + 48" by (simp add: digit_val_def)
  then have "(of_nat (of_char c) :: u64) = of_nat (digit_val c) + 48" by simp
  then have "(of_char c :: u64) = of_nat (digit_val c) + 48" by (simp only: of_nat_of_char)
  then show ?thesis by simp
qed

lemma size_scan_digits:
  "list_all is_digit ds \<Longrightarrow> ds \<noteq> [] \<or> rc = 1 \<Longrightarrow>
   size_scan (ds @ rest) rc (of_nat n) =
   size_scan rest 1 (of_nat (fold (\<lambda>c v. v * 10 + digit_val c) ds n))"
proof (induction ds arbitrary: rc n)
  case (Cons d ds)
  have "of_nat n * 10 + of_char d - of_char (CHR ''0'') = (of_nat (n * 10 + digit_val d) :: u64)"
    using of_char_digit [of d "of_nat n"] Cons.prems by simp
  then show ?case
    using Cons.IH [of 1 "n * 10 + digit_val d"] Cons.prems by (simp del: of_nat_add of_nat_mult)
qed simp

lemma size_scan_dec: "size_scan (dec n @ rest) 0 0 = size_scan rest 1 (of_nat n)"
  using size_scan_digits [OF dec_digits, of n 0 rest 0] dec_val_dec [of n]
  by (simp add: dec_val_def)

lemma size_shift_eq: "size_shift k res = res * 1024 ^ k"
  by (induction k arbitrary: res) simp_all

lemma size_of_dec: "size_of_string (dec n) = of_nat n"
  using size_scan_dec [of n "[]"] by (simp add: size_of_string_def)

lemma size_of_dec_mod:
  assumes "k < length sizemods"
  shows "size_of_string (dec n @ sizemods ! k # rest) = of_nat n * 1024 ^ (k + 1)"
proof -
  from assms consider "k = 0" | "k = 1" | "k = 2" | "k = 3" by (force simp: sizemods_def)
  then have "\<not> is_digit (sizemods ! k) \<and>
      length (takeWhile (\<lambda>m. m \<noteq> sizemods ! k) sizemods) = k"
    by cases (simp_all add: sizemods_def is_digit_def less_eq_char_def)
  then show ?thesis
    using assms by (simp add: size_of_string_def size_scan_dec size_shift_eq)
qed

text \<open>The printed number and its suffix denote the value as long as it is below 1024 T.\<close>

lemma size_scale_inv:
  "size_scale k v i = (j, w) \<Longrightarrow> i \<le> j \<and> j \<le> i + k \<and> w * 1024 ^ (j - i) = v"
proof (induction k v i rule: size_scale.induct)
  case (2 k v i)
  show ?case
  proof (cases "v \<ge> 1024")
    case True
    with 2 have *: "i + 1 \<le> j \<and> j \<le> i + 1 + k \<and> w * 1024 ^ (j - (i + 1)) = v / 1024" by simp
    then have "j - i = Suc (j - (i + 1))" by linarith
    with * show ?thesis by (simp add: field_simps)
  qed (use 2 in simp)
qed simp

lemma size_scale_small: "v < 1024 ^ k \<Longrightarrow> size_scale k v i = (j, w) \<Longrightarrow> k > 0 \<Longrightarrow> w < 1024 \<and> j < i + k"
proof (induction k v i rule: size_scale.induct)
  case (2 k v i)
  show ?case
  proof (cases "v \<ge> 1024")
    case True
    then have "k > 0" using 2(2) by (cases k) simp_all
    with True 2 show ?thesis by (auto simp: field_simps)
  qed (use 2 in auto)
qed simp

lemma size_scale_large: "v \<ge> 1024 ^ k \<Longrightarrow> size_scale k v i = (i + k, v / 1024 ^ k)"
proof (induction k v i rule: size_scale.induct)
  case (2 k v i)
  have "(1024::real) \<le> 1024 ^ Suc k" by simp
  then have "v \<ge> 1024" using 2(2) by linarith
  moreover have "1024 ^ k \<le> v / 1024" using 2(2) by (simp add: field_simps)
  ultimately show ?case using 2(1) by simp
qed simp

section \<open>Reading configuration files\<close>

definition plain_char :: "char \<Rightarrow> bool" where
  "plain_char c \<longleftrightarrow> \<not> isspace c \<and> c \<notin> {COMMENT_CHAR, CHR 0x27, CHR 0x22, VALUE_SEPARATOR}"

lemma read_values_plain_diverges:
  "plain_char c \<Longrightarrow> read_values n (c # cs) vs = Still_running"
proof (induction n arbitrary: cs vs)
  case (Suc n)
  have "c \<noteq> VALUE_SEPARATOR" using Suc.prems by (simp add: plain_char_def)
  with Suc show ?case by (simp add: plain_char_def Let_def)
qed simp

lemma read_values_spaces:
  "list_all isspace ss \<Longrightarrow> plain_char c \<Longrightarrow> read_values n (ss @ c # cs) vs = Still_running"
proof (induction ss arbitrary: n)
  case Nil
  then show ?case by (simp add: read_values_plain_diverges)
next
  case (Cons x ss)
  then show ?case by (cases n) simp_all
qed

text \<open>A quoted value and the separator after it are consumed.\<close>

lemma read_values_quoted:
  assumes "qc = CHR 0x27 \<or> qc = CHR 0x22" and "qc \<notin> set v"
  shows "read_values (Suc n) (qc # v @ qc # VALUE_SEPARATOR # rest) vs = read_values n rest (add_value vs v)"
    and "read_values (Suc n) (qc # v @ [qc]) vs = Done (add_value vs v)"
proof -
  have tw: "takeWhile (\<lambda>x. x \<noteq> qc) (v @ qc # ys) = v" "dropWhile (\<lambda>x. x \<noteq> qc) (v @ qc # ys) = qc # ys" for ys
    using assms(2) by (induction v) auto
  have "\<not> isspace qc" "qc \<noteq> COMMENT_CHAR" using assms(1) by (auto simp: isspace_def sb_opt_consts)
  with assms(1) tw show "read_values (Suc n) (qc # v @ qc # VALUE_SEPARATOR # rest) vs = read_values n rest (add_value vs v)"
    "read_values (Suc n) (qc # v @ [qc]) vs = Done (add_value vs v)"
    by auto
qed

declare read_values.simps(3) [simp del]

fun quoted_list :: "char \<Rightarrow> string list \<Rightarrow> string" where
  "quoted_list qc [] = []"
| "quoted_list qc [v] = qc # v @ [qc]"
| "quoted_list qc (v # vs) = qc # v @ qc # VALUE_SEPARATOR # quoted_list qc vs"

lemma read_values_quoted_list:
  assumes "qc = CHR 0x27 \<or> qc = CHR 0x22" and "\<And>v. v \<in> set ts \<Longrightarrow> qc \<notin> set v" and "length ts \<le> n"
  shows "read_values n (quoted_list qc ts) vs = Done (vs @ map new_value ts)"
  using assms
proof (induction qc ts arbitrary: n vs rule: quoted_list.induct)
  case (2 qc v)
  then obtain m where "n = Suc m" by (cases n) auto
  with 2 show ?case using read_values_quoted(2) [of qc v m vs] by (simp add: add_value_def)
next
  case (3 qc v v' ts)
  then obtain m where n: "n = Suc m" by (cases n) auto
  have "read_values n (quoted_list qc (v # v' # ts)) vs =
      read_values m (quoted_list qc (v' # ts)) (add_value vs v)"
    using read_values_quoted(1) [OF 3(2), of v m "quoted_list qc (v' # ts)" vs] 3(3) n by simp
  also have "\<dots> = Done (add_value vs v @ map new_value (v' # ts))"
    using 3 n by (intro 3(1)) simp_all
  finally show ?case by (simp add: add_value_def)
qed simp

lemma read_config_name_line:
  assumes "VALUE_DELIMITER \<notin> set name"
  shows "read_config n ((name @ VALUE_DELIMITER # tmp) # bufs) opts =
     (let opts = add_option opts name
      in case read_values n tmp (opt_values (the (find_option opts name))) of
           Still_running \<Rightarrow> Still_running
         | Failed \<Rightarrow> Failed
         | Done vs \<Rightarrow> read_config n bufs (update_option name (\<lambda>opt. opt\<lparr>opt_values := vs\<rparr>) opts))"
proof -
  have "takeWhile (\<lambda>x. x \<noteq> VALUE_DELIMITER) (name @ VALUE_DELIMITER # tmp) = name"
    "dropWhile (\<lambda>x. x \<noteq> VALUE_DELIMITER) (name @ VALUE_DELIMITER # tmp) = VALUE_DELIMITER # tmp"
    using assms by (induction name) auto
  then show ?thesis by simp
qed

section \<open>Properties\<close>

text \<open>
  Registering options is a well-behaved map update: \<open>set_option\<close> keeps option names unique,
  the option it names gets the new type and values, every other option is found as before, and
  the return code is 1 exactly for an unknown type with a non-empty value.
\<close>

theorem set_option_lookup:
  assumes "opts_wf opts"
  shows "opts_wf (fst (set_option name value type opts)) \<and>
    (\<exists>opt. find_option (fst (set_option name value type opts)) name = Some opt \<and>
       opt_name opt = name \<and> opt_type opt = type \<and>
       opt_values opt = (case set_option_values value type of None \<Rightarrow> [] | Some vs \<Rightarrow> vs)) \<and>
    (\<forall>other. other \<noteq> name \<longrightarrow>
       find_option (fst (set_option name value type opts)) other = find_option opts other) \<and>
    (snd (set_option name value type opts) = 1 \<longleftrightarrow>
       type = SB_ARG_TYPE_NULL \<and> value \<noteq> None \<and> value \<noteq> Some [])"
proof -
  have "set_option_values value type = None \<longleftrightarrow>
      type = SB_ARG_TYPE_NULL \<and> value \<noteq> None \<and> value \<noteq> Some []"
    by (cases type) (auto simp: set_option_values_def)
  moreover obtain opt where "find_option (add_option opts name) name = Some opt" "opt_name opt = name"
    using find_option_name by (cases "find_option opts name") (auto simp: find_add_option new_option_def)
  ultimately show ?thesis
    using set_option_wf [OF assms] by (simp add: find_set_option set_option_rc)
qed

theorem set_option_lookup_witness:
  "find_option (fst (set_option ''b'' (Some ''on'') SB_ARG_TYPE_FLAG [new_option ''a''])) ''a'' =
   Some (new_option ''a'')"
proof -
  have "opts_wf [new_option ''a'']" by (simp add: opts_wf_def)
  from set_option_lookup [OF this, of "''b''" "Some ''on''" SB_ARG_TYPE_FLAG]
  have "find_option (fst (set_option ''b'' (Some ''on'') SB_ARG_TYPE_FLAG [new_option ''a''])) ''a'' =
      find_option [new_option ''a''] ''a''" by simp
  then show ?thesis by (simp add: find_option_def new_option_def)
qed

text \<open>
  C30: Typed round trips through the option store: a number, a number with a size suffix, and a
  list of non-empty elements without separators come back as they were given; sizes are
  computed modulo 2 to the 64.
\<close>

theorem option_value_roundtrips:
  "(n < 2 ^ 31 \<longrightarrow>
      sb_get_value_int name (fst (set_option name (Some (dec n)) SB_ARG_TYPE_INT opts)) = Some (int n)) \<and>
   sb_get_value_size name (fst (set_option name (Some (dec n)) SB_ARG_TYPE_SIZE opts)) = of_nat n \<and>
   (k < length sizemods \<longrightarrow>
      sb_get_value_size name
        (fst (set_option name (Some (dec n @ [sizemods ! k])) SB_ARG_TYPE_SIZE opts)) =
      of_nat n * 1024 ^ (k + 1)) \<and>
   (ts \<noteq> [] \<and> (\<forall>t \<in> set ts. t \<noteq> [] \<and> VALUE_SEPARATOR \<notin> set t) \<longrightarrow>
      sb_get_value_list name (fst (set_option name (Some (join VALUE_SEPARATOR ts)) SB_ARG_TYPE_LIST opts)) =
      Some (map new_value ts))"
proof (intro conjI impI)
  show "sb_get_value_int name (fst (set_option name (Some (dec n)) SB_ARG_TYPE_INT opts)) = Some (int n)"
    if "n < 2 ^ 31"
    using atoi_dec [OF that]
    by (simp add: sb_get_value_int_def find_set_option set_option_values_def add_value_def new_value_def)
  show "sb_get_value_size name (fst (set_option name (Some (dec n)) SB_ARG_TYPE_SIZE opts)) = of_nat n"
    by (simp add: sb_get_value_size_def find_set_option set_option_values_def add_value_def
        new_value_def size_of_dec)
  show "sb_get_value_size name
      (fst (set_option name (Some (dec n @ [sizemods ! k])) SB_ARG_TYPE_SIZE opts)) =
      of_nat n * 1024 ^ (k + 1)" if "k < length sizemods"
    using size_of_dec_mod [OF that, of n "[]"]
    by (simp add: sb_get_value_size_def find_set_option set_option_values_def add_value_def new_value_def)
  assume ts: "ts \<noteq> [] \<and> (\<forall>t \<in> set ts. t \<noteq> [] \<and> VALUE_SEPARATOR \<notin> set t)"
  then have "join VALUE_SEPARATOR ts \<noteq> []" by (cases "(VALUE_SEPARATOR, ts)" rule: join.cases) auto
  with ts strtok_join [of ts VALUE_SEPARATOR] show
    "sb_get_value_list name (fst (set_option name (Some (join VALUE_SEPARATOR ts)) SB_ARG_TYPE_LIST opts)) =
     Some (map new_value ts)"
    by (simp add: sb_get_value_list_def find_set_option set_option_values_def fold_add_value)
qed

theorem option_value_roundtrips_witness:
  "sb_get_value_size ''size'' (fst (set_option ''size'' (Some (dec 16 @ [sizemods ! 1])) SB_ARG_TYPE_SIZE [])) =
   16 * 1024 ^ 2"
  using option_value_roundtrips [of 16 "''size''" "[]" 1 "[]"] by (simp add: sizemods_def)

text \<open>
  \<open>sb_print_value_size\<close> shows a value below 1024 T exactly, as a number below 1024 with the
  suffix of its scale; from 1024 T on it selects the terminating NUL of \<open>sizemods\<close> as the suffix.
\<close>

theorem sb_print_value_size_exact:
  assumes "0 \<le> value"
  shows "if value < 1024 ^ 5
    then \<exists>v i. i \<le> 4 \<and> v < 1024 \<and> v * 1024 ^ i = value \<and>
      sb_print_value_size value = (v, if i = 0 then None else Some (sizemods ! (i - 1)))
    else snd (sb_print_value_size value) = Some (CHR 0x00)"
proof -
  have len: "length sizemods + 1 = 5" by (simp add: sizemods_def)
  obtain i v where s: "size_scale 5 value 0 = (i, v)" by fastforce
  show ?thesis
  proof (cases "value < 1024 ^ 5")
    case True
    have "v < 1024" "i < 5" using size_scale_small [OF True s] by simp_all
    moreover have "v * 1024 ^ i = value" using size_scale_inv [OF s] by simp
    moreover have "sb_print_value_size value = (v, if i = 0 then None else Some (sizemods ! (i - 1)))"
      using s \<open>i < 5\<close> len by (auto simp: sb_print_value_size_def nth_append Let_def)
    ultimately have "\<exists>v i. i \<le> 4 \<and> v < 1024 \<and> v * 1024 ^ i = value \<and>
      sb_print_value_size value = (v, if i = 0 then None else Some (sizemods ! (i - 1)))"
      by (intro exI [of _ v] exI [of _ i]) simp
    with True show ?thesis by (simp only: if_True)
  next
    case False
    then have "size_scale 5 value 0 = (5, value / 1024 ^ 5)" using size_scale_large [of 5 "value" 0] by simp
    with False len show ?thesis by (simp add: sb_print_value_size_def nth_append sizemods_def)
  qed
qed

theorem sb_print_value_size_exact_witness:
  "snd (sb_print_value_size (1024 ^ 5)) = Some (CHR 0x00)"
  using sb_print_value_size_exact [of "1024 ^ 5"] by simp

text \<open>
  Quoted values are read back: \<open>read_config\<close> on a line with a name, the delimiter and a list
  of quoted values terminates and stores exactly these values, in order.
\<close>

theorem read_config_quoted:
  assumes "VALUE_DELIMITER \<notin> set name" and "qc = CHR 0x27 \<or> qc = CHR 0x22"
    and "\<And>v. v \<in> set ts \<Longrightarrow> qc \<notin> set v" and "length ts \<le> n"
  shows "read_config n [name @ VALUE_DELIMITER # quoted_list qc ts] [] =
    Done [(new_option name)\<lparr>opt_values := map new_value ts\<rparr>]"
  using read_values_quoted_list [OF assms(2-4), of "[]"]
  unfolding read_config_name_line [OF assms(1)]
  by (simp add: add_option_def find_option_def new_option_def)

theorem read_config_quoted_witness:
  "read_config 2 [''a'' @ VALUE_DELIMITER # quoted_list (CHR 0x22) [''x'', ''y z'']] [] =
   Done [(new_option ''a'')\<lparr>opt_values := map new_value [''x'', ''y z'']\<rparr>]"
  by (rule read_config_quoted) (auto simp: sb_opt_consts)

text \<open>
  C31: An unquoted value makes \<open>read_config\<close> loop forever, since the branch for it never advances
  past the value; in particular the reader never returns on what \<open>write_config\<close> writes for an
  option whose first value starts with an ordinary character.
\<close>

theorem read_config_unquoted_diverges:
  assumes "VALUE_DELIMITER \<notin> set (opt_name opt)" and "opt_values opt = v # vs"
    and "val_data v = c # cs" and "\<not> val_ignore v" and "plain_char c"
  shows "read_config n (write_option opt # bufs) opts = Still_running"
proof -
  obtain tmp where w: "write_option opt = (opt_name opt @ '' '') @ VALUE_DELIMITER # ('' '' @ c # tmp)"
    using assms(2-4) by (simp add: write_option_def)
  have d: "VALUE_DELIMITER \<notin> set (opt_name opt @ '' '')" using assms(1) by (simp add: sb_opt_consts)
  have "read_values n ('' '' @ c # tmp) ws = Still_running" for ws
    by (rule read_values_spaces) (simp_all add: isspace_def assms(5))
  then show ?thesis unfolding w read_config_name_line [OF d] by (simp add: Let_def)
qed

theorem read_config_unquoted_diverges_witness:
  "read_config 1000 [write_option ((new_option ''a'')\<lparr>opt_values := [new_value ''1'']\<rparr>)] [] = Still_running"
  by (rule read_config_unquoted_diverges [where c = "CHR ''1''" and cs = "[]" and vs = "[]"
        and v = "new_value ''1''"])
    (simp_all add: sb_opt_consts new_option_def new_value_def plain_char_def isspace_def)

end
