(* ===== verification/SbGlobals.thy ===== *)
theory SbGlobals
  imports SbTimer SbOptions
begin

text \<open>
  The types that \<open>sysbench.h\<close> declares and every part of sysbench shares: commands, request types
  and the global variables, and the pseudo random numbers of \<open>sb_rnd\<close> (\<open>srand48\<close> and \<open>lrand48\<close>, with
  the generator the POSIX standard fixes).
\<close>

section \<open>Types and globals\<close>

datatype sb_cmd =
  SB_COMMAND_NULL | SB_COMMAND_PREPARE | SB_COMMAND_RUN | SB_COMMAND_CLEANUP | SB_COMMAND_HELP
| SB_COMMAND_VERSION

datatype sb_request_type =
  SB_REQ_TYPE_NULL | SB_REQ_TYPE_CPU | SB_REQ_TYPE_MEMORY | SB_REQ_TYPE_FILE | SB_REQ_TYPE_SQL
| SB_REQ_TYPE_THREADS | SB_REQ_TYPE_MUTEX

text \<open>The mutex \<open>exec_mutex\<close> has no field here.\<close>

record sb_globals =
  command :: sb_cmd
  error :: int
  op_timers :: "sb_timer list"
  exec_timer :: sb_timer
  num_threads :: u32
  max_requests :: u32
  max_time_limit :: u32
  force_shutdown :: bool
  timeout :: u32
  debug :: bool
  validate :: bool

section \<open>Random numbers\<close>

definition SB_MAX_RND :: nat where "SB_MAX_RND = 0x3fffffff"

definition sb_srnd :: "int \<Rightarrow> 48 word" where
  "sb_srnd seed = push_bit 16 (word_of_int seed) + 0x330E"

definition lrand48 :: "48 word \<Rightarrow> nat \<times> 48 word" where
  "lrand48 x = (let x' = x * 0x5DEECE66D + 0xB in (unat (drop_bit 17 x'), x'))"

definition sb_rnd :: "48 word \<Rightarrow> nat \<times> 48 word" where
  "sb_rnd x = (let (r, x') = lrand48 x in (r mod SB_MAX_RND, x'))"

lemma sb_rnd_less: "fst (sb_rnd x) < SB_MAX_RND"
  by (simp add: sb_rnd_def SB_MAX_RND_def split: prod.split)

end
