(* ===== verification/SbLogger.thy ===== *)
theory SbLogger
  imports SbGlobals
begin

text \<open>
  The logger of sysbench (\<open>sb_logger.c\<close>, \<open>sb_logger.h\<close>): the chains of handlers, text messages with
  the suppression of repeated lines, and the operations handler with its histogram of response
  times on a logarithmic scale.  What is printed is a list of lines in the state.  Floating point
  numbers are reals, and \<open>pf w p x\<close> is the text of \<open>x\<close> with width \<open>w\<close> and \<open>p\<close> decimals.
  \<open>stamp n\<close> is the time stamp \<open>strftime\<close> makes for the \<open>n\<close>-th message.  The two
  built-in handlers are the only ones, and each is on the chain of its own type of messages, so
  that a handler never sees a message of the other type.
\<close>

section \<open>Data\<close>

definition TEXT_BUFFER_SIZE :: nat where "TEXT_BUFFER_SIZE = 4096"
definition OPER_LOG_GRANULARITY :: nat where "OPER_LOG_GRANULARITY = 100000"
definition OPER_LOG_MIN_VALUE :: real where "OPER_LOG_MIN_VALUE = 1"
definition OPER_LOG_MAX_VALUE :: real where "OPER_LOG_MAX_VALUE = 10 ^ 13"

datatype log_msg_type = LOG_MSG_TYPE_MIN | LOG_MSG_TYPE_TEXT | LOG_MSG_TYPE_OPER | LOG_MSG_TYPE_MAX

datatype log_msg_priority = LOG_FATAL | LOG_ALERT | LOG_WARNING | LOG_NOTICE | LOG_INFO | LOG_DEBUG

definition priority_code :: "log_msg_priority \<Rightarrow> u8" where
  "priority_code p =
     (case p of LOG_FATAL \<Rightarrow> 0 | LOG_ALERT \<Rightarrow> 1 | LOG_WARNING \<Rightarrow> 2 | LOG_NOTICE \<Rightarrow> 3
              | LOG_INFO \<Rightarrow> 4 | LOG_DEBUG \<Rightarrow> 5)"

record text_message =
  priority :: log_msg_priority
  msg_text :: string

datatype log_msg_oper_action = LOG_MSG_OPER_START | LOG_MSG_OPER_STOP

record oper_message =
  action :: log_msg_oper_action
  oper_timer :: sb_timer

datatype log_handler = Text_handler | Oper_handler

datatype batch_status = BATCH_STATUS_START | BATCH_STATUS_STOP

text \<open>What \<open>printf\<close> is called with: a message with its prefix, the line on repetitions, or raw text.\<close>

datatype out_line = Message string string | Repeated u32 | Raw string

record logger =
  handlers :: "log_msg_type \<Rightarrow> log_handler list"
  initialized :: bool
  verbosity :: u8
  log_timestamp :: bool
  batch_mode :: bool
  batch_delay :: u32
  oper_time_warning :: bool
  operations :: "nat \<Rightarrow> u32"
  oper_log_deduct :: real
  oper_log_mult :: real
  oper_percentile :: u32
  batch_status :: batch_status
  text_cnt :: u32
  text_buf :: string
  msg_seq :: nat
  out :: "out_line list"

datatype log_fault = Buffer_overflow | Index_out_of_bounds | Undefined_conversion | Log_abort

definition text_handler_args :: "sb_arg list" where
  "text_handler_args =
     [\<lparr>arg_name = ''verbosity'', arg_desc = ''verbosity level {5 - debug, 0 - only critical messages}'',
       arg_type = SB_ARG_TYPE_INT, arg_value = Some ''4''\<rparr>]"

definition oper_handler_args :: "sb_arg list" where
  "oper_handler_args =
     [\<lparr>arg_name = ''percentile'', arg_desc = ''percentile rank of query response times to count'',
       arg_type = SB_ARG_TYPE_INT, arg_value = Some ''95''\<rparr>,
      \<lparr>arg_name = ''batch'', arg_desc = ''dump current stats periodically instead of final ones'',
       arg_type = SB_ARG_TYPE_FLAG, arg_value = Some ''off''\<rparr>,
      \<lparr>arg_name = ''batch-delay'', arg_desc = ''delay between batch dumps in seconds'',
       arg_type = SB_ARG_TYPE_INT, arg_value = Some ''300''\<rparr>]"

definition handler_args :: "log_handler \<Rightarrow> sb_arg list" where
  "handler_args h = (case h of Text_handler \<Rightarrow> text_handler_args | Oper_handler \<Rightarrow> oper_handler_args)"

section \<open>Registration\<close>

definition log_add_handler ::
  "log_msg_type \<Rightarrow> log_handler \<Rightarrow> logger \<times> option_t list \<Rightarrow> int \<times> logger \<times> option_t list" where
  "log_add_handler type handler = (\<lambda>(L, opts).
     if type = LOG_MSG_TYPE_MIN \<or> type = LOG_MSG_TYPE_MAX then (1, L, opts)
     else (0, L\<lparr>handlers := (handlers L)(type := handlers L type @ [handler])\<rparr>,
           fst (sb_register_arg_set (handler_args handler) opts)))"

definition log_register :: "logger \<times> option_t list \<Rightarrow> int \<times> logger \<times> option_t list" where
  "log_register = (\<lambda>(L, opts).
     let L = L\<lparr>handlers := (\<lambda>_. [])\<rparr>;
         (_, s) = log_add_handler LOG_MSG_TYPE_TEXT Text_handler (L, opts);
         (_, s) = log_add_handler LOG_MSG_TYPE_OPER Oper_handler s
     in (0, s))"

section \<open>Text messages\<close>

definition text_prefix :: "log_msg_priority \<Rightarrow> string" where
  "text_prefix p =
     (case p of LOG_FATAL \<Rightarrow> ''FATAL: '' | LOG_ALERT \<Rightarrow> ''ALERT: '' | LOG_WARNING \<Rightarrow> ''WARNING: ''
              | LOG_DEBUG \<Rightarrow> ''DEBUG: '' | _ \<Rightarrow> [])"

text \<open>
  The handler of one message at a time.  The code compares and copies under \<open>text_mutex\<close> and prints the message
  after it has released it, so lines of several threads may come out in another order than here.  Nothing
  prints repetitions that are pending when the process ends: the text handler has no \<open>done\<close> operation.
\<close>

definition text_handler_process :: "text_message \<Rightarrow> logger \<Rightarrow> logger" where
  "text_handler_process msg L =
     (if priority_code (priority msg) > verbosity L then L
      else if text_buf L = msg_text msg then L\<lparr>text_cnt := text_cnt L + 1\<rparr>
      else
        (let L = (if text_cnt L > 0 then L\<lparr>out := out L @ [Repeated (text_cnt L)]\<rparr> else L);
             L = L\<lparr>text_cnt := 0, text_buf := take TEXT_BUFFER_SIZE (msg_text msg)\<rparr>
         in L\<lparr>out := out L @ [Message (text_prefix (priority msg)) (msg_text msg)]\<rparr>))"

text \<open>\<open>log_msg\<close> on a text message.\<close>

definition log_msg_text :: "text_message \<Rightarrow> logger \<Rightarrow> logger" where
  "log_msg_text msg L =
     fold (\<lambda>h L. case h of Text_handler \<Rightarrow> text_handler_process msg L | Oper_handler \<Rightarrow> L)
       (handlers L LOG_MSG_TYPE_TEXT) L"

text \<open>The buffer \<open>log_text\<close> builds from a time stamp (or none) and the formatted message.\<close>

definition log_buffer :: "string \<Rightarrow> string \<Rightarrow> string" where
  "log_buffer pre text =
     (let maxlen = TEXT_BUFFER_SIZE - length pre;
          (body, n) = snprintf maxlen text;
          n = (if n \<ge> int maxlen then maxlen else nat n);
          (nl, _) = snprintf (maxlen - n) [CHR 0x0A]
      in pre @ body @ nl)"

definition log_text :: "(nat \<Rightarrow> string) \<Rightarrow> log_msg_priority \<Rightarrow> string \<Rightarrow> logger \<Rightarrow> logger" where
  "log_text stamp p text L =
     (let pre = (if log_timestamp L then stamp (msg_seq L) else []);
          buf = log_buffer pre text;
          L = L\<lparr>msg_seq := msg_seq L + 1\<rparr>
      in if \<not> initialized L then L\<lparr>out := out L @ [Raw buf]\<rparr>
         else log_msg_text \<lparr>priority = p, msg_text = buf\<rparr> L)"

text \<open>
  \<open>log_errno\<close>: \<open>suffix\<close> is the formatted \<open>errno\<close>.  The size of the second \<open>snprintf\<close> is the unsigned
  difference, so a message longer than the buffer writes behind it.
\<close>

definition log_errno ::
  "(nat \<Rightarrow> string) \<Rightarrow> log_msg_priority \<Rightarrow> string \<Rightarrow> string \<Rightarrow> logger \<Rightarrow> log_fault + logger" where
  "log_errno stamp p text suffix L =
     (let (buf, n) = snprintf TEXT_BUFFER_SIZE text
      in if n = int TEXT_BUFFER_SIZE then Inr L
         else if n > int TEXT_BUFFER_SIZE then Inl Buffer_overflow
         else (let (rest, _) = snprintf (TEXT_BUFFER_SIZE - nat n) suffix
               in Inr (log_text stamp p (buf @ rest) L)))"

definition text_handler_init :: "option_t list \<Rightarrow> logger \<Rightarrow> log_fault + int \<times> logger" where
  "text_handler_init opts L =
     (case sb_get_value_int ''verbosity'' opts of
        None \<Rightarrow> Inl Undefined_conversion
      | Some v \<Rightarrow>
          (let L = L\<lparr>verbosity := word_of_int v\<rparr>
           in if verbosity L > priority_code LOG_DEBUG
              then Inr (1, L\<lparr>out := out L @ [Raw (''Invalid value for verbosity: '' @ dec (unat (verbosity L)) @ [CHR 0x0A])]\<rparr>)
              else Inr (0, L\<lparr>text_cnt := 0, text_buf := []\<rparr>)))"

section \<open>Operation messages\<close>

text \<open>\<open>thread_err\<close>: the error text of \<open>pthread_create\<close> for the batch thread, if it fails.\<close>

definition oper_handler_init ::
  "(nat \<Rightarrow> string) \<Rightarrow> string option \<Rightarrow> option_t list \<Rightarrow> logger \<Rightarrow> log_fault + int \<times> logger" where
  "oper_handler_init stamp thread_err opts L =
     (case (sb_get_value_int ''percentile'' opts, sb_get_value_int ''batch-delay'' opts) of
        (Some pc, delay) \<Rightarrow>
          (let L = L\<lparr>oper_percentile := word_of_int pc\<rparr>
           in if oper_percentile L < 1 \<or> oper_percentile L > 100
              then Inr (1, log_text stamp LOG_FATAL (''Invalid value for percentile option: '' @ show_int (sint (oper_percentile L))) L)
              else
                (case delay of
                   None \<Rightarrow> Inl Undefined_conversion
                 | Some d \<Rightarrow>
                     (let L = L\<lparr>oper_log_deduct := ln OPER_LOG_MIN_VALUE\<rparr>;
                          L = L\<lparr>oper_log_mult := (real OPER_LOG_GRANULARITY - 1) /
                                                   (ln OPER_LOG_MAX_VALUE - oper_log_deduct L)\<rparr>;
                          L = L\<lparr>batch_mode := sb_get_value_flag ''batch'' opts\<rparr>;
                          L = (if batch_mode L then L\<lparr>log_timestamp := True\<rparr> else L);
                          L = L\<lparr>batch_delay := word_of_int d\<rparr>
                      in if batch_mode L
                         then (case thread_err of
                                 None \<Rightarrow> Inr (0, L\<lparr>batch_status := BATCH_STATUS_STOP\<rparr>)
                               | Some e \<Rightarrow> Inr (1, log_text stamp LOG_FATAL (''Batch thread creation failed, errno = '' @ e) L))
                         else Inr (0, L))))
      | (None, _) \<Rightarrow> Inl Undefined_conversion)"

definition handler_init ::
  "(nat \<Rightarrow> string) \<Rightarrow> string option \<Rightarrow> option_t list \<Rightarrow> log_handler \<Rightarrow> logger \<Rightarrow> log_fault + int \<times> logger" where
  "handler_init stamp thread_err opts h L =
     (case h of Text_handler \<Rightarrow> text_handler_init opts L
              | Oper_handler \<Rightarrow> oper_handler_init stamp thread_err opts L)"

fun init_chain ::
  "(nat \<Rightarrow> string) \<Rightarrow> string option \<Rightarrow> option_t list \<Rightarrow> log_handler list \<Rightarrow> logger \<Rightarrow> log_fault + int \<times> logger" where
  "init_chain stamp thread_err opts [] L = Inr (0, L)"
| "init_chain stamp thread_err opts (h # hs) L =
     bind_res (handler_init stamp thread_err opts h L)
       (\<lambda>(rc, L). if rc \<noteq> 0 then Inr (1, L) else init_chain stamp thread_err opts hs L)"

definition log_init :: "(nat \<Rightarrow> string) \<Rightarrow> string option \<Rightarrow> option_t list \<Rightarrow> logger \<Rightarrow> log_fault + int \<times> logger" where
  "log_init stamp thread_err opts L =
     bind_res (init_chain stamp thread_err opts
                 (concat (map (handlers L) [LOG_MSG_TYPE_MIN, LOG_MSG_TYPE_TEXT, LOG_MSG_TYPE_OPER])) L)
       (\<lambda>(rc, L). if rc \<noteq> 0 then Inr (1, L) else Inr (0, L\<lparr>initialized := True\<rparr>))"

text \<open>The one-time warning on a time outside of the counted range.\<close>

definition warn_once :: "(nat \<Rightarrow> string) \<Rightarrow> string \<Rightarrow> logger \<Rightarrow> logger" where
  "warn_once stamp text L =
     (if oper_time_warning L then L
      else (log_text stamp LOG_WARNING ''Percentile statistics will be inaccurate''
             (log_text stamp LOG_WARNING text L))\<lparr>oper_time_warning := True\<rparr>)"

definition oper_cell :: "real \<Rightarrow> logger \<Rightarrow> int" where
  "oper_cell optime L = \<lfloor>(ln optime - oper_log_deduct L) * oper_log_mult L + 1 / 2\<rfloor>"

definition count_operation :: "(nat \<Rightarrow> string) \<Rightarrow> (nat \<Rightarrow> nat \<Rightarrow> real \<Rightarrow> string) \<Rightarrow> real \<Rightarrow> logger \<Rightarrow> log_fault + logger" where
  "count_operation stamp pf optime L =
     (let (optime, L) =
        (if optime < OPER_LOG_MIN_VALUE then
           (OPER_LOG_MIN_VALUE, warn_once stamp (''Operation time ('' @ pf 0 6 optime @ '') is less than minimal counted value, counting as '' @
             pf 0 6 OPER_LOG_MIN_VALUE) L)
         else if optime > OPER_LOG_MAX_VALUE then
           (OPER_LOG_MAX_VALUE, warn_once stamp (''Operation time ('' @ pf 0 6 optime @ '') is greater than maximal counted value, counting as '' @
             pf 0 6 OPER_LOG_MAX_VALUE) L)
         else (optime, L));
        ncell = oper_cell optime L
      in if ncell < 0 \<or> ncell \<ge> int OPER_LOG_GRANULARITY then Inl Index_out_of_bounds
         else Inr (L\<lparr>operations := (operations L)(nat ncell := operations L (nat ncell) + 1)\<rparr>))"

text \<open>\<open>now\<close> is the time the clock shows.\<close>

definition oper_handler_process ::
  "(nat \<Rightarrow> string) \<Rightarrow> (nat \<Rightarrow> nat \<Rightarrow> real \<Rightarrow> string) \<Rightarrow> timespec \<Rightarrow> oper_message \<Rightarrow> logger \<Rightarrow> log_fault + oper_message \<times> logger" where
  "oper_handler_process stamp pf now msg L =
     (let L = (if batch_mode L \<and> batch_status L \<noteq> BATCH_STATUS_START
               then L\<lparr>batch_status := BATCH_STATUS_START\<rparr> else L)
      in if action msg = LOG_MSG_OPER_START then
           (case sb_timer_start now (sb_timer_init (oper_timer msg)) of
              Inl _ \<Rightarrow> Inl Log_abort
            | Inr (t, _) \<Rightarrow> Inr (msg\<lparr>oper_timer := t\<rparr>, L))
         else
           (case sb_timer_current now (oper_timer msg) of
              Inl _ \<Rightarrow> Inl Log_abort
            | Inr t \<Rightarrow> bind_res (count_operation stamp pf (real (unat t)) L) (\<lambda>L. Inr (msg, L))))"

text \<open>\<open>log_msg\<close> on an operation message.\<close>

fun oper_chain ::
  "(nat \<Rightarrow> string) \<Rightarrow> (nat \<Rightarrow> nat \<Rightarrow> real \<Rightarrow> string) \<Rightarrow> timespec \<Rightarrow> log_handler list \<Rightarrow> oper_message \<Rightarrow> logger \<Rightarrow> log_fault + oper_message \<times> logger" where
  "oper_chain stamp pf now [] msg L = Inr (msg, L)"
| "oper_chain stamp pf now (Oper_handler # hs) msg L =
     bind_res (oper_handler_process stamp pf now msg L) (\<lambda>(msg, L). oper_chain stamp pf now hs msg L)"
| "oper_chain stamp pf now (Text_handler # hs) msg L = oper_chain stamp pf now hs msg L"

definition log_msg_oper ::
  "(nat \<Rightarrow> string) \<Rightarrow> (nat \<Rightarrow> nat \<Rightarrow> real \<Rightarrow> string) \<Rightarrow> timespec \<Rightarrow> oper_message \<Rightarrow> logger \<Rightarrow> log_fault + oper_message \<times> logger" where
  "log_msg_oper stamp pf now msg L = oper_chain stamp pf now (handlers L LOG_MSG_TYPE_OPER) msg L"

text \<open>The macros around a request; \<open>ts\<close> are \<open>sb_globals.op_timers\<close>.\<close>

definition LOG_EVENT_START ::
  "(nat \<Rightarrow> string) \<Rightarrow> (nat \<Rightarrow> nat \<Rightarrow> real \<Rightarrow> string) \<Rightarrow> timespec \<Rightarrow> timespec \<Rightarrow> nat \<Rightarrow> oper_message \<Rightarrow> sb_timer list \<Rightarrow> logger \<Rightarrow>
   log_fault + oper_message \<times> sb_timer list \<times> logger" where
  "LOG_EVENT_START stamp pf now1 now2 tid msg ts L =
     (if tid \<ge> length ts then Inl Index_out_of_bounds
      else case sb_timer_start now1 (ts ! tid) of
             Inl _ \<Rightarrow> Inl Log_abort
           | Inr (t, w) \<Rightarrow>
               (let L = (case w of None \<Rightarrow> L | Some text \<Rightarrow> log_text stamp LOG_WARNING text L)
                in bind_res (log_msg_oper stamp pf now2 (msg\<lparr>action := LOG_MSG_OPER_START\<rparr>) L)
                     (\<lambda>(msg, L). Inr (msg, ts[tid := t], L))))"

definition LOG_EVENT_STOP ::
  "(nat \<Rightarrow> string) \<Rightarrow> (nat \<Rightarrow> nat \<Rightarrow> real \<Rightarrow> string) \<Rightarrow> timespec \<Rightarrow> timespec \<Rightarrow> nat \<Rightarrow> oper_message \<Rightarrow> sb_timer list \<Rightarrow> logger \<Rightarrow>
   log_fault + oper_message \<times> sb_timer list \<times> logger" where
  "LOG_EVENT_STOP stamp pf now1 now2 tid msg ts L =
     bind_res (log_msg_oper stamp pf now1 (msg\<lparr>action := LOG_MSG_OPER_STOP\<rparr>) L)
       (\<lambda>(msg, L).
          if tid \<ge> length ts then Inl Index_out_of_bounds
          else case sb_timer_stop now2 (ts ! tid) of
                 Inl _ \<Rightarrow> Inl Log_abort
               | Inr (t, w) \<Rightarrow>
                   Inr (msg, ts[tid := t],
                        case w of None \<Rightarrow> L | Some text \<Rightarrow> log_text stamp LOG_WARNING text L))"

section \<open>The final statistics\<close>

text \<open>
  The search for the percentile: \<open>k\<close> cells are left, \<open>i\<close> is the next one.  The sum \<open>noper\<close> wraps
  at 32 bits.
\<close>

fun percentile_search :: "(nat \<Rightarrow> u32) \<Rightarrow> u64 \<Rightarrow> u32 \<Rightarrow> nat \<Rightarrow> nat \<Rightarrow> u32 \<Rightarrow> real \<Rightarrow> nat" where
  "percentile_search ops tot pct 0 i noper pdiff = i"
| "percentile_search ops tot pct (Suc k) i noper pdiff =
     (let noper = noper + ops i;
          p = real (unat noper) / real (unat tot) * 100;
          diff = \<bar>p - real (unat pct)\<bar>
      in if diff > pdiff \<or> \<bar>diff\<bar> < 1 / 10 ^ 6 then i
         else percentile_search ops tot pct k (i + 1) noper diff)"

definition percentile_cell :: "(nat \<Rightarrow> u32) \<Rightarrow> u64 \<Rightarrow> u32 \<Rightarrow> nat" where
  "percentile_cell ops tot pct =
     (let i = percentile_search ops tot pct OPER_LOG_GRANULARITY 0 0 (real (unat pct))
      in if i > 0 then i - 1 else i)"

definition cell_time :: "logger \<Rightarrow> nat \<Rightarrow> real" where
  "cell_time L i = exp (real i / oper_log_mult L + oper_log_deduct L)"

definition NS2SEC :: "real \<Rightarrow> real" where "NS2SEC ns = ns / 10 ^ 9"
definition NS2MS :: "real \<Rightarrow> real" where "NS2MS ns = ns / 10 ^ 6"

definition thread_totals :: "sb_timer \<Rightarrow> sb_globals \<Rightarrow> sb_timer" where
  "thread_totals junk g =
     fold (\<lambda>t acc. merge_timers junk acc t) (take (unat (num_threads g)) (op_timers g)) (sb_timer_init junk)"

definition stddev :: "real \<Rightarrow> real list \<Rightarrow> real" where
  "stddev avg xs = sqrt (fold (\<lambda>x s. s + \<bar>avg - x\<bar> * \<bar>avg - x\<bar>) xs 0 / real (length xs))"

text \<open>
  The summary of \<open>oper_handler_done\<close>;
  \<open>join_err\<close> is the error text of \<open>pthread_join\<close> for the batch thread, if it fails.
\<close>

definition summary_lines :: "(nat \<Rightarrow> nat \<Rightarrow> real \<Rightarrow> string) \<Rightarrow> sb_globals \<Rightarrow> sb_timer \<Rightarrow> logger \<Rightarrow> string list" where
  "summary_lines pf g t L =
     [[], ''Test execution summary:'',
      ''    total time:                          '' @ pf 0 4 (NS2SEC (real (unat (sb_timer_value (exec_timer g))))) @ ''s'',
      ''    total number of events:              '' @ dec (unat (events t)),
      ''    total time taken by event execution: '' @ pf 0 4 (NS2SEC (real (unat (get_sum_time t)))),
      ''    per-request statistics:'',
      ''         min:                            '' @ pf 10 2 (NS2MS (real (unat (get_min_time t)))) @ ''ms'',
      ''         avg:                            '' @ pf 10 2 (NS2MS (real (unat (get_avg_time t)))) @ ''ms'',
      ''         max:                            '' @ pf 10 2 (NS2MS (real (unat (get_max_time t)))) @ ''ms''] @
     (if events t > 0 then
        [''         approx. '' @ pf 3 0 (real (unat (oper_percentile L))) @ '' percentile:         '' @
         pf 10 2 (NS2MS (cell_time L (percentile_cell (operations L) (events t) (oper_percentile L)))) @ ''ms'']
      else []) @ [[]]"

definition fairness_lines :: "(nat \<Rightarrow> nat \<Rightarrow> real \<Rightarrow> string) \<Rightarrow> sb_globals \<Rightarrow> sb_timer \<Rightarrow> string list" where
  "fairness_lines pf g t =
     (let n = unat (num_threads g);
          ts = take n (op_timers g);
          events_avg = real (unat (events t)) / real n;
          time_avg = NS2SEC (real (unat (get_sum_time t))) / real n
      in [''Threads fairness:'',
          ''    events (avg/stddev):           '' @ pf 0 4 events_avg @ ''/'' @
            pf 3 2 (stddev events_avg (map (\<lambda>t. real (unat (events t))) ts)),
          ''    execution time (avg/stddev):   '' @ pf 0 4 time_avg @ ''/'' @
            pf 3 2 (stddev time_avg (map (\<lambda>t. NS2SEC (real (unat (get_sum_time t)))) ts)),
          []])"

definition debug_lines :: "(nat \<Rightarrow> nat \<Rightarrow> real \<Rightarrow> string) \<Rightarrow> sb_globals \<Rightarrow> (log_msg_priority \<times> string) list" where
  "debug_lines pf g =
     (if debug g then
        [(LOG_DEBUG, ''Verbose per-thread statistics:'' @ [CHR 0x0A])] @
        concat (map (\<lambda>i. let t = op_timers g ! i in
           [(LOG_DEBUG, ''    thread #'' @ pf 3 0 (real i) @ '': min: '' @ pf 0 4 (NS2SEC (real (unat (get_min_time t)))) @
               ''s  avg: '' @ pf 0 4 (NS2SEC (real (unat (get_avg_time t)))) @
               ''s  max: '' @ pf 0 4 (NS2SEC (real (unat (get_max_time t)))) @
               ''s  events: '' @ dec (unat (events t))),
            (LOG_DEBUG, ''                 total time taken by even execution: '' @
               pf 0 4 (NS2SEC (real (unat (get_sum_time t)))) @ ''s'')]) [0..<unat (num_threads g)]) @
        [(LOG_NOTICE, [])]
      else [])"

definition oper_handler_done ::
  "(nat \<Rightarrow> string) \<Rightarrow> (nat \<Rightarrow> nat \<Rightarrow> real \<Rightarrow> string) \<Rightarrow> sb_timer \<Rightarrow> string option \<Rightarrow> sb_globals \<Rightarrow> logger \<Rightarrow> int \<times> logger" where
  "oper_handler_done stamp pf junk join_err g L =
     (let L = (if batch_mode L then L\<lparr>batch_status := BATCH_STATUS_STOP\<rparr> else L)
      in if batch_mode L \<and> join_err \<noteq> None then
           (1, log_text stamp LOG_FATAL (''Batch thread join failed, errno = '' @ the join_err) L)
         else
           (let t = thread_totals junk g;
                lines = map (Pair LOG_NOTICE) (summary_lines pf g t L @ fairness_lines pf g t) @ debug_lines pf g
            in (0, fold (\<lambda>(p, text) L. log_text stamp p text L) lines L)))"

definition log_done ::
  "(nat \<Rightarrow> string) \<Rightarrow> (nat \<Rightarrow> nat \<Rightarrow> real \<Rightarrow> string) \<Rightarrow> sb_timer \<Rightarrow> string option \<Rightarrow> sb_globals \<Rightarrow> logger \<Rightarrow> logger" where
  "log_done stamp pf junk join_err g L =
     (fold (\<lambda>h L. case h of Text_handler \<Rightarrow> L | Oper_handler \<Rightarrow> snd (oper_handler_done stamp pf junk join_err g L))
        (concat (map (handlers L) [LOG_MSG_TYPE_MIN, LOG_MSG_TYPE_TEXT, LOG_MSG_TYPE_OPER])) L)\<lparr>initialized := False\<rparr>"

section \<open>Facts on text messages\<close>

text \<open>The messages a printed log stands for, with the repetitions written out.\<close>

fun expand :: "string \<Rightarrow> out_line list \<Rightarrow> string list" where
  "expand l [] = []"
| "expand l (Message p t # ls) = t # expand t ls"
| "expand l (Repeated n # ls) = replicate (unat n) l @ expand l ls"
| "expand l (Raw t # ls) = expand l ls"

fun last_message :: "string \<Rightarrow> out_line list \<Rightarrow> string" where
  "last_message l [] = l"
| "last_message l (Message p t # ls) = last_message t ls"
| "last_message l (Repeated n # ls) = last_message l ls"
| "last_message l (Raw t # ls) = last_message l ls"

lemma expand_append: "expand l (xs @ ys) = expand l xs @ expand (last_message l xs) ys"
  by (induction l xs rule: expand.induct) simp_all

lemma last_message_append: "last_message l (xs @ ys) = last_message (last_message l xs) ys"
  by (induction l xs rule: last_message.induct) simp_all

definition accepted :: "logger \<Rightarrow> text_message list \<Rightarrow> string list" where
  "accepted L msgs = map msg_text (filter (\<lambda>m. priority_code (priority m) \<le> verbosity L) msgs)"

definition text_inv :: "logger \<Rightarrow> string list \<Rightarrow> bool" where
  "text_inv L acc \<longleftrightarrow>
     expand [] (out L) @ replicate (unat (text_cnt L)) (text_buf L) = acc \<and>
     last_message [] (out L) = text_buf L"

lemma verbosity_process [simp]: "verbosity (text_handler_process m L) = verbosity L"
  by (simp add: text_handler_process_def Let_def)

lemma text_inv_process:
  assumes inv: "text_inv L acc" and "length acc < 2 ^ 32 - 1" and "length (msg_text m) \<le> TEXT_BUFFER_SIZE"
  shows "text_inv (text_handler_process m L) (acc @ accepted L [m])"
proof -
  have "unat (text_cnt L) \<le> length acc"
    using inv by (auto simp: text_inv_def)
  then have "unat (text_cnt L + 1) = unat (text_cnt L) + 1"
    using assms(2) by (intro unat_Suc_lt) simp
  then show ?thesis
    using inv assms(3)
    by (auto simp: text_inv_def text_handler_process_def accepted_def Let_def expand_append
        last_message_append word_gt_0 simp flip: replicate_append_same)
qed

lemma text_inv_fold:
  assumes "text_inv L acc" and "length acc + length msgs < 2 ^ 32"
    and "\<And>m. m \<in> set msgs \<Longrightarrow> length (msg_text m) \<le> TEXT_BUFFER_SIZE"
  shows "text_inv (fold text_handler_process msgs L) (acc @ accepted L msgs)"
  using assms
proof (induction msgs arbitrary: L acc)
  case (Cons m msgs)
  let ?L = "text_handler_process m L"
  have "length (accepted L [m]) \<le> 1" by (simp add: accepted_def)
  then have "text_inv (fold text_handler_process msgs ?L) ((acc @ accepted L [m]) @ accepted ?L msgs)"
    using Cons.prems by (intro Cons.IH text_inv_process) auto
  moreover have "accepted L [m] @ accepted ?L msgs = accepted L (m # msgs)"
    by (simp add: accepted_def)
  ultimately show ?case by simp
qed (simp add: accepted_def)

lemma log_buffer_eq:
  assumes "length pre < TEXT_BUFFER_SIZE"
  shows "log_buffer pre text =
    (if length pre + length text + 1 < TEXT_BUFFER_SIZE then pre @ text @ [CHR 0x0A]
     else pre @ take (TEXT_BUFFER_SIZE - length pre - 1) text)"
  using assms by (auto simp: log_buffer_def snprintf_def Let_def)

section \<open>Facts on the histogram\<close>

definition oper_ready :: "logger \<Rightarrow> bool" where
  "oper_ready L \<longleftrightarrow>
     oper_log_deduct L = ln OPER_LOG_MIN_VALUE \<and>
     oper_log_mult L = (real OPER_LOG_GRANULARITY - 1) / (ln OPER_LOG_MAX_VALUE - ln OPER_LOG_MIN_VALUE)"

lemmas oper_consts = OPER_LOG_GRANULARITY_def OPER_LOG_MIN_VALUE_def OPER_LOG_MAX_VALUE_def

lemma oper_ready_mult:
  assumes "oper_ready L"
  shows "oper_log_mult L > 0" and "oper_log_deduct L = 0" and "ln OPER_LOG_MAX_VALUE * oper_log_mult L = 99999"
proof -
  have pos: "0 < ln (10 :: real)" by simp
  then show "oper_log_mult L > 0" and "oper_log_deduct L = 0"
    and "ln OPER_LOG_MAX_VALUE * oper_log_mult L = 99999"
    using assms by (simp_all add: oper_ready_def oper_consts ln_realpow)
qed

lemma oper_cell_range:
  assumes ready: "oper_ready L" and "OPER_LOG_MIN_VALUE \<le> t" and "t \<le> OPER_LOG_MAX_VALUE"
  shows "0 \<le> oper_cell t L \<and> oper_cell t L < int OPER_LOG_GRANULARITY"
proof -
  note m = oper_ready_mult [OF ready]
  have t: "1 \<le> t" using assms(2) by (simp add: OPER_LOG_MIN_VALUE_def)
  then have "0 \<le> ln t * oper_log_mult L" using m(1) by simp
  moreover have "ln t * oper_log_mult L \<le> 99999"
  proof -
    have "ln t \<le> ln OPER_LOG_MAX_VALUE" using t assms(3) by simp
    with m(1) have "ln t * oper_log_mult L \<le> ln OPER_LOG_MAX_VALUE * oper_log_mult L" by simp
    with m(3) show ?thesis by simp
  qed
  ultimately show ?thesis
    using m(2) by (simp add: oper_cell_def OPER_LOG_GRANULARITY_def floor_less_iff)
qed

lemma cell_time_accuracy:
  assumes ready: "oper_ready L" and "0 < t" and "0 \<le> oper_cell t L"
  shows "\<bar>ln (cell_time L (nat (oper_cell t L))) - ln t\<bar> \<le> 1 / (2 * oper_log_mult L)"
proof -
  note m = oper_ready_mult [OF ready]
  let ?c = "oper_cell t L" and ?x = "ln t * oper_log_mult L"
  have "real_of_int ?c \<le> ?x + 1 / 2" "?x + 1 / 2 < real_of_int ?c + 1"
    using m(2) floor_correct [of "?x + 1 / 2"] by (simp_all add: oper_cell_def)
  then have "\<bar>real_of_int ?c - ?x\<bar> \<le> 1 / 2" by linarith
  then have "\<bar>real_of_int ?c - ?x\<bar> / oper_log_mult L \<le> 1 / 2 / oper_log_mult L"
    using m(1) by (intro divide_right_mono) simp_all
  moreover have "ln (cell_time L (nat ?c)) - ln t = (real_of_int ?c - ?x) / oper_log_mult L"
    using m assms(3) by (simp add: cell_time_def field_simps)
  ultimately show ?thesis using m(1) by (simp add: abs_divide)
qed

text \<open>Logging does not touch the histogram.\<close>

lemma text_handler_process_ops [simp]:
  "operations (text_handler_process m L) = operations L"
  "oper_log_deduct (text_handler_process m L) = oper_log_deduct L"
  "oper_log_mult (text_handler_process m L) = oper_log_mult L"
  by (simp_all add: text_handler_process_def Let_def)

lemma log_msg_text_ops [simp]:
  "operations (log_msg_text m L) = operations L"
  "oper_log_deduct (log_msg_text m L) = oper_log_deduct L"
  "oper_log_mult (log_msg_text m L) = oper_log_mult L"
proof -
  have "operations (fold (\<lambda>h L. case h of Text_handler \<Rightarrow> text_handler_process m L | Oper_handler \<Rightarrow> L) hs L) = operations L \<and>
    oper_log_deduct (fold (\<lambda>h L. case h of Text_handler \<Rightarrow> text_handler_process m L | Oper_handler \<Rightarrow> L) hs L) = oper_log_deduct L \<and>
    oper_log_mult (fold (\<lambda>h L. case h of Text_handler \<Rightarrow> text_handler_process m L | Oper_handler \<Rightarrow> L) hs L) = oper_log_mult L" for hs
    by (induction hs arbitrary: L) (simp_all split: log_handler.split)
  then show "operations (log_msg_text m L) = operations L"
    "oper_log_deduct (log_msg_text m L) = oper_log_deduct L"
    "oper_log_mult (log_msg_text m L) = oper_log_mult L"
    by (simp_all add: log_msg_text_def)
qed

lemma warn_once_ops [simp]:
  "operations (warn_once stamp text L) = operations L"
  "oper_log_deduct (warn_once stamp text L) = oper_log_deduct L"
  "oper_log_mult (warn_once stamp text L) = oper_log_mult L"
  by (simp_all add: warn_once_def log_text_def Let_def)

lemma count_operation_cell:
  assumes "oper_ready L"
  defines "t' \<equiv> \<lambda>t. max OPER_LOG_MIN_VALUE (min OPER_LOG_MAX_VALUE t)"
  shows "\<exists>L'. count_operation stamp pf t L = Inr L' \<and>
    operations L' = (operations L)(nat (oper_cell (t' t) L) := operations L (nat (oper_cell (t' t) L)) + 1) \<and>
    0 \<le> oper_cell (t' t) L \<and> oper_cell (t' t) L < int OPER_LOG_GRANULARITY"
proof -
  have bounds: "OPER_LOG_MIN_VALUE \<le> t' t" "t' t \<le> OPER_LOG_MAX_VALUE"
    by (simp_all add: t'_def oper_consts)
  have r: "0 \<le> oper_cell (t' t) L" "oper_cell (t' t) L < int OPER_LOG_GRANULARITY"
    using oper_cell_range [OF assms(1) bounds] by simp_all
  have same: "oper_cell t (warn_once stamp w L) = oper_cell t L" for t w
    by (simp add: oper_cell_def)
  consider "t < OPER_LOG_MIN_VALUE" "t' t = OPER_LOG_MIN_VALUE"
    | "\<not> t < OPER_LOG_MIN_VALUE" "t > OPER_LOG_MAX_VALUE" "t' t = OPER_LOG_MAX_VALUE"
    | "\<not> t < OPER_LOG_MIN_VALUE" "\<not> t > OPER_LOG_MAX_VALUE" "t' t = t"
    by (fastforce simp: t'_def oper_consts)
  then show ?thesis
    by cases (use r in \<open>simp_all add: count_operation_def Let_def same not_less not_le\<close>)
qed

lemma oper_handler_init_ready:
  assumes "oper_handler_init stamp thread_err opts L0 = Inr (0, L)"
  shows "oper_ready L"
  using assms
  by (auto simp: oper_handler_init_def oper_ready_def Let_def split: option.splits if_splits)

section \<open>Facts on the percentile\<close>

text \<open>The rank of a cell, its distance from the percentile, and where the search stops.\<close>

definition cum :: "(nat \<Rightarrow> u32) \<Rightarrow> nat \<Rightarrow> nat" where
  "cum ops i = (\<Sum>j<i. unat (ops j))"

definition cell_rank :: "(nat \<Rightarrow> u32) \<Rightarrow> u64 \<Rightarrow> nat \<Rightarrow> real" where
  "cell_rank ops tot i = real (cum ops (Suc i)) / real (unat tot) * 100"

definition rank_diff :: "(nat \<Rightarrow> u32) \<Rightarrow> u64 \<Rightarrow> u32 \<Rightarrow> nat \<Rightarrow> real" where
  "rank_diff ops tot pct i = \<bar>cell_rank ops tot i - real (unat pct)\<bar>"

definition prev_diff :: "(nat \<Rightarrow> u32) \<Rightarrow> u64 \<Rightarrow> u32 \<Rightarrow> nat \<Rightarrow> real" where
  "prev_diff ops tot pct i = (case i of 0 \<Rightarrow> real (unat pct) | Suc j \<Rightarrow> rank_diff ops tot pct j)"

definition search_stops :: "(nat \<Rightarrow> u32) \<Rightarrow> u64 \<Rightarrow> u32 \<Rightarrow> nat \<Rightarrow> bool" where
  "search_stops ops tot pct i \<longleftrightarrow>
     rank_diff ops tot pct i > prev_diff ops tot pct i \<or> rank_diff ops tot pct i < 1 / 10 ^ 6"

lemma cum_Suc: "cum ops (Suc i) = cum ops i + unat (ops i)"
  by (simp add: cum_def)

lemma cum_mono: "i \<le> j \<Longrightarrow> cum ops i \<le> cum ops j"
  unfolding cum_def by (rule sum_mono2) auto

lemma percentile_search_step:
  assumes "cum ops (i + Suc k) < 2 ^ 32"
  shows "percentile_search ops tot pct (Suc k) i (of_nat (cum ops i)) (prev_diff ops tot pct i) =
    (if search_stops ops tot pct i then i
     else percentile_search ops tot pct k (Suc i) (of_nat (cum ops (Suc i))) (prev_diff ops tot pct (Suc i)))"
proof -
  have "cum ops (Suc i) < 2 ^ 32"
    using assms cum_mono [of "Suc i" "i + Suc k" ops] by simp
  then have "unat (of_nat (cum ops (Suc i)) :: u32) = cum ops (Suc i)"
    by (simp add: unat_of_nat)
  moreover have "of_nat (cum ops i) + ops i = (of_nat (cum ops (Suc i)) :: u32)"
    by (simp add: cum_Suc)
  ultimately show ?thesis
    by (simp only: percentile_search.simps Let_def search_stops_def rank_diff_def prev_diff_def
        nat.case abs_abs add_0_right add_Suc_right One_nat_def cell_rank_def)
qed

lemma percentile_search_stop:
  fixes tot pct
  assumes "cum ops (i + k) < 2 ^ 32"
  shows "let r = percentile_search ops tot pct k i (of_nat (cum ops i)) (prev_diff ops tot pct i)
    in i \<le> r \<and> r \<le> i + k \<and> (\<forall>j. i \<le> j \<and> j < r \<longrightarrow> \<not> search_stops ops tot pct j) \<and>
       (r < i + k \<longrightarrow> search_stops ops tot pct r)"
  using assms unfolding Let_def
proof (induction k arbitrary: i)
  case (Suc k)
  show ?case
  proof (cases "search_stops ops tot pct i")
    case False
    let ?r = "percentile_search ops tot pct k (Suc i) (of_nat (cum ops (Suc i))) (prev_diff ops tot pct (Suc i))"
    have step: "percentile_search ops tot pct (Suc k) i (of_nat (cum ops i)) (prev_diff ops tot pct i) = ?r"
      using percentile_search_step [OF Suc.prems, of tot pct] False by simp
    have "cum ops (Suc i + k) < 2 ^ 32" using Suc.prems by simp
    from Suc.IH [OF this]
    have r: "Suc i \<le> ?r" "?r \<le> Suc i + k" "\<forall>j. Suc i \<le> j \<and> j < ?r \<longrightarrow> \<not> search_stops ops tot pct j"
      "?r < Suc i + k \<longrightarrow> search_stops ops tot pct ?r"
      by blast+
    have "\<not> search_stops ops tot pct j" if "i \<le> j" "j < ?r" for j
      using r(3) False that by (cases "j = i") (simp_all add: Suc_le_eq)
    with r(1,2,4) show ?thesis unfolding step by simp
  next
    case True
    then have "percentile_search ops tot pct (Suc k) i (of_nat (cum ops i)) (prev_diff ops tot pct i) = i"
      using percentile_search_step [OF Suc.prems, of tot pct] by simp
    with True show ?thesis by (auto simp del: percentile_search.simps)
  qed
qed auto

lemma prev_diff_0: "prev_diff ops tot pct 0 = real (unat pct)"
  by (simp add: prev_diff_def)

lemma percentile_cell_stop:
  assumes "cum ops OPER_LOG_GRANULARITY < 2 ^ 32"
  shows "\<exists>r. percentile_cell ops tot pct = r - 1 \<and> r \<le> OPER_LOG_GRANULARITY \<and>
    (\<forall>j<r. \<not> search_stops ops tot pct j) \<and>
    (r < OPER_LOG_GRANULARITY \<longrightarrow> search_stops ops tot pct r)"
proof -
  let ?r = "percentile_search ops tot pct OPER_LOG_GRANULARITY 0 0 (real (unat pct))"
  have "cum ops (0 + OPER_LOG_GRANULARITY) < 2 ^ 32" using assms by simp
  from percentile_search_stop [OF this, of tot pct] show ?thesis
    by (intro exI [of _ ?r]) (auto simp: percentile_cell_def Let_def prev_diff_0 cum_def)
qed

text \<open>Before the search stops the distance never grows; behind a cell where it grew it stays larger.\<close>

lemma rank_diff_antimono:
  assumes "\<And>j. j \<le> n \<Longrightarrow> \<not> search_stops ops tot pct j" and "j \<le> n"
  shows "rank_diff ops tot pct n \<le> rank_diff ops tot pct j"
  using assms
proof (induction n)
  case (Suc n)
  have "\<not> search_stops ops tot pct (Suc n)" using Suc.prems(1) by simp
  then have "rank_diff ops tot pct (Suc n) \<le> rank_diff ops tot pct n"
    by (simp add: search_stops_def prev_diff_def)
  moreover have "rank_diff ops tot pct n \<le> rank_diff ops tot pct j" if "j \<le> n"
    using Suc.IH Suc.prems(1) that by simp
  ultimately show ?case using Suc.prems(2) by (cases "j = Suc n") fastforce+
qed simp

lemma cell_rank_mono: "i \<le> j \<Longrightarrow> cell_rank ops tot i \<le> cell_rank ops tot j"
  unfolding cell_rank_def
  using cum_mono [of "Suc i" "Suc j" ops] by (intro mult_right_mono divide_right_mono of_nat_0_le_iff) simp_all

lemma cell_rank_nonneg: "0 \<le> cell_rank ops tot i"
  unfolding cell_rank_def by (intro mult_nonneg_nonneg divide_nonneg_nonneg of_nat_0_le_iff) simp_all

lemma rank_diff_after:
  assumes "rank_diff ops tot pct r > prev_diff ops tot pct r" and "r \<le> j"
  shows "rank_diff ops tot pct r \<le> rank_diff ops tot pct j"
proof -
  have "cell_rank ops tot r > real (unat pct)"
  proof (cases r)
    case 0
    with assms(1) have "\<bar>cell_rank ops tot 0 - real (unat pct)\<bar> > real (unat pct)"
      by (simp only: rank_diff_def prev_diff_0)
    with cell_rank_nonneg [of ops tot 0] have "cell_rank ops tot 0 > real (unat pct)" by linarith
    with 0 show ?thesis by (simp only: 0)
  next
    case (Suc k)
    with assms(1) cell_rank_mono [of k r ops tot] show ?thesis
      unfolding rank_diff_def prev_diff_def by simp
  qed
  with cell_rank_mono [OF assms(2), of ops tot] show ?thesis unfolding rank_diff_def by linarith
qed

section \<open>Properties\<close>

text \<open>
  C39: What the suppression of repeated messages prints and keeps pending.  After any sequence of
  messages (fewer than 2 to the 32 and none larger than the buffer), the printed lines with the
  repetitions written out, followed by the repetitions that are counted but not printed yet, are the
  sequence of the texts that pass the verbosity.  The pending ones are printed only when a different
  message follows.
\<close>

theorem text_handler_lossless:
  assumes "out L = []" and "text_cnt L = 0" and "text_buf L = []" and "length msgs < 2 ^ 32"
    and "\<And>m. m \<in> set msgs \<Longrightarrow> length (msg_text m) \<le> TEXT_BUFFER_SIZE"
  defines "L' \<equiv> fold text_handler_process msgs L"
  shows "expand [] (out L') @ replicate (unat (text_cnt L')) (text_buf L') =
    map msg_text (filter (\<lambda>m. priority_code (priority m) \<le> verbosity L) msgs)"
proof -
  have "text_inv L []" using assms(1-3) by (simp add: text_inv_def)
  from text_inv_fold [OF this _ assms(5)] assms(4) show ?thesis
    by (simp add: text_inv_def L'_def accepted_def)
qed

definition demo_logger :: logger where
  "demo_logger =
     \<lparr>handlers = (\<lambda>_. []), initialized = False, verbosity = 4, log_timestamp = False,
      batch_mode = False, batch_delay = 0, oper_time_warning = False, operations = (\<lambda>_. 0),
      oper_log_deduct = 0, oper_log_mult = 0, oper_percentile = 0, batch_status = BATCH_STATUS_STOP,
      text_cnt = 0, text_buf = [], msg_seq = 0, out = []\<rparr>"

theorem text_handler_lossless_witness:
  "expand [] (out (fold text_handler_process
      [\<lparr>priority = LOG_INFO, msg_text = ''a''\<rparr>, \<lparr>priority = LOG_INFO, msg_text = ''a''\<rparr>,
       \<lparr>priority = LOG_DEBUG, msg_text = ''b''\<rparr>, \<lparr>priority = LOG_FATAL, msg_text = ''c''\<rparr>] demo_logger))
   = [''a'', ''a'', ''c'']"
proof -
  let ?msgs = "[\<lparr>priority = LOG_INFO, msg_text = ''a''\<rparr>, \<lparr>priority = LOG_INFO, msg_text = ''a''\<rparr>,
       \<lparr>priority = LOG_DEBUG, msg_text = ''b''\<rparr>, \<lparr>priority = LOG_FATAL, msg_text = ''c''\<rparr>]"
  have cnt: "text_cnt (fold text_handler_process ?msgs demo_logger) = 0"
    by (simp add: demo_logger_def text_handler_process_def priority_code_def TEXT_BUFFER_SIZE_def Let_def)
  have start: "out demo_logger = []" "text_cnt demo_logger = 0" "text_buf demo_logger = []"
    by (simp_all add: demo_logger_def)
  have size: "length (msg_text m) \<le> TEXT_BUFFER_SIZE" if "m \<in> set ?msgs" for m
    using that by (auto simp: TEXT_BUFFER_SIZE_def)
  have few: "length ?msgs < 2 ^ 32" by simp
  have seen: "map msg_text (filter (\<lambda>m. priority_code (priority m) \<le> verbosity demo_logger) ?msgs) =
      [''a'', ''a'', ''c'']"
    by (simp add: demo_logger_def priority_code_def)
  show ?thesis
    using text_handler_lossless [OF start few size, unfolded cnt seen] by (simp del: fold.simps)
qed

text \<open>
  Every finished operation is counted.  After a successful \<open>oper_handler_init\<close>, a stop message
  whose timer was initialised increments exactly one cell of the histogram, inside of the array,
  and the time that the cell stands for differs from the measured time (clamped to the counted
  range) by at most half a cell on the logarithmic scale.
\<close>

theorem oper_handler_counts:
  assumes "oper_handler_init stamp thread_err opts L0 = Inr (0, L)"
    and "action msg = LOG_MSG_OPER_STOP" and "sb_timer_current now (oper_timer msg) = Inr t"
  shows "\<exists>L' i. oper_handler_process stamp pf now msg L = Inr (msg, L') \<and> i < OPER_LOG_GRANULARITY \<and>
    operations L' = (operations L)(i := operations L i + 1) \<and>
    \<bar>ln (cell_time L i) - ln (max OPER_LOG_MIN_VALUE (min OPER_LOG_MAX_VALUE (real (unat t))))\<bar>
      \<le> 1 / (2 * oper_log_mult L)"
proof -
  let ?L = "if batch_mode L \<and> batch_status L \<noteq> BATCH_STATUS_START
    then L\<lparr>batch_status := BATCH_STATUS_START\<rparr> else L"
  let ?t = "max OPER_LOG_MIN_VALUE (min OPER_LOG_MAX_VALUE (real (unat t)))"
  have ready: "oper_ready L" by (rule oper_handler_init_ready [OF assms(1)])
  have ready': "oper_ready ?L" and cell: "oper_cell x ?L = oper_cell x L"
    and same: "operations ?L = operations L" for x
    using ready by (simp_all add: oper_ready_def oper_cell_def)
  from count_operation_cell [OF ready', of stamp pf "real (unat t)", unfolded cell same]
  obtain L' where L': "count_operation stamp pf (real (unat t)) ?L = Inr L'"
    "operations L' = (operations L)(nat (oper_cell ?t L) := operations L (nat (oper_cell ?t L)) + 1)"
    and range: "0 \<le> oper_cell ?t L" "oper_cell ?t L < int OPER_LOG_GRANULARITY"
    by blast
  have "0 < ?t" by (simp add: OPER_LOG_MIN_VALUE_def)
  note accuracy = cell_time_accuracy [OF ready this range(1)]
  have "oper_handler_process stamp pf now msg L = Inr (msg, L')"
    using assms(2,3) L'(1) by (simp only: oper_handler_process_def Let_def) simp
  moreover have "nat (oper_cell ?t L) < OPER_LOG_GRANULARITY" using range by linarith
  ultimately show ?thesis using L'(2) accuracy by blast
qed

definition demo_oper_opts :: "option_t list" where
  "demo_oper_opts = fst (sb_register_arg_set oper_handler_args [])"

lemma demo_oper_values:
  "sb_get_value_int ''percentile'' demo_oper_opts = Some 95"
  "sb_get_value_int ''batch-delay'' demo_oper_opts = Some 300"
  "sb_get_value_flag ''batch'' demo_oper_opts = False"
  by (simp_all add: demo_oper_opts_def oper_handler_args_def sb_get_value_int_def sb_get_value_flag_def
      set_option_def set_option_values_def add_option_def find_option_def new_option_def free_values_def
      add_value_def new_value_def Let_def atoi_def int_in_range_def dec_val_def digit_val_def
      is_digit_def isspace_def less_eq_char_def)

theorem oper_handler_counts_witness:
  "\<exists>L L' i msg. oper_handler_init (\<lambda>_. []) None demo_oper_opts demo_logger = Inr (0, L) \<and>
     oper_handler_process (\<lambda>_. []) (\<lambda>_ _ _. []) (7, 0) msg L = Inr (msg, L') \<and>
     i < OPER_LOG_GRANULARITY \<and> operations L' i = 1"
proof -
  let ?t = "\<lparr>time_start = (5, 0), time_end = (0, 0), my_time = 0, min_time = 0, max_time = 0,
    sum_time = 0, events = 0, timer_state = TIMER_RUNNING\<rparr> :: sb_timer"
  let ?msg = "\<lparr>action = LOG_MSG_OPER_STOP, oper_timer = ?t\<rparr>"
  obtain L where L: "oper_handler_init (\<lambda>_. []) None demo_oper_opts demo_logger = Inr (0, L)"
    and zero: "operations L = (\<lambda>_. 0)"
    by (simp add: oper_handler_init_def demo_oper_values demo_logger_def Let_def)
  have t: "sb_timer_current (7, 0) (oper_timer ?msg) = Inr (SEC2NS 2)"
    by (simp add: sb_timer_current_def timespec_diff_def)
  have stop: "action ?msg = LOG_MSG_OPER_STOP" by simp
  from oper_handler_counts [OF L stop t, of "\<lambda>_ _ _. []"] obtain L' i where
    "oper_handler_process (\<lambda>_. []) (\<lambda>_ _ _. []) (7, 0) ?msg L = Inr (?msg, L')"
    and "i < OPER_LOG_GRANULARITY" and "operations L' = (operations L)(i := operations L i + 1)"
    by blast
  with L zero show ?thesis by (intro exI [of _ L] exI [of _ L'] exI [of _ i] exI [of _ ?msg]) simp
qed

text \<open>
  The percentile search finds a closest cell: unless some rank meets the percentile exactly, no
  cell has a rank nearer to it than the reported one.
\<close>

theorem percentile_cell_closest:
  assumes "cum ops OPER_LOG_GRANULARITY < 2 ^ 32" and "j < OPER_LOG_GRANULARITY"
    and exact: "\<And>i. i < OPER_LOG_GRANULARITY \<Longrightarrow> rank_diff ops tot pct i \<ge> 1 / 10 ^ 6"
  shows "rank_diff ops tot pct (percentile_cell ops tot pct) \<le> rank_diff ops tot pct j"
proof -
  obtain r where r: "percentile_cell ops tot pct = r - 1" "r \<le> OPER_LOG_GRANULARITY"
    and before: "\<forall>j<r. \<not> search_stops ops tot pct j"
    and at: "r < OPER_LOG_GRANULARITY \<longrightarrow> search_stops ops tot pct r"
    using percentile_cell_stop [OF assms(1), of tot pct] by blast
  have grew: "rank_diff ops tot pct r > prev_diff ops tot pct r" if "r < OPER_LOG_GRANULARITY"
    using at that exact [OF that] unfolding search_stops_def by linarith
  show ?thesis
  proof (cases r)
    case 0
    with grew r rank_diff_after [of ops tot pct 0 j] show ?thesis
      by (simp add: OPER_LOG_GRANULARITY_def)
  next
    case (Suc n)
    have low: "rank_diff ops tot pct n \<le> rank_diff ops tot pct j" if "j \<le> n"
      using rank_diff_antimono [of n ops tot pct j] before that Suc by simp
    have "rank_diff ops tot pct n \<le> rank_diff ops tot pct j" if "n < j"
    proof -
      have "r < OPER_LOG_GRANULARITY" using that Suc assms(2) by simp
      from grew [OF this] have "prev_diff ops tot pct r < rank_diff ops tot pct r"
        and "rank_diff ops tot pct r \<le> rank_diff ops tot pct j"
        using rank_diff_after [of ops tot pct r j] that Suc by simp_all
      with Suc show ?thesis by (simp add: prev_diff_def)
    qed
    with low r Suc show ?thesis by (cases "j \<le> n") simp_all
  qed
qed

text \<open>A histogram of a single event.\<close>

definition one_event :: "nat \<Rightarrow> u32" where
  "one_event j = (if j = 7 then 1 else 0)"

lemma cum_one_event: "cum one_event i = (if 7 < i then 1 else 0)"
proof -
  have "cum one_event i = (\<Sum>j<i. if j = 7 then 1 else 0)"
    unfolding cum_def by (rule sum.cong) (simp_all add: one_event_def)
  then show ?thesis by simp
qed

lemma rank_diff_one_event: "rank_diff one_event 1 95 i = (if 7 \<le> i then 5 else 95)"
  by (simp add: rank_diff_def cell_rank_def cum_one_event)

theorem percentile_cell_closest_witness:
  "rank_diff one_event 1 95 (percentile_cell one_event 1 95) \<le> 5"
proof -
  have cum: "cum one_event OPER_LOG_GRANULARITY < 2 ^ 32" by (simp add: cum_one_event)
  have j: "7 < OPER_LOG_GRANULARITY" by (simp add: OPER_LOG_GRANULARITY_def)
  have exact: "rank_diff one_event 1 95 i \<ge> 1 / 10 ^ 6" for i by (simp add: rank_diff_one_event)
  show ?thesis
    using percentile_cell_closest [OF cum j, of 1 95, OF exact] unfolding rank_diff_one_event [of 7] by simp
qed

lemma search_never_stops:
  assumes pct: "unat pct < 100" and tot: "unat tot = cum ops OPER_LOG_GRANULARITY" "0 < unat tot"
    and k: "k < OPER_LOG_GRANULARITY" "\<And>j. k < j \<Longrightarrow> j < OPER_LOG_GRANULARITY \<Longrightarrow> ops j = 0"
    and top: "real (cum ops k) / real (unat tot) * 100 \<le> 2 * real (unat pct) - 100"
    and j: "j < OPER_LOG_GRANULARITY"
  shows "\<not> search_stops ops tot pct j"
proof -
  let ?pct = "real (unat pct)" and ?rank = "cell_rank ops tot"
  have pct': "?pct \<le> 99" using pct by linarith
  have full: "cum ops (Suc i) = cum ops OPER_LOG_GRANULARITY" if "k \<le> i" "i < OPER_LOG_GRANULARITY" for i
    unfolding cum_def using that k(2) by (intro sum.mono_neutral_left) auto
  have quot: "real x / real x * 100 = 100" if "0 < x" for x :: nat using that by simp
  have high: "?rank i = 100" if "k \<le> i" "i < OPER_LOG_GRANULARITY" for i
    unfolding cell_rank_def full [OF that] tot(1) [symmetric] by (rule quot [OF tot(2)])
  have low: "?rank i \<le> 2 * ?pct - 100" if "i < k" for i
  proof -
    have "?rank i \<le> real (cum ops k) / real (unat tot) * 100"
      unfolding cell_rank_def using cum_mono [of "Suc i" k ops] that
      by (intro mult_right_mono divide_right_mono of_nat_0_le_iff) simp_all
    with top show ?thesis by linarith
  qed
  have top0: "0 \<le> 2 * ?pct - 100"
    using top by (rule order_trans [rotated]) (intro mult_nonneg_nonneg divide_nonneg_nonneg of_nat_0_le_iff, simp)
  have prev: "rank_diff ops tot pct j \<le> prev_diff ops tot pct j"
  proof (cases j)
    case 0
    then show ?thesis
      unfolding rank_diff_def using low [of 0] high [of 0] cell_rank_nonneg [of ops tot 0] pct' top0 j
      by (cases "k = 0") (simp_all add: prev_diff_0 del: of_nat_unat)
  next
    case (Suc i)
    consider "j < k" | "i < k" "k \<le> j" | "k \<le> i" using Suc by linarith
    then show ?thesis
      unfolding rank_diff_def prev_diff_def Suc nat.case
      using low [of i] low [of j] high [of i] high [of j] cell_rank_mono [of i j ops tot] pct' Suc j
      by cases simp_all
  qed
  have "rank_diff ops tot pct j \<ge> 1"
    unfolding rank_diff_def using low [of j] high [of j] pct' j by (cases "j < k") simp_all
  with prev show ?thesis unfolding search_stops_def by simp
qed

text \<open>
  The percentile of a top-heavy histogram is wrong: when the slowest non-empty cell holds so
  many events that no cell is nearer to the percentile than the full 100 percent (a single event
  is enough for the default of 95), the search runs through the empty cells behind it and reports
  the upper end of the scale, 10 to the 13 nanoseconds, whatever was measured.
\<close>

theorem percentile_top_heavy:
  assumes "unat pct < 100" and "unat tot = cum ops OPER_LOG_GRANULARITY" and "0 < unat tot"
    and "unat tot < 2 ^ 32" and "k < OPER_LOG_GRANULARITY"
    and "\<And>j. k < j \<Longrightarrow> j < OPER_LOG_GRANULARITY \<Longrightarrow> ops j = 0"
    and "real (cum ops k) / real (unat tot) * 100 \<le> 2 * real (unat pct) - 100" and "oper_ready L"
  shows "cell_time L (percentile_cell ops tot pct) = 10 ^ 13"
proof -
  have "cum ops OPER_LOG_GRANULARITY < 2 ^ 32" using assms(2,4) by simp
  from percentile_cell_stop [OF this, of tot pct] search_never_stops [OF assms(1,2,3,5,6,7)]
  have cell: "percentile_cell ops tot pct = 99999"
    by (auto simp: OPER_LOG_GRANULARITY_def le_less)
  note m = oper_ready_mult [OF assms(8)]
  have "99999 / oper_log_mult L = ln OPER_LOG_MAX_VALUE" using m(1,3) by (simp add: field_simps)
  then show ?thesis
    using m(2) unfolding cell_time_def cell by (simp add: OPER_LOG_MAX_VALUE_def)
qed

theorem percentile_top_heavy_witness:
  "\<exists>L. oper_ready L \<and> cell_time L (percentile_cell one_event 1 95) = 10 ^ 13"
proof -
  let ?L = "demo_logger\<lparr>oper_log_deduct := ln OPER_LOG_MIN_VALUE,
    oper_log_mult := (real OPER_LOG_GRANULARITY - 1) / (ln OPER_LOG_MAX_VALUE - ln OPER_LOG_MIN_VALUE)\<rparr>"
  have ready: "oper_ready ?L" by (simp add: oper_ready_def)
  have "cell_time ?L (percentile_cell one_event 1 95) = 10 ^ 13"
    by (rule percentile_top_heavy [of 95 1 one_event 7, OF _ _ _ _ _ _ _ ready])
      (simp_all add: cum_one_event OPER_LOG_GRANULARITY_def one_event_def)
  with ready show ?thesis by blast
qed

text \<open>
  Formatted messages.  \<open>log_text\<close> stays inside of its buffer, and delivers the whole message with
  a newline exactly when the time stamp, the message, the newline and the NUL fit.  \<open>log_errno\<close>
  delivers a message that fits, drops one of exactly the size of the buffer, and writes behind the
  buffer for every longer one.
\<close>

theorem log_buffers:
  assumes "length pre < TEXT_BUFFER_SIZE"
  shows "length (log_buffer pre text) < TEXT_BUFFER_SIZE \<and>
    (log_buffer pre text = pre @ text @ [CHR 0x0A] \<longleftrightarrow> length pre + length text + 1 < TEXT_BUFFER_SIZE) \<and>
    (log_errno stamp p text suffix L = Inl Buffer_overflow \<longleftrightarrow> length text > TEXT_BUFFER_SIZE) \<and>
    (length text < TEXT_BUFFER_SIZE \<longrightarrow>
       log_errno stamp p text suffix L =
         Inr (log_text stamp p (take (TEXT_BUFFER_SIZE - 1) (text @ suffix)) L))"
proof -
  have small: "length (log_buffer pre text) < TEXT_BUFFER_SIZE"
    and iff: "log_buffer pre text = pre @ text @ [CHR 0x0A] \<longleftrightarrow> length pre + length text + 1 < TEXT_BUFFER_SIZE"
    using assms unfolding log_buffer_eq [OF assms]
    by (auto dest: arg_cong [where f = length] simp: min_def split: if_splits)
  have over: "log_errno stamp p text suffix L = Inl Buffer_overflow \<longleftrightarrow> length text > TEXT_BUFFER_SIZE"
    by (auto simp: log_errno_def snprintf_def Let_def)
  have fits: "log_errno stamp p text suffix L =
      Inr (log_text stamp p (take (TEXT_BUFFER_SIZE - 1) (text @ suffix)) L)"
    if "length text < TEXT_BUFFER_SIZE"
    using that by (simp add: log_errno_def snprintf_def Let_def)
  from small iff over fits show ?thesis by blast
qed

theorem log_buffers_witness:
  "log_errno (\<lambda>_. []) LOG_ALERT (replicate 5000 CHR ''x'') ''errno'' demo_logger = Inl Buffer_overflow"
  using log_buffers [of "[]" "replicate 5000 CHR ''x''" "\<lambda>_. []" LOG_ALERT "''errno''" demo_logger]
  by (simp add: TEXT_BUFFER_SIZE_def)

end
