(* ===== verification/SbBatch.thy ===== *)
theory SbBatch
  imports SbLogger
begin

text \<open>
  The batch thread of the sysbench logger (\<open>batch_runner_proc\<close>) with its condition variable: the
  handler of operations starts it, \<open>oper_handler_done\<close> stops it and joins.  A step of the relation is
  one critical section of \<open>batch_mutex\<close>, or one round of work without it; waiting releases the mutex
  and a signal wakes the thread only if it waits at that moment.  Spurious wakeups are left out,
  and operations end before \<open>oper_handler_done\<close> is called, as in a regular end of a run.
\<close>

section \<open>The system\<close>

datatype batch_pc = B_start | B_wait | B_check | B_timedwait | B_return

datatype done_pc = D_idle | D_joining | D_joined

record batch_sys =
  bs_log :: logger
  bs_pc :: batch_pc
  bs_done :: done_pc

definition signal_batch :: "batch_pc \<Rightarrow> batch_pc" where
  "signal_batch pc = (case pc of B_wait \<Rightarrow> B_check | B_timedwait \<Rightarrow> B_check | _ \<Rightarrow> pc)"

text \<open>One dump of the statistics; nothing is printed without events.\<close>

definition batch_dump ::
  "(nat \<Rightarrow> string) \<Rightarrow> (nat \<Rightarrow> nat \<Rightarrow> real \<Rightarrow> string) \<Rightarrow> sb_timer \<Rightarrow> sb_globals \<Rightarrow> logger \<Rightarrow> logger" where
  "batch_dump stamp pf junk g L =
     (let t = thread_totals junk g
      in if events t = 0 then L
         else log_text stamp LOG_NOTICE
           (''min: '' @ pf 0 4 (NS2SEC (real (unat (get_min_time t)))) @
            ''  avg: '' @ pf 0 4 (NS2SEC (real (unat (get_avg_time t)))) @
            ''  max: '' @ pf 0 4 (NS2SEC (real (unat (get_max_time t)))) @
            ''  percentile: '' @
              pf 0 4 (NS2SEC (cell_time L (percentile_cell (operations L) (events t) (oper_percentile L))))) L)"

inductive batch_step ::
  "(nat \<Rightarrow> string) \<Rightarrow> (nat \<Rightarrow> nat \<Rightarrow> real \<Rightarrow> string) \<Rightarrow> sb_timer \<Rightarrow> batch_sys \<Rightarrow> batch_sys \<Rightarrow> bool"
  for stamp :: "nat \<Rightarrow> string" and pf :: "nat \<Rightarrow> nat \<Rightarrow> real \<Rightarrow> string" and junk :: sb_timer where
  first_wait: "bs_pc s = B_start \<Longrightarrow> batch_step stamp pf junk s (s\<lparr>bs_pc := B_wait\<rparr>)"
| operation:
    "bs_done s = D_idle \<Longrightarrow> oper_handler_process stamp pf now msg (bs_log s) = Inr (msg', L') \<Longrightarrow>
     batch_step stamp pf junk s
       (s\<lparr>bs_log := L',
          bs_pc := (if batch_status (bs_log s) \<noteq> BATCH_STATUS_START then signal_batch (bs_pc s) else bs_pc s)\<rparr>)"
| loop_exit:
    "bs_pc s = B_check \<Longrightarrow> batch_status (bs_log s) = BATCH_STATUS_STOP \<Longrightarrow>
     batch_step stamp pf junk s (s\<lparr>bs_pc := B_return\<rparr>)"
| loop_wait:
    "bs_pc s = B_check \<Longrightarrow> batch_status (bs_log s) \<noteq> BATCH_STATUS_STOP \<Longrightarrow>
     batch_step stamp pf junk s (s\<lparr>bs_pc := B_timedwait\<rparr>)"
| timed_out:
    "bs_pc s = B_timedwait \<Longrightarrow>
     batch_step stamp pf junk s (s\<lparr>bs_log := batch_dump stamp pf junk g (bs_log s), bs_pc := B_check\<rparr>)"
| stop:
    "bs_done s = D_idle \<Longrightarrow>
     batch_step stamp pf junk s
       (s\<lparr>bs_log := (bs_log s)\<lparr>batch_status := BATCH_STATUS_STOP\<rparr>, bs_pc := signal_batch (bs_pc s),
          bs_done := D_joining\<rparr>)"
| join:
    "bs_done s = D_joining \<Longrightarrow> bs_pc s = B_return \<Longrightarrow> batch_step stamp pf junk s (s\<lparr>bs_done := D_joined\<rparr>)"

inductive_cases batch_stepE: "batch_step stamp pf junk s t"

definition batch_start :: "logger \<Rightarrow> batch_sys" where
  "batch_start L = \<lparr>bs_log = L, bs_pc = B_start, bs_done = D_idle\<rparr>"

section \<open>Facts\<close>

lemma batch_status_log_text [simp]: "batch_status (log_text stamp p w L) = batch_status L"
proof -
  have "batch_status (text_handler_process m L) = batch_status L" for m L
    by (simp add: text_handler_process_def Let_def)
  then have "batch_status (fold (\<lambda>h L. case h of Text_handler \<Rightarrow> text_handler_process m L | Oper_handler \<Rightarrow> L) hs L)
      = batch_status L" for m hs L
    by (induction hs arbitrary: L) (simp_all split: log_handler.split)
  then show ?thesis by (simp add: log_text_def log_msg_text_def Let_def)
qed

lemma batch_status_dump [simp]: "batch_status (batch_dump stamp pf junk g L) = batch_status L"
  by (simp add: batch_dump_def Let_def)

text \<open>Once \<open>oper_handler_done\<close> joins, the status stays at stop.\<close>

definition stopping :: "batch_sys \<Rightarrow> bool" where
  "stopping s \<longleftrightarrow> (bs_done s \<noteq> D_idle \<longrightarrow> batch_status (bs_log s) = BATCH_STATUS_STOP)"

lemma stopping_step [inv_intros]: "batch_step stamp pf junk s t \<Longrightarrow> stopping s \<Longrightarrow> stopping t"
  by (induction rule: batch_step.induct) (auto simp: stopping_def)

lemma stopping_reachable:
  assumes "(batch_step stamp pf junk)\<^sup>*\<^sup>* (batch_start L) s"
  shows "stopping s"
  using assms
proof (induction rule: rtranclp_induct)
  case base
  show ?case by (simp add: stopping_def batch_start_def)
qed (rule stopping_step)

lemma check_joins:
  assumes "bs_pc s = B_check" and "bs_done s = D_joining" and "stopping s"
  shows "(batch_step stamp pf junk)\<^sup>*\<^sup>* s (s\<lparr>bs_pc := B_return, bs_done := D_joined\<rparr>)"
proof -
  have "batch_step stamp pf junk s (s\<lparr>bs_pc := B_return\<rparr>)"
    using assms by (intro loop_exit) (simp_all add: stopping_def)
  moreover have "batch_step stamp pf junk (s\<lparr>bs_pc := B_return\<rparr>) (s\<lparr>bs_pc := B_return, bs_done := D_joined\<rparr>)"
    using join [of "s\<lparr>bs_pc := B_return\<rparr>" stamp pf junk] assms by simp
  ultimately show ?thesis by (meson converse_rtranclp_into_rtranclp rtranclp.rtrancl_refl)
qed

section \<open>Properties\<close>

text \<open>
  A batch thread that has got past its first wait is always joined: from every reachable state
  in which \<open>oper_handler_done\<close> joins, some continuation lets the join return.
\<close>

theorem batch_join_returns:
  assumes "(batch_step stamp pf junk)\<^sup>*\<^sup>* (batch_start L) s" and "bs_done s = D_joining"
    and "bs_pc s \<noteq> B_start" and "bs_pc s \<noteq> B_wait"
  shows "\<exists>t. (batch_step stamp pf junk)\<^sup>*\<^sup>* s t \<and> bs_done t = D_joined"
proof (cases "bs_pc s")
  case B_check
  with check_joins [OF this assms(2) stopping_reachable [OF assms(1)], of stamp pf junk] show ?thesis
    by fastforce
next
  case B_timedwait
  let ?t = "s\<lparr>bs_log := batch_dump stamp pf junk undefined (bs_log s), bs_pc := B_check\<rparr>"
  have step: "batch_step stamp pf junk s ?t" by (rule timed_out [OF B_timedwait])
  have "(batch_step stamp pf junk)\<^sup>*\<^sup>* ?t (?t\<lparr>bs_pc := B_return, bs_done := D_joined\<rparr>)"
    using stopping_step [OF step stopping_reachable [OF assms(1)]] assms(2) by (intro check_joins) simp_all
  with step have "(batch_step stamp pf junk)\<^sup>*\<^sup>* s (?t\<lparr>bs_pc := B_return, bs_done := D_joined\<rparr>)"
    by (rule converse_rtranclp_into_rtranclp)
  then show ?thesis by fastforce
next
  case B_return
  have "bs_done (s\<lparr>bs_done := D_joined\<rparr>) = D_joined" by simp
  with join [OF assms(2) B_return, of stamp pf junk] show ?thesis by blast
qed (use assms in simp_all)

theorem batch_join_returns_witness:
  "\<exists>s t. (batch_step (\<lambda>_. []) (\<lambda>_ _ _. []) undefined)\<^sup>*\<^sup>* (batch_start demo_logger) s \<and>
     (batch_step (\<lambda>_. []) (\<lambda>_ _ _. []) undefined)\<^sup>*\<^sup>* s t \<and> bs_done t = D_joined"
proof -
  let ?step = "batch_step (\<lambda>_. []) (\<lambda>_ _ _. []) undefined"
  let ?s0 = "batch_start demo_logger"
  let ?s1 = "?s0\<lparr>bs_pc := B_wait\<rparr>"
  let ?s2 = "?s1\<lparr>bs_log := (bs_log ?s1)\<lparr>batch_status := BATCH_STATUS_STOP\<rparr>, bs_pc := B_check, bs_done := D_joining\<rparr>"
  have "?step ?s0 ?s1" by (rule first_wait) (simp add: batch_start_def)
  moreover have "?step ?s1 ?s2"
    using stop [of ?s1 "\<lambda>_. []" "\<lambda>_ _ _. []" undefined] by (simp add: batch_start_def signal_batch_def)
  ultimately have reach: "?step\<^sup>*\<^sup>* ?s0 ?s2" by (meson rtranclp.rtrancl_into_rtrancl rtranclp.rtrancl_refl)
  have "\<exists>t. ?step\<^sup>*\<^sup>* ?s2 t \<and> bs_done t = D_joined"
    by (rule batch_join_returns [OF reach]) (simp_all)
  with reach show ?thesis by blast
qed

text \<open>
  The stop signal can be lost: if \<open>oper_handler_done\<close> signals before the batch thread has reached
  its first wait, the thread then waits without checking the status, and the join never returns.
\<close>

theorem batch_join_hangs:
  "\<exists>s. (batch_step stamp pf junk)\<^sup>*\<^sup>* (batch_start L) s \<and> bs_done s = D_joining \<and> bs_pc s = B_wait \<and>
     (\<forall>t. \<not> batch_step stamp pf junk s t)"
proof -
  let ?s0 = "batch_start L"
  let ?s1 = "?s0\<lparr>bs_log := L\<lparr>batch_status := BATCH_STATUS_STOP\<rparr>, bs_done := D_joining\<rparr>"
  let ?s2 = "?s1\<lparr>bs_pc := B_wait\<rparr>"
  have "batch_step stamp pf junk ?s0 ?s1"
    using stop [of ?s0 stamp pf junk] by (simp add: batch_start_def signal_batch_def)
  moreover have "batch_step stamp pf junk ?s1 ?s2" by (rule first_wait) (simp add: batch_start_def)
  ultimately have "(batch_step stamp pf junk)\<^sup>*\<^sup>* ?s0 ?s2"
    by (meson rtranclp.rtrancl_into_rtrancl rtranclp.rtrancl_refl)
  moreover have "\<not> batch_step stamp pf junk ?s2 t" for t
    by (auto elim: batch_stepE)
  ultimately show ?thesis by (intro exI [of _ ?s2]) simp
qed

end
