(* ===== verification/DbDriver.thy ===== *)
theory DbDriver
  imports SbOptions
begin

text \<open>
  The database abstraction layer of sysbench (\<open>db_driver.c\<close>, \<open>db_driver.h\<close>): driver registration
  and selection, connections, prepared statements, result sets and rows, and the printing of
  bound values.  The operations of a driver are arguments of the layer (\<open>drv_ops\<close>), functions on
  the whole state.  Objects live in maps from addresses; using an address that is not live is an
  error value, so that the layer's memory handling can be stated.  Memory does not run out and log
  messages are left out.
\<close>

section \<open>Data\<close>

datatype db_ps_mode = DB_PS_MODE_AUTO | DB_PS_MODE_DISABLE

record db_globals =
  ps_mode :: db_ps_mode
  gl_driver :: "string option"
  gl_debug :: u8

record drv_caps =
  multi_rows_insert :: bool
  transactions :: bool
  prepared_statements :: bool
  auto_increment :: bool
  needs_commit :: bool
  serial :: bool
  unsigned_int :: bool
  table_options_str :: "string option"

datatype db_error = SB_DB_ERROR_NONE | SB_DB_ERROR_DEADLOCK | SB_DB_ERROR_FAILED

record db_result_set =
  rs_connection :: "nat option"
  rs_statement :: "nat option"
  rs_row :: "nat option"
  rs_nrows :: u64

definition rs_zero :: db_result_set where
  "rs_zero = \<lparr>rs_connection = None, rs_statement = None, rs_row = None, rs_nrows = 0\<rparr>"

record db_conn =
  con_driver :: "nat option"
  con_errno :: db_error
  con_rs :: db_result_set

record db_stmt =
  st_connection :: "nat option"
  st_query :: "string option"
  st_bound_param :: bool
  st_emulated :: bool

text \<open>\<open>'w\<close> is the state of the drivers themselves.\<close>

record 'w db_state =
  conns :: "nat \<rightharpoonup> db_conn"
  stmts :: "nat \<rightharpoonup> db_stmt"
  rows :: "nat set"
  brk :: nat
  globals :: db_globals
  drv_state :: 'w

datatype db_fault = NullDeref | UseAfterFree | DoubleFree

type_synonym ('w, 'a) db_result = "db_fault + 'a \<times> 'w db_state"

record 'w drv_ops =
  op_init :: "'w db_state \<Rightarrow> int \<times> 'w db_state"
  op_describe :: "(drv_caps \<Rightarrow> string \<Rightarrow> 'w db_state \<Rightarrow> int \<times> drv_caps \<times> 'w db_state) option"
  op_connect :: "nat \<Rightarrow> 'w db_state \<Rightarrow> int \<times> 'w db_state"
  op_disconnect :: "nat \<Rightarrow> 'w db_state \<Rightarrow> int \<times> 'w db_state"
  op_prepare :: "nat \<Rightarrow> string \<Rightarrow> 'w db_state \<Rightarrow> int \<times> 'w db_state"
  op_bind_param :: "nat \<Rightarrow> nat \<Rightarrow> 'w db_state \<Rightarrow> int \<times> 'w db_state"
  op_bind_result :: "nat \<Rightarrow> nat \<Rightarrow> 'w db_state \<Rightarrow> int \<times> 'w db_state"
  op_execute :: "nat \<Rightarrow> nat \<Rightarrow> 'w db_state \<Rightarrow> db_error \<times> 'w db_state"
  op_fetch :: "nat \<Rightarrow> 'w db_state \<Rightarrow> int \<times> 'w db_state"
  op_fetch_row :: "nat \<Rightarrow> nat \<Rightarrow> 'w db_state \<Rightarrow> int \<times> 'w db_state"
  op_num_rows :: "nat \<Rightarrow> 'w db_state \<Rightarrow> u64"
  op_free_results :: "nat \<Rightarrow> 'w db_state \<Rightarrow> int \<times> 'w db_state"
  op_close :: "nat \<Rightarrow> 'w db_state \<Rightarrow> int \<times> 'w db_state"
  op_query :: "nat \<Rightarrow> string \<Rightarrow> 'w db_state \<Rightarrow> db_error \<times> 'w db_state"
  op_store_results :: "nat \<Rightarrow> 'w db_state \<Rightarrow> int \<times> 'w db_state"
  op_done :: "'w db_state \<Rightarrow> int \<times> 'w db_state"

record 'w db_driver =
  sname :: string
  lname :: string
  drv_args :: "sb_arg list option"
  ops :: "'w drv_ops"

section \<open>Registration and selection\<close>

definition db_args :: "sb_arg list" where
  "db_args =
     [\<lparr>arg_name = ''db-driver'',
       arg_desc = ''specifies database driver to use ('' @ [CHR 0x27] @ ''help'' @ [CHR 0x27] @
         '' to get list of available drivers)'',
       arg_type = SB_ARG_TYPE_STRING, arg_value = None\<rparr>,
      \<lparr>arg_name = ''db-ps-mode'', arg_desc = ''prepared statements usage mode {auto, disable}'',
       arg_type = SB_ARG_TYPE_STRING, arg_value = Some ''auto''\<rparr>]"

text \<open>\<open>drivers\<close> is what the compiled-in registrars put on the list, in order.\<close>

definition db_register :: "'w db_driver list \<Rightarrow> option_t list \<Rightarrow> option_t list" where
  "db_register drivers opts =
     (let opts = fold (\<lambda>drv opts. case drv_args drv of
                          None \<Rightarrow> opts | Some args \<Rightarrow> fst (sb_register_arg_set args opts)) drivers opts
      in fst (sb_register_arg_set db_args opts))"

definition db_print_help :: "'w db_driver list \<Rightarrow> string list" where
  "db_print_help drivers =
     [''General database options:'', sb_print_options db_args, [], ''Compiled-in database drivers:''] @
     map (\<lambda>drv. ''  '' @ sname drv @ '' - '' @ lname drv) drivers @ [[]] @
     concat (map (\<lambda>drv. [sname drv @ '' options:'',
                         sb_print_options (case drv_args drv of None \<Rightarrow> [] | Some as \<Rightarrow> as)]) drivers)"

text \<open>
  \<open>db_parse_arguments\<close> sets the mode and the driver name of the globals; \<open>strcmp\<close> on a missing value
  is a fault.
\<close>

definition db_parse_arguments :: "option_t list \<Rightarrow> db_globals \<Rightarrow> db_fault + int \<times> db_globals" where
  "db_parse_arguments opts g =
     (case sb_get_value_string ''db-ps-mode'' opts of
        None \<Rightarrow> Inl NullDeref
      | Some s \<Rightarrow>
          if s = ''auto'' then
            Inr (0, g\<lparr>ps_mode := DB_PS_MODE_AUTO, gl_driver := sb_get_value_string ''db-driver'' opts\<rparr>)
          else if s = ''disable'' then
            Inr (0, g\<lparr>ps_mode := DB_PS_MODE_DISABLE, gl_driver := sb_get_value_string ''db-driver'' opts\<rparr>)
          else Inr (1, g))"

text \<open>
  The search loop of \<open>db_init\<close>: \<open>drv\<close> is assigned on every round, so without a match it ends as the
  last driver.
\<close>

fun search_driver :: "string \<Rightarrow> 'w db_driver list \<Rightarrow> 'w db_driver option \<Rightarrow> 'w db_driver option" where
  "search_driver name [] drv = drv"
| "search_driver name (d # ds) drv = (if sname d = name then Some d else search_driver name ds (Some d))"

definition db_select :: "string option \<Rightarrow> string option \<Rightarrow> 'w db_driver list \<Rightarrow> 'w db_driver option" where
  "db_select name global drivers =
     (if name = None \<and> global = None then
        (case drivers of [d] \<Rightarrow> Some d | _ \<Rightarrow> None)
      else search_driver (case name of None \<Rightarrow> the global | Some n \<Rightarrow> n) drivers None)"

text \<open>\<open>debug\<close> is the flag of \<open>sb_globals\<close>.\<close>

definition db_init ::
  "string option \<Rightarrow> 'w db_driver list \<Rightarrow> option_t list \<Rightarrow> u8 \<Rightarrow> 'w db_state \<Rightarrow> ('w, 'w db_driver option) db_result" where
  "db_init name drivers opts debug s =
     (if drivers = [] then Inr (None, s)
      else bind_res (db_parse_arguments opts (globals s))
        (\<lambda>(rc, g).
           let s = s\<lparr>globals := g\<rparr>
           in if rc \<noteq> 0 then Inr (None, s)
              else (case db_select name (gl_driver g) drivers of
                      None \<Rightarrow> Inr (None, s)
                    | Some drv \<Rightarrow>
                        (let s = s\<lparr>globals := (globals s)\<lparr>gl_debug := debug\<rparr>\<rparr>;
                             (rc, s) = op_init (ops drv) s
                         in Inr (if rc \<noteq> 0 then None else Some drv, s)))))"

definition db_describe ::
  "'w db_driver \<Rightarrow> drv_caps \<Rightarrow> string \<Rightarrow> 'w db_state \<Rightarrow> int \<times> drv_caps \<times> 'w db_state" where
  "db_describe drv caps table s =
     (case op_describe (ops drv) of None \<Rightarrow> (1, caps, s) | Some f \<Rightarrow> f caps table s)"

section \<open>Connections and statements\<close>

text \<open>\<open>D\<close> gives the driver at an address.\<close>

definition db_connect :: "(nat \<Rightarrow> 'w db_driver) \<Rightarrow> nat \<Rightarrow> 'w db_state \<Rightarrow> nat option \<times> 'w db_state" where
  "db_connect D drv s =
     (let c = brk s;
          s = s\<lparr>brk := Suc c,
                conns := (conns s)(c \<mapsto> \<lparr>con_driver = Some drv, con_errno = SB_DB_ERROR_NONE, con_rs = rs_zero\<rparr>)\<rparr>;
          (rc, s) = op_connect (ops (D drv)) c s
      in if rc \<noteq> 0 then (None, s\<lparr>conns := (conns s)(c := None)\<rparr>) else (Some c, s))"

definition db_disconnect :: "(nat \<Rightarrow> 'w db_driver) \<Rightarrow> nat \<Rightarrow> 'w db_state \<Rightarrow> ('w, int) db_result" where
  "db_disconnect D c s =
     (case conns s c of
        None \<Rightarrow> Inl UseAfterFree
      | Some con \<Rightarrow>
          (case con_driver con of
             None \<Rightarrow> Inr (1, s)
           | Some d \<Rightarrow> (let (rc, s) = op_disconnect (ops (D d)) c s
                        in Inr (0, s\<lparr>conns := (conns s)(c := None)\<rparr>))))"

definition db_prepare :: "(nat \<Rightarrow> 'w db_driver) \<Rightarrow> nat \<Rightarrow> string \<Rightarrow> 'w db_state \<Rightarrow> ('w, nat option) db_result" where
  "db_prepare D c query s =
     (case conns s c of
        None \<Rightarrow> Inl UseAfterFree
      | Some con \<Rightarrow>
          (case con_driver con of
             None \<Rightarrow> Inl NullDeref
           | Some d \<Rightarrow>
               (let st = brk s;
                    s = s\<lparr>brk := Suc st,
                          stmts := (stmts s)(st \<mapsto> \<lparr>st_connection = Some c, st_query = None,
                                                    st_bound_param = False, st_emulated = False\<rparr>)\<rparr>;
                    (rc, s) = op_prepare (ops (D d)) st query s
                in Inr (if rc \<noteq> 0 then (None, s\<lparr>stmts := (stmts s)(st := None)\<rparr>) else (Some st, s)))))"

text \<open>The pattern of the calls on a statement: its connection and driver must be there.\<close>

definition with_stmt ::
  "(nat \<Rightarrow> 'w db_driver) \<Rightarrow> nat \<Rightarrow> 'w db_state \<Rightarrow> 'a \<Rightarrow> (nat \<Rightarrow> 'w drv_ops \<Rightarrow> 'w db_state \<Rightarrow> ('w, 'a) db_result) \<Rightarrow>
   ('w, 'a) db_result" where
  "with_stmt D st s fail f =
     (case stmts s st of
        None \<Rightarrow> Inl UseAfterFree
      | Some stmt \<Rightarrow>
          (case st_connection stmt of
             None \<Rightarrow> Inr (fail, s)
           | Some c \<Rightarrow> (case conns s c of
                          None \<Rightarrow> Inl UseAfterFree
                        | Some con \<Rightarrow> (case con_driver con of
                                          None \<Rightarrow> Inr (fail, s)
                                        | Some d \<Rightarrow> f c (ops (D d)) s))))"

definition db_bind_param ::
  "(nat \<Rightarrow> 'w db_driver) \<Rightarrow> nat \<Rightarrow> nat \<Rightarrow> 'w db_state \<Rightarrow> ('w, int) db_result" where
  "db_bind_param D st len s = with_stmt D st s 1 (\<lambda>c drv s. Inr (op_bind_param drv st len s))"

definition set_conn :: "nat \<Rightarrow> (db_conn \<Rightarrow> db_conn) \<Rightarrow> 'w db_state \<Rightarrow> 'w db_state" where
  "set_conn c f s = s\<lparr>conns := (conns s)(c := map_option f (conns s c))\<rparr>"

text \<open>The result set of a connection is a part of it, so its address is the connection's.\<close>

definition db_execute :: "(nat \<Rightarrow> 'w db_driver) \<Rightarrow> nat \<Rightarrow> 'w db_state \<Rightarrow> ('w, nat option) db_result" where
  "db_execute D st s =
     with_stmt D st s None
       (\<lambda>c drv s.
          let s = set_conn c (\<lambda>con. con\<lparr>con_rs := rs_zero\<lparr>rs_statement := Some st, rs_connection := Some c\<rparr>\<rparr>) s;
              (err, s) = op_execute drv st c s;
              s = set_conn c (\<lambda>con. con\<lparr>con_errno := err\<rparr>) s
          in Inr (if err \<noteq> SB_DB_ERROR_NONE then None else Some c, s))"

definition db_query :: "(nat \<Rightarrow> 'w db_driver) \<Rightarrow> nat \<Rightarrow> string \<Rightarrow> 'w db_state \<Rightarrow> ('w, nat option) db_result" where
  "db_query D c query s =
     (case conns s c of
        None \<Rightarrow> Inl UseAfterFree
      | Some con \<Rightarrow>
          (case con_driver con of
             None \<Rightarrow> Inr (None, s)
           | Some d \<Rightarrow>
               (let s = set_conn c (\<lambda>con. con\<lparr>con_rs := rs_zero\<lparr>rs_connection := Some c\<rparr>\<rparr>) s;
                    (err, s) = op_query (ops (D d)) c query s;
                    s = set_conn c (\<lambda>con. con\<lparr>con_errno := err\<rparr>) s
                in Inr (if err \<noteq> SB_DB_ERROR_NONE then None else Some c, s))))"

section \<open>Result sets and rows\<close>

text \<open>The pattern of the calls on a result set.\<close>

definition with_rs ::
  "(nat \<Rightarrow> 'w db_driver) \<Rightarrow> nat \<Rightarrow> 'w db_state \<Rightarrow> 'a \<Rightarrow>
   (db_result_set \<Rightarrow> 'w drv_ops \<Rightarrow> 'w db_state \<Rightarrow> ('w, 'a) db_result) \<Rightarrow> ('w, 'a) db_result" where
  "with_rs D rs s fail f =
     (case conns s rs of
        None \<Rightarrow> Inl UseAfterFree
      | Some con \<Rightarrow>
          (case rs_connection (con_rs con) of
             None \<Rightarrow> Inr (fail, s)
           | Some c \<Rightarrow> (case conns s c of
                          None \<Rightarrow> Inl UseAfterFree
                        | Some con' \<Rightarrow> (case con_driver con' of
                                           None \<Rightarrow> Inr (fail, s)
                                         | Some d \<Rightarrow> f (con_rs con) (ops (D d)) s))))"

definition db_fetch :: "(nat \<Rightarrow> 'w db_driver) \<Rightarrow> nat \<Rightarrow> 'w db_state \<Rightarrow> ('w, int) db_result" where
  "db_fetch D rs s =
     with_rs D rs s 1
       (\<lambda>r drv s. case rs_statement r of
            None \<Rightarrow> Inr (1, s)
          | Some st \<Rightarrow> (case stmts s st of
                          None \<Rightarrow> Inl UseAfterFree
                        | Some stmt \<Rightarrow> if \<not> st_emulated stmt then Inr (op_fetch drv rs s) else Inr (1, s)))"

definition db_num_rows :: "(nat \<Rightarrow> 'w db_driver) \<Rightarrow> nat \<Rightarrow> 'w db_state \<Rightarrow> ('w, u64) db_result" where
  "db_num_rows D rs s = with_rs D rs s 0 (\<lambda>r drv s. Inr (op_num_rows drv rs s, s))"

definition db_free_row :: "nat \<Rightarrow> 'w db_state \<Rightarrow> db_fault + 'w db_state" where
  "db_free_row row s = (if row \<in> rows s then Inr (s\<lparr>rows := rows s - {row}\<rparr>) else Inl DoubleFree)"

definition free_old_row :: "db_result_set \<Rightarrow> 'w db_state \<Rightarrow> db_fault + 'w db_state" where
  "free_old_row r s = (case rs_row r of None \<Rightarrow> Inr s | Some row \<Rightarrow> db_free_row row s)"

definition db_fetch_row :: "(nat \<Rightarrow> 'w db_driver) \<Rightarrow> nat \<Rightarrow> 'w db_state \<Rightarrow> ('w, nat option) db_result" where
  "db_fetch_row D rs s =
     with_rs D rs s None
       (\<lambda>r drv s.
          if rs_statement r \<noteq> None then Inr (None, s)
          else bind_res (free_old_row r s)
            (\<lambda>s. let row = brk s;
                     s = s\<lparr>brk := Suc row, rows := insert row (rows s)\<rparr>;
                     s = set_conn rs (\<lambda>con. con\<lparr>con_rs := (con_rs con)\<lparr>rs_row := Some row\<rparr>\<rparr>) s;
                     (rc, s) = op_fetch_row drv rs row s
                 in if rc \<noteq> 0 then bind_res (db_free_row row s) (\<lambda>s. Inr (None, s)) else Inr (Some row, s)))"

definition db_free_results :: "(nat \<Rightarrow> 'w db_driver) \<Rightarrow> nat \<Rightarrow> 'w db_state \<Rightarrow> ('w, int) db_result" where
  "db_free_results D rs s =
     with_rs D rs s 1
       (\<lambda>_ drv s.
          let (rc, s) = op_free_results drv rs s
          in bind_res (case conns s rs of None \<Rightarrow> Inl UseAfterFree | Some con \<Rightarrow> free_old_row (con_rs con) s)
               (\<lambda>s. Inr (rc, s)))"

definition db_store_results :: "(nat \<Rightarrow> 'w db_driver) \<Rightarrow> nat \<Rightarrow> 'w db_state \<Rightarrow> ('w, int) db_result" where
  "db_store_results D rs s = with_rs D rs s 2 (\<lambda>r drv s. Inr (op_store_results drv rs s))"

text \<open>The freed statement takes its query text and its array of bound parameters with it.\<close>

definition db_close :: "(nat \<Rightarrow> 'w db_driver) \<Rightarrow> nat option \<Rightarrow> 'w db_state \<Rightarrow> ('w, int) db_result" where
  "db_close D stmt s =
     (case stmt of
        None \<Rightarrow> Inr (1, s)
      | Some st \<Rightarrow>
          with_stmt D st s 1
            (\<lambda>c drv s. let (rc, s) = op_close drv st s in Inr (rc, s\<lparr>stmts := (stmts s)(st := None)\<rparr>)))"

definition db_done :: "'w db_driver \<Rightarrow> 'w db_state \<Rightarrow> int \<times> 'w db_state" where
  "db_done drv s = op_done (ops drv) s"

definition db_errno :: "nat \<Rightarrow> 'w db_state \<Rightarrow> db_fault + db_error" where
  "db_errno c s = (case conns s c of None \<Rightarrow> Inl UseAfterFree | Some con \<Rightarrow> Inr (con_errno con))"

section \<open>Printing bound values\<close>

record db_time =
  year :: u32
  month :: u32
  day :: u32
  hour :: u32
  minute :: u32
  second :: u32

text \<open>A bind variable with its buffer; \<open>'f\<close> are the floating point numbers.\<close>

datatype 'f db_bind =
  DB_TYPE_NONE | DB_TYPE_TINYINT "8 word" | DB_TYPE_SMALLINT "16 word" | DB_TYPE_INT "32 word"
| DB_TYPE_BIGINT "64 word" | DB_TYPE_FLOAT 'f | DB_TYPE_DOUBLE 'f | DB_TYPE_TIME db_time
| DB_TYPE_DATE db_time | DB_TYPE_DATETIME db_time | DB_TYPE_TIMESTAMP db_time
| DB_TYPE_CHAR string | DB_TYPE_VARCHAR string

text \<open>The conversion \<open>%d\<close> of an unsigned field reads it as signed.\<close>

definition show_u32 :: "u32 \<Rightarrow> string" where
  "show_u32 w = show_int (sint w)"

definition quoted :: "string \<Rightarrow> string" where
  "quoted s = CHR 0x27 # s @ [CHR 0x27]"

definition show_date :: "db_time \<Rightarrow> string" where
  "show_date tm = show_u32 (year tm) @ ''-'' @ show_u32 (month tm) @ ''-'' @ show_u32 (day tm)"

definition show_time :: "db_time \<Rightarrow> string" where
  "show_time tm = show_u32 (hour tm) @ '':'' @ show_u32 (minute tm) @ '':'' @ show_u32 (second tm)"

text \<open>The full text of a variable.\<close>

definition bind_text :: "('f \<Rightarrow> string) \<Rightarrow> 'f db_bind \<Rightarrow> string" where
  "bind_text show_float var =
     (case var of
        DB_TYPE_TINYINT v \<Rightarrow> show_int (sint v) | DB_TYPE_SMALLINT v \<Rightarrow> show_int (sint v)
      | DB_TYPE_INT v \<Rightarrow> show_int (sint v) | DB_TYPE_BIGINT v \<Rightarrow> show_int (sint v)
      | DB_TYPE_FLOAT f \<Rightarrow> show_float f | DB_TYPE_DOUBLE f \<Rightarrow> show_float f
      | DB_TYPE_CHAR s \<Rightarrow> quoted s | DB_TYPE_VARCHAR s \<Rightarrow> quoted s
      | DB_TYPE_DATE tm \<Rightarrow> quoted (show_date tm) | DB_TYPE_TIME tm \<Rightarrow> quoted (show_time tm)
      | DB_TYPE_DATETIME tm \<Rightarrow> quoted (show_date tm @ '' '' @ show_time tm)
      | DB_TYPE_TIMESTAMP tm \<Rightarrow> quoted (show_date tm @ '' '' @ show_time tm)
      | DB_TYPE_NONE \<Rightarrow> [])"

definition db_print_value :: "('f \<Rightarrow> string) \<Rightarrow> 'f db_bind \<Rightarrow> nat \<Rightarrow> string \<times> int" where
  "db_print_value show_float var buflen =
     (let (buf, n) = snprintf buflen (bind_text show_float var)
      in (buf, if n < int buflen then n else - 1))"

section \<open>Facts\<close>

lemma search_driver_eq:
  "search_driver name ds drv =
     (case find (\<lambda>d. sname d = name) ds of
        Some d \<Rightarrow> Some d | None \<Rightarrow> if ds = [] then drv else Some (last ds))"
  by (induction ds arbitrary: drv) (auto split: option.split)

lemma rows_set_conn [simp]:
  "rows (set_conn c f s) = rows s" "brk (set_conn c f s) = brk s"
  "stmts (set_conn c f s) = stmts s" "drv_state (set_conn c f s) = drv_state s"
  "conns (set_conn c f s) = (conns s)(c := map_option f (conns s c))"
  by (simp_all add: set_conn_def)

lemma show_int_not_Nil: "show_int i \<noteq> []"
  by (simp add: show_int_def)

lemma sint_small:
  assumes "unat (w :: u32) < 2 ^ 31"
  shows "sint w = int (unat w)"
proof -
  have "uint w = int (unat w)" by simp
  also have "\<dots> < int (2 ^ 31)" using assms by (simp only: of_nat_less_iff)
  finally have "uint w < 2 ^ (LENGTH(32) - Suc 0)" by simp
  moreover have "- (2 ^ (LENGTH(32) - Suc 0)) \<le> uint w" by (rule order_trans [of _ 0]) simp_all
  ultimately show ?thesis by (simp add: sint_uint signed_take_bit_int_eq_self)
qed

lemma show_int_nonneg: "0 \<le> i \<Longrightarrow> show_int i = dec (nat i)"
  by (simp add: show_int_def)

lemma show_u32_small: "unat w < 2 ^ 31 \<Longrightarrow> show_u32 w = dec (unat w)"
  using sint_small [of w] by (simp add: show_u32_def show_int_nonneg)

text \<open>A driver whose operations touch nothing but the driver's own state.\<close>

definition inert_ops :: "'w drv_ops \<Rightarrow> bool" where
  "inert_ops drv \<longleftrightarrow>
     (\<forall>c s. \<exists>rc w. op_connect drv c s = (rc, s\<lparr>drv_state := w\<rparr>)) \<and>
     (\<forall>c s. \<exists>rc w. op_disconnect drv c s = (rc, s\<lparr>drv_state := w\<rparr>)) \<and>
     (\<forall>c s. \<exists>rc w. op_free_results drv c s = (rc, s\<lparr>drv_state := w\<rparr>)) \<and>
     (\<forall>c r s. \<exists>rc w. op_fetch_row drv c r s = (rc, s\<lparr>drv_state := w\<rparr>))"

section \<open>Properties\<close>

text \<open>
  Driver selection.  With usable options and drivers that initialise, \<open>db_init\<close> returns the only
  driver when no name is given, the registered driver of the given name, and (where the source
  means to report an invalid name) the last registered driver when the name is unknown.
\<close>

theorem db_init_selects:
  assumes "drivers \<noteq> []" and "db_parse_arguments opts (globals s) = Inr (0, g)"
    and "\<And>d s. d \<in> set drivers \<Longrightarrow> fst (op_init (ops d) s) = 0"
  shows "\<exists>s'. db_init name drivers opts debug s =
    Inr (case (name, gl_driver g) of
           (None, None) \<Rightarrow> if length drivers = 1 then Some (hd drivers) else None
         | (None, Some n) \<Rightarrow>
             (case find (\<lambda>d. sname d = n) drivers of Some d \<Rightarrow> Some d | None \<Rightarrow> Some (last drivers))
         | (Some n, _) \<Rightarrow>
             (case find (\<lambda>d. sname d = n) drivers of Some d \<Rightarrow> Some d | None \<Rightarrow> Some (last drivers)),
         s')"
proof -
  have init: "\<exists>s'. op_init (ops d) s = (0, s')" if "d \<in> set drivers" for d s
    using assms(3) [OF that] by (metis prod.collapse)
  define chosen where "chosen = db_select name (gl_driver g) drivers"
  have known: "chosen = Some d \<Longrightarrow> d \<in> set drivers" for d
    using assms(1) unfolding chosen_def db_select_def search_driver_eq
    by (auto split: if_splits list.splits option.splits dest: find_SomeD)
  have "\<exists>s'. db_init name drivers opts debug s = Inr (chosen, s')"
  proof (cases chosen)
    case None
    with assms show ?thesis by (simp add: db_init_def chosen_def)
  next
    case (Some d)
    from init [OF known [OF this]] obtain s'
      where "op_init (ops d) (s\<lparr>globals := g\<lparr>gl_debug := debug\<rparr>\<rparr>) = (0, s')" by blast
    with Some assms show ?thesis by (simp add: db_init_def chosen_def)
  qed
  moreover have "chosen =
      (case (name, gl_driver g) of
           (None, None) \<Rightarrow> if length drivers = 1 then Some (hd drivers) else None
         | (None, Some n) \<Rightarrow>
             (case find (\<lambda>d. sname d = n) drivers of Some d \<Rightarrow> Some d | None \<Rightarrow> Some (last drivers))
         | (Some n, _) \<Rightarrow>
             (case find (\<lambda>d. sname d = n) drivers of Some d \<Rightarrow> Some d | None \<Rightarrow> Some (last drivers)))"
    using assms(1) unfolding chosen_def db_select_def search_driver_eq
    by (cases drivers) (auto split: option.split list.split)
  ultimately show ?thesis by simp
qed

text \<open>A driver that does nothing but answer, for concrete runs; \<open>fetch\<close> is its row count.\<close>

definition demo_ops :: "(nat) drv_ops" where
  "demo_ops =
     \<lparr>op_init = (\<lambda>s. (0, s)), op_describe = None, op_connect = (\<lambda>c s. (0, s)),
      op_disconnect = (\<lambda>c s. (0, s)), op_prepare = (\<lambda>st q s. (0, s)),
      op_bind_param = (\<lambda>st n s. (0, s)), op_bind_result = (\<lambda>st n s. (0, s)),
      op_execute = (\<lambda>st c s. (SB_DB_ERROR_NONE, s)),
      op_fetch = (\<lambda>c s. (0, s)),
      op_fetch_row = (\<lambda>c r s. case drv_state s of 0 \<Rightarrow> (1, s) | Suc n \<Rightarrow> (0, s\<lparr>drv_state := n\<rparr>)),
      op_num_rows = (\<lambda>c s. 0), op_free_results = (\<lambda>c s. (0, s)), op_close = (\<lambda>st s. (0, s)),
      op_query = (\<lambda>c q s. (SB_DB_ERROR_NONE, s)), op_store_results = (\<lambda>c s. (0, s)),
      op_done = (\<lambda>s. (0, s))\<rparr>"

definition demo_driver :: "string \<Rightarrow> nat db_driver" where
  "demo_driver n = \<lparr>sname = n, lname = n, drv_args = None, ops = demo_ops\<rparr>"

definition demo_opts :: "option_t list" where
  "demo_opts = fst (sb_register_arg_set db_args [])"

lemma demo_opts_parse:
  "db_parse_arguments demo_opts g = Inr (0, g\<lparr>ps_mode := DB_PS_MODE_AUTO, gl_driver := None\<rparr>)"
  by (simp add: demo_opts_def db_args_def db_parse_arguments_def sb_get_value_string_def
      set_option_def set_option_values_def add_option_def find_option_def new_option_def
      add_value_def new_value_def Let_def)

lemma demo_driver_simps [simp]:
  "sname (demo_driver n) = n" "fst (op_init (ops (demo_driver n)) s) = 0"
  by (simp_all add: demo_driver_def demo_ops_def)

text \<open>One open connection, and \<open>n\<close> rows the driver can still deliver.\<close>

definition demo_db :: "nat \<Rightarrow> nat db_state" where
  "demo_db n =
     \<lparr>conns = [0 \<mapsto> \<lparr>con_driver = Some 0, con_errno = SB_DB_ERROR_NONE, con_rs = rs_zero\<rparr>],
      stmts = Map.empty, rows = {}, brk = 1,
      globals = \<lparr>ps_mode = DB_PS_MODE_AUTO, gl_driver = None, gl_debug = 0\<rparr>, drv_state = n\<rparr>"

theorem db_init_selects_witness:
  "\<exists>s'. db_init (Some ''oracle'') [demo_driver ''mysql'', demo_driver ''pgsql''] demo_opts 0 (demo_db 0) =
     Inr (Some (demo_driver ''pgsql''), s')"
proof -
  let ?ds = "[demo_driver ''mysql'', demo_driver ''pgsql'']"
  have ne: "?ds \<noteq> []" by simp
  have init: "fst (op_init (ops d) s) = 0" if "d \<in> set ?ds" for d s using that by auto
  show ?thesis
    using db_init_selects [OF ne demo_opts_parse init, where s = "demo_db 0" and name = "Some ''oracle''" and debug = 0] by simp
qed

text \<open>
  Fetching the rows of a query to the end and then freeing the results, the order every caller
  of the interface uses, frees the last row twice: \<open>db_fetch_row\<close> frees the row when the driver
  reports the end but leaves \<open>rs->row\<close> pointing to it, and \<open>db_free_results\<close> frees that pointer
  again.
\<close>

theorem db_fetch_row_end_double_free:
  assumes "inert_ops (ops (D d))" and "conns s c = Some con" and "con_driver con = Some d"
    and "rs_connection (con_rs con) = Some c" and "rs_statement (con_rs con) = None"
    and "rs_row (con_rs con) = None" and "brk s \<notin> rows s"
    and "\<And>c r s. fst (op_fetch_row (ops (D d)) c r s) \<noteq> 0"
  shows "\<exists>s'. db_fetch_row D c s = Inr (None, s') \<and> db_free_results D c s' = Inl DoubleFree"
proof -
  let ?drv = "ops (D d)"
  let ?con = "con\<lparr>con_rs := (con_rs con)\<lparr>rs_row := Some (brk s)\<rparr>\<rparr>"
  let ?s1 = "(set_conn c (\<lambda>con. con\<lparr>con_rs := (con_rs con)\<lparr>rs_row := Some (brk s)\<rparr>\<rparr>)
      (s\<lparr>brk := Suc (brk s), rows := insert (brk s) (rows s)\<rparr>))"
  obtain rc w where f: "op_fetch_row ?drv c (brk s) ?s1 = (rc, ?s1\<lparr>drv_state := w\<rparr>)" "rc \<noteq> 0"
  proof -
    from assms(1) obtain rc w where "op_fetch_row ?drv c (brk s) ?s1 = (rc, ?s1\<lparr>drv_state := w\<rparr>)"
      unfolding inert_ops_def by blast
    with assms(8) [of c "brk s" ?s1] that show ?thesis by simp
  qed
  let ?s2 = "?s1\<lparr>drv_state := w, rows := rows s\<rparr>"
  have "db_fetch_row D c s = Inr (None, ?s2)"
    using assms f
    by (simp add: db_fetch_row_def with_rs_def free_old_row_def db_free_row_def Let_def)
  moreover obtain rc' w' where "op_free_results ?drv c ?s2 = (rc', ?s2\<lparr>drv_state := w'\<rparr>)"
    using assms(1) unfolding inert_ops_def by blast
  then have "db_free_results D c ?s2 = Inl DoubleFree"
    using assms by (simp add: db_free_results_def with_rs_def free_old_row_def db_free_row_def)
  ultimately show ?thesis by blast
qed

definition demo_ended :: "nat drv_ops" where
  "demo_ended = demo_ops\<lparr>op_fetch_row := (\<lambda>c r s. (1, s))\<rparr>"

lemma demo_ended_inert: "inert_ops demo_ended"
proof -
  have same: "\<exists>w. s = s\<lparr>drv_state := w\<rparr>" for s :: "nat db_state" by (rule exI [of _ "drv_state s"]) simp
  show ?thesis unfolding inert_ops_def using same by (simp add: demo_ended_def demo_ops_def)
qed

theorem db_fetch_row_end_double_free_witness:
  "\<exists>s s'. db_fetch_row (\<lambda>_. (demo_driver ''m'')\<lparr>ops := demo_ended\<rparr>) 0 s = Inr (None, s') \<and>
     db_free_results (\<lambda>_. (demo_driver ''m'')\<lparr>ops := demo_ended\<rparr>) 0 s' = Inl DoubleFree"
proof -
  let ?con = "\<lparr>con_driver = Some 0, con_errno = SB_DB_ERROR_NONE,
    con_rs = rs_zero\<lparr>rs_connection := Some 0\<rparr>\<rparr>"
  let ?s = "(demo_db 0)\<lparr>conns := [0 \<mapsto> ?con]\<rparr>"
  have "\<exists>s'. db_fetch_row (\<lambda>_. (demo_driver ''m'')\<lparr>ops := demo_ended\<rparr>) 0 ?s = Inr (None, s') \<and>
     db_free_results (\<lambda>_. (demo_driver ''m'')\<lparr>ops := demo_ended\<rparr>) 0 s' = Inl DoubleFree"
    by (rule db_fetch_row_end_double_free [where d = 0 and con = ?con])
      (simp_all add: demo_ended_inert, simp_all add: demo_db_def rs_zero_def demo_ended_def)
  then show ?thesis by blast
qed

text \<open>
  \<open>db_print_value\<close> returns the length of the text when the whole text (and its NUL) is in the
  buffer, and -1 exactly when it had to be cut.
\<close>

theorem db_print_value_complete:
  assumes "buflen > 0"
  shows "(snd (db_print_value show_float var buflen) = - 1 \<longleftrightarrow>
       fst (db_print_value show_float var buflen) \<noteq> bind_text show_float var) \<and>
    (snd (db_print_value show_float var buflen) \<noteq> - 1 \<longrightarrow>
       snd (db_print_value show_float var buflen) = int (length (bind_text show_float var)))"
proof -
  have "take (buflen - 1) t = t \<longleftrightarrow> length t < buflen" for t :: string
    using assms by (auto simp: take_all_iff)
  then show ?thesis by (auto simp: db_print_value_def snprintf_def)
qed

theorem db_print_value_complete_witness:
  "snd (db_print_value (\<lambda>_::nat. []) (DB_TYPE_CHAR ''abc'') 5) = - 1"
  using db_print_value_complete [of 5 "\<lambda>_::nat. []" "DB_TYPE_CHAR ''abc''"]
  by (simp add: db_print_value_def snprintf_def bind_text_def quoted_def)

text \<open>
  Connections are not leaked: over drivers that leave the layer's objects alone, a failed
  \<open>db_connect\<close> leaves the set of live connections unchanged, a successful one adds a single
  connection that belongs to the driver, and \<open>db_disconnect\<close> removes exactly that one.
\<close>

theorem db_connect_disconnect:
  assumes "inert_ops (ops (D d))" and "conns s (brk s) = None"
  shows "case db_connect D d s of
      (None, s') \<Rightarrow> conns s' = conns s
    | (Some c, s') \<Rightarrow>
        (\<exists>con. conns s' = (conns s)(c \<mapsto> con) \<and> con_driver con = Some d) \<and> c \<notin> dom (conns s) \<and>
        (\<exists>s''. db_disconnect D c s' = Inr (0, s'') \<and> conns s'' = conns s)"
proof -
  let ?con = "\<lparr>con_driver = Some d, con_errno = SB_DB_ERROR_NONE, con_rs = rs_zero\<rparr>"
  let ?s1 = "s\<lparr>brk := Suc (brk s), conns := (conns s)(brk s \<mapsto> ?con)\<rparr>"
  obtain rc w where f: "op_connect (ops (D d)) (brk s) ?s1 = (rc, ?s1\<lparr>drv_state := w\<rparr>)"
    using assms(1) unfolding inert_ops_def by blast
  let ?s2 = "?s1\<lparr>drv_state := w\<rparr>"
  obtain rc' w' where g: "op_disconnect (ops (D d)) (brk s) ?s2 = (rc', ?s2\<lparr>drv_state := w'\<rparr>)"
    using assms(1) unfolding inert_ops_def by blast
  have gone: "(conns s)(brk s := None) = conns s" using assms(2) by (simp add: fun_upd_idem)
  show ?thesis
    using f g assms(2) gone by (auto simp: db_connect_def db_disconnect_def Let_def)
qed

theorem db_connect_disconnect_witness:
  "\<exists>s' s''. db_connect (\<lambda>_. (demo_driver ''m'')\<lparr>ops := demo_ended\<rparr>) 0 (demo_db 0) = (Some 1, s') \<and>
     db_disconnect (\<lambda>_. (demo_driver ''m'')\<lparr>ops := demo_ended\<rparr>) 1 s' = Inr (0, s'') \<and>
     conns s'' = conns (demo_db 0)"
proof -
  let ?D = "\<lambda>_::nat. (demo_driver ''m'')\<lparr>ops := demo_ended\<rparr>"
  have "conns (demo_db 0) (brk (demo_db 0)) = None" by (simp add: demo_db_def)
  from db_connect_disconnect [of ?D 0 "demo_db 0", OF _ this]
  have "case db_connect ?D 0 (demo_db 0) of
      (None, s') \<Rightarrow> conns s' = conns (demo_db 0)
    | (Some c, s') \<Rightarrow>
        (\<exists>con. conns s' = (conns (demo_db 0))(c \<mapsto> con) \<and> con_driver con = Some 0) \<and>
        c \<notin> dom (conns (demo_db 0)) \<and>
        (\<exists>s''. db_disconnect ?D c s' = Inr (0, s'') \<and> conns s'' = conns (demo_db 0))"
    by (simp add: demo_ended_inert)
  moreover have "fst (db_connect ?D 0 (demo_db 0)) = Some 1"
    by (simp add: db_connect_def demo_ended_def demo_ops_def demo_db_def)
  ultimately show ?thesis by (cases "db_connect ?D 0 (demo_db 0)") auto
qed

end
