(* ===== verification/Sysbench.thy ===== *)
theory Sysbench
  imports SbLogger
begin

text \<open>
  The command line driver of sysbench (\<open>sysbench.c\<close>, \<open>sysbench.h\<close>): tests and their registration,
  the parsing of arguments, \<open>init\<close> and the dispatch of \<open>main\<close>.  The operations and commands of a test
  are functions on the state \<open>'w\<close> of the world; a \<open>NULL\<close> pointer is \<open>None\<close>.  \<open>None\<close> as the result of an
  operation of the driver itself is undefined behaviour (a number that does not fit its type).
\<close>

section \<open>Tests\<close>

record 'r sb_request =
  req_type :: sb_request_type
  req_data :: 'r

record 'w sb_commands =
  cmd_help :: "('w \<Rightarrow> int \<times> 'w) option"
  cmd_prepare :: "('w \<Rightarrow> int \<times> 'w) option"
  cmd_run :: "('w \<Rightarrow> int \<times> 'w) option"
  cmd_cleanup :: "('w \<Rightarrow> int \<times> 'w) option"

text \<open>
  The operations see the globals as a part of the world: \<open>'w\<close> comes with the globals in the pair
  \<open>sb_globals \<times> 'w\<close>.
\<close>

type_synonym 'w world = "sb_globals \<times> 'w"

record ('w, 'r) sb_operations =
  t_init :: "('w world \<Rightarrow> int \<times> 'w world) option"
  t_prepare :: "('w world \<Rightarrow> int \<times> 'w world) option"
  t_thread_init :: "(u32 \<Rightarrow> 'w world \<Rightarrow> int \<times> 'w world) option"
  t_print_mode :: "('w world \<Rightarrow> 'w world) option"
  t_get_request :: "(u32 \<Rightarrow> 'w world \<Rightarrow> 'r sb_request \<times> 'w world) option"
  t_execute_request :: "('r sb_request \<Rightarrow> u32 \<Rightarrow> 'w world \<Rightarrow> int \<times> 'w world) option"
  t_print_stats :: "('w world \<Rightarrow> 'w world) option"
  t_thread_done :: "(u32 \<Rightarrow> 'w world \<Rightarrow> int \<times> 'w world) option"
  t_cleanup :: "('w world \<Rightarrow> int \<times> 'w world) option"
  t_done :: "('w world \<Rightarrow> int \<times> 'w world) option"

record ('w, 'r) sb_test =
  test_sname :: string
  test_lname :: string
  test_ops :: "('w, 'r) sb_operations"
  test_cmds :: "'w world sb_commands"
  test_args :: "sb_arg list option"

definition register_test :: "('w, 'r) sb_test \<Rightarrow> ('w, 'r) sb_test list \<Rightarrow> int \<times> ('w, 'r) sb_test list" where
  "register_test test tests = (0, tests @ [test])"

text \<open>The built-in tests are registered in the order fileio, cpu, memory, threads, mutex, oltp.\<close>

definition register_tests :: "('w, 'r) sb_test list \<Rightarrow> int \<times> ('w, 'r) sb_test list" where
  "register_tests builtin =
     fold (\<lambda>test (rc, tests). let (rc', tests) = register_test test tests in (rc + rc', tests)) builtin (0, [])"

definition find_test :: "string \<Rightarrow> ('w, 'r) sb_test list \<Rightarrow> ('w, 'r) sb_test option" where
  "find_test name tests = find (\<lambda>test. test_sname test = name) tests"

text \<open>The request provider and the executor; the dummy \<open>NULL\<close> request leaves its data undefined.\<close>

definition get_request ::
  "'r \<Rightarrow> ('w, 'r) sb_test \<Rightarrow> u32 \<Rightarrow> 'w world \<Rightarrow> 'r sb_request \<times> 'w world" where
  "get_request junk test tid w =
     (case t_get_request (test_ops test) of
        Some f \<Rightarrow> f tid w
      | None \<Rightarrow> (\<lparr>req_type = SB_REQ_TYPE_NULL, req_data = junk\<rparr>, w))"

definition execute_request :: "('w, 'r) sb_test \<Rightarrow> 'r sb_request \<Rightarrow> u32 \<Rightarrow> 'w world \<Rightarrow> int \<times> 'w world" where
  "execute_request test r tid w =
     (case t_execute_request (test_ops test) of Some f \<Rightarrow> f r tid w | None \<Rightarrow> (1, w))"

section \<open>Arguments\<close>

definition general_args :: "sb_arg list" where
  "general_args =
     [\<lparr>arg_name = ''num-threads'', arg_desc = ''number of threads to use'', arg_type = SB_ARG_TYPE_INT, arg_value = Some ''1''\<rparr>,
      \<lparr>arg_name = ''max-requests'', arg_desc = ''limit for total number of requests'', arg_type = SB_ARG_TYPE_INT, arg_value = Some ''10000''\<rparr>,
      \<lparr>arg_name = ''max-time'', arg_desc = ''limit for total execution time in seconds'', arg_type = SB_ARG_TYPE_INT, arg_value = Some ''0''\<rparr>,
      \<lparr>arg_name = ''forced-shutdown'', arg_desc = ''amount of time to wait after --max-time before forcing shutdown'',
       arg_type = SB_ARG_TYPE_STRING, arg_value = Some ''off''\<rparr>,
      \<lparr>arg_name = ''thread-stack-size'', arg_desc = ''size of stack per thread'', arg_type = SB_ARG_TYPE_SIZE, arg_value = Some ''32K''\<rparr>,
      \<lparr>arg_name = ''init-rng'', arg_desc = ''initialize random number generator'', arg_type = SB_ARG_TYPE_FLAG, arg_value = Some ''off''\<rparr>,
      \<lparr>arg_name = ''test'', arg_desc = ''test to run'', arg_type = SB_ARG_TYPE_STRING, arg_value = None\<rparr>,
      \<lparr>arg_name = ''debug'', arg_desc = ''print more debugging info'', arg_type = SB_ARG_TYPE_FLAG, arg_value = Some ''off''\<rparr>,
      \<lparr>arg_name = ''validate'', arg_desc = ''perform validation checks where possible'', arg_type = SB_ARG_TYPE_FLAG, arg_value = Some ''off''\<rparr>,
      \<lparr>arg_name = ''help'', arg_desc = ''print help and exit'', arg_type = SB_ARG_TYPE_FLAG, arg_value = None\<rparr>,
      \<lparr>arg_name = ''version'', arg_desc = ''print version and exit'', arg_type = SB_ARG_TYPE_FLAG, arg_value = None\<rparr>]"

definition find_argument :: "string \<Rightarrow> sb_arg list option \<Rightarrow> sb_arg option" where
  "find_argument name args =
     (case args of None \<Rightarrow> None | Some as \<Rightarrow> find (\<lambda>a. strcaseeq (arg_name a) name) as)"

definition parse_command :: "string \<Rightarrow> sb_cmd" where
  "parse_command cmd =
     (if cmd = ''prepare'' then SB_COMMAND_PREPARE else if cmd = ''run'' then SB_COMMAND_RUN
      else if cmd = ''help'' then SB_COMMAND_HELP else if cmd = ''cleanup'' then SB_COMMAND_CLEANUP
      else if cmd = ''version'' then SB_COMMAND_VERSION else SB_COMMAND_NULL)"

text \<open>The defaults of the tests; the loop ends at the first test without arguments.\<close>

fun register_test_args :: "('w, 'r) sb_test list \<Rightarrow> option_t list \<Rightarrow> option_t list \<times> int" where
  "register_test_args [] opts = (opts, 0)"
| "register_test_args (test # tests) opts =
     (case test_args test of
        None \<Rightarrow> (opts, 0)
      | Some args \<Rightarrow>
          (let (opts, rc) = sb_register_arg_set args opts
           in if rc \<noteq> 0 then (opts, 1) else register_test_args tests opts))"

text \<open>
  \<open>strchr (name, '=')\<close>: the name before the first equals sign, and the value after it.
\<close>

definition split_option :: "string \<Rightarrow> string \<times> string option" where
  "split_option s =
     (let name = takeWhile (\<lambda>c. c \<noteq> CHR ''='') s; rest = dropWhile (\<lambda>c. c \<noteq> CHR ''='') s
      in (name, case rest of [] \<Rightarrow> None | _ # value \<Rightarrow> Some value))"

definition is_option :: "string \<Rightarrow> bool" where
  "is_option arg \<longleftrightarrow> take 2 arg = ''--''"

text \<open>How the parser ends: it returns (0 or 1) or the process exits (\<open>--version\<close>).\<close>

datatype parse_outcome = Parsed | Parse_failed | Exit_version

fun parse_args :: "string list \<Rightarrow> sb_cmd \<Rightarrow> option_t list \<Rightarrow> parse_outcome \<times> sb_cmd \<times> option_t list" where
  "parse_args [] cmd opts = (Parsed, cmd, opts)"
| "parse_args (arg # args) cmd opts =
     (if \<not> is_option arg then
        (if cmd \<noteq> SB_COMMAND_NULL then (Parse_failed, cmd, opts)
         else if parse_command arg = SB_COMMAND_NULL then (Parse_failed, SB_COMMAND_NULL, opts)
         else parse_args args (parse_command arg) opts)
      else
        (let (name, value) = split_option (drop 2 arg)
         in if name = ''help'' then (Parse_failed, cmd, opts)
            else if name = ''version'' then (Exit_version, cmd, opts)
            else case sb_find_option name opts of
                   None \<Rightarrow> (Parse_failed, cmd, opts)
                 | Some opt \<Rightarrow>
                     (let (opts, rc) = set_option name value (opt_type opt) opts
                      in if rc \<noteq> 0 then (Parse_failed, cmd, opts) else parse_args args cmd opts)))"

definition parse_arguments ::
  "('w, 'r) sb_test list \<Rightarrow> string list \<Rightarrow> option_t list \<Rightarrow> parse_outcome \<times> sb_cmd \<times> option_t list" where
  "parse_arguments tests argv opts =
     (let (opts, rc) = sb_register_arg_set general_args opts
      in if rc \<noteq> 0 then (Parse_failed, SB_COMMAND_NULL, opts)
         else let (opts, rc) = register_test_args tests opts
              in if rc \<noteq> 0 then (Parse_failed, SB_COMMAND_NULL, opts)
                 else parse_args (tl argv) SB_COMMAND_NULL opts)"

section \<open>Initialisation\<close>

text \<open>The static variables of \<open>sysbench.c\<close> beside the globals.\<close>

record sb_statics =
  init_rng :: bool
  thread_stack_size :: int

text \<open>
  The percentage of \<open>--forced-shutdown\<close>, computed in double precision.  Below 2 to the 53 the product
  is exact and the rounded quotient does not reach the next integer; above, the quotient does not
  fit \<open>unsigned int\<close>, and the conversion is undefined.
\<close>

definition percent_of :: "u32 \<Rightarrow> u32 \<Rightarrow> u32 option" where
  "percent_of pc limit =
     (let q = unat pc * unat limit div 100 in if q < 2 ^ 32 then Some (of_nat q) else None)"

text \<open>The value of \<open>--forced-shutdown\<close>: (force, timeout), or the error return.\<close>

datatype shutdown_result = Undefined | Invalid_value u32 | Shutdown bool u32

definition parse_forced_shutdown :: "string option \<Rightarrow> u32 \<Rightarrow> u32 \<Rightarrow> shutdown_result" where
  "parse_forced_shutdown value limit old_timeout =
     (case value of
        None \<Rightarrow> Shutdown True (limit div 20)
      | Some tmp \<Rightarrow>
          if \<not> strcaseeq tmp ''off'' then
            (let (v, rest) = strtol tmp; t = word_of_int v :: u32
             in if rest \<noteq> [] \<and> hd rest = CHR ''%'' then
                  (case percent_of t limit of None \<Rightarrow> Undefined | Some p \<Rightarrow> Shutdown True p)
                else if tmp = [] \<or> rest \<noteq> [] then Invalid_value t
                else Shutdown True t)
          else Shutdown False old_timeout)"

text \<open>
  The second half of \<open>init\<close>: memory, stack size and flags.  \<open>mem n\<close> is the content of the array
  \<open>malloc\<close> returns for the timers of \<open>n\<close> threads, \<open>None\<close> if it (or the array of thread descriptors)
  cannot be allocated.
\<close>

definition init_memory ::
  "(nat \<Rightarrow> sb_timer list option) \<Rightarrow> option_t list \<Rightarrow> sb_globals \<times> sb_statics \<Rightarrow>
   int \<times> option_t list \<times> sb_globals \<times> sb_statics" where
  "init_memory mem opts = (\<lambda>(g, st).
     case mem (unat (num_threads g)) of
       None \<Rightarrow> (1, opts, g, st)
     | Some ts \<Rightarrow>
         (let g = g\<lparr>op_timers := ts\<rparr>;
              st = st\<lparr>thread_stack_size := sint (ucast (sb_get_value_size ''thread-stack-size'' opts) :: u32)\<rparr>
          in if thread_stack_size st \<le> 0 then (1, opts, g, st)
             else
               (let g = g\<lparr>debug := sb_get_value_flag ''debug'' opts\<rparr>;
                    opts = (if debug g then
                              (case sb_find_option ''verbosity'' opts of
                                 None \<Rightarrow> opts
                               | Some opt \<Rightarrow> fst (set_option (opt_name opt) (Some ''5'') (opt_type opt) opts))
                            else opts);
                    g = g\<lparr>validate := sb_get_value_flag ''validate'' opts\<rparr>;
                    st = st\<lparr>init_rng := sb_get_value_flag ''init-rng'' opts\<rparr>
                in (0, opts, g, st))))"

definition init_shutdown :: "option_t list \<Rightarrow> sb_globals \<Rightarrow> shutdown_result" where
  "init_shutdown opts g =
     (if max_time_limit g > 0
      then parse_forced_shutdown (sb_get_value_string ''forced-shutdown'' opts) (max_time_limit g) (timeout g)
      else Shutdown (force_shutdown g) (timeout g))"

text \<open>
  \<open>init\<close>.  Its messages, which are printed before the logger is set up, are left out; they do not change the
  state below.
\<close>

definition init_sb ::
  "(nat \<Rightarrow> sb_timer list option) \<Rightarrow> option_t list \<Rightarrow> sb_globals \<times> sb_statics \<Rightarrow>
   (int \<times> option_t list \<times> sb_globals \<times> sb_statics) option" where
  "init_sb mem opts = (\<lambda>(g, st).
     Option.bind (sb_get_value_int ''num-threads'' opts) (\<lambda>n.
     let g = g\<lparr>num_threads := word_of_int n\<rparr>
     in if num_threads g \<le> 0 then Some (1, opts, g, st)
        else
          Option.bind (sb_get_value_int ''max-requests'' opts) (\<lambda>mr.
          Option.bind (sb_get_value_int ''max-time'' opts) (\<lambda>mt.
          let g = g\<lparr>max_requests := word_of_int mr, max_time_limit := word_of_int mt\<rparr>
          in case init_shutdown opts g of
               Undefined \<Rightarrow> None
             | Invalid_value t \<Rightarrow> Some (1, opts, g\<lparr>force_shutdown := True, timeout := t\<rparr>, st)
             | Shutdown fs t \<Rightarrow>
                 Some (init_memory mem opts (g\<lparr>force_shutdown := fs, timeout := t\<rparr>, st))))))"

section \<open>The main program\<close>

definition VERSION_STRING :: string where "VERSION_STRING = ''sysbench 0.4.12''"

definition nl :: string where "nl = [CHR 0x0A]"

definition print_header :: "(nat \<Rightarrow> string) \<Rightarrow> logger \<Rightarrow> logger" where
  "print_header stamp L =
     log_text stamp LOG_NOTICE (VERSION_STRING @ '':  multi-threaded system evaluation benchmark'' @ nl) L"

definition print_usage :: "('w, 'r) sb_test list \<Rightarrow> string list" where
  "print_usage tests =
     [''Usage:'' @ nl,
      ''  sysbench [general-options]... --test=<test-name> [test-options]... command'' @ nl @ nl,
      ''General options:'' @ nl, sb_print_options general_args, ''Compiled-in tests:'' @ nl] @
     map (\<lambda>test. ''  '' @ test_sname test @ '' - '' @ test_lname test @ nl) tests @
     [nl, ''Commands: prepare run cleanup help version'' @ nl @ nl,
      ''See '' @ [CHR 0x27] @ ''sysbench --test=<name> help'' @ [CHR 0x27] @
        '' for a list of options for each test.'' @ nl @ nl]"

text \<open>
  What \<open>main\<close> comes to: an exit status, or the run of a test.  The rest of the result is what was
  printed directly, and the state.
\<close>

datatype ('w, 'r) main_result = Exits int | Runs "('w, 'r) sb_test"

record 'w main_state =
  m_printed :: "string list"
  m_log :: logger
  m_opts :: "option_t list"
  m_globals :: sb_globals
  m_statics :: sb_statics
  m_world :: 'w

definition printing :: "string list \<Rightarrow> 'w main_state \<Rightarrow> 'w main_state" where
  "printing ls s = s\<lparr>m_printed := m_printed s @ ls\<rparr>"

text \<open>A command of a test, called on the globals and the world.\<close>

definition call_command ::
  "('w world \<Rightarrow> int \<times> 'w world) \<Rightarrow> 'w main_state \<Rightarrow> int \<times> 'w main_state" where
  "call_command f s =
     (let (rc, g, w) = f (m_globals s, m_world s) in (rc, s\<lparr>m_globals := g, m_world := w\<rparr>))"

text \<open>From the end of the initialisation on.\<close>

definition dispatch ::
  "('w, 'r) sb_test list \<Rightarrow> 'w main_state \<Rightarrow> ('w, 'r) main_result \<times> 'w main_state" where
  "dispatch tests s =
     (let cmd = command (m_globals s);
          testname = sb_get_value_string ''test'' (m_opts s);
          test = (case testname of None \<Rightarrow> None | Some n \<Rightarrow> find_test n tests)
      in if cmd = SB_COMMAND_HELP then
           (case test of
              None \<Rightarrow> (Exits 0, printing (print_usage tests) s)
            | Some t \<Rightarrow>
                (let s = printing [test_sname t @ '' options:'' @ nl,
                                   sb_print_options (case test_args t of None \<Rightarrow> [] | Some as \<Rightarrow> as)] s
                 in (Exits 0, case cmd_help (test_cmds t) of None \<Rightarrow> s | Some f \<Rightarrow> snd (call_command f s))))
         else case testname of
           None \<Rightarrow> (Exits 1, printing ([''Missing required argument: --test.'' @ nl] @ print_usage tests) s)
         | Some n \<Rightarrow>
             (case test of
                None \<Rightarrow> (Exits 1, printing [''Invalid test name: '' @ n @ ''.'' @ nl] s)
              | Some t \<Rightarrow>
                  if cmd = SB_COMMAND_PREPARE then
                    (case cmd_prepare (test_cmds t) of
                       None \<Rightarrow> (Exits 1, printing [[CHR 0x27] @ test_sname t @ [CHR 0x27] @ '' test does not have the '' @
                                                  [CHR 0x27] @ ''prepare'' @ [CHR 0x27] @ '' command.'' @ nl] s)
                     | Some f \<Rightarrow> (let (rc, s) = call_command f s in (Exits rc, s)))
                  else if cmd = SB_COMMAND_CLEANUP then
                    (case cmd_cleanup (test_cmds t) of
                       None \<Rightarrow> (Exits 1, printing [[CHR 0x27] @ test_sname t @ [CHR 0x27] @ '' test does not have the '' @
                                                  [CHR 0x27] @ ''cleanup'' @ [CHR 0x27] @ '' command.'' @ nl] s)
                     | Some f \<Rightarrow> (let (rc, s) = call_command f s in (Exits rc, s)))
                  else (Runs t, s)))"

definition main_sb ::
  "(nat \<Rightarrow> sb_timer list option) \<Rightarrow> (nat \<Rightarrow> string) \<Rightarrow> string option \<Rightarrow> ('w, 'r) sb_test list \<Rightarrow> string list \<Rightarrow>
   'w main_state \<Rightarrow> (('w, 'r) main_result \<times> 'w main_state) option" where
  "main_sb mem stamp thread_err builtin argv s =
     (let (_, L, opts) = log_register (m_log s, sb_options_init);
          (rc, tests) = register_tests builtin;
          s = s\<lparr>m_log := L, m_opts := opts\<rparr>
      in if rc \<noteq> 0 then Some (Exits 1, printing [''Failed to register tests.'' @ nl] s)
         else
           (let (outcome, cmd, opts) = parse_arguments tests argv opts;
                s = s\<lparr>m_opts := opts, m_globals := (m_globals s)\<lparr>command := cmd\<rparr>\<rparr>
            in case outcome of
                 Parse_failed \<Rightarrow> Some (Exits 1, printing (print_usage tests) s)
               | Exit_version \<Rightarrow> Some (Exits 0, printing [VERSION_STRING @ nl] s)
               | Parsed \<Rightarrow>
                   if cmd = SB_COMMAND_NULL then
                     Some (Exits 1, printing ([''Missing required command argument.'' @ nl] @ print_usage tests) s)
                   else
                     (case init_sb mem opts (m_globals s, m_statics s) of
                        None \<Rightarrow> None
                      | Some (rc, opts, g, st) \<Rightarrow>
                          (let s = s\<lparr>m_opts := opts, m_globals := g, m_statics := st\<rparr>
                           in if rc \<noteq> 0 then Some (Exits 1, s)
                              else case log_init stamp thread_err opts (m_log s) of
                                Inl _ \<Rightarrow> None
                              | Inr (rc, L) \<Rightarrow>
                                  (let s = s\<lparr>m_log := L\<rparr>
                                   in if rc \<noteq> 0 then Some (Exits 1, s)
                                      else if command (m_globals s) = SB_COMMAND_VERSION then
                                        Some (Exits 0, s\<lparr>m_log := log_text stamp LOG_NOTICE VERSION_STRING (m_log s)\<rparr>)
                                      else Some (dispatch tests (s\<lparr>m_log := print_header stamp (m_log s)\<rparr>)))))))"

section \<open>Facts on the parser\<close>

text \<open>The commands and the assignments among the arguments.\<close>

definition commands_of :: "string list \<Rightarrow> string list" where
  "commands_of args = filter (\<lambda>a. \<not> is_option a) args"

definition assignments :: "string list \<Rightarrow> (string \<times> string option) list" where
  "assignments args = map (\<lambda>a. split_option (drop 2 a)) (filter is_option args)"

definition accepts :: "string list \<Rightarrow> sb_cmd \<Rightarrow> option_t list \<Rightarrow> bool" where
  "accepts args cmd opts \<longleftrightarrow>
     length (commands_of args) \<le> (if cmd = SB_COMMAND_NULL then 1 else 0) \<and>
     (\<forall>c\<in>set (commands_of args). parse_command c \<noteq> SB_COMMAND_NULL) \<and>
     (\<forall>(n, v)\<in>set (assignments args). n \<noteq> ''help'' \<and> n \<noteq> ''version'' \<and> find_option opts n \<noteq> None)"

definition final_option :: "string list \<Rightarrow> option_t list \<Rightarrow> string \<Rightarrow> option_t option" where
  "final_option args opts n =
     (case map_of (rev (assignments args)) n of
        None \<Rightarrow> find_option opts n
      | Some v \<Rightarrow> map_option (\<lambda>opt. opt\<lparr>opt_values := the (set_option_values v (opt_type opt))\<rparr>) (find_option opts n))"

definition typed :: "option_t list \<Rightarrow> bool" where
  "typed opts \<longleftrightarrow> (\<forall>n opt. find_option opts n = Some opt \<longrightarrow> opt_type opt \<noteq> SB_ARG_TYPE_NULL)"

lemma set_option_values_typed: "type \<noteq> SB_ARG_TYPE_NULL \<Longrightarrow> set_option_values v type \<noteq> None"
  by (cases type) (simp_all add: set_option_values_def)

lemma find_set_known:
  assumes "find_option opts n = Some opt" and "opt_type opt \<noteq> SB_ARG_TYPE_NULL"
  shows "find_option (fst (set_option n v (opt_type opt) opts)) m =
    (if m = n then Some (opt\<lparr>opt_values := the (set_option_values v (opt_type opt))\<rparr>) else find_option opts m)"
    and "snd (set_option n v (opt_type opt) opts) = 0"
  using assms set_option_values_typed [OF assms(2), of v]
  by (auto simp: find_set_option find_add_option set_option_rc)

lemma accepts_simps [simp]:
  "accepts [] cmd opts"
  "\<not> is_option a \<Longrightarrow> accepts (a # args) cmd opts \<longleftrightarrow>
     cmd = SB_COMMAND_NULL \<and> parse_command a \<noteq> SB_COMMAND_NULL \<and> accepts args (parse_command a) opts"
  "is_option a \<Longrightarrow> split_option (drop 2 a) = (n, v) \<Longrightarrow> accepts (a # args) cmd opts \<longleftrightarrow>
     n \<noteq> ''help'' \<and> n \<noteq> ''version'' \<and> find_option opts n \<noteq> None \<and> accepts args cmd opts"
  by (auto simp: accepts_def commands_of_def assignments_def)

text \<open>An assignment to a known option changes neither what is accepted nor the later values.\<close>

lemma accepts_after_set:
  assumes "find_option opts n = Some opt" and "opt_type opt \<noteq> SB_ARG_TYPE_NULL"
  shows "accepts args cmd (fst (set_option n v (opt_type opt) opts)) = accepts args cmd opts"
  using assms by (auto simp: accepts_def find_set_known split: if_splits)

lemma typed_after_set:
  assumes "typed opts" and "find_option opts n = Some opt"
  shows "typed (fst (set_option n v (opt_type opt) opts))"
  using assms by (auto simp: typed_def find_set_known split: if_splits)

lemma final_option_Cons:
  assumes "is_option a" and "split_option (drop 2 a) = (n, v)"
    and "find_option opts n = Some opt" and "opt_type opt \<noteq> SB_ARG_TYPE_NULL"
  shows "final_option (a # args) opts m = final_option args (fst (set_option n v (opt_type opt) opts)) m"
  using assms
  by (auto simp: final_option_def assignments_def find_set_known map_add_def split: option.split)

lemma parse_args_spec:
  assumes "typed opts"
  shows "(fst (parse_args args cmd opts) = Parsed \<longleftrightarrow> accepts args cmd opts) \<and>
    (accepts args cmd opts \<longrightarrow>
       fst (snd (parse_args args cmd opts)) = (case commands_of args of [] \<Rightarrow> cmd | c # _ \<Rightarrow> parse_command c) \<and>
       (\<forall>n. find_option (snd (snd (parse_args args cmd opts))) n = final_option args opts n))"
  using assms
proof (induction args arbitrary: cmd opts)
  case Nil
  then show ?case by (simp add: final_option_def assignments_def commands_of_def)
next
  case (Cons a args)
  show ?case
  proof (cases "is_option a")
    case False
    have "commands_of args = []" if "accepts args (parse_command a) opts" "parse_command a \<noteq> SB_COMMAND_NULL"
      using that by (simp add: accepts_def)
    with False Cons.IH [OF Cons.prems, of "parse_command a"] show ?thesis
      by (auto simp: commands_of_def final_option_def assignments_def)
  next
    case True
    obtain n v where nv: "split_option (drop 2 a) = (n, v)" by fastforce
    show ?thesis
    proof (cases "n \<noteq> ''help'' \<and> n \<noteq> ''version'' \<and> find_option opts n \<noteq> None")
      case False
      with True nv show ?thesis by (auto simp: sb_find_option_def)
    next
      case known: True
      then obtain opt where opt: "find_option opts n = Some opt" by blast
      with Cons.prems have ty: "opt_type opt \<noteq> SB_ARG_TYPE_NULL" by (simp add: typed_def)
      let ?opts = "fst (set_option n v (opt_type opt) opts)"
      have "parse_args (a # args) cmd opts = parse_args args cmd ?opts"
        using True nv known opt find_set_known(2) [OF opt ty, of v]
        by (cases "set_option n v (opt_type opt) opts") (simp add: sb_find_option_def)
      moreover have "commands_of (a # args) = commands_of args" using True by (simp add: commands_of_def)
      ultimately show ?thesis
        using Cons.IH [OF typed_after_set [OF Cons.prems opt, of v], of cmd] True nv known
          accepts_after_set [OF opt ty] final_option_Cons [OF True nv opt ty]
        by simp
    qed
  qed
qed

section \<open>Facts on \<open>strtol\<close> and the shutdown option\<close>

lemma takeWhile_dec: "\<not> (rest \<noteq> [] \<and> is_digit (hd rest)) \<Longrightarrow> takeWhile is_digit (dec n @ rest) = dec n"
  using dec_digits [of n] by (cases rest) (auto simp: list_all_iff takeWhile_append)

lemma dropWhile_dec: "\<not> (rest \<noteq> [] \<and> is_digit (hd rest)) \<Longrightarrow> dropWhile is_digit (dec n @ rest) = rest"
  using dec_digits [of n] by (cases rest) (auto simp: list_all_iff dropWhile_append)

lemma strtol_dec:
  assumes "n < 2 ^ 63" and "\<not> (rest \<noteq> [] \<and> is_digit (hd rest))"
  shows "strtol (dec n @ rest) = (int n, rest)"
proof -
  obtain c cs where d: "dec n = c # cs" by (metis dec_not_Nil neq_Nil_conv)
  have c: "is_digit c" using dec_digits [of n] d by simp
  have dw: "dropWhile isspace (dec n @ rest) = dec n @ rest" using d digit_not_space [OF c] by simp
  have hd: "hd (dec n @ rest) = c" using d by simp
  show ?thesis
    using digit_not_space [OF c] assms
    by (simp add: strtol_def dw hd Let_def takeWhile_dec dropWhile_dec dec_val_dec clamp_long_def)
qed

lemma dec_not_off: "\<not> strcaseeq (dec n @ rest) ''off''"
proof
  obtain c cs where d: "dec n = c # cs" by (metis dec_not_Nil neq_Nil_conv)
  have c: "is_digit c" using dec_digits [of n] d by simp
  assume "strcaseeq (dec n @ rest) ''off''"
  then have "tolower c = CHR ''o''" using d by (simp add: strcaseeq_def tolower_def less_eq_char_def)
  then have "c = CHR ''o'' \<or> (CHR ''A'' \<le> c \<and> c \<le> CHR ''Z'')" by (auto simp: tolower_def split: if_splits)
  with c show False by (auto simp: is_digit_def less_eq_char_def)
qed

section \<open>Properties\<close>

text \<open>
  The command line is accepted exactly when it has at most one command, a known one, when
  neither \<open>--help\<close> nor \<open>--version\<close> is given, and when every option is registered; then the command
  is the one given (or none), and every option has the value of its last assignment, or its old
  one if it is not assigned.
\<close>

theorem parse_arguments_accepts:
  assumes "sb_register_arg_set general_args opts0 = (opts1, 0)"
    and "register_test_args tests opts1 = (opts, 0)" and "typed opts"
  shows "(fst (parse_arguments tests argv opts0) = Parsed \<longleftrightarrow> accepts (tl argv) SB_COMMAND_NULL opts) \<and>
    (accepts (tl argv) SB_COMMAND_NULL opts \<longrightarrow>
       fst (snd (parse_arguments tests argv opts0)) =
         (case commands_of (tl argv) of [] \<Rightarrow> SB_COMMAND_NULL | c # _ \<Rightarrow> parse_command c) \<and>
       (\<forall>n. find_option (snd (snd (parse_arguments tests argv opts0))) n = final_option (tl argv) opts n))"
  using parse_args_spec [OF assms(3), of "tl argv" SB_COMMAND_NULL] assms(1,2)
  by (simp add: parse_arguments_def)

text \<open>
  The value of \<open>--forced-shutdown\<close>: without a value the timeout is a twentieth of the time limit,
  a number is the timeout, a number with a percent sign is that share of the limit (rounded down),
  and \<open>off\<close> in any case turns it off.
\<close>

theorem forced_shutdown_forms:
  "parse_forced_shutdown None limit t0 = Shutdown True (limit div 20) \<and>
   (n < 2 ^ 32 \<longrightarrow> parse_forced_shutdown (Some (dec n)) limit t0 = Shutdown True (of_nat n)) \<and>
   (n < 2 ^ 32 \<and> n * unat limit div 100 < 2 ^ 32 \<longrightarrow>
      parse_forced_shutdown (Some (dec n @ ''%'')) limit t0 = Shutdown True (of_nat (n * unat limit div 100))) \<and>
   parse_forced_shutdown (Some ''OFF'') limit t0 = Shutdown False t0"
proof -
  have plain: "strtol (dec n) = (int n, [])" if "n < 2 ^ 32" using strtol_dec [of n "[]"] that by simp
  have pct: "strtol (dec n @ ''%'') = (int n, ''%'')" if "n < 2 ^ 32"
    using strtol_dec [of n "''%''"] that by (simp add: is_digit_def less_eq_char_def)
  have u: "unat (of_nat n :: u32) = n" if "n < 2 ^ 32" using that by (simp add: unat_of_nat)
  have off: "strcaseeq ''OFF'' ''off''" by code_simp
  show ?thesis
    using plain pct u off dec_not_off [of n "[]"] dec_not_off [of n "''%''"]
    by (simp add: parse_forced_shutdown_def percent_of_def Let_def)
qed

theorem forced_shutdown_forms_witness:
  "parse_forced_shutdown (Some (dec 50 @ ''%'')) 300 0 = Shutdown True 150"
  using forced_shutdown_forms [of 300 0 50] by simp

text \<open>A test without operations, for concrete runs.\<close>

definition idle_ops :: "(nat, nat) sb_operations" where
  "idle_ops =
     \<lparr>t_init = None, t_prepare = None, t_thread_init = None, t_print_mode = None, t_get_request = None,
      t_execute_request = None, t_print_stats = None, t_thread_done = None, t_cleanup = None, t_done = None\<rparr>"

definition idle_test :: "(nat, nat) sb_test" where
  "idle_test =
     \<lparr>test_sname = ''idle'', test_lname = ''Idle'', test_ops = idle_ops,
      test_cmds = \<lparr>cmd_help = None, cmd_prepare = None, cmd_run = None, cmd_cleanup = None\<rparr>, test_args = Some []\<rparr>"

definition general_opts :: "option_t list" where
  "general_opts = fst (sb_register_arg_set general_args [])"

lemma general_opts_eq:
  "sb_register_arg_set general_args [] = (general_opts, 0)"
  "map opt_type general_opts = map arg_type general_args"
  "map opt_name general_opts = map arg_name general_args"
  by code_simp+

lemma general_opts_typed: "typed general_opts"
proof -
  have "opt_type opt \<noteq> SB_ARG_TYPE_NULL" if "opt \<in> set general_opts" for opt
  proof -
    have "opt_type opt \<in> set (map opt_type general_opts)" using that by simp
    then show ?thesis unfolding general_opts_eq(2) by (auto simp: general_args_def)
  qed
  then show ?thesis by (auto simp: typed_def find_option_def dest!: find_SomeD)
qed

theorem parse_arguments_accepts_witness:
  "fst (parse_arguments [idle_test] [''sysbench'', ''--test=idle'', ''run''] []) = Parsed"
proof -
  have args: "register_test_args [idle_test] general_opts = (general_opts, 0)" by (simp add: idle_test_def)
  have "accepts [''--test=idle'', ''run''] SB_COMMAND_NULL general_opts" by code_simp
  with parse_arguments_accepts [OF general_opts_eq(1) args general_opts_typed,
      of "[''sysbench'', ''--test=idle'', ''run'']"]
  show ?thesis by simp
qed

lemma bind_Some_iff: "Option.bind m f = Some y \<longleftrightarrow> (\<exists>x. m = Some x \<and> f x = Some y)"
  by (cases m) simp_all

lemma init_memory_ok:
  assumes "init_memory mem opts (g, st) = (rc, opts', g', st')"
  shows "num_threads g' = num_threads g \<and> max_requests g' = max_requests g \<and>
    max_time_limit g' = max_time_limit g \<and> command g' = command g \<and>
    (rc = 0 \<longrightarrow> mem (unat (num_threads g)) = Some (op_timers g') \<and> 0 < thread_stack_size st')"
  using assms by (auto simp: init_memory_def Let_def split: option.splits if_splits)

lemma init_sb_0:
  assumes "init_sb mem opts (g, st) = Some (0, opts', g', st')"
  obtains n mr mt where "sb_get_value_int ''num-threads'' opts = Some n"
    and "sb_get_value_int ''max-requests'' opts = Some mr" and "sb_get_value_int ''max-time'' opts = Some mt"
    and "num_threads g' = word_of_int n" and "num_threads g' \<noteq> 0" and "max_requests g' = word_of_int mr"
    and "max_time_limit g' = word_of_int mt" and "command g' = command g"
    and "mem (unat (num_threads g')) = Some (op_timers g')" and "0 < thread_stack_size st'"
proof -
  obtain n where n: "sb_get_value_int ''num-threads'' opts = Some n" "(word_of_int n :: u32) \<noteq> 0"
    using assms by (auto simp: init_sb_def bind_Some_iff Let_def split: if_splits)
  obtain mr mt where m: "sb_get_value_int ''max-requests'' opts = Some mr" "sb_get_value_int ''max-time'' opts = Some mt"
    using assms n by (auto simp: init_sb_def bind_Some_iff Let_def)
  let ?g = "g\<lparr>num_threads := word_of_int n, max_requests := word_of_int mr, max_time_limit := word_of_int mt\<rparr>"
  obtain fs t where "init_shutdown opts ?g = Shutdown fs t"
    and "init_memory mem opts (?g\<lparr>force_shutdown := fs, timeout := t\<rparr>, st) = (0, opts', g', st')"
    using assms n m by (auto simp: init_sb_def Let_def split: shutdown_result.splits)
  from init_memory_ok [OF this(2)] that n m show thesis by simp
qed

lemma sb_get_value_int_range: "sb_get_value_int name opts = Some n \<Longrightarrow> - (2 ^ 31) \<le> n \<and> n < 2 ^ 31"
  by (auto simp: sb_get_value_int_def atoi_def int_in_range_def split: option.splits list.splits if_splits)

lemma negative_wraps:
  assumes "- (2 ^ 31) \<le> n" and "n < 0"
  shows "unat (word_of_int n :: u32) \<ge> 2 ^ 31"
proof -
  have "uint (word_of_int n :: u32) = n mod 2 ^ 32" by (simp add: uint_word_of_int)
  also have "\<dots> = (n + 2 ^ 32) mod 2 ^ 32" by simp
  also have "\<dots> = n + 2 ^ 32" using assms by (intro mod_pos_pos_trivial) simp_all
  finally show ?thesis using assms by (simp add: unat_eq_nat_uint)
qed

text \<open>
  What \<open>init\<close> checks.  When it returns 0, the number of threads is the option's value modulo 2 to
  the 32 and not 0, there are as many timers, the stack size is positive, and the request and time
  limits are those of the options.  A negative number of threads is not rejected: it becomes a
  number of threads beyond 2 to the 31.
\<close>

theorem init_sb_checks:
  assumes "init_sb mem opts (g, st) = Some (0, opts', g', st')"
    and "\<And>n ts. mem n = Some ts \<Longrightarrow> length ts = n"
  shows "\<exists>n mr mt. sb_get_value_int ''num-threads'' opts = Some n \<and>
    sb_get_value_int ''max-requests'' opts = Some mr \<and> sb_get_value_int ''max-time'' opts = Some mt \<and>
    num_threads g' = word_of_int n \<and> num_threads g' \<noteq> 0 \<and>
    length (op_timers g') = unat (num_threads g') \<and> 0 < thread_stack_size st' \<and>
    max_requests g' = word_of_int mr \<and> max_time_limit g' = word_of_int mt \<and>
    (n < 0 \<longrightarrow> unat (num_threads g') \<ge> 2 ^ 31)"
proof -
  obtain n mr mt where n: "sb_get_value_int ''num-threads'' opts = Some n"
    and m: "sb_get_value_int ''max-requests'' opts = Some mr" "sb_get_value_int ''max-time'' opts = Some mt"
    and g': "num_threads g' = word_of_int n" "num_threads g' \<noteq> 0" "max_requests g' = word_of_int mr"
      "max_time_limit g' = word_of_int mt" "command g' = command g"
    and mem: "mem (unat (num_threads g')) = Some (op_timers g')" and st: "0 < thread_stack_size st'"
    by (rule init_sb_0 [OF assms(1)])
  have "n < 0 \<longrightarrow> unat (num_threads g') \<ge> 2 ^ 31"
    using sb_get_value_int_range [OF n] negative_wraps [of n] g'(1) by simp
  with n m g'(1-4) assms(2) [OF mem] st show ?thesis by blast
qed

text \<open>The state before \<open>main\<close>, and its options after \<open>sysbench --test=idle run\<close>.\<close>

definition zero_timer :: sb_timer where
  "zero_timer = \<lparr>time_start = (0, 0), time_end = (0, 0), my_time = 0, min_time = 0, max_time = 0,
     sum_time = 0, events = 0, timer_state = TIMER_UNINITIALIZED\<rparr>"

definition zero_globals :: sb_globals where
  "zero_globals = \<lparr>command = SB_COMMAND_NULL, error = 0, op_timers = [], exec_timer = zero_timer,
     num_threads = 0, max_requests = 0, max_time_limit = 0, force_shutdown = False, timeout = 0,
     debug = False, validate = False\<rparr>"

definition demo_mem :: "nat \<Rightarrow> sb_timer list option" where
  "demo_mem n = Some (replicate n zero_timer)"

definition opt_lit :: "string \<times> sb_arg_type \<times> string list \<Rightarrow> option_t" where
  "opt_lit = (\<lambda>(n, ty, vs). \<lparr>opt_name = n, opt_type = ty, opt_values = map new_value vs, opt_ignore = False\<rparr>)"

definition demo_main_opts :: "option_t list" where
  "demo_main_opts = map opt_lit
     [(''verbosity'', SB_ARG_TYPE_INT, [''4'']), (''percentile'', SB_ARG_TYPE_INT, [''95'']),
      (''batch'', SB_ARG_TYPE_FLAG, []), (''batch-delay'', SB_ARG_TYPE_INT, [''300'']),
      (''num-threads'', SB_ARG_TYPE_INT, [''1'']), (''max-requests'', SB_ARG_TYPE_INT, [''10000'']),
      (''max-time'', SB_ARG_TYPE_INT, [''0'']), (''forced-shutdown'', SB_ARG_TYPE_STRING, [''off'']),
      (''thread-stack-size'', SB_ARG_TYPE_SIZE, [''32K'']), (''init-rng'', SB_ARG_TYPE_FLAG, []),
      (''test'', SB_ARG_TYPE_STRING, [''idle'']), (''debug'', SB_ARG_TYPE_FLAG, []),
      (''validate'', SB_ARG_TYPE_FLAG, []), (''help'', SB_ARG_TYPE_FLAG, [''on'']),
      (''version'', SB_ARG_TYPE_FLAG, [''on''])]"

lemma demo_main_values:
  "sb_get_value_int ''num-threads'' demo_main_opts = Some 1"
  "sb_get_value_int ''max-requests'' demo_main_opts = Some 10000"
  "sb_get_value_int ''max-time'' demo_main_opts = Some 0"
  "sb_get_value_size ''thread-stack-size'' demo_main_opts = 32768"
  "sb_get_value_flag ''debug'' demo_main_opts = False"
  "sb_get_value_int ''verbosity'' demo_main_opts = Some 4"
  "sb_get_value_int ''percentile'' demo_main_opts = Some 95"
  "sb_get_value_int ''batch-delay'' demo_main_opts = Some 300"
  "sb_get_value_flag ''batch'' demo_main_opts = False"
  "sb_get_value_string ''test'' demo_main_opts = Some ''idle''"
  by (simp_all add: demo_main_opts_def opt_lit_def sb_get_value_int_def sb_get_value_size_def
      sb_get_value_flag_def sb_get_value_string_def find_option_def new_value_def atoi_def int_in_range_def
      dec_val_def digit_val_def is_digit_def isspace_def less_eq_char_def size_of_string_def sizemods_def
      numeral_2_eq_2)

lemma demo_init:
  "\<exists>g' st'. init_sb demo_mem demo_main_opts (g, st) = Some (0, demo_main_opts, g', st') \<and> command g' = command g"
  by (simp add: init_sb_def init_memory_def init_shutdown_def demo_main_values demo_mem_def Let_def)

theorem init_sb_checks_witness:
  "\<exists>g' st'. init_sb demo_mem demo_main_opts (zero_globals, \<lparr>init_rng = False, thread_stack_size = 0\<rparr>) =
     Some (0, demo_main_opts, g', st') \<and> length (op_timers g') = unat (num_threads g')"
proof -
  obtain g' st' where init: "init_sb demo_mem demo_main_opts (zero_globals, \<lparr>init_rng = False, thread_stack_size = 0\<rparr>) =
     Some (0, demo_main_opts, g', st')"
    using demo_init [of zero_globals "\<lparr>init_rng = False, thread_stack_size = 0\<rparr>"] by blast
  moreover have "length (op_timers g') = unat (num_threads g')"
    using init_sb_checks [OF init] by (auto simp: demo_mem_def)
  ultimately show ?thesis by blast
qed

lemma register_tests_eq: "register_tests builtin = (0, builtin)"
proof -
  have "fold (\<lambda>test (rc, tests). let (rc', tests) = register_test test tests in (rc + rc', tests)) bs (0, ts)
      = (0, ts @ bs)" for bs ts :: "('a, 'b) sb_test list"
    by (induction bs arbitrary: ts) (simp_all add: register_test_def)
  then show ?thesis by (simp add: register_tests_def)
qed

lemma dispatch_runs:
  assumes "dispatch tests s = (Runs test, s')"
  shows "s' = s \<and> (\<exists>n. sb_get_value_string ''test'' (m_opts s) = Some n \<and> find_test n tests = Some test) \<and>
    command (m_globals s) \<notin> {SB_COMMAND_HELP, SB_COMMAND_PREPARE, SB_COMMAND_CLEANUP}"
  using assms by (auto simp: dispatch_def Let_def split: option.splits if_splits prod.splits)

lemma main_runs_dispatch:
  assumes "main_sb mem stamp thread_err builtin argv s = Some (Runs test, s')"
  obtains s1 opts0 opts g st where "dispatch builtin s1 = (Runs test, s')"
    and "command (m_globals s1) \<noteq> SB_COMMAND_NULL" and "command (m_globals s1) \<noteq> SB_COMMAND_VERSION"
    and "init_sb mem opts0 (g, st) = Some (0, opts, m_globals s1, m_statics s1)"
proof -
  obtain L opts1 where reg: "log_register (m_log s, sb_options_init) = (0, L, opts1)"
    by (cases "log_register (m_log s, sb_options_init)") (auto simp: log_register_def Let_def split: prod.splits)
  obtain outcome cmd opts0 where parse: "parse_arguments builtin argv opts1 = (outcome, cmd, opts0)"
    by (cases "parse_arguments builtin argv opts1") auto
  have ok: "outcome = Parsed" "cmd \<noteq> SB_COMMAND_NULL"
    using assms by (auto simp: main_sb_def reg register_tests_eq parse Let_def split: parse_outcome.splits if_splits)
  let ?g = "(m_globals s)\<lparr>command := cmd\<rparr>"
  obtain opts g' st' where init: "init_sb mem opts0 (?g, m_statics s) = Some (0, opts, g', st')"
    using assms ok
    by (auto simp: main_sb_def reg register_tests_eq parse Let_def split: option.splits prod.splits if_splits)
  have cmd: "command g' = cmd" using init by (rule init_sb_0) simp
  obtain L' where log: "log_init stamp thread_err opts L = Inr (0, L')"
    using assms ok init
    by (auto simp: main_sb_def reg register_tests_eq parse Let_def split: sum.splits prod.splits if_splits)
  let ?s = "s\<lparr>m_opts := opts, m_globals := g', m_statics := st', m_log := print_header stamp L'\<rparr>"
  have "dispatch builtin ?s = (Runs test, s')" and "cmd \<noteq> SB_COMMAND_VERSION"
    using assms ok init log cmd
    by (auto simp: main_sb_def reg register_tests_eq parse Let_def split: if_splits)
  with that [of ?s opts0 ?g "m_statics s" opts] init cmd ok show thesis by simp
qed

text \<open>
  C40: A test runs only when it is asked for: \<open>main\<close> gets to \<open>run_test\<close> only with the command \<open>run\<close>
  and with the registered test whose name \<open>--test\<close> gives, and after \<open>init\<close> has succeeded.
\<close>

theorem main_runs_requested_test:
  assumes "main_sb mem stamp thread_err builtin argv s = Some (Runs test, s')"
  shows "test \<in> set builtin \<and> sb_get_value_string ''test'' (m_opts s') = Some (test_sname test) \<and>
    command (m_globals s') = SB_COMMAND_RUN \<and> num_threads (m_globals s') \<noteq> 0 \<and>
    0 < thread_stack_size (m_statics s')"
proof -
  obtain s1 opts0 opts g st where d: "dispatch builtin s1 = (Runs test, s')"
    and c: "command (m_globals s1) \<noteq> SB_COMMAND_NULL" "command (m_globals s1) \<noteq> SB_COMMAND_VERSION"
    and init: "init_sb mem opts0 (g, st) = Some (0, opts, m_globals s1, m_statics s1)"
    by (rule main_runs_dispatch [OF assms])
  have "num_threads (m_globals s1) \<noteq> 0 \<and> 0 < thread_stack_size (m_statics s1)"
    by (rule init_sb_0 [OF init]) simp
  moreover have "command (m_globals s1) = SB_COMMAND_RUN"
    using dispatch_runs [OF d] c by (cases "command (m_globals s1)") auto
  moreover from dispatch_runs [OF d] obtain n where n: "s' = s1"
    "sb_get_value_string ''test'' (m_opts s1) = Some n" "find_test n builtin = Some test" by blast
  moreover from n(3) have "test \<in> set builtin" "test_sname test = n"
    using find_SomeD [of "\<lambda>t. test_sname t = n" builtin test] by (auto simp: find_test_def)
  ultimately show ?thesis by simp
qed

lemma demo_register:
  "snd (snd (log_register (demo_logger, []))) =
     fst (sb_register_arg_set oper_handler_args (fst (sb_register_arg_set text_handler_args [])))"
  by (simp add: log_register_def log_add_handler_def handler_args_def Let_def)

lemma demo_parse:
  "parse_arguments [idle_test] [''sysbench'', ''--test=idle'', ''run''] (snd (snd (log_register (demo_logger, [])))) =
     (Parsed, SB_COMMAND_RUN, demo_main_opts)"
  unfolding demo_register by code_simp

lemma demo_log_init:
  assumes "log_register (demo_logger, []) = (rc, L, opts)"
  shows "\<exists>L'. log_init stamp None demo_main_opts L = Inr (0, L')"
proof -
  have "concat (map (handlers L) [LOG_MSG_TYPE_MIN, LOG_MSG_TYPE_TEXT, LOG_MSG_TYPE_OPER]) = [Text_handler, Oper_handler]"
    using assms by (auto simp: log_register_def log_add_handler_def Let_def)
  then show ?thesis
    by (simp add: log_init_def handler_init_def text_handler_init_def oper_handler_init_def
        demo_main_values priority_code_def Let_def)
qed

theorem main_runs_requested_test_witness:
  "\<exists>s'. main_sb demo_mem (\<lambda>_. []) None [idle_test] [''sysbench'', ''--test=idle'', ''run'']
      \<lparr>m_printed = [], m_log = demo_logger, m_opts = [], m_globals = zero_globals,
       m_statics = \<lparr>init_rng = False, thread_stack_size = 0\<rparr>, m_world = 0\<rparr> = Some (Runs idle_test, s') \<and>
     command (m_globals s') = SB_COMMAND_RUN"
proof -
  let ?s = "\<lparr>m_printed = [], m_log = demo_logger, m_opts = [], m_globals = zero_globals,
       m_statics = \<lparr>init_rng = False, thread_stack_size = 0\<rparr>, m_world = 0\<rparr>"
  obtain rc L opts where reg: "log_register (demo_logger, []) = (rc, L, opts)" by (metis prod.exhaust)
  obtain g st where init: "init_sb demo_mem demo_main_opts (zero_globals\<lparr>command := SB_COMMAND_RUN\<rparr>,
      \<lparr>init_rng = False, thread_stack_size = 0\<rparr>) = Some (0, demo_main_opts, g, st)" "command g = SB_COMMAND_RUN"
    using demo_init [of "zero_globals\<lparr>command := SB_COMMAND_RUN\<rparr>" "\<lparr>init_rng = False, thread_stack_size = 0\<rparr>"]
    by auto
  obtain L' where log: "log_init (\<lambda>_. []) None demo_main_opts L = Inr (0, L')"
    using demo_log_init [OF reg] by blast
  have parse: "parse_arguments [idle_test] [''sysbench'', ''--test=idle'', ''run''] opts =
      (Parsed, SB_COMMAND_RUN, demo_main_opts)"
    using demo_parse reg by simp
  have "\<exists>s'. main_sb demo_mem (\<lambda>_. []) None [idle_test] [''sysbench'', ''--test=idle'', ''run''] ?s =
      Some (Runs idle_test, s')"
    using init log
    by (simp add: main_sb_def sb_options_init_def reg register_tests_eq parse Let_def dispatch_def
        demo_main_values find_test_def, simp add: idle_test_def)
  then obtain s' where run: "main_sb demo_mem (\<lambda>_. []) None [idle_test] [''sysbench'', ''--test=idle'', ''run''] ?s =
      Some (Runs idle_test, s')" by blast
  with main_runs_requested_test [OF run] show ?thesis by blast
qed

end
