(* ===== verification/SbRunner.thy ===== *)
theory SbRunner
  imports Sysbench
begin

text \<open>
  The run of a test (\<open>run_test\<close>, \<open>runner_thread\<close> and \<open>print_run_mode\<close> of \<open>sysbench.c\<close>) as a transition
  system: the main thread that creates the runner threads, opens the start barrier and joins them,
  and the runner threads that each get and execute requests.  The operations of the test are
  atomic; between them the threads interleave freely.  Log messages are left out.
\<close>

section \<open>Before the threads\<close>

text \<open>The effect of \<open>print_run_mode\<close> beside its messages; \<open>seed\<close> is the result of \<open>time (NULL)\<close>.\<close>

definition print_run_mode ::
  "('w, 'r) sb_test \<Rightarrow> sb_statics \<Rightarrow> int \<Rightarrow> 48 word \<times> 'w world \<Rightarrow> 48 word \<times> 'w world" where
  "print_run_mode test st seed = (\<lambda>(rng, w).
     let rng = (if init_rng st then sb_srnd seed else rng)
     in (rng, case t_print_mode (test_ops test) of None \<Rightarrow> w | Some f \<Rightarrow> f w))"

definition set_globals :: "(sb_globals \<Rightarrow> sb_globals) \<Rightarrow> 'w world \<Rightarrow> 'w world" where
  "set_globals f = (\<lambda>(g, w). (f g, w))"

definition opt_call :: "('w world \<Rightarrow> int \<times> 'w world) option \<Rightarrow> 'w world \<Rightarrow> int \<times> 'w world" where
  "opt_call f w = (case f of None \<Rightarrow> (0, w) | Some f \<Rightarrow> f w)"

text \<open>
  \<open>run_test\<close> up to the creation of the threads: the return code of a failed operation, or the
  random number generator and the world.  The timer just initialised can be started.
\<close>

definition run_test_begin ::
  "('w, 'r) sb_test \<Rightarrow> sb_statics \<Rightarrow> int \<Rightarrow> timespec \<Rightarrow> 48 word \<times> 'w world \<Rightarrow> int + 48 word \<times> 'w world" where
  "run_test_begin test st seed now = (\<lambda>(rng, w).
     let (rc, w) = opt_call (t_init (test_ops test)) w
     in if rc \<noteq> 0 then Inl 1
        else
          (let (rng, w) = print_run_mode test st seed (rng, w);
               w = set_globals (\<lambda>g. g\<lparr>exec_timer := sb_timer_init (exec_timer g),
                                      op_timers := map sb_timer_init (take (unat (num_threads g)) (op_timers g)) @
                                                   drop (unat (num_threads g)) (op_timers g)\<rparr>) w
           in case sb_timer_start now (exec_timer (fst w)) of
                Inl _ \<Rightarrow> Inl 1
              | Inr (t, _) \<Rightarrow>
                  (let w = set_globals (\<lambda>g. g\<lparr>exec_timer := t\<rparr>) w;
                       (rc, w) = opt_call (t_prepare (test_ops test)) w
                   in if rc \<noteq> 0 then Inl 1 else Inr (rng, w))))"

text \<open>\<open>run_test\<close> after the last thread is joined.\<close>

definition run_test_end :: "('w, 'r) sb_test \<Rightarrow> timespec \<Rightarrow> 'w world \<Rightarrow> int \<times> 'w world" where
  "run_test_end test now w =
     (let (rc, w) = opt_call (t_cleanup (test_ops test)) w
      in if rc \<noteq> 0 then (1, w)
         else
           (let w = (case sb_timer_stop now (exec_timer (fst w)) of
                       Inl _ \<Rightarrow> w | Inr (t, _) \<Rightarrow> set_globals (\<lambda>g. g\<lparr>exec_timer := t\<rparr>) w);
                w = (case t_print_stats (test_ops test) of
                       None \<Rightarrow> w | Some f \<Rightarrow> if error (fst w) = 0 then f w else w);
                w = (case t_done (test_ops test) of None \<Rightarrow> w | Some f \<Rightarrow> snd (f w))
            in (if error (fst w) \<noteq> 0 then 1 else 0, w)))"

text \<open>
  The handler of \<open>SIGALRM\<close>, which forces the shutdown: the exit status, if it exits.  The timer of the
  run was started before the alarm is set.
\<close>

definition sigalrm_handler ::
  "(nat \<Rightarrow> string) \<Rightarrow> (nat \<Rightarrow> nat \<Rightarrow> real \<Rightarrow> string) \<Rightarrow> sb_timer \<Rightarrow> string option \<Rightarrow> timespec \<Rightarrow> bool \<Rightarrow>
   ('w, 'r) sb_test option \<Rightarrow> 'w world \<times> logger \<Rightarrow> int option \<times> 'w world \<times> logger" where
  "sigalrm_handler stamp pf junk join_err now is_alrm current_test = (\<lambda>(w, L).
     if \<not> is_alrm then (None, w, L)
     else
       (let w = (case sb_timer_stop now (exec_timer (fst w)) of
                   Inl _ \<Rightarrow> w | Inr (t, _) \<Rightarrow> set_globals (\<lambda>g. g\<lparr>exec_timer := t\<rparr>) w);
            L = log_text stamp LOG_FATAL ''The --max-time limit has expired, forcing shutdown...'' L;
            w = (case current_test of
                   None \<Rightarrow> w
                 | Some test \<Rightarrow> (case t_print_stats (test_ops test) of None \<Rightarrow> w | Some f \<Rightarrow> f w));
            L = log_done stamp pf junk join_err (fst w) L
        in (Some 2, w, L)))"

section \<open>A runner thread\<close>

datatype 'r runner_pc =
  R_start | R_barrier | R_locked | R_get | R_exec "'r sb_request" | R_limit sb_request_type
| R_cond sb_request_type | R_done | R_exit | R_abort

definition time_limit_exceeded :: "timespec \<Rightarrow> sb_globals \<Rightarrow> bool option" where
  "time_limit_exceeded now g =
     (if max_time_limit g = 0 then Some False
      else case sb_timer_current now (exec_timer g) of
             Inl _ \<Rightarrow> None
           | Inr t \<Rightarrow> Some (NS2SEC (real (unat t)) \<ge> real (unat (max_time_limit g))))"

text \<open>The steps of a thread outside of the barrier.\<close>

definition runner_step ::
  "'r \<Rightarrow> ('w, 'r) sb_test \<Rightarrow> u32 \<Rightarrow> timespec \<Rightarrow> 'r runner_pc \<Rightarrow> 'w world \<Rightarrow> 'r runner_pc \<times> 'w world" where
  "runner_step junk test tid now pc w =
     (case pc of
        R_start \<Rightarrow>
          (case t_thread_init (test_ops test) of
             None \<Rightarrow> (R_barrier, w)
           | Some f \<Rightarrow> (let (rc, w) = f tid w
                        in if rc \<noteq> 0 then (R_exit, set_globals (\<lambda>g. g\<lparr>error := 1\<rparr>) w) else (R_barrier, w)))
      | R_get \<Rightarrow>
          (let (r, w) = get_request junk test tid w
           in (if req_type r \<noteq> SB_REQ_TYPE_NULL then R_exec r else R_limit SB_REQ_TYPE_NULL, w))
      | R_exec r \<Rightarrow>
          (let (rc, w) = execute_request test r tid w
           in (if rc \<noteq> 0 then R_done else R_limit (req_type r), w))
      | R_limit ty \<Rightarrow>
          (case time_limit_exceeded now (fst w) of
             None \<Rightarrow> (R_abort, w) | Some True \<Rightarrow> (R_done, w) | Some False \<Rightarrow> (R_cond ty, w))
      | R_cond ty \<Rightarrow> (if ty \<noteq> SB_REQ_TYPE_NULL \<and> error (fst w) = 0 then R_get else R_done, w)
      | R_done \<Rightarrow>
          (R_exit, case t_thread_done (test_ops test) of None \<Rightarrow> w | Some f \<Rightarrow> snd (f tid w))
      | _ \<Rightarrow> (pc, w))"

definition local_pc :: "'r runner_pc \<Rightarrow> bool" where
  "local_pc pc = (case pc of R_barrier \<Rightarrow> False | R_locked \<Rightarrow> False | R_exit \<Rightarrow> False | R_abort \<Rightarrow> False | _ \<Rightarrow> True)"

section \<open>The main thread and the interleaving\<close>

datatype main_pc = M_create nat | M_unlock | M_join nat | M_end | M_return int

record ('w, 'r) run_sys =
  rs_world :: "'w world"
  start_mutex :: "nat option option"
  threads :: "nat \<Rightarrow> 'r runner_pc option"
  rs_main :: main_pc

text \<open>
  \<open>start_mutex\<close> is \<open>Some None\<close> while the main thread holds it and \<open>Some (Some i)\<close> while runner \<open>i\<close> does.
  A thread is \<open>None\<close> until it is created.
\<close>

definition nthreads :: "('w, 'r) run_sys \<Rightarrow> nat" where
  "nthreads s = unat (num_threads (fst (rs_world s)))"

inductive run_step :: "'r \<Rightarrow> ('w, 'r) sb_test \<Rightarrow> ('w, 'r) run_sys \<Rightarrow> ('w, 'r) run_sys \<Rightarrow> bool"
  for junk :: 'r and test :: "('w, 'r) sb_test" where
  create_stops:
    "rs_main s = M_create i \<Longrightarrow> i < nthreads s \<Longrightarrow> error (fst (rs_world s)) \<noteq> 0 \<Longrightarrow>
     run_step junk test s (s\<lparr>rs_main := M_return 1\<rparr>)"
| create_fails:
    "rs_main s = M_create i \<Longrightarrow> i < nthreads s \<Longrightarrow> error (fst (rs_world s)) = 0 \<Longrightarrow>
     run_step junk test s (s\<lparr>rs_main := M_return 1\<rparr>)"
| create:
    "rs_main s = M_create i \<Longrightarrow> i < nthreads s \<Longrightarrow> error (fst (rs_world s)) = 0 \<Longrightarrow>
     run_step junk test s (s\<lparr>rs_main := M_create (Suc i), threads := (threads s)(i \<mapsto> R_start)\<rparr>)"
| created: "rs_main s = M_create i \<Longrightarrow> \<not> i < nthreads s \<Longrightarrow> run_step junk test s (s\<lparr>rs_main := M_unlock\<rparr>)"
| main_unlock: "rs_main s = M_unlock \<Longrightarrow> run_step junk test s (s\<lparr>rs_main := M_join 0, start_mutex := None\<rparr>)"
| join:
    "rs_main s = M_join i \<Longrightarrow> i < nthreads s \<Longrightarrow> threads s i = Some R_exit \<Longrightarrow>
     run_step junk test s (s\<lparr>rs_main := M_join (Suc i)\<rparr>)"
| joined: "rs_main s = M_join i \<Longrightarrow> \<not> i < nthreads s \<Longrightarrow> run_step junk test s (s\<lparr>rs_main := M_end\<rparr>)"
| finish:
    "rs_main s = M_end \<Longrightarrow> run_test_end test now (rs_world s) = (rc, w) \<Longrightarrow>
     run_step junk test s (s\<lparr>rs_main := M_return rc, rs_world := w\<rparr>)"
| runner:
    "threads s i = Some pc \<Longrightarrow> local_pc pc \<Longrightarrow> runner_step junk test (of_nat i) now pc (rs_world s) = (pc', w) \<Longrightarrow>
     run_step junk test s (s\<lparr>threads := (threads s)(i \<mapsto> pc'), rs_world := w\<rparr>)"
| barrier_lock:
    "threads s i = Some R_barrier \<Longrightarrow> start_mutex s = None \<Longrightarrow>
     run_step junk test s (s\<lparr>threads := (threads s)(i \<mapsto> R_locked), start_mutex := Some (Some i)\<rparr>)"
| barrier_unlock:
    "threads s i = Some R_locked \<Longrightarrow>
     run_step junk test s (s\<lparr>threads := (threads s)(i \<mapsto> R_get), start_mutex := None\<rparr>)"

text \<open>The main thread holds the start mutex when it creates the first thread.\<close>

definition run_start :: "'w world \<Rightarrow> ('w, 'r) run_sys" where
  "run_start w = \<lparr>rs_world = w, start_mutex = Some None, threads = Map.empty, rs_main = M_create 0\<rparr>"

section \<open>Invariants\<close>

text \<open>The operations of the test do not change the number of threads.\<close>

definition keeps_threads :: "('w, 'r) sb_test \<Rightarrow> bool" where
  "keeps_threads test \<longleftrightarrow>
     (\<forall>f tid w. t_thread_init (test_ops test) = Some f \<longrightarrow> num_threads (fst (snd (f tid w))) = num_threads (fst w)) \<and>
     (\<forall>f tid w. t_get_request (test_ops test) = Some f \<longrightarrow> num_threads (fst (snd (f tid w))) = num_threads (fst w)) \<and>
     (\<forall>f r tid w. t_execute_request (test_ops test) = Some f \<longrightarrow> num_threads (fst (snd (f r tid w))) = num_threads (fst w)) \<and>
     (\<forall>f tid w. t_thread_done (test_ops test) = Some f \<longrightarrow> num_threads (fst (snd (f tid w))) = num_threads (fst w))"

definition waiting_pc :: "'r runner_pc option \<Rightarrow> bool" where
  "waiting_pc p \<longleftrightarrow> p \<in> {None, Some R_start, Some R_barrier, Some R_exit}"

definition main_inv :: "nat \<Rightarrow> ('w, 'r) run_sys \<Rightarrow> bool" where
  "main_inv n s =
     (case rs_main s of
        M_create i \<Rightarrow> i \<le> n \<and> (\<forall>j. threads s j \<noteq> None \<longleftrightarrow> j < i) \<and> start_mutex s = Some None \<and> nthreads s = n
      | M_unlock \<Rightarrow> (\<forall>j. threads s j \<noteq> None \<longleftrightarrow> j < n) \<and> start_mutex s = Some None \<and> nthreads s = n
      | M_join i \<Rightarrow> i \<le> n \<and> (\<forall>j. threads s j \<noteq> None \<longleftrightarrow> j < n) \<and> (\<forall>j<i. threads s j = Some R_exit) \<and> nthreads s = n
      | M_end \<Rightarrow> (\<forall>j<n. threads s j = Some R_exit) \<and> (\<forall>j. threads s j \<noteq> None \<longleftrightarrow> j < n)
      | M_return rc \<Rightarrow>
          (rc = 1 \<and> start_mutex s = Some None) \<or>
          ((\<forall>j<n. threads s j = Some R_exit) \<and> (\<forall>j. threads s j \<noteq> None \<longleftrightarrow> j < n)))"

definition barrier_inv :: "('w, 'r) run_sys \<Rightarrow> bool" where
  "barrier_inv s \<longleftrightarrow>
     (start_mutex s = Some None \<longrightarrow> (\<forall>j. waiting_pc (threads s j))) \<and>
     (\<forall>j. threads s j = Some R_locked \<longleftrightarrow> start_mutex s = Some (Some j))"

lemma num_threads_set_globals [simp]: "num_threads (fst (set_globals (\<lambda>g. g\<lparr>error := e\<rparr>) w)) = num_threads (fst w)"
  by (cases w) (simp add: set_globals_def)

lemma runner_step_threads:
  assumes "keeps_threads test" and "runner_step junk test tid now pc w = (pc', w')"
  shows "num_threads (fst w') = num_threads (fst w)"
proof -
  have init: "num_threads (fst (snd (f tid w))) = num_threads (fst w)" if "t_thread_init (test_ops test) = Some f" for f
    using assms(1) that unfolding keeps_threads_def by blast
  have get: "num_threads (fst (snd (get_request junk test tid w))) = num_threads (fst w)"
    using assms(1) unfolding keeps_threads_def get_request_def by (cases w) (auto split: option.split)
  have exec: "num_threads (fst (snd (execute_request test r tid w))) = num_threads (fst w)" for r
    using assms(1) unfolding keeps_threads_def execute_request_def by (cases w) (auto split: option.split)
  have fin: "num_threads (fst (snd (f tid w))) = num_threads (fst w)" if "t_thread_done (test_ops test) = Some f" for f
    using assms(1) that unfolding keeps_threads_def by blast
  show ?thesis
  proof (cases pc)
    case R_start
    with assms(2) init show ?thesis
      by (fastforce simp: runner_step_def split: option.splits prod.splits if_splits)
  next
    case R_done
    with assms(2) fin show ?thesis by (auto simp: runner_step_def split: option.splits)
  next
    case R_get
    with assms(2) get show ?thesis by (auto simp: runner_step_def split: prod.splits)
  next
    case (R_exec r)
    with assms(2) exec [of r] show ?thesis by (auto simp: runner_step_def split: prod.splits)
  qed (use assms(2) in \<open>auto simp: runner_step_def split: option.splits bool.splits\<close>)
qed

lemma runner_step_pc:
  assumes "runner_step junk test tid now pc w = (pc', w')" and "local_pc pc"
  shows "pc' \<noteq> R_locked" and "pc = R_start \<Longrightarrow> pc' = R_barrier \<or> pc' = R_exit"
proof -
  show "pc' \<noteq> R_locked"
    using assms by (cases pc) (auto simp: runner_step_def local_pc_def split: option.splits bool.splits prod.splits if_splits)
  show "pc' = R_barrier \<or> pc' = R_exit" if "pc = R_start"
    using assms(1) that by (auto simp: runner_step_def split: option.splits prod.splits if_splits)
qed

lemma barrier_inv_step [inv_intros]:
  assumes "run_step junk test s t" and "barrier_inv s" and "main_inv n s"
  shows "barrier_inv t"
  using assms
proof (induction rule: run_step.induct)
  case (runner s i pc now pc' w)
  note pc' = runner_step_pc [OF runner(3,2)]
  have "pc \<noteq> R_locked" using runner(2) by (auto simp: local_pc_def)
  then have "start_mutex s \<noteq> Some (Some i)" using runner(1,4) by (auto simp: barrier_inv_def dest: spec [of _ i])
  moreover have "waiting_pc (Some pc')" if "start_mutex s = Some None"
  proof -
    have "waiting_pc (threads s i)" using runner(4) that by (simp add: barrier_inv_def)
    then have "pc = R_start" using runner(1,2) by (auto simp: waiting_pc_def local_pc_def)
    with pc' show ?thesis by (auto simp: waiting_pc_def)
  qed
  ultimately show ?case using runner(1,4) pc'(1) by (auto simp: barrier_inv_def)
qed (auto simp: barrier_inv_def main_inv_def waiting_pc_def split: if_splits)

text \<open>While some thread is alive, the main thread has not come past the joins.\<close>

lemma main_inv_live:
  assumes "main_inv n s" and "threads s i = Some pc" and "pc \<noteq> R_exit"
  shows "rs_main s \<noteq> M_end" and "rs_main s = M_return rc \<Longrightarrow> rc = 1 \<and> start_mutex s = Some None"
proof -
  have "\<not> ((\<forall>j<n. threads s j = Some R_exit) \<and> (\<forall>j. threads s j \<noteq> None \<longleftrightarrow> j < n))"
    using assms(2,3) by (metis option.distinct(1) option.inject)
  note live = this
  show "rs_main s \<noteq> M_end"
  proof
    assume "rs_main s = M_end"
    with assms(1) have "(\<forall>j<n. threads s j = Some R_exit) \<and> (\<forall>j. threads s j \<noteq> None \<longleftrightarrow> j < n)"
      by (simp add: main_inv_def)
    with live show False by blast
  qed
  show "rc = 1 \<and> start_mutex s = Some None" if "rs_main s = M_return rc"
    using assms(1) that live unfolding main_inv_def by fastforce
qed

lemma main_inv_step [inv_intros]:
  assumes "run_step junk test s t" and "barrier_inv s" and "main_inv n s" and "keeps_threads test"
  shows "main_inv n t"
  using assms
proof (induction rule: run_step.induct)
  case (runner s i pc now pc' w)
  have "num_threads (fst w) = num_threads (fst (rs_world s))"
    by (rule runner_step_threads [OF runner(6,3)])
  moreover have "pc \<noteq> R_exit" using runner(2) by (auto simp: local_pc_def)
  ultimately show ?case
    using runner(1,5) by (auto simp: main_inv_def nthreads_def split: main_pc.splits)
next
  case (barrier_lock s i)
  with main_inv_live [OF barrier_lock(4,1)] show ?case by (cases "rs_main s") (auto simp: main_inv_def nthreads_def)
next
  case (barrier_unlock s i)
  from barrier_unlock(1,2) have "start_mutex s = Some (Some i)" by (simp add: barrier_inv_def)
  with barrier_unlock(1,3) main_inv_live [OF barrier_unlock(3,1)] show ?case by (cases "rs_main s") (auto simp: main_inv_def nthreads_def)
qed (auto simp: main_inv_def nthreads_def less_Suc_eq)

lemma run_invs:
  assumes "(run_step junk test)\<^sup>*\<^sup>* (run_start w) s" and "keeps_threads test"
  shows "barrier_inv s \<and> main_inv (unat (num_threads (fst w))) s"
  using assms(1)
proof (induction rule: rtranclp_induct)
  case base
  show ?case by (simp add: run_start_def barrier_inv_def main_inv_def waiting_pc_def nthreads_def)
next
  case (step s t)
  with assms(2) show ?case by (blast intro: inv_intros)
qed

section \<open>Requests of one thread\<close>

text \<open>The run of one thread on its own, with the requests it executes; \<open>None\<close> when the fuel runs out.\<close>

fun runner_run ::
  "nat \<Rightarrow> 'r \<Rightarrow> ('w, 'r) sb_test \<Rightarrow> u32 \<Rightarrow> timespec \<Rightarrow> 'r runner_pc \<Rightarrow> 'w world \<Rightarrow> ('r sb_request list \<times> 'w world) option" where
  "runner_run 0 junk test tid now pc w = None"
| "runner_run (Suc k) junk test tid now pc w =
     (if pc = R_done then Some ([], w)
      else if \<not> local_pc pc then None
      else
        (let (pc', w') = runner_step junk test tid now pc w
         in map_option (\<lambda>(rs, w). ((case pc of R_exec r \<Rightarrow> [r] | _ \<Rightarrow> []) @ rs, w))
              (runner_run k junk test tid now pc' w')))"

text \<open>
  How a thread comes to its end: the next request is the \<open>NULL\<close> request, or the next request \<open>r\<close>
  fails.  A test serves the requests \<open>rs\<close> up to an end when it gives and executes them one by one
  without an error and within the time limit.
\<close>

definition no_more :: "'r \<Rightarrow> ('w, 'r) sb_test \<Rightarrow> u32 \<Rightarrow> timespec \<Rightarrow> 'w world \<Rightarrow> bool" where
  "no_more junk test tid now w =
     (case get_request junk test tid w of
        (r, w') \<Rightarrow> req_type r = SB_REQ_TYPE_NULL \<and> time_limit_exceeded now (fst w') = Some False)"

definition fails_on :: "'r \<Rightarrow> ('w, 'r) sb_test \<Rightarrow> u32 \<Rightarrow> 'r sb_request \<Rightarrow> 'w world \<Rightarrow> bool" where
  "fails_on junk test tid r w =
     (case get_request junk test tid w of
        (r', w') \<Rightarrow> r' = r \<and> req_type r \<noteq> SB_REQ_TYPE_NULL \<and> fst (execute_request test r tid w') \<noteq> 0)"

fun serves ::
  "'r \<Rightarrow> ('w, 'r) sb_test \<Rightarrow> u32 \<Rightarrow> timespec \<Rightarrow> ('w world \<Rightarrow> bool) \<Rightarrow> 'r sb_request list \<Rightarrow> 'w world \<Rightarrow> bool" where
  "serves junk test tid now stop [] w \<longleftrightarrow> stop w"
| "serves junk test tid now stop (r # rs) w \<longleftrightarrow>
     (case get_request junk test tid w of
        (r', w') \<Rightarrow> r' = r \<and> req_type r \<noteq> SB_REQ_TYPE_NULL \<and>
          (case execute_request test r tid w' of
             (rc, w'') \<Rightarrow> rc = 0 \<and> time_limit_exceeded now (fst w'') = Some False \<and>
               error (fst w'') = 0 \<and> serves junk test tid now stop rs w''))"

lemma runner_run_serves:
  assumes "serves junk test tid now stop rs w"
    and "\<And>w. stop w \<Longrightarrow> \<exists>w'. runner_run m junk test tid now R_get w = Some (rest, w') \<and> Q w'"
  shows "\<exists>w'. runner_run (4 * length rs + m) junk test tid now R_get w = Some (rs @ rest, w') \<and> Q w'"
  using assms(1)
proof (induction rs arbitrary: w)
  case Nil
  with assms(2) show ?case by simp
next
  case (Cons r rs)
  obtain w1 where get: "get_request junk test tid w = (r, w1)" and ty: "req_type r \<noteq> SB_REQ_TYPE_NULL"
    using Cons.prems by (cases "get_request junk test tid w") auto
  obtain w2 where exec: "execute_request test r tid w1 = (0, w2)"
    "time_limit_exceeded now (fst w2) = Some False" "error (fst w2) = 0" "serves junk test tid now stop rs w2"
    using Cons.prems get by (cases "execute_request test r tid w1") auto
  from Cons.IH [OF exec(4)] obtain w' where
    "runner_run (4 * length rs + m) junk test tid now R_get w2 = Some (rs @ rest, w')" "Q w'" by blast
  then show ?case
    using get ty exec(1-3) by (simp add: runner_step_def local_pc_def eval_nat_numeral)
qed

lemma runner_run_drains_in:
  assumes "serves junk test tid now (\<lambda>w. no_more junk test tid now w \<and> Q (snd (get_request junk test tid w))) rs w"
  shows "\<exists>w'. runner_run (4 * length rs + 4) junk test tid now R_get w = Some (rs, w') \<and> Q w'"
proof -
  have "\<exists>w'. runner_run 4 junk test tid now R_get w = Some ([], w') \<and> Q w'"
    if "no_more junk test tid now w \<and> Q (snd (get_request junk test tid w))" for w
    using that by (cases "get_request junk test tid w")
      (simp add: no_more_def runner_step_def local_pc_def eval_nat_numeral)
  then show ?thesis using runner_run_serves [where rest = "[]", OF assms] by simp
qed

lemma runner_run_drains:
  assumes "serves junk test tid now (no_more junk test tid now) rs w"
  shows "\<exists>w'. runner_run (4 * length rs + 4) junk test tid now R_get w = Some (rs, w')"
  using runner_run_drains_in [of junk test tid now "\<lambda>_. True"] assms by simp

lemma runner_run_fails:
  assumes "serves junk test tid now (fails_on junk test tid r) rs w"
  shows "\<exists>w'. runner_run (4 * length rs + 4) junk test tid now R_get w = Some (rs @ [r], w')"
proof -
  have "\<exists>w'. runner_run 4 junk test tid now R_get w = Some ([r], w')" if fail: "fails_on junk test tid r w" for w
  proof -
    obtain w1 where get: "get_request junk test tid w = (r, w1)" and ty: "req_type r \<noteq> SB_REQ_TYPE_NULL"
      and "fst (execute_request test r tid w1) \<noteq> 0"
      using fail by (cases "get_request junk test tid w") (auto simp: fails_on_def)
    then show ?thesis
      by (cases "execute_request test r tid w1") (simp add: runner_step_def local_pc_def eval_nat_numeral)
  qed
  then show ?thesis using runner_run_serves [where rest = "[r]" and Q = "\<lambda>_. True", OF assms] by simp
qed

section \<open>Properties\<close>

text \<open>
  C32: The start barrier.  When any thread is past the barrier (it gets, executes or finishes
  requests), all threads have been created; and at most one thread at a time is inside the start
  mutex.
\<close>

theorem runner_barrier:
  assumes "(run_step junk test)\<^sup>*\<^sup>* (run_start w) s" and "keeps_threads test"
    and "threads s i = Some pc" and "pc \<notin> {R_start, R_barrier, R_locked, R_exit}"
  shows "(\<forall>j < unat (num_threads (fst w)). threads s j \<noteq> None) \<and>
    (\<forall>j k. threads s j = Some R_locked \<and> threads s k = Some R_locked \<longrightarrow> j = k)"
proof -
  have inv: "barrier_inv s" "main_inv (unat (num_threads (fst w))) s" using run_invs [OF assms(1,2)] by simp_all
  have "\<not> waiting_pc (threads s i)" using assms(3,4) by (simp add: waiting_pc_def)
  then have free: "start_mutex s \<noteq> Some None" using inv(1) by (auto simp: barrier_inv_def)
  with main_inv_live [OF inv(2) assms(3)] assms(4) inv(2)
  have "\<forall>j < unat (num_threads (fst w)). threads s j \<noteq> None"
    by (cases "rs_main s") (auto simp: main_inv_def)
  moreover have "j = k" if "threads s j = Some R_locked" "threads s k = Some R_locked" for j k
    using inv(1) that by (simp add: barrier_inv_def)
  ultimately show ?thesis by blast
qed

text \<open>
  C33: \<open>run_test\<close> returns 0 only after every thread has finished.
\<close>

theorem run_test_joins_all:
  assumes "(run_step junk test)\<^sup>*\<^sup>* (run_start w) s" and "keeps_threads test" and "rs_main s = M_return 0"
  shows "\<forall>j < unat (num_threads (fst w)). threads s j = Some R_exit"
  using run_invs [OF assms(1,2)] assms(3) by (simp add: main_inv_def)

text \<open>
  C34: A runner thread executes exactly the requests its test serves, in order, and ends: after the
  last one when the \<open>NULL\<close> request follows, and right after a request that fails.  Four steps per
  request (get, execute, time limit, loop condition) are enough.
\<close>

theorem runner_thread_drains:
  "(serves junk test tid now (no_more junk test tid now) rs w \<longrightarrow>
      (\<exists>w'. runner_run (4 * length rs + 4) junk test tid now R_get w = Some (rs, w'))) \<and>
   (serves junk test tid now (fails_on junk test tid r) rs w \<longrightarrow>
      (\<exists>w'. runner_run (4 * length rs + 4) junk test tid now R_get w = Some (rs @ [r], w')))"
  by (intro conjI impI runner_run_drains runner_run_fails)

text \<open>A test that counts down its world, for concrete runs.\<close>

definition countdown :: "(nat, nat) sb_test" where
  "countdown = idle_test\<lparr>test_ops := idle_ops
     \<lparr>t_get_request := Some (\<lambda>tid (g, n). (\<lparr>req_type = if n = 0 then SB_REQ_TYPE_NULL else SB_REQ_TYPE_CPU, req_data = n\<rparr>, g, n - 1)),
      t_execute_request := Some (\<lambda>r tid w. (0, w))\<rparr>\<rparr>"

lemma countdown_keeps: "keeps_threads countdown"
  by (auto simp: keeps_threads_def countdown_def idle_ops_def)

theorem runner_thread_drains_witness:
  "\<exists>w'. runner_run 12 0 countdown 0 (0, 0) R_get (zero_globals, 2) =
     Some ([\<lparr>req_type = SB_REQ_TYPE_CPU, req_data = 2\<rparr>, \<lparr>req_type = SB_REQ_TYPE_CPU, req_data = 1\<rparr>], w')"
proof -
  let ?rs = "[\<lparr>req_type = SB_REQ_TYPE_CPU, req_data = 2\<rparr>, \<lparr>req_type = SB_REQ_TYPE_CPU, req_data = 1\<rparr>] :: nat sb_request list"
  have "serves 0 countdown 0 (0, 0) (no_more 0 countdown 0 (0, 0)) ?rs (zero_globals, 2)"
    by (simp add: countdown_def idle_ops_def get_request_def execute_request_def no_more_def
        time_limit_exceeded_def zero_globals_def)
  with runner_thread_drains [of 0 countdown 0 "(0, 0)" ?rs "(zero_globals, 2)"] show ?thesis by simp
qed

text \<open>A run of one thread up to the loop.\<close>

definition one_thread :: "nat world" where
  "one_thread = (zero_globals\<lparr>num_threads := 1\<rparr>, 1)"

definition in_loop :: "(nat, nat) run_sys" where
  "in_loop = \<lparr>rs_world = one_thread, start_mutex = None, threads = [0 \<mapsto> R_get], rs_main = M_join 0\<rparr>"

lemma in_loop_reachable:
  assumes "t_thread_init (test_ops test) = None"
  shows "(run_step 0 test)\<^sup>*\<^sup>* (run_start one_thread) in_loop"
proof -
  let ?step = "run_step 0 test"
  let ?s = "\<lambda>m t p. \<lparr>rs_world = one_thread, start_mutex = m, threads = t, rs_main = p\<rparr> :: (nat, nat) run_sys"
  have "?step (run_start one_thread) (?s (Some None) [0 \<mapsto> R_start] (M_create 1))"
    using create [of "run_start one_thread" 0 0 test]
    by (simp add: run_start_def nthreads_def one_thread_def zero_globals_def)
  moreover have "?step (?s (Some None) [0 \<mapsto> R_start] (M_create 1)) (?s (Some None) [0 \<mapsto> R_start] M_unlock)"
    using created [of "?s (Some None) [0 \<mapsto> R_start] (M_create 1)" 1 0 test]
    by (simp add: nthreads_def one_thread_def)
  moreover have "?step (?s (Some None) [0 \<mapsto> R_start] M_unlock) (?s None [0 \<mapsto> R_start] (M_join 0))"
    using main_unlock [of "?s (Some None) [0 \<mapsto> R_start] M_unlock" 0 test] by simp
  moreover have "?step (?s None [0 \<mapsto> R_start] (M_join 0)) (?s None [0 \<mapsto> R_barrier] (M_join 0))"
    using runner [of "?s None [0 \<mapsto> R_start] (M_join 0)" 0 R_start 0 test "(0, 0)" R_barrier one_thread]
    by (simp add: local_pc_def runner_step_def assms)
  moreover have "?step (?s None [0 \<mapsto> R_barrier] (M_join 0)) (?s (Some (Some 0)) [0 \<mapsto> R_locked] (M_join 0))"
    using barrier_lock [of "?s None [0 \<mapsto> R_barrier] (M_join 0)" 0 0 test] by simp
  moreover have "?step (?s (Some (Some 0)) [0 \<mapsto> R_locked] (M_join 0)) in_loop"
    using barrier_unlock [of "?s (Some (Some 0)) [0 \<mapsto> R_locked] (M_join 0)" 0 0 test]
    by (simp add: in_loop_def)
  ultimately show ?thesis by (meson rtranclp.rtrancl_into_rtrancl rtranclp.rtrancl_refl)
qed

lemma countdown_init: "t_thread_init (test_ops countdown) = None"
  by (simp add: countdown_def idle_ops_def)

theorem runner_barrier_witness: "threads in_loop 0 = Some R_get \<and> threads in_loop 0 \<noteq> None"
proof -
  have "threads in_loop 0 = Some R_get" by (simp add: in_loop_def)
  with runner_barrier [OF in_loop_reachable [OF countdown_init] countdown_keeps, of 0 R_get] show ?thesis
    by (simp add: one_thread_def)
qed

theorem run_test_joins_all_witness:
  "\<exists>s. (run_step 0 idle_test)\<^sup>*\<^sup>* (run_start one_thread) s \<and> rs_main s = M_return 0 \<and> threads s 0 = Some R_exit"
proof -
  let ?step = "run_step 0 idle_test"
  let ?s = "\<lambda>t p. \<lparr>rs_world = one_thread, start_mutex = None, threads = [0 \<mapsto> t], rs_main = p\<rparr> :: (nat, nat) run_sys"
  obtain rc w where fin: "run_test_end idle_test (0, 0) one_thread = (rc, w)" "rc = 0"
    by (simp add: run_test_end_def opt_call_def idle_test_def idle_ops_def one_thread_def zero_globals_def
        zero_timer_def sb_timer_stop_def)
  have init: "t_thread_init (test_ops idle_test) = None" by (simp add: idle_test_def idle_ops_def)
  have keeps: "keeps_threads idle_test" by (simp add: keeps_threads_def idle_test_def idle_ops_def)
  have local: "?step (?s pc (M_join 0)) (?s pc' (M_join 0))"
    if "local_pc pc" "runner_step 0 idle_test 0 (0, 0) pc one_thread = (pc', one_thread)" for pc pc'
    using runner [of "?s pc (M_join 0)" 0 pc 0 idle_test "(0, 0)" pc' one_thread] that by simp
  have "?step (?s R_get (M_join 0)) (?s (R_limit SB_REQ_TYPE_NULL) (M_join 0))"
    and "?step (?s (R_limit SB_REQ_TYPE_NULL) (M_join 0)) (?s (R_cond SB_REQ_TYPE_NULL) (M_join 0))"
    and "?step (?s (R_cond SB_REQ_TYPE_NULL) (M_join 0)) (?s R_done (M_join 0))"
    and "?step (?s R_done (M_join 0)) (?s R_exit (M_join 0))"
    by (rule local; simp add: local_pc_def runner_step_def get_request_def idle_test_def idle_ops_def
        time_limit_exceeded_def one_thread_def zero_globals_def)+
  moreover have "?step (?s R_exit (M_join 0)) (?s R_exit (M_join 1))"
    using join [of "?s R_exit (M_join 0)" 0 0 idle_test] by (simp add: nthreads_def one_thread_def)
  moreover have "?step (?s R_exit (M_join 1)) (?s R_exit M_end)"
    using joined [of "?s R_exit (M_join 1)" 1 0 idle_test] by (simp add: nthreads_def one_thread_def)
  moreover have "?step (?s R_exit M_end) ((?s R_exit (M_return 0))\<lparr>rs_world := w\<rparr>)"
    using finish [of "?s R_exit M_end" idle_test "(0, 0)" rc w 0] fin by simp
  ultimately have "?step\<^sup>*\<^sup>* in_loop ((?s R_exit (M_return 0))\<lparr>rs_world := w\<rparr>)"
    unfolding in_loop_def by (meson rtranclp.rtrancl_into_rtrancl rtranclp.rtrancl_refl)
  with in_loop_reachable [OF init] have reach: "?step\<^sup>*\<^sup>* (run_start one_thread) ((?s R_exit (M_return 0))\<lparr>rs_world := w\<rparr>)"
    by (rule rtranclp_trans)
  from run_test_joins_all [OF reach keeps] have "threads (?s R_exit (M_return 0)\<lparr>rs_world := w\<rparr>) 0 = Some R_exit"
    by (simp add: one_thread_def)
  with reach show ?thesis by (intro exI conjI) auto
qed

end
