(* ===== verification/LockedData.thy ===== *)
theory LockedData
  imports LockFunctions
begin

text \<open>
  Data behind a lock: the pattern of every thread-safe class of the sources.  A thread locks, runs
  the body of its operation one memory access at a time, and unlocks; any number of threads
  interleave.  For every lock that satisfies the interface \<open>spin_lock\<close>, the data is what the
  completed operations give when they are run one after the other in the order of their unlocks.
  The functions that use hardware transactions instead share a retry loop, given at the end.
\<close>

section \<open>Operations under a lock\<close>

text \<open>
  A body is a list of accesses, functions on the thread's local variable and the shared data.  The
  state keeps, as a history variable, the operations in the order in which they were completed.
\<close>

type_synonym ('l, 'd) access = "'l \<times> 'd \<Rightarrow> 'l \<times> 'd"

record ('w, 'l, 'd, 'p) locked_sys =
  spin :: "'w spin_sys"
  shared :: 'd
  local_var :: "nat \<Rightarrow> 'l"
  current :: "nat \<Rightarrow> 'p"
  todo :: "nat \<Rightarrow> ('l, 'd) access list"
  completed :: "'p list"

inductive locked_step ::
  "'w lock_alg \<Rightarrow> ('p \<Rightarrow> ('l, 'd) access list) \<Rightarrow> 'l \<Rightarrow> ('w, 'l, 'd, 'p) locked_sys \<Rightarrow> ('w, 'l, 'd, 'p) locked_sys \<Rightarrow> bool"
  for A :: "'w lock_alg" and body :: "'p \<Rightarrow> ('l, 'd) access list" and l0 :: 'l where
  call: "spcs (spin s) t = Idle \<Longrightarrow> spin_step A (spin s) s' \<Longrightarrow> spcs s' t \<noteq> Idle \<Longrightarrow>
     locked_step A body l0 s (s\<lparr>spin := s', current := (current s)(t := p)\<rparr>)"
| spinning: "spin_step A (spin s) s' \<Longrightarrow> spcs s' t \<noteq> Critical \<Longrightarrow> spcs (spin s) t \<in> {Trying, Waiting} \<Longrightarrow>
     (\<And>u. u \<noteq> t \<Longrightarrow> spcs s' u = spcs (spin s) u) \<Longrightarrow> locked_step A body l0 s (s\<lparr>spin := s'\<rparr>)"
| enter: "spcs (spin s) t = Trying \<Longrightarrow> spin_step A (spin s) s' \<Longrightarrow> spcs s' t = Critical \<Longrightarrow>
     locked_step A body l0 s
       (s\<lparr>spin := s', todo := (todo s)(t := body (current s t)), local_var := (local_var s)(t := l0)\<rparr>)"
| access: "spcs (spin s) t = Critical \<Longrightarrow> todo s t = f # fs \<Longrightarrow> f (local_var s t, shared s) = (l, d) \<Longrightarrow>
     locked_step A body l0 s
       (s\<lparr>todo := (todo s)(t := fs), local_var := (local_var s)(t := l), shared := d\<rparr>)"
| leave: "spcs (spin s) t = Critical \<Longrightarrow> todo s t = [] \<Longrightarrow> spin_step A (spin s) s' \<Longrightarrow> spcs s' t = Idle \<Longrightarrow>
     locked_step A body l0 s (s\<lparr>spin := s', completed := completed s @ [current s t]\<rparr>)"

definition locked_start :: "'w \<Rightarrow> 'd \<Rightarrow> ('w, 'l, 'd, 'p) locked_sys" where
  "locked_start w d =
     \<lparr>spin = \<lparr>lword = w, spcs = (\<lambda>_. Idle)\<rparr>, shared = d, local_var = (\<lambda>_. undefined),
      current = (\<lambda>_. undefined), todo = (\<lambda>_. []), completed = []\<rparr>"

text \<open>An operation run without interruption.\<close>

definition run_body :: "('l, 'd) access list \<Rightarrow> 'l \<times> 'd \<Rightarrow> 'l \<times> 'd" where
  "run_body fs = fold (\<lambda>f. f) fs"

definition atomic_effect :: "('p \<Rightarrow> ('l, 'd) access list) \<Rightarrow> 'l \<Rightarrow> 'p \<Rightarrow> 'd \<Rightarrow> 'd" where
  "atomic_effect body l0 p d = snd (run_body (body p) (l0, d))"

lemma run_body_snoc: "run_body (fs @ [f]) x = f (run_body fs x)"
  by (simp add: run_body_def)

lemma run_body_Nil [simp]: "run_body [] x = x"
  by (simp add: run_body_def)

section \<open>A step of the lock changes one thread\<close>

lemma spin_step_one:
  assumes "spin_step A s s'" and "spcs s' t \<noteq> spcs s t"
  shows "\<forall>u. u \<noteq> t \<longrightarrow> spcs s' u = spcs s u"
  using assms by (induction rule: spin_step.induct) (auto split: if_splits)

lemma spin_step_Critical:
  assumes "spin_step A s s'" and "spcs s' t = Critical" and "spcs s t \<noteq> Critical"
  shows "spcs s t = Trying"
  using assms by (induction rule: spin_step.induct) (auto split: if_splits)

section \<open>Serialisation\<close>

definition serial_data :: "('p \<Rightarrow> ('l, 'd) access list) \<Rightarrow> 'l \<Rightarrow> 'd \<Rightarrow> 'p list \<Rightarrow> 'd" where
  "serial_data body l0 d0 ps = fold (atomic_effect body l0) ps d0"

definition serial_inv ::
  "('p \<Rightarrow> ('l, 'd) access list) \<Rightarrow> 'l \<Rightarrow> 'd \<Rightarrow> ('w, 'l, 'd, 'p) locked_sys \<Rightarrow> bool" where
  "serial_inv body l0 d0 s \<longleftrightarrow>
     ((\<forall>t. spcs (spin s) t \<noteq> Critical) \<longrightarrow> shared s = serial_data body l0 d0 (completed s)) \<and>
     (\<forall>t. spcs (spin s) t = Critical \<longrightarrow>
        (\<exists>fs. body (current s t) = fs @ todo s t \<and>
           (local_var s t, shared s) = run_body fs (l0, serial_data body l0 d0 (completed s))))"

context spin_lock
begin

definition locked_inv :: "('p \<Rightarrow> ('l, 'd) access list) \<Rightarrow> 'l \<Rightarrow> 'd \<Rightarrow> ('w, 'l, 'd, 'p) locked_sys \<Rightarrow> bool" where
  "locked_inv body l0 d0 s \<longleftrightarrow> lock_inv (spin s) \<and> serial_inv body l0 d0 s"

lemma locked_lock_inv:
  assumes "locked_step A body l0 s s'" and "lock_inv (spin s)"
  shows "lock_inv (spin s')"
  using assms by (induction rule: locked_step.induct) (auto intro: step_inv)

lemma one_inside: "lock_inv s \<Longrightarrow> spcs s t = Critical \<Longrightarrow> spcs s u = Critical \<Longrightarrow> t = u"
  by (simp add: lock_inv_def)

lemma locked_serial_inv:
  assumes "locked_step A body l0 s s'" and "locked_inv body l0 d0 s"
  shows "serial_inv body l0 d0 s'"
  using assms
proof (induction rule: locked_step.induct)
  case (call s t s' p)
  have others: "\<forall>u. u \<noteq> t \<longrightarrow> spcs s' u = spcs (spin s) u"
    using spin_step_one [OF call(2)] call(1,3) by metis
  have "spcs s' t \<noteq> Critical" using spin_step_Critical [OF call(2)] call(1) by fastforce
  then have crit: "spcs s' u = Critical \<longleftrightarrow> spcs (spin s) u = Critical" for u
    using others call(1) by (cases "u = t") auto
  have "u \<noteq> t" if "spcs (spin s) u = Critical" for u using that call(1) by auto
  with call(4) crit show ?case unfolding locked_inv_def serial_inv_def by simp
next
  case (spinning s s' t)
  have "spcs s' u = Critical \<longleftrightarrow> spcs (spin s) u = Critical" for u
    using spinning(2-4) by (cases "u = t") auto
  with spinning(5) show ?case unfolding locked_inv_def serial_inv_def by simp
next
  case (enter s t s')
  have others: "\<forall>u. u \<noteq> t \<longrightarrow> spcs s' u = spcs (spin s) u"
    using spin_step_one [OF enter(2)] enter(1,3) by (metis spin_pc.distinct(9))
  have inv: "lock_inv s'" using step_inv [OF enter(2)] enter(4) by (simp add: locked_inv_def)
  have "spcs (spin s) u \<noteq> Critical" for u
    using one_inside [OF inv enter(3)] others enter(1,3) by (metis spin_pc.distinct(9))
  then have "shared s = serial_data body l0 d0 (completed s)"
    using enter(4) by (simp add: locked_inv_def serial_inv_def)
  note clean = this
  let ?s = "s\<lparr>spin := s', todo := (todo s)(t := body (current s t)), local_var := (local_var s)(t := l0)\<rparr>"
  have "\<exists>fs. body (current ?s u) = fs @ todo ?s u \<and>
      (local_var ?s u, shared ?s) = run_body fs (l0, serial_data body l0 d0 (completed ?s))"
    if "spcs (spin ?s) u = Critical" for u
  proof -
    have "u = t" using one_inside [OF inv enter(3), of u] that by simp
    then show ?thesis using clean by (intro exI [of _ "[]"]) simp
  qed
  moreover have "\<exists>u. spcs (spin ?s) u = Critical" using enter(3) by auto
  ultimately show ?case unfolding serial_inv_def by blast
next
  case (access s t f fs l d)
  obtain gs where gs: "body (current s t) = gs @ todo s t"
    "(local_var s t, shared s) = run_body gs (l0, serial_data body l0 d0 (completed s))"
    using access(1,4) by (auto simp: locked_inv_def serial_inv_def)
  have "body (current s t) = (gs @ [f]) @ fs" using gs(1) access(2) by simp
  moreover have "(l, d) = run_body (gs @ [f]) (l0, serial_data body l0 d0 (completed s))"
    using gs(2) access(3) by (simp add: run_body_snoc)
  moreover have "u = t" if "spcs (spin s) u = Critical" for u
    using one_inside [OF _ that access(1)] access(4) by (simp add: locked_inv_def)
  ultimately have "\<exists>fs'. body (current s u) = fs' @ ((todo s)(t := fs)) u \<and>
      (((local_var s)(t := l)) u, d) = run_body fs' (l0, serial_data body l0 d0 (completed s))"
    if "spcs (spin s) u = Critical" for u
    using that by (intro exI [of _ "gs @ [f]"]) simp
  then show ?case using access(1) unfolding serial_inv_def by auto
next
  case (leave s t s')
  have others: "\<forall>u. u \<noteq> t \<longrightarrow> spcs s' u = spcs (spin s) u"
    using spin_step_one [OF leave(3)] leave(1,4) by (metis spin_pc.distinct(5))
  have none: "spcs s' u \<noteq> Critical" for u
    using others leave(1,4,5) one_inside [of "spin s" u t]
    by (cases "u = t") (auto simp: locked_inv_def)
  obtain gs where gs: "body (current s t) = gs @ todo s t"
    "(local_var s t, shared s) = run_body gs (l0, serial_data body l0 d0 (completed s))"
    using leave(1,5) by (auto simp: locked_inv_def serial_inv_def)
  have "run_body (body (current s t)) (l0, serial_data body l0 d0 (completed s)) = (local_var s t, shared s)"
    using gs leave(2) by simp
  then have "shared s = atomic_effect body l0 (current s t) (serial_data body l0 d0 (completed s))"
    by (simp add: atomic_effect_def)
  then show ?case using none unfolding serial_inv_def by (simp add: serial_data_def)
qed

lemma locked_reach:
  assumes "valid w0" and "\<not> held w0" and "(locked_step A body l0)\<^sup>*\<^sup>* (locked_start w0 d0) s"
  shows "locked_inv body l0 d0 s"
  using assms(3)
proof (induction rule: rtranclp_induct)
  case base
  show ?case using assms(1,2)
    by (simp add: locked_inv_def locked_start_def lock_inv_def serial_inv_def serial_data_def)
next
  case (step s t)
  have "lock_inv (spin t)" using locked_lock_inv [OF step(2)] step(3) by (simp add: locked_inv_def)
  with locked_serial_inv [OF step(2,3)] show ?case by (simp add: locked_inv_def)
qed

lemma serialised:
  assumes "valid w0" and "\<not> held w0" and "(locked_step A body l0)\<^sup>*\<^sup>* (locked_start w0 d0) s"
    and "\<And>t. spcs (spin s) t \<noteq> Critical"
  shows "shared s = serial_data body l0 d0 (completed s)"
  using locked_reach [OF assms(1-3)] assms(4) by (simp add: locked_inv_def serial_inv_def)

text \<open>
  Operations complete: from a quiescent state one thread can run any sequence of operations.
\<close>

definition quiescent :: "('w, 'l, 'd, 'p) locked_sys \<Rightarrow> bool" where
  "quiescent s \<longleftrightarrow> valid (lword (spin s)) \<and> \<not> held (lword (spin s)) \<and> spcs (spin s) = (\<lambda>_. Idle)"

lemma run_accesses:
  assumes "spcs (spin s) t = Critical"
  shows "\<exists>s'. (locked_step A body l0)\<^sup>*\<^sup>* s s' \<and> spin s' = spin s \<and> todo s' t = [] \<and>
    current s' = current s \<and> completed s' = completed s"
  using assms
proof (induction "todo s t" arbitrary: s)
  case Nil
  then show ?case by (intro exI [of _ s]) auto
next
  case (Cons f fs)
  obtain l d where ld: "f (local_var s t, shared s) = (l, d)" by fastforce
  define s1 where "s1 = s\<lparr>todo := (todo s)(t := fs), local_var := (local_var s)(t := l), shared := d\<rparr>"
  have "locked_step A body l0 s s1"
    using locked_step.access [OF Cons.prems Cons.hyps(2) [symmetric] ld] by (simp add: s1_def)
  moreover have "fs = todo s1 t" "spcs (spin s1) t = Critical" "spin s1 = spin s"
    "current s1 = current s" "completed s1 = completed s" using Cons.prems by (simp_all add: s1_def)
  ultimately show ?case using Cons.hyps(1) [of s1] by (metis converse_rtranclp_into_rtranclp)
qed

lemma reach_trying:
  assumes "quiescent s"
  shows "\<exists>s'. (locked_step A body l0)\<^sup>*\<^sup>* s s' \<and> lword (spin s') = lword (spin s) \<and>
    spcs (spin s') = (\<lambda>_. Idle)(0 := Trying) \<and> current s' 0 = p \<and> completed s' = completed s"
proof -
  let ?q = "if waits_first A then Waiting else Trying"
  let ?s1 = "s\<lparr>spin := (spin s)\<lparr>spcs := (spcs (spin s))(0 := ?q)\<rparr>, current := (current s)(0 := p)\<rparr>"
  have idle: "spcs (spin s) 0 = Idle" using assms by (simp add: quiescent_def)
  have 1: "locked_step A body l0 s ?s1"
    by (rule locked_step.call [OF idle spin_step.start [OF idle]]) simp
  show ?thesis
  proof (cases "waits_first A")
    case True
    let ?sp = "(spin ?s1)\<lparr>spcs := (spcs (spin ?s1))(0 := Trying)\<rparr>"
    have "\<not> wait_more A (lword (spin ?s1))" using assms by (simp add: quiescent_def wait_held)
    then have "spin_step A (spin ?s1) ?sp" using True by (intro spin_step.seen_free) simp_all
    then have "locked_step A body l0 ?s1 (?s1\<lparr>spin := ?sp\<rparr>)"
      using True by (intro locked_step.spinning [of _ _ _ 0]) simp_all
    with 1 show ?thesis using assms True
      by (intro exI [of _ "?s1\<lparr>spin := ?sp\<rparr>"]) (simp add: quiescent_def rtranclp.rtrancl_into_rtrancl)
  next
    case False
    with 1 assms show ?thesis by (intro exI [of _ ?s1]) (simp add: quiescent_def)
  qed
qed

lemma solo_operation:
  assumes "quiescent s"
  shows "\<exists>s'. (locked_step A body l0)\<^sup>*\<^sup>* s s' \<and> quiescent s' \<and> completed s' = completed s @ [p]"
proof -
  obtain s1 where s1: "(locked_step A body l0)\<^sup>*\<^sup>* s s1" "lword (spin s1) = lword (spin s)"
    "spcs (spin s1) = (\<lambda>_. Idle)(0 := Trying)" "current s1 0 = p" "completed s1 = completed s"
    using reach_trying [OF assms] by blast
  define w where "w = snd (acquire A (lword (spin s1)))"
  have free: "valid (lword (spin s1))" "\<not> held (lword (spin s1))" using assms s1(2) by (simp_all add: quiescent_def)
  then have w: "valid w" "acquire A (lword (spin s1)) = (False, w)"
    using acquire_held acquire_busy by (auto simp: w_def prod_eq_iff)
  define s2 where "s2 = s1\<lparr>spin := (spin s1)\<lparr>lword := w, spcs := (spcs (spin s1))(0 := Critical)\<rparr>,
    todo := (todo s1)(0 := body (current s1 0)), local_var := (local_var s1)(0 := l0)\<rparr>"
  have 2: "locked_step A body l0 s1 s2" unfolding s2_def
    by (rule locked_step.enter [OF _ spin_step.got [OF _ w(2)]]) (simp_all add: s1(3))
  obtain s3 where s3: "(locked_step A body l0)\<^sup>*\<^sup>* s2 s3" "spin s3 = spin s2" "todo s3 0 = []"
    "current s3 = current s2" "completed s3 = completed s2"
    using run_accesses [of s2 0] by (auto simp: s2_def)
  have crit: "spcs (spin s3) 0 = Critical" by (simp add: s3(2) s2_def)
  define s4 where "s4 = s3\<lparr>spin := (spin s3)\<lparr>lword := release A (lword (spin s3)), spcs := (spcs (spin s3))(0 := Idle)\<rparr>,
    completed := completed s3 @ [current s3 0]\<rparr>"
  have 4: "locked_step A body l0 s3 s4" unfolding s4_def
    by (rule locked_step.leave [OF crit s3(3) spin_step.unlock [OF crit]]) simp
  have "quiescent s4" "completed s4 = completed s @ [p]"
    using release_free [OF w(1)] by (auto simp: quiescent_def s4_def s3 s2_def s1 fun_eq_iff)
  moreover have "(locked_step A body l0)\<^sup>*\<^sup>* s s4" using s1(1) 2 s3(1) 4 by (meson rtranclp.rtrancl_into_rtrancl rtranclp_trans)
  ultimately show ?thesis by blast
qed

lemma solo_run:
  assumes "valid w0" and "\<not> held w0"
  shows "\<exists>s. (locked_step A body l0)\<^sup>*\<^sup>* (locked_start w0 d0) s \<and> quiescent s \<and> completed s = ps"
proof (induction ps rule: rev_induct)
  case Nil
  show ?case using assms by (intro exI [of _ "locked_start w0 d0"]) (simp add: quiescent_def locked_start_def)
next
  case (snoc p ps)
  then show ?case by (meson rtranclp_trans solo_operation)
qed

end

lemma LockType_solo_run:
  assumes "type_function (LockType_init e) = Some (Spin A)"
  shows "\<exists>s. (locked_step A body l0)\<^sup>*\<^sup>* (locked_start (type_mutex (LockType_init e)) d0) s \<and>
    (\<forall>t. spcs (spin s) t \<noteq> Critical) \<and> completed s = ps"
  using spin_lock.solo_run [OF LockType_spin_lock [OF assms], of "type_mutex (LockType_init e)" body l0 d0 ps]
  by (auto simp: LockType_init_def word01_defs spin_lock.quiescent_def [OF LockType_spin_lock [OF assms]])

lemma LockType_serialised:
  assumes "type_function (LockType_init e) = Some (Spin A)"
    and "(locked_step A body l0)\<^sup>*\<^sup>* (locked_start (type_mutex (LockType_init e)) d0) s"
    and "\<And>t. spcs (spin s) t \<noteq> Critical"
  shows "shared s = serial_data body l0 d0 (completed s)"
  using spin_lock.serialised [OF LockType_spin_lock [OF assms(1)] _ _ assms(2,3)]
  by (simp add: LockType_init_def word01_defs)

section \<open>Transactions\<close>

text \<open>
  The retry loop of the RTM functions: \<open>started n\<close> tells whether the \<open>n\<close>-th \<open>_xbegin\<close> starts (and
  commits); the loop gives up after \<open>limit\<close> attempts.
\<close>

fun rtm_loop :: "nat \<Rightarrow> (nat \<Rightarrow> bool) \<Rightarrow> nat \<Rightarrow> nat option" where
  "rtm_loop 0 started n = None"
| "rtm_loop (Suc k) started n = (if started n then Some n else rtm_loop k started (Suc n))"

lemma rtm_loop_None: "rtm_loop k started n = None \<longleftrightarrow> (\<forall>i<k. \<not> started (n + i))"
proof (induction k arbitrary: n)
  case (Suc k)
  then show ?case by (auto simp: less_Suc_eq_0_disj)
qed simp

lemma rtm_loop_Some: "(\<exists>i<k. started (n + i)) \<longleftrightarrow> (\<exists>j. rtm_loop k started n = Some j)"
  using rtm_loop_None [of k started n] by (cases "rtm_loop k started n") auto

end
