(* ===== verification/HleShared.thy ===== *)
theory HleShared
  imports LockedData "HOL-Library.Multiset"
begin

text \<open>
  The shared counters (\<open>hle/shared_counter\<close>) and the bank (\<open>hle/bank\<close>).  An operation reads the
  shared field into a local variable and writes it back in a second access; the thread-safe classes
  run it under their lock (\<open>LockedData\<close>), the RTM counter in a hardware transaction, which takes
  effect at once or not at all.  Balances are integers: the amounts are, and doubles represent
  them exactly.
\<close>

section \<open>Counters\<close>

datatype counter_op = Increment | Get

definition PaddedCounter_init :: u32 where
  "PaddedCounter_init = 0"

definition load_access :: "('d, 'd) access" where
  "load_access = (\<lambda>(l, d). (d, d))"

definition store_access :: "('d \<Rightarrow> 'd) \<Rightarrow> ('d, 'd) access" where
  "store_access f = (\<lambda>(l, d). (l, f l))"

definition PaddedCounter_body :: "counter_op \<Rightarrow> (u32, u32) access list" where
  "PaddedCounter_body p =
     (case p of Increment \<Rightarrow> [load_access, store_access (\<lambda>c. c + 1)] | Get \<Rightarrow> [load_access])"

text \<open>A thread-safe counter under its own lock, in a system of any number of threads.\<close>

definition ThreadsafeCounter_step ::
  "u32 lock_alg \<Rightarrow> (u32, u32, u32, counter_op) locked_sys \<Rightarrow> (u32, u32, u32, counter_op) locked_sys \<Rightarrow> bool" where
  "ThreadsafeCounter_step A = locked_step A PaddedCounter_body 0"

text \<open>Counters under the global lock: an operation names its counter.\<close>

definition GlobalCounter_body :: "nat \<times> counter_op \<Rightarrow> (u32, nat \<Rightarrow> u32) access list" where
  "GlobalCounter_body = (\<lambda>(c, p).
     case p of Increment \<Rightarrow> [\<lambda>(l, d). (d c, d), \<lambda>(l, d). (l, d(c := l + 1))] | Get \<Rightarrow> [\<lambda>(l, d). (d c, d)])"

definition GlobalThreadsafeCounter_step ::
  "u32 lock_alg \<Rightarrow> (u32, u32, nat \<Rightarrow> u32, nat \<times> counter_op) locked_sys \<Rightarrow>
   (u32, u32, nat \<Rightarrow> u32, nat \<times> counter_op) locked_sys \<Rightarrow> bool" where
  "GlobalThreadsafeCounter_step A = locked_step A GlobalCounter_body 0"

definition RTM_MAX_RETRIES :: nat where "RTM_MAX_RETRIES = 1000000"

definition RtmCounter_increment :: "(nat \<Rightarrow> bool) \<Rightarrow> u32 \<Rightarrow> u32" where
  "RtmCounter_increment started c =
     (case rtm_loop (Suc RTM_MAX_RETRIES) started 0 of Some _ \<Rightarrow> c + 1 | None \<Rightarrow> c)"

text \<open>\<open>None\<close>: the function ends without a return value.\<close>

definition RtmCounter_get :: "(nat \<Rightarrow> bool) \<Rightarrow> u32 \<Rightarrow> u32 option" where
  "RtmCounter_get started c = map_option (\<lambda>_. c) (rtm_loop (Suc RTM_MAX_RETRIES) started 0)"

section \<open>The bank\<close>

definition ACCOUNT_COUNT :: nat where "ACCOUNT_COUNT = 10000"
definition ACCOUNT_INITIAL :: int where "ACCOUNT_INITIAL = 1000"
definition MAXIMUM_MONEY :: int where "MAXIMUM_MONEY = 1000"

definition Account_deposit :: "int \<Rightarrow> int \<Rightarrow> int \<times> int" where
  "Account_deposit amount balance = (let balance = balance + amount in (balance, balance))"

definition Account_withdraw :: "int \<Rightarrow> int \<Rightarrow> int \<times> int" where
  "Account_withdraw amount balance = (let balance = balance - amount in (balance, balance))"

definition Account_getBalance :: "int \<Rightarrow> int" where
  "Account_getBalance balance = balance"

datatype account_op = Deposit int | Withdraw int | GetBalance

definition ThreadsafeAccount_body :: "account_op \<Rightarrow> (int, int) access list" where
  "ThreadsafeAccount_body p =
     (case p of
        Deposit m \<Rightarrow> [load_access, store_access (\<lambda>b. snd (Account_deposit m b))]
      | Withdraw m \<Rightarrow> [load_access, store_access (\<lambda>b. snd (Account_withdraw m b))]
      | GetBalance \<Rightarrow> [load_access])"

definition ThreadsafeAccount_step ::
  "u32 lock_alg \<Rightarrow> (u32, int, int, account_op) locked_sys \<Rightarrow> (u32, int, int, account_op) locked_sys \<Rightarrow> bool" where
  "ThreadsafeAccount_step A = locked_step A ThreadsafeAccount_body 0"

text \<open>
  \<open>savedrand\<close>: the next of the saved numbers, whatever the limit; its state is \<open>rands_counter\<close>.
\<close>

definition savedrand :: "int list \<Rightarrow> int \<Rightarrow> nat \<Rightarrow> int \<times> nat" where
  "savedrand saved_rands limit rands_counter =
     (let n = (rands_counter + 1) mod length saved_rands in (saved_rands ! n, n))"

text \<open>
  The operations of one thread in \<open>run_object\<close>: \<open>n\<close> rounds of the loop, with the random generator
  \<open>rgen\<close> and its state.
\<close>

fun run_object ::
  "(int \<Rightarrow> 'g \<Rightarrow> int \<times> 'g) \<Rightarrow> int \<Rightarrow> int \<Rightarrow> int \<Rightarrow> nat \<Rightarrow> 'g \<Rightarrow> (int \<times> account_op) list" where
  "run_object rgen pool_size p_transfer p_read 0 g = []"
| "run_object rgen pool_size p_transfer p_read (Suc n) g =
     (let (rnd_op, g) = rgen (p_transfer + p_read) g
      in if rnd_op < p_transfer then
           (let (a1, g) = rgen pool_size g; (a2, g) = rgen pool_size g; (money, g) = rgen MAXIMUM_MONEY g
            in (a1, Withdraw money) # (a2, Deposit money) # run_object rgen pool_size p_transfer p_read n g)
         else
           (let (a, g) = rgen pool_size g
            in (a, GetBalance) # run_object rgen pool_size p_transfer p_read n g))"

text \<open>
  \<open>checkResult\<close> on the balances: whether the message on a wrong sum is printed.  The running sum is
  an \<open>int\<close>; \<open>None\<close> when a balance added to it does not fit (the conversion is undefined).
\<close>

fun add_balances :: "int \<Rightarrow> int list \<Rightarrow> int option" where
  "add_balances actual [] = Some actual"
| "add_balances actual (b # bs) =
     (let actual = actual + Account_getBalance b
      in if - (2 ^ 31) \<le> actual \<and> actual < 2 ^ 31 then add_balances actual bs else None)"

definition checkResult :: "int list \<Rightarrow> bool option" where
  "checkResult balances =
     map_option (\<lambda>actual. int (length balances) * ACCOUNT_INITIAL \<noteq> actual) (add_balances 0 balances)"

section \<open>Facts\<close>

lemma counter_effect [simp]:
  "atomic_effect PaddedCounter_body l p c = (if p = Increment then c + 1 else c)"
  by (cases p) (simp_all add: atomic_effect_def PaddedCounter_body_def run_body_def load_access_def store_access_def)

lemma counter_serial:
  "serial_data PaddedCounter_body l c ps = c + of_nat (count_list ps Increment)"
  unfolding serial_data_def by (induction ps arbitrary: c) (simp_all add: algebra_simps)

lemma global_effect [simp]:
  "atomic_effect GlobalCounter_body l p d = (if snd p = Increment then d(fst p := d (fst p) + 1) else d)"
  by (cases p; cases "snd p") (simp_all add: atomic_effect_def GlobalCounter_body_def run_body_def)

lemma global_serial:
  "serial_data GlobalCounter_body l d ps c = d c + of_nat (count_list ps (c, Increment))"
  unfolding serial_data_def
proof (induction ps arbitrary: d)
  case (Cons p ps)
  then show ?case by (cases p) (auto simp: algebra_simps)
qed simp

fun op_effect :: "account_op \<Rightarrow> int" where
  "op_effect (Deposit m) = m"
| "op_effect (Withdraw m) = - m"
| "op_effect GetBalance = 0"

lemma account_effect [simp]: "atomic_effect ThreadsafeAccount_body l p b = b + op_effect p"
  by (cases p) (simp_all add: atomic_effect_def ThreadsafeAccount_body_def run_body_def load_access_def
      store_access_def Account_deposit_def Account_withdraw_def Let_def)

lemma account_serial: "serial_data ThreadsafeAccount_body l b ps = b + sum_list (map op_effect ps)"
  unfolding serial_data_def by (induction ps arbitrary: b) simp_all

lemma run_object_neutral: "sum_list (map (op_effect \<circ> snd) (run_object rgen n pt pr k g)) = 0"
  by (induction rgen n pt pr k g rule: run_object.induct) (simp_all split: prod.split)

lemma sum_list_map_concat:
  "sum_list (map f (concat xss)) = (\<Sum>xs\<leftarrow>xss. sum_list (map f xs))" for f :: "'a \<Rightarrow> int"
  by (induction xss) simp_all

lemma add_balances_Some: "add_balances s bs = Some r \<Longrightarrow> r = s + sum_list bs"
  by (induction bs arbitrary: s) (fastforce simp: Account_getBalance_def Let_def split: if_splits)+

lemma sum_list_perm: "mset xs = mset ys \<Longrightarrow> sum_list (map f xs) = sum_list (map f ys)" for f :: "'a \<Rightarrow> int"
  by (metis mset_map sum_mset_sum_list)

section \<open>Properties\<close>

text \<open>
  C19: The thread-safe counters are exact: for every spin lock type and any interleaving of threads,
  whenever no thread is inside, a counter with its own lock holds the number of the completed
  increments, and so does every counter under the global lock (modulo 2 to the 32).
\<close>

theorem counters_exact:
  assumes "type_function (LockType_init e) = Some (Spin A)"
  shows "((ThreadsafeCounter_step A)\<^sup>*\<^sup>* (locked_start (type_mutex (LockType_init e)) PaddedCounter_init) s \<longrightarrow>
      (\<forall>t. spcs (spin s) t \<noteq> Critical) \<longrightarrow> shared s = of_nat (count_list (completed s) Increment)) \<and>
    ((GlobalThreadsafeCounter_step A)\<^sup>*\<^sup>* (locked_start (type_mutex (LockType_init e)) (\<lambda>_. PaddedCounter_init)) g \<longrightarrow>
      (\<forall>t. spcs (spin g) t \<noteq> Critical) \<longrightarrow> shared g c = of_nat (count_list (completed g) (c, Increment)))"
  using LockType_serialised [OF assms, of PaddedCounter_body 0 PaddedCounter_init s]
    LockType_serialised [OF assms, of GlobalCounter_body 0 "\<lambda>_. PaddedCounter_init" g]
  by (simp add: ThreadsafeCounter_step_def GlobalThreadsafeCounter_step_def counter_serial global_serial
      PaddedCounter_init_def)

theorem counters_exact_witness:
  "\<exists>s g. (ThreadsafeCounter_step hle_tas_lock_spec)\<^sup>*\<^sup>* (locked_start 0 0) s \<and>
     completed s = [Increment, Get, Increment] \<and> shared s = 2 \<and>
     (GlobalThreadsafeCounter_step hle_tas_lock_spec)\<^sup>*\<^sup>* (locked_start 0 (\<lambda>_. 0)) g \<and>
     completed g = [(7, Increment), (8, Increment)] \<and> shared g 7 = 1"
proof -
  let ?w = "type_mutex (LockType_init HLE_TAS_SPEC)"
  have f: "type_function (LockType_init HLE_TAS_SPEC) = Some (Spin hle_tas_lock_spec)"
    by (simp add: LockType_init_def)
  obtain s where s: "(ThreadsafeCounter_step hle_tas_lock_spec)\<^sup>*\<^sup>* (locked_start ?w PaddedCounter_init) s"
      "\<forall>t. spcs (spin s) t \<noteq> Critical" "completed s = [Increment, Get, Increment]"
    using LockType_solo_run [OF f, of PaddedCounter_body 0 PaddedCounter_init] unfolding ThreadsafeCounter_step_def by blast
  obtain g where g: "(GlobalThreadsafeCounter_step hle_tas_lock_spec)\<^sup>*\<^sup>* (locked_start ?w (\<lambda>_. PaddedCounter_init)) g"
      "\<forall>t. spcs (spin g) t \<noteq> Critical" "completed g = [(7, Increment), (8, Increment)]"
    using LockType_solo_run [OF f, of GlobalCounter_body 0 "\<lambda>_. PaddedCounter_init"]
    unfolding GlobalThreadsafeCounter_step_def by blast
  have "shared s = 2 \<and> shared g 7 = 1" using counters_exact [OF f, of s g 7] s g by simp
  with s g show ?thesis
    by (intro exI [of _ s] exI [of _ g]) (simp add: LockType_init_def PaddedCounter_init_def)
qed

text \<open>
  The RTM counter increments if one of the first \<open>RTM_MAX_RETRIES + 1\<close> transactions commits;
  otherwise the increment is lost (only a message is printed), and \<open>get\<close> has no value to return.
\<close>

theorem rtm_counter_loses:
  "RtmCounter_increment started c =
     (if \<exists>n\<le>RTM_MAX_RETRIES. started n then c + 1 else c) \<and>
   (RtmCounter_get started c = None \<longleftrightarrow> (\<forall>n\<le>RTM_MAX_RETRIES. \<not> started n))"
  unfolding RtmCounter_increment_def RtmCounter_get_def
  using rtm_loop_None [of "Suc RTM_MAX_RETRIES" started 0]
  by (auto simp: less_Suc_eq_le simp del: rtm_loop.simps split: option.split)

theorem rtm_counter_loses_witness:
  "RtmCounter_increment (\<lambda>n. n = 5) 41 = 42 \<and> RtmCounter_increment (\<lambda>n. False) 41 = 41"
  using rtm_counter_loses [of "\<lambda>n. n = 5" 41] rtm_counter_loses [of "\<lambda>n. False" 41]
  by (simp add: RTM_MAX_RETRIES_def)

text \<open>
  C20: Money is conserved.  Every account of the pool is guarded by its own spin lock of any type;
  when the completed operations on the accounts are together the operations of complete rounds of
  \<open>run_object\<close> by any number of threads, in any interleaving, and no thread is inside a lock,
  \<open>checkResult\<close> never reports a wrong sum: it finds the initial one whenever the running sums
  fit an \<open>int\<close>.
\<close>

theorem bank_money_conserved:
  fixes pool :: "nat \<Rightarrow> (u32, int, int, account_op) locked_sys"
  assumes "type_function (LockType_init e) = Some (Spin A)"
    and "\<And>a. (ThreadsafeAccount_step A)\<^sup>*\<^sup>* (locked_start (type_mutex (LockType_init e)) ACCOUNT_INITIAL) (pool a)"
    and "\<And>a t. spcs (spin (pool a)) t \<noteq> Critical"
    and "mset (concat (map (\<lambda>a. map (Pair (int a)) (completed (pool a))) [0..<n])) =
         mset (concat (map (\<lambda>(k, g). run_object rgen (int n) pt pr k g) workers))"
  shows "checkResult (map (\<lambda>a. shared (pool a)) [0..<n]) =
    (if add_balances 0 (map (\<lambda>a. shared (pool a)) [0..<n]) = None then None else Some False)"
proof -
  have bal: "shared (pool a) = ACCOUNT_INITIAL + sum_list (map op_effect (completed (pool a)))" for a
    using LockType_serialised [OF assms(1) assms(2) [unfolded ThreadsafeAccount_step_def] assms(3)]
    by (simp add: account_serial)
  let ?done = "concat (map (\<lambda>a. map (Pair (int a)) (completed (pool a))) [0..<n])"
  let ?run = "concat (map (\<lambda>(k, g). run_object rgen (int n) pt pr k g) workers)"
  have "(\<Sum>a\<leftarrow>[0..<n]. sum_list (map op_effect (completed (pool a)))) = sum_list (map (op_effect \<circ> snd) ?done)"
    unfolding sum_list_map_concat by (simp add: comp_def)
  also have "\<dots> = sum_list (map (op_effect \<circ> snd) ?run)"
    by (rule sum_list_perm [OF assms(4)])
  also have "\<dots> = 0"
    unfolding sum_list_map_concat by (simp add: comp_def case_prod_beta run_object_neutral [unfolded comp_def])
  finally have "sum_list (map (\<lambda>a. shared (pool a)) [0..<n]) = int n * ACCOUNT_INITIAL"
    by (simp add: bal sum_list_addf sum_list_triv)
  then show ?thesis
    using add_balances_Some [of 0 "map (\<lambda>a. shared (pool a)) [0..<n]"]
    by (cases "add_balances 0 (map (\<lambda>a. shared (pool a)) [0..<n])") (auto simp: checkResult_def)
qed

text \<open>Two accounts, and one thread that draws 0 (a transfer), 1, 0 and the amount 30.\<close>

theorem bank_money_conserved_witness:
  "\<exists>(p0 :: (u32, int, int, account_op) locked_sys) (p1 :: (u32, int, int, account_op) locked_sys).
     completed p0 = [Deposit 30] \<and> shared p0 = 1030 \<and> completed p1 = [Withdraw 30] \<and> shared p1 = 970 \<and>
     checkResult [shared p0, shared p1] = Some False"
proof -
  let ?w = "type_mutex (LockType_init HLE_TAS_SPEC)"
  let ?R = "\<lambda>s. (ThreadsafeAccount_step hle_tas_lock_spec)\<^sup>*\<^sup>* (locked_start ?w ACCOUNT_INITIAL) s \<and>
    (\<forall>t. spcs (spin s) t \<noteq> Critical)"
  have f: "type_function (LockType_init HLE_TAS_SPEC) = Some (Spin hle_tas_lock_spec)"
    by (simp add: LockType_init_def)
  have run: "\<exists>s. ?R s \<and> completed s = ps" for ps
    using LockType_solo_run [OF f, of ThreadsafeAccount_body 0 ACCOUNT_INITIAL] unfolding ThreadsafeAccount_step_def by blast
  have final: "shared s = 1000 + sum_list (map op_effect (completed s))" if "?R s" for s
    using LockType_serialised [OF f, of ThreadsafeAccount_body 0 ACCOUNT_INITIAL s] that
    by (simp add: account_serial ThreadsafeAccount_step_def ACCOUNT_INITIAL_def)
  obtain p0 p1 where p: "?R p0" "?R p1" "completed p0 = [Deposit 30]" "completed p1 = [Withdraw 30]"
    using run by metis
  let ?pool = "\<lambda>a::nat. if a = 0 then p0 else p1"
  let ?rgen = "savedrand [30, 0, 1, 0]"
  have ms: "mset (concat (map (\<lambda>a. map (Pair (int a)) (completed (?pool a))) [0..<2])) =
      mset (concat (map (\<lambda>(k, g). run_object ?rgen (int 2) 1 3 k g) [(1, 0)]))"
    by (simp add: p(3,4) savedrand_def numeral_2_eq_2)
  have "add_balances 0 [1030, 970] = Some 2000" by (simp add: Account_getBalance_def)
  moreover have sh: "shared p0 = 1030" "shared p1 = 970" using final [OF p(1)] final [OF p(2)] p(3,4) by simp_all
  ultimately have "checkResult [shared p0, shared p1] = Some False"
    using bank_money_conserved [OF f, of ?pool 2 ?rgen 1 3 "[(1, 0)]"] p(1,2) ms by (simp add: numeral_2_eq_2)
  with p(3,4) sh show ?thesis by (intro exI [of _ p0] exI [of _ p1]) simp
qed

end
