(* ===== verification/HleHeap.thy ===== *)
theory HleHeap
  imports LockedData
begin

text \<open>
  The C++ heap of the data structure benchmarks (\<open>hle/hashmap\<close>, \<open>hle/list\<close>): a partial map from
  addresses to objects, with \<open>new\<close>, \<open>delete\<close>, reads and writes that fail on what is not
  allocated, the chains of objects linked through a pointer field, and the transactions of the RTM
  variants.
\<close>

section \<open>Objects\<close>

type_synonym addr = nat
type_synonym 'a heap = "addr \<rightharpoonup> 'a"

abbreviation NULL :: addr where "NULL \<equiv> 0"

datatype fault =
    NullAccess                \<comment> \<open>\<open>p->field\<close> with \<open>p == NULL\<close>\<close>
  | BadAccess addr            \<comment> \<open>read or write of an object that is not allocated\<close>
  | BadDelete addr
  | DivisionByZero
  | OutOfBounds int
  | Exit int                  \<comment> \<open>\<open>exit(status)\<close>\<close>
  | OutOfFuel                 \<comment> \<open>a loop of the model did not end within its fuel\<close>

definition obj :: "'a heap \<Rightarrow> addr \<Rightarrow> fault + 'a" where
  "obj hp p = (if p = NULL then Inl NullAccess
     else case hp p of None \<Rightarrow> Inl (BadAccess p) | Some x \<Rightarrow> Inr x)"

definition heap_write :: "addr \<Rightarrow> ('a \<Rightarrow> 'a) \<Rightarrow> 'a heap \<Rightarrow> fault + 'a heap" where
  "heap_write p f hp = bind_res (obj hp p) (\<lambda>x. Inr (hp(p \<mapsto> f x)))"

text \<open>\<open>delete p\<close> of a null pointer does nothing.\<close>

definition delete :: "addr \<Rightarrow> 'a heap \<Rightarrow> fault + 'a heap" where
  "delete p hp =
     (if p = NULL then Inr hp else if hp p = None then Inl (BadDelete p) else Inr (hp(p := None)))"

text \<open>An address \<open>new\<close> may return: the choice is a parameter of the operations that allocate.\<close>

definition fresh :: "'a heap \<Rightarrow> addr \<Rightarrow> bool" where
  "fresh hp p \<longleftrightarrow> p \<noteq> NULL \<and> hp p = None"

lemma obj_Some [simp]: "p \<noteq> NULL \<Longrightarrow> hp p = Some x \<Longrightarrow> obj hp p = Inr x"
  by (simp add: obj_def)

lemma obj_NULL [simp]: "obj hp NULL = Inl NullAccess"
  by (simp add: obj_def)

lemma heap_write_Some [simp]: "p \<noteq> NULL \<Longrightarrow> hp p = Some x \<Longrightarrow> heap_write p f hp = Inr (hp(p \<mapsto> f x))"
  by (simp add: heap_write_def)

lemma delete_Some [simp]: "p \<noteq> NULL \<Longrightarrow> hp p = Some x \<Longrightarrow> delete p hp = Inr (hp(p := None))"
  by (simp add: delete_def)

text \<open>What \<open>new\<close> promises, and an allocator that keeps the promise: the address after the largest in use.\<close>

locale heap_allocator =
  fixes alloc :: "'a heap \<Rightarrow> addr"
  assumes alloc_fresh: "finite (dom hp) \<Longrightarrow> fresh hp (alloc hp)"

definition bump_alloc :: "'a heap \<Rightarrow> addr" where
  "bump_alloc hp = Suc (Max (insert NULL (dom hp)))"

lemma bump_alloc_fresh:
  fixes hp :: "'a heap"
  assumes fin: "finite (dom hp)"
  shows "fresh hp (bump_alloc hp)"
proof -
  have "bump_alloc hp \<notin> dom hp"
  proof
    assume "bump_alloc hp \<in> dom hp"
    then have "bump_alloc hp \<le> Max (insert NULL (dom hp))" using fin by simp
    then show False by (simp add: bump_alloc_def)
  qed
  then show ?thesis by (auto simp: fresh_def bump_alloc_def)
qed

section \<open>Chains\<close>

text \<open>
  The objects at the addresses \<open>as\<close> are linked from \<open>p\<close> to \<open>q\<close> through the pointer field \<open>nx\<close>.
\<close>

fun seg :: "('a \<Rightarrow> addr) \<Rightarrow> 'a heap \<Rightarrow> addr \<Rightarrow> addr list \<Rightarrow> addr \<Rightarrow> bool" where
  "seg nx hp p [] q \<longleftrightarrow> p = q"
| "seg nx hp p (a # as) q \<longleftrightarrow>
     p = a \<and> a \<noteq> NULL \<and> (case hp a of None \<Rightarrow> False | Some x \<Rightarrow> seg nx hp (nx x) as q)"

lemma seg_append: "seg nx hp p (xs @ ys) q \<longleftrightarrow> (\<exists>r. seg nx hp p xs r \<and> seg nx hp r ys q)"
  by (induction xs arbitrary: p) (auto split: option.splits)

lemma seg_cong: "(\<And>a. a \<in> set as \<Longrightarrow> hp' a = hp a) \<Longrightarrow> seg nx hp' p as q \<longleftrightarrow> seg nx hp p as q"
  by (induction as arbitrary: p) (simp_all split: option.split)

lemma seg_upd_other [simp]: "b \<notin> set as \<Longrightarrow> seg nx (hp(b := y)) p as q \<longleftrightarrow> seg nx hp p as q"
  by (rule seg_cong) auto

lemma seg_alloc: "seg nx hp p as q \<Longrightarrow> a \<in> set as \<Longrightarrow> a \<noteq> NULL \<and> hp a \<noteq> None"
  by (induction as arbitrary: p) (auto split: option.splits)

lemma seg_dom: "seg nx hp p as q \<Longrightarrow> set as \<subseteq> dom hp"
  using seg_alloc by fastforce

lemma seg_NULL: "seg nx hp NULL as q \<longleftrightarrow> as = [] \<and> q = NULL"
  by (cases as) auto

lemma seg_snoc:
  "seg nx hp p (xs @ [a]) q \<longleftrightarrow> seg nx hp p xs a \<and> a \<noteq> NULL \<and> (\<exists>x. hp a = Some x \<and> nx x = q)"
  by (auto simp: seg_append split: option.splits)

lemma seg_relink:
  assumes "seg nx hp p (xs @ [a]) q" and "a \<notin> set xs" and "nx x = r"
  shows "seg nx (hp(a \<mapsto> x)) p (xs @ [a]) r"
  using assms by (auto simp: seg_snoc)

lemma seg_last: "seg nx hp p (xs @ [a]) q \<Longrightarrow> a \<noteq> NULL \<and> (\<exists>x. hp a = Some x \<and> nx x = q)"
  by (simp add: seg_snoc)

lemma length_le_card_dom:
  assumes "finite (dom hp)" and "set as \<subseteq> dom hp" and "distinct as"
  shows "length as \<le> card (dom hp)"
  using assms card_mono [of "dom hp" "set as"] by (simp add: distinct_card)

section \<open>Transactions\<close>

text \<open>
  A transaction that commits runs the body at once; one that aborts leaves no trace.  \<open>started\<close>
  tells which of the calls of \<open>_xbegin\<close> start (and commit); after \<open>retries\<close> of them the process
  exits.
\<close>

definition transaction :: "nat \<Rightarrow> (nat \<Rightarrow> bool) \<Rightarrow> (fault + 'a) \<Rightarrow> fault + 'a" where
  "transaction retries started body =
     (case rtm_loop retries started 0 of None \<Rightarrow> Inl (Exit 1) | Some _ \<Rightarrow> body)"

definition committed_within :: "nat \<Rightarrow> (nat \<Rightarrow> bool) \<Rightarrow> bool" where
  "committed_within retries started \<longleftrightarrow> (\<exists>j<retries. started j)"

lemma transaction_eq:
  "transaction retries started body = (if committed_within retries started then body else Inl (Exit 1))"
  using rtm_loop_None [of retries started 0] rtm_loop_Some [of retries started 0]
  by (auto simp: transaction_def committed_within_def split: option.split)

end
