(* ===== verification/HleBench.thy ===== *)
theory HleBench
  imports HleHeap
begin

text \<open>
  The clients of the data structures: the loops of \<open>hle/hashmap/time_cmp.cpp\<close> (\<open>run\<close>) and
  \<open>hle/list/TimeCmp.cpp\<close> (\<open>TimeCmp::run\<close>, \<open>run_infinite\<close>), which draw operations at random and
  remember the values they inserted in a queue, and what they rely on: the locale \<open>set_impl\<close> states
  what an implementation of a set of integers promises, and shows that a sequence of operations
  has the answers of the set.
\<close>

section \<open>The benchmark loop\<close>

datatype set_op = Insert int | Remove int | Contains int

fun op_value :: "set_op \<Rightarrow> int" where
  "op_value (Insert v) = v"
| "op_value (Remove v) = v"
| "op_value (Contains v) = v"

text \<open>
  One round: the two numbers drawn, the queue before, and the operation with the queue after.
\<close>

definition run_round :: "int \<Rightarrow> int \<Rightarrow> int \<times> int \<Rightarrow> int list \<Rightarrow> set_op \<times> int list" where
  "run_round probability_insert probability_remove = (\<lambda>(rnd_op, rnd_val) queue.
     if rnd_op < probability_insert then (Insert rnd_val, queue @ [rnd_val])
     else if rnd_op < probability_insert + probability_remove \<and> queue \<noteq> [] then
       (Remove (hd queue), tl queue)
     else (Contains rnd_val, queue))"

text \<open>The rounds of one thread, one for every pair of numbers drawn.\<close>

fun run :: "int \<Rightarrow> int \<Rightarrow> (int \<times> int) list \<Rightarrow> int list \<Rightarrow> set_op list \<times> int list" where
  "run pi pr [] queue = ([], queue)"
| "run pi pr (d # ds) queue =
     (let (p, queue) = run_round pi pr d queue; (ps, queue) = run pi pr ds queue in (p # ps, queue))"

section \<open>Sequences of operations on an implementation\<close>

fun apply_ops ::
  "(int \<Rightarrow> 's \<Rightarrow> fault + ('r \<times> 's)) \<Rightarrow> (int \<Rightarrow> 's \<Rightarrow> fault + (int \<times> 's)) \<Rightarrow> (int \<Rightarrow> 's \<Rightarrow> fault + (int \<times> 's)) \<Rightarrow>
   set_op list \<Rightarrow> 's \<Rightarrow> fault + (int list \<times> 's)" where
  "apply_ops ins rem con [] s = Inr ([], s)"
| "apply_ops ins rem con (Insert v # ps) s =
     bind_res (ins v s) (\<lambda>(_, s). apply_ops ins rem con ps s)"
| "apply_ops ins rem con (Remove v # ps) s =
     bind_res (rem v s) (\<lambda>(r, s). bind_res (apply_ops ins rem con ps s) (\<lambda>(rs, s). Inr (r # rs, s)))"
| "apply_ops ins rem con (Contains v # ps) s =
     bind_res (con v s) (\<lambda>(r, s). bind_res (apply_ops ins rem con ps s) (\<lambda>(rs, s). Inr (r # rs, s)))"

text \<open>The reference: a set.\<close>

fun set_after :: "set_op list \<Rightarrow> int set \<Rightarrow> int set" where
  "set_after [] X = X"
| "set_after (Insert v # ps) X = set_after ps (insert v X)"
| "set_after (Remove v # ps) X = set_after ps (X - {v})"
| "set_after (Contains v # ps) X = set_after ps X"

fun set_answers :: "set_op list \<Rightarrow> int set \<Rightarrow> int list" where
  "set_answers [] X = []"
| "set_answers (Insert v # ps) X = set_answers ps (insert v X)"
| "set_answers (Remove v # ps) X = (if v \<in> X then 1 else 0) # set_answers ps (X - {v})"
| "set_answers (Contains v # ps) X = (if v \<in> X then 1 else 0) # set_answers ps X"

locale set_impl =
  fixes inv :: "'s \<Rightarrow> bool" and abs :: "'s \<Rightarrow> int set" and ok :: "int \<Rightarrow> bool"
    and ins :: "int \<Rightarrow> 's \<Rightarrow> fault + ('r \<times> 's)"
    and rem :: "int \<Rightarrow> 's \<Rightarrow> fault + (int \<times> 's)"
    and con :: "int \<Rightarrow> 's \<Rightarrow> fault + (int \<times> 's)"
  assumes ins_law: "inv s \<Longrightarrow> ok v \<Longrightarrow> \<exists>r s'. ins v s = Inr (r, s') \<and> inv s' \<and> abs s' = insert v (abs s)"
    and rem_law: "inv s \<Longrightarrow> ok v \<Longrightarrow>
      \<exists>s'. rem v s = Inr (if v \<in> abs s then 1 else 0, s') \<and> inv s' \<and> abs s' = abs s - {v}"
    and con_law: "inv s \<Longrightarrow> ok v \<Longrightarrow>
      \<exists>s'. con v s = Inr (if v \<in> abs s then 1 else 0, s') \<and> inv s' \<and> abs s' = abs s"
begin

lemma apply_ops_set:
  assumes "inv s" and "\<And>p. p \<in> set ps \<Longrightarrow> ok (op_value p)"
  shows "\<exists>s'. apply_ops ins rem con ps s = Inr (set_answers ps (abs s), s') \<and> inv s' \<and> abs s' = set_after ps (abs s)"
  using assms
proof (induction ps arbitrary: s)
  case (Cons p ps)
  have ok: "ok (op_value p)" and oks: "\<And>p. p \<in> set ps \<Longrightarrow> ok (op_value p)" using Cons.prems(2) by simp_all
  show ?case
  proof (cases p)
    case (Insert v)
    with ok ins_law [OF Cons.prems(1), of v] obtain r s1 where "ins v s = Inr (r, s1)" "inv s1" "abs s1 = insert v (abs s)" by auto
    with Insert Cons.IH [of s1] oks show ?thesis by fastforce
  next
    case (Remove v)
    with ok rem_law [OF Cons.prems(1), of v] obtain s1 where "rem v s = Inr (if v \<in> abs s then 1 else 0, s1)" "inv s1" "abs s1 = abs s - {v}"
      by auto
    with Remove Cons.IH [of s1] oks show ?thesis by fastforce
  next
    case (Contains v)
    with ok con_law [OF Cons.prems(1), of v] obtain s1 where "con v s = Inr (if v \<in> abs s then 1 else 0, s1)" "inv s1" "abs s1 = abs s"
      by auto
    with Contains Cons.IH [of s1] oks show ?thesis by fastforce
  qed
qed auto

end

section \<open>What the loop does\<close>

text \<open>The values of the operations were drawn or are from the queue.\<close>

lemma run_values:
  assumes "\<And>d. d \<in> set ds \<Longrightarrow> Q (snd d)" and "\<And>v. v \<in> set queue \<Longrightarrow> Q v"
  shows "p \<in> set (fst (run pi pr ds queue)) \<Longrightarrow> Q (op_value p)"
  using assms
proof (induction ds arbitrary: queue)
  case (Cons d ds)
  obtain p1 queue1 where r: "run_round pi pr d queue = (p1, queue1)" by fastforce
  then have "Q (op_value p1)" "\<And>v. v \<in> set queue1 \<Longrightarrow> Q v"
    using Cons.prems(2) [of d] Cons.prems(3)
    by (auto simp: run_round_def split: prod.splits if_splits dest: list.set_sel(2))
  note head = this
  show ?case
  proof (cases "p = p1")
    case False
    then have "p \<in> set (fst (run pi pr ds queue1))" using Cons.prems(1) r by (simp add: case_prod_beta)
    then show ?thesis using Cons.IH Cons.prems(2) head(2) by (metis list.set_intros(2))
  qed (simp add: head(1))
qed simp

end
