(* ===== verification/HleHashMap.thy ===== *)
theory HleHashMap
  imports HleBench CLib LockedData "HOL-Library.Signed_Division"
begin

text \<open>
  The hash map of \<open>hle/hashmap\<close>: an array of locked buckets, each the head of a chain of items, in
  three variants: one lock per bucket (\<open>HashMap.cpp\<close>), one global lock (\<open>HashMap-global.cpp\<close>), and
  hardware transactions (\<open>HashMap-rtm.cpp\<close>).  The loops over a chain take fuel; more than the
  number of allocated items is enough.  The state records the lock and unlock calls, so that the
  lock discipline of every path is visible.
\<close>

section \<open>State\<close>

record LinkedListItem =
  successor :: addr
  data :: int

definition LinkedListItem_init :: "int \<Rightarrow> addr \<Rightarrow> LinkedListItem" where
  "LinkedListItem_init d s = \<lparr>successor = s, data = d\<rparr>"

record LockedBucket =
  item :: addr
  locker :: LockType

datatype lock_event = Lock int | Unlock int | LockGlobal | UnlockGlobal

record HashMap =
  hm_size :: int
  hm_map :: "LockedBucket list"
  items :: "LinkedListItem heap"
  events :: "lock_event list"

definition LockedBucket_init :: "addr \<Rightarrow> LockType \<Rightarrow> LockedBucket" where
  "LockedBucket_init i l = \<lparr>item = i, locker = l\<rparr>"

text \<open>The constructor: no bucket is allocated for a size that is not positive.\<close>

definition HashMap_init :: "int \<Rightarrow> LockType \<Rightarrow> HashMap" where
  "HashMap_init sz l =
     \<lparr>hm_size = sz, hm_map = replicate (nat sz) (LockedBucket_init NULL l), items = Map.empty, events = []\<rparr>"

text \<open>\<open>value % size\<close>, whose sign is that of the value.\<close>

definition hash :: "HashMap \<Rightarrow> int \<Rightarrow> fault + int" where
  "hash m v = (if hm_size m = 0 then Inl DivisionByZero else Inr (v smod hm_size m))"

text \<open>\<open>map[h]\<close>\<close>

definition bucket :: "HashMap \<Rightarrow> int \<Rightarrow> fault + LockedBucket" where
  "bucket m h = (if 0 \<le> h \<and> h < int (length (hm_map m)) then Inr (hm_map m ! nat h) else Inl (OutOfBounds h))"

definition set_item :: "int \<Rightarrow> addr \<Rightarrow> HashMap \<Rightarrow> fault + HashMap" where
  "set_item h p m =
     bind_res (bucket m h) (\<lambda>b. Inr (m\<lparr>hm_map := (hm_map m)[nat h := b\<lparr>item := p\<rparr>]\<rparr>))"

definition lock :: "int \<Rightarrow> HashMap \<Rightarrow> fault + HashMap" where
  "lock h m = bind_res (bucket m h) (\<lambda>b. Inr (m\<lparr>events := events m @ [Lock h]\<rparr>))"

definition unlock :: "int \<Rightarrow> HashMap \<Rightarrow> fault + HashMap" where
  "unlock h m = bind_res (bucket m h) (\<lambda>b. Inr (m\<lparr>events := events m @ [Unlock h]\<rparr>))"

definition lock_global :: "HashMap \<Rightarrow> HashMap" where
  "lock_global m = m\<lparr>events := events m @ [LockGlobal]\<rparr>"

definition unlock_global :: "HashMap \<Rightarrow> HashMap" where
  "unlock_global m = m\<lparr>events := events m @ [UnlockGlobal]\<rparr>"

definition new_item :: "addr \<Rightarrow> int \<Rightarrow> HashMap \<Rightarrow> HashMap" where
  "new_item a v m = m\<lparr>items := (items m)(a \<mapsto> LinkedListItem_init v NULL)\<rparr>"

definition delete_item :: "addr \<Rightarrow> HashMap \<Rightarrow> fault + HashMap" where
  "delete_item p m = bind_res (delete p (items m)) (\<lambda>hp. Inr (m\<lparr>items := hp\<rparr>))"

definition set_successor :: "addr \<Rightarrow> addr \<Rightarrow> HashMap \<Rightarrow> fault + HashMap" where
  "set_successor p q m =
     bind_res (heap_write p (\<lambda>i. i\<lparr>successor := q\<rparr>) (items m)) (\<lambda>hp. Inr (m\<lparr>items := hp\<rparr>))"

text \<open>The pointer to an item is in the item before it or, for the first one, in the bucket.\<close>

definition link_from :: "int \<Rightarrow> addr \<Rightarrow> addr \<Rightarrow> HashMap \<Rightarrow> fault + HashMap" where
  "link_from h prev_item p m = (if prev_item \<noteq> NULL then set_successor prev_item p m else set_item h p m)"

section \<open>One lock per bucket\<close>

text \<open>
  The loop that \<open>insert\<close>, \<open>remove\<close> and \<open>contains\<close> share: from \<open>item\<close> to the first item with the
  value, keeping the item before it.
\<close>

fun search :: "nat \<Rightarrow> LinkedListItem heap \<Rightarrow> int \<Rightarrow> addr \<Rightarrow> addr \<Rightarrow> fault + (addr \<times> addr)" where
  "search 0 hp v prev_item item_ptr = Inl OutOfFuel"
| "search (Suc n) hp v prev_item item_ptr =
     (if item_ptr = NULL then Inr (prev_item, NULL)
      else bind_res (obj hp item_ptr) (\<lambda>i.
        if data i = v then Inr (prev_item, item_ptr) else search n hp v item_ptr (successor i)))"

definition HashMap_insert :: "nat \<Rightarrow> addr \<Rightarrow> int \<Rightarrow> HashMap \<Rightarrow> fault + (addr \<times> HashMap)" where
  "HashMap_insert n insert_item v m =
     bind_res (hash m v) (\<lambda>h.
     bind_res (lock h (new_item insert_item v m)) (\<lambda>m.
     bind_res (bucket m h) (\<lambda>b.
     bind_res (search n (items m) v NULL (item b)) (\<lambda>(prev_item, item_ptr).
       if item_ptr \<noteq> NULL then
         bind_res (unlock h m) (\<lambda>m.
         bind_res (delete_item insert_item m) (\<lambda>m. Inr (item_ptr, m)))
       else
         bind_res (link_from h prev_item insert_item m) (\<lambda>m.
         bind_res (unlock h m) (\<lambda>m. Inr (insert_item, m)))))))"

definition HashMap_remove :: "nat \<Rightarrow> int \<Rightarrow> HashMap \<Rightarrow> fault + (int \<times> HashMap)" where
  "HashMap_remove n v m =
     bind_res (hash m v) (\<lambda>h.
     bind_res (lock h m) (\<lambda>m.
     bind_res (bucket m h) (\<lambda>b.
     bind_res (search n (items m) v NULL (item b)) (\<lambda>(prev_item, p).
       if p \<noteq> NULL then
         bind_res (obj (items m) p) (\<lambda>i.
         bind_res (link_from h prev_item (successor i) m) (\<lambda>m.
         bind_res (unlock h m) (\<lambda>m.
         bind_res (delete_item p m) (\<lambda>m. Inr (1, m)))))
       else bind_res (unlock h m) (\<lambda>m. Inr (0, m))))))"

definition HashMap_contains :: "nat \<Rightarrow> int \<Rightarrow> HashMap \<Rightarrow> fault + (int \<times> HashMap)" where
  "HashMap_contains n v m =
     bind_res (hash m v) (\<lambda>h.
     bind_res (lock h m) (\<lambda>m.
     bind_res (bucket m h) (\<lambda>b.
     bind_res (search n (items m) v NULL (item b)) (\<lambda>(prev_item, item_ptr).
     bind_res (unlock h m) (\<lambda>m. Inr (if item_ptr \<noteq> NULL then 1 else 0, m))))))"

fun chain_count :: "nat \<Rightarrow> LinkedListItem heap \<Rightarrow> addr \<Rightarrow> int \<Rightarrow> fault + int" where
  "chain_count 0 hp p count = Inl OutOfFuel"
| "chain_count (Suc n) hp p count =
     (if p = NULL then Inr count
      else bind_res (obj hp p) (\<lambda>i. chain_count n hp (successor i) (count + 1)))"

fun buckets_count :: "nat \<Rightarrow> HashMap \<Rightarrow> int list \<Rightarrow> int \<Rightarrow> fault + int" where
  "buckets_count n m [] count = Inr count"
| "buckets_count n m (h # hs) count =
     bind_res (bucket m h) (\<lambda>b. bind_res (chain_count n (items m) (item b) count) (buckets_count n m hs))"

definition countElements :: "nat \<Rightarrow> HashMap \<Rightarrow> fault + int" where
  "countElements n m = buckets_count n m [0..hm_size m - 1] 0"

text \<open>The destructors: the items of every bucket, then the buckets.\<close>

fun delete_chain :: "nat \<Rightarrow> LinkedListItem heap \<Rightarrow> addr \<Rightarrow> fault + LinkedListItem heap" where
  "delete_chain 0 hp p = Inl OutOfFuel"
| "delete_chain (Suc n) hp p =
     (if p = NULL then Inr hp
      else bind_res (obj hp p) (\<lambda>i. bind_res (delete p hp) (\<lambda>hp. delete_chain n hp (successor i))))"

fun delete_buckets :: "nat \<Rightarrow> HashMap \<Rightarrow> int list \<Rightarrow> LinkedListItem heap \<Rightarrow> fault + LinkedListItem heap" where
  "delete_buckets n m [] hp = Inr hp"
| "delete_buckets n m (h # hs) hp =
     bind_res (bucket m h) (\<lambda>b. bind_res (delete_chain n hp (item b)) (delete_buckets n m hs))"

definition HashMap_delete :: "nat \<Rightarrow> HashMap \<Rightarrow> fault + HashMap" where
  "HashMap_delete n m =
     bind_res (delete_buckets n m [0..hm_size m - 1] (items m)) (\<lambda>hp. Inr (m\<lparr>hm_map := [], items := hp\<rparr>))"

fun printLinkedList :: "nat \<Rightarrow> LinkedListItem heap \<Rightarrow> addr \<Rightarrow> int \<Rightarrow> fault + (string \<times> int)" where
  "printLinkedList 0 hp p sz = Inl OutOfFuel"
| "printLinkedList (Suc n) hp p sz =
     bind_res (obj hp p) (\<lambda>i.
       if successor i \<noteq> NULL then
         bind_res (printLinkedList n hp (successor i) (sz + 1)) (\<lambda>(out, k).
           Inr (show_int (data i) @ '' -> '' @ out, k))
       else Inr (show_int (data i) @ ''\<newline>'', sz + 1))"

fun print_buckets :: "nat \<Rightarrow> int list \<Rightarrow> HashMap \<Rightarrow> int \<Rightarrow> fault + (string \<times> int \<times> HashMap)" where
  "print_buckets n [] m elements = Inr ([], elements, m)"
| "print_buckets n (h # hs) m elements =
     bind_res (lock h m) (\<lambda>m.
     bind_res (bucket m h) (\<lambda>b.
     bind_res (if item b \<noteq> NULL then printLinkedList n (items m) (item b) 0 else Inr (''\<newline>'', 0)) (\<lambda>(out, k).
     bind_res (unlock h m) (\<lambda>m.
     bind_res (print_buckets n hs m (elements + k)) (\<lambda>(rest, elements, m).
       Inr (''['' @ show_int h @ ''] => '' @ out @ rest, elements, m))))))"

definition HashMap_print :: "nat \<Rightarrow> HashMap \<Rightarrow> fault + (string \<times> HashMap)" where
  "HashMap_print n m =
     bind_res (print_buckets n [0..hm_size m - 1] m 0) (\<lambda>(out, elements, m).
       Inr (''Map size: '' @ show_int (hm_size m) @ ''\<newline>'' @ out @
            ''Elements: '' @ show_int elements @ ''\<newline>'', m))"

section \<open>One global lock\<close>

definition HashMapGlobal_insert :: "nat \<Rightarrow> addr \<Rightarrow> int \<Rightarrow> HashMap \<Rightarrow> fault + (addr \<times> HashMap)" where
  "HashMapGlobal_insert n insert_item v m =
     bind_res (hash m v) (\<lambda>h.
     let m = lock_global m in
     bind_res (bucket m h) (\<lambda>b.
     bind_res (search n (items m) v NULL (item b)) (\<lambda>(prev_item, item_ptr).
       if item_ptr \<noteq> NULL then Inr (item_ptr, unlock_global m)
       else
         let m = new_item insert_item v m in
         bind_res (link_from h prev_item insert_item m) (\<lambda>m. Inr (insert_item, unlock_global m)))))"

definition HashMapGlobal_remove :: "nat \<Rightarrow> int \<Rightarrow> HashMap \<Rightarrow> fault + (int \<times> HashMap)" where
  "HashMapGlobal_remove n v m =
     bind_res (hash m v) (\<lambda>h.
     let m = lock_global m in
     bind_res (bucket m h) (\<lambda>b.
     bind_res (search n (items m) v NULL (item b)) (\<lambda>(prev_item, p).
       if p \<noteq> NULL then
         bind_res (obj (items m) p) (\<lambda>i.
         bind_res (link_from h prev_item (successor i) m) (\<lambda>m.
         bind_res (delete_item p m) (\<lambda>m. Inr (1, unlock_global m))))
       else Inr (0, unlock_global m))))"

definition HashMapGlobal_contains :: "nat \<Rightarrow> int \<Rightarrow> HashMap \<Rightarrow> fault + (int \<times> HashMap)" where
  "HashMapGlobal_contains n v m =
     bind_res (hash m v) (\<lambda>h.
     let m = lock_global m in
     bind_res (bucket m h) (\<lambda>b.
     bind_res (search n (items m) v NULL (item b)) (\<lambda>(prev_item, item_ptr).
       Inr (if item_ptr \<noteq> NULL then 1 else 0, unlock_global m))))"

section \<open>Transactions\<close>

definition MAX_RETRIES :: nat where "MAX_RETRIES = 1000000"

definition HashMapRtm_init :: "int \<Rightarrow> HashMap" where
  "HashMapRtm_init sz = HashMap_init sz (LockType_init NONE)"

definition HashMapRtm_insert :: "(nat \<Rightarrow> bool) \<Rightarrow> nat \<Rightarrow> addr \<Rightarrow> int \<Rightarrow> HashMap \<Rightarrow> fault + (addr \<times> HashMap)" where
  "HashMapRtm_insert started n insert_item v m =
     bind_res (hash m v) (\<lambda>h.
     let m = new_item insert_item v m in
     transaction MAX_RETRIES started (
     bind_res (bucket m h) (\<lambda>b.
     bind_res (search n (items m) v NULL (item b)) (\<lambda>(prev_item, item_ptr).
       if item_ptr \<noteq> NULL then
         bind_res (delete_item insert_item m) (\<lambda>m. Inr (item_ptr, m))
       else
         bind_res (link_from h prev_item insert_item m) (\<lambda>m. Inr (insert_item, m))))))"

definition HashMapRtm_remove :: "(nat \<Rightarrow> bool) \<Rightarrow> nat \<Rightarrow> int \<Rightarrow> HashMap \<Rightarrow> fault + (int \<times> HashMap)" where
  "HashMapRtm_remove started n v m =
     bind_res (hash m v) (\<lambda>h.
     transaction MAX_RETRIES started (
     bind_res (bucket m h) (\<lambda>b.
     bind_res (search n (items m) v NULL (item b)) (\<lambda>(prev_item, p).
       if p \<noteq> NULL then
         bind_res (obj (items m) p) (\<lambda>i.
         bind_res (link_from h prev_item (successor i) m) (\<lambda>m.
         bind_res (delete_item p m) (\<lambda>m. Inr (1, m))))
       else Inr (0, m)))))"

definition HashMapRtm_contains :: "(nat \<Rightarrow> bool) \<Rightarrow> nat \<Rightarrow> int \<Rightarrow> HashMap \<Rightarrow> fault + (int \<times> HashMap)" where
  "HashMapRtm_contains started n v m =
     bind_res (hash m v) (\<lambda>h.
     transaction MAX_RETRIES started (
     bind_res (bucket m h) (\<lambda>b.
     bind_res (search n (items m) v NULL (item b)) (\<lambda>(prev_item, item_ptr).
       Inr (if item_ptr \<noteq> NULL then 1 else 0, m)))))"

section \<open>Representation\<close>

text \<open>
  The addresses in the chain of every bucket.  A chain holds each value once, and only values whose
  hash is the bucket's index; the allocated items are those of the chains.
\<close>

abbreviation value_of :: "LinkedListItem heap \<Rightarrow> addr \<Rightarrow> int" where
  "value_of hp a \<equiv> data (the (hp a))"

definition hm_rep :: "HashMap \<Rightarrow> (nat \<Rightarrow> addr list) \<Rightarrow> bool" where
  "hm_rep m css \<longleftrightarrow>
     0 < hm_size m \<and> length (hm_map m) = nat (hm_size m) \<and>
     (\<forall>i<length (hm_map m).
        seg successor (items m) (item (hm_map m ! i)) (css i) NULL \<and>
        distinct (List.map (value_of (items m)) (css i)) \<and>
        (\<forall>a\<in>set (css i). value_of (items m) a smod hm_size m = int i)) \<and>
     dom (items m) = (\<Union>i<length (hm_map m). set (css i))"

definition hm_wf :: "HashMap \<Rightarrow> bool" where
  "hm_wf m \<longleftrightarrow> (\<exists>css. hm_rep m css)"

text \<open>The abstract value of a map: the set of its values.\<close>

definition hm_set :: "HashMap \<Rightarrow> int set" where
  "hm_set m = value_of (items m) ` dom (items m)"

text \<open>The values with a valid hash: the others index the array out of its bounds.\<close>

definition hashable :: "HashMap \<Rightarrow> int \<Rightarrow> bool" where
  "hashable m v \<longleftrightarrow> 0 \<le> v smod hm_size m"

lemma hm_rep_events [simp]:
  "hm_rep (m\<lparr>events := e\<rparr>) css \<longleftrightarrow> hm_rep m css" "hm_wf (m\<lparr>events := e\<rparr>) \<longleftrightarrow> hm_wf m"
  "hm_set (m\<lparr>events := e\<rparr>) = hm_set m" "hashable (m\<lparr>events := e\<rparr>) = hashable m"
  by (simp_all add: hm_rep_def hm_wf_def hm_set_def hashable_def fun_eq_iff)

lemma hm_repD:
  assumes "hm_rep m css" and "i < length (hm_map m)"
  shows "seg successor (items m) (item (hm_map m ! i)) (css i) NULL"
    and "distinct (List.map (value_of (items m)) (css i))"
    and "distinct (css i)"
    and "a \<in> set (css i) \<Longrightarrow> value_of (items m) a smod hm_size m = int i"
    and "set (css i) \<subseteq> dom (items m)"
  using assms by (auto simp: hm_rep_def distinct_map)

lemma hm_rep_dom: "hm_rep m css \<Longrightarrow> dom (items m) = (\<Union>i<length (hm_map m). set (css i))"
  by (simp add: hm_rep_def)

lemma hm_rep_finite: "hm_rep m css \<Longrightarrow> finite (dom (items m))"
  by (auto simp: hm_rep_def)

lemma hm_rep_length: "hm_rep m css \<Longrightarrow> i < length (hm_map m) \<Longrightarrow> length (css i) \<le> card (dom (items m))"
  using length_le_card_dom hm_rep_finite hm_repD(3,5) by metis

lemma hm_rep_disjoint:
  assumes "hm_rep m css" and "i < length (hm_map m)" and "j < length (hm_map m)" and "a \<in> set (css i)" and "i \<noteq> j"
  shows "a \<notin> set (css j)"
  using hm_repD(4) [OF assms(1,2,4)] hm_repD(4) [OF assms(1,3), of a] assms(5) by auto

lemma hm_rep_inj:
  assumes "hm_rep m css"
  shows "inj_on (value_of (items m)) (dom (items m))"
proof (rule inj_onI)
  fix a b
  assume "a \<in> dom (items m)" and "b \<in> dom (items m)" and eq: "value_of (items m) a = value_of (items m) b"
  then obtain i j where ij: "i < length (hm_map m)" "a \<in> set (css i)" "j < length (hm_map m)" "b \<in> set (css j)"
    unfolding hm_rep_dom [OF assms] by blast
  then have "j = i" using hm_repD(4) [OF assms ij(1,2)] hm_repD(4) [OF assms ij(3,4)] eq by simp
  then show "a = b" using hm_repD(2) [OF assms ij(1)] ij(2,4) eq by (auto simp: distinct_map dest: inj_onD)
qed

lemma card_items: "hm_rep m css \<Longrightarrow> card (dom (items m)) = card (hm_set m)"
  unfolding hm_set_def by (simp add: card_image hm_rep_inj)

lemma hm_set_bucket:
  assumes "hm_rep m css" and "v smod hm_size m = int i" and "i < length (hm_map m)"
  shows "v \<in> hm_set m \<longleftrightarrow> v \<in> value_of (items m) ` set (css i)"
proof
  assume "v \<in> hm_set m"
  then obtain a j where a: "j < length (hm_map m)" "a \<in> set (css j)" "v = value_of (items m) a"
    using assms(1) by (auto simp: hm_set_def hm_rep_def)
  with hm_repD(4) [OF assms(1) a(1,2)] assms(2) show "v \<in> value_of (items m) ` set (css i)" by auto
next
  assume "v \<in> value_of (items m) ` set (css i)"
  with hm_repD(5) [OF assms(1,3)] show "v \<in> hm_set m" by (auto simp: hm_set_def)
qed

lemma hash_hashable:
  assumes "hm_rep m css" and "hashable m v"
  obtains i where "hash m v = Inr (int i)" "i < length (hm_map m)" "v smod hm_size m = int i"
proof
  have pos: "0 < hm_size m" "length (hm_map m) = nat (hm_size m)" using assms(1) by (auto simp: hm_rep_def)
  let ?i = "nat (v smod hm_size m)"
  show "v smod hm_size m = int ?i" using assms(2) by (simp add: hashable_def)
  then show "hash m v = Inr (int ?i)" using pos by (simp add: hash_def)
  show "?i < length (hm_map m)" using smod_int_range [of "hm_size m" v] pos assms(2) by (auto simp: hashable_def)
qed

section \<open>The loop\<close>

lemma search_absent:
  assumes "seg successor hp p as NULL" and "v \<notin> value_of hp ` set as" and "length as < n"
  shows "search n hp v q p = Inr (last (q # as), NULL)"
  using assms
proof (induction as arbitrary: n p q)
  case Nil
  then show ?case by (cases n) auto
next
  case (Cons a as)
  then show ?case by (cases n) (auto split: option.splits)
qed

lemma search_present:
  assumes "seg successor hp p (xs @ a # ys) NULL" and "v \<notin> value_of hp ` set xs" and "value_of hp a = v"
    and "length xs < n"
  shows "search n hp v q p = Inr (last (q # xs), a)"
  using assms
proof (induction xs arbitrary: n p q)
  case Nil
  then show ?case by (cases n) (auto split: option.splits)
next
  case (Cons x xs)
  then show ?case by (cases n) (auto split: option.splits)
qed

lemma rep_search_absent:
  assumes "hm_rep m css" and "v smod hm_size m = int i" and "i < length (hm_map m)" and "v \<notin> hm_set m"
    and "card (dom (items m)) < n" and "\<And>a. a \<in> set (css i) \<Longrightarrow> hp a = items m a"
  shows "search n hp v NULL (item (hm_map m ! i)) = Inr (last (NULL # css i), NULL)"
proof (rule search_absent)
  show "seg successor hp (item (hm_map m ! i)) (css i) NULL"
    using hm_repD(1) [OF assms(1,3)] seg_cong [where hp' = hp and hp = "items m", OF assms(6)] by simp
  show "v \<notin> value_of hp ` set (css i)"
    using hm_set_bucket [OF assms(1-3)] assms(4,6) by auto
  show "length (css i) < n" using hm_rep_length [OF assms(1,3)] assms(5) by simp
qed

lemma rep_search_present:
  assumes "hm_rep m css" and "v smod hm_size m = int i" and "i < length (hm_map m)" and "v \<in> hm_set m"
    and "card (dom (items m)) < n" and "\<And>a. a \<in> set (css i) \<Longrightarrow> hp a = items m a"
  obtains xs p ys where "css i = xs @ p # ys" and "value_of (items m) p = v" and "p \<noteq> NULL" and "items m p \<noteq> None"
    and "search n hp v NULL (item (hm_map m ! i)) = Inr (last (NULL # xs), p)"
proof -
  obtain p where "p \<in> set (css i)" and v: "value_of (items m) p = v"
    using hm_set_bucket [OF assms(1-3)] assms(4) by auto
  then obtain xs ys where "css i = xs @ p # ys" by (meson split_list)
  note s = this v
  have segm: "seg successor (items m) (item (hm_map m ! i)) (css i) NULL" by (rule hm_repD(1) [OF assms(1,3)])
  have "v \<notin> value_of hp ` set xs" using hm_repD(2) [OF assms(1,3)] s assms(6) by auto
  moreover have "value_of hp p = v" using s assms(6) by simp
  moreover have "length xs < n" using hm_rep_length [OF assms(1,3)] assms(5) s(1) by simp
  moreover have "seg successor hp (item (hm_map m ! i)) (css i) NULL" using segm seg_cong [where hp' = hp and hp = "items m", OF assms(6)] by simp
  ultimately have "search n hp v NULL (item (hm_map m ! i)) = Inr (last (NULL # xs), p)"
    using search_present [of hp _ xs p ys v n NULL] s(1) by simp
  with that s segm show thesis using seg_alloc [OF segm, of p] by simp
qed

section \<open>Linking and unlinking\<close>

lemma link_from_simps:
  "link_from h NULL p m = set_item h p m" "q \<noteq> NULL \<Longrightarrow> link_from h q p m = set_successor q p m"
  by (simp_all add: link_from_def)

lemma bucket_nat [simp]: "i < length (hm_map m) \<Longrightarrow> bucket m (int i) = Inr (hm_map m ! i)"
  by (simp add: bucket_def)

lemma lock_nat [simp]:
  "i < length (hm_map m) \<Longrightarrow> lock (int i) m = Inr (m\<lparr>events := events m @ [Lock (int i)]\<rparr>)"
  "i < length (hm_map m) \<Longrightarrow> unlock (int i) m = Inr (m\<lparr>events := events m @ [Unlock (int i)]\<rparr>)"
  by (simp_all add: lock_def unlock_def)

lemma link_events:
  "link_from h q p (m\<lparr>events := e\<rparr>) = map_sum id (\<lambda>m. m\<lparr>events := e\<rparr>) (link_from h q p m)"
  by (auto simp: link_from_def set_successor_def set_item_def bind_res_def bucket_def split: sum.split)

text \<open>
  What the operations rely on: linking \<open>p\<close> behind the prefix \<open>xs\<close> of a chain changes the pointer
  there, and nothing else.
\<close>

lemma link_from_prefix:
  assumes "seg successor (items m) (item (hm_map m ! i)) xs q" and "i < length (hm_map m)" and "distinct xs"
  obtains m' where "link_from (int i) (last (NULL # xs)) p m = Inr m'"
    and "seg successor (items m') (item (hm_map m' ! i)) xs p"
    and "hm_size m' = hm_size m" and "length (hm_map m') = length (hm_map m)" and "events m' = events m"
    and "\<And>j. j \<noteq> i \<Longrightarrow> hm_map m' ! j = hm_map m ! j"
    and "\<And>a. a \<notin> set xs \<Longrightarrow> items m' a = items m a"
    and "\<And>a. map_option data (items m' a) = map_option data (items m a)"
proof (cases xs rule: rev_cases)
  case Nil
  with assms(2) that show thesis
    by (auto simp: link_from_simps set_item_def)
next
  case (snoc zs z)
  with assms(1) obtain x where x: "z \<noteq> NULL" "items m z = Some x" "successor x = q" by (auto dest: seg_last)
  let ?m = "m\<lparr>items := (items m)(z \<mapsto> x\<lparr>successor := p\<rparr>)\<rparr>"
  have "seg successor (items ?m) (item (hm_map ?m ! i)) xs p"
    using seg_relink [of successor "items m" _ zs z q "x\<lparr>successor := p\<rparr>" p] assms(1,3) snoc by simp
  then show thesis using that [of ?m] x snoc by (simp add: link_from_simps set_successor_def)
qed

lemma value_of_cong:
  "map_option data (hp' a) = map_option data (hp a) \<Longrightarrow> hp a \<noteq> None \<Longrightarrow> value_of hp' a = value_of hp a"
  by (cases "hp a"; cases "hp' a") auto

lemma dom_cong_data:
  assumes "\<And>a. map_option data (hp' a) = map_option data (hp a)"
  shows "dom hp' = dom hp"
proof -
  have "hp' a = None \<longleftrightarrow> hp a = None" for a using assms [of a] by (cases "hp a"; cases "hp' a") auto
  then show ?thesis by (auto simp: dom_def)
qed

lemma hm_rep_new:
  assumes "hm_rep m css" and "fresh (items m) a" and "i < length (hm_map m)"
  shows "a \<notin> set (css i)"
  using hm_repD(5) [OF assms(1,3)] assms(2) by (auto simp: fresh_def)

lemma hm_rep_update:
  assumes "hm_rep m css" and "i < length (hm_map m)"
    and "hm_size m' = hm_size m" and "length (hm_map m') = length (hm_map m)"
    and "\<And>j. j \<noteq> i \<Longrightarrow> hm_map m' ! j = hm_map m ! j"
    and "seg successor (items m') (item (hm_map m' ! i)) as NULL"
    and "distinct (List.map (value_of (items m')) as)"
    and "\<And>a. a \<in> set as \<Longrightarrow> value_of (items m') a smod hm_size m = int i"
    and "\<And>a. a \<notin> set (css i) \<Longrightarrow> items m a \<noteq> None \<Longrightarrow> items m' a = items m a"
    and "dom (items m') = dom (items m) - set (css i) \<union> set as"
  shows "hm_rep m' (css(i := as))"
proof -
  have same: "items m' a = items m a" if "a \<in> set (css j)" "j < length (hm_map m)" "j \<noteq> i" for a j
    using assms(9) [of a] hm_rep_disjoint [OF assms(1) that(2) assms(2) that(1,3)] hm_repD(5) [OF assms(1) that(2)] that(1)
    by auto
  have other: "seg successor (items m') (item (hm_map m' ! j)) (css j) NULL \<and>
      distinct (List.map (value_of (items m')) (css j)) \<and>
      (\<forall>a\<in>set (css j). value_of (items m') a smod hm_size m' = int j)" if j: "j < length (hm_map m)" "j \<noteq> i" for j
  proof (intro conjI ballI)
    show "seg successor (items m') (item (hm_map m' ! j)) (css j) NULL"
      using hm_repD(1) [OF assms(1) j(1)] seg_cong [OF same [OF _ j]] assms(5) [OF j(2)] by simp
    have "List.map (value_of (items m')) (css j) = List.map (value_of (items m)) (css j)"
      using same [OF _ j] by simp
    then show "distinct (List.map (value_of (items m')) (css j))" using hm_repD(2) [OF assms(1) j(1)] by (simp only:)
    show "value_of (items m') a smod hm_size m' = int j" if "a \<in> set (css j)" for a
      using hm_repD(4) [OF assms(1) j(1) that] same [OF that j] assms(3) by simp
  qed
  have "dom (items m') = (\<Union>j<length (hm_map m). set ((css(i := as)) j))"
  proof -
    have "dom (items m) = (\<Union>j<length (hm_map m). set (css j))" using assms(1) by (simp add: hm_rep_def)
    then have "dom (items m) - set (css i) = (\<Union>j\<in>{..<length (hm_map m)} - {i}. set (css j))"
      using hm_rep_disjoint [OF assms(1) _ assms(2)] by blast
    moreover have "(\<Union>j<length (hm_map m). set ((css(i := as)) j)) =
        (\<Union>j\<in>{..<length (hm_map m)} - {i}. set (css j)) \<union> set as" using assms(2) by (auto split: if_splits)
    ultimately show ?thesis using assms(10) by simp
  qed
  then show ?thesis using other assms(1,3,4,6-8) by (auto simp: hm_rep_def)
qed

lemma rep_append:
  assumes "hm_rep m css" and "v smod hm_size m = int i" and "i < length (hm_map m)" and "v \<notin> hm_set m"
    and "fresh (items m) a"
  obtains m' where "link_from (int i) (last (NULL # css i)) a (new_item a v m) = Inr m'"
    and "hm_rep m' (css(i := css i @ [a]))" and "hm_set m' = insert v (hm_set m)"
    and "dom (items m') = insert a (dom (items m))" and "items m' a = Some (LinkedListItem_init v NULL)"
    and "length (hm_map m') = length (hm_map m)" and "hm_size m' = hm_size m" and "events m' = events m"
proof -
  let ?m = "new_item a v m"
  have new: "a \<notin> set (css i)" "a \<noteq> NULL" "items m a = None"
    using hm_rep_new [OF assms(1,5,3)] assms(5) by (auto simp: fresh_def)
  have "seg successor (items ?m) (item (hm_map ?m ! i)) (css i) NULL"
    using hm_repD(1) [OF assms(1,3)] new(1) by (simp add: new_item_def)
  from link_from_prefix [OF this _ hm_repD(3) [OF assms(1,3)], of a] assms(3)
  obtain m' where m': "link_from (int i) (last (NULL # css i)) a ?m = Inr m'"
    "seg successor (items m') (item (hm_map m' ! i)) (css i) a"
    "hm_size m' = hm_size ?m" "length (hm_map m') = length (hm_map ?m)" "events m' = events ?m"
    "\<And>j. j \<noteq> i \<Longrightarrow> hm_map m' ! j = hm_map ?m ! j" "\<And>b. b \<notin> set (css i) \<Longrightarrow> items m' b = items ?m b"
    "\<And>b. map_option data (items m' b) = map_option data (items ?m b)"
    by (auto simp: new_item_def)
  have at: "items m' a = Some (LinkedListItem_init v NULL)" using m'(7) [OF new(1)] by (simp add: new_item_def)
  have dom: "dom (items m') = insert a (dom (items m))" using dom_cong_data [where hp' = "items m'" and hp = "items ?m", OF m'(8)] by (simp add: new_item_def)
  have val: "value_of (items m') b = value_of (items m) b" if "b \<in> dom (items m)" for b
    using value_of_cong [of "items m'" b "items ?m", OF m'(8)] new(3) that by (auto simp: new_item_def split: if_splits)
  have vals: "List.map (value_of (items m')) (css i) = List.map (value_of (items m)) (css i)"
    by (intro map_cong refl val) (use hm_repD(5) [OF assms(1,3)] in blast)
  have v: "value_of (items m') a = v" by (simp add: at LinkedListItem_init_def)
  have "hm_rep m' (css(i := css i @ [a]))"
  proof (rule hm_rep_update [OF assms(1,3)])
    show "seg successor (items m') (item (hm_map m' ! i)) (css i @ [a]) NULL"
      using m'(2) at new(2) by (simp add: seg_snoc LinkedListItem_init_def)
    show "distinct (List.map (value_of (items m')) (css i @ [a]))"
      unfolding map_append vals using v hm_repD(2) [OF assms(1,3)] hm_set_bucket [OF assms(1-3)] assms(4) by simp
    show "value_of (items m') b smod hm_size m = int i" if "b \<in> set (css i @ [a])" for b
      using that v val [OF subsetD [OF hm_repD(5) [OF assms(1,3)]], of b] hm_repD(4) [OF assms(1,3), of b] assms(2)
      by auto
    show "dom (items m') = dom (items m) - set (css i) \<union> set (css i @ [a])"
      using dom hm_repD(5) [OF assms(1,3)] by auto
  qed (use m' new(3) in \<open>auto simp: new_item_def\<close>)
  moreover have "hm_set m' = insert v (hm_set m)"
    using val v new(3) by (auto simp: hm_set_def dom image_iff)
  ultimately show thesis using that [OF m'(1)] dom at m'(3-5) by (simp add: new_item_def)
qed

lemma rep_unlink:
  assumes "hm_rep m css" and "v smod hm_size m = int i" and "i < length (hm_map m)"
    and "css i = xs @ p # ys" and "value_of (items m) p = v" and "items m p = Some x"
  obtains m' where "link_from (int i) (last (NULL # xs)) (successor x) m = Inr m'"
    and "items m' p = Some x" and "length (hm_map m') = length (hm_map m)" and "hm_size m' = hm_size m"
    and "events m' = events m" and "dom (items m') = dom (items m)"
    and "hm_rep (m'\<lparr>items := (items m')(p := None)\<rparr>) (css(i := xs @ ys))"
    and "hm_set (m'\<lparr>items := (items m')(p := None)\<rparr>) = hm_set m - {v}"
proof -
  have dist: "distinct (css i)" and segm: "seg successor (items m) (item (hm_map m ! i)) (xs @ p # ys) NULL"
    using hm_repD(1,3) [OF assms(1,3)] assms(4) by auto
  then have p: "p \<notin> set xs" "p \<notin> set ys" "distinct xs" "set xs \<inter> set ys = {}" using assms(4) by auto
  have pre: "seg successor (items m) (item (hm_map m ! i)) xs p"
    and post: "seg successor (items m) (successor x) ys NULL"
    using segm assms(6) by (auto simp: seg_append)
  from link_from_prefix [OF pre assms(3) p(3), of "successor x"]
  obtain m' where m': "link_from (int i) (last (NULL # xs)) (successor x) m = Inr m'"
    "seg successor (items m') (item (hm_map m' ! i)) xs (successor x)"
    "hm_size m' = hm_size m" "length (hm_map m') = length (hm_map m)" "events m' = events m"
    "\<And>j. j \<noteq> i \<Longrightarrow> hm_map m' ! j = hm_map m ! j" "\<And>b. b \<notin> set xs \<Longrightarrow> items m' b = items m b"
    "\<And>b. map_option data (items m' b) = map_option data (items m b)"
    by blast
  let ?m = "m'\<lparr>items := (items m')(p := None)\<rparr>"
  have dom: "dom (items m') = dom (items m)"
    by (rule dom_cong_data [where hp' = "items m'" and hp = "items m", OF m'(8)])
  have val: "value_of (items ?m) b = value_of (items m) b" if "b \<in> dom (items m)" "b \<noteq> p" for b
    using value_of_cong [of "items m'" b "items m", OF m'(8)] that by auto
  have in_dom: "set (xs @ ys) \<subseteq> dom (items m)" and sub: "p \<notin> set (xs @ ys)"
    using hm_repD(5) [OF assms(1,3)] assms(4) p by auto
  have vals: "List.map (value_of (items ?m)) (xs @ ys) = List.map (value_of (items m)) (xs @ ys)"
    by (intro map_cong refl val) (use in_dom sub in blast)+
  have "hm_rep ?m (css(i := xs @ ys))"
  proof (rule hm_rep_update [OF assms(1,3)])
    have "seg successor (items m') (successor x) ys NULL"
      using post p(4) m'(7) by (subst seg_cong) auto
    then show "seg successor (items ?m) (item (hm_map ?m ! i)) (xs @ ys) NULL"
      using m'(2) p by (auto simp: seg_append)
    show "distinct (List.map (value_of (items ?m)) (xs @ ys))"
      unfolding vals using hm_repD(2) [OF assms(1,3)] assms(4) by auto
    show "value_of (items ?m) b smod hm_size m = int i" if "b \<in> set (xs @ ys)" for b
      using that val [OF subsetD [OF in_dom that]] hm_repD(4) [OF assms(1,3), of b] assms(4) sub by auto
    show "dom (items ?m) = dom (items m) - set (css i) \<union> set (xs @ ys)"
      using dom hm_repD(5) [OF assms(1,3)] assms(4) sub by auto
    show "items ?m b = items m b" if "b \<notin> set (css i)" for b
      using that m'(7) [of b] assms(4) by auto
  qed (use m' in auto)
  moreover have "hm_set ?m = hm_set m - {v}"
  proof -
    have "p \<in> dom (items m)" using assms(6) by auto
    then have "b = p" if "b \<in> dom (items m)" "value_of (items m) b = v" for b
      using hm_rep_inj [OF assms(1)] that assms(5) by (auto dest: inj_onD)
    then show ?thesis using val dom assms(5) by (auto simp: hm_set_def image_iff)
  qed
  ultimately show thesis using that [OF m'(1)] m'(3-5) m'(7) [OF p(1)] dom assms(6) by auto
qed

section \<open>The operations of the three variants\<close>

definition committed :: "(nat \<Rightarrow> bool) \<Rightarrow> bool" where
  "committed started \<longleftrightarrow> committed_within MAX_RETRIES started"

lemmas map_ops = lock_global_def unlock_global_def new_item_def delete_item_def
lemmas insert_defs = HashMap_insert_def HashMapGlobal_insert_def HashMapRtm_insert_def
lemmas remove_defs = HashMap_remove_def HashMapGlobal_remove_def HashMapRtm_remove_def
lemmas contains_defs = HashMap_contains_def HashMapGlobal_contains_def HashMapRtm_contains_def

definition bucket_events :: "HashMap \<Rightarrow> int \<Rightarrow> lock_event list" where
  "bucket_events m v = [Lock (v smod hm_size m), Unlock (v smod hm_size m)]"

lemma insert_present:
  assumes "hm_rep m css" and "hashable m v" and "v \<in> hm_set m" and "fresh (items m) a" and "card (dom (items m)) < n"
  obtains p where "items m p \<noteq> None" and "value_of (items m) p = v"
    and "HashMap_insert n a v m = Inr (p, m\<lparr>events := events m @ bucket_events m v\<rparr>)"
    and "HashMapGlobal_insert n a v m = Inr (p, m\<lparr>events := events m @ [LockGlobal, UnlockGlobal]\<rparr>)"
    and "committed started \<Longrightarrow> HashMapRtm_insert started n a v m = Inr (p, m)"
proof -
  obtain i where i: "hash m v = Inr (int i)" "i < length (hm_map m)" "v smod hm_size m = int i"
    by (rule hash_hashable [OF assms(1,2)])
  have new: "a \<notin> set (css i)" "a \<noteq> NULL" "items m a = None"
    using hm_rep_new [OF assms(1,4) i(2)] assms(4) by (auto simp: fresh_def)
  note search = rep_search_present [OF assms(1) i(3,2) assms(3,5)]
  obtain xs p ys where p: "css i = xs @ p # ys" "value_of (items m) p = v" "p \<noteq> NULL" "items m p \<noteq> None"
    "search n (items m) v NULL (item (hm_map m ! i)) = Inr (last (NULL # xs), p)"
    using search [of "items m"] by blast
  obtain xs' p' ys' where p': "css i = xs' @ p' # ys'" "value_of (items m) p' = v"
    "search n ((items m)(a \<mapsto> LinkedListItem_init v NULL)) v NULL (item (hm_map m ! i)) = Inr (last (NULL # xs'), p')"
    by (rule search [of "(items m)(a \<mapsto> LinkedListItem_init v NULL)"]) (use new(1) in auto)
  have "p \<in> set (css i)" "p' \<in> set (css i)" using p(1) p'(1) by (metis in_set_conv_decomp)+
  then have "p' = p" using hm_repD(5) [OF assms(1) i(2)] hm_rep_inj [OF assms(1)] p(2) p'(2) by (auto dest: inj_onD)
  have restore: "(items m)(a := None) = items m" using new(3) by (simp add: fun_upd_idem)
  show thesis
    by (rule that [OF p(4,2)])
      (use i new p(3,5) p'(3) restore in \<open>simp_all add: insert_defs map_ops transaction_eq committed_def [symmetric] \<open>p' = p\<close> bucket_events_def\<close>)
qed

lemma insert_absent:
  assumes "hm_rep m css" and "hashable m v" and "v \<notin> hm_set m" and "fresh (items m) a" and "card (dom (items m)) < n"
  obtains m' css' where "hm_rep m' css'" and "hm_set m' = insert v (hm_set m)" and "hm_size m' = hm_size m"
    and "items m' a = Some (LinkedListItem_init v NULL)" and "events m' = events m"
    and "dom (items m') = insert a (dom (items m))"
    and "HashMap_insert n a v m = Inr (a, m'\<lparr>events := events m @ bucket_events m v\<rparr>)"
    and "HashMapGlobal_insert n a v m = Inr (a, m'\<lparr>events := events m @ [LockGlobal, UnlockGlobal]\<rparr>)"
    and "committed started \<Longrightarrow> HashMapRtm_insert started n a v m = Inr (a, m')"
proof -
  obtain i where i: "hash m v = Inr (int i)" "i < length (hm_map m)" "v smod hm_size m = int i"
    by (rule hash_hashable [OF assms(1,2)])
  note search = rep_search_absent [OF assms(1) i(3,2) assms(3,5)]
  have s1: "search n (items m) v NULL (item (hm_map m ! i)) = Inr (last (NULL # css i), NULL)" by (rule search) simp
  have s2: "search n ((items m)(a \<mapsto> LinkedListItem_init v NULL)) v NULL (item (hm_map m ! i)) = Inr (last (NULL # css i), NULL)"
    using hm_rep_new [OF assms(1,4) i(2)] by (intro search) auto
  obtain m' where m': "link_from (int i) (last (NULL # css i)) a (new_item a v m) = Inr m'"
    "hm_rep m' (css(i := css i @ [a]))" "hm_set m' = insert v (hm_set m)"
    "dom (items m') = insert a (dom (items m))" "items m' a = Some (LinkedListItem_init v NULL)"
    "length (hm_map m') = length (hm_map m)" "hm_size m' = hm_size m" "events m' = events m"
    by (rule rep_append [OF assms(1) i(3,2) assms(3,4)])
  have new_events: "new_item a v (m\<lparr>events := e\<rparr>) = (new_item a v m)\<lparr>events := e\<rparr>" for e by (simp add: new_item_def)
  have fields: "hm_map (new_item a v m) = hm_map m" "items (new_item a v m) = (items m)(a \<mapsto> LinkedListItem_init v NULL)"
    "events (new_item a v m) = events m" by (simp_all add: new_item_def)
  show thesis
    by (rule that [OF m'(2,3,7,5,8,4)])
      (use i s1 s2 m' in \<open>simp_all add: insert_defs lock_global_def unlock_global_def transaction_eq committed_def [symmetric] bucket_events_def
         fields link_events new_events\<close>)
qed

lemma remove_present:
  assumes "hm_rep m css" and "hashable m v" and "v \<in> hm_set m" and "card (dom (items m)) < n"
  obtains m' css' where "hm_rep m' css'" and "hm_set m' = hm_set m - {v}" and "hm_size m' = hm_size m"
    and "events m' = events m"
    and "HashMap_remove n v m = Inr (1, m'\<lparr>events := events m @ bucket_events m v\<rparr>)"
    and "HashMapGlobal_remove n v m = Inr (1, m'\<lparr>events := events m @ [LockGlobal, UnlockGlobal]\<rparr>)"
    and "committed started \<Longrightarrow> HashMapRtm_remove started n v m = Inr (1, m')"
proof -
  obtain i where i: "hash m v = Inr (int i)" "i < length (hm_map m)" "v smod hm_size m = int i"
    by (rule hash_hashable [OF assms(1,2)])
  obtain xs p ys where p: "css i = xs @ p # ys" "value_of (items m) p = v" "p \<noteq> NULL" "items m p \<noteq> None"
    "search n (items m) v NULL (item (hm_map m ! i)) = Inr (last (NULL # xs), p)"
    by (rule rep_search_present [OF assms(1) i(3,2) assms(3,4) refl])
  then obtain x where x: "items m p = Some x" by blast
  obtain m' where m': "link_from (int i) (last (NULL # xs)) (successor x) m = Inr m'"
    "items m' p = Some x" "length (hm_map m') = length (hm_map m)" "hm_size m' = hm_size m" "events m' = events m"
    "hm_rep (m'\<lparr>items := (items m')(p := None)\<rparr>) (css(i := xs @ ys))"
    "hm_set (m'\<lparr>items := (items m')(p := None)\<rparr>) = hm_set m - {v}"
    by (rule rep_unlink [OF assms(1) i(3,2) p(1,2) x])
  show thesis
    by (rule that [OF m'(6,7)])
      (use i p(3,5) x m' in \<open>simp_all add: remove_defs map_ops transaction_eq committed_def [symmetric] bucket_events_def link_events\<close>)
qed

lemma remove_absent:
  assumes "hm_rep m css" and "hashable m v" and "v \<notin> hm_set m" and "card (dom (items m)) < n"
  shows "HashMap_remove n v m = Inr (0, m\<lparr>events := events m @ bucket_events m v\<rparr>)"
    and "HashMapGlobal_remove n v m = Inr (0, m\<lparr>events := events m @ [LockGlobal, UnlockGlobal]\<rparr>)"
    and "committed started \<Longrightarrow> HashMapRtm_remove started n v m = Inr (0, m)"
proof -
  obtain i where i: "hash m v = Inr (int i)" "i < length (hm_map m)" "v smod hm_size m = int i"
    by (rule hash_hashable [OF assms(1,2)])
  note search = rep_search_absent [OF assms(1) i(3,2) assms(3,4) refl]
  show "HashMap_remove n v m = Inr (0, m\<lparr>events := events m @ bucket_events m v\<rparr>)"
    and "HashMapGlobal_remove n v m = Inr (0, m\<lparr>events := events m @ [LockGlobal, UnlockGlobal]\<rparr>)"
    and "committed started \<Longrightarrow> HashMapRtm_remove started n v m = Inr (0, m)"
    using i search by (simp_all add: remove_defs map_ops transaction_eq committed_def [symmetric] bucket_events_def)
qed

lemma contains_eq:
  assumes "hm_rep m css" and "hashable m v" and "card (dom (items m)) < n"
  defines "r \<equiv> if v \<in> hm_set m then 1 else 0"
  shows "HashMap_contains n v m = Inr (r, m\<lparr>events := events m @ bucket_events m v\<rparr>)"
    and "HashMapGlobal_contains n v m = Inr (r, m\<lparr>events := events m @ [LockGlobal, UnlockGlobal]\<rparr>)"
    and "committed started \<Longrightarrow> HashMapRtm_contains started n v m = Inr (r, m)"
proof -
  obtain i where i: "hash m v = Inr (int i)" "i < length (hm_map m)" "v smod hm_size m = int i"
    by (rule hash_hashable [OF assms(1,2)])
  have "\<exists>q p. search n (items m) v NULL (item (hm_map m ! i)) = Inr (q, p) \<and> (p \<noteq> NULL \<longleftrightarrow> v \<in> hm_set m)"
  proof (cases "v \<in> hm_set m")
    case True
    then show ?thesis by (metis rep_search_present [OF assms(1) i(3,2) _ assms(3) refl])
  next
    case False
    then show ?thesis using rep_search_absent [OF assms(1) i(3,2) _ assms(3) refl] by blast
  qed
  then obtain q p where "search n (items m) v NULL (item (hm_map m ! i)) = Inr (q, p)" "p \<noteq> NULL \<longleftrightarrow> v \<in> hm_set m"
    by blast
  note search = this
  show "HashMap_contains n v m = Inr (r, m\<lparr>events := events m @ bucket_events m v\<rparr>)"
    and "HashMapGlobal_contains n v m = Inr (r, m\<lparr>events := events m @ [LockGlobal, UnlockGlobal]\<rparr>)"
    and "committed started \<Longrightarrow> HashMapRtm_contains started n v m = Inr (r, m)"
    using i search by (simp_all add: contains_defs map_ops transaction_eq committed_def [symmetric] bucket_events_def r_def)
qed

text \<open>A new map is empty.\<close>

lemma HashMap_init_rep: "0 < sz \<Longrightarrow> hm_rep (HashMap_init sz l) (\<lambda>_. [])"
  by (simp add: hm_rep_def HashMap_init_def LockedBucket_init_def)

lemma HashMap_init_set: "hm_set (HashMap_init sz l) = {}"
  by (simp add: hm_set_def HashMap_init_def)

section \<open>Counting, printing and freeing\<close>

lemma chain_count_eq:
  "seg successor hp p as NULL \<Longrightarrow> length as < n \<Longrightarrow> chain_count n hp p c = Inr (c + int (length as))"
proof (induction as arbitrary: n p c)
  case Nil
  then show ?case by (cases n) auto
next
  case (Cons a as)
  then show ?case by (cases n) (auto split: option.splits)
qed

lemma delete_chain_eq:
  "seg successor hp p as NULL \<Longrightarrow> distinct as \<Longrightarrow> length as < n \<Longrightarrow> delete_chain n hp p = Inr (hp |` (- set as))"
proof (induction as arbitrary: n p hp)
  case Nil
  then show ?case by (cases n) auto
next
  case (Cons a as)
  then obtain x k where x: "hp a = Some x" "seg successor hp (successor x) as NULL" "p = a" "a \<noteq> NULL" "n = Suc k"
    by (cases n) (auto split: option.splits)
  have "seg successor (hp(a := None)) (successor x) as NULL" using x(2) Cons.prems(2) by simp
  then have "delete_chain k (hp(a := None)) (successor x) = Inr ((hp(a := None)) |` (- set as))"
    by (rule Cons.IH) (use Cons.prems x(5) in simp_all)
  moreover have "(hp(a := None)) |` (- set as) = hp |` (- set (a # as))" by (auto simp: restrict_map_def)
  ultimately show ?case using x by simp
qed

lemma buckets_count_eq:
  assumes "hm_rep m css" and "card (dom (items m)) < n" and "set is \<subseteq> {..<length (hm_map m)}"
  shows "buckets_count n m (List.map int is) c = Inr (c + (\<Sum>i\<leftarrow>is. int (length (css i))))"
  using assms(3)
proof (induction "is" arbitrary: c)
  case (Cons i "is")
  have "chain_count n (items m) (item (hm_map m ! i)) c = Inr (c + int (length (css i)))"
    using chain_count_eq [OF hm_repD(1) [OF assms(1)]] hm_rep_length [OF assms(1)] assms(2) Cons.prems by fastforce
  then show ?case using Cons by (simp add: add.assoc)
qed simp

lemma delete_buckets_eq:
  assumes "hm_rep m css" and "card (dom (items m)) < n" and "set is \<subseteq> {..<length (hm_map m)}" and "distinct is"
    and "\<And>a i. i \<in> set is \<Longrightarrow> a \<in> set (css i) \<Longrightarrow> hp a = items m a"
  shows "delete_buckets n m (List.map int is) hp = Inr (hp |` (- (\<Union>i\<in>set is. set (css i))))"
  using assms(3-5)
proof (induction "is" arbitrary: hp)
  case (Cons i "is")
  have i: "i < length (hm_map m)" using Cons.prems(1) by simp
  have "seg successor hp (item (hm_map m ! i)) (css i) NULL"
    using hm_repD(1) [OF assms(1) i] seg_cong [where hp' = hp and hp = "items m", OF Cons.prems(3) [OF list.set_intros(1)]]
    by simp
  then have "delete_chain n hp (item (hm_map m ! i)) = Inr (hp |` (- set (css i)))"
    using hm_repD(3) [OF assms(1) i] hm_rep_length [OF assms(1) i] assms(2) by (intro delete_chain_eq) auto
  moreover have "(hp |` (- set (css i))) a = items m a" if "j \<in> set is" "a \<in> set (css j)" for a j
  proof -
    have "a \<notin> set (css i)" using hm_rep_disjoint [OF assms(1) _ i that(2)] Cons.prems(1,2) that(1) by auto
    then show ?thesis using Cons.prems(3) [of j a] that by simp
  qed
  ultimately show ?case using Cons.IH [of "hp |` (- set (css i))"] Cons.prems i by simp
qed (simp add: restrict_map_def)

lemma upto_map_int: "[0..int k - 1] = List.map int [0..<k]"
proof (induction k)
  case (Suc k)
  have "[0..int (Suc k) - 1] = [0..int k - 1] @ [int k]"
    using upto_rec2 [of 0 "int k"] by simp
  with Suc show ?case by simp
qed simp

lemma upto_buckets: "hm_rep m css \<Longrightarrow> [0..hm_size m - 1] = List.map int [0..<length (hm_map m)]"
  using upto_map_int [of "length (hm_map m)"] by (simp add: hm_rep_def)

lemma countElements_rep:
  assumes "hm_rep m css" and "card (dom (items m)) < n"
  shows "countElements n m = Inr (int (card (hm_set m)))"
proof -
  have "(\<Sum>i\<leftarrow>[0..<length (hm_map m)]. int (length (css i))) = (\<Sum>i<length (hm_map m). int (card (set (css i))))"
    using hm_repD(3) [OF assms(1)] by (simp add: interv_sum_list_conv_sum_set_nat distinct_card atLeast0LessThan)
  also have "\<dots> = int (card (\<Union>i<length (hm_map m). set (css i)))"
    using hm_rep_disjoint [OF assms(1)] by (subst card_UN_disjoint) auto
  also have "\<dots> = int (card (hm_set m))"
    using card_items [OF assms(1)] hm_rep_dom [OF assms(1)] by simp
  finally show ?thesis
    using buckets_count_eq [OF assms, of "[0..<length (hm_map m)]" 0]
    by (simp add: countElements_def upto_buckets [OF assms(1)] atLeast0LessThan)
qed

lemma HashMap_delete_rep:
  assumes "hm_rep m css" and "card (dom (items m)) < n"
  shows "HashMap_delete n m = Inr (m\<lparr>hm_map := [], items := Map.empty\<rparr>)"
proof -
  have "(items m) |` (- (\<Union>i<length (hm_map m). set (css i))) = Map.empty"
    unfolding hm_rep_dom [OF assms(1), symmetric] by (auto simp: restrict_map_def)
  then show ?thesis
    using delete_buckets_eq [OF assms, of "[0..<length (hm_map m)]" "items m"]
    by (simp add: HashMap_delete_def upto_buckets [OF assms(1)] atLeast0LessThan)
qed

section \<open>Implementations of the set\<close>

text \<open>
  \<open>new\<close> promises an address that is not in use.  The operations with a fuel that is enough for the
  chains implement the interface of the clients.
\<close>

definition hm_fuel :: "HashMap \<Rightarrow> nat" where
  "hm_fuel m = Suc (card (dom (items m)))"

locale item_allocator = heap_allocator alloc for alloc :: "LinkedListItem heap \<Rightarrow> addr"
begin

lemma alloc_rep: "hm_rep m css \<Longrightarrow> fresh (items m) (alloc (items m))"
  by (simp add: alloc_fresh hm_rep_finite)

lemma fuel_rep: "card (dom (items m)) < hm_fuel m"
  by (simp add: hm_fuel_def)

end

definition hm_inv :: "int \<Rightarrow> HashMap \<Rightarrow> bool" where
  "hm_inv sz m \<longleftrightarrow> hm_wf m \<and> hm_size m = sz"

lemma hm_invE:
  assumes "hm_inv sz m" and "0 \<le> v smod sz"
  obtains css where "hm_rep m css" and "hashable m v"
  using assms by (auto simp: hm_inv_def hm_wf_def hashable_def)

lemma hm_invI: "hm_rep m css \<Longrightarrow> hm_size m = sz \<Longrightarrow> hm_inv sz m"
  by (auto simp: hm_inv_def hm_wf_def)

lemma hm_inv_events [simp]: "hm_inv sz (m\<lparr>events := e\<rparr>) = hm_inv sz m"
  by (simp add: hm_inv_def)

lemma insert_all:
  assumes "hm_rep m css" and "hashable m v" and "fresh (items m) a" and "card (dom (items m)) < n"
  obtains r m' where "hm_inv (hm_size m) m'" and "hm_set m' = insert v (hm_set m)"
    and "HashMap_insert n a v m = Inr (r, m'\<lparr>events := events m @ bucket_events m v\<rparr>)"
    and "HashMapGlobal_insert n a v m = Inr (r, m'\<lparr>events := events m @ [LockGlobal, UnlockGlobal]\<rparr>)"
    and "committed started \<Longrightarrow> HashMapRtm_insert started n a v m = Inr (r, m')"
proof (cases "v \<in> hm_set m")
  case True
  with hm_invI [OF assms(1) refl] show thesis
    by (rule_tac insert_present [OF assms(1,2) True assms(3,4), of started]) (rule that [of m]; simp add: insert_absorb)
next
  case False
  show thesis
    by (rule insert_absent [OF assms(1,2) False assms(3,4), of started]) (rule that [OF hm_invI]; simp)
qed

lemma remove_all:
  assumes "hm_rep m css" and "hashable m v" and "card (dom (items m)) < n"
  obtains m' where "hm_inv (hm_size m) m'" and "hm_set m' = hm_set m - {v}"
    and "HashMap_remove n v m = Inr (if v \<in> hm_set m then 1 else 0, m'\<lparr>events := events m @ bucket_events m v\<rparr>)"
    and "HashMapGlobal_remove n v m =
      Inr (if v \<in> hm_set m then 1 else 0, m'\<lparr>events := events m @ [LockGlobal, UnlockGlobal]\<rparr>)"
    and "committed started \<Longrightarrow> HashMapRtm_remove started n v m = Inr (if v \<in> hm_set m then 1 else 0, m')"
proof (cases "v \<in> hm_set m")
  case True
  show thesis
    by (rule remove_present [OF assms(1,2) True assms(3), of started]) (rule that [OF hm_invI]; simp add: True)
next
  case False
  show thesis
    by (rule that [OF hm_invI [OF assms(1) refl]]; simp add: False remove_absent [OF assms(1,2) False assms(3)])
qed

sublocale item_allocator \<subseteq> per_bucket: set_impl "hm_inv sz" hm_set "\<lambda>v. 0 \<le> v smod sz"
    "\<lambda>v m. HashMap_insert (hm_fuel m) (alloc (items m)) v m"
    "\<lambda>v m. HashMap_remove (hm_fuel m) v m" "\<lambda>v m. HashMap_contains (hm_fuel m) v m" for sz
proof
  fix m v
  assume inv: "hm_inv sz m" and "0 \<le> v smod sz"
  then obtain css where rep: "hm_rep m css" and h: "hashable m v" by (rule hm_invE)
  have sz: "hm_size m = sz" using inv by (simp add: hm_inv_def)
  show "\<exists>r m'. HashMap_insert (hm_fuel m) (alloc (items m)) v m = Inr (r, m') \<and> hm_inv sz m' \<and>
      hm_set m' = insert v (hm_set m)"
    by (rule insert_all [OF rep h alloc_rep [OF rep] fuel_rep]) (use sz in simp)
  show "\<exists>m'. HashMap_remove (hm_fuel m) v m = Inr (if v \<in> hm_set m then 1 else 0, m') \<and> hm_inv sz m' \<and>
      hm_set m' = hm_set m - {v}"
    by (rule remove_all [OF rep h fuel_rep]) (use sz in simp)
  show "\<exists>m'. HashMap_contains (hm_fuel m) v m = Inr (if v \<in> hm_set m then 1 else 0, m') \<and> hm_inv sz m' \<and>
      hm_set m' = hm_set m"
    using contains_eq(1) [OF rep h fuel_rep] inv by simp
qed

sublocale item_allocator \<subseteq> global: set_impl "hm_inv sz" hm_set "\<lambda>v. 0 \<le> v smod sz"
    "\<lambda>v m. HashMapGlobal_insert (hm_fuel m) (alloc (items m)) v m"
    "\<lambda>v m. HashMapGlobal_remove (hm_fuel m) v m" "\<lambda>v m. HashMapGlobal_contains (hm_fuel m) v m" for sz
proof
  fix m v
  assume inv: "hm_inv sz m" and "0 \<le> v smod sz"
  then obtain css where rep: "hm_rep m css" and h: "hashable m v" by (rule hm_invE)
  have sz: "hm_size m = sz" using inv by (simp add: hm_inv_def)
  show "\<exists>r m'. HashMapGlobal_insert (hm_fuel m) (alloc (items m)) v m = Inr (r, m') \<and> hm_inv sz m' \<and>
      hm_set m' = insert v (hm_set m)"
    by (rule insert_all [OF rep h alloc_rep [OF rep] fuel_rep]) (use sz in simp)
  show "\<exists>m'. HashMapGlobal_remove (hm_fuel m) v m = Inr (if v \<in> hm_set m then 1 else 0, m') \<and> hm_inv sz m' \<and>
      hm_set m' = hm_set m - {v}"
    by (rule remove_all [OF rep h fuel_rep]) (use sz in simp)
  show "\<exists>m'. HashMapGlobal_contains (hm_fuel m) v m = Inr (if v \<in> hm_set m then 1 else 0, m') \<and> hm_inv sz m' \<and>
      hm_set m' = hm_set m"
    using contains_eq(2) [OF rep h fuel_rep] inv by simp
qed

context item_allocator
begin

lemmas per_bucket_ops = per_bucket.apply_ops_set
lemmas global_ops = global.apply_ops_set

end

locale rtm_allocator = item_allocator + fixes started :: "nat \<Rightarrow> bool" assumes commits: "committed started"

sublocale rtm_allocator \<subseteq> rtm: set_impl "hm_inv sz" hm_set "\<lambda>v. 0 \<le> v smod sz"
    "\<lambda>v m. HashMapRtm_insert started (hm_fuel m) (alloc (items m)) v m"
    "\<lambda>v m. HashMapRtm_remove started (hm_fuel m) v m" "\<lambda>v m. HashMapRtm_contains started (hm_fuel m) v m" for sz
proof
  fix m v
  assume inv: "hm_inv sz m" and "0 \<le> v smod sz"
  then obtain css where rep: "hm_rep m css" and h: "hashable m v" by (rule hm_invE)
  have sz: "hm_size m = sz" using inv by (simp add: hm_inv_def)
  show "\<exists>r m'. HashMapRtm_insert started (hm_fuel m) (alloc (items m)) v m = Inr (r, m') \<and> hm_inv sz m' \<and>
      hm_set m' = insert v (hm_set m)"
    by (rule insert_all [OF rep h alloc_rep [OF rep] fuel_rep, of started]) (use sz commits in simp)
  show "\<exists>m'. HashMapRtm_remove started (hm_fuel m) v m = Inr (if v \<in> hm_set m then 1 else 0, m') \<and> hm_inv sz m' \<and>
      hm_set m' = hm_set m - {v}"
    by (rule remove_all [OF rep h fuel_rep, of started]) (use sz commits in simp)
  show "\<exists>m'. HashMapRtm_contains started (hm_fuel m) v m = Inr (if v \<in> hm_set m then 1 else 0, m') \<and> hm_inv sz m' \<and>
      hm_set m' = hm_set m"
    using contains_eq(3) [OF rep h fuel_rep, of started] inv commits by simp
qed

context rtm_allocator
begin

lemmas rtm_ops = rtm.apply_ops_set

end

interpretation bump: rtm_allocator bump_alloc "\<lambda>n. n = 2"
  by unfold_locales (simp_all add: bump_alloc_fresh committed_def committed_within_def MAX_RETRIES_def)

text \<open>A map with two items in its only bucket.\<close>

definition demo_map :: HashMap where
  "demo_map =
     \<lparr>hm_size = 1, hm_map = [LockedBucket_init 4 (LockType_init HLE_TAS_SPEC)],
      items = [4 \<mapsto> LinkedListItem_init 3 9, 9 \<mapsto> LinkedListItem_init 8 NULL], events = []\<rparr>"

lemma demo_map_facts:
  "hm_wf demo_map" "hm_set demo_map = {3, 8}" "card (dom (items demo_map)) = 2" "hashable demo_map v"
  "fresh (items demo_map) 5"
proof -
  have "hm_rep demo_map (\<lambda>_. [4, 9])"
    by (auto simp: hm_rep_def demo_map_def LinkedListItem_init_def LockedBucket_init_def smod_int_alt_def)
  then show "hm_wf demo_map" by (auto simp: hm_wf_def)
qed (auto simp: demo_map_def hm_set_def LinkedListItem_init_def hashable_def fresh_def smod_int_alt_def)

section \<open>Properties\<close>

text \<open>
  C15: The hash map implements a set of integers.  On a well-formed map, for a value with a valid
  hash and with fuel for the chains, \<open>insert\<close> returns the item of the value (the new one exactly if
  the value was not there), \<open>remove\<close> and \<open>contains\<close> return whether the value was there, the map
  stays well formed and its set changes accordingly, and every path locks and unlocks the
  bucket of the value, once.
\<close>

theorem hash_map_refines_set:
  assumes "hm_wf m" and "hashable m v" and "fresh (items m) a" and "card (dom (items m)) < n"
  shows "\<exists>p mi mr. HashMap_insert n a v m = Inr (p, mi) \<and> value_of (items mi) p = v \<and> p \<in> dom (items mi) \<and>
      (p = a \<longleftrightarrow> v \<notin> hm_set m) \<and> hm_wf mi \<and> hm_set mi = insert v (hm_set m) \<and>
      events mi = events m @ bucket_events m v \<and>
    HashMap_remove n v m = Inr (if v \<in> hm_set m then 1 else 0, mr) \<and> hm_wf mr \<and> hm_set mr = hm_set m - {v} \<and>
      events mr = events m @ bucket_events m v \<and>
    HashMap_contains n v m =
      Inr (if v \<in> hm_set m then 1 else 0, m\<lparr>events := events m @ bucket_events m v\<rparr>)"
proof -
  obtain css where rep: "hm_rep m css" using assms(1) by (auto simp: hm_wf_def)
  show ?thesis
  proof (cases "v \<in> hm_set m")
    case True
    obtain p where p: "items m p \<noteq> None" "value_of (items m) p = v"
      "HashMap_insert n a v m = Inr (p, m\<lparr>events := events m @ bucket_events m v\<rparr>)"
      by (rule insert_present [OF rep assms(2) True assms(3,4)])
    obtain mr css' where mr: "hm_rep mr css'" "hm_set mr = hm_set m - {v}"
      "HashMap_remove n v m = Inr (1, mr\<lparr>events := events m @ bucket_events m v\<rparr>)"
      by (rule remove_present [OF rep assms(2) True assms(4)])
    have "p \<noteq> a" using p(1) assms(3) by (auto simp: fresh_def)
    moreover have "hm_wf mr" "p \<in> dom (items m)" using mr(1) p(1) by (auto simp: hm_wf_def)
    ultimately show ?thesis
      using p(2,3) mr(2,3) assms(1) True contains_eq(1) [OF rep assms(2,4)]
      by (intro exI [of _ p] exI [of _ "m\<lparr>events := events m @ bucket_events m v\<rparr>"]
          exI [of _ "mr\<lparr>events := events m @ bucket_events m v\<rparr>"]) (simp add: insert_absorb)
  next
    case False
    obtain mi css' where mi: "hm_rep mi css'" "hm_set mi = insert v (hm_set m)"
      "items mi a = Some (LinkedListItem_init v NULL)"
      "HashMap_insert n a v m = Inr (a, mi\<lparr>events := events m @ bucket_events m v\<rparr>)"
      by (rule insert_absent [OF rep assms(2) False assms(3,4)])
    have "hm_wf mi" using mi(1) by (auto simp: hm_wf_def)
    then show ?thesis
      using mi(2-4) assms(1) False contains_eq(1) [OF rep assms(2,4)] remove_absent(1) [OF rep assms(2) False assms(4)]
      by (intro exI [of _ a] exI [of _ "mi\<lparr>events := events m @ bucket_events m v\<rparr>"]
          exI [of _ "m\<lparr>events := events m @ bucket_events m v\<rparr>"]) (simp add: LinkedListItem_init_def dom_def)
  qed
qed

theorem hash_map_refines_set_witness:
  "\<exists>p mi mr. HashMap_insert 3 5 6 demo_map = Inr (p, mi) \<and> p = 5 \<and> hm_set mi = {3, 6, 8} \<and>
     HashMap_remove 3 8 demo_map = Inr (1, mr) \<and> hm_set mr = {3}"
proof -
  have n: "card (dom (items demo_map)) < 3" by (simp add: demo_map_facts)
  have "{3, 8} - {8} = {3 :: int}" "insert 6 {3, 8} = {3, 6, 8 :: int}" by auto
  then show ?thesis
    using hash_map_refines_set [OF demo_map_facts(1) demo_map_facts(4) [of 6] demo_map_facts(5) n]
      hash_map_refines_set [OF demo_map_facts(1) demo_map_facts(4) [of 8] demo_map_facts(5) n]
    by (auto simp: demo_map_facts(2))
qed

text \<open>
  The destructor frees every item of a well-formed map, each once, and \<open>countElements\<close> is the
  number of its values.
\<close>

theorem hash_map_frees_all:
  assumes "hm_wf m" and "card (dom (items m)) < n"
  shows "countElements n m = Inr (int (card (hm_set m))) \<and>
    HashMap_delete n m = Inr (m\<lparr>hm_map := [], items := Map.empty\<rparr>)"
  using assms countElements_rep HashMap_delete_rep by (auto simp: hm_wf_def)

theorem hash_map_frees_all_witness:
  "countElements 3 demo_map = Inr 2 \<and> HashMap_delete 3 demo_map = Inr (demo_map\<lparr>hm_map := [], items := Map.empty\<rparr>)"
  using hash_map_frees_all [OF demo_map_facts(1), of 3] by (simp add: demo_map_facts)

text \<open>
  A negative value that is not a multiple of the size has a negative remainder: every operation
  of the three variants indexes the bucket array before its start.
\<close>

theorem hash_map_negative_value:
  assumes "0 < hm_size m" and "v < 0" and "\<not> hm_size m dvd v" and "committed started"
  shows "v smod hm_size m < 0 \<and>
      HashMap_insert n a v m = Inl (OutOfBounds (v smod hm_size m)) \<and>
      HashMap_remove n v m = Inl (OutOfBounds (v smod hm_size m)) \<and>
      HashMap_contains n v m = Inl (OutOfBounds (v smod hm_size m)) \<and>
      HashMapGlobal_insert n a v m = Inl (OutOfBounds (v smod hm_size m)) \<and>
      HashMapGlobal_remove n v m = Inl (OutOfBounds (v smod hm_size m)) \<and>
      HashMapGlobal_contains n v m = Inl (OutOfBounds (v smod hm_size m)) \<and>
      HashMapRtm_insert started n a v m = Inl (OutOfBounds (v smod hm_size m)) \<and>
      HashMapRtm_remove started n v m = Inl (OutOfBounds (v smod hm_size m)) \<and>
      HashMapRtm_contains started n v m = Inl (OutOfBounds (v smod hm_size m))"
proof -
  have neg: "v smod hm_size m < 0"
  proof -
    have "- v mod hm_size m \<noteq> 0" using assms(3) by (simp add: mod_eq_0_iff_dvd)
    moreover have "0 \<le> - v mod hm_size m" using assms(1) by simp
    ultimately have "0 < - v mod hm_size m" by linarith
    then show ?thesis using assms(1,2) by (simp add: smod_int_alt_def)
  qed
  then have b: "bucket m' (v smod hm_size m) = Inl (OutOfBounds (v smod hm_size m))" for m' by (simp add: bucket_def)
  have h: "hash m v = Inr (v smod hm_size m)" using assms(1) by (simp add: hash_def)
  show ?thesis
    using neg assms(4) by (simp add: insert_defs remove_defs contains_defs lock_def h b transaction_eq committed_def [symmetric])
qed

theorem hash_map_negative_value_witness:
  "HashMap_contains 1 (- 7) (HashMap_init 10 (LockType_init PTHREAD)) = Inl (OutOfBounds (- 7))"
  using hash_map_negative_value [of "HashMap_init 10 (LockType_init PTHREAD)" "- 7" "\<lambda>n. n = 0" 1 1]
  by (simp add: HashMap_init_def committed_def committed_within_def MAX_RETRIES_def smod_int_alt_def)

text \<open>
  C16: The three variants are equivalent to each other and to a set: whatever addresses \<open>new\<close>
  returns, a sequence of operations on values with a valid hash gives the same answers and the
  same set of values with one lock per bucket, with the global lock, and with transactions that
  commit within their retries.
\<close>

theorem hash_map_variants_equivalent:
  assumes "\<And>hp. finite (dom hp) \<Longrightarrow> fresh hp (alloc hp)" and "committed started" and "0 < sz"
    and "\<And>p. p \<in> set ps \<Longrightarrow> 0 \<le> op_value p smod sz"
  shows "\<exists>m1 m2 m3.
    apply_ops (\<lambda>v m. HashMap_insert (hm_fuel m) (alloc (items m)) v m) (\<lambda>v m. HashMap_remove (hm_fuel m) v m)
      (\<lambda>v m. HashMap_contains (hm_fuel m) v m) ps (HashMap_init sz l) = Inr (set_answers ps {}, m1) \<and>
    apply_ops (\<lambda>v m. HashMapGlobal_insert (hm_fuel m) (alloc (items m)) v m) (\<lambda>v m. HashMapGlobal_remove (hm_fuel m) v m)
      (\<lambda>v m. HashMapGlobal_contains (hm_fuel m) v m) ps (HashMap_init sz l) = Inr (set_answers ps {}, m2) \<and>
    apply_ops (\<lambda>v m. HashMapRtm_insert started (hm_fuel m) (alloc (items m)) v m)
      (\<lambda>v m. HashMapRtm_remove started (hm_fuel m) v m)
      (\<lambda>v m. HashMapRtm_contains started (hm_fuel m) v m) ps (HashMapRtm_init sz) = Inr (set_answers ps {}, m3) \<and>
    hm_set m1 = set_after ps {} \<and> hm_set m2 = set_after ps {} \<and> hm_set m3 = set_after ps {}"
proof -
  have alloc: "rtm_allocator alloc started" using assms(1,2) by unfold_locales
  then have item_alloc: "item_allocator alloc" by (rule rtm_allocator.axioms)
  have init: "hm_inv sz (HashMap_init sz l)" for l
    by (rule hm_invI [OF HashMap_init_rep [OF assms(3)]]) (simp add: HashMap_init_def)
  show ?thesis
    using item_allocator.per_bucket_ops [OF item_alloc init assms(4), of ps l]
      item_allocator.global_ops [OF item_alloc init assms(4), of ps l]
      rtm_allocator.rtm_ops [OF alloc init assms(4), of ps "LockType_init NONE"]
    unfolding HashMapRtm_init_def by (simp add: HashMap_init_set) blast
qed

theorem hash_map_variants_equivalent_witness:
  "\<exists>m. apply_ops (\<lambda>v m. HashMapRtm_insert (\<lambda>n. n = 2) (hm_fuel m) (bump_alloc (items m)) v m)
      (\<lambda>v m. HashMapRtm_remove (\<lambda>n. n = 2) (hm_fuel m) v m) (\<lambda>v m. HashMapRtm_contains (\<lambda>n. n = 2) (hm_fuel m) v m)
      [Insert 4, Insert 14, Remove 4, Contains 4, Contains 14] (HashMapRtm_init 10) = Inr ([1, 0, 1], m) \<and> hm_set m = {14}"
proof -
  let ?ps = "[Insert 4, Insert 14, Remove 4, Contains 4, Contains 14]"
  have ok: "0 \<le> op_value p smod 10" if "p \<in> set ?ps" for p
    using that by (auto simp: smod_int_alt_def)
  have ref: "set_answers ?ps {} = [1, 0, 1]" "set_after ?ps {} = {14}" by auto
  show ?thesis
    using hash_map_variants_equivalent [where sz = 10 and ps = ?ps and l = "LockType_init NONE",
        OF bump.alloc_fresh bump.commits _ ok]
    unfolding ref by (simp del: apply_ops.simps) blast
qed

end
