(* ===== verification/HleList.thy ===== *)
theory HleList
  imports HleBench CLib "HOL-Library.Multiset" "HOL-Library.Signed_Division"
begin

text \<open>
  The doubly linked list of \<open>hle/list\<close> on its allocators.  The class \<open>List\<close> is a record with the
  two ends and the memory; an \<open>Allocator\<close> is a record of its two virtual functions.  The locale
  \<open>list_allocator\<close> states what the list relies on, and the list is shown to be the sequence of its
  values for every allocator that satisfies it.  Loops take fuel; more than the length of the list is enough.
\<close>

section \<open>Items and allocators\<close>

record ListItem =
  prev_i :: addr
  next_i :: addr
  data_i :: int

definition ListItem_init :: "int \<Rightarrow> addr \<Rightarrow> addr \<Rightarrow> ListItem" where
  "ListItem_init d p n = \<lparr>prev_i = p, next_i = n, data_i = d\<rparr>"

record memory =
  heap_of :: "ListItem heap"
  last_allocation_slot :: int     \<comment> \<open>of the \<open>PreAllocator\<close>\<close>

record Allocator =
  createListItem :: "int \<Rightarrow> addr \<Rightarrow> addr \<Rightarrow> memory \<Rightarrow> fault + (addr \<times> memory)"
  deleteListItem :: "addr \<Rightarrow> memory \<Rightarrow> fault + memory"

definition put :: "addr \<Rightarrow> (ListItem \<Rightarrow> ListItem) \<Rightarrow> memory \<Rightarrow> fault + memory" where
  "put a f s = bind_res (heap_write a f (heap_of s)) (\<lambda>hp. Inr (s\<lparr>heap_of := hp\<rparr>))"

definition free_item :: "addr \<Rightarrow> memory \<Rightarrow> fault + memory" where
  "free_item a s = bind_res (delete a (heap_of s)) (\<lambda>hp. Inr (s\<lparr>heap_of := hp\<rparr>))"

text \<open>\<open>new\<close> chooses an address (\<open>alloc\<close>).\<close>

definition DefaultAllocator :: "(ListItem heap \<Rightarrow> addr) \<Rightarrow> Allocator" where
  "DefaultAllocator alloc =
     \<lparr>createListItem = (\<lambda>d p n s.
        let a = alloc (heap_of s) in Inr (a, s\<lparr>heap_of := (heap_of s)(a \<mapsto> ListItem_init d p n)\<rparr>)),
      deleteListItem = free_item\<rparr>"

text \<open>\<open>aligned_alloc\<close> may return a null pointer, which is not checked.\<close>

definition AlignedAllocator :: "(ListItem heap \<Rightarrow> addr) \<Rightarrow> Allocator" where
  "AlignedAllocator aligned_alloc =
     \<lparr>createListItem = (\<lambda>d p n s.
        let a = aligned_alloc (heap_of s)
        in if a = NULL then Inl NullAccess
           else Inr (a, s\<lparr>heap_of := (heap_of s)(a \<mapsto> ListItem_init d p n)\<rparr>)),
      deleteListItem = free_item\<rparr>"

definition allocations_size :: int where "allocations_size = 10000"

text \<open>The slot with index \<open>i\<close> of the vector is at the address \<open>i + 1\<close>.\<close>

definition slot_addr :: "int \<Rightarrow> addr" where
  "slot_addr i = nat (i + 1)"

definition PreAllocator_init :: memory where
  "PreAllocator_init =
     \<lparr>heap_of = (\<lambda>a. if a \<in> {1..nat allocations_size} then Some (ListItem_init (- 1) NULL NULL) else None),
      last_allocation_slot = - 1\<rparr>"

fun pre_create :: "nat \<Rightarrow> int \<Rightarrow> int \<Rightarrow> addr \<Rightarrow> addr \<Rightarrow> memory \<Rightarrow> fault + (addr \<times> memory)" where
  "pre_create 0 allocation_slot_begin d p n s = Inl OutOfFuel"
| "pre_create (Suc k) allocation_slot_begin d p n s =
     (let s = s\<lparr>last_allocation_slot := (last_allocation_slot s + 1) smod allocations_size\<rparr>;
          a = slot_addr (last_allocation_slot s)
      in bind_res (obj (heap_of s) a) (\<lambda>i.
           if data_i i = - 1 then Inr (a, s\<lparr>heap_of := (heap_of s)(a \<mapsto> ListItem_init d p n)\<rparr>)
           else if last_allocation_slot s \<noteq> allocation_slot_begin then pre_create k allocation_slot_begin d p n s
           else Inl (Exit 1)))"

text \<open>The loop ends within \<open>allocations_size\<close> rounds unless it starts at slot \<open>-1\<close> and no slot is free.\<close>

definition PreAllocator :: Allocator where
  "PreAllocator =
     \<lparr>createListItem = (\<lambda>d p n s. pre_create (nat allocations_size) (last_allocation_slot s) d p n s),
      deleteListItem = (\<lambda>a s. put a (\<lambda>i. i\<lparr>data_i := - 1\<rparr>) s)\<rparr>"

section \<open>The list\<close>

record List =
  first_p :: addr
  last_p :: addr
  store :: memory

definition List_init :: "memory \<Rightarrow> List" where
  "List_init s = \<lparr>first_p = NULL, last_p = NULL, store = s\<rparr>"

definition set_field :: "addr \<Rightarrow> (ListItem \<Rightarrow> ListItem) \<Rightarrow> List \<Rightarrow> fault + List" where
  "set_field a f L = bind_res (put a f (store L)) (\<lambda>s. Inr (L\<lparr>store := s\<rparr>))"

definition insertTail :: "addr \<Rightarrow> List \<Rightarrow> fault + List" where
  "insertTail a L =
     bind_res (set_field a (\<lambda>i. i\<lparr>prev_i := last_p L\<rparr>) L) (\<lambda>L.
     bind_res (if last_p L \<noteq> NULL then set_field (last_p L) (\<lambda>i. i\<lparr>next_i := a\<rparr>) L else Inr L) (\<lambda>L.
     let L = L\<lparr>last_p := a\<rparr> in
     Inr (if first_p L = NULL then L\<lparr>first_p := a\<rparr> else L)))"

definition insert_l :: "Allocator \<Rightarrow> int \<Rightarrow> List \<Rightarrow> fault + (addr \<times> List)" where
  "insert_l A d L =
     bind_res (createListItem A d NULL NULL (store L)) (\<lambda>(a, s).
     bind_res (insertTail a (L\<lparr>store := s\<rparr>)) (\<lambda>L. Inr (a, L)))"

definition removeFromList :: "addr \<Rightarrow> List \<Rightarrow> fault + List" where
  "removeFromList a L =
     (if a = NULL then Inr L
      else bind_res (obj (heap_of (store L)) a) (\<lambda>i.
        let prev = prev_i i; nxt = next_i i;
            L = (if a = first_p L then L\<lparr>first_p := nxt\<rparr> else L);
            L = (if a = last_p L then L\<lparr>last_p := prev\<rparr> else L)
        in bind_res (if nxt \<noteq> NULL then set_field nxt (\<lambda>i. i\<lparr>prev_i := prev\<rparr>) L else Inr L) (\<lambda>L.
           if prev \<noteq> NULL then set_field prev (\<lambda>i. i\<lparr>next_i := nxt\<rparr>) L else Inr L)))"

definition dealloc :: "Allocator \<Rightarrow> addr \<Rightarrow> List \<Rightarrow> fault + List" where
  "dealloc A a L = bind_res (deleteListItem A a (store L)) (\<lambda>s. Inr (L\<lparr>store := s\<rparr>))"

definition remove_item :: "Allocator \<Rightarrow> addr \<Rightarrow> List \<Rightarrow> fault + List" where
  "remove_item A a L = (if a = NULL then Inr L else bind_res (removeFromList a L) (dealloc A a))"

fun get_loop :: "nat \<Rightarrow> ListItem heap \<Rightarrow> int \<Rightarrow> addr \<Rightarrow> fault + addr" where
  "get_loop 0 hp d a = Inl OutOfFuel"
| "get_loop (Suc k) hp d a =
     (if a = NULL then Inr NULL
      else bind_res (obj hp a) (\<lambda>i. if data_i i = d then Inr a else get_loop k hp d (next_i i)))"

definition get_l :: "nat \<Rightarrow> int \<Rightarrow> List \<Rightarrow> fault + addr" where
  "get_l k d L = get_loop k (heap_of (store L)) d (first_p L)"

definition findAndRemoveFromList :: "nat \<Rightarrow> int \<Rightarrow> List \<Rightarrow> fault + (addr \<times> List)" where
  "findAndRemoveFromList k d L =
     bind_res (get_l k d L) (\<lambda>a. bind_res (removeFromList a L) (\<lambda>L. Inr (a, L)))"

definition remove_l :: "nat \<Rightarrow> Allocator \<Rightarrow> int \<Rightarrow> List \<Rightarrow> fault + List" where
  "remove_l k A d L = bind_res (findAndRemoveFromList k d L) (\<lambda>(a, L). dealloc A a L)"

definition contains_l :: "nat \<Rightarrow> int \<Rightarrow> List \<Rightarrow> fault + int" where
  "contains_l k d L = bind_res (get_l k d L) (\<lambda>a. Inr (if a \<noteq> NULL then 1 else 0))"

fun deleteAll :: "nat \<Rightarrow> Allocator \<Rightarrow> addr \<Rightarrow> List \<Rightarrow> fault + List" where
  "deleteAll 0 A a L = Inl OutOfFuel"
| "deleteAll (Suc k) A a L =
     (if a = NULL then Inr L
      else bind_res (obj (heap_of (store L)) a) (\<lambda>i.
           bind_res (dealloc A a L) (\<lambda>L. deleteAll k A (next_i i) L)))"

definition List_delete :: "nat \<Rightarrow> Allocator \<Rightarrow> List \<Rightarrow> fault + List" where
  "List_delete k A L = bind_res (deleteAll k A (first_p L) L) (\<lambda>L. Inr (L\<lparr>first_p := NULL, last_p := NULL\<rparr>))"

fun size_loop :: "nat \<Rightarrow> ListItem heap \<Rightarrow> addr \<Rightarrow> int \<Rightarrow> fault + int" where
  "size_loop 0 hp a cnt = Inl OutOfFuel"
| "size_loop (Suc k) hp a cnt =
     (if a = NULL then Inr cnt else bind_res (obj hp a) (\<lambda>i. size_loop k hp (next_i i) (cnt + 1)))"

definition size_l :: "nat \<Rightarrow> List \<Rightarrow> fault + int" where
  "size_l k L = size_loop k (heap_of (store L)) (first_p L) 0"

fun print_loop :: "nat \<Rightarrow> ListItem heap \<Rightarrow> addr \<Rightarrow> fault + string" where
  "print_loop 0 hp a = Inl OutOfFuel"
| "print_loop (Suc k) hp a =
     (if a = NULL then Inr []
      else bind_res (obj hp a) (\<lambda>i. bind_res (print_loop k hp (next_i i)) (\<lambda>out. Inr (show_int (data_i i) @ '' '' @ out))))"

definition print_l :: "nat \<Rightarrow> List \<Rightarrow> fault + string" where
  "print_l k L = print_loop k (heap_of (store L)) (first_p L)"

section \<open>The list with transactions\<close>

definition LIST_MAX_RETRIES :: nat where "LIST_MAX_RETRIES = 1000 * 1000 * 1000"

definition ListRtm_insertTail :: "(nat \<Rightarrow> bool) \<Rightarrow> addr \<Rightarrow> List \<Rightarrow> fault + List" where
  "ListRtm_insertTail started a L = transaction LIST_MAX_RETRIES started (insertTail a L)"

definition ListRtm_get :: "(nat \<Rightarrow> bool) \<Rightarrow> nat \<Rightarrow> int \<Rightarrow> List \<Rightarrow> fault + addr" where
  "ListRtm_get started k d L = transaction LIST_MAX_RETRIES started (get_l k d L)"

definition ListRtm_findAndRemoveFromList :: "(nat \<Rightarrow> bool) \<Rightarrow> nat \<Rightarrow> int \<Rightarrow> List \<Rightarrow> fault + (addr \<times> List)" where
  "ListRtm_findAndRemoveFromList started k d L =
     transaction LIST_MAX_RETRIES started
       (bind_res (get_l k d L) (\<lambda>a. bind_res (removeFromList a L) (\<lambda>L. Inr (a, L))))"

section \<open>What the list relies on\<close>

text \<open>
  \<open>live\<close> are the addresses of the items in use, \<open>okd\<close> the values that can be stored, and \<open>room\<close>
  tells that a further item can be created.
\<close>

locale list_allocator =
  fixes A :: Allocator and ainv :: "memory \<Rightarrow> bool" and live :: "memory \<Rightarrow> addr set"
    and okd :: "int \<Rightarrow> bool" and room :: "memory \<Rightarrow> bool"
  assumes live_obj: "ainv s \<Longrightarrow> a \<in> live s \<Longrightarrow> a \<noteq> NULL \<and> heap_of s a \<noteq> None"
    and create_law: "ainv s \<Longrightarrow> okd d \<Longrightarrow> room s \<Longrightarrow>
      \<exists>a s'. createListItem A d p n s = Inr (a, s') \<and> a \<noteq> NULL \<and> a \<notin> live s \<and> live s' = insert a (live s) \<and>
        heap_of s' = (heap_of s)(a \<mapsto> ListItem_init d p n) \<and> ainv s'"
    and delete_law: "ainv s \<Longrightarrow> a \<in> live s \<Longrightarrow>
      \<exists>s'. deleteListItem A a s = Inr s' \<and> live s' = live s - {a} \<and>
        (\<forall>b. b \<noteq> a \<longrightarrow> heap_of s' b = heap_of s b) \<and> ainv s'"
    and link_law: "ainv s \<Longrightarrow> a \<in> live s \<Longrightarrow> data_i x = data_i (the (heap_of s a)) \<Longrightarrow>
      ainv (s\<lparr>heap_of := (heap_of s)(a \<mapsto> x)\<rparr>) \<and> live (s\<lparr>heap_of := (heap_of s)(a \<mapsto> x)\<rparr>) = live s"
begin

text \<open>
  The addresses \<open>as\<close> are linked forwards from the first and backwards from the last item, and are
  the items in use.
\<close>

definition list_rep :: "List \<Rightarrow> addr list \<Rightarrow> bool" where
  "list_rep L as \<longleftrightarrow> ainv (store L) \<and> live (store L) = set as \<and> distinct as \<and>
     seg next_i (heap_of (store L)) (first_p L) as NULL \<and>
     seg prev_i (heap_of (store L)) (last_p L) (rev as) NULL"

definition contents :: "List \<Rightarrow> addr list \<Rightarrow> int list" where
  "contents L as = map (\<lambda>a. data_i (the (heap_of (store L) a))) as"

text \<open>A write to an item in use that keeps its value keeps the memory.\<close>

lemma set_field_live:
  assumes "ainv (store L)" and "a \<in> live (store L)" and "\<And>i. data_i (f i) = data_i i"
  obtains x L' where "heap_of (store L) a = Some x" and "set_field a f L = Inr L'"
    and "first_p L' = first_p L" and "last_p L' = last_p L"
    and "heap_of (store L') = (heap_of (store L))(a \<mapsto> f x)" and "ainv (store L')" and "live (store L') = live (store L)"
proof -
  obtain x where x: "a \<noteq> NULL" "heap_of (store L) a = Some x" using live_obj [OF assms(1,2)] by blast
  let ?L = "L\<lparr>store := (store L)\<lparr>heap_of := (heap_of (store L))(a \<mapsto> f x)\<rparr>\<rparr>"
  have "set_field a f L = Inr ?L" using x by (simp add: set_field_def put_def)
  with x link_law [OF assms(1,2), of "f x"] assms(3) show thesis by (intro that [of x ?L]) simp_all
qed

lemma contents_cong:
  "(\<And>a. a \<in> set as \<Longrightarrow> data_i (the (heap_of (store L') a)) = data_i (the (heap_of (store L) a))) \<Longrightarrow>
   contents L' as = contents L as"
  by (simp add: contents_def)

end

text \<open>A chain through one field does not see writes to the other fields.\<close>

lemma seg_same_field: "hp a = Some x \<Longrightarrow> nx y = nx x \<Longrightarrow> seg nx (hp(a \<mapsto> y)) p as q \<longleftrightarrow> seg nx hp p as q"
  by (induction as arbitrary: p) (auto split: option.splits)

lemma seg_first: "seg nx hp p as NULL \<Longrightarrow> p = (if as = [] then NULL else hd as)"
  by (cases as) auto

lemma seg_last_of: "seg nx hp p (rev as) NULL \<Longrightarrow> p = last (NULL # as)"
  using seg_first [of nx hp p "rev as"] by (cases as rule: rev_cases) auto

lemma seg_replace_end:
  assumes "seg nx hp p as q" and "as \<noteq> []" and "distinct as" and "nx x = r"
  shows "seg nx (hp(last as \<mapsto> x)) p as r"
  using assms by (cases as rule: rev_cases) (auto simp: seg_relink)

lemma seg_skip:
  assumes "seg nx hp f (xs @ p # ys) NULL" and "hp p = Some x" and "distinct (xs @ p # ys)"
    and "xs \<noteq> [] \<Longrightarrow> nx z = nx x"
  shows "seg nx (if xs = [] then hp else hp(last xs \<mapsto> z)) (if xs = [] then nx x else f) (xs @ ys) NULL"
proof -
  have pre: "seg nx hp f xs p" and post: "seg nx hp (nx x) ys NULL" using assms(1,2) by (auto simp: seg_append)
  show ?thesis
  proof (cases "xs = []")
    case False
    then have "seg nx (hp(last xs \<mapsto> z)) f xs (nx x)" using seg_replace_end [OF pre False _ assms(4) [OF False]] assms(3) by simp
    moreover have "last xs \<notin> set ys" using last_in_set [OF False] assms(3) by auto
    then have "seg nx (hp(last xs \<mapsto> z)) (nx x) ys NULL" using post by simp
    ultimately show ?thesis using False by (auto simp: seg_append)
  qed (use post in simp)
qed

lemma seg_next_of: "seg nx hp f (xs @ p # ys) NULL \<Longrightarrow> hp p = Some x \<Longrightarrow> nx x = (if ys = [] then NULL else hd ys)"
  by (auto simp: seg_append dest: seg_first split: if_splits)

context list_allocator
begin

lemma insertTail_rep:
  assumes "ainv (store L)" and "live (store L) = insert a (set as)" and "a \<notin> set as" and "distinct as"
    and "seg next_i (heap_of (store L)) (first_p L) as NULL"
    and "seg prev_i (heap_of (store L)) (last_p L) (rev as) NULL"
    and "heap_of (store L) a = Some x" and "next_i x = NULL"
  obtains L' where "insertTail a L = Inr L'" and "list_rep L' (as @ [a])"
    and "contents L' (as @ [a]) = contents L (as @ [a])"
proof -
  let ?hp = "heap_of (store L)"
  have a: "a \<in> live (store L)" "a \<noteq> NULL" using live_obj [OF assms(1), of a] assms(2) by auto
  obtain L1 where L1: "set_field a (\<lambda>i. i\<lparr>prev_i := last_p L\<rparr>) L = Inr L1"
    "first_p L1 = first_p L" "last_p L1 = last_p L" "heap_of (store L1) = ?hp(a \<mapsto> x\<lparr>prev_i := last_p L\<rparr>)"
    "ainv (store L1)" "live (store L1) = live (store L)"
    by (rule set_field_live [OF assms(1) a(1), of "\<lambda>i. i\<lparr>prev_i := last_p L\<rparr>"]) (use assms(7) in auto)
  show thesis
  proof (cases "as = []")
    case True
    then have "first_p L = NULL" "last_p L = NULL" using assms(5,6) by auto
    with True L1 a assms show thesis
      by (intro that [of "L1\<lparr>last_p := a, first_p := a\<rparr>"])
        (auto simp: insertTail_def list_rep_def contents_def split: option.splits)
  next
    case False
    then have ends: "last_p L = last as" "first_p L = hd as" "last as \<in> set as" "last as \<noteq> a"
      using seg_last_of [OF assms(6)] seg_first [OF assms(5)] assms(3) by auto
    have nz: "first_p L \<noteq> NULL" "last_p L \<noteq> NULL"
      using live_obj [OF assms(1)] assms(2) False ends by auto
    obtain y where y: "?hp (last as) = Some y" using live_obj [OF assms(1), of "last as"] assms(2) ends(3) by auto
    have "last_p L1 \<in> live (store L1)" using L1(3,6) ends assms(2) by simp
    then obtain L2 where L2: "set_field (last_p L1) (\<lambda>i. i\<lparr>next_i := a\<rparr>) L1 = Inr L2"
      "first_p L2 = first_p L" "last_p L2 = last_p L"
      "heap_of (store L2) = ?hp(a \<mapsto> x\<lparr>prev_i := last_p L\<rparr>, last as \<mapsto> y\<lparr>next_i := a\<rparr>)"
      "ainv (store L2)" "live (store L2) = live (store L)"
      by (rule set_field_live [OF L1(5), of "last_p L1" "\<lambda>i. i\<lparr>next_i := a\<rparr>"]) (use L1 ends y in auto)
    have "seg next_i (?hp(a \<mapsto> x\<lparr>prev_i := last_p L\<rparr>)) (first_p L) as NULL" using assms(3,5) by simp
    then have fwd: "seg next_i (heap_of (store L2)) (first_p L) as a"
      unfolding L2(4) by (rule seg_replace_end [OF _ False assms(4)]) simp
    have "seg prev_i (?hp(a \<mapsto> x\<lparr>prev_i := last_p L\<rparr>)) (last_p L) (rev as) NULL" using assms(3,6) by simp
    then have bwd: "seg prev_i (heap_of (store L2)) (last_p L) (rev as) NULL"
      unfolding L2(4) using y ends(4) by (subst seg_same_field) auto
    have data: "contents L2 (as @ [a]) = contents L (as @ [a])"
      by (rule contents_cong) (use L2(4) y assms(7) in auto)
    let ?L = "L2\<lparr>last_p := a\<rparr>"
    have "insertTail a L = Inr ?L" using L1 L2 nz by (simp add: insertTail_def)
    moreover have "list_rep ?L (as @ [a])"
      using L2 fwd bwd ends a assms(2-4,8) by (auto simp: list_rep_def seg_snoc)
    ultimately show thesis using that [of ?L] data by (simp add: contents_def)
  qed
qed

lemma insert_rep:
  assumes "list_rep L as" and "okd d" and "room (store L)"
  obtains a L' where "insert_l A d L = Inr (a, L')" and "a \<notin> set as" and "list_rep L' (as @ [a])"
    and "contents L' (as @ [a]) = contents L as @ [d]"
proof -
  have rep: "ainv (store L)" "live (store L) = set as" "distinct as"
    "seg next_i (heap_of (store L)) (first_p L) as NULL" "seg prev_i (heap_of (store L)) (last_p L) (rev as) NULL"
    using assms(1) by (auto simp: list_rep_def)
  obtain a s where a: "createListItem A d NULL NULL (store L) = Inr (a, s)" "a \<noteq> NULL" "a \<notin> set as"
    "live s = insert a (set as)" "heap_of s = (heap_of (store L))(a \<mapsto> ListItem_init d NULL NULL)" "ainv s"
    using create_law [OF rep(1) assms(2,3)] rep(2) by metis
  obtain L' where L': "insertTail a (L\<lparr>store := s\<rparr>) = Inr L'" "list_rep L' (as @ [a])"
    "contents L' (as @ [a]) = contents (L\<lparr>store := s\<rparr>) (as @ [a])"
    by (rule insertTail_rep [of "L\<lparr>store := s\<rparr>" a as]) (use a rep in \<open>auto simp: ListItem_init_def\<close>)
  moreover have "contents (L\<lparr>store := s\<rparr>) (as @ [a]) = contents L as @ [d]"
    using a(3,5) by (auto simp: contents_def ListItem_init_def)
  ultimately show thesis using that a(1,3) by (simp add: insert_l_def)
qed

lemma set_field_opt:
  assumes "ainv (store L)" and "a \<noteq> NULL \<Longrightarrow> a \<in> live (store L)" and "\<And>i. data_i (f i) = data_i i"
  obtains L' where "(if a \<noteq> NULL then set_field a f L else Inr L) = Inr L'"
    and "first_p L' = first_p L" and "last_p L' = last_p L"
    and "heap_of (store L') = (if a = NULL then heap_of (store L) else (heap_of (store L))(a \<mapsto> f (the (heap_of (store L) a))))"
    and "ainv (store L')" and "live (store L') = live (store L)"
proof (cases "a = NULL")
  case True
  then show thesis using that [of L] assms(1) by simp
next
  case False
  show thesis by (rule set_field_live [OF assms(1) assms(2) [OF False] assms(3)]) (use that False in auto)
qed

lemma removeFromList_rep:
  assumes "list_rep L (xs @ p # ys)"
  obtains L' where "removeFromList p L = Inr L'" and "ainv (store L')" and "live (store L') = set (xs @ p # ys)"
    and "seg next_i (heap_of (store L')) (first_p L') (xs @ ys) NULL"
    and "seg prev_i (heap_of (store L')) (last_p L') (rev (xs @ ys)) NULL"
    and "contents L' (xs @ ys) = contents L (xs @ ys)"
proof -
  let ?hp = "heap_of (store L)"
  have rep: "ainv (store L)" "live (store L) = set (xs @ p # ys)" "distinct (xs @ p # ys)"
    "seg next_i ?hp (first_p L) (xs @ p # ys) NULL" "seg prev_i ?hp (last_p L) (rev ys @ p # rev xs) NULL"
    using assms by (auto simp: list_rep_def)
  have live: "a \<noteq> NULL" "?hp a \<noteq> None" if "a \<in> set (xs @ p # ys)" for a using live_obj [OF rep(1)] rep(2) that by auto
  obtain x where x: "p \<noteq> NULL" "?hp p = Some x" using live [of p] by auto
  define nx where "nx = (if ys = [] then NULL else hd ys)"
  define pv where "pv = (if xs = [] then NULL else last xs)"
  have links: "next_i x = nx" "prev_i x = pv"
    using seg_next_of [OF rep(4) x(2)] seg_next_of [OF rep(5) x(2)] by (simp_all add: hd_rev nx_def pv_def)
  have ends: "p = first_p L \<longleftrightarrow> xs = []" "p = last_p L \<longleftrightarrow> ys = []"
    using seg_first [OF rep(4)] seg_first [OF rep(5)] rep(3) by (cases xs; cases ys rule: rev_cases; auto)+
  have nz: "nx = NULL \<longleftrightarrow> ys = []" "pv = NULL \<longleftrightarrow> xs = []" using live by (auto simp: nx_def pv_def)
  have apart: "hd ys \<noteq> last xs" if "xs \<noteq> []" "ys \<noteq> []"
  proof -
    have "hd ys \<notin> set xs" using hd_in_set [OF that(2)] rep(3) by auto
    then show ?thesis using last_in_set [OF that(1)] by metis
  qed
  have neq: "nx = NULL \<or> nx \<noteq> p \<and> nx \<noteq> pv" "pv \<noteq> p"
    using rep(3) x(1) nz apart hd_in_set [of ys] last_in_set [of xs] by (auto simp: nx_def pv_def)
  define L0 where "L0 = L\<lparr>first_p := if xs = [] then nx else first_p L, last_p := if ys = [] then pv else last_p L\<rparr>"
  have in_live: "nx \<noteq> NULL \<Longrightarrow> nx \<in> live (store L0)" "pv \<noteq> NULL \<Longrightarrow> pv \<in> live (store L0)"
    using rep(2) by (auto simp: L0_def nx_def pv_def)
  obtain L1 where L1: "(if nx \<noteq> NULL then set_field nx (\<lambda>i. i\<lparr>prev_i := pv\<rparr>) L0 else Inr L0) = Inr L1"
    "first_p L1 = first_p L0" "last_p L1 = last_p L0"
    "heap_of (store L1) = (if nx = NULL then ?hp else ?hp(nx \<mapsto> (the (?hp nx))\<lparr>prev_i := pv\<rparr>))"
    "ainv (store L1)" "live (store L1) = live (store L)"
    by (rule set_field_opt [of L0 nx "\<lambda>i. i\<lparr>prev_i := pv\<rparr>"]) (use in_live(1) rep(1) in \<open>auto simp: L0_def\<close>)
  let ?hp1 = "heap_of (store L1)"
  obtain L2 where L2: "(if pv \<noteq> NULL then set_field pv (\<lambda>i. i\<lparr>next_i := nx\<rparr>) L1 else Inr L1) = Inr L2"
    "first_p L2 = first_p L0" "last_p L2 = last_p L0"
    "heap_of (store L2) = (if pv = NULL then ?hp1 else ?hp1(pv \<mapsto> (the (?hp1 pv))\<lparr>next_i := nx\<rparr>))"
    "ainv (store L2)" "live (store L2) = live (store L)"
    by (rule set_field_opt [of L1 pv "\<lambda>i. i\<lparr>next_i := nx\<rparr>"]) (use in_live(2) L1 in \<open>auto simp: L0_def\<close>)
  have "removeFromList p L = bind_res (if nx \<noteq> NULL then set_field nx (\<lambda>i. i\<lparr>prev_i := pv\<rparr>) L0 else Inr L0)
      (\<lambda>L. if pv \<noteq> NULL then set_field pv (\<lambda>i. i\<lparr>next_i := nx\<rparr>) L else Inr L)"
    unfolding removeFromList_def using x links ends by (simp add: Let_def L0_def cong: if_cong)
  then have "removeFromList p L = Inr L2" using L1(1) L2(1) by simp
  moreover have "seg next_i (heap_of (store L2)) (first_p L2) (xs @ ys) NULL"
  proof -
    have "?hp1 p = Some x" using L1(4) neq x(2) by auto
    moreover have "seg next_i ?hp1 (first_p L) (xs @ p # ys) NULL"
      using rep(4) live [of nx] nz(1) by (auto simp: L1(4) nx_def seg_same_field)
    ultimately show ?thesis
      using seg_skip [of next_i ?hp1 "first_p L" xs p ys x "(the (?hp1 pv))\<lparr>next_i := nx\<rparr>"] rep(3) links nz(2)
      by (auto simp: L2 L0_def pv_def)
  qed
  moreover have "seg prev_i (heap_of (store L2)) (last_p L2) (rev (xs @ ys)) NULL"
  proof -
    have "seg prev_i ?hp1 (last_p L2) (rev (xs @ ys)) NULL"
      using seg_skip [of prev_i ?hp "last_p L" "rev ys" p "rev xs" x "(the (?hp nx))\<lparr>prev_i := pv\<rparr>"] rep(3,5) x(2) links nz(1)
      by (auto simp: L2(3) L1(4) L0_def nx_def last_rev Int_commute)
    moreover have "pv \<noteq> NULL \<Longrightarrow> ?hp1 pv \<noteq> None" using live [of pv] L1(4) by (auto simp: pv_def)
    ultimately show ?thesis by (auto simp: L2(4) seg_same_field)
  qed
  moreover have "contents L2 (xs @ ys) = contents L (xs @ ys)"
    by (rule contents_cong) (auto simp: L2(4) L1(4))
  ultimately show thesis using that [of L2] L2(5,6) rep(2) by simp
qed

lemma dealloc_rep:
  assumes "ainv (store L)" and "live (store L) = insert p (set as)" and "p \<notin> set as" and "distinct as"
    and "seg next_i (heap_of (store L)) (first_p L) as NULL" and "seg prev_i (heap_of (store L)) (last_p L) (rev as) NULL"
  obtains L' where "dealloc A p L = Inr L'" and "list_rep L' as" and "contents L' as = contents L as"
    and "first_p L' = first_p L" and "last_p L' = last_p L"
proof -
  obtain s where s: "deleteListItem A p (store L) = Inr s" "live s = set as"
    "\<And>b. b \<noteq> p \<Longrightarrow> heap_of s b = heap_of (store L) b" "ainv s"
    using delete_law [OF assms(1), of p] assms(2,3) by auto
  have same: "heap_of s b = heap_of (store L) b" if "b \<in> set as" for b using s(3) assms(3) that by metis
  have "seg next_i (heap_of s) (first_p L) as NULL" "seg prev_i (heap_of s) (last_p L) (rev as) NULL"
    using assms(5,6) same by (subst seg_cong; simp)+
  with s same assms(4) show thesis
    by (intro that [of "L\<lparr>store := s\<rparr>"]) (simp_all add: dealloc_def list_rep_def contents_def)
qed

lemma remove_item_rep:
  assumes "list_rep L (xs @ p # ys)"
  obtains L' L1 where "removeFromList p L = Inr L1" and "dealloc A p L1 = Inr L'" and "list_rep L' (xs @ ys)"
    and "contents L' (xs @ ys) = contents L (xs @ ys)"
proof -
  obtain L1 where L1: "removeFromList p L = Inr L1" "ainv (store L1)" "live (store L1) = set (xs @ p # ys)"
    "seg next_i (heap_of (store L1)) (first_p L1) (xs @ ys) NULL"
    "seg prev_i (heap_of (store L1)) (last_p L1) (rev (xs @ ys)) NULL" "contents L1 (xs @ ys) = contents L (xs @ ys)"
    by (rule removeFromList_rep [OF assms])
  have d: "p \<notin> set (xs @ ys)" "distinct (xs @ ys)" using assms by (auto simp: list_rep_def)
  obtain L' where "dealloc A p L1 = Inr L'" "list_rep L' (xs @ ys)" "contents L' (xs @ ys) = contents L1 (xs @ ys)"
    by (rule dealloc_rep [OF L1(2) _ d L1(4,5)]) (use L1(3) in auto)
  with that L1 show thesis by simp
qed

lemma list_rep_NULL: "list_rep L as \<Longrightarrow> NULL \<notin> set as"
  using live_obj by (auto simp: list_rep_def)

lemma get_rep:
  assumes "list_rep L as" and "length as < k"
  shows "get_l k d L = Inr (case find (\<lambda>a. data_i (the (heap_of (store L) a)) = d) as of None \<Rightarrow> NULL | Some a \<Rightarrow> a)"
proof -
  have "seg next_i hp p as NULL \<Longrightarrow> length as < k \<Longrightarrow>
      get_loop k hp d p = Inr (case find (\<lambda>a. data_i (the (hp a)) = d) as of None \<Rightarrow> NULL | Some a \<Rightarrow> a)" for hp p
  proof (induction as arbitrary: k p)
    case Nil
    then show ?case by (cases k) auto
  next
    case (Cons a as)
    then show ?case by (cases k) (auto split: option.splits)
  qed
  with assms show ?thesis by (simp add: get_l_def list_rep_def)
qed

lemma find_contents:
  assumes "d \<in> set (contents L as)"
  obtains xs p ys where "find (\<lambda>a. data_i (the (heap_of (store L) a)) = d) as = Some p" and "as = xs @ p # ys"
    and "data_i (the (heap_of (store L) p)) = d" and "d \<notin> set (contents L xs)"
proof -
  obtain xs p ys where s: "as = xs @ p # ys" "data_i (the (heap_of (store L) p)) = d"
    "\<forall>a\<in>set xs. data_i (the (heap_of (store L) a)) \<noteq> d"
    using assms split_list_first_prop [of as "\<lambda>a. data_i (the (heap_of (store L) a)) = d"]
    by (auto simp: contents_def)
  moreover from this have "find (\<lambda>a. data_i (the (heap_of (store L) a)) = d) as = Some p"
    by (simp add: find_append find_None_iff_set [THEN iffD2])
  moreover have "d \<notin> set (contents L xs)" using s(3) by (auto simp: contents_def)
  ultimately show thesis using that by simp
qed

lemma get_absent: "list_rep L as \<Longrightarrow> length as < k \<Longrightarrow> d \<notin> set (contents L as) \<Longrightarrow> get_l k d L = Inr NULL"
  using get_rep [of L as k d] find_None_iff_set [of "\<lambda>a. data_i (the (heap_of (store L) a)) = d" as]
  by (auto simp: contents_def)

lemma remove_rep:
  assumes "list_rep L as" and "length as < k" and "d \<in> set (contents L as)"
  obtains as' L' where "remove_l k A d L = Inr L'" and "list_rep L' as'" and "contents L' as' = remove1 d (contents L as)"
proof -
  obtain xs p ys where f: "find (\<lambda>a. data_i (the (heap_of (store L) a)) = d) as = Some p" "as = xs @ p # ys"
    "data_i (the (heap_of (store L) p)) = d" "d \<notin> set (contents L xs)"
    by (rule find_contents [OF assms(3)])
  obtain L1 L' where L: "removeFromList p L = Inr L1" "dealloc A p L1 = Inr L'" "list_rep L' (xs @ ys)"
    "contents L' (xs @ ys) = contents L (xs @ ys)"
    using remove_item_rep assms(1) f(2) by metis
  have "remove_l k A d L = Inr L'"
    using get_rep [OF assms(1,2), of d] f(1) L(1,2) by (simp add: remove_l_def findAndRemoveFromList_def)
  moreover have "contents L (xs @ ys) = remove1 d (contents L as)"
    using f(2-4) by (simp add: contents_def remove1_append)
  ultimately show thesis using that L(3,4) by simp
qed

lemma contains_rep:
  assumes "list_rep L as" and "length as < k"
  shows "contains_l k d L = Inr (if d \<in> set (contents L as) then 1 else 0)"
proof (cases "d \<in> set (contents L as)")
  case True
  obtain xs p ys where f: "find (\<lambda>a. data_i (the (heap_of (store L) a)) = d) as = Some p" "as = xs @ p # ys"
    by (rule find_contents [OF True])
  then have "p \<noteq> NULL" using list_rep_NULL [OF assms(1)] by auto
  with f True get_rep [OF assms, of d] show ?thesis by (simp add: contains_l_def)
next
  case False
  then show ?thesis using get_absent [OF assms] by (simp add: contains_l_def)
qed

lemma size_rep:
  assumes "list_rep L as" and "length as < k"
  shows "size_l k L = Inr (int (length as))"
proof -
  have "seg next_i hp p as NULL \<Longrightarrow> length as < k \<Longrightarrow> size_loop k hp p c = Inr (c + int (length as))" for hp p c
  proof (induction as arbitrary: k p c)
    case Nil
    then show ?case by (cases k) auto
  next
    case (Cons a as)
    then show ?case by (cases k) (auto split: option.splits)
  qed
  with assms show ?thesis by (simp add: size_l_def list_rep_def)
qed

text \<open>The destructor frees every item once.\<close>

lemma deleteAll_rep:
  assumes "ainv (store L)" and "live (store L) = set as" and "distinct as"
    and "seg next_i (heap_of (store L)) p as NULL" and "length as < k"
  shows "\<exists>L'. deleteAll k A p L = Inr L' \<and> ainv (store L') \<and> live (store L') = {}"
  using assms
proof (induction as arbitrary: k p L)
  case Nil
  then show ?case by (cases k) auto
next
  case (Cons a as)
  then obtain x k' where x: "heap_of (store L) a = Some x" "a \<noteq> NULL" "p = a" "k = Suc k'"
    "seg next_i (heap_of (store L)) (next_i x) as NULL"
    by (cases k) (auto split: option.splits)
  obtain s where s: "deleteListItem A a (store L) = Inr s" "live s = set as"
    "\<And>b. b \<noteq> a \<Longrightarrow> heap_of s b = heap_of (store L) b" "ainv s"
    using delete_law [OF Cons.prems(1), of a] Cons.prems(2,3) by auto
  have "seg next_i (heap_of s) (next_i x) as NULL"
    using x(5) Cons.prems(3) by (subst seg_cong) (auto intro: s(3))
  then have "\<exists>L'. deleteAll k' A (next_i x) (L\<lparr>store := s\<rparr>) = Inr L' \<and> ainv (store L') \<and> live (store L') = {}"
    using s Cons.prems(3,5) x(4) by (intro Cons.IH) simp_all
  then show ?case using x s(1) by (simp add: dealloc_def)
qed

lemma List_delete_rep:
  assumes "list_rep L as" and "length as < k"
  shows "\<exists>L'. List_delete k A L = Inr L' \<and> first_p L' = NULL \<and> last_p L' = NULL \<and> live (store L') = {}"
  using deleteAll_rep [of L as "first_p L" k] assms by (auto simp: List_delete_def list_rep_def)

lemma List_init_rep: "ainv s \<Longrightarrow> live s = {} \<Longrightarrow> list_rep (List_init s) []"
  by (simp add: list_rep_def List_init_def)

end

section \<open>The allocators\<close>

lemma free_item_eq:
  "a \<noteq> NULL \<Longrightarrow> heap_of s a \<noteq> None \<Longrightarrow> free_item a s = Inr (s\<lparr>heap_of := (heap_of s)(a := None)\<rparr>)"
  by (auto simp: free_item_def)

definition new_inv :: "memory \<Rightarrow> bool" where
  "new_inv s \<longleftrightarrow> finite (dom (heap_of s)) \<and> NULL \<notin> dom (heap_of s)"

locale list_new = heap_allocator alloc for alloc :: "ListItem heap \<Rightarrow> addr"

sublocale list_new \<subseteq> default: list_allocator "DefaultAllocator alloc" new_inv "\<lambda>s. dom (heap_of s)" "\<lambda>_. True" "\<lambda>_. True"
proof
  fix s a
  assume s: "new_inv s"
  show "a \<noteq> NULL \<and> heap_of s a \<noteq> None" if "a \<in> dom (heap_of s)"
    using that s by (auto simp: new_inv_def intro: gr0I)
  then show "\<exists>s'. deleteListItem (DefaultAllocator alloc) a s = Inr s' \<and> dom (heap_of s') = dom (heap_of s) - {a} \<and>
      (\<forall>b. b \<noteq> a \<longrightarrow> heap_of s' b = heap_of s b) \<and> new_inv s'" if "a \<in> dom (heap_of s)"
    using that s free_item_eq [of a s] by (auto simp: DefaultAllocator_def new_inv_def)
  show "\<exists>a s'. createListItem (DefaultAllocator alloc) d p n s = Inr (a, s') \<and> a \<noteq> NULL \<and> a \<notin> dom (heap_of s) \<and>
      dom (heap_of s') = insert a (dom (heap_of s)) \<and> heap_of s' = (heap_of s)(a \<mapsto> ListItem_init d p n) \<and> new_inv s'" for d p n
    using alloc_fresh [of "heap_of s"] s by (auto simp: DefaultAllocator_def new_inv_def fresh_def Let_def)
  show "new_inv (s\<lparr>heap_of := (heap_of s)(a \<mapsto> x)\<rparr>) \<and> dom (heap_of (s\<lparr>heap_of := (heap_of s)(a \<mapsto> x)\<rparr>)) = dom (heap_of s)"
    if "a \<in> dom (heap_of s)" for x using that s by (auto simp: new_inv_def)
qed

sublocale list_new \<subseteq> aligned: list_allocator "AlignedAllocator alloc" new_inv "\<lambda>s. dom (heap_of s)" "\<lambda>_. True" "\<lambda>_. True"
proof
  fix s :: memory and d p n
  assume s: "new_inv s"
  show "\<exists>a s'. createListItem (AlignedAllocator alloc) d p n s = Inr (a, s') \<and> a \<noteq> NULL \<and> a \<notin> dom (heap_of s) \<and>
      dom (heap_of s') = insert a (dom (heap_of s)) \<and> heap_of s' = (heap_of s)(a \<mapsto> ListItem_init d p n) \<and> new_inv s'"
    using alloc_fresh [of "heap_of s"] s by (auto simp: AlignedAllocator_def new_inv_def fresh_def Let_def)
qed (use default.live_obj default.delete_law default.link_law in
    \<open>auto simp: AlignedAllocator_def DefaultAllocator_def\<close>)

text \<open>A pre-allocated slot is free if it holds \<open>-1\<close>.\<close>

definition slots :: "addr set" where "slots = {1..nat allocations_size}"

definition pre_live :: "memory \<Rightarrow> addr set" where
  "pre_live s = {a \<in> dom (heap_of s). data_i (the (heap_of s a)) \<noteq> - 1}"

definition pre_inv :: "memory \<Rightarrow> bool" where
  "pre_inv s \<longleftrightarrow> dom (heap_of s) = slots \<and> - 1 \<le> last_allocation_slot s \<and> last_allocation_slot s < allocations_size"

definition pre_room :: "memory \<Rightarrow> bool" where
  "pre_room s \<longleftrightarrow> pre_live s \<noteq> slots"

lemma size_pos: "0 < allocations_size"
  by (simp add: allocations_size_def)

definition slot_at :: "memory \<Rightarrow> nat \<Rightarrow> int" where
  "slot_at s i = (last_allocation_slot s + 1 + int i) mod allocations_size"

lemma slot_at_range: "0 \<le> slot_at s i" "slot_at s i < allocations_size"
  using size_pos by (simp_all add: slot_at_def)

lemma slot_addr_slots: "0 \<le> i \<Longrightarrow> i < allocations_size \<Longrightarrow> slot_addr i \<in> slots \<and> slot_addr i \<noteq> NULL"
  by (auto simp: slot_addr_def slots_def)

lemma slots_slot_addr: "a \<in> slots \<Longrightarrow> \<exists>i. 0 \<le> i \<and> i < allocations_size \<and> a = slot_addr i"
  by (intro exI [of _ "int a - 1"]) (auto simp: slot_addr_def slots_def)

lemma smod_nonneg: "0 \<le> x \<Longrightarrow> 0 < m \<Longrightarrow> x smod m = x mod m" for x m :: int
  by (cases "x = 0") (simp_all add: smod_int_alt_def)

lemma first_slot: "pre_inv s \<Longrightarrow> (last_allocation_slot s + 1) smod allocations_size = slot_at s 0"
  using size_pos by (simp add: slot_at_def smod_nonneg pre_inv_def)

lemma pre_inv_slot: "pre_inv s \<Longrightarrow> \<exists>x. heap_of s (slot_addr (slot_at s i)) = Some x \<and> slot_addr (slot_at s i) \<noteq> NULL"
  using slot_addr_slots [OF slot_at_range, of s i] by (auto simp: pre_inv_def)

lemma slot_at_next: "slot_at (s\<lparr>last_allocation_slot := slot_at s 0\<rparr>) i = slot_at s (Suc i)"
proof -
  have "(((last_allocation_slot s + 1) mod allocations_size + 1 + int i) mod allocations_size) =
      (last_allocation_slot s + 1 + 1 + int i) mod allocations_size"
    by (simp add: mod_simps add.assoc)
  then show ?thesis by (simp add: slot_at_def add_ac)
qed

lemma pre_create_finds:
  assumes "pre_inv s" and "slot_addr (slot_at s j) \<notin> pre_live s" and "\<And>i. i < j \<Longrightarrow> slot_addr (slot_at s i) \<in> pre_live s"
    and "\<And>i. i < j \<Longrightarrow> slot_at s i \<noteq> b" and "j < k"
  shows "pre_create k b d p n s =
    Inr (slot_addr (slot_at s j), s\<lparr>last_allocation_slot := slot_at s j,
      heap_of := (heap_of s)(slot_addr (slot_at s j) \<mapsto> ListItem_init d p n)\<rparr>)"
  using assms
proof (induction j arbitrary: s k)
  case 0
  then obtain x k' where x: "heap_of s (slot_addr (slot_at s 0)) = Some x" "slot_addr (slot_at s 0) \<noteq> NULL" "k = Suc k'"
    using pre_inv_slot [of s 0] by (cases k) auto
  moreover have "data_i x = - 1" using 0(2) x(1) by (auto simp: pre_live_def)
  ultimately show ?case using first_slot [OF 0(1)] by (simp add: Let_def fun_upd_def)
next
  case (Suc j)
  obtain x k' where x: "heap_of s (slot_addr (slot_at s 0)) = Some x" "slot_addr (slot_at s 0) \<noteq> NULL" "k = Suc k'"
    using pre_inv_slot [OF Suc.prems(1), of 0] Suc.prems(5) by (cases k) auto
  have busy: "data_i x \<noteq> - 1" using Suc.prems(3) [of 0] x(1) by (auto simp: pre_live_def)
  let ?s = "s\<lparr>last_allocation_slot := slot_at s 0\<rparr>"
  have inv: "pre_inv ?s" using Suc.prems(1) slot_at_range [of s 0] by (simp add: pre_inv_def)
  have live: "pre_live ?s = pre_live s" by (simp add: pre_live_def)
  have "pre_create k' b d p n ?s =
      Inr (slot_addr (slot_at ?s j), ?s\<lparr>last_allocation_slot := slot_at ?s j,
        heap_of := (heap_of ?s)(slot_addr (slot_at ?s j) \<mapsto> ListItem_init d p n)\<rparr>)"
    using Suc.prems inv x(3) by (intro Suc.IH) (simp_all add: slot_at_next live)
  moreover have "slot_at s 0 \<noteq> b" using Suc.prems(4) by simp
  ultimately show ?case using x busy first_slot [OF Suc.prems(1)] by (simp add: Let_def slot_at_next fun_upd_def)
qed

lemma slot_at_distinct:
  assumes "i < j" and "j < nat allocations_size"
  shows "slot_at s i \<noteq> slot_at s j"
proof
  assume "slot_at s i = slot_at s j"
  then have "allocations_size dvd int j - int i" by (simp add: slot_at_def mod_eq_dvd_iff algebra_simps dvd_diff_commute)
  with assms size_pos show False by (auto dest: zdvd_imp_le)
qed

lemma first_free_slot:
  assumes "pre_inv s" and "pre_room s"
  obtains j where "j < nat allocations_size" and "slot_addr (slot_at s j) \<notin> pre_live s"
    and "\<And>i. i < j \<Longrightarrow> slot_addr (slot_at s i) \<in> pre_live s"
proof -
  have "pre_live s \<subseteq> slots" using assms(1) by (auto simp: pre_live_def pre_inv_def)
  then obtain f where f: "0 \<le> f" "f < allocations_size" "slot_addr f \<notin> pre_live s"
    using assms(2) slots_slot_addr unfolding pre_room_def by blast
  define m where "m = nat ((f - last_allocation_slot s - 1) mod allocations_size)"
  have "slot_at s m = f" using f(1,2) size_pos by (simp add: slot_at_def m_def mod_simps)
  then have m: "slot_addr (slot_at s m) \<notin> pre_live s" using f(3) by simp
  define j where "j = (LEAST i. slot_addr (slot_at s i) \<notin> pre_live s)"
  have "j \<le> m" "slot_addr (slot_at s j) \<notin> pre_live s" "\<And>i. i < j \<Longrightarrow> slot_addr (slot_at s i) \<in> pre_live s"
    using Least_le [of "\<lambda>i. slot_addr (slot_at s i) \<notin> pre_live s", OF m]
      LeastI [of "\<lambda>i. slot_addr (slot_at s i) \<notin> pre_live s", OF m] not_less_Least unfolding j_def by blast+
  moreover have "m < nat allocations_size" using size_pos by (simp add: m_def nat_less_iff)
  ultimately show thesis using that by (meson le_less_trans)
qed

text \<open>The loop comes back to the slot it started from only after all others.\<close>

lemma begin_slot:
  assumes "pre_inv s" and "i < j" and "j < nat allocations_size"
  shows "slot_at s i \<noteq> last_allocation_slot s"
proof (cases "last_allocation_slot s = - 1")
  case True
  then show ?thesis using slot_at_range [of s i] by simp
next
  case False
  let ?last = "nat allocations_size - 1"
  have "slot_at s ?last = last_allocation_slot s"
  proof -
    have "int ?last = allocations_size - 1" using size_pos by linarith
    then have "slot_at s ?last = (last_allocation_slot s + allocations_size) mod allocations_size"
      by (simp add: slot_at_def)
    also have "\<dots> = last_allocation_slot s" using assms(1) False by (simp add: pre_inv_def)
    finally show ?thesis .
  qed
  moreover have "slot_at s i \<noteq> slot_at s ?last" using assms by (intro slot_at_distinct) auto
  ultimately show ?thesis by simp
qed

interpretation pre: list_allocator PreAllocator pre_inv pre_live "\<lambda>d. d \<noteq> - 1" pre_room
proof
  fix s
  assume s: "pre_inv s"
  show obj: "a \<noteq> NULL \<and> heap_of s a \<noteq> None" if "a \<in> pre_live s" for a
    using that s by (auto simp: pre_live_def pre_inv_def slots_def)
  show "\<exists>a s'. createListItem PreAllocator d p n s = Inr (a, s') \<and> a \<noteq> NULL \<and> a \<notin> pre_live s \<and>
      pre_live s' = insert a (pre_live s) \<and> heap_of s' = (heap_of s)(a \<mapsto> ListItem_init d p n) \<and> pre_inv s'"
    if d: "d \<noteq> - 1" and room: "pre_room s" for d p n
  proof -
    obtain j where j: "j < nat allocations_size" "slot_addr (slot_at s j) \<notin> pre_live s"
      "\<And>i. i < j \<Longrightarrow> slot_addr (slot_at s i) \<in> pre_live s"
      using first_free_slot [OF s room] by blast
    let ?a = "slot_addr (slot_at s j)"
    let ?s = "s\<lparr>last_allocation_slot := slot_at s j, heap_of := (heap_of s)(?a \<mapsto> ListItem_init d p n)\<rparr>"
    have "createListItem PreAllocator d p n s = Inr (?a, ?s)"
      using pre_create_finds [OF s j(2,3) _ j(1)] begin_slot [OF s _ j(1)] by (simp add: PreAllocator_def)
    moreover have "?a \<in> slots \<and> ?a \<noteq> NULL" using slot_addr_slots slot_at_range by blast
    moreover have "pre_live ?s = insert ?a (pre_live s)" using d by (auto simp: pre_live_def ListItem_init_def)
    moreover have "pre_inv ?s" using s slot_at_range [of s j] calculation(2) by (auto simp: pre_inv_def)
    ultimately show ?thesis using j(2) by simp
  qed
  show "\<exists>s'. deleteListItem PreAllocator a s = Inr s' \<and> pre_live s' = pre_live s - {a} \<and>
      (\<forall>b. b \<noteq> a \<longrightarrow> heap_of s' b = heap_of s b) \<and> pre_inv s'" if "a \<in> pre_live s" for a
    using obj [OF that] that s by (auto simp: PreAllocator_def put_def pre_live_def pre_inv_def)
  show "pre_inv (s\<lparr>heap_of := (heap_of s)(a \<mapsto> x)\<rparr>) \<and> pre_live (s\<lparr>heap_of := (heap_of s)(a \<mapsto> x)\<rparr>) = pre_live s"
    if "a \<in> pre_live s" "data_i x = data_i (the (heap_of s a))" for a x
    using that s by (auto simp: pre_live_def pre_inv_def)
qed

end
