(* ===== verification/HleListBench.thy ===== *)
theory HleListBench
  imports HleList
begin

text \<open>
  The list benchmark: the base inserts of the main programs (\<open>hle/list/probabilities.cpp\<close>,
  \<open>repeats.cpp\<close>), which distribute the values to the queues of the threads, and the rounds of the
  threads (\<open>TimeCmp::run\<close>, \<open>run_infinite\<close>) in any interleaving.  An insert is two steps, the allocation
  outside of the lock of the list and \<open>insertTail\<close> under it; a remove is two steps, the search and unlinking
  under the lock and the release of the item outside of it; \<open>contains\<close> is one step under the lock.  What a
  step does under the lock (or in a transaction) is at once.  A thread's queue is its own, so its pushes and pops
  belong to the step under the lock.  The programs use the default and the aligned allocator, whose
  \<open>new\<close> and \<open>delete\<close> may be called by several threads; \<open>PreAllocator\<close> is not used by them, and
  its search for a slot could not be interrupted as here.
\<close>

section \<open>Interleaved threads\<close>

text \<open>
  Between two steps, a thread is before its next round, has created an item (to be pushed to the queue that
  the second field gives), or has unlinked one.
\<close>

datatype bench_pc = B_next | B_created addr "int list" | B_removed addr

record bench =
  b_list :: List
  b_pcs :: "nat \<Rightarrow> bench_pc"
  b_queues :: "nat \<Rightarrow> int list"

definition bench_put :: "nat \<Rightarrow> bench_pc \<Rightarrow> int list \<Rightarrow> bench \<Rightarrow> List \<Rightarrow> bench" where
  "bench_put t pc q b L = \<lparr>b_list = L, b_pcs = (b_pcs b)(t := pc), b_queues = (b_queues b)(t := q)\<rparr>"

text \<open>A step of thread \<open>t\<close>, with the two numbers it draws if it begins a round.\<close>

definition bench_step :: "nat \<Rightarrow> Allocator \<Rightarrow> int \<Rightarrow> int \<Rightarrow> nat \<times> int \<times> int \<Rightarrow> bench \<Rightarrow> fault + bench" where
  "bench_step k A pi pr = (\<lambda>(t, d) b.
     let L = b_list b; queue = b_queues b t
     in case b_pcs b t of
          B_next \<Rightarrow>
            (case run_round pi pr d queue of
               (Insert v, q) \<Rightarrow>
                 bind_res (createListItem A v NULL NULL (store L)) (\<lambda>(a, s).
                   Inr (bench_put t (B_created a q) queue b (L\<lparr>store := s\<rparr>)))
             | (Remove v, q) \<Rightarrow>
                 bind_res (findAndRemoveFromList k v L) (\<lambda>(a, L). Inr (bench_put t (B_removed a) q b L))
             | (Contains v, q) \<Rightarrow> bind_res (contains_l k v L) (\<lambda>_. Inr (bench_put t B_next q b L)))
        | B_created a q \<Rightarrow> bind_res (insertTail a L) (\<lambda>L. Inr (bench_put t B_next q b L))
        | B_removed a \<Rightarrow> bind_res (dealloc A a L) (\<lambda>L. Inr (bench_put t B_next queue b L)))"

fun bench_run :: "nat \<Rightarrow> Allocator \<Rightarrow> int \<Rightarrow> int \<Rightarrow> (nat \<times> int \<times> int) list \<Rightarrow> bench \<Rightarrow> fault + bench" where
  "bench_run k A pi pr [] b = Inr b"
| "bench_run k A pi pr (x # sched) b = bind_res (bench_step k A pi pr x b) (bench_run k A pi pr sched)"

text \<open>The base values are inserted before the threads start, and go to the queues in rotation.\<close>

fun base_inserts ::
  "Allocator \<Rightarrow> nat \<Rightarrow> nat \<Rightarrow> int list \<Rightarrow> List \<Rightarrow> (nat \<Rightarrow> int list) \<Rightarrow> fault + List \<times> (nat \<Rightarrow> int list)" where
  "base_inserts A num_threads rotation [] L queues = Inr (L, queues)"
| "base_inserts A num_threads rotation (v # vs) L queues =
     bind_res (insert_l A v L) (\<lambda>(_, L).
       base_inserts A num_threads (Suc rotation) vs L
         (queues(rotation mod num_threads := queues (rotation mod num_threads) @ [v])))"

definition list_bench ::
  "nat \<Rightarrow> Allocator \<Rightarrow> int \<Rightarrow> int \<Rightarrow> nat \<Rightarrow> int list \<Rightarrow> (nat \<times> int \<times> int) list \<Rightarrow> memory \<Rightarrow> fault + bench" where
  "list_bench k A pi pr num_threads base sched s =
     bind_res (base_inserts A num_threads 0 base (List_init s) (\<lambda>_. [])) (\<lambda>(L, queues).
       bench_run k A pi pr sched \<lparr>b_list = L, b_pcs = (\<lambda>_. B_next), b_queues = queues\<rparr>)"

text \<open>The values of a list, read like \<open>List::print\<close> does.\<close>

fun values_loop :: "nat \<Rightarrow> ListItem heap \<Rightarrow> addr \<Rightarrow> fault + int list" where
  "values_loop 0 hp a = Inl OutOfFuel"
| "values_loop (Suc k) hp a =
     (if a = NULL then Inr []
      else bind_res (obj hp a) (\<lambda>i. bind_res (values_loop k hp (next_i i)) (\<lambda>vs. Inr (data_i i # vs))))"

definition list_values :: "nat \<Rightarrow> List \<Rightarrow> fault + int list" where
  "list_values k L = values_loop k (heap_of (store L)) (first_p L)"

section \<open>The list and the queues\<close>

definition queued :: "nat \<Rightarrow> (nat \<Rightarrow> int list) \<Rightarrow> int multiset" where
  "queued num_threads queues = (\<Sum>t<num_threads. mset (queues t))"

lemma queued_update:
  assumes "t < n"
  shows "queued n (queues(t := q)) + mset (queues t) = queued n queues + mset q"
proof -
  have "(\<Sum>u<n. mset ((queues(t := q)) u)) = mset q + (\<Sum>u\<in>{..<n} - {t}. mset (queues u))"
    using assms by (simp add: sum.remove [of "{..<n}" t])
  moreover have "(\<Sum>u<n. mset (queues u)) = mset (queues t) + (\<Sum>u\<in>{..<n} - {t}. mset (queues u))"
    using assms by (simp add: sum.remove [of "{..<n}" t])
  ultimately show ?thesis by (simp add: queued_def)
qed

lemma queue_subset: "t < n \<Longrightarrow> mset (queues t) \<subseteq># queued n queues"
  unfolding queued_def by (simp add: sum.remove [of "{..<n}" t])

lemma run_round_cases:
  "run_round pi pr (d1, d2) queue = (p, q) \<Longrightarrow>
     p = Insert d2 \<and> q = queue @ [d2] \<or> queue \<noteq> [] \<and> p = Remove (hd queue) \<and> q = tl queue \<or>
     p = Contains d2 \<and> q = queue"
  by (simp add: run_round_def split: if_splits)

section \<open>The invariant\<close>

text \<open>The items in flight: a created one is not yet in the list, a removed one not in it any more.\<close>

fun flight :: "bench_pc \<Rightarrow> addr set" where
  "flight B_next = {}"
| "flight (B_created a q) = {a}"
| "flight (B_removed a) = {a}"

definition flights :: "bench \<Rightarrow> addr set" where
  "flights b = (\<Union>t. flight (b_pcs b t))"

definition apart :: "bench \<Rightarrow> bool" where
  "apart b \<longleftrightarrow> (\<forall>t u. t \<noteq> u \<longrightarrow> flight (b_pcs b t) \<inter> flight (b_pcs b u) = {})"

text \<open>A created item is unlinked and holds the value to be pushed to the queue.\<close>

definition created_ok :: "bench \<Rightarrow> nat \<Rightarrow> bool" where
  "created_ok b t \<longleftrightarrow> (\<forall>a q. b_pcs b t = B_created a q \<longrightarrow>
     (\<exists>x. heap_of (store (b_list b)) a = Some x \<and> next_i x = NULL \<and> q = b_queues b t @ [data_i x]))"

lemma flights_put: "apart b \<Longrightarrow> flights (bench_put t pc q b L) = (flights b - flight (b_pcs b t)) \<union> flight pc"
  unfolding flights_def apart_def bench_put_def by (auto split: if_splits) blast

lemma apart_put:
  "apart b \<Longrightarrow> flight pc \<inter> (flights b - flight (b_pcs b t)) = {} \<Longrightarrow> apart (bench_put t pc q b L)"
  unfolding apart_def flights_def bench_put_def by (auto split: if_splits) blast+

lemma flight_in_flights: "flight (b_pcs b t) \<subseteq> flights b"
  by (auto simp: flights_def)

lemma bench_put_simps [simp]:
  "b_list (bench_put t pc q b L) = L" "b_pcs (bench_put t pc q b L) = (b_pcs b)(t := pc)"
  "b_queues (bench_put t pc q b L) = (b_queues b)(t := q)"
  by (simp_all add: bench_put_def)

text \<open>The items of the other threads are not touched by a step of thread \<open>t\<close>.\<close>

lemma created_put:
  assumes "apart b" and "\<And>u. created_ok b u"
    and "\<And>a. a \<in> flights b - flight (b_pcs b t) \<Longrightarrow> heap_of (store L) a = heap_of (store (b_list b)) a"
    and "\<And>a q'. pc = B_created a q' \<Longrightarrow> \<exists>x. heap_of (store L) a = Some x \<and> next_i x = NULL \<and> q' = q @ [data_i x]"
  shows "created_ok (bench_put t pc q b L) u"
proof (cases "u = t")
  case False
  have "a \<in> flights b - flight (b_pcs b t)" if "b_pcs b u = B_created a q'" for a q'
    using that assms(1) False flight_in_flights [of b u] unfolding apart_def by fastforce
  with assms(2) [of u] assms(3) False show ?thesis by (auto simp: created_ok_def)
qed (use assms(4) in \<open>auto simp: created_ok_def\<close>)

context list_allocator
begin

text \<open>For what concerns the list, the items in flight are like those not allocated.\<close>

lemma frozen:
  "list_allocator A (\<lambda>s. ainv s \<and> F \<subseteq> live s \<and> (\<forall>a\<in>F. heap_of s a = H a)) (\<lambda>s. live s - F) okd room"
proof (unfold_locales, goal_cases)
  case (1 s a)
  then show ?case using live_obj by blast
next
  case (2 s d p n)
  then obtain a s' where "createListItem A d p n s = Inr (a, s')" "a \<noteq> NULL" "a \<notin> live s" "live s' = insert a (live s)"
    "heap_of s' = (heap_of s)(a \<mapsto> ListItem_init d p n)" "ainv s'" using create_law by metis
  with 2 show ?case by (intro exI [of _ a] exI [of _ s']) auto
next
  case (3 s a)
  then obtain s' where "deleteListItem A a s = Inr s'" "live s' = live s - {a}" "\<forall>b. b \<noteq> a \<longrightarrow> heap_of s' b = heap_of s b" "ainv s'"
    using delete_law [of s a] by auto
  with 3 show ?case by (intro exI [of _ s']) auto
next
  case (4 s a x)
  with link_law [of s a x] show ?case by auto
qed

definition list_chain :: "addr set \<Rightarrow> List \<Rightarrow> addr list \<Rightarrow> bool" where
  "list_chain F L as \<longleftrightarrow> ainv (store L) \<and> F \<subseteq> live (store L) \<and> live (store L) - F = set as \<and> distinct as \<and>
     seg next_i (heap_of (store L)) (first_p L) as NULL \<and> seg prev_i (heap_of (store L)) (last_p L) (rev as) NULL"

lemma chain_rep:
  "list_chain F L as \<longleftrightarrow>
   list_allocator.list_rep (\<lambda>s. ainv s \<and> F \<subseteq> live s \<and> (\<forall>a\<in>F. heap_of s a = heap_of (store L) a)) (\<lambda>s. live s - F) L as"
  by (auto simp: list_chain_def list_allocator.list_rep_def [OF frozen])

lemma rep_chain:
  "list_allocator.list_rep (\<lambda>s. ainv s \<and> F \<subseteq> live s \<and> (\<forall>a\<in>F. heap_of s a = H a)) (\<lambda>s. live s - F) L as \<Longrightarrow>
   list_chain F L as \<and> (\<forall>a\<in>F. heap_of (store L) a = H a)"
  by (auto simp: list_chain_def list_allocator.list_rep_def [OF frozen])

definition bench_inv :: "nat \<Rightarrow> bench \<Rightarrow> addr list \<Rightarrow> bool" where
  "bench_inv n b as \<longleftrightarrow> list_chain (flights b) (b_list b) as \<and> apart b \<and> (\<forall>t. created_ok b t) \<and>
     mset (contents (b_list b) as) = queued n (b_queues b)"

lemma chain_live: "list_chain F L as \<Longrightarrow> live (store L) = F \<union> set as \<and> F \<inter> set as = {}"
  by (auto simp: list_chain_def)

lemma create_chain:
  assumes "list_chain F L as" and "okd d" and "room (store L)"
  obtains a s where "createListItem A d NULL NULL (store L) = Inr (a, s)"
    and "list_chain (insert a F) (L\<lparr>store := s\<rparr>) as" and "contents (L\<lparr>store := s\<rparr>) as = contents L as" and "a \<notin> F"
    and "heap_of s a = Some (ListItem_init d NULL NULL)" and "\<And>b. b \<in> F \<Longrightarrow> heap_of s b = heap_of (store L) b"
proof -
  have c: "ainv (store L)" "F \<subseteq> live (store L)" "live (store L) - F = set as" using assms(1) by (auto simp: list_chain_def)
  obtain a s where a: "createListItem A d NULL NULL (store L) = Inr (a, s)" "a \<noteq> NULL" "a \<notin> live (store L)"
    "live s = insert a (live (store L))" "heap_of s = (heap_of (store L))(a \<mapsto> ListItem_init d NULL NULL)" "ainv s"
    using create_law [OF c(1) assms(2,3)] by metis
  have out: "a \<notin> set as" "a \<notin> F" using a(3) c(2,3) by auto
  have "live s - insert a F = set as" using c(3) a(3,4) by auto
  with assms(1) a out show thesis
    by (intro that [of a s]) (auto simp: list_chain_def contents_def)
qed

lemma insertTail_chain:
  assumes "list_chain F L as" and "a \<in> F" and "heap_of (store L) a = Some x" and "next_i x = NULL"
  obtains L' where "insertTail a L = Inr L'" and "list_chain (F - {a}) L' (as @ [a])"
    and "contents L' (as @ [a]) = contents L as @ [data_i x]"
    and "\<And>b. b \<in> F - {a} \<Longrightarrow> heap_of (store L') b = heap_of (store L) b"
proof -
  have c: "ainv (store L)" "F \<subseteq> live (store L)" "live (store L) - F = set as" "distinct as"
    "seg next_i (heap_of (store L)) (first_p L) as NULL" "seg prev_i (heap_of (store L)) (last_p L) (rev as) NULL"
    using assms(1) by (simp_all add: list_chain_def)
  obtain L' where L': "insertTail a L = Inr L'"
    "list_allocator.list_rep (\<lambda>s. ainv s \<and> F - {a} \<subseteq> live s \<and> (\<forall>b\<in>F - {a}. heap_of s b = heap_of (store L) b))
       (\<lambda>s. live s - (F - {a})) L' (as @ [a])"
    "contents L' (as @ [a]) = contents L (as @ [a])"
    by (rule list_allocator.insertTail_rep [OF frozen [of "F - {a}" "heap_of (store L)"], of L a as x])
      (use c assms(2-4) in auto)
  have "contents L (as @ [a]) = contents L as @ [data_i x]" using assms(3) by (simp add: contents_def)
  with that L' rep_chain [OF L'(2)] show thesis by auto
qed

lemma dealloc_chain:
  assumes "list_chain F L as" and "a \<in> F"
  obtains L' where "dealloc A a L = Inr L'" and "list_chain (F - {a}) L' as" and "contents L' as = contents L as"
    and "\<And>b. b \<in> F - {a} \<Longrightarrow> heap_of (store L') b = heap_of (store L) b"
proof -
  have c: "ainv (store L)" "F \<subseteq> live (store L)" "live (store L) - F = set as" "distinct as"
    "seg next_i (heap_of (store L)) (first_p L) as NULL" "seg prev_i (heap_of (store L)) (last_p L) (rev as) NULL"
    using assms(1) by (simp_all add: list_chain_def)
  obtain L' where L': "dealloc A a L = Inr L'"
    "list_allocator.list_rep (\<lambda>s. ainv s \<and> F - {a} \<subseteq> live s \<and> (\<forall>b\<in>F - {a}. heap_of s b = heap_of (store L) b))
       (\<lambda>s. live s - (F - {a})) L' as" "contents L' as = contents L as"
    by (rule list_allocator.dealloc_rep [OF frozen [of "F - {a}" "heap_of (store L)"], of L a as])
      (use c assms(2) in auto)
  with that rep_chain [OF L'(2)] show thesis by auto
qed

lemma find_remove_chain:
  assumes "list_chain F L as" and "length as < k" and "d \<in> set (contents L as)"
  obtains a L' bs where "findAndRemoveFromList k d L = Inr (a, L')" and "list_chain (insert a F) L' bs"
    and "mset (contents L' bs) = mset (contents L as) - {#d#}" and "a \<notin> F" and "length bs \<le> length as"
    and "\<And>b. b \<in> F \<Longrightarrow> heap_of (store L') b = heap_of (store L) b"
proof -
  let ?H = "heap_of (store L)"
  note rep = assms(1) [unfolded chain_rep] and frz = frozen [of F ?H]
  obtain xs p ys where f: "find (\<lambda>a. data_i (the (?H a)) = d) as = Some p" "as = xs @ p # ys" "data_i (the (?H p)) = d"
    using find_contents [OF assms(3)] by metis
  obtain L' where L': "removeFromList p L = Inr L'" "ainv (store L')" "F \<subseteq> live (store L')"
    "\<And>b. b \<in> F \<Longrightarrow> heap_of (store L') b = ?H b" "live (store L') - F = set (xs @ p # ys)"
    "seg next_i (heap_of (store L')) (first_p L') (xs @ ys) NULL"
    "seg prev_i (heap_of (store L')) (last_p L') (rev (xs @ ys)) NULL" "contents L' (xs @ ys) = contents L (xs @ ys)"
    by (rule list_allocator.removeFromList_rep [OF frz rep [unfolded f(2)]]) auto
  have dist: "distinct (xs @ p # ys)" using assms(1) by (simp add: list_chain_def f(2))
  have "get_l k d L = Inr p" using list_allocator.get_rep [OF frz rep assms(2), of d] f(1) by simp
  then have "findAndRemoveFromList k d L = Inr (p, L')" using L'(1) by (simp add: findAndRemoveFromList_def)
  moreover have "list_chain (insert p F) L' (xs @ ys)" using L'(2,3,5-7) dist by (auto simp: list_chain_def)
  moreover have "mset (contents L as) = add_mset d (mset (contents L (xs @ ys)))"
    using f(2,3) by (simp add: contents_def)
  ultimately show thesis using that [of p L' "xs @ ys"] L'(4,5,8) f(2) by auto
qed

lemma contains_chain: "list_chain F L as \<Longrightarrow> length as < k \<Longrightarrow> \<exists>r. contains_l k d L = Inr r"
  unfolding chain_rep by (blast dest: list_allocator.contains_rep [OF frozen])

lemma size_chain: "list_chain F L as \<Longrightarrow> length as < k \<Longrightarrow> size_l k L = Inr (int (length as))"
  unfolding chain_rep by (rule list_allocator.size_rep [OF frozen])

lemma values_chain:
  assumes "list_chain F L as" and "length as < k"
  shows "list_values k L = Inr (contents L as)"
proof -
  have "seg next_i hp p as NULL \<Longrightarrow> length as < k \<Longrightarrow> values_loop k hp p = Inr (map (\<lambda>a. data_i (the (hp a))) as)" for hp p
  proof (induction as arbitrary: k p)
    case Nil
    then show ?case by (cases k) auto
  next
    case (Cons a as)
    then show ?case by (cases k) (auto split: option.splits)
  qed
  with assms show ?thesis by (simp add: list_values_def list_chain_def contents_def)
qed

lemma bench_invE:
  assumes "bench_inv n b as"
  shows "list_chain (flights b) (b_list b) as" and "apart b" and "created_ok b t"
    and "mset (contents (b_list b) as) = queued n (b_queues b)"
  using assms by (auto simp: bench_inv_def)

lemma bench_put_inv:
  assumes "bench_inv n b as" and "t < n"
    and "list_chain ((flights b - flight (b_pcs b t)) \<union> flight pc) L bs"
    and "flight pc \<inter> (flights b - flight (b_pcs b t)) = {}"
    and "\<And>a. a \<in> flights b - flight (b_pcs b t) \<Longrightarrow> heap_of (store L) a = heap_of (store (b_list b)) a"
    and "\<And>a q'. pc = B_created a q' \<Longrightarrow> \<exists>x. heap_of (store L) a = Some x \<and> next_i x = NULL \<and> q' = q @ [data_i x]"
    and "mset (contents L bs) + mset (b_queues b t) = mset (contents (b_list b) as) + mset q"
  shows "bench_inv n (bench_put t pc q b L) bs"
proof -
  note inv = bench_invE [OF assms(1)]
  have "mset (contents L bs) = queued n ((b_queues b)(t := q))"
    using queued_update [OF assms(2), of "b_queues b" q] assms(7) inv(4) by (metis add_right_cancel)
  then show ?thesis
    using assms(3,4) inv(2) apart_put [OF inv(2) assms(4)] created_put [OF inv(2,3) assms(5,6)]
    by (simp add: bench_inv_def flights_put)
qed

text \<open>Every step succeeds and keeps the invariant.\<close>

lemma bench_step_inv:
  assumes "bench_inv n b as" and "t < n" and "length as < k" and "\<And>v. okd v" and "\<And>s. room s"
  shows "\<exists>b' bs. bench_step k A pi pr (t, d) b = Inr b' \<and> bench_inv n b' bs \<and> length bs \<le> Suc (length as)"
proof (cases "b_pcs b t")
  case B_next
  note inv = bench_invE [OF assms(1)] and put = bench_put_inv [OF assms(1,2), unfolded B_next, simplified]
  obtain p q where r: "run_round pi pr d (b_queues b t) = (p, q)" by fastforce
  consider v where "p = Insert v" "q = b_queues b t @ [v]"
    | "b_queues b t \<noteq> []" "p = Remove (hd (b_queues b t))" "q = tl (b_queues b t)" | v where "p = Contains v" "q = b_queues b t"
    using run_round_cases [of pi pr "fst d" "snd d" "b_queues b t" p q] r by auto
  then show ?thesis
  proof cases
    case (1 v)
    obtain a s where a: "createListItem A v NULL NULL (store (b_list b)) = Inr (a, s)"
      "list_chain (insert a (flights b)) ((b_list b)\<lparr>store := s\<rparr>) as"
      "contents ((b_list b)\<lparr>store := s\<rparr>) as = contents (b_list b) as" "a \<notin> flights b"
      "heap_of s a = Some (ListItem_init v NULL NULL)" "\<And>c. c \<in> flights b \<Longrightarrow> heap_of s c = heap_of (store (b_list b)) c"
      using create_chain [OF inv(1), of v] assms(4,5) by blast
    have "bench_inv n (bench_put t (B_created a q) (b_queues b t) b ((b_list b)\<lparr>store := s\<rparr>)) as"
      by (rule put) (use a 1 in \<open>auto simp: ListItem_init_def\<close>)
    then show ?thesis using a(1) 1 r B_next by (auto simp: bench_step_def Let_def)
  next
    case 2
    have "hd (b_queues b t) \<in># mset (contents (b_list b) as)"
      using mset_subset_eqD [OF queue_subset [OF assms(2), of "b_queues b"], of "hd (b_queues b t)"] 2(1) inv(4) by simp
    then have v: "hd (b_queues b t) \<in> set (contents (b_list b) as)" by simp
    obtain a L bs where a: "findAndRemoveFromList k (hd (b_queues b t)) (b_list b) = Inr (a, L)"
      "list_chain (insert a (flights b)) L bs" "mset (contents L bs) = mset (contents (b_list b) as) - {#hd (b_queues b t)#}"
      "a \<notin> flights b" "length bs \<le> length as" "\<And>c. c \<in> flights b \<Longrightarrow> heap_of (store L) c = heap_of (store (b_list b)) c"
      using find_remove_chain [OF inv(1) assms(3) v] by blast
    have "mset (contents L bs) + mset (b_queues b t) = mset (contents (b_list b) as) + mset q"
      using a(3) v 2(1,3) by (cases "b_queues b t") auto
    then have "bench_inv n (bench_put t (B_removed a) q b L) bs"
      using a(2,4,6) by (intro put) auto
    then show ?thesis using a(1,5) 2 r B_next by (auto simp: bench_step_def Let_def intro!: exI [of _ bs])
  next
    case (3 v)
    obtain c where "contains_l k v (b_list b) = Inr c" using contains_chain [OF inv(1) assms(3)] by blast
    moreover have "bench_inv n (bench_put t B_next q b (b_list b)) as"
      by (rule put) (use inv(1) 3 in auto)
    ultimately show ?thesis using 3 r B_next by (auto simp: bench_step_def)
  qed
next
  case (B_created a q)
  note inv = bench_invE [OF assms(1)] and put = bench_put_inv [OF assms(1,2), unfolded B_created, simplified]
  obtain x where x: "heap_of (store (b_list b)) a = Some x" "next_i x = NULL" "q = b_queues b t @ [data_i x]"
    using inv(3) [of t] B_created by (auto simp: created_ok_def)
  have a: "a \<in> flights b" using flight_in_flights [of b t] B_created by simp
  obtain L where L: "insertTail a (b_list b) = Inr L" "list_chain (flights b - {a}) L (as @ [a])"
    "contents L (as @ [a]) = contents (b_list b) as @ [data_i x]"
    "\<And>c. c \<in> flights b - {a} \<Longrightarrow> heap_of (store L) c = heap_of (store (b_list b)) c"
    using insertTail_chain [OF inv(1) a x(1,2)] by blast
  have "bench_inv n (bench_put t B_next q b L) (as @ [a])"
    by (rule put) (use L x(3) in auto)
  then show ?thesis using L(1) B_created by (auto simp: bench_step_def Let_def intro!: exI [of _ "as @ [a]"])
next
  case (B_removed a)
  note inv = bench_invE [OF assms(1)] and put = bench_put_inv [OF assms(1,2), unfolded B_removed, simplified]
  have a: "a \<in> flights b" using flight_in_flights [of b t] B_removed by simp
  obtain L where L: "dealloc A a (b_list b) = Inr L" "list_chain (flights b - {a}) L as"
    "contents L as = contents (b_list b) as" "\<And>c. c \<in> flights b - {a} \<Longrightarrow> heap_of (store L) c = heap_of (store (b_list b)) c"
    using dealloc_chain [OF inv(1) a] by blast
  have "bench_inv n (bench_put t B_next (b_queues b t) b L) as"
    by (rule put) (use L in auto)
  then show ?thesis using L(1) B_removed by (auto simp: bench_step_def Let_def)
qed

lemma bench_run_inv:
  assumes "bench_inv n b as" and "\<And>t d. (t, d) \<in> set sched \<Longrightarrow> t < n" and "length as + length sched < k"
    and "\<And>v. okd v" and "\<And>s. room s"
  shows "\<exists>b' bs. bench_run k A pi pr sched b = Inr b' \<and> bench_inv n b' bs \<and> length bs \<le> length as + length sched"
  using assms(1-3)
proof (induction sched arbitrary: b as)
  case (Cons x sched)
  obtain t d where x: "x = (t, d)" by (cases x)
  have "t < n" using Cons.prems(2) [of t d] x by simp
  moreover have "length as < k" using Cons.prems(3) by simp
  ultimately obtain b1 bs where b1: "bench_step k A pi pr (t, d) b = Inr b1" "bench_inv n b1 bs" "length bs \<le> Suc (length as)"
    using bench_step_inv [OF Cons.prems(1) _ _ assms(4,5)] by blast
  with Cons.prems(2,3) Cons.IH [OF b1(2)] obtain b2 cs where "bench_run k A pi pr sched b1 = Inr b2" "bench_inv n b2 cs"
    "length cs \<le> length bs + length sched" by (metis add_Suc_right le_less_trans length_Cons list.set_intros(2) add_le_mono1 add_Suc)
  with b1 x show ?case by (intro exI [of _ b2] exI [of _ cs]) simp
qed auto

lemma base_inserts_rep:
  assumes "0 < n" and "\<And>v. okd v" and "\<And>s. room s" and "list_chain {} L as" and "mset (contents L as) = queued n queues"
  shows "\<exists>L' bs queues'. base_inserts A n r vs L queues = Inr (L', queues') \<and> list_chain {} L' bs \<and>
    mset (contents L' bs) = queued n queues' \<and> length bs = length as + length vs"
  using assms(4,5)
proof (induction vs arbitrary: r L as queues)
  case (Cons v vs)
  have rep: "list_rep L as" using Cons.prems(1) by (simp add: list_rep_def list_chain_def)
  obtain a L1 where a: "insert_l A v L = Inr (a, L1)" "list_rep L1 (as @ [a])" "contents L1 (as @ [a]) = contents L as @ [v]"
    using insert_rep [OF rep assms(2,3)] by metis
  have "list_chain {} L1 (as @ [a])" using a(2) by (simp add: list_rep_def list_chain_def)
  moreover have "mset (contents L1 (as @ [a])) = queued n (queues(r mod n := queues (r mod n) @ [v]))"
    using queued_update [of "r mod n" n queues "queues (r mod n) @ [v]"] assms(1) Cons.prems(2) a(3) by simp
  ultimately obtain L' bs queues' where "base_inserts A n (Suc r) vs L1 (queues(r mod n := queues (r mod n) @ [v])) = Inr (L', queues')"
    "list_chain {} L' bs" "mset (contents L' bs) = queued n queues'" "length bs = length (as @ [a]) + length vs"
    using Cons.IH by blast
  with a(1) show ?case by (intro exI [of _ L'] exI [of _ bs] exI [of _ queues']) simp
qed auto

lemma delete_chain:
  assumes "list_chain {} L as" and "length as < k"
  shows "\<exists>L'. List_delete k A L = Inr L' \<and> live (store L') = {}"
  using assms List_delete_rep [of L as k] by (auto simp: list_rep_def list_chain_def)

lemma bench_rep:
  assumes "ainv s" and "live s = {}" and "0 < n" and "\<And>v. okd v" and "\<And>s. room s"
    and "\<And>t d. (t, d) \<in> set sched \<Longrightarrow> t < n" and "length base + length sched < k"
  shows "\<exists>b vs. list_bench k A pi pr n base sched s = Inr b \<and> list_values k (b_list b) = Inr vs \<and>
    mset vs = queued n (b_queues b) \<and>
    ((\<forall>t. b_pcs b t = B_next) \<longrightarrow> (\<exists>L. List_delete k A (b_list b) = Inr L \<and> live (store L) = {}))"
proof -
  have "list_chain {} (List_init s) []" using assms(1,2) by (simp add: list_chain_def List_init_def)
  moreover have "mset (contents (List_init s) []) = queued n (\<lambda>_. [])" by (simp add: contents_def queued_def)
  ultimately obtain L as queues where 1: "base_inserts A n 0 base (List_init s) (\<lambda>_. []) = Inr (L, queues)"
    "list_chain {} L as" "mset (contents L as) = queued n queues" "length as = length base"
    using base_inserts_rep [OF assms(3-5), of "List_init s" "[]" "\<lambda>_. []" 0 base] by auto
  let ?b = "\<lparr>b_list = L, b_pcs = (\<lambda>_. B_next), b_queues = queues\<rparr>"
  have "bench_inv n ?b as" using 1(2,3) by (simp add: bench_inv_def flights_def apart_def created_ok_def)
  moreover have "length as + length sched < k" using 1(4) assms(7) by simp
  ultimately obtain b bs where 2: "bench_run k A pi pr sched ?b = Inr b" "bench_inv n b bs" "length bs \<le> length as + length sched"
    using bench_run_inv [of n ?b as sched k pi pr] assms(4-6) by blast
  have k: "length bs < k" using 2(3) 1(4) assms(7) by simp
  note inv = bench_invE [OF 2(2)]
  have "\<exists>L. List_delete k A (b_list b) = Inr L \<and> live (store L) = {}" if "\<forall>t. b_pcs b t = B_next"
    using delete_chain [OF _ k] inv(1) that by (simp add: flights_def)
  with 1(1) 2(1) values_chain [OF inv(1) k] inv(4) show ?thesis by (auto simp: list_bench_def)
qed

end


lemma pre_slots: "card slots = nat allocations_size" "finite slots"
  by (simp_all add: slots_def)

lemma pre_room_card:
  assumes "pre_inv s" and "card (pre_live s) < nat allocations_size"
  shows "pre_room s"
  using assms pre_slots by (auto simp: pre_room_def)

lemma PreAllocator_init_inv: "pre_inv PreAllocator_init" "pre_live PreAllocator_init = {}"
  by (auto simp: pre_inv_def pre_live_def PreAllocator_init_def ListItem_init_def slots_def allocations_size_def
      split: if_splits)

section \<open>Properties\<close>



lemma pre_create_full:
  assumes "pre_inv s" and "\<And>i. i \<le> j \<Longrightarrow> slot_addr (slot_at s i) \<in> pre_live s"
    and "\<And>i. i < j \<Longrightarrow> slot_at s i \<noteq> b" and "slot_at s j = b" and "j < k"
  shows "pre_create k b d p n s = Inl (Exit 1)"
  using assms
proof (induction j arbitrary: s k)
  case 0
  then obtain x k' where "heap_of s (slot_addr (slot_at s 0)) = Some x" "slot_addr (slot_at s 0) \<noteq> NULL" "k = Suc k'"
    using pre_inv_slot [of s 0] by (cases k) auto
  moreover from this have "data_i x \<noteq> - 1" using 0(2) by (auto simp: pre_live_def)
  ultimately show ?case using first_slot [OF 0(1)] 0(4) by (simp add: Let_def)
next
  case (Suc j)
  obtain x k' where x: "heap_of s (slot_addr (slot_at s 0)) = Some x" "slot_addr (slot_at s 0) \<noteq> NULL" "k = Suc k'"
    using pre_inv_slot [OF Suc.prems(1), of 0] Suc.prems(5) by (cases k) auto
  have busy: "data_i x \<noteq> - 1" using Suc.prems(2) [of 0] x(1) by (auto simp: pre_live_def)
  let ?s = "s\<lparr>last_allocation_slot := slot_at s 0\<rparr>"
  have "pre_inv ?s" using Suc.prems(1) slot_at_range [of s 0] by (simp add: pre_inv_def)
  moreover have "pre_live ?s = pre_live s" by (simp add: pre_live_def)
  ultimately have "pre_create k' b d p n ?s = Inl (Exit 1)"
    using Suc.prems x(3) by (intro Suc.IH) (simp_all add: slot_at_next)
  moreover have "slot_at s 0 \<noteq> b" using Suc.prems(3) by simp
  ultimately show ?case using x busy first_slot [OF Suc.prems(1)] by (simp add: Let_def)
qed

lemma pre_create_total:
  assumes "pre_inv s" and "pre_live s = slots \<Longrightarrow> 0 \<le> last_allocation_slot s"
  shows "(\<exists>a s'. createListItem PreAllocator d p n s = Inr (a, s') \<and> a \<in> slots \<and> a \<notin> pre_live s \<and>
      heap_of s' = (heap_of s)(a \<mapsto> ListItem_init d p n) \<and> pre_inv s') \<and> pre_live s \<noteq> slots \<or>
    createListItem PreAllocator d p n s = Inl (Exit 1) \<and> pre_live s = slots"
proof (cases "pre_live s = slots")
  case True
  let ?last = "nat allocations_size - 1"
  have last: "slot_at s ?last = last_allocation_slot s"
  proof -
    have "int ?last = allocations_size - 1" using size_pos by linarith
    then have "slot_at s ?last = (last_allocation_slot s + allocations_size) mod allocations_size"
      by (simp add: slot_at_def)
    also have "\<dots> = last_allocation_slot s" using assms True by (simp add: pre_inv_def)
    finally show ?thesis .
  qed
  have "pre_create (nat allocations_size) (last_allocation_slot s) d p n s = Inl (Exit 1)"
  proof (rule pre_create_full [where j = ?last])
    show "slot_addr (slot_at s i) \<in> pre_live s" for i
      using True slot_addr_slots [OF slot_at_range, of s i] by simp
    show "slot_at s i \<noteq> last_allocation_slot s" if "i < ?last" for i
      using begin_slot [OF assms(1) that] size_pos by simp
  qed (use assms(1) last size_pos in auto)
  then show ?thesis using True by (simp add: PreAllocator_def)
next
  case False
  then have "pre_room s" by (simp add: pre_room_def)
  then obtain j where j: "j < nat allocations_size" "slot_addr (slot_at s j) \<notin> pre_live s"
    "\<And>i. i < j \<Longrightarrow> slot_addr (slot_at s i) \<in> pre_live s"
    using first_free_slot [OF assms(1)] by blast
  have slot: "slot_addr (slot_at s j) \<in> slots" using slot_addr_slots [OF slot_at_range] by blast
  have "createListItem PreAllocator d p n s = Inr (slot_addr (slot_at s j), s\<lparr>last_allocation_slot := slot_at s j,
      heap_of := (heap_of s)(slot_addr (slot_at s j) \<mapsto> ListItem_init d p n)\<rparr>)"
    using pre_create_finds [OF assms(1) j(2,3) _ j(1)] begin_slot [OF assms(1) _ j(1)] by (simp add: PreAllocator_def)
  moreover have "pre_inv (s\<lparr>last_allocation_slot := slot_at s j,
      heap_of := (heap_of s)(slot_addr (slot_at s j) \<mapsto> ListItem_init d p n)\<rparr>)"
    using assms(1) slot slot_at_range [of s j] by (auto simp: pre_inv_def)
  ultimately show ?thesis using False j(2) slot by auto
qed

text \<open>
  C18: The search for a slot ends: it returns a free slot if there is one, however far it is from the
  last one used, and exits with status 1 otherwise, in one pass over the slots (the slot to stop at
  is -1, which is never reached, only before the first allocation).
\<close>

theorem pre_allocator_terminates:
  assumes "pre_inv s" and "pre_live s = slots \<Longrightarrow> 0 \<le> last_allocation_slot s"
  shows "(\<exists>a s'. createListItem PreAllocator d p n s = Inr (a, s') \<and> a \<in> slots \<and> a \<notin> pre_live s \<and>
      heap_of s' = (heap_of s)(a \<mapsto> ListItem_init d p n) \<and> pre_inv s') \<and> pre_live s \<noteq> slots \<or>
    createListItem PreAllocator d p n s = Inl (Exit 1) \<and> pre_live s = slots"
  using assms by (rule pre_create_total)

theorem pre_allocator_terminates_witness:
  "\<exists>a s'. createListItem PreAllocator 3 0 0 PreAllocator_init = Inr (a, s') \<and> a \<in> slots"
proof -
  have "pre_live PreAllocator_init \<noteq> slots"
    using PreAllocator_init_inv(2) pre_slots(1) size_pos by (metis card.empty not_less_zero zero_less_nat_eq)
  then show ?thesis
    using pre_allocator_terminates [OF PreAllocator_init_inv(1), of 3 0 0] by auto
qed

text \<open>
  Two uses of the list are outside of what the allocators support.  \<open>remove\<close> of a value that is
  not in the list passes a null pointer to the allocator: the default allocator ignores it, the
  pre-allocator writes through it.  And an item that holds \<open>-1\<close> is taken for a free slot.
\<close>

theorem pre_allocator_limits:
  assumes "get_l k d L = Inr NULL"
  shows "remove_l k (DefaultAllocator alloc) d L = Inr L \<and> remove_l k PreAllocator d L = Inl NullAccess \<and>
    (pre_inv s \<longrightarrow> pre_room s \<longrightarrow>
      (\<exists>a s'. createListItem PreAllocator (- 1) p n s = Inr (a, s') \<and> a \<in> dom (heap_of s') \<and> a \<notin> pre_live s'))"
proof -
  have "remove_l k (DefaultAllocator alloc) d L = Inr L" "remove_l k PreAllocator d L = Inl NullAccess"
    using assms by (simp_all add: remove_l_def findAndRemoveFromList_def removeFromList_def dealloc_def
        DefaultAllocator_def PreAllocator_def free_item_def delete_def put_def heap_write_def)
  moreover have "\<exists>a s'. createListItem PreAllocator (- 1) p n s = Inr (a, s') \<and> a \<in> dom (heap_of s') \<and> a \<notin> pre_live s'"
    if "pre_inv s" "pre_room s"
    using pre_create_total [OF that(1), of "- 1" p n] that(2)
    by (auto simp: pre_room_def pre_live_def ListItem_init_def)
  ultimately show ?thesis by blast
qed

theorem pre_allocator_limits_witness:
  "remove_l 1 PreAllocator 4 (List_init PreAllocator_init) = Inl NullAccess"
  using pre_allocator_limits [of 1 4 "List_init PreAllocator_init"] by (simp add: get_l_def List_init_def)

end
