(* ===== verification/HleUtil.thy ===== *)
theory HleUtil
  imports Complex_Main HleHeap CLib "HOL-Library.Signed_Division"
begin

text \<open>
  The utilities the benchmarks share (\<open>util.cpp\<close>, \<open>Stats.cpp\<close>): command line arguments, the random
  number generators, the access pattern against prefetching, and the statistics of the results.
  Floating point numbers are reals; a division by a count of zero is \<open>None\<close>.
\<close>

section \<open>Arguments\<close>

text \<open>
  \<open>handle_args\<close>: the inner loop goes on with the next identifier after a match, and compares it
  with the value just consumed.  \<open>argv[argc]\<close> is a null pointer; a number that \<open>int\<close> cannot represent
  is undefined.
\<close>

definition arg_at :: "string list \<Rightarrow> nat \<Rightarrow> fault + string" where
  "arg_at argv a = (if a < length argv then Inr (argv ! a) else if a = length argv then Inl NullAccess else Inl (OutOfBounds (int a)))"

definition atoi_arg :: "string \<Rightarrow> fault + int" where
  "atoi_arg s = (case atoi s of None \<Rightarrow> Inl (OutOfBounds 0) | Some v \<Rightarrow> Inr v)"

fun match_ids :: "string list \<Rightarrow> string list \<Rightarrow> nat \<Rightarrow> nat \<Rightarrow> int list \<Rightarrow> fault + (nat \<times> int list)" where
  "match_ids argv [] i a values = Inr (a, values)"
| "match_ids argv (ident # idents) i a values =
     bind_res (arg_at argv a) (\<lambda>arg.
       if arg = ident then
         bind_res (arg_at argv (Suc a)) (\<lambda>v.
         bind_res (atoi_arg v) (\<lambda>n. match_ids argv idents (Suc i) (Suc a) (values[i := n])))
       else match_ids argv idents (Suc i) a values)"

fun args_loop :: "nat \<Rightarrow> string list \<Rightarrow> string list \<Rightarrow> nat \<Rightarrow> int list \<Rightarrow> fault + int list" where
  "args_loop k argv idents a values =
     (if a < length argv then
        (case k of 0 \<Rightarrow> Inl OutOfFuel
         | Suc k \<Rightarrow> bind_res (match_ids argv idents 0 a values) (\<lambda>(a, values). args_loop k argv idents (Suc a) values))
      else Inr values)"

declare args_loop.simps [simp del]

definition handle_args :: "string list \<Rightarrow> string list \<Rightarrow> int list \<Rightarrow> fault + int list" where
  "handle_args argv identifier values = args_loop (length argv) argv identifier 1 values"

section \<open>Random numbers\<close>

text \<open>\<open>rand_gerhard\<close>; the state stays far below the range of a \<open>long\<close>.\<close>

definition rand_gerhard :: "int \<Rightarrow> int \<Rightarrow> fault + (int \<times> int)" where
  "rand_gerhard state limit =
     (let state = (state * 32719 + 3) smod 32749
      in if limit = 0 then Inl DivisionByZero else Inr (state smod limit, state))"

text \<open>\<open>rand_lcg\<close> with a 64-bit state that wraps around; \<open>>>\<close> shifts arithmetically.\<close>

definition rand_lcg :: "u64 \<Rightarrow> int \<Rightarrow> fault + (int \<times> u64)" where
  "rand_lcg state limit =
     (let state = state * 1664525 + 1013904223
      in if limit = 0 then Inl DivisionByZero
         else let res = (sint state div 2 ^ 24) smod limit
              in Inr (if res \<ge> 0 then res else - res, state))"

section \<open>The access pattern\<close>

definition cache_line_size :: int where "cache_line_size = 64"

fun fill_from :: "int \<Rightarrow> nat \<Rightarrow> int \<Rightarrow> int \<Rightarrow> int list" where
  "fill_from sz 0 i offset = []"
| "fill_from sz (Suc n) i offset =
     (let val = i * (cache_line_size * 4) + offset;
          offset = (if val > (offset - 1) * sz then offset + 1 else offset)
      in val smod sz # fill_from sz n (i + 1) offset)"

definition fill_prefetching_unfriendly :: "nat \<Rightarrow> int list" where
  "fill_prefetching_unfriendly sz = fill_from (int sz) sz 0 0"

section \<open>Statistics\<close>

record Stats =
  count_s :: nat
  expectedValueSum :: real
  varianceSum :: real

definition Stats_init :: Stats where
  "Stats_init = \<lparr>count_s = 0, expectedValueSum = 0, varianceSum = 0\<rparr>"

definition addValue :: "real \<Rightarrow> Stats \<Rightarrow> Stats" where
  "addValue val s =
     s\<lparr>expectedValueSum := expectedValueSum s + val, varianceSum := varianceSum s + val * val, count_s := count_s s + 1\<rparr>"

definition getExpectedValue :: "Stats \<Rightarrow> real option" where
  "getExpectedValue s = (if count_s s = 0 then None else Some (expectedValueSum s / real (count_s s)))"

definition getVariance :: "Stats \<Rightarrow> real option" where
  "getVariance s =
     map_option (\<lambda>mu. 1 / real (count_s s) * varianceSum s - mu * mu) (getExpectedValue s)"

definition getStandardDeviation :: "Stats \<Rightarrow> real option" where
  "getStandardDeviation s = map_option sqrt (getVariance s)"

definition getStandardError :: "Stats \<Rightarrow> real option" where
  "getStandardError s = map_option (\<lambda>sd. sd / sqrt (real (count_s s))) (getStandardDeviation s)"

definition subtractStddev :: "real \<Rightarrow> real \<Rightarrow> real" where
  "subtractStddev sd1 sd2 = sqrt (sd1 * sd1 + sd2 * sd2)"

definition average :: "real list \<Rightarrow> real option" where
  "average values = (if values = [] then None else Some (fold (\<lambda>v sum. sum + v) values 0 / real (length values)))"

section \<open>Facts\<close>

lemma smod_range: "0 < m \<Longrightarrow> \<bar>x smod m\<bar> < m" for x m :: int
  using smod_int_range [of m x] by auto

lemma smod_pos: "0 \<le> x \<Longrightarrow> 0 < m \<Longrightarrow> x smod m = x mod m" for x m :: int
  by (cases "x = 0") (simp_all add: smod_int_alt_def)

lemma fold_sum_list: "fold (\<lambda>v s. s + v) xs a = a + sum_list xs" for a :: real
  by (induction xs arbitrary: a) simp_all

lemma fill_from_257: "0 \<le> i \<Longrightarrow> fill_from 257 n i i = replicate n 0"
proof (induction n arbitrary: i)
  case (Suc n)
  have val: "i * (cache_line_size * 4) + i = 257 * i" "(i - 1) * 257 < 257 * i" by (simp_all add: cache_line_size_def)
  have "257 * i smod 257 = 0" using Suc.prems by (simp add: smod_pos)
  then show ?case using Suc by (simp only: fill_from.simps Let_def val) simp
qed simp

definition stats_of :: "real list \<Rightarrow> Stats" where
  "stats_of xs = fold addValue xs Stats_init"

lemma stats_fields:
  "count_s (fold addValue xs s) = count_s s + length xs"
  "expectedValueSum (fold addValue xs s) = expectedValueSum s + sum_list xs"
  "varianceSum (fold addValue xs s) = varianceSum s + (\<Sum>x\<leftarrow>xs. x * x)"
  by (induction xs arbitrary: s) (simp_all add: addValue_def)

lemma sum_squared_deviation:
  fixes xs :: "real list"
  shows "(\<Sum>x\<leftarrow>xs. (x - mu)\<^sup>2) = (\<Sum>x\<leftarrow>xs. x * x) - 2 * mu * sum_list xs + real (length xs) * mu\<^sup>2"
  by (induction xs) (simp_all add: power2_eq_square algebra_simps)

lemma match_none:
  "arg_at argv a = Inr arg \<Longrightarrow> arg \<notin> set idents \<Longrightarrow> match_ids argv idents i a values = Inr (a, values)"
  by (induction idents arbitrary: i) simp_all

lemma match_at:
  assumes "arg_at argv a = Inr (idents ! j)" and "j < length idents" and "distinct idents"
    and "arg_at argv (Suc a) = Inr w" and "w \<notin> set idents" and "atoi_arg w = Inr n"
  shows "match_ids argv idents i a values = Inr (Suc a, values[i + j := n])"
  using assms
proof (induction idents arbitrary: i j)
  case (Cons ident idents)
  show ?case
  proof (cases j)
    case 0
    then show ?thesis using Cons.prems by (simp add: match_none)
  next
    case (Suc k)
    then have "ident \<noteq> idents ! k" using Cons.prems(2,3) by auto
    then show ?thesis using Cons.IH [of k "Suc i"] Cons.prems Suc by simp
  qed
qed simp

lemma args_loop_pairs:
  assumes "distinct idents" and "\<And>n. dec n \<notin> set idents" and "\<And>j v. (j, v) \<in> set ps \<Longrightarrow> j < length idents \<and> v < 2 ^ 31"
    and "length ps \<le> k"
  shows "args_loop k (pre @ concat (map (\<lambda>(j, v). [idents ! j, dec v]) ps)) idents (length pre) vals =
    Inr (fold (\<lambda>(j, v) vs. vs[j := int v]) ps vals)"
  using assms(3,4)
proof (induction ps arbitrary: pre vals k)
  case Nil
  then show ?case by (simp add: args_loop.simps)
next
  case (Cons p ps)
  obtain j v where p: "p = (j, v)" by fastforce
  obtain k' where k: "k = Suc k'" using Cons.prems(2) by (cases k) auto
  have jv: "j < length idents" "v < 2 ^ 31" using Cons.prems(1) [of j v] p by simp_all
  let ?rest = "concat (map (\<lambda>(j, v). [idents ! j, dec v]) ps)"
  let ?argv = "pre @ [idents ! j, dec v] @ ?rest"
  have num: "atoi_arg (dec v) = Inr (int v)" unfolding atoi_arg_def atoi_dec [OF jv(2)] by simp
  have "match_ids ?argv idents 0 (length pre) vals = Inr (Suc (length pre), vals[0 + j := int v])"
    by (rule match_at [OF _ jv(1) assms(1) _ assms(2) num]) (simp_all add: arg_at_def nth_append)
  moreover have "args_loop k' ((pre @ [idents ! j, dec v]) @ ?rest) idents (length (pre @ [idents ! j, dec v])) (vals[j := int v]) =
      Inr (fold (\<lambda>(j, v) vs. vs[j := int v]) ps (vals[j := int v]))"
    using Cons.prems k by (intro Cons.IH) auto
  ultimately show ?case by (simp add: args_loop.simps [of "Suc k'"] k p)
qed

section \<open>Properties\<close>

text \<open>
  \<open>Stats\<close> computes in one pass what the definitions say: after adding the values of a non-empty
  list, the expected value is their mean, the variance is the mean squared deviation from it
  (so it is not negative and the standard deviation is defined), and without values nothing is.
\<close>

theorem stats_one_pass:
  "getVariance (stats_of xs) =
     (if xs = [] then None
      else Some ((\<Sum>x\<leftarrow>xs. (x - sum_list xs / real (length xs))\<^sup>2) / real (length xs))) \<and>
   getExpectedValue (stats_of xs) = average xs \<and>
   (\<forall>v. getVariance (stats_of xs) = Some v \<longrightarrow> 0 \<le> v)"
proof -
  let ?n = "real (length xs)" and ?mu = "sum_list xs / real (length xs)"
  have var: "getVariance (stats_of xs) = Some ((\<Sum>x\<leftarrow>xs. (x - ?mu)\<^sup>2) / ?n)" if "xs \<noteq> []"
  proof -
    have n: "?n \<noteq> 0" using that by simp
    then have "(\<Sum>x\<leftarrow>xs. (x - ?mu)\<^sup>2) / ?n = 1 / ?n * (\<Sum>x\<leftarrow>xs. x * x) - ?mu * ?mu"
      unfolding sum_squared_deviation by (simp add: power2_eq_square field_simps)
    then show ?thesis
      using that by (simp add: getVariance_def getExpectedValue_def stats_of_def stats_fields Stats_init_def)
  qed
  have "0 \<le> (\<Sum>x\<leftarrow>xs. (x - ?mu)\<^sup>2)" by (rule sum_list_nonneg) auto
  then have "0 \<le> (\<Sum>x\<leftarrow>xs. (x - ?mu)\<^sup>2) / ?n" by simp
  moreover have "getVariance (stats_of []) = None"
    by (simp add: getVariance_def getExpectedValue_def stats_of_def Stats_init_def)
  moreover have "getExpectedValue (stats_of xs) = average xs"
    by (simp add: getExpectedValue_def average_def stats_of_def stats_fields Stats_init_def fold_sum_list)
  ultimately show ?thesis using var by (cases "xs = []") auto
qed

theorem stats_one_pass_witness:
  "getExpectedValue (stats_of [600, 470, 170, 430, 300]) = Some 394 \<and> getVariance (stats_of [600, 470, 170, 430, 300]) = Some 21704"
  using stats_one_pass [of "[600, 470, 170, 430, 300]"] by (simp add: average_def power2_eq_square)

text \<open>
  \<open>rand_gerhard\<close> from a state in its range returns numbers below the limit and below 32749, not
  negative, and stays in its range; so a caller that asks for values up to \<open>INT_MAX\<close> gets at most
  32749 different ones.  \<open>rand_lcg\<close> returns numbers below the limit and not negative from every state.
\<close>

theorem rand_gerhard_range:
  assumes "0 \<le> state" and "state < 32749" and "0 < limit"
  shows "(\<exists>res state'. rand_gerhard state limit = Inr (res, state') \<and> 0 \<le> res \<and> res < limit \<and> res < 32749 \<and>
      0 \<le> state' \<and> state' < 32749) \<and>
    (\<exists>res w'. rand_lcg w limit = Inr (res, w') \<and> 0 \<le> res \<and> res < limit)"
proof -
  let ?s = "(state * 32719 + 3) mod 32749"
  have s: "0 \<le> ?s" "?s < 32749" "(state * 32719 + 3) smod 32749 = ?s" using assms(1) by (simp_all add: smod_pos)
  have "?s mod limit \<le> ?s" using s(1) by (simp add: zmod_le_nonneg_dividend)
  then have "?s mod limit < 32749" using s(2) by linarith
  moreover have "rand_gerhard state limit = Inr (?s mod limit, ?s)"
    using s assms(3) smod_pos [OF s(1) assms(3)] by (simp add: rand_gerhard_def Let_def)
  moreover have "\<exists>res w'. rand_lcg w limit = Inr (res, w') \<and> 0 \<le> res \<and> res < limit"
    using assms(3) smod_range [OF assms(3), of "sint (w * 1664525 + 1013904223) div 2 ^ 24"]
    by (auto simp: rand_lcg_def Let_def)
  ultimately show ?thesis using s assms(3) by simp
qed

theorem rand_gerhard_range_witness:
  "\<exists>res state'. rand_gerhard 1 1000 = Inr (res, state') \<and> 0 \<le> res \<and> res < 1000 \<and> state' < 32749"
  using rand_gerhard_range [of 1 1000 0] by auto

text \<open>
  The access pattern does not reach all positions, although its description guarantees it: for
  257 positions every entry is 0, so consecutive entries are not apart either.
\<close>

theorem fill_prefetching_stuck: "fill_prefetching_unfriendly 257 = replicate 257 0"
  unfolding fill_prefetching_unfriendly_def using fill_from_257 [of 0 257] by simp

text \<open>
  \<open>handle_args\<close> on pairs of an identifier and a decimal number sets each variable to the last
  number given for it and leaves the others, provided no identifier is itself a number; an
  identifier without a value at the end of the line makes \<open>atoi\<close> read the null pointer behind
  the arguments.
\<close>

theorem handle_args_pairs:
  assumes "distinct idents" and "\<And>n. dec n \<notin> set idents" and "\<And>j v. (j, v) \<in> set ps \<Longrightarrow> j < length idents \<and> v < 2 ^ 31"
  shows "handle_args (prog # concat (map (\<lambda>(j, v). [idents ! j, dec v]) ps)) idents values =
      Inr (fold (\<lambda>(j, v) vs. vs[j := int v]) ps values) \<and>
    (idents \<noteq> [] \<longrightarrow> handle_args [prog, hd idents] idents values = Inl NullAccess)"
proof
  let ?argv = "[prog] @ concat (map (\<lambda>(j, v). [idents ! j, dec v]) ps)"
  have "length ps \<le> length ?argv" by (induction ps) auto
  then have "args_loop (length ?argv) ?argv idents (length [prog]) values = Inr (fold (\<lambda>(j, v) vs. vs[j := int v]) ps values)"
    using assms by (intro args_loop_pairs) auto
  then show "handle_args (prog # concat (map (\<lambda>(j, v). [idents ! j, dec v]) ps)) idents values =
      Inr (fold (\<lambda>(j, v) vs. vs[j := int v]) ps values)"
    by (simp add: handle_args_def)
  show "idents \<noteq> [] \<longrightarrow> handle_args [prog, hd idents] idents values = Inl NullAccess"
    by (cases idents) (simp_all add: handle_args_def args_loop.simps arg_at_def)
qed

theorem handle_args_pairs_witness:
  "handle_args [''bench'', ''-n'', ''8'', ''-l'', ''20'', ''-n'', ''2''] [''-n'', ''-l''] [4, 10] = Inr [2, 20]"
proof -
  have "dec n \<notin> set [''-n'', ''-l'']" for n
    using dec_digits [of n] by (auto simp: is_digit_def less_eq_char_def)
  moreover have "j < length [''-n'', ''-l''] \<and> v < 2 ^ 31" if "(j, v) \<in> set [(0, 8), (1, 20), (0, 2)]" for j v :: nat
    using that by auto
  moreover have "dec 8 = ''8''" "dec 20 = ''20''" "dec 2 = ''2''" by code_simp+
  ultimately show ?thesis
    using handle_args_pairs [of "[''-n'', ''-l'']" "[(0, 8), (1, 20), (0, 2)]" "''bench''" "[4, 10]"] by simp
qed

end
