(* ===== verification/Crc32.thy ===== *)
theory Crc32
  imports Crc32Tbl
begin

unbundle bit_operations_syntax

text \<open>
  The CRC-32 of \<open>sysbench/tests/fileio/crc32.c\<close>: the generation of the tables, the byte-wise loop,
  the word-at-a-time loops for little- and big-endian machines, and the choice between them.  A
  buffer is the list of its bytes with its address; the table lookups read \<open>Crc32Tbl\<close>.

  The reference is the shift register that consumes one bit at a time.
\<close>

section \<open>Making the tables\<close>

definition REV :: "'a::len word \<Rightarrow> 'a word" where
  "REV w = drop_bit 24 w + (drop_bit 8 w AND 0xff00) + push_bit 8 (w AND 0xff00) + push_bit 24 (w AND 0xff)"

definition crc_poly :: u64 where
  "crc_poly = fold (\<lambda>p poly. poly OR push_bit (31 - p) 1) [0, 1, 2, 4, 5, 7, 8, 10, 11, 12, 16, 22, 23, 26] 0"

definition crc_shift :: "u64 \<Rightarrow> u64" where
  "crc_shift c = (if c AND 1 \<noteq> 0 then crc_poly XOR drop_bit 1 c else drop_bit 1 c)"

definition crc_byte :: "nat \<Rightarrow> u64" where
  "crc_byte n = (crc_shift ^^ 8) (word_of_nat n)"

definition crc_after :: "u64 list \<Rightarrow> u64 \<Rightarrow> u64" where
  "crc_after t c = t ! unat (c AND 0xff) XOR drop_bit 8 c"

definition crc_column :: "u64 list \<Rightarrow> nat \<Rightarrow> u64 list" where
  "crc_column t n =
     (let c0 = t ! n; c1 = crc_after t c0; c2 = crc_after t c1; c3 = crc_after t c2
      in [c0, c1, c2, c3, REV c0, REV c1, REV c2, REV c3])"

definition make_crc_table :: "u64 list list" where
  "make_crc_table =
     (let t = map crc_byte [0..<256]; columns = map (crc_column t) [0..<256]
      in map (\<lambda>k. map (\<lambda>column. column ! k) columns) [0..<8])"

section \<open>The loops\<close>

definition table_at :: "nat \<Rightarrow> 'a::len word \<Rightarrow> u64" where
  "table_at k i = crc_table ! k ! unat i"

definition DO1 :: "u8 \<Rightarrow> u64 \<Rightarrow> u64" where
  "DO1 b crc = table_at 0 ((crc XOR ucast b) AND 0xff) XOR drop_bit 8 crc"

definition little1 :: "u8 \<Rightarrow> u32 \<Rightarrow> u32" where
  "little1 b c = ucast (table_at 0 ((c XOR ucast b) AND 0xff) XOR ucast (drop_bit 8 c))"

definition big1 :: "u8 \<Rightarrow> u32 \<Rightarrow> u32" where
  "big1 b c = ucast (table_at 4 (drop_bit 24 c XOR ucast b) XOR ucast (push_bit 8 c))"

definition load_little :: "u8 list \<Rightarrow> u32" where
  "load_little bs = foldr (\<lambda>b w. ucast b OR push_bit 8 w) bs 0"

definition load_big :: "u8 list \<Rightarrow> u32" where
  "load_big bs = fold (\<lambda>b w. push_bit 8 w OR ucast b) bs 0"

definition DOLIT4 :: "u8 list \<Rightarrow> u32 \<Rightarrow> u32" where
  "DOLIT4 w c =
     (let c = c XOR load_little w
      in ucast (table_at 3 (c AND 0xff) XOR table_at 2 (drop_bit 8 c AND 0xff) XOR
                table_at 1 (drop_bit 16 c AND 0xff) XOR table_at 0 (drop_bit 24 c)))"

definition DOBIG4 :: "u8 list \<Rightarrow> u32 \<Rightarrow> u32" where
  "DOBIG4 w c =
     (let c = c XOR load_big w
      in ucast (table_at 4 (c AND 0xff) XOR table_at 5 (drop_bit 8 c AND 0xff) XOR
                table_at 6 (drop_bit 16 c AND 0xff) XOR table_at 7 (drop_bit 24 c)))"

text \<open>Eight words in one round: \<open>DOLIT32\<close> and \<open>DOBIG32\<close>.\<close>

definition do32 :: "(u8 list \<Rightarrow> 's \<Rightarrow> 's) \<Rightarrow> u8 list \<Rightarrow> 's \<Rightarrow> 's" where
  "do32 do4 w = fold (\<lambda>k. do4 (take 4 (drop (4 * k) w))) [0..<8]"

text \<open>A loop that consumes \<open>n\<close> bytes in every round while there are as many.\<close>

function chunk_loop :: "nat \<Rightarrow> (u8 list \<Rightarrow> 's \<Rightarrow> 's) \<Rightarrow> u8 list \<Rightarrow> 's \<Rightarrow> 's \<times> u8 list" where
  "chunk_loop n f bs c =
     (if 0 < n \<and> n \<le> length bs then chunk_loop n f (drop n bs) (f (take n bs) c) else (c, bs))"
  by pat_completeness auto

termination by (relation "measure (\<lambda>(n, f, bs, c). length bs)") auto

declare chunk_loop.simps [simp del]

text \<open>The bytes before the first word that is aligned to four.\<close>

fun align_loop :: "(u8 \<Rightarrow> 's \<Rightarrow> 's) \<Rightarrow> u64 \<Rightarrow> u8 list \<Rightarrow> 's \<Rightarrow> 's \<times> u8 list" where
  "align_loop f addr [] c = (c, [])"
| "align_loop f addr (b # bs) c =
     (if addr AND 3 \<noteq> 0 then align_loop f (addr + 1) bs (f b c) else (c, b # bs))"

definition crc32_little :: "u64 \<Rightarrow> u64 \<Rightarrow> u8 list \<Rightarrow> u64" where
  "crc32_little crc addr buf =
     (let c = NOT (ucast crc :: u32);
          (c, buf) = align_loop little1 addr buf c;
          (c, buf) = chunk_loop 32 (do32 DOLIT4) buf c;
          (c, buf) = chunk_loop 4 DOLIT4 buf c;
          c = fold little1 buf c
      in ucast (NOT c))"

definition crc32_big :: "u64 \<Rightarrow> u64 \<Rightarrow> u8 list \<Rightarrow> u64" where
  "crc32_big crc addr buf =
     (let c = NOT (REV (ucast crc :: u32));
          (c, buf) = align_loop big1 addr buf c;
          (c, buf) = chunk_loop 32 (do32 DOBIG4) buf c;
          (c, buf) = chunk_loop 4 DOBIG4 buf c;
          c = fold big1 buf c
      in ucast (REV (NOT c)))"

text \<open>
  \<open>build\<close>: a four-byte integer type exists (\<open>BYFOUR\<close>) on a little- or a big-endian machine, or there
  is none.  \<open>None\<close> is the null pointer.
\<close>

datatype build = LittleEndian | BigEndian | NoByFour

definition crc32 :: "build \<Rightarrow> u64 \<Rightarrow> u64 \<Rightarrow> u8 list option \<Rightarrow> u64" where
  "crc32 machine crc addr buf =
     (case buf of
        None \<Rightarrow> 0
      | Some buf \<Rightarrow>
          (case machine of
             LittleEndian \<Rightarrow> crc32_little crc addr buf
           | BigEndian \<Rightarrow> crc32_big crc addr buf
           | NoByFour \<Rightarrow>
               (let crc = crc XOR 0xffffffff;
                    (crc, buf) = chunk_loop 8 (fold DO1) buf crc;
                    crc = fold DO1 buf crc
                in crc XOR 0xffffffff)))"

section \<open>The shift register\<close>

definition crc_bit :: "u32 \<Rightarrow> u32" where
  "crc_bit c = (if odd c then 0xedb88320 XOR drop_bit 1 c else drop_bit 1 c)"

definition crc_step :: "u8 \<Rightarrow> u32 \<Rightarrow> u32" where
  "crc_step b c = (crc_bit ^^ 8) (c XOR ucast b)"

definition crc_ref :: "u32 \<Rightarrow> u8 list \<Rightarrow> u32" where
  "crc_ref crc bs = NOT (fold crc_step bs (NOT crc))"

section \<open>Linearity\<close>

lemma crc_bit_xor: "crc_bit (x XOR y) = crc_bit x XOR crc_bit y"
  by (auto simp: crc_bit_def even_xor_iff ac_simps drop_bit_xor)

lemma crc_bits_xor: "(crc_bit ^^ k) (x XOR y) = (crc_bit ^^ k) x XOR (crc_bit ^^ k) y"
  by (induction k) (auto simp: crc_bit_xor)

lemma crc_bit_0 [simp]: "crc_bit 0 = 0" by (simp add: crc_bit_def)

lemma crc_bits_0 [simp]: "(crc_bit ^^ k) 0 = 0" by (induction k) auto

lemma crc_bits_add: "(crc_bit ^^ j) ((crc_bit ^^ k) x) = (crc_bit ^^ (j + k)) x"
  by (simp add: funpow_add)

lemma crc_bits_drop: "take_bit k x = 0 \<Longrightarrow> (crc_bit ^^ k) x = drop_bit k x"
proof (induction k arbitrary: x)
  case (Suc k)
  then have "even x" by (metis even_take_bit_eq even_zero nat.distinct(1))
  then have x: "crc_bit x = drop_bit 1 x" by (simp add: crc_bit_def)
  have "take_bit k (drop_bit 1 x) = 0"
    using Suc.prems by (metis take_bit_drop_bit drop_bit_of_0 plus_1_eq_Suc add.commute)
  then show ?case using Suc.IH [of "crc_bit x"] by (simp add: x funpow_swap1)
qed simp

lemma crc_bits_split: "(crc_bit ^^ k) x = (crc_bit ^^ k) (take_bit k x) XOR drop_bit k x"
proof -
  let ?y = "x AND NOT (mask k)"
  have "x = take_bit k x XOR ?y"
    by (rule bit_word_eqI) (auto simp: bit_simps)
  moreover have "take_bit k ?y = 0" "drop_bit k ?y = drop_bit k x"
    by (rule bit_word_eqI; auto simp: bit_simps dest: bit_imp_le_length)+
  ultimately show ?thesis by (metis crc_bits_xor crc_bits_drop)
qed

lemma masks: "0xff = (mask 8 :: 'a::len word)" "0xff00 = (push_bit 8 (mask 8) :: 'a::len word)"
  by (simp_all add: mask_eq_exp_minus_1 push_bit_eq_mult)

lemma REV_or:
  fixes w :: "'a::len word"
  assumes "w = take_bit 32 w"
  shows "REV w = drop_bit 24 w OR (drop_bit 8 w AND push_bit 8 (mask 8)) OR
    push_bit 8 (w AND push_bit 8 (mask 8)) OR push_bit 24 (w AND mask 8)"
proof -
  let ?a = "drop_bit 24 w" and ?b = "drop_bit 8 w AND push_bit 8 (mask 8)"
  let ?c = "push_bit 8 (w AND push_bit 8 (mask 8))" and ?d = "push_bit 24 (w AND mask 8)"
  have w: "bit w n \<Longrightarrow> n < 32" for n using assms by (metis bit_take_bit_iff)
  have "?a + ?b = ?a OR ?b" by (rule disjunctive_add) (auto simp: bit_simps dest: w)
  moreover have "(?a OR ?b) + ?c = (?a OR ?b) OR ?c" by (rule disjunctive_add) (auto simp: bit_simps dest: w)
  moreover have "((?a OR ?b) OR ?c) + ?d = ((?a OR ?b) OR ?c) OR ?d" by (rule disjunctive_add) (auto simp: bit_simps dest: w)
  ultimately show ?thesis unfolding REV_def masks by (simp add: or.assoc)
qed

lemma REV_bits: "bit (REV w) n \<longleftrightarrow>
    (if n < 8 then bit w (24 + n) else if n < 16 then bit w (8 + n) else if n < 24 then bit w (n - 8)
     else n < 32 \<and> bit w (n - 24))" for w :: u32
  by (subst REV_or) (auto simp: bit_simps bit_eq_iff dest: bit_imp_le_length)

lemma REV_xor: "REV (v XOR w) = REV v XOR REV w" for v w :: u32
  by (rule bit_word_eqI) (auto simp: REV_bits bit_simps)

lemma REV_NOT: "REV (NOT w) = NOT (REV w)" for w :: u32
  by (rule bit_word_eqI) (auto simp: REV_bits bit_simps)

lemma REV_REV [simp]: "REV (REV w) = w" for w :: u32
  by (rule bit_word_eqI) (auto simp: REV_bits)

lemma REV_ucast: "REV (ucast w :: u64) = ucast (REV w)" for w :: u32
  by (rule bit_word_eqI, subst REV_or) (auto simp: REV_bits bit_simps bit_eq_iff dest: bit_imp_le_length)

section \<open>The tables\<close>

lemma poly_value: "crc_poly = 0xedb88320" by (simp add: crc_poly_def)

lemma crc_shift_ucast: "crc_shift (ucast c) = ucast (crc_bit c)"
proof -
  have "odd (ucast c :: u64) = odd c" by (simp flip: bit_0 add: bit_ucast_iff)
  moreover have drop: "ucast (drop_bit 1 c) = (drop_bit 1 (ucast c) :: u64)"
    by (rule bit_word_eqI) (auto simp: bit_simps dest: bit_imp_le_length)
  moreover have "ucast (0xedb88320 XOR drop_bit 1 c) = (0xedb88320 XOR drop_bit 1 (ucast c) :: u64)"
    unfolding unsigned_xor_eq drop by simp
  ultimately show ?thesis
    by (auto simp: crc_shift_def crc_bit_def poly_value and_one_eq odd_iff_mod_2_eq_one even_iff_mod_2_eq_zero)
qed

lemma crc_shifts_ucast: "(crc_shift ^^ k) (ucast c) = ucast ((crc_bit ^^ k) c)"
  by (induction k) (simp_all add: crc_shift_ucast)

lemma crc_byte_eq: "n < 2 ^ 32 \<Longrightarrow> crc_byte n = ucast ((crc_bit ^^ 8) (word_of_nat n))"
  unfolding crc_byte_def crc_shifts_ucast [symmetric] by (simp add: unsigned_of_nat take_bit_nat_eq_self)


text \<open>The entries of the tables as functions of the byte.\<close>

definition crc_entry :: "nat \<Rightarrow> u32 \<Rightarrow> u32" where
  "crc_entry k x = (if k < 4 then (crc_bit ^^ (8 * k + 8)) x else REV ((crc_bit ^^ (8 * (k - 4) + 8)) x))"

lemma REV_0 [simp]: "REV 0 = (0 :: u32)" by (simp add: REV_def)

lemma crc_entry_xor: "crc_entry k (x XOR y) = crc_entry k x XOR crc_entry k y"
  by (simp add: crc_entry_def crc_bits_xor REV_xor)

lemma crc_entry_0 [simp]: "crc_entry k 0 = 0" by (simp add: crc_entry_def)

lemma nth_8: "map f [0..<8] = [f 0, f 1, f 2, f 3, f 4, f 5, f 6, f 7]"
  by (simp add: upt_rec eval_nat_numeral)

lemma crc_after_ucast:
  assumes "\<And>i :: u64. i < 256 \<Longrightarrow> t ! unat i = ucast ((crc_bit ^^ 8) (ucast i))"
  shows "crc_after t (ucast c) = ucast ((crc_bit ^^ 8) c)"
proof -
  have "ucast c AND 0xff < (256 :: u64)"
    by (rule le_less_trans [OF word_and_le1]) simp
  moreover have "ucast (ucast c AND 0xff :: u64) = take_bit 8 c"
    unfolding masks by (rule bit_word_eqI) (auto simp: bit_simps)
  moreover have "drop_bit 8 (ucast c :: u64) = ucast (drop_bit 8 c)"
    by (rule bit_word_eqI) (auto simp: bit_simps dest: bit_imp_le_length)
  ultimately show ?thesis
    using crc_bits_split [of 8 c] assms by (simp add: crc_after_def unsigned_xor_eq)
qed

lemma generated_tables: "make_crc_table = map (\<lambda>k. map (\<lambda>n. ucast (crc_entry k (word_of_nat n))) [0..<256]) [0..<8]"
proof -
  let ?t = "map crc_byte [0..<256]" and ?x = "\<lambda>n. word_of_nat n :: u32"
  have t: "?t ! unat i = ucast ((crc_bit ^^ 8) (ucast i))" if "i < 256" for i :: u64
    using that by (simp add: crc_byte_eq word_less_nat_alt)
  have "crc_column ?t n = map (\<lambda>k. ucast (crc_entry k (?x n))) [0..<8]" if "n < 256" for n
    using that crc_after_ucast [OF t]
    by (simp add: crc_column_def Let_def crc_byte_eq crc_bits_add REV_ucast nth_8 crc_entry_def del: map_upt_eqI)
  then have "map (\<lambda>column. column ! k) (map (crc_column ?t) [0..<256]) = map (\<lambda>n. ucast (crc_entry k (?x n))) [0..<256]"
    if "k < 8" for k
    using that by simp
  then show ?thesis unfolding make_crc_table_def Let_def by (intro map_cong) auto
qed


text \<open>A linear table is spanned by its entries at the powers of two.\<close>

primrec spanned :: "u64 list \<Rightarrow> u64 list" where
  "spanned [] = [0]"
| "spanned (v # vs) = (let t = spanned vs in t @ map ((XOR) v) t)"

lemma of_nat_top_bit: "n < 2 ^ k \<Longrightarrow> word_of_nat (2 ^ k + n) = push_bit k 1 XOR (word_of_nat n :: 'a::len word)"
proof -
  assume "n < 2 ^ k"
  then have n: "take_bit k (word_of_nat n) = (word_of_nat n :: 'a word)"
    by (metis take_bit_nat_eq_self take_bit_of_nat)
  have "push_bit k 1 + word_of_nat n = push_bit k 1 OR (word_of_nat n :: 'a word)"
    by (rule disjunctive_add) (metis n bit_take_bit_iff bit_push_bit_iff not_le)
  also have "\<dots> = push_bit k 1 XOR word_of_nat n"
    by (rule bit_word_eqI) (metis bit_or_iff bit_xor_iff n bit_take_bit_iff bit_push_bit_iff not_le)
  finally show ?thesis by (simp add: push_bit_eq_mult)
qed

lemma spanned_table:
  fixes f :: "u32 \<Rightarrow> u64"
  assumes "\<And>x y. f (x XOR y) = f x XOR f y" and "f 0 = 0"
  shows "map (\<lambda>n. f (word_of_nat n)) [0..<2 ^ k] = spanned (map (\<lambda>i. f (push_bit i 1)) (rev [0..<k]))"
proof (induction k)
  case (Suc k)
  have "[0..<2 ^ Suc k] = [0..<2 ^ k] @ map ((+) (2 ^ k)) [0..<2 ^ k]"
  proof -
    have "map ((+) (2 ^ k)) [0..<2 ^ k] = map (\<lambda>i. i + 2 ^ k) [0..<2 ^ k]" by (intro map_cong) simp_all
    then show ?thesis
      using map_add_upt [of "2 ^ k" "2 ^ k"] upt_add_eq_append [of 0 "2 ^ k" "2 ^ k"]
      by (simp only: power_Suc mult_2 le0 add_0)
  qed
  moreover have "map (\<lambda>n. f (word_of_nat (2 ^ k + n))) [0..<2 ^ k] =
      map ((XOR) (f (push_bit k 1))) (map (\<lambda>n. f (word_of_nat n)) [0..<2 ^ k])"
    unfolding map_map comp_def by (rule map_cong [OF refl]) (simp only: of_nat_top_bit assms(1) set_upt atLeastLessThan_iff)
  ultimately show ?case using Suc.IH by (simp add: comp_def Let_def)
qed (simp add: assms(2))

fun crc_bit_nat :: "nat \<Rightarrow> nat" where
  "crc_bit_nat n = (if odd n then 0xedb88320 XOR (n div 2) else n div 2)"

lemma crc_bit_of_nat:
  assumes "n < 2 ^ 32"
  shows "crc_bit (word_of_nat n) = word_of_nat (crc_bit_nat n)" and "crc_bit_nat n < 2 ^ 32"
proof -
  have n: "take_bit 32 n = n" using assms by (simp add: take_bit_nat_eq_self)
  have "drop_bit 1 (word_of_nat n) = (word_of_nat (n div 2) :: u32)"
  proof -
    have "unat (drop_bit 1 (word_of_nat n :: u32)) = n div 2"
      unfolding unat_drop_bit_eq using n by (simp add: unsigned_of_nat drop_bit_Suc)
    moreover have "drop_bit 1 (word_of_nat n :: u32) = word_of_nat (unat (drop_bit 1 (word_of_nat n :: u32)))" by simp
    ultimately show ?thesis by simp
  qed
  then show "crc_bit (word_of_nat n) = word_of_nat (crc_bit_nat n)"
    by (simp add: crc_bit_def of_nat_xor_eq)
  have "take_bit 32 (0xedb88320 XOR (n div 2)) = 0xedb88320 XOR (n div 2)"
    unfolding take_bit_xor using assms by (simp add: take_bit_nat_eq_self)
  then have "0xedb88320 XOR (n div 2) < (2 :: nat) ^ 32" by (metis take_bit_nat_less_exp)
  moreover have "n div 2 < 2 ^ 32" using assms div_le_dividend by (rule le_less_trans [rotated])
  ultimately show "crc_bit_nat n < 2 ^ 32" by simp
qed

lemma crc_bits_of_nat: "n < 2 ^ 32 \<Longrightarrow>
    (crc_bit ^^ k) (word_of_nat n) = word_of_nat ((crc_bit_nat ^^ k) n) \<and> (crc_bit_nat ^^ k) n < 2 ^ 32"
  by (induction k) (auto intro: crc_bit_of_nat simp: crc_bit_of_nat(1) simp del: crc_bit_nat.simps power_numeral)


lemma funpow_bytes:
  "(f ^^ 8) x = f (f (f (f (f (f (f (f x)))))))" "(f ^^ 16) x = (f ^^ 8) ((f ^^ 8) x)"
  "(f ^^ 24) x = (f ^^ 8) ((f ^^ 16) x)" "(f ^^ 32) x = (f ^^ 8) ((f ^^ 24) x)"
  unfolding funpow_add [symmetric, THEN fun_cong, unfolded comp_def] by (simp_all add: eval_nat_numeral)

lemma basis:
  "map (\<lambda>i. ucast (crc_entry k (push_bit i 1)) :: u64) (rev [0..<8]) =
   map (\<lambda>n. ucast (crc_entry k (word_of_nat n))) [128, 64, 32, 16, 8, 4, 2, 1]"
  by (simp add: upt_rec)

lemma entries:
  "map (\<lambda>n. ucast (crc_entry k (word_of_nat n))) [0..<256] =
   spanned (map (\<lambda>n. ucast (crc_entry k (word_of_nat n))) [128, 64, 32, 16, 8, 4, 2, 1])"
  using spanned_table [of "\<lambda>x. ucast (crc_entry k x)" 8] unfolding basis
  by (simp add: crc_entry_xor unsigned_xor_eq)

lemma basis_entries:
  assumes "set ns \<subseteq> {..<2 ^ 32}"
  shows "k < 4 \<Longrightarrow> map (\<lambda>n. ucast (crc_entry k (word_of_nat n)) :: u64) ns =
      map (\<lambda>n. word_of_nat ((crc_bit_nat ^^ (8 * k + 8)) n)) ns"
    and "4 \<le> k \<Longrightarrow> map (\<lambda>n. ucast (crc_entry k (word_of_nat n)) :: u64) ns =
      map (\<lambda>n. ucast (REV (word_of_nat ((crc_bit_nat ^^ (8 * (k - 4) + 8)) n) :: u32))) ns"
proof -
  have "ucast (word_of_nat m :: u32) = (word_of_nat m :: u64)" if "m < 2 ^ 32" for m
    using that by (simp add: unsigned_of_nat take_bit_nat_eq_self)
  then show "k < 4 \<Longrightarrow> map (\<lambda>n. ucast (crc_entry k (word_of_nat n)) :: u64) ns =
      map (\<lambda>n. word_of_nat ((crc_bit_nat ^^ (8 * k + 8)) n)) ns"
    using assms crc_bits_of_nat by (intro map_cong) (auto simp: crc_entry_def simp del: power_numeral)
  show "4 \<le> k \<Longrightarrow> map (\<lambda>n. ucast (crc_entry k (word_of_nat n)) :: u64) ns =
      map (\<lambda>n. ucast (REV (word_of_nat ((crc_bit_nat ^^ (8 * (k - 4) + 8)) n) :: u32))) ns"
    using assms crc_bits_of_nat by (intro map_cong) (auto simp: crc_entry_def simp del: power_numeral)
qed

lemma bytes_basis: "set [128, 64, 32, 16, 8, 4, 2, 1] \<subseteq> {..<2 ^ 32 :: nat}" by simp

lemma table_indices:
  "0 < (4 :: nat)" "1 < (4 :: nat)" "2 < (4 :: nat)" "3 < (4 :: nat)"
  "4 \<le> (4 :: nat)" "4 \<le> (5 :: nat)" "4 \<le> (6 :: nat)" "4 \<le> (7 :: nat)"
  by simp_all

lemmas low_entries = basis_entries(1) [OF bytes_basis table_indices(1)] basis_entries(1) [OF bytes_basis table_indices(2)]
  basis_entries(1) [OF bytes_basis table_indices(3)] basis_entries(1) [OF bytes_basis table_indices(4)]
lemmas high_entries = basis_entries(2) [OF bytes_basis table_indices(5)] basis_entries(2) [OF bytes_basis table_indices(6)]
  basis_entries(2) [OF bytes_basis table_indices(7)] basis_entries(2) [OF bytes_basis table_indices(8)]

lemma table_0: "map (\<lambda>n. ucast (crc_entry 0 (word_of_nat n))) [0..<256] = crc_table_0"
  unfolding entries unfolding low_entries unfolding list.map crc_table_0_def by (simp add: funpow_bytes Let_def REV_def)

lemma table_1: "map (\<lambda>n. ucast (crc_entry 1 (word_of_nat n))) [0..<256] = crc_table_1"
  unfolding entries unfolding low_entries unfolding list.map crc_table_1_def by (simp add: funpow_bytes Let_def REV_def)

lemma table_2: "map (\<lambda>n. ucast (crc_entry 2 (word_of_nat n))) [0..<256] = crc_table_2"
  unfolding entries unfolding low_entries unfolding list.map crc_table_2_def by (simp add: funpow_bytes Let_def REV_def)

lemma table_3: "map (\<lambda>n. ucast (crc_entry 3 (word_of_nat n))) [0..<256] = crc_table_3"
  unfolding entries unfolding low_entries unfolding list.map crc_table_3_def by (simp add: funpow_bytes Let_def REV_def)

lemma table_4: "map (\<lambda>n. ucast (crc_entry 4 (word_of_nat n))) [0..<256] = crc_table_4"
  unfolding entries unfolding high_entries unfolding list.map crc_table_4_def by (simp add: funpow_bytes Let_def REV_def)

lemma table_5: "map (\<lambda>n. ucast (crc_entry 5 (word_of_nat n))) [0..<256] = crc_table_5"
  unfolding entries unfolding high_entries unfolding list.map crc_table_5_def by (simp add: funpow_bytes Let_def REV_def)

lemma table_6: "map (\<lambda>n. ucast (crc_entry 6 (word_of_nat n))) [0..<256] = crc_table_6"
  unfolding entries unfolding high_entries unfolding list.map crc_table_6_def by (simp add: funpow_bytes Let_def REV_def)

lemma table_7: "map (\<lambda>n. ucast (crc_entry 7 (word_of_nat n))) [0..<256] = crc_table_7"
  unfolding entries unfolding high_entries unfolding list.map crc_table_7_def by (simp add: funpow_bytes Let_def REV_def)

lemma crc_table_eq: "crc_table = map (\<lambda>k. map (\<lambda>n. ucast (crc_entry k (word_of_nat n))) [0..<256]) [0..<8]"
  unfolding nth_8 table_0 table_1 table_2 table_3 table_4 table_5 table_6 table_7 crc_table_def ..

section \<open>One byte and one word\<close>

lemma table_entry: "k < 8 \<Longrightarrow> unat i < 256 \<Longrightarrow> table_at k i = ucast (crc_entry k (ucast i))"
  by (simp add: table_at_def crc_table_eq)

lemma and_byte: "x AND 0xff = take_bit 8 x" for x :: "'a::len word"
  unfolding masks by (simp add: take_bit_eq_mask)

lemma low_byte: "unat (take_bit 8 x) < 256" for x :: "'a::len word"
proof -
  have "unat (take_bit 8 x) < 2 ^ 8" unfolding unsigned_take_bit_eq by (rule take_bit_nat_less_exp)
  then show ?thesis by simp
qed

lemma high_byte: "unat (drop_bit 24 x) < 256" for x :: u32
proof -
  have "drop_bit 24 x = take_bit 8 (drop_bit 24 x)"
    by (rule bit_word_eqI) (auto simp: bit_simps dest: bit_imp_le_length)
  then show ?thesis using low_byte [of "drop_bit 24 x"] by metis
qed

lemma drop_byte: "drop_bit 8 (ucast b :: u32) = 0" for b :: u8
  by (rule bit_word_eqI) (auto simp: bit_simps dest: bit_imp_le_length)

lemma down_up [simp]: "ucast (ucast y :: u64) = y" for y :: u32
  by (rule bit_word_eqI) (auto simp: bit_simps)

lemma little1_step: "little1 b c = crc_step b c"
proof -
  let ?x = "c XOR ucast b"
  have "little1 b c = (crc_bit ^^ 8) (take_bit 8 ?x) XOR drop_bit 8 ?x"
    by (simp add: little1_def table_entry and_byte low_byte crc_entry_def unsigned_xor_eq drop_byte drop_bit_xor
        del: take_bit_xor)
  then show ?thesis using crc_bits_split [of 8 ?x] by (simp add: crc_step_def)
qed

text \<open>Four bytes at once: the bytes enter the register together and are shifted out together.\<close>

lemma crc_bits_push:
  assumes "x = take_bit 8 x" and "k \<le> 24"
  shows "(crc_bit ^^ k) (push_bit k x) = x"
proof -
  have "drop_bit k (push_bit k x) = x"
  proof (rule bit_word_eqI)
    fix n assume "n < LENGTH(32)"
    show "bit (drop_bit k (push_bit k x)) n = bit x n"
      using assms bit_take_bit_iff [of 8 x n] by (auto simp: bit_simps)
  qed
  moreover have "take_bit k (push_bit k x) = 0" by (simp add: take_bit_push_bit)
  ultimately show ?thesis by (simp add: crc_bits_drop)
qed

lemma byte_word: "ucast b = take_bit 8 (ucast b :: u32)" for b :: u8
  by (rule bit_word_eqI) (auto simp: bit_simps dest: bit_imp_le_length)

lemma load_little_xor:
  "load_little [b0, b1, b2, b3] = ucast b0 XOR push_bit 8 (ucast b1) XOR push_bit 16 (ucast b2) XOR push_bit 24 (ucast b3)"
  by (rule bit_word_eqI) (auto simp: load_little_def bit_simps dest: bit_imp_le_length)

lemma crc_step_push: "k \<le> 24 \<Longrightarrow> crc_step b ((crc_bit ^^ k) x) = (crc_bit ^^ (8 + k)) (x XOR push_bit k (ucast b))"
  using crc_bits_push [OF byte_word, of k b]
  by (simp add: crc_step_def crc_bits_xor funpow_add)

lemma four_steps:
  "fold crc_step [b0, b1, b2, b3] c = (crc_bit ^^ 32) (c XOR load_little [b0, b1, b2, b3])"
proof -
  have "crc_step b0 c = (crc_bit ^^ 8) (c XOR ucast b0)" by (simp add: crc_step_def)
  then show ?thesis by (simp add: crc_step_push load_little_xor xor.assoc)
qed


lemma word_bytes:
  "x = take_bit 8 x XOR push_bit 8 (take_bit 8 (drop_bit 8 x)) XOR push_bit 16 (take_bit 8 (drop_bit 16 x)) XOR
    push_bit 24 (take_bit 8 (drop_bit 24 x))" for x :: u32
proof (rule bit_word_eqI)
  fix n assume "n < LENGTH(32)"
  then show "bit x n = bit (take_bit 8 x XOR push_bit 8 (take_bit 8 (drop_bit 8 x)) XOR
      push_bit 16 (take_bit 8 (drop_bit 16 x)) XOR push_bit 24 (take_bit 8 (drop_bit 24 x))) n"
    by (cases "n < 8"; cases "n < 16"; cases "n < 24") (simp_all add: bit_simps less_diff_conv2)
qed

lemma crc_32_bits:
  "(crc_bit ^^ 32) x = (crc_bit ^^ 32) (take_bit 8 x) XOR (crc_bit ^^ 24) (take_bit 8 (drop_bit 8 x)) XOR
    (crc_bit ^^ 16) (take_bit 8 (drop_bit 16 x)) XOR (crc_bit ^^ 8) (drop_bit 24 x)"
proof -
  have "(crc_bit ^^ (j + k)) (push_bit k (take_bit 8 y)) = (crc_bit ^^ j) (take_bit 8 y)" if "k \<le> 24" for j k y
    using that by (simp add: funpow_add crc_bits_push)
  from this [of 8 24] this [of 16 16] this [of 24 8]
  have "(crc_bit ^^ 32) (push_bit 8 (take_bit 8 y)) = (crc_bit ^^ 24) (take_bit 8 y)"
    "(crc_bit ^^ 32) (push_bit 16 (take_bit 8 y)) = (crc_bit ^^ 16) (take_bit 8 y)"
    "(crc_bit ^^ 32) (push_bit 24 (take_bit 8 y)) = (crc_bit ^^ 8) (take_bit 8 y)" for y by simp_all
  moreover have "take_bit 8 (drop_bit 24 x) = drop_bit 24 x"
    by (rule bit_word_eqI) (auto simp: bit_simps dest: bit_imp_le_length)
  ultimately have "(crc_bit ^^ 32) (push_bit 24 (take_bit 8 (drop_bit 24 x))) = (crc_bit ^^ 8) (drop_bit 24 x)"
    "\<And>y. (crc_bit ^^ 32) (push_bit 8 (take_bit 8 y)) = (crc_bit ^^ 24) (take_bit 8 y)"
    "\<And>y. (crc_bit ^^ 32) (push_bit 16 (take_bit 8 y)) = (crc_bit ^^ 16) (take_bit 8 y)" by metis+
  then show ?thesis
    using arg_cong [OF word_bytes [of x], of "crc_bit ^^ 32"] by (simp only: crc_bits_xor)
qed

lemma DOLIT4_bits: "DOLIT4 w c = (crc_bit ^^ 32) (c XOR load_little w)"
  unfolding crc_32_bits [of "c XOR load_little w"]
  by (simp add: DOLIT4_def Let_def and_byte low_byte high_byte table_entry crc_entry_def unsigned_xor_eq
      del: take_bit_xor drop_bit_xor)

lemma REV_bytes:
  "take_bit 8 (REV x) = drop_bit 24 x" "take_bit 8 (drop_bit 8 (REV x)) = take_bit 8 (drop_bit 16 x)"
  "take_bit 8 (drop_bit 16 (REV x)) = take_bit 8 (drop_bit 8 x)" "drop_bit 24 (REV x) = take_bit 8 x"
  "push_bit 8 (REV x) = REV (drop_bit 8 x)" for x :: u32
  by (rule bit_word_eqI; auto simp: bit_simps REV_bits dest: bit_imp_le_length)+

lemma big1_step: "big1 b (REV c) = REV (crc_step b c)"
proof -
  let ?x = "c XOR ucast b"
  have x: "take_bit 8 c XOR ucast b = take_bit 8 ?x" using byte_word [of b] by simp
  have "big1 b (REV c) = REV ((crc_bit ^^ 8) (take_bit 8 ?x)) XOR REV (drop_bit 8 ?x)"
    by (simp add: big1_def REV_bytes x table_entry low_byte crc_entry_def unsigned_xor_eq drop_byte drop_bit_xor
        del: take_bit_xor)
  then show ?thesis using crc_bits_split [of 8 ?x] by (simp add: crc_step_def REV_xor)
qed

lemma load_big_REV: "load_big [b0, b1, b2, b3] = REV (load_little [b0, b1, b2, b3])"
  by (rule bit_word_eqI) (auto simp: load_little_def load_big_def bit_simps REV_bits dest: bit_imp_le_length)

lemma DOBIG4_REV: "DOBIG4 [b0, b1, b2, b3] (REV c) = REV (DOLIT4 [b0, b1, b2, b3] c)"
  unfolding DOBIG4_def DOLIT4_def Let_def load_big_REV REV_xor [symmetric] and_byte REV_bytes
  by (simp add: table_entry low_byte high_byte crc_entry_def unsigned_xor_eq REV_xor ac_simps
      del: take_bit_xor drop_bit_xor)

section \<open>The loops\<close>

lemma length_4: "length w = 4 \<Longrightarrow> (\<And>b0 b1 b2 b3. w = [b0, b1, b2, b3] \<Longrightarrow> P) \<Longrightarrow> P"
  by (auto simp: eval_nat_numeral length_Suc_conv)

lemma upt_8: "[0..<8] = [0, 1, 2, 3, 4, 5, 6, 7]"
  using nth_8 [of id] by simp

lemma take_4_concat: "length w = 32 \<Longrightarrow> w = concat (map (\<lambda>k. take 4 (drop (4 * k) w)) [0..<8])"
  by (auto simp: eval_nat_numeral length_Suc_conv)

lemma chunk_loop_fold:
  assumes "\<And>w c. length w = n \<Longrightarrow> f w c = fold step w c" and "chunk_loop n f bs c = (c', bs')"
  shows "fold step bs' c' = fold step bs c"
  using assms
proof (induction n f bs c rule: chunk_loop.induct)
  case (1 n f bs c)
  show ?case
  proof (cases "0 < n \<and> n \<le> length bs")
    case True
    then have "f (take n bs) c = fold step (take n bs) c" using 1(2) by simp
    moreover have "fold step bs' c' = fold step (drop n bs) (f (take n bs) c)"
      using True 1 by (simp add: chunk_loop.simps [of n f bs c])
    ultimately show ?thesis by (metis append_take_drop_id fold_append comp_apply)
  next
    case False
    then show ?thesis using 1(3) by (auto simp: chunk_loop.simps [of n f bs c] split: if_splits)
  qed
qed

lemma align_loop_fold: "align_loop step addr bs c = (c', bs') \<Longrightarrow> fold step bs' c' = fold step bs c"
  by (induction step addr bs c rule: align_loop.induct) (auto split: if_splits)

text \<open>A routine that consumes single bytes, and words of four bytes with the same effect.\<close>

locale word_at_a_time =
  fixes step1 :: "u8 \<Rightarrow> 's \<Rightarrow> 's" and step4 :: "u8 list \<Rightarrow> 's \<Rightarrow> 's"
  assumes step4: "length w = 4 \<Longrightarrow> step4 w c = fold step1 w c"
begin

lemma do32: "length w = 32 \<Longrightarrow> do32 step4 w c = fold step1 w c"
proof -
  assume w: "length w = 32"
  have "do32 step4 w c = fold (\<lambda>k. fold step1 (take 4 (drop (4 * k) w))) [0..<8] c"
    unfolding do32_def using w by (intro fold_cong refl ext) (auto simp: step4)
  also have "\<dots> = fold step1 (concat (map (\<lambda>k. take 4 (drop (4 * k) w)) [0..<8])) c"
    by (simp add: upt_8)
  finally show ?thesis using take_4_concat [OF w] by simp
qed

lemma run:
  "(let (c, buf) = align_loop step1 addr buf c; (c, buf) = chunk_loop 32 (do32 step4) buf c;
        (c, buf) = chunk_loop 4 step4 buf c
    in fold step1 buf c) = fold step1 buf c"
  by (auto simp: split_beta Let_def prod_eq_iff
      chunk_loop_fold [OF do32 surjective_pairing] chunk_loop_fold [OF step4 surjective_pairing]
      align_loop_fold [OF surjective_pairing])

end

interpretation little: word_at_a_time little1 DOLIT4
proof
  fix w :: "u8 list" and c assume "length w = 4"
  then show "DOLIT4 w c = fold little1 w c"
    by (elim length_4) (simp only: four_steps DOLIT4_bits little1_step [abs_def])
qed

text \<open>The big-endian routine works on the register with its bytes reversed.\<close>

lemma fold_big1: "fold big1 bs (REV c) = REV (fold crc_step bs c)"
  by (induction bs arbitrary: c) (simp_all add: big1_step)

interpretation big: word_at_a_time big1 DOBIG4
proof
  fix w :: "u8 list" and c assume "length w = 4"
  then show "DOBIG4 w c = fold big1 w c"
  proof (rule length_4)
    fix b0 b1 b2 b3 assume w: "w = [b0, b1, b2, b3]"
    have "DOBIG4 w (REV (REV c)) = fold big1 w (REV (REV c))"
      unfolding w DOBIG4_REV fold_big1 four_steps DOLIT4_bits ..
    then show ?thesis by simp
  qed
qed

lemma crc32_little_ref: "crc32_little crc addr buf = ucast (crc_ref (ucast crc) buf)"
  using little.run [of addr buf "NOT (ucast crc)"]
  by (simp add: crc32_little_def crc_ref_def little1_step [abs_def] Let_def split: prod.splits)

lemma crc32_big_ref: "crc32_big crc addr buf = ucast (crc_ref (ucast crc) buf)"
  using big.run [of addr buf "REV (NOT (ucast crc))"] fold_big1 [of buf "NOT (ucast crc)", unfolded REV_NOT]
  by (simp add: crc32_big_def crc_ref_def REV_NOT Let_def split: prod.splits)

lemma DO1_step: "DO1 b (ucast c) = ucast (crc_step b c)"
proof -
  have "drop_bit 8 (ucast c :: u64) = ucast (drop_bit 8 c)"
    by (rule bit_word_eqI) (auto simp: bit_simps dest: bit_imp_le_length)
  moreover have "take_bit 8 (ucast c XOR ucast b) = (ucast (take_bit 8 (c XOR ucast b)) :: u64)"
    by (rule bit_word_eqI) (auto simp: bit_simps dest: bit_imp_le_length)
  moreover have "table_at k (ucast i :: u64) = table_at k i" for k and i :: u32
  proof -
    have "unat i < 2 ^ 64" by (rule less_trans [OF unsigned_less]) simp
    then show ?thesis by (simp add: table_at_def unsigned_ucast_eq take_bit_nat_eq_self)
  qed
  ultimately show ?thesis
    unfolding little1_step [of b c, symmetric] little1_def DO1_def and_byte
    by (simp add: low_byte table_entry unsigned_xor_eq del: take_bit_xor)
qed

lemma fold_DO1: "fold DO1 bs (ucast c) = ucast (fold crc_step bs c)"
  by (induction bs arbitrary: c) (simp_all add: DO1_step)

lemma not_32: "ucast c XOR 0xffffffff = (ucast (NOT c) :: u64)" for c :: u32
proof -
  have mask: "0xffffffff = (mask 32 :: u64)" by (simp add: mask_eq_exp_minus_1)
  show ?thesis unfolding mask by (rule bit_word_eqI) (auto simp: bit_simps dest: bit_imp_le_length simp del: mask_numeral)
qed

lemma crc32_plain_ref:
  "(let (crc, buf) = chunk_loop 8 (fold DO1) buf (ucast c XOR 0xffffffff) in fold DO1 buf crc XOR 0xffffffff) =
   ucast (crc_ref c buf)"
  using chunk_loop_fold [of 8 "fold DO1" DO1 buf "ucast c XOR 0xffffffff"]
  by (simp add: crc_ref_def not_32 fold_DO1 split: prod.splits)

text \<open>What every build computes.\<close>

lemma crc32_ref: "crc32 machine (ucast c) addr (Some buf) = ucast (crc_ref c buf)"
  using crc32_plain_ref [of buf c]
  by (cases machine) (simp_all add: crc32_def crc32_little_ref crc32_big_ref Let_def split_beta)

section \<open>Error detection\<close>

lemma xor_0_eq: "x XOR y = 0 \<longleftrightarrow> x = y" for x y :: "'a::len word"
  by (auto simp: bit_eq_iff bit_simps)

lemma xor_cancel: "x XOR y = x XOR z \<longleftrightarrow> y = z" for x y z :: "'a::len word"
  by (auto simp: bit_eq_iff bit_simps)

lemma crc_bit_0_iff: "crc_bit z = 0 \<longleftrightarrow> z = 0"
proof
  assume z: "crc_bit z = 0"
  have "\<not> bit (drop_bit 1 z) 31" by (auto simp: bit_simps dest: bit_imp_le_length)
  moreover have "bit (0xedb88320 :: u32) 31" by simp
  ultimately have "drop_bit 1 z \<noteq> 0xedb88320" by metis
  then have "even z" "drop_bit 1 z = 0" using z by (auto simp: crc_bit_def xor_0_eq split: if_splits)
  then have "\<not> bit z n" for n by (cases n) (auto simp: bit_0 bit_Suc drop_bit_Suc)
  then show "z = 0" by (simp add: bit_eq_iff)
qed simp

lemma crc_bits_inj: "(crc_bit ^^ k) x = (crc_bit ^^ k) y \<longleftrightarrow> x = y"
proof -
  have "(crc_bit ^^ k) z = 0 \<longleftrightarrow> z = 0" for z by (induction k) (simp_all add: crc_bit_0_iff)
  then show ?thesis by (metis crc_bits_xor xor_0_eq)
qed

lemma crc_step_inj: "crc_step b c = crc_step b c' \<longleftrightarrow> c = c'"
  unfolding crc_step_def crc_bits_inj by (auto simp: bit_eq_iff bit_simps)

lemma fold_crc_inj: "fold crc_step bs c = fold crc_step bs c' \<longleftrightarrow> c = c'"
  by (induction bs arbitrary: c c') (simp_all add: crc_step_inj)

lemma bit_load_little:
  "bit (load_little [b0, b1, b2, b3]) n =
    (if n < 8 then bit b0 n else if n < 16 then bit b1 (n - 8) else if n < 24 then bit b2 (n - 16)
     else n < 32 \<and> bit b3 (n - 24))"
proof -
  have no: "8 \<le> m \<Longrightarrow> \<not> bit b m" for b :: u8 and m by (auto dest: bit_imp_le_length)
  show ?thesis
    unfolding load_little_xor
    by (cases "n < 8"; cases "n < 16"; cases "n < 24"; cases "n < 32") (simp_all add: bit_simps no less_diff_conv2)
qed

lemma load_little_bytes:
  "ucast (load_little [b0, b1, b2, b3]) = b0" "ucast (drop_bit 8 (load_little [b0, b1, b2, b3])) = b1"
  "ucast (drop_bit 16 (load_little [b0, b1, b2, b3])) = b2" "ucast (drop_bit 24 (load_little [b0, b1, b2, b3])) = b3"
  by (rule bit_word_eqI; simp only: bit_ucast_iff bit_drop_bit_eq comp_def bit_load_little; simp)+

lemma load_little_inj:
  "length v = 4 \<Longrightarrow> length w = 4 \<Longrightarrow> load_little v = load_little w \<Longrightarrow> v = w"
  by (elim length_4) (metis load_little_bytes)

lemma burst_inj:
  assumes "length u = length v" and "length u \<le> 4" and "fold crc_step u c = fold crc_step v c"
  shows "u = v"
proof -
  let ?z = "replicate (4 - length u) 0"
  have four: "fold crc_step (w @ ?z) c = (crc_bit ^^ 32) (c XOR load_little (w @ ?z))" if "length w = length u" for w
  proof -
    have "length (w @ ?z) = 4" using that assms(2) by simp
    then show ?thesis by (rule length_4) (simp only: four_steps)
  qed
  have "load_little (u @ ?z) = load_little (v @ ?z)"
    using four [of u] four [of v] assms(1,3) by (simp add: crc_bits_inj fold_crc_inj xor_cancel del: replicate.simps)
  then have "u @ ?z = v @ ?z" using assms(1,2) by (intro load_little_inj) auto
  then show ?thesis by simp
qed

lemma crc32_burst_neq:
  fixes c :: u32
  assumes "length u = length v" and "length u \<le> 4" and "u \<noteq> v"
  shows "crc32 m1 (ucast c) a1 (Some (pre @ u @ post)) \<noteq> crc32 m2 (ucast c) a2 (Some (pre @ v @ post))"
proof
  assume "crc32 m1 (ucast c) a1 (Some (pre @ u @ post)) = crc32 m2 (ucast c) a2 (Some (pre @ v @ post))"
  then have "crc_ref c (pre @ u @ post) = crc_ref c (pre @ v @ post)"
    unfolding crc32_ref by (metis down_up)
  then have "fold crc_step u (fold crc_step pre (NOT c)) = fold crc_step v (fold crc_step pre (NOT c))"
    by (simp add: crc_ref_def fold_crc_inj)
  then show False using burst_inj assms by metis
qed

section \<open>Properties\<close>

text \<open>
  The tables of \<open>crc32tbl.h\<close> are those \<open>make_crc_table\<close> generates from the polynomial.
\<close>

theorem crc_table_generated: "make_crc_table = crc_table"
  by (simp only: generated_tables crc_table_eq)

text \<open>
  C21: On every machine, for every alignment and length of the buffer, \<open>crc32\<close> computes what the shift
  register computes bit by bit; for the null pointer it is 0.
\<close>

theorem crc32_equivalent:
  "crc32 machine (ucast c) addr (Some buf) = ucast (crc_ref c buf) \<and> crc32 machine crc addr None = 0" for c :: u32
  using crc32_ref by (simp add: crc32_def)

text \<open>
  The checksum of a buffer can be computed in pieces, also on machines of different byte order.
\<close>

theorem crc32_incremental:
  "crc32 m2 (crc32 m1 (ucast c) a1 (Some xs)) a2 (Some ys) = crc32 m3 (ucast c) a3 (Some (xs @ ys))" for c :: u32
  unfolding crc32_ref by (simp add: crc_ref_def)

text \<open>
  A corruption that is confined to four consecutive bytes always changes the checksum.
\<close>

theorem crc32_detects_bursts:
  fixes c :: u32
  assumes "length u = length v" and "length u \<le> 4" and "u \<noteq> v"
  shows "crc32 m1 (ucast c) a1 (Some (pre @ u @ post)) \<noteq> crc32 m2 (ucast c) a2 (Some (pre @ v @ post))"
  by (rule crc32_burst_neq [OF assms])

theorem crc32_detects_bursts_witness:
  "crc32 LittleEndian (ucast (0 :: u32)) 0 (Some ([1, 2] @ [3, 4] @ [5])) \<noteq>
   crc32 BigEndian (ucast (0 :: u32)) 0 (Some ([1, 2] @ [4, 3] @ [5]))"
  by (rule crc32_detects_bursts) simp_all

text \<open>The check value of the algorithm: the CRC of the digits 1 to 9.\<close>

lemma crc32_check_value: "crc_ref 0 [0x31, 0x32, 0x33, 0x34, 0x35, 0x36, 0x37, 0x38, 0x39] = 0xcbf43926"
  by (simp add: crc_ref_def crc_step_def funpow_bytes crc_bit_def)

end
