(* ===== verification/SbTests.thy ===== *)
theory SbTests
  imports SbRunner
begin

text \<open>
  The small tests of sysbench: \<open>tests/cpu/sb_cpu.c\<close>, \<open>tests/threads/sb_threads.c\<close>,
  \<open>tests/mutex/sb_mutex.c\<close> and \<open>tests/memory/sb_memory.c\<close>.  The state of a test holds its static
  variables and the registered options; the operations become those of an \<open>sb_test\<close>, so that the
  runner of \<open>SbRunner\<close> executes them.  An operation without defined behaviour is a \<open>test_fault\<close>; in the
  assembled test it ends with the return code 1 and the fault is kept in the state.  Event timing and
  log messages are left out.
\<close>

section \<open>Faults\<close>

datatype test_fault = Bad_number | Division_by_zero | Bad_index int | Null_access

definition opt_int :: "string \<Rightarrow> option_t list \<Rightarrow> test_fault + int" where
  "opt_int name opts = (case sb_get_value_int name opts of None \<Rightarrow> Inl Bad_number | Some v \<Rightarrow> Inr v)"

definition opt_u32 :: "string \<Rightarrow> option_t list \<Rightarrow> test_fault + u32" where
  "opt_u32 name opts = bind_res (opt_int name opts) (\<lambda>v. Inr (word_of_int v))"

text \<open>A state with its fault, and the operations on it.\<close>

type_synonym 's faulty = "test_fault option \<times> 's"

definition faulty_op ::
  "('s world \<Rightarrow> 'e + int \<times> 's) \<Rightarrow> ('e option \<times> 's) world \<Rightarrow> int \<times> ('e option \<times> 's) world" where
  "faulty_op f = (\<lambda>(g, _, s). case f (g, s) of Inl e \<Rightarrow> (1, g, Some e, s) | Inr (rc, s) \<Rightarrow> (rc, g, None, s))"

text \<open>A step that may end with a return code: the next one runs only after the code 0.\<close>

type_synonym ('e, 's) steps = "'e + int \<times> 's"

type_synonym 's parsing = "(test_fault, 's) steps"

definition and_then :: "('e, 's) steps \<Rightarrow> ('s \<Rightarrow> ('e, 's) steps) \<Rightarrow> ('e, 's) steps" where
  "and_then p f = bind_res p (\<lambda>(rc, s). if rc \<noteq> 0 then Inr (rc, s) else f s)"

definition check :: "bool \<Rightarrow> 's \<Rightarrow> ('e, 's) steps" where
  "check ok s = Inr (if ok then 0 else 1, s)"

section \<open>The cpu test\<close>

record cpu_state =
  max_prime :: u32
  cpu_performed :: u32
  cpu_opts :: "option_t list"

definition cpu_init :: "cpu_state world \<Rightarrow> test_fault + int \<times> cpu_state" where
  "cpu_init = (\<lambda>(g, s).
     bind_res (opt_u32 ''cpu-max-prime'' (cpu_opts s)) (\<lambda>v.
       let s = s\<lparr>max_prime := v\<rparr>
       in if max_prime s \<le> 0 then Inr (1, s) else Inr (0, s\<lparr>cpu_performed := 0\<rparr>)))"

definition cpu_get_request :: "u32 \<Rightarrow> cpu_state world \<Rightarrow> unit sb_request \<times> cpu_state world" where
  "cpu_get_request tid = (\<lambda>(g, s).
     if cpu_performed s \<ge> max_requests g then (\<lparr>req_type = SB_REQ_TYPE_NULL, req_data = ()\<rparr>, g, s)
     else (\<lparr>req_type = SB_REQ_TYPE_CPU, req_data = ()\<rparr>, g, s\<lparr>cpu_performed := cpu_performed s + 1\<rparr>))"

text \<open>\<open>t = sqrt (c)\<close>, truncated: exact for the numbers below \<open>2 ^ 32\<close> that occur.\<close>

primrec isqrt :: "nat \<Rightarrow> nat" where
  "isqrt 0 = 0"
| "isqrt (Suc n) = (let t = isqrt n in if (t + 1) * (t + 1) \<le> Suc n then t + 1 else t)"

text \<open>The inner loop: the value of \<open>l\<close> when it ends.\<close>

function divisor_loop :: "nat \<Rightarrow> nat \<Rightarrow> nat \<Rightarrow> nat" where
  "divisor_loop c t l = (if l \<le> t then (if c mod l = 0 then l else divisor_loop c t (l + 1)) else l)"
  by pat_completeness auto

termination by (relation "measure (\<lambda>(c, t, l). Suc t - l)") auto

declare divisor_loop.simps [simp del]

definition count_primes :: "nat \<Rightarrow> nat" where
  "count_primes bound =
     fold (\<lambda>c n. let t = isqrt c; l = divisor_loop c t 2 in if l > t then n + 1 else n) [3..<bound] 0"

definition cpu_execute_request :: "unit sb_request \<Rightarrow> u32 \<Rightarrow> cpu_state world \<Rightarrow> int \<times> nat" where
  "cpu_execute_request r tid = (\<lambda>(g, s). (0, count_primes (unat (max_prime s))))"

definition cpu_args :: "sb_arg list" where
  "cpu_args = [\<lparr>arg_name = ''cpu-max-prime'', arg_desc = ''upper limit for primes generator'',
                arg_type = SB_ARG_TYPE_INT, arg_value = Some ''10000''\<rparr>]"

definition no_cmds :: "'w sb_commands" where
  "no_cmds = \<lparr>cmd_help = None, cmd_prepare = None, cmd_run = None, cmd_cleanup = None\<rparr>"

definition cpu_test :: "(cpu_state faulty, unit) sb_test" where
  "cpu_test =
     \<lparr>test_sname = ''cpu'', test_lname = ''CPU performance test'',
      test_ops =
        \<lparr>t_init = Some (faulty_op cpu_init), t_prepare = None, t_thread_init = None, t_print_mode = Some id,
         t_get_request = Some (\<lambda>tid (g, e, s). let (r, g, s) = cpu_get_request tid (g, s) in (r, g, e, s)),
         t_execute_request = Some (\<lambda>r tid (g, e, s). (fst (cpu_execute_request r tid (g, s)), g, e, s)),
         t_print_stats = Some id, t_thread_done = None, t_cleanup = None, t_done = Some (\<lambda>w. (0, w))\<rparr>,
      test_cmds = no_cmds, test_args = Some cpu_args\<rparr>"

section \<open>The threads test\<close>

record threads_state =
  thread_yields :: u32
  thread_locks :: u32
  test_mutexes :: "nat option"    \<comment> \<open>the length of the array\<close>
  threads_performed :: u32
  threads_opts :: "option_t list"

definition threads_init :: "threads_state world \<Rightarrow> test_fault + int \<times> threads_state" where
  "threads_init = (\<lambda>(g, s).
     bind_res (opt_u32 ''thread-yields'' (threads_opts s)) (\<lambda>y.
     bind_res (opt_u32 ''thread-locks'' (threads_opts s)) (\<lambda>l.
       Inr (0, s\<lparr>thread_yields := y, thread_locks := l, threads_performed := 0\<rparr>))))"

text \<open>\<open>mem\<close>: whether \<open>malloc\<close> succeeds.\<close>

definition threads_prepare :: "bool \<Rightarrow> threads_state world \<Rightarrow> test_fault + int \<times> threads_state" where
  "threads_prepare mem = (\<lambda>(g, s).
     if mem then Inr (0, s\<lparr>test_mutexes := Some (unat (thread_locks s))\<rparr>)
     else Inr (1, s\<lparr>test_mutexes := None\<rparr>))"

definition threads_cleanup :: "threads_state world \<Rightarrow> test_fault + int \<times> threads_state" where
  "threads_cleanup = (\<lambda>(g, s). Inr (0, s\<lparr>test_mutexes := None\<rparr>))"

definition threads_get_request ::
  "u32 \<Rightarrow> threads_state world \<Rightarrow> test_fault + u32 sb_request \<times> threads_state world" where
  "threads_get_request tid = (\<lambda>(g, s).
     if threads_performed s \<ge> max_requests g then Inr (\<lparr>req_type = SB_REQ_TYPE_NULL, req_data = 0\<rparr>, g, s)
     else if thread_locks s = 0 then Inl Division_by_zero
     else Inr (\<lparr>req_type = SB_REQ_TYPE_THREADS, req_data = threads_performed s mod thread_locks s\<rparr>,
               g, s\<lparr>threads_performed := threads_performed s + 1\<rparr>))"

text \<open>
  The request locks, yields and unlocks its mutex \<open>thread_yields\<close> times: the sequence of the
  operations on the array.
\<close>

datatype mutex_action = Lock nat | Yield | Unlock nat

definition threads_execute_request ::
  "u32 sb_request \<Rightarrow> u32 \<Rightarrow> threads_state world \<Rightarrow> test_fault + int \<times> mutex_action list" where
  "threads_execute_request r tid = (\<lambda>(g, s).
     let i = unat (req_data r)
     in if thread_yields s = 0 then Inr (0, [])
        else case test_mutexes s of
               None \<Rightarrow> Inl Null_access
             | Some n \<Rightarrow>
                 if i < n then Inr (0, concat (replicate (unat (thread_yields s)) [Lock i, Yield, Unlock i]))
                 else Inl (Bad_index (int i)))"

section \<open>The mutex test\<close>

record mutex_state =
  mutex_num :: u32
  mutex_loops :: u32
  mutex_locks :: u32
  global_var :: u32
  mutex_array :: "nat option"
  mutex_opts :: "option_t list"

record sb_mutex_request =
  nlocks :: u32
  nloops :: u32

definition mutex_init :: "bool \<Rightarrow> mutex_state world \<Rightarrow> test_fault + int \<times> mutex_state" where
  "mutex_init mem = (\<lambda>(g, s).
     bind_res (opt_u32 ''mutex-num'' (mutex_opts s)) (\<lambda>n.
     bind_res (opt_u32 ''mutex-loops'' (mutex_opts s)) (\<lambda>k.
     bind_res (opt_u32 ''mutex-locks'' (mutex_opts s)) (\<lambda>l.
       let s = s\<lparr>mutex_num := n, mutex_loops := k, mutex_locks := l\<rparr>
       in if mem then Inr (0, s\<lparr>mutex_array := Some (unat n)\<rparr>) else Inr (1, s\<lparr>mutex_array := None\<rparr>)))))"

definition mutex_done :: "mutex_state world \<Rightarrow> test_fault + int \<times> mutex_state" where
  "mutex_done = (\<lambda>(g, s). Inr (0, s\<lparr>mutex_array := None\<rparr>))"

definition mutex_get_request :: "u32 \<Rightarrow> mutex_state world \<Rightarrow> sb_mutex_request sb_request \<times> mutex_state world" where
  "mutex_get_request tid = (\<lambda>(g, s).
     (\<lparr>req_type = SB_REQ_TYPE_MUTEX, req_data = \<lparr>nlocks = mutex_locks s, nloops = mutex_loops s\<rparr>\<rparr>, g, s))"

text \<open>
  One round of the loop locks a random mutex of the array (\<open>rand\<close> is the result of \<open>rand ()\<close>) and
  increments the global variable; the empty loop before has no effect.  The loop tests \<open>nlocks\<close>
  after it has been decremented; \<open>rands k\<close> is the random number of round \<open>k\<close>.
\<close>

definition mutex_round :: "nat \<Rightarrow> mutex_state \<Rightarrow> test_fault + mutex_action list \<times> mutex_state" where
  "mutex_round rand s =
     (if mutex_num s = 0 then Inl Division_by_zero
      else let current_lock = rand mod unat (mutex_num s)
           in case mutex_array s of
                None \<Rightarrow> Inl Null_access
              | Some n \<Rightarrow>
                  if current_lock < n then Inr ([Lock current_lock, Unlock current_lock], s\<lparr>global_var := global_var s + 1\<rparr>)
                  else Inl (Bad_index (int current_lock)))"

function mutex_rounds ::
  "(nat \<Rightarrow> nat) \<Rightarrow> nat \<Rightarrow> u32 \<Rightarrow> mutex_state \<Rightarrow> test_fault + mutex_action list \<times> mutex_state" where
  "mutex_rounds rands k n s =
     bind_res (mutex_round (rands k) s) (\<lambda>(as, s).
       let n = n - 1
       in if n > 0 then bind_res (mutex_rounds rands (k + 1) n s) (\<lambda>(bs, s). Inr (as @ bs, s))
          else Inr (as, s))"
  by pat_completeness auto

termination
proof (relation "measure (\<lambda>(rands, k, n, s). unat (n - 1))")
  fix n :: u32
  have "unat (n - 1 - 1) < unat (n - 1)" if "n - 1 > 0"
    using that unat_minus_one [of "n - 1"] unat_gt_0 [of "n - 1"] by (simp add: word_gt_0 del: unat_gt_0)
  then show "((rands, k + 1, xa, s'), rands, k, n, s) \<in> measure (\<lambda>(rands, k, n, s). unat (n - 1))"
    if "xa = n - 1" "xa > 0" for rands k xa s and s' s'' :: mutex_state using that by simp
qed simp_all

declare mutex_rounds.simps [simp del]

definition mutex_execute_request ::
  "(nat \<Rightarrow> nat) \<Rightarrow> sb_mutex_request sb_request \<Rightarrow> u32 \<Rightarrow> mutex_state world \<Rightarrow>
   test_fault + int \<times> mutex_action list \<times> mutex_state" where
  "mutex_execute_request rands r tid = (\<lambda>(g, s).
     bind_res (mutex_rounds rands 0 (nlocks (req_data r)) s) (\<lambda>(as, s). Inr (1, as, s)))"

section \<open>The memory test\<close>

datatype sb_mem_op = SB_MEM_OP_NONE | SB_MEM_OP_READ | SB_MEM_OP_WRITE

datatype sb_mem_scope = SB_MEM_SCOPE_GLOBAL | SB_MEM_SCOPE_LOCAL

record sb_mem_request =
  mem_type :: sb_mem_op
  mem_block_size :: u64
  mem_scope :: sb_mem_scope

record memory_state =
  memory_block_size :: u64    \<comment> \<open>\<open>ssize_t\<close>\<close>
  memory_total_size :: u64
  memory_scope :: sb_mem_scope
  memory_oper :: sb_mem_op
  memory_access_rnd :: bool
  total_ops :: u32
  total_bytes :: u64
  mem_buffers :: "int list list option"
  mem_buffer :: "int list option"
  memory_rng :: "48 word"
  memory_opts :: "option_t list"

text \<open>A string option that is compared: \<open>strcmp\<close> of the null pointer is a fault.\<close>

definition opt_string :: "string \<Rightarrow> option_t list \<Rightarrow> test_fault + string" where
  "opt_string name opts = (case sb_get_value_string name opts of None \<Rightarrow> Inl Null_access | Some s \<Rightarrow> Inr s)"

definition parse_scope :: "string \<Rightarrow> sb_mem_scope option" where
  "parse_scope s =
     (if s = ''global'' then Some SB_MEM_SCOPE_GLOBAL else if s = ''local'' then Some SB_MEM_SCOPE_LOCAL else None)"

definition parse_oper :: "string \<Rightarrow> sb_mem_op option" where
  "parse_oper s =
     (if s = ''write'' then Some SB_MEM_OP_WRITE else if s = ''read'' then Some SB_MEM_OP_READ
      else if s = ''none'' then Some SB_MEM_OP_NONE else None)"

definition parse_access :: "string \<Rightarrow> bool option" where
  "parse_access s = (if s = ''seq'' then Some False else if s = ''rnd'' then Some True else None)"

definition block_words :: "memory_state \<Rightarrow> nat" where
  "block_words s = unat (memory_block_size s) div 4"

text \<open>
  The allocation of the buffers, without huge pages; \<open>alloc k\<close> tells whether the \<open>k\<close>-th call of
  \<open>malloc\<close> succeeds.
\<close>

definition memory_buffers :: "(nat \<Rightarrow> bool) \<Rightarrow> memory_state world \<Rightarrow> int \<times> memory_state" where
  "memory_buffers alloc = (\<lambda>(g, s).
     let zeros = replicate (block_words s) 0; n = unat (num_threads g)
     in case memory_scope s of
          SB_MEM_SCOPE_GLOBAL \<Rightarrow>
            if alloc 0 then (0, s\<lparr>mem_buffer := Some zeros\<rparr>) else (1, s\<lparr>mem_buffer := None\<rparr>)
        | SB_MEM_SCOPE_LOCAL \<Rightarrow>
            if \<not> alloc 0 then (1, s\<lparr>mem_buffers := None\<rparr>)
            else if list_all (\<lambda>i. alloc (Suc i)) [0..<n] then (0, s\<lparr>mem_buffers := Some (replicate n zeros)\<rparr>)
            else (1, s\<lparr>mem_buffers := Some (replicate (length (takeWhile (\<lambda>i. alloc (Suc i)) [0..<n])) zeros)\<rparr>))"

definition memory_init :: "(nat \<Rightarrow> bool) \<Rightarrow> memory_state world \<Rightarrow> test_fault + int \<times> memory_state" where
  "memory_init alloc = (\<lambda>(g, s).
     let opts = memory_opts s; s = s\<lparr>memory_block_size := sb_get_value_size ''memory-block-size'' opts\<rparr>
     in if unat (memory_block_size s) mod 4 \<noteq> 0 then Inr (1, s)
        else
          let s = s\<lparr>memory_total_size := sb_get_value_size ''memory-total-size'' opts\<rparr>
          in bind_res (opt_string ''memory-scope'' opts) (\<lambda>v.
             case parse_scope v of
               None \<Rightarrow> Inr (1, s)
             | Some scope \<Rightarrow>
                 let s = s\<lparr>memory_scope := scope\<rparr>
                 in bind_res (opt_string ''memory-oper'' opts) (\<lambda>v.
                    case parse_oper v of
                      None \<Rightarrow> Inr (1, s)
                    | Some oper \<Rightarrow>
                        let s = s\<lparr>memory_oper := oper\<rparr>
                        in bind_res (opt_string ''memory-access-mode'' opts) (\<lambda>v.
                           case parse_access v of
                             None \<Rightarrow> Inr (1, s)
                           | Some rnd \<Rightarrow> Inr (memory_buffers alloc (g, s\<lparr>memory_access_rnd := rnd\<rparr>))))))"

definition memory_get_request :: "u32 \<Rightarrow> memory_state world \<Rightarrow> sb_mem_request sb_request \<times> memory_state world" where
  "memory_get_request tid = (\<lambda>(g, s).
     let req = \<lparr>mem_type = memory_oper s, mem_block_size = memory_block_size s, mem_scope = memory_scope s\<rparr>
     in if total_bytes s \<ge> memory_total_size s then (\<lparr>req_type = SB_REQ_TYPE_NULL, req_data = req\<rparr>, g, s)
        else (\<lparr>req_type = SB_REQ_TYPE_MEMORY, req_data = req\<rparr>, g,
              s\<lparr>total_ops := total_ops s + 1, total_bytes := total_bytes s + memory_block_size s\<rparr>))"

text \<open>
  The accesses of one request to its buffer.  The random index is computed from the one number drawn
  before the loop, so every round of the loop has the same index; the floating point product is below
  the number of words.
\<close>

definition access_buffer :: "nat \<Rightarrow> sb_mem_op \<Rightarrow> memory_state \<Rightarrow> int list \<Rightarrow> test_fault + int \<times> int list" where
  "access_buffer rand oper s buf =
     (if memory_access_rnd s then
        let idx = rand * block_words s div SB_MAX_RND; runs = (sint (memory_block_size s) > 0)
        in case oper of
             SB_MEM_OP_NONE \<Rightarrow> Inr (1, buf)
           | SB_MEM_OP_READ \<Rightarrow> if runs \<and> idx \<ge> length buf then Inl (Bad_index (int idx)) else Inr (0, buf)
           | SB_MEM_OP_WRITE \<Rightarrow>
               if runs \<and> idx \<ge> length buf then Inl (Bad_index (int idx))
               else Inr (0, if runs then buf[idx := 0] else buf)
      else
        case oper of
          SB_MEM_OP_NONE \<Rightarrow> Inr (0, buf)
        | SB_MEM_OP_READ \<Rightarrow>
            if block_words s > length buf then Inl (Bad_index (int (length buf))) else Inr (0, buf)
        | SB_MEM_OP_WRITE \<Rightarrow>
            if block_words s > length buf then Inl (Bad_index (int (length buf)))
            else Inr (0, replicate (block_words s) 0 @ drop (block_words s) buf))"

definition memory_execute_request ::
  "sb_mem_request sb_request \<Rightarrow> u32 \<Rightarrow> memory_state world \<Rightarrow> test_fault + int \<times> memory_state" where
  "memory_execute_request r tid = (\<lambda>(g, s).
     let (rand, rng) = (if memory_access_rnd s then sb_rnd (memory_rng s) else (0, memory_rng s))
     in case mem_scope (req_data r) of
          SB_MEM_SCOPE_GLOBAL \<Rightarrow>
            (case mem_buffer s of
               None \<Rightarrow> Inl Null_access
             | Some buf \<Rightarrow> bind_res (access_buffer rand (mem_type (req_data r)) s buf)
                             (\<lambda>(rc, buf). Inr (rc, s\<lparr>mem_buffer := Some buf, memory_rng := rng\<rparr>)))
        | SB_MEM_SCOPE_LOCAL \<Rightarrow>
            (case mem_buffers s of
               None \<Rightarrow> Inl Null_access
             | Some bufs \<Rightarrow>
                 if unat tid < length bufs then
                   bind_res (access_buffer rand (mem_type (req_data r)) s (bufs ! unat tid))
                     (\<lambda>(rc, buf). Inr (rc, s\<lparr>mem_buffers := Some (bufs[unat tid := buf]), memory_rng := rng\<rparr>))
                 else Inl (Bad_index (int (unat tid)))))"

definition memory_args :: "sb_arg list" where
  "memory_args =
     [\<lparr>arg_name = ''memory-block-size'', arg_desc = ''size of memory block for test'', arg_type = SB_ARG_TYPE_SIZE,
       arg_value = Some ''1K''\<rparr>,
      \<lparr>arg_name = ''memory-total-size'', arg_desc = ''total size of data to transfer'', arg_type = SB_ARG_TYPE_SIZE,
       arg_value = Some ''100G''\<rparr>,
      \<lparr>arg_name = ''memory-scope'', arg_desc = ''memory access scope {global,local}'', arg_type = SB_ARG_TYPE_STRING,
       arg_value = Some ''global''\<rparr>,
      \<lparr>arg_name = ''memory-oper'', arg_desc = ''type of memory operations {read, write, none}'', arg_type = SB_ARG_TYPE_STRING,
       arg_value = Some ''write''\<rparr>,
      \<lparr>arg_name = ''memory-access-mode'', arg_desc = ''memory access mode {seq,rnd}'', arg_type = SB_ARG_TYPE_STRING,
       arg_value = Some ''seq''\<rparr>]"

section \<open>The assembled tests\<close>

definition faulty_get ::
  "(u32 \<Rightarrow> 's world \<Rightarrow> 'e + 'r sb_request \<times> 's world) \<Rightarrow> 'r \<Rightarrow>
   u32 \<Rightarrow> ('e option \<times> 's) world \<Rightarrow> 'r sb_request \<times> ('e option \<times> 's) world" where
  "faulty_get f junk tid = (\<lambda>(g, e, s).
     case f tid (g, s) of
       Inl e \<Rightarrow> (\<lparr>req_type = SB_REQ_TYPE_NULL, req_data = junk\<rparr>, g, Some e, s)
     | Inr (r, g, s) \<Rightarrow> (r, g, e, s))"

definition threads_args :: "sb_arg list" where
  "threads_args =
     [\<lparr>arg_name = ''thread-yields'', arg_desc = ''number of yields to do per request'', arg_type = SB_ARG_TYPE_INT,
       arg_value = Some ''1000''\<rparr>,
      \<lparr>arg_name = ''thread-locks'', arg_desc = ''number of locks per thread'', arg_type = SB_ARG_TYPE_INT,
       arg_value = Some ''8''\<rparr>]"

definition threads_test :: "bool \<Rightarrow> (threads_state faulty, u32) sb_test" where
  "threads_test mem =
     \<lparr>test_sname = ''threads'', test_lname = ''Threads subsystem performance test'',
      test_ops =
        \<lparr>t_init = Some (faulty_op threads_init), t_prepare = Some (faulty_op (threads_prepare mem)),
         t_thread_init = None, t_print_mode = Some id,
         t_get_request = Some (faulty_get threads_get_request 0),
         t_execute_request = Some (\<lambda>r tid. faulty_op (\<lambda>(g, s).
           bind_res (threads_execute_request r tid (g, s)) (\<lambda>(rc, as). Inr (rc, s)))),
         t_print_stats = None, t_thread_done = None, t_cleanup = Some (faulty_op threads_cleanup), t_done = None\<rparr>,
      test_cmds = no_cmds, test_args = Some threads_args\<rparr>"

definition mutex_args :: "sb_arg list" where
  "mutex_args =
     [\<lparr>arg_name = ''mutex-num'', arg_desc = ''total size of mutex array'', arg_type = SB_ARG_TYPE_INT,
       arg_value = Some ''4096''\<rparr>,
      \<lparr>arg_name = ''mutex-locks'', arg_desc = ''number of mutex locks to do per thread'', arg_type = SB_ARG_TYPE_INT,
       arg_value = Some ''50000''\<rparr>,
      \<lparr>arg_name = ''mutex-loops'', arg_desc = ''number of empty loops to do inside mutex lock'', arg_type = SB_ARG_TYPE_INT,
       arg_value = Some ''10000''\<rparr>]"

definition mutex_test :: "bool \<Rightarrow> (nat \<Rightarrow> nat) \<Rightarrow> (mutex_state faulty, sb_mutex_request) sb_test" where
  "mutex_test mem rands =
     \<lparr>test_sname = ''mutex'', test_lname = ''Mutex performance test'',
      test_ops =
        \<lparr>t_init = Some (faulty_op (mutex_init mem)), t_prepare = None, t_thread_init = None, t_print_mode = Some id,
         t_get_request = Some (\<lambda>tid (g, e, s). let (r, g, s) = mutex_get_request tid (g, s) in (r, g, e, s)),
         t_execute_request = Some (\<lambda>r tid. faulty_op (\<lambda>(g, s).
           bind_res (mutex_execute_request rands r tid (g, s)) (\<lambda>(rc, as, s). Inr (rc, s)))),
         t_print_stats = None, t_thread_done = None, t_cleanup = None, t_done = Some (faulty_op mutex_done)\<rparr>,
      test_cmds = no_cmds, test_args = Some mutex_args\<rparr>"

definition memory_test :: "(nat \<Rightarrow> bool) \<Rightarrow> (memory_state faulty, sb_mem_request) sb_test" where
  "memory_test alloc =
     \<lparr>test_sname = ''memory'', test_lname = ''Memory functions speed test'',
      test_ops =
        \<lparr>t_init = Some (faulty_op (memory_init alloc)), t_prepare = None, t_thread_init = None, t_print_mode = Some id,
         t_get_request = Some (\<lambda>tid (g, e, s). let (r, g, s) = memory_get_request tid (g, s) in (r, g, e, s)),
         t_execute_request = Some (\<lambda>r tid. faulty_op (memory_execute_request r tid)),
         t_print_stats = Some id, t_thread_done = None, t_cleanup = None, t_done = None\<rparr>,
      test_cmds = no_cmds, test_args = Some memory_args\<rparr>"

section \<open>Counting primes\<close>

definition is_prime :: "nat \<Rightarrow> bool" where
  "is_prime n \<longleftrightarrow> 1 < n \<and> (\<forall>d. d dvd n \<longrightarrow> d = 1 \<or> d = n)"

lemma isqrt_bounds: "isqrt n * isqrt n \<le> n \<and> n < (isqrt n + 1) * (isqrt n + 1)"
  by (induction n) (auto simp: Let_def)

lemma divisor_loop_iff: "divisor_loop c t l > t \<longleftrightarrow> (\<forall>d. l \<le> d \<and> d \<le> t \<longrightarrow> \<not> d dvd c)"
proof (induction c t l rule: divisor_loop.induct)
  case (1 c t l)
  show ?case
  proof (cases "l \<le> t \<and> c mod l \<noteq> 0")
    case True
    then have "divisor_loop c t l = divisor_loop c t (l + 1)" "\<not> l dvd c"
      by (simp_all add: divisor_loop.simps [of c t l] dvd_eq_mod_eq_0)
    then show ?thesis using 1 True by (metis Suc_eq_plus1 Suc_leI le_eq_less_or_eq le_neq_implies_less less_eq_Suc_le)
  next
    case False
    then show ?thesis by (auto simp: divisor_loop.simps [of c t l] dvd_eq_mod_eq_0)
  qed
qed

lemma prime_iff: "2 \<le> c \<Longrightarrow> is_prime c \<longleftrightarrow> (\<forall>d. 2 \<le> d \<and> d \<le> isqrt c \<longrightarrow> \<not> d dvd c)"
proof
  assume c: "2 \<le> c" and "is_prime c"
  have "isqrt c < c"
  proof (rule ccontr)
    assume "\<not> isqrt c < c"
    then have "2 * c \<le> isqrt c * isqrt c" using c by (intro mult_le_mono) auto
    then show False using isqrt_bounds [of c] c by linarith
  qed
  then show "\<forall>d. 2 \<le> d \<and> d \<le> isqrt c \<longrightarrow> \<not> d dvd c" using \<open>is_prime c\<close> by (auto simp: is_prime_def)
next
  assume c: "2 \<le> c" and no: "\<forall>d. 2 \<le> d \<and> d \<le> isqrt c \<longrightarrow> \<not> d dvd c"
  have "d = 1 \<or> d = c" if d: "d dvd c" for d
  proof (rule ccontr)
    assume n: "\<not> (d = 1 \<or> d = c)"
    from d obtain e where e: "c = d * e" by (elim dvdE)
    then have "2 \<le> d" "2 \<le> e" using c n by (cases d; cases "d - 1"; cases e; cases "e - 1"; auto)+
    moreover have "\<not> d \<le> isqrt c" "\<not> e \<le> isqrt c" using no d e \<open>2 \<le> d\<close> \<open>2 \<le> e\<close> by (metis dvd_triv_left dvd_triv_right)+
    then have "(isqrt c + 1) * (isqrt c + 1) \<le> d * e" by (intro mult_le_mono) auto
    ultimately show False using e isqrt_bounds [of c] by simp
  qed
  then show "is_prime c" using c by (simp add: is_prime_def)
qed

lemma count_fold: "fold (\<lambda>c n. if P c then n + 1 else n) cs k = k + length (filter P cs)" for k :: nat
  by (induction cs arbitrary: k) auto

lemma count_primes_eq: "count_primes bound = card {p. is_prime p \<and> 3 \<le> p \<and> p < bound}"
proof -
  let ?P = "\<lambda>c. divisor_loop c (isqrt c) 2 > isqrt c"
  have "count_primes bound = card (set (filter ?P [3..<bound]))"
    unfolding count_primes_def Let_def count_fold by (subst distinct_card) auto
  also have "set (filter ?P [3..<bound]) = {p. is_prime p \<and> 3 \<le> p \<and> p < bound}"
    using divisor_loop_iff prime_iff by auto
  finally show ?thesis .
qed

section \<open>Runs of one thread\<close>

lemma no_time_limit: "max_time_limit g = 0 \<Longrightarrow> time_limit_exceeded now g = Some False"
  by (simp add: time_limit_exceeded_def)

text \<open>
  One request: \<open>serve_step r w w''\<close> holds when the thread gets the request \<open>r\<close> in \<open>w\<close> and executes it
  without an error and within the time limit.
\<close>

definition serve_step :: "'r \<Rightarrow> ('w, 'r) sb_test \<Rightarrow> u32 \<Rightarrow> timespec \<Rightarrow> 'r sb_request \<Rightarrow> 'w world \<Rightarrow> 'w world \<Rightarrow> bool" where
  "serve_step junk test tid now r w w'' \<longleftrightarrow>
     (\<exists>w'. get_request junk test tid w = (r, w') \<and> req_type r \<noteq> SB_REQ_TYPE_NULL \<and>
        execute_request test r tid w' = (0, w'') \<and>
        time_limit_exceeded now (fst w'') = Some False \<and> error (fst w'') = 0)"

lemma serves_steps:
  assumes "\<And>k w. k < n \<Longrightarrow> I k w \<Longrightarrow> \<exists>w''. serve_step junk test tid now (r k) w w'' \<and> I (Suc k) w''"
    and "\<And>w. I n w \<Longrightarrow> stop w" and "k \<le> n" and "I k w"
  shows "serves junk test tid now stop (map r [k..<n]) w"
  using assms(3,4)
proof (induction "n - k" arbitrary: k w)
  case 0
  then show ?case using assms(2) by simp
next
  case (Suc d)
  then have k: "k < n" and I: "I k w" by simp_all
  from assms(1) [OF this] obtain w'' where "serve_step junk test tid now (r k) w w''" "I (Suc k) w''" by blast
  moreover have "serves junk test tid now stop (map r [Suc k..<n]) w''" using Suc \<open>I (Suc k) w''\<close> k by simp
  ultimately show ?case using k by (auto simp: upt_conv_Cons serve_step_def)
qed

text \<open>A thread whose requests never end.\<close>

lemma runner_run_endless:
  assumes "\<And>w. I w \<Longrightarrow> \<exists>r w''. serve_step junk test tid now r w w'' \<and> I w''" and "I w"
  shows "runner_run k junk test tid now R_get w = None"
  using assms(2)
proof (induction k arbitrary: w rule: less_induct)
  case (less k)
  obtain r w' w'' where get: "get_request junk test tid w = (r, w')" and ty: "req_type r \<noteq> SB_REQ_TYPE_NULL"
    and exec: "execute_request test r tid w' = (0, w'')"
    and lim: "time_limit_exceeded now (fst w'') = Some False" "error (fst w'') = 0" and I: "I w''"
    using assms(1) [OF less.prems] by (auto simp: serve_step_def)
  consider "k = 0" | "k = 1" | "k = 2" | "k = 3" | j where "k = Suc (Suc (Suc (Suc j)))"
    by (cases k; cases "k - 1"; cases "k - 2"; cases "k - 3") auto
  then show ?case
  proof cases
    case 5
    then have "runner_run j junk test tid now R_get w'' = None" using less.IH I by simp
    then show ?thesis using get ty exec lim by (simp add: 5 runner_step_def local_pc_def)
  qed (use get ty exec lim in \<open>simp_all add: runner_step_def local_pc_def eval_nat_numeral\<close>)
qed

section \<open>The invariant of the memory test\<close>

text \<open>The buffers that \<open>memory_init\<close> leaves are large enough for every access of the requests.\<close>

definition buffers_ok :: "nat \<Rightarrow> memory_state \<Rightarrow> bool" where
  "buffers_ok nt s \<longleftrightarrow>
     (case memory_scope s of
        SB_MEM_SCOPE_GLOBAL \<Rightarrow> \<exists>buf. mem_buffer s = Some buf \<and> length buf = block_words s
      | SB_MEM_SCOPE_LOCAL \<Rightarrow>
          \<exists>bufs. mem_buffers s = Some bufs \<and> length bufs = nt \<and> (\<forall>buf \<in> set bufs. length buf = block_words s))"

lemma memory_init_ok:
  assumes "memory_init alloc (g, s) = Inr (0, s')"
  shows "buffers_ok (unat (num_threads g)) s'" and "total_bytes s' = total_bytes s" and "unat (memory_block_size s') mod 4 = 0"
  using assms
  by (auto simp: memory_init_def memory_buffers_def buffers_ok_def block_words_def bind_res_def Let_def mod_eq_0_iff_dvd
      split: if_splits sum.splits option.splits sb_mem_scope.splits)

lemma access_buffer_ok:
  assumes "length buf = block_words s" and "\<not> (memory_access_rnd s \<and> oper = SB_MEM_OP_NONE)"
    and "rand < SB_MAX_RND" and "unat (memory_block_size s) mod 4 = 0"
  shows "\<exists>buf'. access_buffer rand oper s buf = Inr (0, buf') \<and> length buf' = block_words s"
proof -
  have "rand * block_words s div SB_MAX_RND < block_words s" if "sint (memory_block_size s) > 0"
  proof -
    have "memory_block_size s \<noteq> 0" using that by auto
    then have "0 < unat (memory_block_size s)" by (simp add: unat_gt_0)
    moreover have "4 dvd unat (memory_block_size s)" using assms(4) by auto
    ultimately have "0 < block_words s" by (auto simp: block_words_def elim!: dvdE)
    then have "rand * block_words s < SB_MAX_RND * block_words s" using assms(3) by simp
    then show ?thesis by (simp add: less_mult_imp_div_less mult.commute)
  qed
  then show ?thesis using assms(1,2) by (cases oper) (auto simp: access_buffer_def Let_def)
qed

definition memory_request :: "memory_state \<Rightarrow> sb_mem_request sb_request" where
  "memory_request s =
     \<lparr>req_type = SB_REQ_TYPE_MEMORY,
      req_data = \<lparr>mem_type = memory_oper s, mem_block_size = memory_block_size s, mem_scope = memory_scope s\<rparr>\<rparr>"

lemma memory_execute_ok:
  assumes "buffers_ok (unat (num_threads g)) s" and "unat tid < unat (num_threads g)"
    and "\<not> (memory_access_rnd s \<and> memory_oper s = SB_MEM_OP_NONE)" and "unat (memory_block_size s) mod 4 = 0"
  shows "\<exists>bufs buf rng. memory_execute_request (memory_request s) tid (g, s) =
      Inr (0, s\<lparr>mem_buffers := bufs, mem_buffer := buf, memory_rng := rng\<rparr>) \<and>
      buffers_ok (unat (num_threads g)) (s\<lparr>mem_buffers := bufs, mem_buffer := buf, memory_rng := rng\<rparr>)"
proof -
  let ?oper = "memory_oper s"
  obtain rand rng where r: "(if memory_access_rnd s then sb_rnd (memory_rng s) else (0, memory_rng s)) = (rand, rng)"
    by fastforce
  have rand: "rand < SB_MAX_RND"
    using r sb_rnd_less [of "memory_rng s"] by (auto simp: SB_MAX_RND_def split: if_splits)
  note access = access_buffer_ok [OF _ assms(3) rand assms(4)]
  show ?thesis
  proof (cases "memory_scope s")
    case SB_MEM_SCOPE_GLOBAL
    then obtain buf where buf: "mem_buffer s = Some buf" "length buf = block_words s"
      using assms(1) by (auto simp: buffers_ok_def)
    obtain buf' where buf': "access_buffer rand ?oper s buf = Inr (0, buf')" "length buf' = block_words s"
      using access [OF buf(2)] by blast
    have "memory_execute_request (memory_request s) tid (g, s) =
        Inr (0, s\<lparr>mem_buffers := mem_buffers s, mem_buffer := Some buf', memory_rng := rng\<rparr>)"
      using SB_MEM_SCOPE_GLOBAL buf buf' r by (simp add: memory_execute_request_def memory_request_def)
    moreover have "buffers_ok (unat (num_threads g)) (s\<lparr>mem_buffers := mem_buffers s, mem_buffer := Some buf', memory_rng := rng\<rparr>)"
      using SB_MEM_SCOPE_GLOBAL buf' by (simp add: buffers_ok_def block_words_def)
    ultimately show ?thesis by blast
  next
    case SB_MEM_SCOPE_LOCAL
    then obtain bufs where bufs: "mem_buffers s = Some bufs" "length bufs = unat (num_threads g)"
      "\<forall>buf \<in> set bufs. length buf = block_words s" using assms(1) by (auto simp: buffers_ok_def)
    then have "length (bufs ! unat tid) = block_words s" using assms(2) by simp
    then obtain buf' where buf': "access_buffer rand ?oper s (bufs ! unat tid) = Inr (0, buf')" "length buf' = block_words s"
      using access by blast
    have "memory_execute_request (memory_request s) tid (g, s) =
        Inr (0, s\<lparr>mem_buffers := Some (bufs[unat tid := buf']), mem_buffer := mem_buffer s, memory_rng := rng\<rparr>)"
      using SB_MEM_SCOPE_LOCAL bufs buf' r assms(2) by (simp add: memory_execute_request_def memory_request_def)
    moreover have "\<forall>buf \<in> set (bufs[unat tid := buf']). length buf = block_words s"
      using bufs(3) buf'(2) by (auto dest!: set_update_subset_insert [THEN subsetD])
    then have "buffers_ok (unat (num_threads g))
        (s\<lparr>mem_buffers := Some (bufs[unat tid := buf']), mem_buffer := mem_buffer s, memory_rng := rng\<rparr>)"
      using SB_MEM_SCOPE_LOCAL bufs(2) by (simp add: buffers_ok_def block_words_def)
    ultimately show ?thesis by blast
  qed
qed

text \<open>The configuration of a run does not change; \<open>k\<close> requests have been given out.\<close>

definition memory_inv :: "sb_globals \<Rightarrow> memory_state \<Rightarrow> nat \<Rightarrow> memory_state faulty world \<Rightarrow> bool" where
  "memory_inv g0 s0 k = (\<lambda>(g, e, s).
     g = g0 \<and> buffers_ok (unat (num_threads g)) s \<and> memory_request s = memory_request s0 \<and>
     memory_access_rnd s = memory_access_rnd s0 \<and> memory_total_size s = memory_total_size s0 \<and>
     total_bytes s = of_nat k * memory_block_size s0)"

lemma memory_serve:
  assumes "memory_inv g s0 k w" and "unat tid < unat (num_threads g)" and "max_time_limit g = 0" and "error g = 0"
    and "\<not> (memory_access_rnd s0 \<and> memory_oper s0 = SB_MEM_OP_NONE)" and "unat (memory_block_size s0) mod 4 = 0"
    and "of_nat k * memory_block_size s0 < memory_total_size s0"
  shows "\<exists>w''. serve_step junk (memory_test alloc) tid now (memory_request s0) w w'' \<and> memory_inv g s0 (Suc k) w''"
proof -
  obtain e s where w: "w = (g, e, s)" using assms(1) by (cases w) (auto simp: memory_inv_def)
  let ?s = "s\<lparr>total_ops := total_ops s + 1, total_bytes := total_bytes s + memory_block_size s\<rparr>"
  have conf: "memory_oper s = memory_oper s0" "memory_block_size s = memory_block_size s0"
    "memory_access_rnd s = memory_access_rnd s0" "memory_request s = memory_request s0" "memory_request ?s = memory_request s0"
    "memory_scope s = memory_scope s0" "memory_total_size s = memory_total_size s0" "total_bytes s = of_nat k * memory_block_size s0"
    using assms(1) w by (auto simp: memory_inv_def memory_request_def)
  have "buffers_ok (unat (num_threads g)) ?s"
    using assms(1) w by (auto simp: memory_inv_def buffers_ok_def block_words_def split: sb_mem_scope.splits)
  then obtain bufs buf rng where ex: "memory_execute_request (memory_request ?s) tid (g, ?s) =
      Inr (0, ?s\<lparr>mem_buffers := bufs, mem_buffer := buf, memory_rng := rng\<rparr>)"
    "buffers_ok (unat (num_threads g)) (?s\<lparr>mem_buffers := bufs, mem_buffer := buf, memory_rng := rng\<rparr>)"
    using memory_execute_ok [of g ?s tid] assms(2,5,6) conf by auto
  let ?w = "(g, None, ?s\<lparr>mem_buffers := bufs, mem_buffer := buf, memory_rng := rng\<rparr>)"
  have "get_request junk (memory_test alloc) tid w = (memory_request s0, g, e, ?s)"
    using assms(7) conf w
    by (simp add: get_request_def memory_test_def memory_get_request_def memory_request_def Let_def not_le)
  moreover have "execute_request (memory_test alloc) (memory_request s0) tid (g, e, ?s) = (0, ?w)"
    using ex(1) conf(5) by (simp add: execute_request_def memory_test_def faulty_op_def)
  ultimately have "serve_step junk (memory_test alloc) tid now (memory_request s0) w ?w"
    using assms(3,4) by (auto simp: serve_step_def memory_request_def no_time_limit)
  moreover have "memory_inv g s0 (Suc k) ?w"
    using ex(2) conf by (simp add: memory_inv_def memory_request_def algebra_simps)
  ultimately show ?thesis by blast
qed

lemma memory_no_wrap:
  assumes "0 < b" and "T + b \<le> 2 ^ 64" and "b = unat block" and "T = unat (total_size :: u64)" and "n = (T + b - 1) div b"
  shows "k < n \<Longrightarrow> of_nat k * block < total_size" and "total_size \<le> of_nat n * block"
proof -
  have n: "n * b \<le> T + b - 1" "T \<le> n * b"
  proof -
    have "T + b - 1 = n * b + (T + b - 1) mod b" unfolding assms(5) by (rule div_mult_mod_eq [symmetric])
    moreover have "(T + b - 1) mod b < b" using assms(1) by simp
    ultimately show "n * b \<le> T + b - 1" "T \<le> n * b" using assms(1) by linarith+
  qed
  have of_nat: "of_nat j * block = of_nat (j * b)" for j by (simp add: assms(3))
  have small: "unat (of_nat (j * b) :: u64) = j * b" if "j \<le> n" for j
  proof -
    have "j * b \<le> n * b" using that by simp
    then have "j * b < 2 ^ 64" using n(1) assms(1,2) by linarith
    then show ?thesis by (simp add: unsigned_of_nat take_bit_nat_eq_self del: of_nat_mult)
  qed
  show "total_size \<le> of_nat n * block" unfolding of_nat word_le_nat_alt using small [of n] n(2) assms(4) by simp
  show "of_nat k * block < total_size" if "k < n"
  proof -
    have "Suc k * b \<le> T + b - 1" using n(1) that by (meson Suc_leI le_trans mult_le_mono1)
    then have "k * b < T" using assms(1) by simp
    then show ?thesis unfolding of_nat word_less_nat_alt using small [of k] that assms(4) by simp
  qed
qed

section \<open>The race of the cpu test\<close>

text \<open>
  \<open>cpu_get_request\<close> compares the counter before it takes the mutex: threads that have passed the
  comparison are \<open>Pending\<close>.  The threads \<open>0\<close> to \<open>n - 1\<close> interleave freely.
\<close>

datatype cpu_pc = Idle | Pending | Finished

inductive cpu_step :: "nat \<Rightarrow> u32 \<Rightarrow> u32 \<times> (nat \<Rightarrow> cpu_pc) \<Rightarrow> u32 \<times> (nat \<Rightarrow> cpu_pc) \<Rightarrow> bool" for n limit where
  pass: "i < n \<Longrightarrow> pcs i = Idle \<Longrightarrow> \<not> performed \<ge> limit \<Longrightarrow> cpu_step n limit (performed, pcs) (performed, pcs(i := Pending))"
| stop: "i < n \<Longrightarrow> pcs i = Idle \<Longrightarrow> performed \<ge> limit \<Longrightarrow> cpu_step n limit (performed, pcs) (performed, pcs(i := Finished))"
| count: "i < n \<Longrightarrow> pcs i = Pending \<Longrightarrow> cpu_step n limit (performed, pcs) (performed + 1, pcs(i := Idle))"

inductive_cases cpu_stepE: "cpu_step n limit s s'"

definition pending :: "nat \<Rightarrow> (nat \<Rightarrow> cpu_pc) \<Rightarrow> nat" where
  "pending n pcs = card {i. i < n \<and> pcs i = Pending}"

lemma pending_le: "pending n pcs \<le> n"
  unfolding pending_def by (rule order_trans [OF card_mono [of "{..<n}"]]) auto

lemma pending_pass: "i < n \<Longrightarrow> pcs i = Idle \<Longrightarrow> pending n (pcs(i := Pending)) = Suc (pending n pcs)"
proof -
  assume i: "i < n" "pcs i = Idle"
  then have "{j. j < n \<and> (pcs(i := Pending)) j = Pending} = insert i {j. j < n \<and> pcs j = Pending}" by auto
  then show ?thesis using i by (simp add: pending_def)
qed

lemma pending_count: "i < n \<Longrightarrow> pcs i = Pending \<Longrightarrow> pending n pcs = Suc (pending n (pcs(i := Idle)))"
proof -
  assume i: "i < n" "pcs i = Pending"
  then have "{j. j < n \<and> pcs j = Pending} = insert i {j. j < n \<and> (pcs(i := Idle)) j = Pending}" by auto
  then show ?thesis by (simp add: pending_def card_insert_if)
qed

lemma pending_stop: "pcs i = Idle \<Longrightarrow> pending n (pcs(i := Finished)) = pending n pcs"
  unfolding pending_def by (rule arg_cong [of _ _ card]) auto

lemma cpu_race_inv:
  assumes "(cpu_step n limit)\<^sup>*\<^sup>* (0, \<lambda>_. Idle) s" and "0 < limit" and "unat limit + n \<le> 2 ^ 32"
  shows "unat (fst s) + pending n (snd s) < unat limit + n"
  using assms(1)
proof (induction rule: rtranclp_induct)
  case base
  show ?case using assms(2) by (simp add: pending_def word_less_nat_alt)
next
  case (step s s')
  from step.hyps(2) show ?case
  proof (cases rule: cpu_step.cases)
    case (pass i pcs performed)
    then have "unat performed < unat limit" by (simp add: not_le word_less_nat_alt)
    then show ?thesis using pass(1,2) pending_le [of n "snd s'"] by (simp add: fun_upd_def)
  next
    case (stop i pcs performed)
    then show ?thesis using step.IH pending_stop [of pcs i n] by (simp add: fun_upd_def)
  next
    case (count i pcs performed)
    then have sum: "unat performed + 1 + pending n (pcs(i := Idle)) < unat limit + n"
      using step.IH pending_count [of i n pcs] by simp
    then have "unat (performed + 1) = unat performed + 1"
      using assms(3) unat_Suc_lt [of performed] by (simp add: unat_word_ariths)
    then show ?thesis using count sum by (simp add: fun_upd_def)
  qed
qed

section \<open>Properties\<close>

text \<open>
  A request of the cpu test counts the primes from 3 up to the bound; the bound itself is not tested.
\<close>

theorem cpu_counts_primes:
  "snd (cpu_execute_request r tid (g, s)) = card {p. is_prime p \<and> 3 \<le> p \<and> p < unat (max_prime s)}"
  by (simp add: cpu_execute_request_def count_primes_eq)

text \<open>
  However the threads interleave, the cpu test performs at most \<open>n - 1\<close> requests more than the limit,
  and with two threads it can exceed the limit by one.
\<close>

theorem cpu_requests_overshoot:
  assumes "0 < limit" and "unat limit + n \<le> 2 ^ 32"
  shows "(\<forall>performed pcs. (cpu_step n limit)\<^sup>*\<^sup>* (0, \<lambda>_. Idle) (performed, pcs) \<longrightarrow>
      unat performed \<le> unat limit + n - 1) \<and>
    (\<exists>pcs. (cpu_step 2 1)\<^sup>*\<^sup>* (0, \<lambda>_. Idle) (2, pcs))"
proof -
  have "unat performed \<le> unat limit + n - 1" if "(cpu_step n limit)\<^sup>*\<^sup>* (0, \<lambda>_. Idle) (performed, pcs)" for performed pcs
    using cpu_race_inv [OF that assms] by simp
  moreover have "\<exists>pcs. (cpu_step 2 1)\<^sup>*\<^sup>* (0, \<lambda>_. Idle) (2, pcs)"
  proof (intro exI)
    let ?p = "\<lambda>_. Idle" and ?S = "cpu_step 2 1"
    have 1: "?S (0, ?p) (0, ?p(0 := Pending))" by (rule pass) simp_all
    have 2: "?S (0, ?p(0 := Pending)) (0, ?p(0 := Pending, 1 := Pending))" by (rule pass) simp_all
    have 3: "?S (0, ?p(0 := Pending, 1 := Pending)) (0 + 1, ?p(0 := Pending, 1 := Pending, 0 := Idle))"
      by (rule count) simp_all
    have 4: "?S (0 + 1, ?p(0 := Pending, 1 := Pending, 0 := Idle))
        (0 + 1 + 1, ?p(0 := Pending, 1 := Pending, 0 := Idle, 1 := Idle))" by (rule count) simp_all
    have "(0 + 1 + 1, ?p(0 := Pending, 1 := Pending, 0 := Idle, 1 := Idle)) =
        (2 :: u32, ?p(0 := Pending, 1 := Pending, 0 := Idle, 1 := Idle))" by simp
    with 1 2 3 4 show "?S\<^sup>*\<^sup>* (0, ?p) (2, ?p(0 := Pending, 1 := Pending, 0 := Idle, 1 := Idle))"
      by (metis (no_types) rtranclp.rtrancl_refl rtranclp.rtrancl_into_rtrancl)
  qed
  ultimately show ?thesis by blast
qed

theorem cpu_requests_overshoot_witness:
  "\<not> (cpu_step 4 10)\<^sup>*\<^sup>* (0, \<lambda>_. Idle) (14, \<lambda>_. Finished)"
  using cpu_requests_overshoot [of 10 4] by fastforce

text \<open>
  After a successful initialisation, a thread of the memory test executes exactly as many requests
  as blocks are needed for the total size, each without an access outside its buffer, and ends.
\<close>

theorem memory_test_transfers:
  assumes "memory_init alloc (g, s) = Inr (0, s')" and "total_bytes s = 0"
    and "0 < unat (memory_block_size s')" and "unat (memory_total_size s') + unat (memory_block_size s') \<le> 2 ^ 64"
    and "\<not> (memory_access_rnd s' \<and> memory_oper s' = SB_MEM_OP_NONE)"
    and "unat tid < unat (num_threads g)" and "max_time_limit g = 0" and "error g = 0"
    and "n = (unat (memory_total_size s') + unat (memory_block_size s') - 1) div unat (memory_block_size s')"
  shows "\<exists>w'. runner_run (4 * n + 4) junk (memory_test alloc) tid now R_get (g, None, s') =
      Some (replicate n (memory_request s'), w')"
proof -
  let ?I = "memory_inv g s'" and ?test = "memory_test alloc"
  note init = memory_init_ok [OF assms(1)]
  note blocks = memory_no_wrap [OF assms(3,4) refl refl assms(9)]
  have "\<exists>w''. serve_step junk ?test tid now (memory_request s') w w'' \<and> ?I (Suc k) w''" if "k < n" "?I k w" for k w
    using memory_serve [OF that(2) assms(6,7,8,5) init(3)] blocks(1) [OF that(1)] by blast
  moreover have "no_more junk ?test tid now w" if "?I n w" for w
    using that blocks(2) assms(7)
    by (auto simp: memory_inv_def no_more_def get_request_def memory_test_def memory_get_request_def memory_request_def
        Let_def no_time_limit split: prod.splits)
  moreover have "?I 0 (g, None, s')" using init(1,2) assms(2) by (simp add: memory_inv_def)
  ultimately have "serves junk ?test tid now (no_more junk ?test tid now) (map (\<lambda>_. memory_request s') [0..<n]) (g, None, s')"
    by (intro serves_steps [where I = ?I]) auto
  moreover have "map (\<lambda>_. memory_request s') [0..<n] = replicate n (memory_request s')"
    by (simp add: map_replicate_const)
  ultimately show ?thesis using runner_run_drains [of junk ?test tid now "replicate n (memory_request s')"] by simp
qed

text \<open>
  A block size of zero is accepted, and then a thread of the memory test never ends: no number of
  steps is enough.
\<close>

theorem memory_zero_block_endless:
  assumes "memory_init alloc (g, s) = Inr (0, s')" and "total_bytes s = 0" and "memory_block_size s' = 0"
    and "0 < memory_total_size s'" and "\<not> (memory_access_rnd s' \<and> memory_oper s' = SB_MEM_OP_NONE)"
    and "unat tid < unat (num_threads g)" and "max_time_limit g = 0" and "error g = 0"
  shows "runner_run k junk (memory_test alloc) tid now R_get (g, None, s') = None"
proof (rule runner_run_endless [where I = "\<lambda>w. \<exists>k. memory_inv g s' k w"])
  note init = memory_init_ok [OF assms(1)]
  show "\<exists>r w''. serve_step junk (memory_test alloc) tid now r w w'' \<and> (\<exists>k. memory_inv g s' k w'')"
    if "\<exists>k. memory_inv g s' k w" for w
    using that memory_serve [OF _ assms(6,7,8,5) init(3)] assms(3,4) by fastforce
  show "\<exists>k. memory_inv g s' k (g, None, s')"
    using init(1,2) assms(2) by (auto simp: memory_inv_def intro!: exI [of _ 0])
qed

text \<open>Concrete configurations for the memory test: 20 bytes in blocks of 8 and of 0 bytes.\<close>

definition memory_demo :: "string \<Rightarrow> memory_state" where
  "memory_demo block =
     \<lparr>memory_block_size = 0, memory_total_size = 0, memory_scope = SB_MEM_SCOPE_LOCAL, memory_oper = SB_MEM_OP_NONE,
      memory_access_rnd = True, total_ops = 0, total_bytes = 0, mem_buffers = None, mem_buffer = None, memory_rng = 0,
      memory_opts = map opt_lit
        [(''memory-block-size'', SB_ARG_TYPE_SIZE, [block]), (''memory-total-size'', SB_ARG_TYPE_SIZE, [''20'']),
         (''memory-scope'', SB_ARG_TYPE_STRING, [''global'']), (''memory-oper'', SB_ARG_TYPE_STRING, [''write'']),
         (''memory-access-mode'', SB_ARG_TYPE_STRING, [''seq''])]\<rparr>"

definition memory_demo_ready :: "string \<Rightarrow> u64 \<Rightarrow> memory_state" where
  "memory_demo_ready block sz =
     (memory_demo block)\<lparr>memory_block_size := sz, memory_total_size := 20, memory_scope := SB_MEM_SCOPE_GLOBAL,
        memory_oper := SB_MEM_OP_WRITE, memory_access_rnd := False, mem_buffer := Some (replicate (unat sz div 4) 0)\<rparr>"

definition one_thread_globals :: sb_globals where
  "one_thread_globals = zero_globals\<lparr>num_threads := 1\<rparr>"

definition no_data :: sb_mem_request where
  "no_data = \<lparr>mem_type = SB_MEM_OP_NONE, mem_block_size = 0, mem_scope = SB_MEM_SCOPE_GLOBAL\<rparr>"

theorem memory_test_transfers_witness:
  "\<exists>s' w'. memory_init (\<lambda>_. True) (one_thread_globals, memory_demo ''8'') = Inr (0, s') \<and>
     runner_run 16 no_data (memory_test (\<lambda>_. True)) 0 (0, 0) R_get (one_thread_globals, None, s') =
     Some (replicate 3 (memory_request s'), w')"
proof -
  have init: "memory_init (\<lambda>_. True) (one_thread_globals, memory_demo ''8'') = Inr (0, memory_demo_ready ''8'' 8)"
    by code_simp
  show ?thesis
    using memory_test_transfers [OF init, of 0 3 no_data "(0, 0)"] init
    by (fastforce simp: memory_demo_def memory_demo_ready_def one_thread_globals_def zero_globals_def)
qed

theorem memory_zero_block_endless_witness:
  "\<exists>s'. memory_init (\<lambda>_. True) (one_thread_globals, memory_demo ''0'') = Inr (0, s') \<and>
     runner_run 1000 no_data (memory_test (\<lambda>_. True)) 0 (0, 0) R_get (one_thread_globals, None, s') = None"
proof -
  have init: "memory_init (\<lambda>_. True) (one_thread_globals, memory_demo ''0'') = Inr (0, memory_demo_ready ''0'' 0)"
    by code_simp
  show ?thesis
    using memory_zero_block_endless [OF init, of 0 1000 no_data "(0, 0)"] init
    by (simp add: memory_demo_def memory_demo_ready_def one_thread_globals_def zero_globals_def)
qed

section \<open>The threads and the mutex test\<close>

text \<open>
  The threads test hands the mutexes out in turn, never beyond the array, and stops after exactly
  \<open>max_requests\<close> requests.  (With a limit of 0, which stands for no limit elsewhere, there is none.)
\<close>

lemma threads_test_round_robin:
  assumes "test_mutexes s = Some (unat (thread_locks s))" and "thread_locks s \<noteq> 0" and "threads_performed s = 0"
    and "max_time_limit g = 0" and "error g = 0"
  shows "\<exists>w'. runner_run (4 * unat (max_requests g) + 4) junk (threads_test mem) tid now R_get (g, None, s) =
      Some (map (\<lambda>k. \<lparr>req_type = SB_REQ_TYPE_THREADS, req_data = of_nat k mod thread_locks s\<rparr>)
              [0..<unat (max_requests g)], w')"
proof -
  let ?n = "unat (max_requests g)" and ?test = "threads_test mem"
  let ?r = "\<lambda>k. \<lparr>req_type = SB_REQ_TYPE_THREADS, req_data = of_nat k mod thread_locks s\<rparr>"
  let ?W = "\<lambda>k. (g, None, s\<lparr>threads_performed := of_nat k\<rparr>) :: threads_state faulty world"
  have step: "serve_step junk ?test tid now (?r k) (?W k) (?W (Suc k))" if "k < ?n" for k
  proof -
    have "unat (max_requests g) < 2 ^ LENGTH(32)" by (rule unsigned_less)
    then have "k < 2 ^ 32" using that by simp
    then have "\<not> max_requests g \<le> of_nat k"
      using that by (simp add: not_le word_less_nat_alt unsigned_of_nat take_bit_nat_eq_self)
    then have "get_request junk ?test tid (?W k) = (?r k, ?W (Suc k))"
      using assms(2) by (simp add: get_request_def threads_test_def faulty_get_def threads_get_request_def add.commute)
    moreover have "unat (of_nat k mod thread_locks s) < unat (thread_locks s)"
      using assms(2) by (simp add: unat_mod_distrib unat_gt_0)
    then have "execute_request ?test (?r k) tid (?W (Suc k)) = (0, ?W (Suc k))"
      using assms(1) by (simp add: execute_request_def threads_test_def faulty_op_def threads_execute_request_def Let_def)
    ultimately show ?thesis
      using assms(4,5) by (auto simp: serve_step_def no_time_limit)
  qed
  have stop: "no_more junk ?test tid now (?W ?n)"
    using assms(4)
    by (simp add: no_more_def get_request_def threads_test_def faulty_get_def threads_get_request_def no_time_limit)
  have "serves junk ?test tid now (no_more junk ?test tid now) (map ?r [0..<?n]) (?W 0)"
    by (rule serves_steps [where I = "\<lambda>k w. w = ?W k"]) (use step stop in auto)
  moreover have "?W 0 = (g, None, s)" using assms(3) by simp
  ultimately show ?thesis using runner_run_drains [of junk ?test tid now "map ?r [0..<?n]" "(g, None, s)"] by simp
qed

text \<open>
  A request of the mutex test makes \<open>nlocks\<close> rounds on mutexes of the array, and \<open>2 ^ 32\<close> rounds when
  \<open>nlocks\<close> is 0, because the loop counts down before it tests.
\<close>

lemma mutex_rounds_count:
  assumes "mutex_num s \<noteq> 0" and "mutex_array s = Some (unat (mutex_num s))"
  shows "\<exists>as. mutex_rounds rands k n s = Inr (as, s\<lparr>global_var := global_var s + n\<rparr>) \<and>
      length as = 2 * (if n = 0 then 2 ^ 32 else unat n) \<and> (\<forall>i. Lock i \<in> set as \<longrightarrow> i < unat (mutex_num s))"
  using assms
proof (induction rands k n s rule: mutex_rounds.induct)
  case (1 rands k n s)
  let ?i = "rands k mod unat (mutex_num s)" and ?s = "s\<lparr>global_var := global_var s + 1\<rparr>"
  have i: "?i < unat (mutex_num s)" using 1(2) by (simp add: unat_gt_0)
  have round: "mutex_round (rands k) s = Inr ([Lock ?i, Unlock ?i], ?s)"
    using 1(2,3) i by (simp add: mutex_round_def Let_def)
  show ?case
  proof (cases "n - 1 > 0")
    case True
    obtain as where as: "mutex_rounds rands (k + 1) (n - 1) ?s = Inr (as, ?s\<lparr>global_var := global_var ?s + (n - 1)\<rparr>)"
      "length as = 2 * (if n - 1 = 0 then 2 ^ 32 else unat (n - 1))" "\<forall>j. Lock j \<in> set as \<longrightarrow> j < unat (mutex_num s)"
      using 1(1) [of "n - 1" ?s] True 1(2,3) by auto
    have "Suc (unat (n - 1)) = (if n = 0 then 2 ^ 32 else unat n)"
      using unat_minus_one [of n] unat_gt_0 [of n] by (cases "n = 0") (auto simp: unsigned_minus_1_eq_mask mask_eq_exp_minus_1)
    then have "2 + length as = 2 * (if n = 0 then 2 ^ 32 else unat n)" using as(2) True by (auto split: if_splits)
    moreover have "mutex_rounds rands k n s = Inr ([Lock ?i, Unlock ?i] @ as, s\<lparr>global_var := global_var s + n\<rparr>)"
      using round as(1) True by (simp add: mutex_rounds.simps [of rands k n s])
    ultimately show ?thesis using as(3) i by fastforce
  next
    case False
    then have "n = 1" by (simp add: word_gt_0)
    then show ?thesis using round i by (auto simp: mutex_rounds.simps [of rands k 1 s])
  qed
qed

end
