(* ===== verification/SbFileio.thy ===== *)
theory SbFileio
  imports SbTests Crc32
begin

text \<open>
  The file I/O test of sysbench (\<open>tests/fileio/sb_fileio.c\<close>): its options, the sequential and the random
  request generators, the execution of requests with checksum validation, and the preparation of the
  files.  The build is a 64-bit Linux one with \<open>mmap\<close> and \<open>fdatasync\<close> and without \<open>libaio\<close>.

  The system calls are the functions of a record \<open>file_env\<close> on a state \<open>'io\<close> of the system; the
  state of the test holds its static variables, the random number generator, the registered options
  and this \<open>'io\<close>.  A buffer is the list of its bytes; an access outside of it is a fault.  Sizes and
  positions, 64-bit signed in C, are integers.
\<close>

unbundle bit_operations_syntax

section \<open>Types\<close>

datatype file_test_mode =
  MODE_READ | MODE_WRITE | MODE_REWRITE | MODE_RND_READ | MODE_RND_WRITE | MODE_RND_RW | MODE_MIXED

datatype file_fsync_mode = FSYNC_ALL | FSYNC_DATA

datatype file_io_mode = FILE_IO_MODE_SYNC | FILE_IO_MODE_ASYNC | FILE_IO_MODE_MMAP

datatype sb_file_op = FILE_OP_TYPE_NULL | FILE_OP_TYPE_READ | FILE_OP_TYPE_WRITE | FILE_OP_TYPE_FSYNC

datatype open_flag = No_flag | O_SYNC | O_DSYNC | O_DIRECT

record sb_file_request =
  file_id :: u32
  fr_pos :: int
  fr_size :: int
  operation :: sb_file_op

text \<open>
  \<open>env_open\<close> is \<open>open\<close> for reading and writing, with the extra flags of the test; \<open>env_create\<close> opens for
  writing only.  The position of \<open>write\<close> is part of the system.  \<open>map_load\<close>, \<open>map_store\<close> and \<open>map_sync\<close>
  access the mapping of a file.
\<close>

record 'io file_env =
  env_open :: "string \<Rightarrow> open_flag \<Rightarrow> 'io \<Rightarrow> int \<times> 'io"
  env_create :: "string \<Rightarrow> 'io \<Rightarrow> int \<times> 'io"
  env_unlink :: "string \<Rightarrow> 'io \<Rightarrow> 'io"
  env_close :: "int \<Rightarrow> 'io \<Rightarrow> 'io"
  env_write :: "int \<Rightarrow> u8 list \<Rightarrow> 'io \<Rightarrow> int \<times> 'io"
  env_fsync :: "int \<Rightarrow> 'io \<Rightarrow> int \<times> 'io"
  env_fdatasync :: "int \<Rightarrow> 'io \<Rightarrow> int \<times> 'io"
  env_pread :: "int \<Rightarrow> nat \<Rightarrow> int \<Rightarrow> 'io \<Rightarrow> (int \<times> u8 list) \<times> 'io"
  env_pwrite :: "int \<Rightarrow> u8 list \<Rightarrow> int \<Rightarrow> 'io \<Rightarrow> int \<times> 'io"
  env_ftruncate :: "int \<Rightarrow> int \<Rightarrow> 'io \<Rightarrow> int \<times> 'io"
  env_mmap :: "int \<Rightarrow> int \<Rightarrow> 'io \<Rightarrow> bool \<times> 'io"
  env_munmap :: "nat \<Rightarrow> int \<Rightarrow> 'io \<Rightarrow> 'io"
  map_load :: "nat \<Rightarrow> nat \<Rightarrow> int \<Rightarrow> 'io \<Rightarrow> u8 list"
  map_store :: "nat \<Rightarrow> u8 list \<Rightarrow> int \<Rightarrow> 'io \<Rightarrow> 'io"
  map_sync :: "nat \<Rightarrow> 'io \<Rightarrow> 'io"

record 'io file_state =
  num_files :: u32
  total_size :: int
  file_size :: int
  file_block_size :: int
  file_extra_flags :: open_flag
  file_fsync_freq :: int
  file_fsync_all :: bool
  file_fsync_end :: bool
  fsync_mode :: file_fsync_mode
  file_rw_ratio :: real
  file_merged_requests :: int
  file_max_request_size :: int
  io_mode :: file_io_mode
  position :: int
  current_file :: u32
  fsynced_file :: u32
  fsynced_file2 :: u32
  is_dirty :: bool
  read_ops :: nat
  real_read_ops :: nat
  write_ops :: nat
  real_write_ops :: nat
  other_ops :: nat
  file_performed :: u32
  bytes_read :: u64
  bytes_written :: u64
  files :: "int list"
  buffer :: "u8 list option"
  test_mode :: file_test_mode
  prev_req :: sb_file_request
  file_rng :: "48 word"
  file_opts :: "option_t list"
  io :: 'io

section \<open>Checksums\<close>

text \<open>\<open>sizeof (int) + sizeof (long)\<close>.\<close>

definition CHECKSUM_AND_OFFSET :: nat where "CHECKSUM_AND_OFFSET = 12"

definition store32 :: "u32 \<Rightarrow> u8 list" where
  "store32 w = map (\<lambda>k. ucast (drop_bit (8 * k) w)) [0..<4]"

definition store64 :: "u64 \<Rightarrow> u8 list" where
  "store64 w = map (\<lambda>k. ucast (drop_bit (8 * k) w)) [0..<8]"

primrec random_bytes :: "nat \<Rightarrow> 48 word \<Rightarrow> u8 list \<times> 48 word" where
  "random_bytes 0 rng = ([], rng)"
| "random_bytes (Suc n) rng =
     (let (r, rng) = sb_rnd rng; (bs, rng) = random_bytes n rng in ((of_nat r AND 0xff) # bs, rng))"

text \<open>
  With fewer than 12 bytes the unsigned bound of the loop wraps around, and the loop runs beyond the
  buffer.  The checksum is taken of the new bytes at address \<open>addr\<close>.
\<close>

definition file_fill_buffer ::
  "u64 \<Rightarrow> u8 list \<Rightarrow> nat \<Rightarrow> u64 \<Rightarrow> 48 word \<Rightarrow> test_fault + u8 list \<times> 48 word" where
  "file_fill_buffer addr buf len offset rng =
     (if len < CHECKSUM_AND_OFFSET \<or> length buf < len then Inl (Bad_index (int (length buf)))
      else
        let (bs, rng) = random_bytes (len - CHECKSUM_AND_OFFSET) rng;
            checksum = ucast (crc32 LittleEndian 0 addr (Some bs))
        in Inr (bs @ store32 checksum @ store64 offset @ drop len buf, rng))"

definition file_validate_buffer :: "u64 \<Rightarrow> u8 list \<Rightarrow> nat \<Rightarrow> u64 \<Rightarrow> test_fault + int" where
  "file_validate_buffer addr buf len offset =
     (if len < CHECKSUM_AND_OFFSET \<or> length buf < len then Inl (Bad_index (int (length buf)))
      else
        let cs_offset = len - CHECKSUM_AND_OFFSET;
            checksum = ucast (crc32 LittleEndian 0 addr (Some (take cs_offset buf)))
        in if store32 checksum \<noteq> take 4 (drop cs_offset buf) then Inr 1
           else if store64 offset \<noteq> take 8 (drop (cs_offset + 4) buf) then Inr 1
           else Inr 0)"

section \<open>Sequential requests\<close>

definition null_request :: sb_file_request where
  "null_request = \<lparr>file_id = 0, fr_pos = 0, fr_size = 0, operation = FILE_OP_TYPE_NULL\<rparr>"

datatype seq_warning = File_difference | Position_difference | File_switch

definition check_seq_req :: "int \<Rightarrow> sb_file_request \<Rightarrow> sb_file_request \<Rightarrow> seq_warning option" where
  "check_seq_req fsize prev r =
     (if operation r = FILE_OP_TYPE_FSYNC \<or> operation r = FILE_OP_TYPE_NULL then None
      else if operation prev = FILE_OP_TYPE_NULL then None
      else if file_id r - file_id prev > 1 then Some File_difference
      else if file_id r = file_id prev then
        if fr_pos r - fr_pos prev \<noteq> fr_size prev then Some Position_difference else None
      else if fr_pos prev + fr_size prev \<noteq> fsize \<or> fr_pos r \<noteq> 0 then Some File_switch else None)"

text \<open>
  \<open>file_get_seq_request\<close> in its two parts: the request is read from the position before the mutex is
  taken, and the position is advanced under the mutex.
\<close>

definition seq_prepare :: "'io file_state \<Rightarrow> sb_file_request" where
  "seq_prepare s =
     \<lparr>file_id = current_file s,
      fr_pos = position s,
      fr_size =
        (if file_merged_requests s > 0 then
           if position s + file_max_request_size s \<le> file_size s then file_max_request_size s
           else file_size s - position s
         else file_block_size s),
      operation =
        (if test_mode s = MODE_WRITE \<or> test_mode s = MODE_REWRITE then FILE_OP_TYPE_WRITE else FILE_OP_TYPE_READ)\<rparr>"

definition keep_prev :: "bool \<Rightarrow> sb_file_request \<Rightarrow> 'io file_state \<Rightarrow> 'io file_state" where
  "keep_prev checked r s = (if checked then s\<lparr>prev_req := r\<rparr> else s)"

definition seq_advance ::
  "bool \<Rightarrow> sb_file_request \<Rightarrow> 'io file_state \<Rightarrow> sb_file_request sb_request \<times> 'io file_state" where
  "seq_advance checked r s =
     (let s = (if current_file s \<noteq> num_files s then s\<lparr>position := position s + fr_size r\<rparr> else s)
      in if position s = file_size s \<and> current_file s \<noteq> num_files s then
           (\<lparr>req_type = SB_REQ_TYPE_FILE, req_data = r\<rparr>,
            keep_prev checked r (s\<lparr>current_file := current_file s + 1, position := 0\<rparr>))
         else if current_file s = num_files s then
           if file_fsync_end s \<and> operation r = FILE_OP_TYPE_WRITE \<and> fsynced_file s < num_files s then
             let r = \<lparr>file_id = fsynced_file s, fr_pos = 0, fr_size = 0, operation = FILE_OP_TYPE_FSYNC\<rparr>
             in (\<lparr>req_type = SB_REQ_TYPE_FILE, req_data = r\<rparr>,
                 keep_prev checked r (s\<lparr>fsynced_file := fsynced_file s + 1\<rparr>))
           else (\<lparr>req_type = SB_REQ_TYPE_NULL, req_data = r\<rparr>, keep_prev checked r s)
         else (\<lparr>req_type = SB_REQ_TYPE_FILE, req_data = r\<rparr>, keep_prev checked r s))"

definition file_get_seq_request ::
  "'io file_state world \<Rightarrow> sb_file_request sb_request \<times> 'io file_state" where
  "file_get_seq_request = (\<lambda>(g, s). seq_advance (validate g) (seq_prepare s) s)"

section \<open>Random requests\<close>

text \<open>The position drawn for a random number, in floating point (reals), rounded down to a block.\<close>

definition rnd_position :: "nat \<Rightarrow> 'io file_state \<Rightarrow> int" where
  "rnd_position randnum s =
     (let tmppos = int randnum * total_size s div int SB_MAX_RND in tmppos - tmppos mod file_block_size s)"

definition fsync_request :: "u32 \<Rightarrow> sb_file_request sb_request" where
  "fsync_request f =
     \<lparr>req_type = SB_REQ_TYPE_FILE,
      req_data = \<lparr>file_id = f, fr_pos = 0, fr_size = 0, operation = FILE_OP_TYPE_FSYNC\<rparr>\<rparr>"

definition rnd_mode :: "'io file_state \<Rightarrow> file_test_mode" where
  "rnd_mode s =
     (if test_mode s = MODE_RND_RW then
        if real (real_read_ops s + 1) / real (real_write_ops s + 1) < file_rw_ratio s then MODE_RND_READ
        else MODE_RND_WRITE
      else test_mode s)"

definition file_get_rnd_request ::
  "'io file_state world \<Rightarrow> test_fault + sb_file_request sb_request \<times> 'io file_state" where
  "file_get_rnd_request = (\<lambda>(g, s).
     let mode = rnd_mode s
     in if file_performed s = max_requests g \<and> max_requests g > 0 then
          if file_fsync_end s \<and> test_mode s \<in> {MODE_RND_WRITE, MODE_RND_RW, MODE_MIXED} \<and>
             fsynced_file2 s < num_files s then
            Inr (fsync_request (fsynced_file2 s), s\<lparr>fsynced_file2 := fsynced_file2 s + 1\<rparr>)
          else Inr (\<lparr>req_type = SB_REQ_TYPE_NULL, req_data = null_request\<rparr>, s)
        else if file_fsync_freq s \<noteq> 0 \<and> is_dirty s \<and> file_performed s mod word_of_int (file_fsync_freq s) = 0 then
          let f = fsynced_file s; s = s\<lparr>fsynced_file := f + 1\<rparr>
          in Inr (fsync_request f,
                  if fsynced_file s = num_files s then s\<lparr>fsynced_file := 0, is_dirty := False\<rparr> else s)
        else
          let (randnum, rng) = sb_rnd (file_rng s);
              oper = (if mode = MODE_RND_WRITE then FILE_OP_TYPE_WRITE else FILE_OP_TYPE_READ);
              tmppos = rnd_position randnum s
          in if file_size s = 0 then Inl Division_by_zero
             else
               Inr (\<lparr>req_type = SB_REQ_TYPE_FILE,
                     req_data = \<lparr>file_id = word_of_int (tmppos div file_size s), fr_pos = tmppos mod file_size s,
                                 fr_size = file_block_size s, operation = oper\<rparr>\<rparr>,
                    s\<lparr>file_rng := rng, file_performed := file_performed s + 1,
                      is_dirty := is_dirty s \<or> oper = FILE_OP_TYPE_WRITE\<rparr>))"

definition file_get_request ::
  "u32 \<Rightarrow> 'io file_state world \<Rightarrow> test_fault + sb_file_request sb_request \<times> 'io file_state world" where
  "file_get_request tid = (\<lambda>(g, s).
     bind_res
       (if test_mode s \<in> {MODE_WRITE, MODE_REWRITE, MODE_READ} then Inr (file_get_seq_request (g, s))
        else file_get_rnd_request (g, s))
       (\<lambda>(r, s). Inr (r, g, s)))"

section \<open>Input and output\<close>

text \<open>The first \<open>n\<close> bytes of the buffer, and a buffer that starts with the bytes \<open>bs\<close>.\<close>

definition from_buffer :: "int \<Rightarrow> 'io file_state \<Rightarrow> test_fault + u8 list" where
  "from_buffer n s =
     (case buffer s of
        None \<Rightarrow> Inl Null_access
      | Some buf \<Rightarrow> if 0 \<le> n \<and> nat n \<le> length buf then Inr (take (nat n) buf) else Inl (Bad_index n))"

definition into_buffer :: "u8 list \<Rightarrow> 'io file_state \<Rightarrow> test_fault + 'io file_state" where
  "into_buffer bs s =
     (case buffer s of
        None \<Rightarrow> Inl Null_access
      | Some buf \<Rightarrow>
          if length bs \<le> length buf then Inr (s\<lparr>buffer := Some (bs @ drop (length bs) buf)\<rparr>)
          else Inl (Bad_index (int (length bs))))"

definition file_of :: "u32 \<Rightarrow> 'io file_state \<Rightarrow> test_fault + int" where
  "file_of i s = (if unat i < length (files s) then Inr (files s ! unat i) else Inl (Bad_index (int (unat i))))"

text \<open>
  In the mapped mode the result of the synchronisation is not returned: the function ends with the
  code for an unknown mode.
\<close>

definition file_fsync :: "'io file_env \<Rightarrow> u32 \<Rightarrow> 'io file_state \<Rightarrow> test_fault + int \<times> 'io file_state" where
  "file_fsync env i s =
     bind_res (file_of i s) (\<lambda>fd.
       case io_mode s of
         FILE_IO_MODE_MMAP \<Rightarrow> Inr (1, s\<lparr>io := map_sync env (unat i) (io s)\<rparr>)
       | _ \<Rightarrow>
         (let (rc, io') = (case fsync_mode s of
                             FSYNC_ALL \<Rightarrow> env_fsync env fd (io s)
                           | FSYNC_DATA \<Rightarrow> env_fdatasync env fd (io s))
          in Inr (rc, s\<lparr>io := io'\<rparr>)))"

definition file_pread ::
  "'io file_env \<Rightarrow> u32 \<Rightarrow> int \<Rightarrow> int \<Rightarrow> 'io file_state \<Rightarrow> test_fault + int \<times> 'io file_state" where
  "file_pread env i count offset s =
     bind_res (file_of i s) (\<lambda>fd.
       case io_mode s of
         FILE_IO_MODE_SYNC \<Rightarrow>
           (let ((rc, bs), io') = env_pread env fd (nat count) offset (io s)
            in bind_res (into_buffer bs (s\<lparr>io := io'\<rparr>)) (\<lambda>s. Inr (rc, s)))
       | FILE_IO_MODE_MMAP \<Rightarrow>
           bind_res (into_buffer (map_load env (unat i) (nat count) offset (io s)) s) (\<lambda>s. Inr (count, s))
       | FILE_IO_MODE_ASYNC \<Rightarrow> Inr (1, s))"

definition file_pwrite ::
  "'io file_env \<Rightarrow> u32 \<Rightarrow> int \<Rightarrow> int \<Rightarrow> 'io file_state \<Rightarrow> test_fault + int \<times> 'io file_state" where
  "file_pwrite env i count offset s =
     bind_res (file_of i s) (\<lambda>fd.
     bind_res (from_buffer count s) (\<lambda>bs.
       case io_mode s of
         FILE_IO_MODE_SYNC \<Rightarrow> (let (rc, io') = env_pwrite env fd bs offset (io s) in Inr (rc, s\<lparr>io := io'\<rparr>))
       | FILE_IO_MODE_MMAP \<Rightarrow> Inr (count, s\<lparr>io := map_store env (unat i) bs offset (io s)\<rparr>)
       | FILE_IO_MODE_ASYNC \<Rightarrow> Inr (0, s)))"

text \<open>The buffer is aligned to a page, so its address is taken to be 0 for the checksum.\<close>

definition fill_buffer :: "int \<Rightarrow> int \<Rightarrow> 'io file_state \<Rightarrow> test_fault + 'io file_state" where
  "fill_buffer len offset s =
     (case buffer s of
        None \<Rightarrow> Inl Null_access
      | Some buf \<Rightarrow>
          bind_res (file_fill_buffer 0 buf (nat len) (word_of_int offset) (file_rng s)) (\<lambda>(buf, rng).
            Inr (s\<lparr>buffer := Some buf, file_rng := rng\<rparr>)))"

definition validate_buffer :: "int \<Rightarrow> int \<Rightarrow> 'io file_state \<Rightarrow> test_fault + int" where
  "validate_buffer len offset s =
     (case buffer s of None \<Rightarrow> Inl Null_access | Some buf \<Rightarrow> file_validate_buffer 0 buf (nat len) (word_of_int offset))"

section \<open>Executing a request\<close>

definition execute_write ::
  "'io file_env \<Rightarrow> bool \<Rightarrow> sb_file_request \<Rightarrow> 'io file_state \<Rightarrow> test_fault + int \<times> 'io file_state" where
  "execute_write env checked r s =
     bind_res (if checked then fill_buffer (fr_size r) (fr_pos r) s else Inr s) (\<lambda>s.
     bind_res (file_pwrite env (file_id r) (fr_size r) (fr_pos r) s) (\<lambda>(rc, s).
       if rc \<noteq> fr_size r then Inr (1, s)
       else
         bind_res (if file_fsync_all s then file_fsync env (file_id r) s else Inr (0, s)) (\<lambda>(rc, s).
           if rc \<noteq> 0 then Inr (1, s)
           else Inr (0, s\<lparr>write_ops := write_ops s + 1, real_write_ops := real_write_ops s + 1,
                          bytes_written := bytes_written s + word_of_int (fr_size r),
                          other_ops := other_ops s + (if file_fsync_all s then 1 else 0)\<rparr>))))"

definition execute_read ::
  "'io file_env \<Rightarrow> bool \<Rightarrow> sb_file_request \<Rightarrow> 'io file_state \<Rightarrow> test_fault + int \<times> 'io file_state" where
  "execute_read env checked r s =
     bind_res (file_pread env (file_id r) (fr_size r) (fr_pos r) s) (\<lambda>(rc, s).
       if rc \<noteq> fr_size r then Inr (1, s)
       else
         bind_res (if checked then validate_buffer (fr_size r) (fr_pos r) s else Inr 0) (\<lambda>rc.
           if rc \<noteq> 0 then Inr (1, s)
           else Inr (0, s\<lparr>read_ops := read_ops s + 1, real_read_ops := real_read_ops s + 1,
                          bytes_read := bytes_read s + word_of_int (fr_size r)\<rparr>)))"

definition execute_fsync ::
  "'io file_env \<Rightarrow> sb_file_request \<Rightarrow> 'io file_state \<Rightarrow> test_fault + int \<times> 'io file_state" where
  "execute_fsync env r s =
     (if file_fsync_all s then Inr (0, s)
      else bind_res (file_fsync env (file_id r) s) (\<lambda>(rc, s).
             if rc \<noteq> 0 then Inr (1, s) else Inr (0, s\<lparr>other_ops := other_ops s + 1\<rparr>)))"

text \<open>The check of the file lets the number of files itself pass; \<open>files [file_id]\<close> is read before the switch.\<close>

definition file_execute_request ::
  "'io file_env \<Rightarrow> sb_file_request sb_request \<Rightarrow> u32 \<Rightarrow> 'io file_state world \<Rightarrow> test_fault + int \<times> 'io file_state" where
  "file_execute_request env req tid = (\<lambda>(g, s).
     let r = req_data req
     in if file_id r > num_files s then Inr (1, s)
        else if fr_pos r + fr_size r > file_size s then Inr (1, s)
        else bind_res (file_of (file_id r) s) (\<lambda>fd.
          case operation r of
            FILE_OP_TYPE_NULL \<Rightarrow> Inr (1, s)
          | FILE_OP_TYPE_WRITE \<Rightarrow> execute_write env (validate g) r s
          | FILE_OP_TYPE_READ \<Rightarrow> execute_read env (validate g) r s
          | FILE_OP_TYPE_FSYNC \<Rightarrow> execute_fsync env r s))"

section \<open>Options\<close>

definition parse_mode :: "string \<Rightarrow> file_test_mode option" where
  "parse_mode mode =
     (if mode = ''seqwr'' then Some MODE_WRITE else if mode = ''seqrewr'' then Some MODE_REWRITE
      else if mode = ''seqrd'' then Some MODE_READ else if mode = ''rndrd'' then Some MODE_RND_READ
      else if mode = ''rndwr'' then Some MODE_RND_WRITE else if mode = ''rndrw'' then Some MODE_RND_RW else None)"

text \<open>Without \<open>libaio\<close> the mode \<open>async\<close> is refused.\<close>

definition parse_io_mode :: "string option \<Rightarrow> file_io_mode option" where
  "parse_io_mode mode =
     (let mode = (case mode of None \<Rightarrow> ''sync'' | Some m \<Rightarrow> m)
      in if mode = ''sync'' then Some FILE_IO_MODE_SYNC else if mode = ''async'' then None
         else if mode = ''mmap'' then Some FILE_IO_MODE_MMAP else None)"

definition parse_flags :: "string option \<Rightarrow> open_flag option" where
  "parse_flags mode =
     (case mode of
        None \<Rightarrow> Some No_flag
      | Some m \<Rightarrow>
          if m = [] then Some No_flag else if m = ''sync'' then Some O_SYNC
          else if m = ''dsync'' then Some O_DSYNC else if m = ''direct'' then Some O_DIRECT else None)"

definition parse_sizes :: "'io file_state \<Rightarrow> 'io file_state parsing" where
  "parse_sizes s =
     bind_res (opt_u32 ''file-num'' (file_opts s)) (\<lambda>n.
     and_then (check (n > 0) (s\<lparr>num_files := n\<rparr>)) (\<lambda>s.
       let t = sint (sb_get_value_size ''file-total-size'' (file_opts s))
       in and_then (check (t > 0) (s\<lparr>total_size := t\<rparr>)) (\<lambda>s.
            check True (s\<lparr>file_size := t div int (unat (num_files s))\<rparr>))))"

definition parse_test_mode :: "sb_cmd \<Rightarrow> 'io file_state \<Rightarrow> 'io file_state parsing" where
  "parse_test_mode cmd s =
     (if cmd \<noteq> SB_COMMAND_RUN then check True s
      else case sb_get_value_string ''file-test-mode'' (file_opts s) of
             None \<Rightarrow> check False s
           | Some mode \<Rightarrow>
               (case parse_mode mode of None \<Rightarrow> check False s | Some m \<Rightarrow> check True (s\<lparr>test_mode := m\<rparr>)))"

text \<open>\<open>file_block_size\<close> is the size converted to \<open>int\<close>; the product of two \<open>int\<close>s must fit.\<close>

definition parse_blocks :: "'io file_state \<Rightarrow> 'io file_state parsing" where
  "parse_blocks s =
     (case parse_io_mode (sb_get_value_string ''file-io-mode'' (file_opts s)) of
        None \<Rightarrow> check False s
      | Some m \<Rightarrow>
          bind_res (opt_int ''file-merged-requests'' (file_opts s)) (\<lambda>k.
          and_then (check (k \<ge> 0) (s\<lparr>io_mode := m, file_merged_requests := k\<rparr>)) (\<lambda>s.
            let b = sint (ucast (sb_get_value_size ''file-block-size'' (file_opts s)) :: u32)
            in and_then (check (b > 0) (s\<lparr>file_block_size := b\<rparr>)) (\<lambda>s.
                 if k = 0 then check True (s\<lparr>file_max_request_size := b\<rparr>)
                 else case int_in_range (b * k) of
                        None \<Rightarrow> Inl Bad_number
                      | Some v \<Rightarrow> check True (s\<lparr>file_max_request_size := v\<rparr>)))))"

definition parse_fsync :: "'io file_state \<Rightarrow> 'io file_state parsing" where
  "parse_fsync s =
     (case parse_flags (sb_get_value_string ''file-extra-flags'' (file_opts s)) of
        None \<Rightarrow> check False s
      | Some fl \<Rightarrow>
          bind_res (opt_int ''file-fsync-freq'' (file_opts s)) (\<lambda>k.
          and_then (check (k \<ge> 0) (s\<lparr>file_extra_flags := fl, file_fsync_freq := k\<rparr>)) (\<lambda>s.
            let fend = sb_get_value_flag ''file-fsync-end'' (file_opts s);
                fall = sb_get_value_flag ''file-fsync-all'' (file_opts s);
                s = s\<lparr>file_fsync_all := fall, file_fsync_end := fend \<and> \<not> fall,
                      file_fsync_freq := (if fall then 0 else k)\<rparr>
            in bind_res (opt_string ''file-fsync-mode'' (file_opts s)) (\<lambda>mode.
                 if mode = ''fsync'' then check True (s\<lparr>fsync_mode := FSYNC_ALL\<rparr>)
                 else if mode = ''fdatasync'' then check True (s\<lparr>fsync_mode := FSYNC_DATA\<rparr>)
                 else check False s))))"

text \<open>\<open>scan\<close> is \<open>sscanf\<close> for a floating point number; \<open>memalign\<close> gives the buffer, with undefined contents.\<close>

definition parse_ratio ::
  "(string \<Rightarrow> real option) \<Rightarrow> (nat \<Rightarrow> u8) \<Rightarrow> 'io file_state \<Rightarrow> 'io file_state parsing" where
  "parse_ratio scan memory s =
     (case sb_get_value_float scan 0 ''file-rw-ratio'' (file_opts s) of
        None \<Rightarrow> Inl Bad_number
      | Some v \<Rightarrow>
          and_then (check (v \<ge> 0) (s\<lparr>file_rw_ratio := v\<rparr>)) (\<lambda>s.
            check True (s\<lparr>buffer := Some (map memory [0..<nat (file_max_request_size s)])\<rparr>)))"

definition parse_file_arguments ::
  "(string \<Rightarrow> real option) \<Rightarrow> (nat \<Rightarrow> u8) \<Rightarrow> 'io file_state world \<Rightarrow> 'io file_state parsing" where
  "parse_file_arguments scan memory = (\<lambda>(g, s).
     and_then (parse_sizes s) (\<lambda>s.
     and_then (parse_test_mode (command g) s) (\<lambda>s.
     and_then (parse_blocks s) (\<lambda>s.
     and_then (parse_fsync s) (parse_ratio scan memory)))))"

section \<open>Start and end of the test\<close>

definition test_file_name :: "u32 \<Rightarrow> string" where
  "test_file_name i =
     ''test_file.'' @ (if sint i < 0 then ''-'' @ dec (nat (- sint i)) else dec (nat (sint i)))"

definition file_numbers :: "'io file_state \<Rightarrow> u32 list" where
  "file_numbers s = map of_nat [0..<unat (num_files s)]"

definition clear_stats :: "bool \<Rightarrow> 'io file_state \<Rightarrow> 'io file_state" where
  "clear_stats checked s =
     (let s = s\<lparr>position := 0, current_file := 0, fsynced_file := 0, fsynced_file2 := 0, read_ops := 0,
                real_read_ops := 0, write_ops := 0, real_write_ops := 0, other_ops := 0, bytes_read := 0,
                bytes_written := 0, file_performed := 0, is_dirty := False\<rparr>
      in if checked then s\<lparr>prev_req := null_request\<rparr> else s)"

text \<open>\<open>mem\<close>: whether \<open>malloc\<close> succeeds.  \<open>files\<close> holds the entries that have been written.\<close>

definition file_init ::
  "(string \<Rightarrow> real option) \<Rightarrow> (nat \<Rightarrow> u8) \<Rightarrow> bool \<Rightarrow> 'io file_state world \<Rightarrow> 'io file_state parsing" where
  "file_init scan memory mem = (\<lambda>(g, s).
     and_then (parse_file_arguments scan memory (g, s)) (\<lambda>s.
     and_then (check mem (s\<lparr>files := []\<rparr>)) (\<lambda>s.
       check True (clear_stats (validate g) s))))"

fun open_files :: "'io file_env \<Rightarrow> u32 list \<Rightarrow> 'io file_state \<Rightarrow> int \<times> 'io file_state" where
  "open_files env [] s = (0, s)"
| "open_files env (i # is) s =
     (let name = test_file_name i;
          io' = (if test_mode s = MODE_WRITE then env_unlink env name (io s) else io s);
          (fd, io') = env_open env name (file_extra_flags s) io';
          s = s\<lparr>files := files s @ [fd], io := io'\<rparr>
      in if fd < 0 then (1, s) else open_files env is s)"

fun truncate_files :: "'io file_env \<Rightarrow> u32 list \<Rightarrow> 'io file_state \<Rightarrow> 'io file_state parsing" where
  "truncate_files env [] s = Inr (0, s)"
| "truncate_files env (i # is) s =
     bind_res (file_of i s) (\<lambda>fd.
       let (rc, io') = env_ftruncate env fd (file_size s) (io s)
       in and_then (check (rc = 0) (s\<lparr>io := io'\<rparr>)) (truncate_files env is))"

fun map_files :: "'io file_env \<Rightarrow> u32 list \<Rightarrow> 'io file_state \<Rightarrow> 'io file_state parsing" where
  "map_files env [] s = Inr (0, s)"
| "map_files env (i # is) s =
     bind_res (file_of i s) (\<lambda>fd.
       let (ok, io') = env_mmap env fd (file_size s) (io s)
       in and_then (check ok (s\<lparr>io := io'\<rparr>)) (map_files env is))"

definition file_mmap_prepare :: "'io file_env \<Rightarrow> 'io file_state \<Rightarrow> 'io file_state parsing" where
  "file_mmap_prepare env s =
     (if io_mode s \<noteq> FILE_IO_MODE_MMAP then check True s
      else and_then (if test_mode s = MODE_WRITE then truncate_files env (file_numbers s) s else check True s)
             (\<lambda>s. map_files env (file_numbers s) s))"

definition file_mmap_done :: "'io file_env \<Rightarrow> 'io file_state \<Rightarrow> 'io file_state" where
  "file_mmap_done env s =
     (if io_mode s \<noteq> FILE_IO_MODE_MMAP then s
      else s\<lparr>io := fold (\<lambda>i. env_munmap env (unat i) (file_size s)) (file_numbers s) (io s)\<rparr>)"

definition file_prepare :: "'io file_env \<Rightarrow> 'io file_state world \<Rightarrow> 'io file_state parsing" where
  "file_prepare env = (\<lambda>(g, s).
     let (rc, s) = open_files env (file_numbers s) (s\<lparr>files := []\<rparr>)
     in if rc \<noteq> 0 then Inr (1, s) else file_mmap_prepare env s)"

definition file_done :: "'io file_env \<Rightarrow> 'io file_state world \<Rightarrow> 'io file_state parsing" where
  "file_done env = (\<lambda>(g, s).
     if unat (num_files s) > length (files s) then Inl (Bad_index (int (length (files s))))
     else
       let s = file_mmap_done env (s\<lparr>io := fold (env_close env) (take (unat (num_files s)) (files s)) (io s)\<rparr>)
       in Inr (0, s\<lparr>buffer := None\<rparr>))"

section \<open>The commands prepare and cleanup\<close>

definition remove_files :: "'io file_env \<Rightarrow> 'io file_state \<Rightarrow> 'io file_state" where
  "remove_files env s = s\<lparr>io := fold (\<lambda>i. env_unlink env (test_file_name i)) (file_numbers s) (io s)\<rparr>"

text \<open>The options admit only a positive block size; the loop would not end with another.\<close>

function create_blocks ::
  "'io file_env \<Rightarrow> bool \<Rightarrow> int \<Rightarrow> int \<Rightarrow> int \<Rightarrow> int \<Rightarrow> 'io file_state \<Rightarrow> 'io file_state parsing" where
  "create_blocks env checked fd fsize bs offset s =
     (if offset < fsize \<and> 0 < bs then
        bind_res (if checked then fill_buffer bs offset s else Inr s) (\<lambda>s.
        bind_res (from_buffer bs s) (\<lambda>bytes.
          let (rc, io') = env_write env fd bytes (io s)
          in and_then (check (rc \<ge> 0) (s\<lparr>io := io'\<rparr>)) (create_blocks env checked fd fsize bs (offset + bs))))
      else Inr (0, s))"
  by pat_completeness auto

termination by (relation "measure (\<lambda>(env, checked, fd, fsize, bs, offset, s). nat (fsize - offset))") auto

declare create_blocks.simps [simp del]

definition create_each :: "'io file_env \<Rightarrow> bool \<Rightarrow> u32 \<Rightarrow> 'io file_state \<Rightarrow> 'io file_state parsing" where
  "create_each env checked i s =
     (let name = test_file_name i;
          (fd, io') = env_create env name (env_unlink env name (io s));
          s = s\<lparr>io := io'\<rparr>
      in if fd < 0 then Inr (1, s)
         else
           bind_res (create_blocks env checked fd (file_size s) (file_block_size s) 0 s) (\<lambda>(rc, s).
             if rc \<noteq> 0 then Inr (1, s\<lparr>io := env_close env fd (io s)\<rparr>)
             else Inr (0, s\<lparr>io := env_close env fd (snd (env_fsync env fd (io s)))\<rparr>)))"

fun create_files :: "'io file_env \<Rightarrow> bool \<Rightarrow> u32 list \<Rightarrow> 'io file_state \<Rightarrow> 'io file_state parsing" where
  "create_files env checked [] s = Inr (0, s)"
| "create_files env checked (i # is) s = and_then (create_each env checked i s) (create_files env checked is)"

definition file_cmd_prepare ::
  "(string \<Rightarrow> real option) \<Rightarrow> (nat \<Rightarrow> u8) \<Rightarrow> 'io file_env \<Rightarrow> 'io file_state world \<Rightarrow> 'io file_state parsing" where
  "file_cmd_prepare scan memory env = (\<lambda>(g, s).
     and_then (parse_file_arguments scan memory (g, s)) (\<lambda>s.
       if test_mode s = MODE_WRITE then Inr (0, remove_files env s)
       else create_files env (validate g) (file_numbers s) s))"

definition file_cmd_cleanup ::
  "(string \<Rightarrow> real option) \<Rightarrow> (nat \<Rightarrow> u8) \<Rightarrow> 'io file_env \<Rightarrow> 'io file_state world \<Rightarrow> 'io file_state parsing" where
  "file_cmd_cleanup scan memory env = (\<lambda>(g, s).
     and_then (parse_file_arguments scan memory (g, s)) (\<lambda>s. Inr (0, remove_files env s)))"

section \<open>The assembled test\<close>

definition get_io_mode_str :: "file_io_mode \<Rightarrow> string" where
  "get_io_mode_str mode =
     (case mode of
        FILE_IO_MODE_SYNC \<Rightarrow> ''synchronous''
      | FILE_IO_MODE_ASYNC \<Rightarrow> ''asynchronous''
      | FILE_IO_MODE_MMAP \<Rightarrow> ''fast mmaped'')"

definition get_test_mode_str :: "file_test_mode \<Rightarrow> string" where
  "get_test_mode_str mode =
     (case mode of
        MODE_WRITE \<Rightarrow> ''sequential write (creation)''
      | MODE_REWRITE \<Rightarrow> ''sequential rewrite''
      | MODE_READ \<Rightarrow> ''sequential read''
      | MODE_RND_READ \<Rightarrow> ''random read''
      | MODE_RND_WRITE \<Rightarrow> ''random write''
      | MODE_RND_RW \<Rightarrow> ''random r/w''
      | MODE_MIXED \<Rightarrow> ''mixed'')"

definition file_arg :: "string \<Rightarrow> string \<Rightarrow> sb_arg_type \<Rightarrow> string option \<Rightarrow> sb_arg" where
  "file_arg name desc ty v = \<lparr>arg_name = name, arg_desc = desc, arg_type = ty, arg_value = v\<rparr>"

definition fileio_args :: "sb_arg list" where
  "fileio_args =
     [file_arg ''file-num'' ''number of files to create'' SB_ARG_TYPE_INT (Some ''128''),
      file_arg ''file-block-size'' ''block size to use in all IO operations'' SB_ARG_TYPE_INT (Some ''16384''),
      file_arg ''file-total-size'' ''total size of files to create'' SB_ARG_TYPE_SIZE (Some ''2G''),
      file_arg ''file-test-mode'' ''test mode {seqwr, seqrewr, seqrd, rndrd, rndwr, rndrw}'' SB_ARG_TYPE_STRING None,
      file_arg ''file-io-mode'' ''file operations mode {sync,async,fastmmap,slowmmap}'' SB_ARG_TYPE_STRING (Some ''sync''),
      file_arg ''file-extra-flags'' ''additional flags to use on opening files {sync,dsync,direct}'' SB_ARG_TYPE_STRING
        (Some ''''),
      file_arg ''file-fsync-freq'' ''do fsync() after this number of requests (0 - don't use fsync())'' SB_ARG_TYPE_INT
        (Some ''100''),
      file_arg ''file-fsync-all'' ''do fsync() after each write operation'' SB_ARG_TYPE_FLAG (Some ''off''),
      file_arg ''file-fsync-end'' ''do fsync() at the end of test'' SB_ARG_TYPE_FLAG (Some ''on''),
      file_arg ''file-fsync-mode'' ''which method to use for synchronization {fsync, fdatasync}'' SB_ARG_TYPE_STRING
        (Some ''fsync''),
      file_arg ''file-merged-requests'' ''merge at most this number of IO requests if possible (0 - don't merge)''
        SB_ARG_TYPE_INT (Some ''0''),
      file_arg ''file-rw-ratio'' ''reads/writes ratio for combined test'' SB_ARG_TYPE_FLOAT (Some ''1.5'')]"

definition fileio_test ::
  "(string \<Rightarrow> real option) \<Rightarrow> (nat \<Rightarrow> u8) \<Rightarrow> bool \<Rightarrow> 'io file_env \<Rightarrow> ('io file_state faulty, sb_file_request) sb_test" where
  "fileio_test scan memory mem env =
     \<lparr>test_sname = ''fileio'', test_lname = ''File I/O test'',
      test_ops =
        \<lparr>t_init = Some (faulty_op (file_init scan memory mem)), t_prepare = Some (faulty_op (file_prepare env)),
         t_thread_init = None, t_print_mode = Some id,
         t_get_request = Some (faulty_get file_get_request null_request),
         t_execute_request = Some (\<lambda>r tid. faulty_op (file_execute_request env r tid)),
         t_print_stats = Some id, t_thread_done = None, t_cleanup = None, t_done = Some (faulty_op (file_done env))\<rparr>,
      test_cmds =
        \<lparr>cmd_help = None, cmd_prepare = Some (faulty_op (file_cmd_prepare scan memory env)), cmd_run = None,
         cmd_cleanup = Some (faulty_op (file_cmd_cleanup scan memory env))\<rparr>,
      test_args = Some fileio_args\<rparr>"

end
