(* ===== verification/SbFileioRuns.thy ===== *)
theory SbFileioRuns
  imports SbFileio
begin

text \<open>
  Properties of the file I/O test of \<open>SbFileio\<close>: the checksums of validated blocks, the order of the
  sequential requests and their execution on a file system, the bounds of the random requests, and
  the races and errors of the generator.
\<close>

section \<open>Checksums\<close>

lemma length_store [simp]: "length (store32 w) = 4" "length (store64 v) = 8"
  by (simp_all add: store32_def store64_def)

lemma random_bytes_length: "random_bytes n rng = (bs, rng') \<Longrightarrow> length bs = n"
  by (induction n arbitrary: rng bs rng') (auto simp: Let_def split: prod.splits)

lemma file_fill_cases:
  assumes "file_fill_buffer addr buf len offset rng = Inr (buf', rng')"
  obtains bs where "buf' = bs @ store32 (ucast (crc32 LittleEndian 0 addr (Some bs))) @ store64 offset @ drop len buf"
    and "length bs + 12 = len" and "len \<le> length buf" and "length buf' = length buf"
  using assms random_bytes_length [of "len - 12" rng]
  by (auto simp: file_fill_buffer_def CHECKSUM_AND_OFFSET_def Let_def not_less split: prod.splits if_splits)

lemma file_fill_ok:
  assumes "12 \<le> len" and "len \<le> length buf"
  obtains buf' rng' where "file_fill_buffer addr buf len offset rng = Inr (buf', rng')"
  using assms that
  by (cases "random_bytes (len - 12) rng") (simp add: file_fill_buffer_def CHECKSUM_AND_OFFSET_def Let_def)

lemma validate_parts:
  assumes "length bs + 12 = len" and "length cs = 4" and "length os = 8"
  shows "file_validate_buffer addr (bs @ cs @ os @ rest) len offset =
    Inr (if store32 (ucast (crc32 LittleEndian 0 addr (Some bs))) = cs \<and> store64 offset = os then 0 else 1)"
proof -
  have len: "len - 12 = length bs" using assms(1) by simp
  show ?thesis
    using assms unfolding file_validate_buffer_def CHECKSUM_AND_OFFSET_def len Let_def by simp
qed

lemma validate_take:
  assumes "12 \<le> len" and "len \<le> length buf" and "len \<le> length buf'" and "take len buf = take len buf'"
  shows "file_validate_buffer addr buf len offset = file_validate_buffer addr buf' len offset"
proof -
  have eq: "take n buf = take n buf'" if "n \<le> len" for n
    using arg_cong [OF assms(4), of "take n"] that by (simp add: min_absorb1)
  moreover have "take n (drop m buf) = take n (drop m buf')" if "m + n \<le> len" for n m
    using eq [OF that] by (simp add: take_drop add.commute)
  ultimately show ?thesis
    using assms(1-3) by (simp add: file_validate_buffer_def CHECKSUM_AND_OFFSET_def Let_def not_less)
qed

lemma crc32_addr: "crc32 LittleEndian 0 a1 (Some bs) = crc32 LittleEndian 0 a2 (Some bs)"
  using crc32_ref [of LittleEndian 0] by simp

lemma fill_validate:
  assumes "file_fill_buffer addr buf len offset rng = Inr (buf', rng')"
  shows "file_validate_buffer addr' buf' len offset = Inr 0"
  using assms by (rule file_fill_cases) (simp add: validate_parts crc32_addr [of addr _ addr'])

lemma store32_inj: "store32 v = store32 w \<Longrightarrow> v = w"
proof (rule bit_word_eqI)
  fix n assume eq: "store32 v = store32 w" and n: "n < LENGTH(32)"
  have "n div 8 < 4" using n by simp
  moreover have "store32 v ! (n div 8) = store32 w ! (n div 8)" using eq by simp
  ultimately have "ucast (drop_bit (8 * (n div 8)) v) = (ucast (drop_bit (8 * (n div 8)) w) :: u8)"
    by (simp add: store32_def del: upt_rec_numeral)
  then have "bit (ucast (drop_bit (8 * (n div 8)) v) :: u8) (n mod 8) = bit (ucast (drop_bit (8 * (n div 8)) w) :: u8) (n mod 8)"
    by simp
  then show "bit v n = bit w n" by (simp add: bit_simps)
qed

lemma append_split: "xs @ ys = as @ bs \<Longrightarrow> length xs \<le> length as \<Longrightarrow> \<exists>r. as = xs @ r \<and> ys = r @ bs"
  by (auto simp: append_eq_append_conv2)

text \<open>
  A change of up to four consecutive bytes of the payload, or any change of the stored checksum and
  offset, is found.
\<close>

lemma damage_found:
  assumes "file_fill_buffer addr buf len offset rng = Inr (p @ u @ q, rng')" and "length v = length u" and "v \<noteq> u"
    and "length p + length u \<le> len - 12 \<and> length u \<le> 4 \<or> len - 12 \<le> length p \<and> length p + length u \<le> len"
  shows "file_validate_buffer addr' (p @ v @ q) len offset = Inr 1"
proof -
  from assms(1) obtain bs rest where buf: "p @ u @ q =
      bs @ (store32 (ucast (crc32 LittleEndian 0 addr (Some bs))) @ store64 offset) @ rest" and len: "length bs + 12 = len"
    by (rule file_fill_cases) auto
  let ?t = "store32 (ucast (crc32 LittleEndian 0 addr (Some bs))) @ store64 offset"
  from assms(4) show ?thesis
  proof
    assume in_payload: "length p + length u \<le> len - 12 \<and> length u \<le> 4"
    then obtain r where r: "bs = (p @ u) @ r" "q = r @ ?t @ rest"
      using append_split [of "p @ u" q bs "?t @ rest"] buf len by auto
    have "crc32 LittleEndian (ucast (0 :: u32)) addr' (Some (p @ v @ r)) \<noteq> crc32 LittleEndian (ucast (0 :: u32)) addr (Some (p @ u @ r))"
      by (rule crc32_burst_neq) (use assms(2,3) in_payload in auto)
    then have neq: "crc_ref 0 (p @ v @ r) \<noteq> crc_ref 0 (p @ u @ r)" unfolding crc32_ref by auto
    have low: "ucast (crc32 LittleEndian 0 a (Some xs)) = crc_ref 0 xs" for a xs
      using crc32_ref [of LittleEndian 0 a xs] down_up [of "crc_ref 0 xs"] by simp
    have "store32 (crc_ref 0 (p @ v @ r)) \<noteq> store32 (crc_ref 0 (p @ u @ r))" using neq store32_inj by blast
    then show ?thesis
      using validate_parts [of "p @ v @ r" len "store32 (ucast (crc32 LittleEndian 0 addr (Some bs)))" "store64 offset" addr' rest offset]
        len assms(2) by (simp add: r low)
  next
    assume in_tail: "len - 12 \<le> length p \<and> length p + length u \<le> len"
    then obtain a where a: "p = bs @ a" "a @ u @ q = ?t @ rest"
      using append_split [of bs "?t @ rest" p "u @ q"] buf len by auto
    then obtain b where b: "?t = (a @ u) @ b" "q = b @ rest"
      using append_split [of "a @ u" q ?t rest] in_tail len by auto
    define n where "n = a @ v @ b"
    have "length (a @ v @ b) = length ?t" using b(1) assms(2) by (simp del: append_assoc)
    then have "length n = 12" unfolding n_def by simp
    then have "length (take 4 n) = 4" "length (drop 4 n) = 8" by simp_all
    moreover have "n \<noteq> ?t" unfolding n_def using b(1) assms(3) by simp
    then have "\<not> (store32 (ucast (crc32 LittleEndian 0 addr' (Some bs))) = take 4 n \<and> store64 offset = drop 4 n)"
      unfolding crc32_addr [of addr' bs addr] by (metis append_take_drop_id)
    ultimately have "file_validate_buffer addr' (bs @ take 4 n @ drop 4 n @ rest) len offset = Inr 1"
      using validate_parts [OF len] by simp
    moreover have "take 4 n @ drop 4 n @ rest = n @ rest" by (simp only: append_assoc [symmetric] append_take_drop_id)
    ultimately have "file_validate_buffer addr' (bs @ n @ rest) len offset = Inr 1" by metis
    then show ?thesis by (simp add: n_def a(1) b(2))
  qed
qed

section \<open>Sequential requests\<close>

text \<open>
  The requests of a sequential test, by their number: the files one after the other, each from its
  start to its end in chunks, and then one \<open>fsync\<close> of every file.
\<close>

definition seq_mode :: "file_test_mode \<Rightarrow> bool" where
  "seq_mode m \<longleftrightarrow> m = MODE_WRITE \<or> m = MODE_REWRITE \<or> m = MODE_READ"

definition writes :: "'io file_state \<Rightarrow> bool" where
  "writes s \<longleftrightarrow> test_mode s = MODE_WRITE \<or> test_mode s = MODE_REWRITE"

definition chunk :: "'io file_state \<Rightarrow> int" where
  "chunk s = (if file_merged_requests s > 0 then file_max_request_size s else file_block_size s)"

definition per_file :: "'io file_state \<Rightarrow> nat" where
  "per_file s = nat ((file_size s + chunk s - 1) div chunk s)"

definition blocks :: "'io file_state \<Rightarrow> nat" where
  "blocks s = unat (num_files s) * per_file s"

definition seq_total :: "'io file_state \<Rightarrow> nat" where
  "seq_total s = blocks s + (if writes s \<and> file_fsync_end s then unat (num_files s) else 0)"

definition seq_request :: "'io file_state \<Rightarrow> nat \<Rightarrow> sb_file_request" where
  "seq_request s k =
     (if k < blocks s then
        let pos = int (k mod per_file s) * chunk s
        in \<lparr>file_id = of_nat (k div per_file s), fr_pos = pos, fr_size = min (chunk s) (file_size s - pos),
            operation = (if writes s then FILE_OP_TYPE_WRITE else FILE_OP_TYPE_READ)\<rparr>
      else \<lparr>file_id = of_nat (k - blocks s), fr_pos = 0, fr_size = 0, operation = FILE_OP_TYPE_FSYNC\<rparr>)"

definition seq_ok :: "'io file_state \<Rightarrow> bool" where
  "seq_ok s \<longleftrightarrow> seq_mode (test_mode s) \<and> 0 < num_files s \<and> 0 < file_size s \<and> 0 < chunk s \<and>
     (file_merged_requests s \<le> 0 \<longrightarrow> file_block_size s dvd file_size s)"

text \<open>What the generator reads of the state, apart from the place it has reached.\<close>

definition same_config :: "'io file_state \<Rightarrow> 'io file_state \<Rightarrow> bool" where
  "same_config s0 s \<longleftrightarrow>
     num_files s = num_files s0 \<and> file_size s = file_size s0 \<and> file_block_size s = file_block_size s0 \<and>
     file_merged_requests s = file_merged_requests s0 \<and> file_max_request_size s = file_max_request_size s0 \<and>
     test_mode s = test_mode s0 \<and> file_fsync_end s = file_fsync_end s0 \<and> file_fsync_all s = file_fsync_all s0 \<and>
     io_mode s = io_mode s0 \<and> fsync_mode s = fsync_mode s0 \<and> files s = files s0"

definition seq_at :: "'io file_state \<Rightarrow> nat \<Rightarrow> 'io file_state \<Rightarrow> bool" where
  "seq_at s0 k s \<longleftrightarrow> same_config s0 s \<and>
     (if k < blocks s0 then current_file s = of_nat (k div per_file s0) \<and> position s = int (k mod per_file s0) * chunk s0 \<and> fsynced_file s = 0
      else current_file s = num_files s0 \<and> position s = 0 \<and> fsynced_file s = of_nat (k - blocks s0))"

lemma per_file_bounds:
  assumes "seq_ok s"
  shows "0 < per_file s" and "(int (per_file s) - 1) * chunk s < file_size s" and "file_size s \<le> int (per_file s) * chunk s"
proof -
  let ?c = "chunk s" and ?f = "file_size s"
  have pos: "0 < ?c" "0 < ?f" using assms by (simp_all add: seq_ok_def)
  define q where "q = (?f + ?c - 1) div ?c"
  have eq: "?f + ?c - 1 = q * ?c + (?f + ?c - 1) mod ?c" unfolding q_def by simp
  have mod: "0 \<le> (?f + ?c - 1) mod ?c" "(?f + ?c - 1) mod ?c < ?c" using pos by simp_all
  have "0 < q" unfolding q_def using pos by (simp add: pos_imp_zdiv_pos_iff)
  then have per: "int (per_file s) = q" by (simp add: per_file_def q_def)
  show "0 < per_file s" using per \<open>0 < q\<close> by simp
  show "(int (per_file s) - 1) * ?c < ?f" "?f \<le> int (per_file s) * ?c"
    using eq mod unfolding per by (simp_all add: algebra_simps)
qed

lemma block_place:
  assumes "seq_ok s" and "k < blocks s"
  shows "k div per_file s < unat (num_files s)" and "k mod per_file s < per_file s"
    and "unat (of_nat (k div per_file s) :: u32) = k div per_file s"
    and "int (k mod per_file s) * chunk s < file_size s"
proof -
  have per: "0 < per_file s" using per_file_bounds [OF assms(1)] by simp
  then show fid: "k div per_file s < unat (num_files s)" and "k mod per_file s < per_file s"
    using assms(2) by (simp_all add: blocks_def less_mult_imp_div_less)
  show "unat (of_nat (k div per_file s) :: u32) = k div per_file s" using fid by (intro le_unat_uoi [of _ "num_files s"]) simp
  have "int (k mod per_file s) \<le> int (per_file s) - 1" using per by (simp add: Suc_leI)
  then have "int (k mod per_file s) * chunk s \<le> (int (per_file s) - 1) * chunk s"
    using assms(1) by (intro mult_right_mono) (auto simp: seq_ok_def)
  with per_file_bounds(2) [OF assms(1)] show "int (k mod per_file s) * chunk s < file_size s" by simp
qed

lemma block_size:
  assumes "seq_ok s" and "k < blocks s" and "j = k mod per_file s"
  shows "0 < min (chunk s) (file_size s - int j * chunk s)"
    and "Suc j < per_file s \<Longrightarrow> int j * chunk s + min (chunk s) (file_size s - int j * chunk s) = int (Suc j) * chunk s \<and>
      int (Suc j) * chunk s < file_size s"
    and "Suc j = per_file s \<Longrightarrow> int j * chunk s + min (chunk s) (file_size s - int j * chunk s) = file_size s"
    and "file_merged_requests s \<le> 0 \<Longrightarrow> chunk s \<le> file_size s - int j * chunk s"
proof -
  have c: "0 < chunk s" using assms(1) by (simp add: seq_ok_def)
  note place = block_place(4) [OF assms(1,2), folded assms(3)]
  show "0 < min (chunk s) (file_size s - int j * chunk s)" using c place by simp
  show "int j * chunk s + min (chunk s) (file_size s - int j * chunk s) = int (Suc j) * chunk s \<and>
      int (Suc j) * chunk s < file_size s" if "Suc j < per_file s"
  proof -
    have "int (Suc j) * chunk s \<le> (int (per_file s) - 1) * chunk s" using that c by (intro mult_right_mono) auto
    then have "int (Suc j) * chunk s < file_size s" using per_file_bounds(2) [OF assms(1)] by simp
    then show ?thesis by (simp add: algebra_simps)
  qed
  show "int j * chunk s + min (chunk s) (file_size s - int j * chunk s) = file_size s" if "Suc j = per_file s"
    using per_file_bounds(3) [OF assms(1)] by (simp add: that [symmetric] algebra_simps)
  show "chunk s \<le> file_size s - int j * chunk s" if "file_merged_requests s \<le> 0"
  proof -
    have "chunk s dvd file_size s - int j * chunk s"
      using assms(1) that by (auto simp: seq_ok_def chunk_def)
    then show ?thesis using place by (intro zdvd_imp_le) auto
  qed
qed

text \<open>What the generator leaves alone, and what the execution of a request leaves alone.\<close>

definition moved :: "'io file_state \<Rightarrow> 'io file_state \<Rightarrow> bool" where
  "moved s s' \<longleftrightarrow> same_config s s' \<and> io s' = io s \<and> buffer s' = buffer s"

definition executed :: "'io file_state \<Rightarrow> 'io file_state \<Rightarrow> bool" where
  "executed s s' \<longleftrightarrow> same_config s s' \<and> position s' = position s \<and> current_file s' = current_file s \<and>
     fsynced_file s' = fsynced_file s \<and> map_option length (buffer s') = map_option length (buffer s)"

lemma executed_refl [simp]: "executed s s"
  by (simp add: executed_def same_config_def)

lemma executed_trans: "executed s s' \<Longrightarrow> executed s' s'' \<Longrightarrow> executed s s''"
  by (simp add: executed_def same_config_def)

lemma seq_at_executed: "seq_at s0 k s \<Longrightarrow> executed s s' \<Longrightarrow> seq_at s0 k s'"
  by (simp add: seq_at_def executed_def same_config_def)

lemma seq_block:
  assumes "seq_ok s0" and "seq_at s0 k s" and "k < blocks s0"
  shows "\<exists>s'. file_get_seq_request (g, s) = (\<lparr>req_type = SB_REQ_TYPE_FILE, req_data = seq_request s0 k\<rparr>, s') \<and>
    seq_at s0 (Suc k) s' \<and> moved s s'"
proof -
  let ?per = "per_file s0" and ?j = "k mod per_file s0" and ?f = "k div per_file s0"
  note place = block_place [OF assms(1,3)] and len = block_size [OF assms(1,3) refl]
  have conf: "same_config s0 s" and cur: "current_file s = of_nat ?f" "position s = int ?j * chunk s0" "fsynced_file s = 0"
    using assms(2,3) by (simp_all add: seq_at_def)
  have neq: "(of_nat ?f :: u32) \<noteq> num_files s0" using place(1,3) by auto
  have req: "seq_prepare s = seq_request s0 k"
    using conf cur assms(3) len(4)
    by (auto simp: seq_prepare_def seq_request_def same_config_def writes_def chunk_def Let_def min_def)
  let ?size = "min (chunk s0) (file_size s0 - int ?j * chunk s0)"
  have fsize: "fr_size (seq_request s0 k) = ?size" using assms(3) by (simp add: seq_request_def Let_def)
  have nf: "num_files s = num_files s0" and fs: "file_size s = file_size s0" using conf by (simp_all add: same_config_def)
  show ?thesis
  proof (cases "Suc ?j < ?per")
    case True
    then have next_place: "Suc k mod ?per = Suc ?j" "Suc k div ?per = ?f" by (simp_all add: mod_Suc div_Suc)
    have "Suc k < blocks s0"
    proof -
      have "Suc k = ?f * ?per + Suc ?j" using div_mult_mod_eq [of k ?per] by linarith
      also have "\<dots> < ?f * ?per + ?per" using True by linarith
      also have "\<dots> = Suc ?f * ?per" by simp
      also have "\<dots> \<le> blocks s0" unfolding blocks_def using place(1) by (intro mult_le_mono1) simp
      finally show ?thesis .
    qed
    then show ?thesis
      using len(2) [OF True] conf cur neq next_place
      by (auto simp: file_get_seq_request_def seq_advance_def req fsize nf fs keep_prev_def seq_at_def same_config_def moved_def Let_def)
  next
    case False
    then have last: "Suc ?j = ?per" using place(2) by simp
    then have next_place: "Suc k mod ?per = 0" "Suc k div ?per = Suc ?f" by (simp_all add: mod_Suc div_Suc)
    then have k: "Suc k = ?per * Suc ?f" by (metis add.right_neutral mult_div_mod_eq)
    have "Suc k < blocks s0 \<longleftrightarrow> Suc ?f < unat (num_files s0)"
      unfolding k blocks_def mult.commute [of ?per] using per_file_bounds(1) [OF assms(1)] by (simp only: mult_less_cancel2) simp
    moreover have "Suc k = blocks s0 \<and> of_nat ?f + 1 = num_files s0" if "\<not> Suc ?f < unat (num_files s0)"
    proof -
      have f: "Suc ?f = unat (num_files s0)" using place(1) that by simp
      have "of_nat ?f + 1 = (of_nat (Suc ?f) :: u32)" by simp
      also have "\<dots> = num_files s0" unfolding f by simp
      finally show ?thesis using f unfolding k blocks_def by (metis mult.commute)
    qed
    ultimately show ?thesis
      using len(3) [OF last] conf cur neq next_place
      by (auto simp: file_get_seq_request_def seq_advance_def req fsize nf fs keep_prev_def seq_at_def same_config_def moved_def Let_def)
  qed
qed

lemma seq_fsync:
  assumes "seq_ok s0" and "seq_at s0 k s" and "\<not> k < blocks s0" and "k < seq_total s0"
  shows "\<exists>s'. file_get_seq_request (g, s) = (\<lparr>req_type = SB_REQ_TYPE_FILE, req_data = seq_request s0 k\<rparr>, s') \<and>
    seq_at s0 (Suc k) s' \<and> moved s s'"
proof -
  have w: "writes s0" "file_fsync_end s0" "k - blocks s0 < unat (num_files s0)"
    using assms(3,4) by (auto simp: seq_total_def split: if_splits)
  have conf: "same_config s0 s" and cur: "current_file s = num_files s0" "position s = 0" "fsynced_file s = of_nat (k - blocks s0)"
    using assms(2,3) by (simp_all add: seq_at_def)
  have "unat (of_nat (k - blocks s0) :: u32) = k - blocks s0" using w(3) by (intro le_unat_uoi [of _ "num_files s0"]) simp
  then have "(of_nat (k - blocks s0) :: u32) < num_files s0" using w(3) by (simp add: word_less_nat_alt)
  moreover have "of_nat (Suc k - blocks s0) = (of_nat (k - blocks s0) :: u32) + 1"
    using assms(3) by (simp add: Suc_diff_le)
  moreover have "operation (seq_prepare s) = FILE_OP_TYPE_WRITE"
    using w(1) conf by (auto simp: seq_prepare_def writes_def same_config_def)
  ultimately show ?thesis
    using conf cur w assms(3)
    by (auto simp: file_get_seq_request_def seq_advance_def keep_prev_def seq_at_def seq_request_def same_config_def moved_def Let_def)
qed

lemma seq_end:
  assumes "seq_ok s0" and "seq_at s0 (seq_total s0) s"
  shows "\<exists>r s'. file_get_seq_request (g, s) = (\<lparr>req_type = SB_REQ_TYPE_NULL, req_data = r\<rparr>, s') \<and> moved s s'"
proof -
  have ge: "\<not> seq_total s0 < blocks s0" by (simp add: seq_total_def)
  have conf: "same_config s0 s" and cur: "current_file s = num_files s0" "fsynced_file s = of_nat (seq_total s0 - blocks s0)"
    using assms(2) ge by (simp_all add: seq_at_def)
  have "(of_nat (seq_total s0 - blocks s0) :: u32) = num_files s0" if "writes s0" "file_fsync_end s0"
    using that by (simp add: seq_total_def)
  moreover have "operation (seq_prepare s) = FILE_OP_TYPE_WRITE \<longleftrightarrow> writes s0"
    using conf by (auto simp: seq_prepare_def writes_def same_config_def)
  ultimately show ?thesis
    using conf cur
    by (auto simp: file_get_seq_request_def seq_advance_def keep_prev_def same_config_def moved_def Let_def)
qed

lemmas seq_next = seq_block seq_fsync

section \<open>A file system\<close>

text \<open>
  What the test relies on of the system: \<open>content io fd x\<close> is the byte at \<open>x\<close> of the open file \<open>fd\<close>, if
  the file reaches that far.  Nothing fails; a write of positive length stores its bytes and leaves the
  others, a read of bytes that exist delivers them, and the synchronisation changes nothing.
\<close>

definition file_system :: "'io file_env \<Rightarrow> ('io \<Rightarrow> int \<Rightarrow> int \<Rightarrow> u8 option) \<Rightarrow> bool" where
  "file_system env content \<longleftrightarrow>
     (\<forall>fd bs off sys. 0 \<le> off \<longrightarrow>
        (\<exists>io'. env_pwrite env fd bs off sys = (int (length bs), io') \<and>
           (\<forall>i < length bs. content io' fd (off + int i) = Some (bs ! i)) \<and>
           (\<forall>fd' x. content sys fd' x \<noteq> None \<and> (fd' \<noteq> fd \<or> x < off \<or> off + int (length bs) \<le> x) \<longrightarrow>
              content io' fd' x = content sys fd' x))) \<and>
     (\<forall>fd bs off sys. 0 \<le> off \<and> (\<forall>i < length bs. content sys fd (off + int i) = Some (bs ! i)) \<longrightarrow>
        (\<exists>io'. env_pread env fd (length bs) off sys = ((int (length bs), bs), io') \<and> content io' = content sys)) \<and>
     (\<forall>fd sys. (\<exists>io'. env_fsync env fd sys = (0, io') \<and> content io' = content sys) \<and>
        (\<exists>io'. env_fdatasync env fd sys = (0, io') \<and> content io' = content sys))"

lemma file_system_write:
  assumes "file_system env content" and "0 \<le> off"
  obtains io' where "env_pwrite env fd bs off sys = (int (length bs), io')"
    and "\<And>i. i < length bs \<Longrightarrow> content io' fd (off + int i) = Some (bs ! i)"
    and "\<And>fd' x. content sys fd' x \<noteq> None \<Longrightarrow> fd' \<noteq> fd \<or> x < off \<or> off + int (length bs) \<le> x \<Longrightarrow> content io' fd' x = content sys fd' x"
proof -
  have "\<forall>fd bs off sys. 0 \<le> off \<longrightarrow>
        (\<exists>io'. env_pwrite env fd bs off sys = (int (length bs), io') \<and>
           (\<forall>i < length bs. content io' fd (off + int i) = Some (bs ! i)) \<and>
           (\<forall>fd' x. content sys fd' x \<noteq> None \<and> (fd' \<noteq> fd \<or> x < off \<or> off + int (length bs) \<le> x) \<longrightarrow>
              content io' fd' x = content sys fd' x))"
    using assms(1) unfolding file_system_def by (rule conjunct1)
  with assms(2) obtain io' where "env_pwrite env fd bs off sys = (int (length bs), io')"
    "\<forall>i < length bs. content io' fd (off + int i) = Some (bs ! i)"
    "\<forall>fd' x. content sys fd' x \<noteq> None \<and> (fd' \<noteq> fd \<or> x < off \<or> off + int (length bs) \<le> x) \<longrightarrow>
              content io' fd' x = content sys fd' x" by meson
  then show ?thesis using that by blast
qed

lemma file_system_read:
  assumes "file_system env content" and "0 \<le> off" and "\<And>i. i < length bs \<Longrightarrow> content sys fd (off + int i) = Some (bs ! i)"
  obtains io' where "env_pread env fd (length bs) off sys = ((int (length bs), bs), io')" and "content io' = content sys"
  using assms unfolding file_system_def by blast

lemma file_system_sync:
  assumes "file_system env content" and "io_mode s = FILE_IO_MODE_SYNC" and "unat i < length (files s)"
  obtains io' where "file_fsync env i s = Inr (0, s\<lparr>io := io'\<rparr>)" and "content io' = content (io s)"
proof -
  let ?fd = "files s ! unat i"
  obtain io1 where "env_fsync env ?fd (io s) = (0, io1)" "content io1 = content (io s)"
    using assms(1) unfolding file_system_def by blast
  moreover obtain io2 where "env_fdatasync env ?fd (io s) = (0, io2)" "content io2 = content (io s)"
    using assms(1) unfolding file_system_def by blast
  ultimately show ?thesis
    using that assms(2,3) by (cases "fsync_mode s") (simp_all add: file_fsync_def file_of_def bind_res_def)
qed

section \<open>Executing the requests\<close>

definition place_of :: "'io file_state \<Rightarrow> sb_file_request \<Rightarrow> bool" where
  "place_of s r \<longleftrightarrow> unat (file_id r) < length (files s) \<and> 0 \<le> fr_pos r \<and> 0 \<le> fr_size r \<and>
     (case buffer s of None \<Rightarrow> False | Some buf \<Rightarrow> fr_size r \<le> int (length buf))"

text \<open>The bytes of the request \<open>r\<close> are in its file, and pass the validation where it is on.\<close>

definition holds_block ::
  "('io \<Rightarrow> int \<Rightarrow> int \<Rightarrow> u8 option) \<Rightarrow> bool \<Rightarrow> int list \<Rightarrow> sb_file_request \<Rightarrow> 'io \<Rightarrow> bool" where
  "holds_block content checked fds r sys \<longleftrightarrow>
     (\<exists>bs. int (length bs) = fr_size r \<and>
        (\<forall>i < length bs. content sys (fds ! unat (file_id r)) (fr_pos r + int i) = Some (bs ! i)) \<and>
        (checked \<longrightarrow> file_validate_buffer 0 bs (length bs) (word_of_int (fr_pos r)) = Inr 0))"

text \<open>Two requests whose bytes are disjoint.\<close>

definition apart :: "int list \<Rightarrow> sb_file_request \<Rightarrow> sb_file_request \<Rightarrow> bool" where
  "apart fds r r' \<longleftrightarrow> fds ! unat (file_id r) \<noteq> fds ! unat (file_id r') \<or>
     fr_pos r' + fr_size r' \<le> fr_pos r \<or> fr_pos r + fr_size r \<le> fr_pos r'"

lemma checked_fill:
  assumes "place_of s r" and "checked \<longrightarrow> 12 \<le> fr_size r"
  obtains s' bs where "(if checked then fill_buffer (fr_size r) (fr_pos r) s else Inr s) = Inr s'"
    and "from_buffer (fr_size r) s' = Inr bs" and "int (length bs) = fr_size r" and "executed s s'" and "io s' = io s"
    and "checked \<longrightarrow> file_validate_buffer 0 bs (length bs) (word_of_int (fr_pos r)) = Inr 0"
proof -
  obtain buf where buf: "buffer s = Some buf" and len: "0 \<le> fr_size r" "nat (fr_size r) \<le> length buf"
    using assms(1) by (auto simp: place_of_def split: option.splits)
  let ?n = "nat (fr_size r)"
  show ?thesis
  proof (cases checked)
    case True
    then have "12 \<le> ?n" using assms(2) by simp
    then obtain buf' rng where fill: "file_fill_buffer 0 buf ?n (word_of_int (fr_pos r)) (file_rng s) = Inr (buf', rng)"
      using file_fill_ok [OF _ len(2)] by metis
    from fill have len': "length buf' = length buf" by (rule file_fill_cases) simp
    have "file_validate_buffer 0 (take ?n buf') ?n (word_of_int (fr_pos r)) = Inr 0"
      using fill_validate [OF fill, of 0] len len' \<open>12 \<le> ?n\<close>
      by (subst validate_take [of _ _ buf']) auto
    then show ?thesis
      using that [of "s\<lparr>buffer := Some buf', file_rng := rng\<rparr>" "take ?n buf'"] True buf fill len len'
      by (simp add: fill_buffer_def bind_res_def from_buffer_def executed_def same_config_def min_absorb2)
  next
    case False
    then show ?thesis
      using that [of s "take ?n buf"] buf len by (simp add: from_buffer_def min_absorb2)
  qed
qed

lemma execute_write_ok:
  assumes fs: "file_system env content" and "io_mode s = FILE_IO_MODE_SYNC" and "place_of s r" and "checked \<longrightarrow> 12 \<le> fr_size r"
  obtains s' where "execute_write env checked r s = Inr (0, s')" and "executed s s'"
    and "holds_block content checked (files s) r (io s')"
    and "\<And>r' c. holds_block content c (files s) r' (io s) \<Longrightarrow> apart (files s) r r' \<Longrightarrow> holds_block content c (files s) r' (io s')"
proof -
  obtain s1 bs where fill: "(if checked then fill_buffer (fr_size r) (fr_pos r) s else Inr s) = Inr s1"
    "from_buffer (fr_size r) s1 = Inr bs" "int (length bs) = fr_size r" "executed s s1" "io s1 = io s"
    "checked \<longrightarrow> file_validate_buffer 0 bs (length bs) (word_of_int (fr_pos r)) = Inr 0"
    using checked_fill [OF assms(3,4)] by blast
  let ?fd = "files s ! unat (file_id r)"
  have conf: "files s1 = files s" "io_mode s1 = io_mode s" "file_fsync_all s1 = file_fsync_all s"
    using fill(4) by (simp_all add: executed_def same_config_def)
  have fid: "unat (file_id r) < length (files s)" and pos: "0 \<le> fr_pos r" using assms(3) by (simp_all add: place_of_def)
  obtain io1 where wr: "env_pwrite env ?fd bs (fr_pos r) (io s) = (int (length bs), io1)"
    "\<And>i. i < length bs \<Longrightarrow> content io1 ?fd (fr_pos r + int i) = Some (bs ! i)"
    "\<And>fd' x. content (io s) fd' x \<noteq> None \<Longrightarrow> fd' \<noteq> ?fd \<or> x < fr_pos r \<or> fr_pos r + int (length bs) \<le> x \<Longrightarrow>
       content io1 fd' x = content (io s) fd' x"
    by (rule file_system_write [OF fs pos, where bs = bs and fd = ?fd and sys = "io s"]) blast
  let ?s = "s1\<lparr>io := io1\<rparr>"
  obtain io2 where sync: "(if file_fsync_all ?s then file_fsync env (file_id r) ?s else Inr (0, ?s)) = Inr (0, ?s\<lparr>io := io2\<rparr>)"
    "content io2 = content io1"
    by (cases "file_fsync_all ?s"; rule file_system_sync [OF fs, where s = ?s and i = "file_id r"]) (use assms(2) fid conf in auto)
  have pw: "file_pwrite env (file_id r) (fr_size r) (fr_pos r) s1 = Inr (fr_size r, ?s)"
    using fid assms(2) conf fill(2,3,5) wr(1) by (simp add: file_pwrite_def file_of_def bind_res_def)
  let ?s' = "?s\<lparr>io := io2, write_ops := write_ops ?s + 1, real_write_ops := real_write_ops ?s + 1,
      bytes_written := bytes_written ?s + word_of_int (fr_size r), other_ops := other_ops ?s + (if file_fsync_all ?s then 1 else 0)\<rparr>"
  have "execute_write env checked r s = Inr (0, ?s')"
    unfolding execute_write_def fill(1) using pw sync(1) by (simp add: bind_res_def)
  moreover have "executed s ?s'" using fill(4) by (simp add: executed_def same_config_def)
  moreover have "holds_block content checked (files s) r (io ?s')"
    unfolding holds_block_def using fill(3,6) wr(2) sync(2) by (intro exI [of _ bs]) simp
  moreover have "holds_block content c (files s) r' (io ?s')"
    if h: "holds_block content c (files s) r' (io s)" and a: "apart (files s) r r'" for r' c
  proof -
    obtain bs' where bs': "int (length bs') = fr_size r'"
      "\<And>i. i < length bs' \<Longrightarrow> content (io s) (files s ! unat (file_id r')) (fr_pos r' + int i) = Some (bs' ! i)"
      "c \<longrightarrow> file_validate_buffer 0 bs' (length bs') (word_of_int (fr_pos r')) = Inr 0"
      using h by (auto simp: holds_block_def)
    have "content io2 (files s ! unat (file_id r')) (fr_pos r' + int i) = Some (bs' ! i)" if "i < length bs'" for i
      using wr(3) [of "files s ! unat (file_id r')" "fr_pos r' + int i"] bs'(1) bs'(2) [OF that] a that fill(3) sync(2)
      by (auto simp: apart_def)
    then show ?thesis unfolding holds_block_def using bs'(1,3) by (intro exI [of _ bs']) simp
  qed
  ultimately show ?thesis by (rule that)
qed

lemma execute_read_ok:
  assumes fs: "file_system env content" and "io_mode s = FILE_IO_MODE_SYNC" and "place_of s r"
    and "holds_block content checked (files s) r (io s)"
  obtains s' where "execute_read env checked r s = Inr (0, s')" and "executed s s'" and "content (io s') = content (io s)"
proof -
  let ?fd = "files s ! unat (file_id r)"
  have fid: "unat (file_id r) < length (files s)" and pos: "0 \<le> fr_pos r" using assms(3) by (simp_all add: place_of_def)
  obtain buf where buf: "buffer s = Some buf" "fr_size r \<le> int (length buf)"
    using assms(3) by (auto simp: place_of_def split: option.splits)
  obtain bs where bs: "int (length bs) = fr_size r"
    "\<And>i. i < length bs \<Longrightarrow> content (io s) ?fd (fr_pos r + int i) = Some (bs ! i)"
    "checked \<longrightarrow> file_validate_buffer 0 bs (length bs) (word_of_int (fr_pos r)) = Inr 0"
    using assms(4) by (auto simp: holds_block_def)
  obtain io1 where rd: "env_pread env ?fd (length bs) (fr_pos r) (io s) = ((int (length bs), bs), io1)" "content io1 = content (io s)"
    by (rule file_system_read [OF fs pos, where bs = bs and fd = ?fd and sys = "io s"]) (use bs(2) in auto)
  have n: "nat (fr_size r) = length bs" using bs(1) by simp
  let ?buf = "bs @ drop (length bs) buf" and ?s = "s\<lparr>io := io1\<rparr>"
  have pr: "file_pread env (file_id r) (fr_size r) (fr_pos r) s = Inr (fr_size r, ?s\<lparr>buffer := Some ?buf\<rparr>)"
    using fid assms(2) rd(1) buf bs(1)
    by (simp add: file_pread_def file_of_def bind_res_def n into_buffer_def)
  have "validate_buffer (fr_size r) (fr_pos r) (?s\<lparr>buffer := Some ?buf\<rparr>) = Inr 0" if checked
  proof -
    have v: "file_validate_buffer 0 bs (length bs) (word_of_int (fr_pos r)) = Inr 0" using bs(3) that by simp
    then have "12 \<le> length bs" by (auto simp: file_validate_buffer_def CHECKSUM_AND_OFFSET_def split: if_splits)
    then have "file_validate_buffer 0 ?buf (length bs) (word_of_int (fr_pos r)) = Inr 0"
      using v by (subst validate_take [of _ _ bs]) auto
    then show ?thesis by (simp add: validate_buffer_def n)
  qed
  then have "execute_read env checked r s = Inr (0, (?s\<lparr>buffer := Some ?buf\<rparr>)\<lparr>read_ops := read_ops s + 1,
      real_read_ops := real_read_ops s + 1, bytes_read := bytes_read s + word_of_int (fr_size r)\<rparr>)"
    unfolding execute_read_def using pr by (simp add: bind_res_def)
  moreover have "length ?buf = length buf" using buf(2) bs(1) by simp
  ultimately show ?thesis using rd(2) buf(1) by (elim that) (simp_all add: executed_def same_config_def)
qed

lemma execute_fsync_ok:
  assumes fs: "file_system env content" and "io_mode s = FILE_IO_MODE_SYNC" and "unat (file_id r) < length (files s)"
  obtains s' where "execute_fsync env r s = Inr (0, s')" and "executed s s'" and "content (io s') = content (io s)"
proof -
  obtain io1 where sync: "file_fsync env (file_id r) s = Inr (0, s\<lparr>io := io1\<rparr>)" "content io1 = content (io s)"
    using file_system_sync [OF assms] by blast
  show ?thesis
  proof (cases "file_fsync_all s")
    case True
    then show ?thesis using that [of s] by (simp add: execute_fsync_def)
  next
    case False
    then have "execute_fsync env r s = Inr (0, s\<lparr>io := io1, other_ops := other_ops s + 1\<rparr>)"
      using sync(1) by (simp add: execute_fsync_def bind_res_def)
    then show ?thesis using sync(2) by (elim that) (simp_all add: executed_def same_config_def)
  qed
qed

section \<open>Runs of the sequential tests\<close>

text \<open>A state in which the test is set up: the files are open, and a chunk fits into the buffer.\<close>

definition set_up :: "bool \<Rightarrow> 'io file_state \<Rightarrow> bool" where
  "set_up checked s \<longleftrightarrow> seq_ok s \<and> io_mode s = FILE_IO_MODE_SYNC \<and>
     length (files s) = unat (num_files s) \<and> distinct (files s) \<and>
     (case buffer s of None \<Rightarrow> False | Some buf \<Rightarrow> chunk s \<le> int (length buf)) \<and>
     (checked \<longrightarrow> file_merged_requests s \<le> 0 \<and> 12 \<le> file_block_size s)"

text \<open>The first \<open>n\<close> blocks are in the files.\<close>

definition stored :: "('io \<Rightarrow> int \<Rightarrow> int \<Rightarrow> u8 option) \<Rightarrow> bool \<Rightarrow> 'io file_state \<Rightarrow> nat \<Rightarrow> 'io \<Rightarrow> bool" where
  "stored content checked s n sys \<longleftrightarrow> (\<forall>j < n. holds_block content checked (files s) (seq_request s j) sys)"

lemma stored_cong: "content sys' = content sys \<Longrightarrow> stored content c s n sys' = stored content c s n sys"
  by (simp add: stored_def holds_block_def)

definition seq_inv ::
  "('io \<Rightarrow> int \<Rightarrow> int \<Rightarrow> u8 option) \<Rightarrow> sb_globals \<Rightarrow> 'io file_state \<Rightarrow> nat \<Rightarrow> 'io file_state faulty world \<Rightarrow> bool" where
  "seq_inv content g0 s0 k = (\<lambda>(g, e, s).
     g = g0 \<and> seq_at s0 k s \<and> map_option length (buffer s) = map_option length (buffer s0) \<and>
     stored content (validate g) s0 (if writes s0 then min k (blocks s0) else blocks s0) (io s))"

lemma seq_apart:
  assumes "set_up c s" and "j < k" and "k < blocks s"
  shows "apart (files s) (seq_request s k) (seq_request s j)"
proof (cases "k div per_file s = j div per_file s")
  case True
  have ok: "seq_ok s" and j: "j < blocks s" using assms by (simp_all add: set_up_def)
  have m: "j mod per_file s < k mod per_file s"
    using assms(2) div_mult_mod_eq [of j "per_file s"] div_mult_mod_eq [of k "per_file s"] unfolding True by linarith
  then have "Suc (j mod per_file s) < per_file s" using block_place(2) [OF ok assms(3)] by linarith
  from block_size(2) [OF ok j refl this]
  have "fr_pos (seq_request s j) + fr_size (seq_request s j) = int (Suc (j mod per_file s)) * chunk s"
    using j by (simp add: seq_request_def Let_def)
  also have "\<dots> \<le> int (k mod per_file s) * chunk s" using m ok by (intro mult_right_mono) (auto simp: seq_ok_def)
  finally show ?thesis using assms(3) by (simp add: apart_def seq_request_def [of s k] Let_def)
next
  case False
  have ok: "seq_ok s" and j: "j < blocks s" using assms by (simp_all add: set_up_def)
  show ?thesis
    using False block_place(1,3) [OF ok assms(3)] block_place(1,3) [OF ok j] assms(1) j assms(3)
    by (auto simp: apart_def seq_request_def Let_def set_up_def nth_eq_iff_index_eq)
qed

definition file_request :: "'io file_state \<Rightarrow> nat \<Rightarrow> sb_file_request sb_request" where
  "file_request s k = \<lparr>req_type = SB_REQ_TYPE_FILE, req_data = seq_request s k\<rparr>"

lemma fileio_get:
  assumes "seq_mode (test_mode s)"
  shows "get_request junk (fileio_test scan memory mem env) tid (g, e, s) =
    (fst (file_get_seq_request (g, s)), g, e, snd (file_get_seq_request (g, s)))"
  using assms by (cases "file_get_seq_request (g, s)")
    (simp add: get_request_def fileio_test_def faulty_get_def file_get_request_def seq_mode_def bind_res_def)

lemma fileio_execute:
  assumes "file_execute_request env r tid (g, s) = Inr (rc, s')"
  shows "execute_request (fileio_test scan memory mem env) r tid (g, e, s) = (rc, g, None, s')"
  using assms by (simp add: execute_request_def fileio_test_def faulty_op_def)

lemma seq_request_place:
  assumes "set_up c s0" and "k < seq_total s0" and "same_config s0 s"
    and "map_option length (buffer s) = map_option length (buffer s0)"
  shows "place_of s (seq_request s0 k)" and "\<not> file_id (seq_request s0 k) > num_files s"
    and "fr_pos (seq_request s0 k) + fr_size (seq_request s0 k) \<le> file_size s"
    and "k < blocks s0 \<and> c \<longrightarrow> 12 \<le> fr_size (seq_request s0 k)"
proof -
  let ?r = "seq_request s0 k"
  have ok: "seq_ok s0" using assms(1) by (simp add: set_up_def)
  have conf: "num_files s = num_files s0" "file_size s = file_size s0" "files s = files s0"
    using assms(3) by (simp_all add: same_config_def)
  obtain buf where buf: "buffer s = Some buf" "chunk s0 \<le> int (length buf)"
    using assms(1,4) by (auto simp: set_up_def split: option.splits)
  have all: "unat (file_id ?r) < unat (num_files s0) \<and> 0 \<le> fr_pos ?r \<and> 0 \<le> fr_size ?r \<and> fr_size ?r \<le> chunk s0 \<and>
      fr_pos ?r + fr_size ?r \<le> file_size s0 \<and> (k < blocks s0 \<and> c \<longrightarrow> 12 \<le> fr_size ?r)"
  proof (cases "k < blocks s0")
    case True
    have c: "0 < chunk s0" using ok by (simp add: seq_ok_def)
    have "12 \<le> chunk s0 \<and> chunk s0 \<le> file_size s0 - int (k mod per_file s0) * chunk s0" if c
      using assms(1) block_size(4) [OF ok True refl] that by (auto simp: set_up_def chunk_def)
    then show ?thesis
      using True block_place [OF ok True] block_size(1) [OF ok True refl] c
      by (auto simp: seq_request_def Let_def)
  next
    case False
    then have "k - blocks s0 < unat (num_files s0)" using assms(2) by (auto simp: seq_total_def split: if_splits)
    moreover from this have "unat (of_nat (k - blocks s0) :: u32) = k - blocks s0"
      by (intro le_unat_uoi [of _ "num_files s0"]) simp
    ultimately show ?thesis using False ok by (simp add: seq_request_def seq_ok_def)
  qed
  then show "place_of s ?r" using buf conf assms(1) by (auto simp: place_of_def set_up_def)
  show "\<not> file_id ?r > num_files s" using all conf by (simp add: word_less_nat_alt)
  show "fr_pos ?r + fr_size ?r \<le> file_size s" and "k < blocks s0 \<and> c \<longrightarrow> 12 \<le> fr_size ?r" using all conf by simp_all
qed

lemma seq_execute:
  assumes fs: "file_system env content" and up: "set_up (validate g) s0" and k: "k < seq_total s0"
    and conf: "same_config s0 s" and len: "map_option length (buffer s) = map_option length (buffer s0)"
    and st: "stored content (validate g) s0 (if writes s0 then min k (blocks s0) else blocks s0) (io s)"
  obtains s' where "file_execute_request env (file_request s0 k) tid (g, s) = Inr (0, s')" and "executed s s'"
    and "stored content (validate g) s0 (if writes s0 then min (Suc k) (blocks s0) else blocks s0) (io s')"
proof -
  let ?r = "seq_request s0 k"
  note place = seq_request_place [OF up k conf len]
  have sync: "io_mode s = FILE_IO_MODE_SYNC" and files: "files s = files s0"
    using up conf by (simp_all add: set_up_def same_config_def)
  have fid: "unat (file_id ?r) < length (files s)" using place(1) by (simp add: place_of_def)
  have exec: "file_execute_request env (file_request s0 k) tid (g, s) =
    (case operation ?r of FILE_OP_TYPE_NULL \<Rightarrow> Inr (1, s) | FILE_OP_TYPE_WRITE \<Rightarrow> execute_write env (validate g) ?r s
     | FILE_OP_TYPE_READ \<Rightarrow> execute_read env (validate g) ?r s | FILE_OP_TYPE_FSYNC \<Rightarrow> execute_fsync env ?r s)"
    using place(2,3) fid by (simp add: file_execute_request_def file_request_def file_of_def bind_res_def Let_def)
  consider (W) "k < blocks s0" "writes s0" | (R) "k < blocks s0" "\<not> writes s0" | (F) "\<not> k < blocks s0" by blast
  then show ?thesis
  proof cases
    case W
    then have op: "operation ?r = FILE_OP_TYPE_WRITE" by (simp add: seq_request_def Let_def)
    have min: "min k (blocks s0) = k" "min (Suc k) (blocks s0) = Suc k" using W(1) by simp_all
    obtain s' where s': "execute_write env (validate g) ?r s = Inr (0, s')" "executed s s'"
      "holds_block content (validate g) (files s) ?r (io s')"
      "\<And>r' c. holds_block content c (files s) r' (io s) \<Longrightarrow> apart (files s) ?r r' \<Longrightarrow> holds_block content c (files s) r' (io s')"
      using execute_write_ok [OF fs sync place(1), of "validate g"] place(4) W(1) by blast
    have "holds_block content (validate g) (files s0) (seq_request s0 j) (io s')" if "j < Suc k" for j
    proof (cases "j = k")
      case True
      then show ?thesis using s'(3) files by simp
    next
      case False
      then have "j < k" using that by simp
      then show ?thesis
        using s'(4) [of "validate g" "seq_request s0 j"] st seq_apart [OF up _ W(1)] files W(2) min(1)
        by (simp add: stored_def)
    qed
    then show ?thesis using that [of s'] s'(1,2) exec op W(2) min(2) by (simp add: stored_def)
  next
    case R
    then have op: "operation ?r = FILE_OP_TYPE_READ" by (simp add: seq_request_def Let_def)
    have "holds_block content (validate g) (files s) ?r (io s)" using st R files by (simp add: stored_def)
    from execute_read_ok [OF fs sync place(1) this] obtain s' where s': "execute_read env (validate g) ?r s = Inr (0, s')"
      "executed s s'" "content (io s') = content (io s)" by blast
    then show ?thesis using that [of s'] exec op R(2) st by (simp add: stored_cong [of content "io s'" "io s", OF s'(3)])
  next
    case F
    then have op: "operation ?r = FILE_OP_TYPE_FSYNC" by (simp add: seq_request_def)
    have min: "min k (blocks s0) = blocks s0" "min (Suc k) (blocks s0) = blocks s0" using F by simp_all
    from execute_fsync_ok [OF fs sync fid] obtain s' where s': "execute_fsync env ?r s = Inr (0, s')"
      "executed s s'" "content (io s') = content (io s)" by blast
    then show ?thesis using that [of s', unfolded min if_cancel] exec op st [unfolded min if_cancel] by (simp add: stored_cong [of content "io s'" "io s", OF s'(3)])
  qed
qed

lemma seq_serve:
  assumes "file_system env content" and "set_up (validate g) s0" and "max_time_limit g = 0" and "error g = 0"
    and "k < seq_total s0" and "seq_inv content g s0 k w"
  shows "\<exists>w''. serve_step junk (fileio_test scan memory mem env) tid now (file_request s0 k) w w'' \<and> seq_inv content g s0 (Suc k) w''"
proof -
  let ?test = "fileio_test scan memory mem env"
  obtain e s where w: "w = (g, e, s)" and at: "seq_at s0 k s" and len: "map_option length (buffer s) = map_option length (buffer s0)"
    and st: "stored content (validate g) s0 (if writes s0 then min k (blocks s0) else blocks s0) (io s)"
    using assms(6) by (cases w) (auto simp: seq_inv_def)
  have ok: "seq_ok s0" using assms(2) by (simp add: set_up_def)
  obtain s1 where get: "file_get_seq_request (g, s) = (file_request s0 k, s1)" and at1: "seq_at s0 (Suc k) s1" and mv: "moved s s1"
    using seq_next [OF ok at] assms(5) unfolding file_request_def by blast
  have "seq_mode (test_mode s)" using at ok by (simp add: seq_at_def same_config_def seq_ok_def)
  from fileio_get [OF this] have got: "get_request junk ?test tid w = (file_request s0 k, g, e, s1)" by (simp add: get w)
  have "same_config s0 s1" using at1 by (simp add: seq_at_def)
  then obtain s2 where ex: "file_execute_request env (file_request s0 k) tid (g, s1) = Inr (0, s2)" and same: "executed s1 s2"
    and st2: "stored content (validate g) s0 (if writes s0 then min (Suc k) (blocks s0) else blocks s0) (io s2)"
    using seq_execute [OF assms(1,2,5), of s1] len st mv by (auto simp: moved_def)
  have "serve_step junk ?test tid now (file_request s0 k) w (g, None, s2)"
    unfolding serve_step_def using got fileio_execute [OF ex] assms(3,4)
    by (intro exI [of _ "(g, e, s1)"]) (simp add: file_request_def no_time_limit)
  moreover have "seq_inv content g s0 (Suc k) (g, None, s2)"
    unfolding seq_inv_def using seq_at_executed [OF at1 same] same mv len st2 by (simp add: executed_def moved_def)
  ultimately show ?thesis by blast
qed

lemma seq_run:
  assumes "file_system env content" and "set_up (validate g) s" and "max_time_limit g = 0" and "error g = 0"
    and "seq_at s 0 s" and "writes s \<or> stored content (validate g) s (blocks s) (io s)"
  shows "\<exists>e s'. runner_run (4 * seq_total s + 4) null_request (fileio_test scan memory mem env) tid now R_get (g, e0, s) =
      Some (map (file_request s) [0..<seq_total s], g, e, s') \<and>
    same_config s s' \<and> map_option length (buffer s') = map_option length (buffer s) \<and>
    stored content (validate g) s (blocks s) (io s')"
proof -
  let ?test = "fileio_test scan memory mem env" and ?n = "seq_total s"
  let ?Q = "\<lambda>(g', e, s'). g' = g \<and> same_config s s' \<and> map_option length (buffer s') = map_option length (buffer s) \<and> stored content (validate g) s (blocks s) (io s')"
  have "no_more null_request ?test tid now w \<and> ?Q (snd (get_request null_request ?test tid w))" if I: "seq_inv content g s ?n w" for w
  proof -
    obtain e s1 where w: "w = (g, e, s1)" and at: "seq_at s ?n s1" and st: "stored content (validate g) s (blocks s) (io s1)"
      and len: "map_option length (buffer s1) = map_option length (buffer s)"
      using I by (cases w) (auto simp: seq_inv_def seq_total_def min_def split: if_splits)
    obtain r s2 where fin: "file_get_seq_request (g, s1) = (\<lparr>req_type = SB_REQ_TYPE_NULL, req_data = r\<rparr>, s2)" "moved s1 s2"
      using seq_end [OF _ at, of g] assms(2) unfolding set_up_def by blast
    have "seq_mode (test_mode s1)" using at assms(2) by (simp add: seq_at_def same_config_def seq_ok_def set_up_def)
    from fileio_get [OF this] fin at st len show ?thesis
      using assms(3) by (simp add: w no_more_def no_time_limit moved_def seq_at_def same_config_def)
  qed
  moreover have "seq_inv content g s 0 (g, e0, s)"
    using assms(5,6) by (auto simp: seq_inv_def stored_def)
  ultimately have "serves null_request ?test tid now
      (\<lambda>w. no_more null_request ?test tid now w \<and> ?Q (snd (get_request null_request ?test tid w))) (map (file_request s) [0..<?n]) (g, e0, s)"
    by (intro serves_steps [where I = "seq_inv content g s"] seq_serve [OF assms(1-4)]) auto
  from runner_run_drains_in [OF this] show ?thesis by (auto simp del: upt_Suc)
qed

text \<open>Every byte of every file is in exactly one of the requests.\<close>

definition covers :: "'io file_state \<Rightarrow> nat \<Rightarrow> u32 \<Rightarrow> int \<Rightarrow> bool" where
  "covers s k f x \<longleftrightarrow> file_id (seq_request s k) = f \<and> fr_pos (seq_request s k) \<le> x \<and> x < fr_pos (seq_request s k) + fr_size (seq_request s k)"

lemma seq_covers:
  assumes "seq_ok s" and "f < num_files s" and "0 \<le> x" and "x < file_size s"
  shows "\<exists>!k. k < blocks s \<and> covers s k f x"
proof (rule ex1I)
  let ?per = "per_file s" and ?c = "chunk s"
  have c: "0 < ?c" and per: "0 < ?per" using assms(1) per_file_bounds(1) [OF assms(1)] by (simp_all add: seq_ok_def)
  define j where "j = nat (x div ?c)"
  have jx: "int j * ?c \<le> x" "x < int (Suc j) * ?c"
  proof -
    have "int j = x div ?c" using assms(3) c by (simp add: j_def pos_imp_zdiv_nonneg_iff)
    then have "x = int j * ?c + x mod ?c" by simp
    then show "int j * ?c \<le> x" "x < int (Suc j) * ?c"
      using pos_mod_bound [OF c, of x] pos_mod_sign [OF c, of x] by (simp_all add: distrib_right del: mult_div_mod_eq div_mult_mod_eq)
  qed
  have "j < ?per"
  proof (rule ccontr)
    assume "\<not> j < ?per"
    then have "int ?per * ?c \<le> int j * ?c" using c by (intro mult_right_mono) auto
    then show False using jx(1) assms(4) per_file_bounds(3) [OF assms(1)] by linarith
  qed
  let ?k = "unat f * ?per + j"
  have k: "?k div ?per = unat f" "?k mod ?per = j" using \<open>j < ?per\<close> by simp_all
  have "unat f < unat (num_files s)" using assms(2) by (simp add: word_less_nat_alt)
  then have "Suc (unat f) * ?per \<le> blocks s" unfolding blocks_def by (intro mult_le_mono1) simp
  then have kb: "?k < blocks s" using \<open>j < ?per\<close> by simp
  then show "?k < blocks s \<and> covers s ?k f x"
    using jx k assms(4) by (simp add: covers_def seq_request_def Let_def min_def algebra_simps)
  fix k' assume k': "k' < blocks s \<and> covers s k' f x"
  note place = block_place [OF assms(1) conjunct1 [OF k']]
  have "k' div ?per = unat f" using k' place(3) by (auto simp: covers_def seq_request_def Let_def)
  moreover have "k' mod ?per = j"
  proof -
    have "int (k' mod ?per) * ?c \<le> x" "x < int (k' mod ?per) * ?c + ?c"
      using k' by (auto simp: covers_def seq_request_def Let_def)
    then have "int (k' mod ?per) * ?c < int (Suc j) * ?c" "int j * ?c < int (Suc (k' mod ?per)) * ?c"
      using jx by (simp_all add: algebra_simps)
    then show ?thesis using c by (simp add: mult_less_cancel_right_disj)
  qed
  ultimately show "k' = ?k" by (metis div_mult_mod_eq)
qed

lemma seq_at_start: "seq_ok s \<Longrightarrow> seq_at (clear_stats c s) 0 (clear_stats c s)"
proof -
  assume "seq_ok s"
  then have "0 < blocks s" using per_file_bounds(1) [of s] by (auto simp: blocks_def seq_ok_def word_gt_0 unat_gt_0)
  moreover have "blocks (clear_stats c s) = blocks s"
    by (simp add: blocks_def per_file_def chunk_def clear_stats_def Let_def)
  ultimately show ?thesis by (simp add: seq_at_def same_config_def) (simp add: clear_stats_def Let_def)
qed

lemma seq_clear [simp]:
  "seq_request (clear_stats c s) = seq_request s" "seq_total (clear_stats c s) = seq_total s"
  "blocks (clear_stats c s) = blocks s" "writes (clear_stats c s) = writes s" "files (clear_stats c s) = files s"
  "io (clear_stats c s) = io s" "set_up d (clear_stats c s) = set_up d s" "file_request (clear_stats c s) = file_request s"
proof -
  have same: "file_size (clear_stats c s) = file_size s" "chunk (clear_stats c s) = chunk s"
    "num_files (clear_stats c s) = num_files s" "file_fsync_end (clear_stats c s) = file_fsync_end s"
    by (simp_all add: chunk_def clear_stats_def Let_def)
  then have [simp]: "per_file (clear_stats c s) = per_file s" by (simp add: per_file_def)
  show bl: "blocks (clear_stats c s) = blocks s" and wr: "writes (clear_stats c s) = writes s"
    and "files (clear_stats c s) = files s" "io (clear_stats c s) = io s"
    by (simp_all add: blocks_def writes_def) (simp_all add: clear_stats_def Let_def)
  show req: "seq_request (clear_stats c s) = seq_request s"
    unfolding seq_request_def bl wr fun_eq_iff by (simp add: same)
  then show "file_request (clear_stats c s) = file_request s" by (simp add: file_request_def fun_eq_iff)
  show "seq_total (clear_stats c s) = seq_total s" unfolding seq_total_def bl wr same by (rule refl)
  show "set_up d (clear_stats c s) = set_up d s"
    unfolding set_up_def seq_ok_def same by (simp add: clear_stats_def Let_def)
qed

text \<open>The state of a read test after the run of another one.\<close>

definition reread :: "bool \<Rightarrow> 'io file_state \<Rightarrow> 'io file_state" where
  "reread checked s = clear_stats checked (s\<lparr>test_mode := MODE_READ\<rparr>)"

lemma reread_ok:
  assumes "same_config s0 s" and "map_option length (buffer s) = map_option length (buffer s0)" and "set_up c s0"
    and "stored content c s0 (blocks s0) (io s)"
  shows "set_up c (reread d s)" and "blocks (reread d s) = blocks s0" and "stored content c (reread d s) (blocks (reread d s)) (io (reread d s))"
proof -
  let ?t = "s\<lparr>test_mode := MODE_READ\<rparr>"
  have [simp]: "chunk ?t = chunk s0" "per_file ?t = per_file s0" "blocks ?t = blocks s0"
    using assms(1) by (simp_all add: chunk_def per_file_def blocks_def same_config_def)
  then show "blocks (reread d s) = blocks s0" by (simp add: reread_def)
  have "set_up c ?t" using assms(1-3) unfolding set_up_def seq_ok_def
    by (auto simp: same_config_def seq_mode_def split: option.splits)
  then show "set_up c (reread d s)" by (simp add: reread_def)
  have "holds_block content c (files s0) (seq_request ?t k) sys = holds_block content c (files s0) (seq_request s0 k) sys"
    if "k < blocks s0" for k sys
    using that assms(1) by (simp add: holds_block_def seq_request_def Let_def same_config_def)
  then have "stored content c ?t (blocks ?t) (io s)"
    using assms(1,4) by (simp add: stored_def same_config_def)
  then show "stored content c (reread d s) (blocks (reread d s)) (io (reread d s))" by (simp add: reread_def stored_def)
qed

section \<open>Random requests\<close>

lemma zdiv_less: "0 < b \<Longrightarrow> a < c * b \<Longrightarrow> a div b < c" for a b c :: int
proof (rule ccontr)
  assume "0 < b" "a < c * b" "\<not> a div b < c"
  then have "c * b \<le> a div b * b" by (intro mult_right_mono) auto
  then show False using \<open>a < c * b\<close> \<open>0 < b\<close> pos_mod_sign [of b a] div_mult_mod_eq [of a b] by linarith
qed

lemma rnd_position_bounds:
  assumes "randnum < SB_MAX_RND" and "0 < file_block_size s" and "0 < total_size s"
  shows "0 \<le> rnd_position randnum s" and "rnd_position randnum s < total_size s" and "file_block_size s dvd rnd_position randnum s"
proof -
  let ?p = "int randnum * total_size s div int SB_MAX_RND"
  have "int randnum * total_size s < int SB_MAX_RND * total_size s" using assms(1,3) by (intro mult_strict_right_mono) auto
  then have lt: "?p < total_size s" using assms(1) by (intro zdiv_less) (simp_all add: mult.commute)
  have "0 \<le> ?p" using assms(3) by (intro pos_imp_zdiv_nonneg_iff [THEN iffD2]) (auto simp: SB_MAX_RND_def)
  have p: "rnd_position randnum s = ?p div file_block_size s * file_block_size s"
    by (simp add: rnd_position_def minus_mod_eq_div_mult)
  have "rnd_position randnum s \<le> ?p"
    unfolding p using assms(2) div_mult_mod_eq [of ?p "file_block_size s"] pos_mod_sign [of "file_block_size s" ?p] by linarith
  with lt show "rnd_position randnum s < total_size s" by linarith
  show "0 \<le> rnd_position randnum s" unfolding p using \<open>0 \<le> ?p\<close> assms(2) by (simp add: pos_imp_zdiv_nonneg_iff)
  show "file_block_size s dvd rnd_position randnum s" unfolding p by simp
qed

lemma rnd_request_bounds:
  assumes "file_get_rnd_request (g, s) = Inr (r, s')" and "req_type r = SB_REQ_TYPE_FILE" and "operation (req_data r) \<noteq> FILE_OP_TYPE_FSYNC"
    and "0 < file_block_size s" and "file_block_size s dvd file_size s" and "0 < file_size s" and "0 < num_files s"
    and "total_size s = int (unat (num_files s)) * file_size s"
  shows "file_id (req_data r) < num_files s" and "0 \<le> fr_pos (req_data r)" and "fr_pos (req_data r) + fr_size (req_data r) \<le> file_size s"
proof -
  let ?pos = "rnd_position (fst (sb_rnd (file_rng s))) s"
  have "0 < unat (num_files s)" using assms(7) by (simp add: word_less_nat_alt)
  then have "0 < int (unat (num_files s))" by linarith
  then have "0 < total_size s" unfolding assms(8) using assms(6) by (rule mult_pos_pos)
  note pos = rnd_position_bounds [OF sb_rnd_less assms(4) this, of "file_rng s"]
  have r: "file_id (req_data r) = word_of_int (?pos div file_size s)" "fr_pos (req_data r) = ?pos mod file_size s"
    "fr_size (req_data r) = file_block_size s"
    using assms(1-3) by (auto simp: file_get_rnd_request_def fsync_request_def null_request_def Let_def split: if_splits prod.splits)
  have q: "0 \<le> ?pos div file_size s" "?pos div file_size s < int (unat (num_files s))"
    using pos(1,2) assms(6) unfolding assms(8) by (auto simp: pos_imp_zdiv_nonneg_iff intro: zdiv_less)
  then have "?pos div file_size s < 2 ^ 32" using uint_bounded [of "num_files s"] by simp
  then have "uint (word_of_int (?pos div file_size s) :: u32) = ?pos div file_size s"
    using q(1) by (simp add: uint_word_of_int)
  then show "file_id (req_data r) < num_files s" using q(2) by (simp add: r word_less_def)
  show "0 \<le> fr_pos (req_data r)" using assms(6) by (simp add: r)
  have "file_block_size s dvd ?pos mod file_size s" using pos(3) assms(5) by (simp add: dvd_mod)
  then have "file_block_size s dvd file_size s - ?pos mod file_size s" using assms(5) by simp
  moreover have "0 < file_size s - ?pos mod file_size s" using assms(6) by simp
  ultimately have "file_block_size s \<le> file_size s - ?pos mod file_size s" by (rule zdvd_imp_le)
  then show "fr_pos (req_data r) + fr_size (req_data r) \<le> file_size s" by (simp add: r)
qed

text \<open>The test of the file lets the number of the files through, and the array is read at its end.\<close>

lemma file_check_off_by_one:
  assumes "length (files s) = unat (num_files s)" and "file_id (req_data r) = num_files s"
    and "fr_pos (req_data r) + fr_size (req_data r) \<le> file_size s"
  shows "file_execute_request env r tid (g, s) = Inl (Bad_index (int (unat (num_files s))))"
  using assms by (simp add: file_execute_request_def file_of_def bind_res_def)

text \<open>In the mapped mode every \<open>fsync\<close> fails.\<close>

lemma mmap_fsync_fails:
  assumes "io_mode s = FILE_IO_MODE_MMAP" and "unat (file_id r) < length (files s)" and "\<not> file_fsync_all s"
  shows "\<exists>s'. execute_fsync env r s = Inr (1, s')"
  using assms by (simp add: execute_fsync_def file_fsync_def file_of_def bind_res_def)

text \<open>
  The position is read before the mutex is taken: when two threads have prepared their requests, both
  write the same block, and the block after it is left out.
\<close>

lemma seq_race:
  fixes c :: bool
  assumes "file_merged_requests s = 0" and "current_file s < num_files s" and "position s + 2 * file_block_size s < file_size s"
    and "0 < file_block_size s"
  defines "r \<equiv> seq_prepare s" and "s2 \<equiv> snd (seq_advance c (seq_prepare s) s)"
  shows "fst (seq_advance c r s) = fst (seq_advance c r s2)"
    and "position (snd (seq_advance c r s2)) = position s + 2 * file_block_size s"
    and "current_file (snd (seq_advance c r s2)) = current_file s"
proof -
  have neq: "current_file s \<noteq> num_files s" using assms(2) by auto
  have r: "fr_size r = file_block_size s" using assms(1) by (simp add: r_def seq_prepare_def)
  have s2: "s2 = keep_prev c r (s\<lparr>position := position s + file_block_size s\<rparr>)"
    and f1: "fst (seq_advance c r s) = \<lparr>req_type = SB_REQ_TYPE_FILE, req_data = r\<rparr>"
    using neq assms(3,4) r unfolding s2_def r_def [symmetric] by (simp_all add: seq_advance_def Let_def)
  show "fst (seq_advance c r s) = fst (seq_advance c r s2)"
    "position (snd (seq_advance c r s2)) = position s + 2 * file_block_size s"
    "current_file (snd (seq_advance c r s2)) = current_file s"
    using neq assms(3,4) r unfolding f1 s2 by (simp_all add: seq_advance_def keep_prev_def Let_def)
qed

section \<open>The options\<close>

text \<open>What the accepted options satisfy.\<close>

definition options_ok :: "'io file_state \<Rightarrow> bool" where
  "options_ok s \<longleftrightarrow>
     0 < num_files s \<and> 0 < total_size s \<and> file_size s = total_size s div int (unat (num_files s)) \<and>
     io_mode s \<noteq> FILE_IO_MODE_ASYNC \<and> 0 \<le> file_merged_requests s \<and> 0 < file_block_size s \<and>
     file_max_request_size s = (if file_merged_requests s = 0 then file_block_size s else file_block_size s * file_merged_requests s) \<and>
     file_block_size s \<le> file_max_request_size s \<and> file_max_request_size s < 2 ^ 31 \<and>
     0 \<le> file_fsync_freq s \<and> (file_fsync_all s \<longrightarrow> file_fsync_freq s = 0 \<and> \<not> file_fsync_end s) \<and> 0 \<le> file_rw_ratio s \<and>
     map_option length (buffer s) = Some (nat (file_max_request_size s))"

lemma and_then_ok: "and_then p f = Inr (0, s') \<longleftrightarrow> (\<exists>s. p = Inr (0, s) \<and> f s = Inr (0, s'))"
  by (cases p) (auto simp: and_then_def bind_res_def split: prod.splits)

lemma check_ok: "check c s = Inr (0, s') \<longleftrightarrow> c \<and> s' = s"
  by (auto simp: check_def)

lemma bind_ok: "bind_res p f = Inr x \<longleftrightarrow> (\<exists>y. p = Inr y \<and> f y = Inr x)"
  by (cases p) (auto simp: bind_res_def)

lemmas parsed = and_then_ok check_ok bind_ok Let_def

lemma parse_sizes_ok:
  assumes "parse_sizes s = Inr (0, s')"
  shows "\<exists>n t. 0 < n \<and> 0 < t \<and> s' = s\<lparr>num_files := n, total_size := t, file_size := t div int (unat n)\<rparr>"
  using assms by (auto simp: parse_sizes_def parsed)

lemma parse_test_mode_ok:
  assumes "parse_test_mode c s = Inr (0, s')"
  shows "\<exists>m. s' = s\<lparr>test_mode := m\<rparr>"
  using assms by (auto simp: parse_test_mode_def parsed intro: exI [of _ "test_mode s"] split: if_splits option.splits)

lemma int_in_range_Some: "int_in_range v = Some w \<longleftrightarrow> w = v \<and> - (2 ^ 31) \<le> v \<and> v < 2 ^ 31"
  by (auto simp: int_in_range_def)

lemma parse_blocks_ok:
  assumes "parse_blocks s = Inr (0, s')"
  shows "\<exists>m k b v. m \<noteq> FILE_IO_MODE_ASYNC \<and> 0 \<le> k \<and> 0 < b \<and> v = (if k = 0 then b else b * k) \<and> b \<le> v \<and> v < 2 ^ 31 \<and>
    s' = s\<lparr>io_mode := m, file_merged_requests := k, file_block_size := b, file_max_request_size := v\<rparr>"
proof -
  let ?b = "sint (ucast (sb_get_value_size ''file-block-size'' (file_opts s)) :: u32)"
  obtain m k where m: "parse_io_mode (sb_get_value_string ''file-io-mode'' (file_opts s)) = Some m" and k: "0 \<le> k" "0 < ?b"
    and v: "k = 0 \<and> s' = s\<lparr>io_mode := m, file_merged_requests := k, file_block_size := ?b, file_max_request_size := ?b\<rparr> \<or>
      k \<noteq> 0 \<and> (\<exists>v. int_in_range (?b * k) = Some v \<and>
        s' = s\<lparr>io_mode := m, file_merged_requests := k, file_block_size := ?b, file_max_request_size := v\<rparr>)"
    using assms by (auto simp: parse_blocks_def parsed split: option.splits if_splits)
  have "m \<noteq> FILE_IO_MODE_ASYNC" using m by (auto simp: parse_io_mode_def Let_def split: if_splits)
  moreover have "?b < 2 ^ 31" using sint_lt [of "ucast (sb_get_value_size ''file-block-size'' (file_opts s)) :: u32"] by simp
  moreover have "?b \<le> ?b * k" if "k \<noteq> 0" using k that by (simp add: mult_le_cancel_left1)
  ultimately have b: "m \<noteq> FILE_IO_MODE_ASYNC" "?b < 2 ^ 31" "k \<noteq> 0 \<longrightarrow> ?b \<le> ?b * k" by blast+
  obtain w where w: "w = (if k = 0 then ?b else ?b * k)" "k \<noteq> 0 \<longrightarrow> w < 2 ^ 31"
    "s' = s\<lparr>io_mode := m, file_merged_requests := k, file_block_size := ?b, file_max_request_size := w\<rparr>"
    using v unfolding int_in_range_Some by metis
  have "?b \<le> w" "w < 2 ^ 31" using w(1,2) b by (cases "k = 0"; simp)+
  with w k b show ?thesis by blast
qed

lemma parse_fsync_ok:
  assumes "parse_fsync s = Inr (0, s')"
  shows "\<exists>fl n a e m. 0 \<le> n \<and> (a \<longrightarrow> n = 0 \<and> \<not> e) \<and>
    s' = s\<lparr>file_extra_flags := fl, file_fsync_freq := n, file_fsync_all := a, file_fsync_end := e, fsync_mode := m\<rparr>"
proof -
  define a e where "a = sb_get_value_flag ''file-fsync-all'' (file_opts s)" and "e = sb_get_value_flag ''file-fsync-end'' (file_opts s)"
  obtain fl k m where k: "0 \<le> k" and s': "s' = s\<lparr>file_extra_flags := fl, file_fsync_freq := if a then 0 else k, file_fsync_all := a,
      file_fsync_end := e \<and> \<not> a, fsync_mode := m\<rparr>"
  proof -
    obtain fl where fl: "parse_flags (sb_get_value_string ''file-extra-flags'' (file_opts s)) = Some fl"
      using assms by (cases "parse_flags (sb_get_value_string ''file-extra-flags'' (file_opts s))") (auto simp: parse_fsync_def check_ok)
    obtain k where k: "opt_int ''file-fsync-freq'' (file_opts s) = Inr k" "0 \<le> k"
      using assms by (cases "opt_int ''file-fsync-freq'' (file_opts s)") (auto simp: parse_fsync_def fl parsed)
    obtain mode where mode: "opt_string ''file-fsync-mode'' (file_opts s) = Inr mode"
      using assms by (cases "opt_string ''file-fsync-mode'' (file_opts s)") (auto simp: parse_fsync_def fl k(1) parsed)
    let ?t = "s\<lparr>file_extra_flags := fl, file_fsync_freq := k, file_fsync_all := a, file_fsync_end := e \<and> \<not> a,
        file_fsync_freq := if a then 0 else k\<rparr>"
    have opts: "file_opts (s\<lparr>file_extra_flags := fl, file_fsync_freq := k\<rparr>) = file_opts s" "file_opts ?t = file_opts s" by simp_all
    have "parse_fsync s =
      (if mode = ''fsync'' then check True (?t\<lparr>fsync_mode := FSYNC_ALL\<rparr>)
       else if mode = ''fdatasync'' then check True (?t\<lparr>fsync_mode := FSYNC_DATA\<rparr>) else check False ?t)"
      using k(2) by (simp only: parse_fsync_def fl option.case k(1) Let_def opts a_def [symmetric] e_def [symmetric] mode
          bind_res_def sum.case and_then_def check_def simp_thms if_True if_False prod.case)
    then obtain m where "s' = ?t\<lparr>fsync_mode := m\<rparr>" using assms check_ok by metis
    then have "s' = s\<lparr>file_extra_flags := fl, file_fsync_freq := if a then 0 else k, file_fsync_all := a,
      file_fsync_end := e \<and> \<not> a, fsync_mode := m\<rparr>" by (rule trans) simp
    then show ?thesis using that [OF k(2)] by blast
  qed
  then show ?thesis
    by (intro exI [of _ fl] exI [of _ "if a then 0 else k"] exI [of _ a] exI [of _ "e \<and> \<not> a"] exI [of _ m]) simp
qed

lemma parse_ratio_ok:
  assumes "parse_ratio scan memory s = Inr (0, s')"
  shows "\<exists>v. 0 \<le> v \<and> s' = s\<lparr>file_rw_ratio := v, buffer := Some (map memory [0..<nat (file_max_request_size s)])\<rparr>"
  using assms by (auto simp: parse_ratio_def parsed split: option.splits)

lemma parse_file_arguments_ok:
  assumes "parse_file_arguments scan memory (g, s) = Inr (0, s')"
  shows "options_ok s'"
proof -
  obtain s1 s2 s3 s4 where p: "parse_sizes s = Inr (0, s1)" "parse_test_mode (command g) s1 = Inr (0, s2)"
    "parse_blocks s2 = Inr (0, s3)" "parse_fsync s3 = Inr (0, s4)" "parse_ratio scan memory s4 = Inr (0, s')"
    using assms by (auto simp: parse_file_arguments_def and_then_ok)
  from parse_sizes_ok [OF p(1)] parse_test_mode_ok [OF p(2)] parse_blocks_ok [OF p(3)] parse_fsync_ok [OF p(4)] parse_ratio_ok [OF p(5)]
  show ?thesis unfolding options_ok_def by (elim exE conjE) simp
qed

lemma options_ok_clear [simp]: "options_ok (clear_stats c s) = options_ok s"
  unfolding options_ok_def by (simp add: clear_stats_def Let_def cong: option.case_cong)

lemma file_init_ok: "file_init scan memory mem (g, s) = Inr (0, s') \<Longrightarrow> options_ok s' \<and> mem \<and> files s' = []"
  using parse_file_arguments_ok [of scan memory g s]
  by (auto simp: file_init_def and_then_ok check_ok) (auto simp: options_ok_def clear_stats_def Let_def)

lemma open_files_ok:
  "open_files env is s = (0, s') \<Longrightarrow> \<exists>fds i. length fds = length is \<and> s' = s\<lparr>files := files s @ fds, io := i\<rparr>"
proof (induction "is" arbitrary: s)
  case Nil
  then show ?case by (auto intro!: exI [of _ "io s"])
next
  case (Cons i "is")
  obtain fd io1 where s1: "open_files env is (s\<lparr>files := files s @ [fd], io := io1\<rparr>) = (0, s')"
    using Cons.prems by (auto simp: Let_def split: prod.splits if_splits)
  from Cons.IH [OF this] obtain fds j where "length fds = length is" "s' = s\<lparr>files := files s @ fd # fds, io := j\<rparr>" by auto
  then show ?case by (intro exI [of _ "fd # fds"] exI [of _ j]) simp
qed

text \<open>A sequential test that has been started in the synchronous mode is set up.\<close>

lemma started_set_up:
  assumes "file_init scan memory mem (g, s) = Inr (0, s1)" and "file_prepare env (g, s1) = Inr (0, s2)"
    and "seq_mode (test_mode s1)" and "io_mode s1 = FILE_IO_MODE_SYNC" and "distinct (files s2)"
    and "file_block_size s1 dvd file_size s1" and "0 < file_size s1" and "c \<longrightarrow> file_merged_requests s1 = 0 \<and> 12 \<le> file_block_size s1"
  shows "set_up c s2"
proof -
  have ok: "options_ok s1" using file_init_ok [OF assms(1)] by simp
  obtain fds j where f: "length fds = unat (num_files s1)" "s2 = s1\<lparr>files := fds, io := j\<rparr>"
    using assms(2,4) open_files_ok [of env "file_numbers s1" "s1\<lparr>files := []\<rparr>"]
    by (auto simp: file_prepare_def file_mmap_prepare_def check_def file_numbers_def Let_def split: prod.splits if_splits)
  show ?thesis
    using ok assms(3-8) f by (auto simp: set_up_def seq_ok_def options_ok_def chunk_def split: option.splits if_splits)
qed

section \<open>A concrete file system\<close>

type_synonym disk = "int \<Rightarrow> int \<Rightarrow> u8 option"

definition disk_write :: "int \<Rightarrow> u8 list \<Rightarrow> int \<Rightarrow> disk \<Rightarrow> disk" where
  "disk_write fd bs off d =
     (\<lambda>fd' x. if fd' = fd \<and> off \<le> x \<and> x < off + int (length bs) then Some (bs ! nat (x - off)) else d fd' x)"

definition disk_read :: "int \<Rightarrow> nat \<Rightarrow> int \<Rightarrow> disk \<Rightarrow> int \<times> u8 list" where
  "disk_read fd n off d =
     (if list_all (\<lambda>i. d fd (off + int i) \<noteq> None) [0..<n] then (int n, map (\<lambda>i. the (d fd (off + int i))) [0..<n])
      else (-1, []))"

definition disk_env :: "disk file_env" where
  "disk_env =
     \<lparr>env_open = (\<lambda>name fl d. (0, d)), env_create = (\<lambda>name d. (0, d)), env_unlink = (\<lambda>name d. d), env_close = (\<lambda>fd d. d),
      env_write = (\<lambda>fd bs d. (int (length bs), d)), env_fsync = (\<lambda>fd d. (0, d)), env_fdatasync = (\<lambda>fd d. (0, d)),
      env_pread = (\<lambda>fd n off d. (disk_read fd n off d, d)),
      env_pwrite = (\<lambda>fd bs off d. (int (length bs), disk_write fd bs off d)),
      env_ftruncate = (\<lambda>fd len d. (0, d)), env_mmap = (\<lambda>fd len d. (True, d)), env_munmap = (\<lambda>i len d. d),
      map_load = (\<lambda>i n off d. []), map_store = (\<lambda>i bs off d. d), map_sync = (\<lambda>i d. d)\<rparr>"

lemma disk_file_system: "file_system disk_env id"
proof -
  have "disk_read fd (length bs) off d = (int (length bs), bs)" if "\<forall>i < length bs. d fd (off + int i) = Some (bs ! i)" for fd bs off d
    using that by (auto simp: disk_read_def list_all_iff intro!: nth_equalityI)
  then show ?thesis by (auto simp: file_system_def disk_env_def disk_write_def)
qed

definition disk_state :: "disk file_state" where
  "disk_state =
     \<lparr>num_files = 2, total_size = 64, file_size = 32, file_block_size = 16, file_extra_flags = No_flag, file_fsync_freq = 0,
      file_fsync_all = False, file_fsync_end = True, fsync_mode = FSYNC_ALL, file_rw_ratio = 0, file_merged_requests = 0,
      file_max_request_size = 16, io_mode = FILE_IO_MODE_SYNC, position = 0, current_file = 0, fsynced_file = 0,
      fsynced_file2 = 0, is_dirty = False, read_ops = 0, real_read_ops = 0, write_ops = 0, real_write_ops = 0,
      other_ops = 0, file_performed = 0, bytes_read = 0, bytes_written = 0, files = [3, 4], buffer = Some (replicate 16 0),
      test_mode = MODE_REWRITE, prev_req = null_request, file_rng = 0, file_opts = [], io = (\<lambda>fd x. None)\<rparr>"

lemma disk_set_up: "set_up True disk_state" "writes disk_state" "seq_total disk_state = 6" "blocks disk_state = 4"
  by (simp_all add: set_up_def seq_ok_def seq_mode_def chunk_def disk_state_def writes_def seq_total_def blocks_def per_file_def)

definition demo_file_opts :: "option_t list" where
  "demo_file_opts = map opt_lit
     [(''file-num'', SB_ARG_TYPE_INT, [''2'']), (''file-block-size'', SB_ARG_TYPE_INT, [''16'']),
      (''file-total-size'', SB_ARG_TYPE_SIZE, [''1K'']), (''file-test-mode'', SB_ARG_TYPE_STRING, [''seqwr'']),
      (''file-io-mode'', SB_ARG_TYPE_STRING, [''sync'']), (''file-extra-flags'', SB_ARG_TYPE_STRING, []),
      (''file-fsync-freq'', SB_ARG_TYPE_INT, [''100'']), (''file-fsync-all'', SB_ARG_TYPE_FLAG, []),
      (''file-fsync-end'', SB_ARG_TYPE_FLAG, [''on'']), (''file-fsync-mode'', SB_ARG_TYPE_STRING, [''fsync'']),
      (''file-merged-requests'', SB_ARG_TYPE_INT, [''0'']), (''file-rw-ratio'', SB_ARG_TYPE_FLOAT, [''2''])]"

lemma demo_file_values:
  "sb_get_value_int ''file-num'' demo_file_opts = Some 2"
  "sb_get_value_size ''file-total-size'' demo_file_opts = 1024"
  "sb_get_value_string ''file-io-mode'' demo_file_opts = Some ''sync''"
  "sb_get_value_int ''file-merged-requests'' demo_file_opts = Some 0"
  "sb_get_value_size ''file-block-size'' demo_file_opts = 16"
  "sb_get_value_string ''file-extra-flags'' demo_file_opts = None"
  "sb_get_value_int ''file-fsync-freq'' demo_file_opts = Some 100"
  "sb_get_value_flag ''file-fsync-end'' demo_file_opts = True"
  "sb_get_value_flag ''file-fsync-all'' demo_file_opts = False"
  "sb_get_value_string ''file-fsync-mode'' demo_file_opts = Some ''fsync''"
  "find_option demo_file_opts ''file-rw-ratio'' = Some (opt_lit (''file-rw-ratio'', SB_ARG_TYPE_FLOAT, [''2'']))"
  by code_simp+

lemma demo_ratio: "sb_get_value_float (\<lambda>_. Some 2) 0 ''file-rw-ratio'' demo_file_opts = Some (2 :: real)"
  by (simp add: sb_get_value_float_def demo_file_values opt_lit_def)

section \<open>Properties\<close>

text \<open>
  C38: The accepted options are well-formed: at least one file, a positive block size that fits into the
  buffer, no asynchronous mode, and no further synchronisation when every write is synchronised.
\<close>

theorem file_init_typed:
  "file_init scan memory mem (g, s) = Inr (0, s') \<Longrightarrow> options_ok s' \<and> mem \<and> files s' = []"
  by (rule file_init_ok)

theorem file_init_typed_witness:
  "\<exists>s'. file_init (\<lambda>_. Some 2) (\<lambda>_. 0) True (zero_globals, disk_state\<lparr>file_opts := demo_file_opts\<rparr>) = Inr (0, s') \<and>
     options_ok s' \<and> file_size s' = 512"
proof -
  have "\<exists>s'. file_init (\<lambda>_. Some 2) (\<lambda>_. 0) True (zero_globals, disk_state\<lparr>file_opts := demo_file_opts\<rparr>) = Inr (0, s') \<and>
     file_size s' = 512"
    by (simp add: file_init_def parse_file_arguments_def parse_sizes_def parse_test_mode_def parse_blocks_def parse_fsync_def
        parse_ratio_def opt_u32_def opt_int_def opt_string_def demo_file_values demo_ratio parse_io_mode_def parse_flags_def
        and_then_def check_def bind_res_def clear_stats_def zero_globals_def int_in_range_def)
  then obtain s' where init: "file_init (\<lambda>_. Some 2) (\<lambda>_. 0) True (zero_globals, disk_state\<lparr>file_opts := demo_file_opts\<rparr>) = Inr (0, s')"
    and "file_size s' = 512" by blast
  with file_init_typed [OF init] show ?thesis by blast
qed

text \<open>
  C35: What the sequential write test has written with validation, the sequential read test finds
  valid.  On a file system, both tests execute exactly the planned requests, file by file and block by block,
  with one \<open>fsync\<close> of every file after the last write; and every byte of every file is in exactly one block.
\<close>

theorem written_files_validate:
  assumes "file_system env content" and "set_up (validate g) s" and "writes s" and "max_time_limit g = 0" and "error g = 0"
  shows "(\<exists>e s' e' t'.
      runner_run (4 * seq_total s + 4) null_request (fileio_test scan memory mem env) tid now R_get (g, e0, clear_stats (validate g) s) =
        Some (map (file_request s) [0..<seq_total s], g, e, s') \<and>
      runner_run (4 * blocks s + 4) null_request (fileio_test scan memory mem env) tid now R_get (g, e, reread (validate g) s') =
        Some (map (file_request (reread (validate g) s')) [0..<blocks s], g, e', t')) \<and>
    (\<forall>f x. f < num_files s \<and> 0 \<le> x \<and> x < file_size s \<longrightarrow> (\<exists>!k. k < blocks s \<and> covers s k f x))"
proof (intro conjI allI impI)
  let ?c = "validate g" and ?test = "fileio_test scan memory mem env"
  have ok: "seq_ok s" using assms(2) by (simp add: set_up_def)
  show "\<exists>!k. k < blocks s \<and> covers s k f x" if "f < num_files s \<and> 0 \<le> x \<and> x < file_size s" for f x
    using seq_covers [OF ok] that by blast
  let ?s = "clear_stats ?c s"
  obtain e s' where run: "runner_run (4 * seq_total s + 4) null_request ?test tid now R_get (g, e0, ?s) =
      Some (map (file_request s) [0..<seq_total s], g, e, s')"
    and conf: "same_config ?s s'" "map_option length (buffer s') = map_option length (buffer ?s)"
    and st: "stored content ?c ?s (blocks ?s) (io s')"
    using seq_run [of env content g ?s scan memory mem tid now e0] assms seq_at_start [OF ok] by (auto simp del: upt_Suc)
  let ?t = "reread ?c s'"
  have up: "set_up ?c ?t" and bl: "blocks ?t = blocks s" and stt: "stored content ?c ?t (blocks ?t) (io ?t)"
    using reread_ok [OF conf _ st, of ?c] assms(2) by simp_all
  have "set_up ?c (s'\<lparr>test_mode := MODE_READ\<rparr>)" using up unfolding reread_def by (simp only: seq_clear)
  then have "seq_ok (s'\<lparr>test_mode := MODE_READ\<rparr>)" by (simp add: set_up_def)
  then have at: "seq_at ?t 0 ?t" unfolding reread_def by (rule seq_at_start)
  have "\<not> writes ?t" by (simp add: reread_def) (simp add: writes_def)
  then have total: "seq_total ?t = blocks s" by (simp add: seq_total_def bl)
  obtain e' t' where "runner_run (4 * blocks s + 4) null_request ?test tid now R_get (g, e, ?t) =
      Some (map (file_request ?t) [0..<blocks s], g, e', t')"
    using seq_run [of env content g ?t scan memory mem tid now e] assms(1,4,5) up at stt total by (auto simp del: upt_Suc)
  with run show "\<exists>e s' e' t'.
      runner_run (4 * seq_total s + 4) null_request ?test tid now R_get (g, e0, ?s) =
        Some (map (file_request s) [0..<seq_total s], g, e, s') \<and>
      runner_run (4 * blocks s + 4) null_request ?test tid now R_get (g, e, reread ?c s') =
        Some (map (file_request (reread ?c s')) [0..<blocks s], g, e', t')" by blast
qed

theorem written_files_validate_witness:
  "\<exists>e s' e' t'.
     runner_run 28 null_request (fileio_test (\<lambda>_. None) (\<lambda>_. 0) True disk_env) 0 (0, 0) R_get
       (zero_globals\<lparr>validate := True\<rparr>, None, clear_stats True disk_state) =
       Some (map (file_request disk_state) [0..<6], zero_globals\<lparr>validate := True\<rparr>, e, s') \<and>
     runner_run 20 null_request (fileio_test (\<lambda>_. None) (\<lambda>_. 0) True disk_env) 0 (0, 0) R_get
       (zero_globals\<lparr>validate := True\<rparr>, e, reread True s') =
       Some (map (file_request (reread True s')) [0..<4], zero_globals\<lparr>validate := True\<rparr>, e', t')"
  using written_files_validate [OF disk_file_system, of "zero_globals\<lparr>validate := True\<rparr>" disk_state
      "\<lambda>_. None" "\<lambda>_. 0" True 0 "(0, 0)" None]
    disk_set_up by (simp add: zero_globals_def del: upt_Suc upt_rec_numeral)

text \<open>
  C36: A block that was filled passes the validation, wherever it is in memory; and it does not pass any more when up to
  four consecutive bytes of its payload, or any bytes of the stored checksum and offset, are changed.
\<close>

theorem validation_finds_damage:
  assumes "file_fill_buffer addr buf len offset rng = Inr (p @ u @ q, rng')" and "length v = length u"
    and "length p + length u \<le> len - 12 \<and> length u \<le> 4 \<or> len - 12 \<le> length p \<and> length p + length u \<le> len"
  shows "file_validate_buffer addr' (p @ v @ q) len offset = Inr (if v = u then 0 else 1)"
  using fill_validate [OF assms(1)] damage_found [OF assms(1,2) _ assms(3)] by simp

theorem validation_finds_damage_witness:
  "\<exists>b bs rng'. file_fill_buffer 0 (replicate 13 0) 13 0 0 = Inr (b # bs, rng') \<and>
     file_validate_buffer 0 ((b + 1) # bs) 13 0 = Inr 1"
proof -
  obtain buf rng' where fill: "file_fill_buffer 0 (replicate 13 0) 13 0 0 = Inr (buf, rng')"
    by (rule file_fill_ok [of 13 "replicate 13 0"]) simp_all
  from fill have "length buf = 13" by (rule file_fill_cases) simp
  then obtain b bs where buf: "buf = b # bs" by (cases buf) auto
  have "file_fill_buffer 0 (replicate 13 0) 13 0 0 = Inr ([] @ [b] @ bs, rng')" using fill buf by simp
  from validation_finds_damage [OF this, of "[b + 1]" 0] show ?thesis using fill buf by auto
qed

text \<open>
  C37: When the block size divides the size of a file, and the total size is that of the files together, a
  random read or write lies within its file.
\<close>

theorem random_requests_in_bounds:
  assumes "file_get_rnd_request (g, s) = Inr (r, s')" and "req_type r = SB_REQ_TYPE_FILE" and "operation (req_data r) \<noteq> FILE_OP_TYPE_FSYNC"
    and "0 < file_block_size s" and "file_block_size s dvd file_size s" and "0 < file_size s" and "0 < num_files s"
    and "total_size s = int (unat (num_files s)) * file_size s"
  shows "file_id (req_data r) < num_files s \<and> 0 \<le> fr_pos (req_data r) \<and> fr_pos (req_data r) + fr_size (req_data r) \<le> file_size s"
  using rnd_request_bounds [OF assms] by blast

theorem random_requests_in_bounds_witness:
  "\<exists>r s'. file_get_rnd_request (zero_globals, disk_state\<lparr>test_mode := MODE_RND_READ\<rparr>) = Inr (r, s') \<and>
     file_id (req_data r) < 2 \<and> fr_pos (req_data r) + fr_size (req_data r) \<le> 32"
proof -
  let ?s = "disk_state\<lparr>test_mode := MODE_RND_READ\<rparr>"
  obtain n rng where rnd: "sb_rnd 0 = (n, rng)" by fastforce
  then obtain r s' where req: "file_get_rnd_request (zero_globals, ?s) = Inr (r, s')"
    and "req_type r = SB_REQ_TYPE_FILE" "operation (req_data r) \<noteq> FILE_OP_TYPE_FSYNC"
    by (simp add: file_get_rnd_request_def disk_state_def zero_globals_def rnd_mode_def Let_def)
  with random_requests_in_bounds [OF req] show ?thesis by (simp add: disk_state_def)
qed

end
