(* ===== verification/IbVariants.thy ===== *)
theory IbVariants
  imports IbMutex
begin

text \<open>
  The InnoDB mutex in the variants that change its lock word to four bytes: \<open>mysql-5.6.10-beta\<close>,
  \<open>-all\<close>, \<open>-smartall\<close> and \<open>-trx_lock_func\<close> (\<open>storage/innobase\<close>: \<open>include/sync0sync.ic\<close>,
  \<open>sync/sync0sync.cc\<close>, \<open>include/myhle.cc\<close>).  They differ in the instruction that tries to take the
  word and in the one that resets it; the rest of the mutex is written once over both, as in the copies
  of \<open>beta\<close>.  In \<open>trx_lock_func\<close> the elided entry works on the lock word itself.

  The locale \<open>wide_word\<close> states what the mutex needs of the two instructions.  Under it, every run of
  the four-byte mutex is a run of the mutex of \<open>IbMutex\<close>, so that its properties carry over.
\<close>

section \<open>The instructions of the variants\<close>

text \<open>The result, as wide as the function declares it, and the new word.\<close>

definition beta_test_and_set :: "u32 \<Rightarrow> u32 \<times> u32" where
  "beta_test_and_set w = (let (old, w) = hle_exchange_n w 1 in (old, w))"

definition all_test_and_set :: "u32 \<Rightarrow> u8 \<times> u32" where
  "all_test_and_set w = (let (busy, w) = hle_test_and_set4 w in (of_bool busy, w))"

text \<open>\<open>xtest\<close>: whether the thread is inside a transaction.\<close>

definition smartall_test_and_set :: "bool \<Rightarrow> u32 \<Rightarrow> u8 \<times> u32" where
  "smartall_test_and_set xtest w =
     (if xtest \<and> w \<noteq> 98789347 then (0, w)
      else let (busy, w) = hle_test_and_set4 w in (of_bool busy, w))"

definition trx_test_and_set :: "u32 \<Rightarrow> u8 \<times> u32" where
  "trx_test_and_set w = (let (old, w) = exchange_n w 1 in (ucast old, w))"

definition beta_reset :: "u32 \<Rightarrow> u32" where
  "beta_reset w = hle_clear4 w"

definition all_reset :: "u32 \<Rightarrow> u32" where
  "all_reset w = hle_clear4 w"

definition smartall_reset :: "u32 \<Rightarrow> u32" where
  "smartall_reset w = hle_clear4 w"

definition trx_reset :: "u32 \<Rightarrow> u32" where
  "trx_reset w = snd (exchange_n w 0)"

text \<open>\<open>hle_unlock\<close>, with which \<open>hle_mutex_exit_func\<close> of \<open>trx_lock_func\<close> clears the word.\<close>

definition trx_hle_unlock :: "u32 \<Rightarrow> u32" where
  "trx_hle_unlock w = hle_clear4 w"

text \<open>The condition the callers test, and the new word.\<close>

definition busy :: "'a::len word \<times> u32 \<Rightarrow> bool \<times> u32" where
  "busy r = (fst r \<noteq> 0, snd r)"

section \<open>The mutex\<close>

text \<open>
  Creation is shown without the list of all mutexes, which \<open>IbSync\<close> models.  The two exit functions
  differ only in the instruction \<open>reset\<close>.
\<close>

record 'e wide_mutex =
  w_event :: 'e
  w_lock_word :: u32
  w_waiters :: ulint
  w_cfile_name :: cstr
  w_cline :: ulint
  w_count_os_wait :: u64

definition wide_set_waiters :: "'e wide_mutex \<Rightarrow> ulint \<Rightarrow> 'e wide_mutex" where
  "wide_set_waiters m n = m\<lparr>w_waiters := n\<rparr>"

definition wide_create :: "(u32 \<Rightarrow> u32) \<Rightarrow> 'e \<Rightarrow> cstr \<Rightarrow> ulint \<Rightarrow> 'e wide_mutex \<Rightarrow> 'e wide_mutex" where
  "wide_create reset evt file line m =
     (let m = m\<lparr>w_lock_word := reset (w_lock_word m)\<rparr>;
          m = m\<lparr>w_event := evt\<rparr>;
          m = wide_set_waiters m 0
      in m\<lparr>w_cfile_name := file, w_cline := line, w_count_os_wait := 0\<rparr>)"

definition wide_try :: "(u32 \<Rightarrow> bool \<times> u32) \<Rightarrow> 'e wide_mutex \<Rightarrow> bool \<times> 'e wide_mutex" where
  "wide_try tas m = (let (b, w) = tas (w_lock_word m) in (b, m\<lparr>w_lock_word := w\<rparr>))"

definition wide_enter_nowait :: "(u32 \<Rightarrow> bool \<times> u32) \<Rightarrow> 'e wide_mutex \<Rightarrow> ulint \<times> 'e wide_mutex" where
  "wide_enter_nowait tas m = (let (b, m) = wide_try tas m in (if \<not> b then 0 else 1, m))"

definition wide_enter :: "(u32 \<Rightarrow> bool \<times> u32) \<Rightarrow> 'e wide_mutex \<Rightarrow> 'c ib_pc \<times> 'e wide_mutex" where
  "wide_enter tas m = (let (b, m) = wide_try tas m in (if \<not> b then ICrit else ISpin 0, m))"

fun wide_spin_wait ::
  "(u32 \<Rightarrow> bool \<times> u32) \<Rightarrow> ('e, 'c) wait_ops \<Rightarrow> ulint \<Rightarrow> 'c ib_pc \<Rightarrow> 'e wide_mutex \<Rightarrow> 'c ib_pc \<times> 'e wide_mutex" where
  "wide_spin_wait tas W rounds (ISpin i) m =
     (if w_lock_word m \<noteq> 0 \<and> i < rounds then (ISpin (i + 1), m) else (ITas i, m))"
| "wide_spin_wait tas W rounds (ITas i) m =
     (let (b, m') = wide_try tas m in
      (if \<not> b then ICrit else if i + 1 < rounds then ISpin (i + 1) else IReserve, m'))"
| "wide_spin_wait tas W rounds IReserve m =
     (let (e, c) = reserve_cell W (w_event m) in (ISetWaiters c, m\<lparr>w_event := e\<rparr>))"
| "wide_spin_wait tas W rounds (ISetWaiters c) m = (ITry 0 c, wide_set_waiters m 1)"
| "wide_spin_wait tas W rounds (ITry i c) m =
     (let (b, m') = wide_try tas m in
      if \<not> b then (ICrit, m')
      else if i + 1 < 4 then (ITry (i + 1) c, m')
      else (IWait c, m'\<lparr>w_count_os_wait := w_count_os_wait m' + 1\<rparr>))"
| "wide_spin_wait tas W rounds (IWait c) m =
     (if cell_blocks W (w_event m) c then (IWait c, m) else (ISpin 0, m))"
| "wide_spin_wait tas W rounds pc m = (pc, m)"

fun wide_signal_object :: "('e, 'c) wait_ops \<Rightarrow> 'c ib_pc \<Rightarrow> 'e wide_mutex \<Rightarrow> 'c ib_pc \<times> 'e wide_mutex" where
  "wide_signal_object W ISignal m = (IEventSet, wide_set_waiters m 0)"
| "wide_signal_object W IEventSet m = (IOut, m\<lparr>w_event := event_set W (w_event m)\<rparr>)"
| "wide_signal_object W pc m = (pc, m)"

fun wide_exit :: "(u32 \<Rightarrow> u32) \<Rightarrow> ('e, 'c) wait_ops \<Rightarrow> 'c ib_pc \<Rightarrow> 'e wide_mutex \<Rightarrow> 'c ib_pc \<times> 'e wide_mutex" where
  "wide_exit reset W ICrit m = (IExit, m\<lparr>w_lock_word := reset (w_lock_word m)\<rparr>)"
| "wide_exit reset W IExit m = (if w_waiters m \<noteq> 0 then ISignal else IOut, m)"
| "wide_exit reset W pc m = wide_signal_object W pc m"

section \<open>The elided entry of trx_lock_func\<close>

text \<open>\<open>hle_exch_spec_lock\<close> in its two loops: exchanging the word, and waiting until it is not 1.\<close>

datatype 'c wide_pc = Plain "'c ib_pc" | HleTry | HleLoad

definition hle_exch_spec_lock :: "'c wide_pc \<Rightarrow> u32 \<Rightarrow> 'c wide_pc \<times> u32" where
  "hle_exch_spec_lock pc w =
     (case pc of
        HleTry \<Rightarrow> (let (old, w) = hle_exchange_n w 1 in (if old \<noteq> 0 then HleLoad else Plain ICrit, w))
      | HleLoad \<Rightarrow> (if w = 1 then HleLoad else HleTry, w)
      | Plain p \<Rightarrow> (pc, w))"

section \<open>Threads\<close>

record ('e, 'c) wide_sys =
  wm :: "'e wide_mutex"
  wpcs :: "nat \<Rightarrow> 'c wide_pc"
  wide_sets :: nat

definition wide_put ::
  "('e, 'c) wide_sys \<Rightarrow> nat \<Rightarrow> 'c wide_pc \<times> 'e wide_mutex \<Rightarrow> ('e, 'c) wide_sys" where
  "wide_put s t r =
     s\<lparr>wm := snd r, wpcs := (wpcs s)(t := fst r),
       wide_sets := wide_sets s + (if wpcs s t = Plain IEventSet then 1 else 0)\<rparr>"

text \<open>
  \<open>tas x\<close> is the attempt of a thread for which \<open>_xtest\<close> returns \<open>x\<close>; \<open>xs\<close> are the values that it can
  return, and \<open>elided\<close> says whether the variant has the elided entry.
\<close>

inductive wide_step ::
  "(bool \<Rightarrow> u32 \<Rightarrow> bool \<times> u32) \<Rightarrow> (u32 \<Rightarrow> u32) \<Rightarrow> bool set \<Rightarrow> bool \<Rightarrow> ('e, 'c) wait_ops \<Rightarrow> ulint \<Rightarrow>
   ('e, 'c) wide_sys \<Rightarrow> ('e, 'c) wide_sys \<Rightarrow> bool" for tas reset xs elided W rounds where
  enter: "wpcs s t = Plain IOut \<Longrightarrow> x \<in> xs \<Longrightarrow>
     wide_step tas reset xs elided W rounds s (wide_put s t (map_prod Plain id (wide_enter (tas x) (wm s))))"
| nowait: "wpcs s t = Plain IOut \<Longrightarrow> x \<in> xs \<Longrightarrow> wide_enter_nowait (tas x) (wm s) = (r, m) \<Longrightarrow>
     wide_step tas reset xs elided W rounds s (wide_put s t (Plain (if r = 0 then ICrit else IOut), m))"
| spin: "wpcs s t = Plain pc \<Longrightarrow> spinning pc \<Longrightarrow> x \<in> xs \<Longrightarrow>
     wide_step tas reset xs elided W rounds s
       (wide_put s t (map_prod Plain id (wide_spin_wait (tas x) W rounds pc (wm s))))"
| exit: "wpcs s t = Plain pc \<Longrightarrow> leaving pc \<Longrightarrow> r = reset \<or> elided \<and> r = trx_hle_unlock \<Longrightarrow>
     wide_step tas reset xs elided W rounds s (wide_put s t (map_prod Plain id (wide_exit r W pc (wm s))))"
| elide: "wpcs s t = Plain IOut \<Longrightarrow> elided \<Longrightarrow>
     wide_step tas reset xs elided W rounds s (wide_put s t (HleTry, wm s))"
| elided: "wpcs s t = pc \<Longrightarrow> pc = HleTry \<or> pc = HleLoad \<Longrightarrow> hle_exch_spec_lock pc (w_lock_word (wm s)) = (pc', w) \<Longrightarrow>
     wide_step tas reset xs elided W rounds s (wide_put s t (pc', (wm s)\<lparr>w_lock_word := w\<rparr>))"

inductive wide_reach ::
  "(bool \<Rightarrow> u32 \<Rightarrow> bool \<times> u32) \<Rightarrow> (u32 \<Rightarrow> u32) \<Rightarrow> bool set \<Rightarrow> bool \<Rightarrow> ('e, 'c) wait_ops \<Rightarrow> ulint \<Rightarrow>
   'e wide_mutex \<Rightarrow> ('e, 'c) wide_sys \<Rightarrow> bool" for tas reset xs elided W rounds m0 where
  init: "wide_reach tas reset xs elided W rounds m0 \<lparr>wm = m0, wpcs = (\<lambda>_. Plain IOut), wide_sets = 0\<rparr>"
| step: "wide_reach tas reset xs elided W rounds m0 s \<Longrightarrow> wide_step tas reset xs elided W rounds s s' \<Longrightarrow>
     wide_reach tas reset xs elided W rounds m0 s'"

inductive_cases wide_stepE: "wide_step tas reset xs elided W rounds s s'"

section \<open>Refinement of the mutex\<close>

definition narrow :: "'e wide_mutex \<Rightarrow> 'e ib_mutex" where
  "narrow m = \<lparr>event = w_event m, lock_word = ucast (w_lock_word m), hle_mutex = 0, waiters = w_waiters m,
     cfile_name = w_cfile_name m, cline = w_cline m, count_os_wait = w_count_os_wait m\<rparr>"

fun narrow_pc :: "'c wide_pc \<Rightarrow> 'c ib_pc" where
  "narrow_pc (Plain pc) = pc"
| "narrow_pc HleTry = IOut"
| "narrow_pc HleLoad = IOut"

definition narrow_sys :: "('e, 'c) wide_sys \<Rightarrow> ('e, 'c) ib_sys" where
  "narrow_sys s = \<lparr>im = narrow (wm s), ipcs = (\<lambda>t. narrow_pc (wpcs s t)), event_sets = wide_sets s\<rparr>"

definition word_typed :: "u32 \<Rightarrow> bool" where
  "word_typed w \<longleftrightarrow> w = 0 \<or> w = 1"

text \<open>What the mutex needs of the instructions of a variant.\<close>

locale wide_word =
  fixes tas :: "u32 \<Rightarrow> bool \<times> u32" and reset :: "u32 \<Rightarrow> u32"
  assumes tas_law: "word_typed w \<Longrightarrow> tas w = (w \<noteq> 0, 1)"
    and reset_law: "reset w = 0"
begin

lemma try_narrow:
  assumes "word_typed (w_lock_word m)"
  shows "word_typed (w_lock_word (snd (wide_try tas m)))"
    and "ib_mutex_test_and_set (narrow m) = (if fst (wide_try tas m) then 1 else 0, narrow (snd (wide_try tas m)))"
  using assms tas_law [OF assms]
  by (auto simp: wide_try_def ib_mutex_test_and_set_def exchange_n_def narrow_def word_typed_def)

lemma enter_narrow:
  assumes "word_typed (w_lock_word m)"
  shows "word_typed (w_lock_word (snd (wide_enter tas m)))"
    and "mutex_enter_func (narrow m) = map_prod id narrow (wide_enter tas m)"
  using try_narrow [OF assms]
  by (auto simp: wide_enter_def mutex_enter_func_def split: prod.splits)

lemma nowait_narrow:
  assumes "word_typed (w_lock_word m)"
  shows "word_typed (w_lock_word (snd (wide_enter_nowait tas m)))"
    and "mutex_enter_nowait_func (narrow m) = map_prod id narrow (wide_enter_nowait tas m)"
  using try_narrow [OF assms]
  by (auto simp: wide_enter_nowait_def mutex_enter_nowait_func_def split: prod.splits)

lemma narrow_simps [simp]:
  "mutex_get_lock_word (narrow m) = ucast (w_lock_word m)" "event (narrow m) = w_event m"
  "mutex_get_waiters (narrow m) = w_waiters m" "mutex_set_waiters (narrow m) n = narrow (wide_set_waiters m n)"
  "(narrow m)\<lparr>event := e\<rparr> = narrow (m\<lparr>w_event := e\<rparr>)"
  "(narrow m)\<lparr>count_os_wait := k\<rparr> = narrow (m\<lparr>w_count_os_wait := k\<rparr>)" "count_os_wait (narrow m) = w_count_os_wait m"
  "lock_word (narrow m) = ucast (w_lock_word m)" "mutex_reset_lock_word (narrow m) = narrow (m\<lparr>w_lock_word := 0\<rparr>)"
  by (simp_all add: narrow_def ib_acc_defs wide_set_waiters_def)

lemma spin_narrow:
  assumes "word_typed (w_lock_word m)"
  shows "word_typed (w_lock_word (snd (wide_spin_wait tas W rounds pc m)))"
    and "mutex_spin_wait W rounds pc (narrow m) = map_prod id narrow (wide_spin_wait tas W rounds pc m)"
  using assms try_narrow [OF assms]
  by (cases pc; auto simp: word_typed_def wide_set_waiters_def split: prod.splits)+

lemma exit_narrow:
  assumes "word_typed (w_lock_word m)" and "r = reset \<or> elided \<and> r = trx_hle_unlock"
  shows "word_typed (w_lock_word (snd (wide_exit r W pc m)))"
    and "mutex_exit_func W pc (narrow m) = map_prod id narrow (wide_exit r W pc m)"
proof -
  have "r w = 0" for w using assms(2) by (auto simp: reset_law trx_hle_unlock_def hle_op_defs hle_clear4_def)
  then show "word_typed (w_lock_word (snd (wide_exit r W pc m)))"
    and "mutex_exit_func W pc (narrow m) = map_prod id narrow (wide_exit r W pc m)"
    using assms(1) by (cases pc; simp add: word_typed_def wide_set_waiters_def)+
qed

lemma narrow_put:
  "narrow_sys (wide_put s t r) = ib_put (narrow_sys s) t (narrow_pc (fst r), narrow (snd r))" if "wpcs s t = Plain pc"
  using that by (auto simp: narrow_sys_def wide_put_def ib_put_def fun_eq_iff)

lemma narrow_put_hle:
  "narrow_sys (wide_put s t r) = (narrow_sys s)\<lparr>im := narrow (snd r), ipcs := (ipcs (narrow_sys s))(t := narrow_pc (fst r))\<rparr>"
  if "wpcs s t = HleTry \<or> wpcs s t = HleLoad"
  using that by (auto simp: narrow_sys_def wide_put_def fun_eq_iff)

lemma step_put:
  assumes "wpcs s t = Plain pc" and "word_typed (w_lock_word (snd r))"
    and "ib_step W rounds (narrow_sys s) (ib_put (narrow_sys s) t (map_prod id narrow r))" and "s' = wide_put s t (map_prod Plain id r)"
  shows "word_typed (w_lock_word (wm s')) \<and> (narrow_sys s' = narrow_sys s \<or> ib_step W rounds (narrow_sys s) (narrow_sys s'))"
  using assms(2,3) unfolding assms(4) narrow_put [OF assms(1)] by (cases r) (simp add: wide_put_def)

text \<open>A step of the variant is a step of the mutex, or leaves it alone.\<close>

lemma step_narrow:
  fixes s :: "('e, 'c) wide_sys"
  assumes "wide_step (\<lambda>x. if x \<in> xs then tas else f) reset xs elided W rounds s s'" and "word_typed (w_lock_word (wm s))"
  shows "word_typed (w_lock_word (wm s')) \<and> (narrow_sys s' = narrow_sys s \<or> ib_step W rounds (narrow_sys s) (narrow_sys s'))"
  using assms
proof (cases rule: wide_step.cases)
  case (enter t x)
  show ?thesis
  proof (rule step_put [OF enter(2)])
    show "ib_step W rounds (narrow_sys s) (ib_put (narrow_sys s) t (map_prod id narrow (wide_enter tas (wm s))))"
      using ib_step.enter [of "narrow_sys s" t W rounds] enter(2) by (simp add: narrow_sys_def enter_narrow(2) [OF assms(2)])
  qed (use enter in \<open>simp_all add: enter_narrow(1) [OF assms(2)]\<close>)
next
  case (nowait t x r m)
  show ?thesis
  proof (rule step_put [OF nowait(2)])
    show "ib_step W rounds (narrow_sys s) (ib_put (narrow_sys s) t (map_prod id narrow (if r = 0 then ICrit else IOut, m)))"
      using ib_step.enter_nowait [of "narrow_sys s" t r "narrow m" W rounds] nowait nowait_narrow [OF assms(2)]
      by (simp add: narrow_sys_def)
    show "word_typed (w_lock_word (snd (if r = 0 then ICrit else IOut, m)))"
      using nowait(3,4) nowait_narrow(1) [OF assms(2)] by simp
  qed (simp add: nowait(1))
next
  case (spin t pc x)
  show ?thesis
  proof (rule step_put [OF spin(2)])
    show "ib_step W rounds (narrow_sys s) (ib_put (narrow_sys s) t (map_prod id narrow (wide_spin_wait tas W rounds pc (wm s))))"
      using ib_step.spin [of "narrow_sys s" t W rounds] spin(2,3) by (simp add: narrow_sys_def spin_narrow(2) [OF assms(2)])
  qed (use spin in \<open>simp_all add: spin_narrow(1) [OF assms(2)]\<close>)
next
  case (exit t pc r)
  show ?thesis
  proof (rule step_put [OF exit(2)])
    show "ib_step W rounds (narrow_sys s) (ib_put (narrow_sys s) t (map_prod id narrow (wide_exit r W pc (wm s))))"
      using ib_step.exit [of "narrow_sys s" t W rounds] exit(2,3)
      by (simp add: narrow_sys_def exit_narrow(2) [OF assms(2) exit(4)])
  qed (use exit in \<open>simp_all add: exit_narrow(1) [OF assms(2) exit(4)]\<close>)
next
  case (elide t)
  have "narrow_sys s' = narrow_sys s"
    using elide narrow_put [OF elide(2), of "(HleTry, wm s)"] by (auto simp: narrow_sys_def wide_put_def fun_eq_iff)
  then show ?thesis using elide assms(2) by (simp add: wide_put_def)
next
  case (elided t pc pc' w)
  note put = narrow_put_hle [OF elided(3) [unfolded elided(2) [symmetric]]]
  consider (load) "w = w_lock_word (wm s)" "narrow_pc pc' = IOut"
    | (free) "pc = HleTry" "w_lock_word (wm s) = 0" "w = 1" "pc' = Plain ICrit"
    using elided(3,4) assms(2) by (auto simp: hle_exch_spec_lock_def hle_op_defs word_typed_def split: if_splits)
  then show ?thesis
  proof cases
    case load
    then have "narrow_sys s' = narrow_sys s"
      using elided(1-3) put by (auto simp: narrow_sys_def fun_eq_iff)
    then show ?thesis using elided load assms(2) by (simp add: wide_put_def)
  next
    case free
    let ?m = "(wm s)\<lparr>w_lock_word := 1\<rparr>"
    have "mutex_enter_nowait_func (narrow (wm s)) = (0, narrow ?m)"
      using free by (simp add: mutex_enter_nowait_func_def ib_acc_defs narrow_def)
    then have "ib_step W rounds (narrow_sys s) (ib_put (narrow_sys s) t (if (0 :: ulint) = 0 then ICrit else IOut, narrow ?m))"
      using elided(2) free(1) by (intro ib_step.enter_nowait) (auto simp: narrow_sys_def)
    moreover have "ipcs (narrow_sys s) t = IOut" using elided(2) free(1) by (simp add: narrow_sys_def)
    ultimately show ?thesis unfolding elided(1) put using free(3,4) by (simp add: wide_put_def ib_put_def word_typed_def)
  qed
qed

lemma reach_narrow:
  assumes "word_typed (w_lock_word m0)" and "wide_reach (\<lambda>x. if x \<in> xs then tas else f) reset xs elided W rounds m0 s"
  shows "word_typed (w_lock_word (wm s)) \<and> ib_reach W rounds (narrow m0) (narrow_sys s)"
  using assms(2)
proof (induction rule: wide_reach.induct)
  case init
  show ?case
    using ib_reach.init [of W rounds "narrow m0"] assms(1) by (simp add: narrow_sys_def)
next
  case (step s s')
  with step_narrow [OF step.hyps(2)] show ?case by (auto intro: ib_reach.step)
qed

end

section \<open>The variants\<close>

definition beta_tas :: "u32 \<Rightarrow> bool \<times> u32" where
  "beta_tas w = busy (beta_test_and_set w)"

definition all_tas :: "u32 \<Rightarrow> bool \<times> u32" where
  "all_tas w = busy (all_test_and_set w)"

definition smartall_tas :: "bool \<Rightarrow> u32 \<Rightarrow> bool \<times> u32" where
  "smartall_tas xtest w = busy (smartall_test_and_set xtest w)"

definition trx_tas :: "u32 \<Rightarrow> bool \<times> u32" where
  "trx_tas w = busy (trx_test_and_set w)"

lemmas variant_defs =
  beta_tas_def all_tas_def smartall_tas_def trx_tas_def busy_def beta_test_and_set_def all_test_and_set_def
  smartall_test_and_set_def trx_test_and_set_def beta_reset_def all_reset_def smartall_reset_def trx_reset_def
  hle_op_defs exchange_n_def hle_clear4_def hle_test_and_set4_def

interpretation beta: wide_word beta_tas beta_reset
  by unfold_locales (auto simp: variant_defs word_typed_def)

interpretation all: wide_word all_tas all_reset
  by unfold_locales (auto simp: variant_defs word_typed_def)

interpretation smartall: wide_word "smartall_tas False" smartall_reset
  by unfold_locales (auto simp: variant_defs word_typed_def)

interpretation trx: wide_word trx_tas trx_reset
  by unfold_locales (auto simp: variant_defs word_typed_def)

section \<open>A transaction of smartall\<close>









text \<open>A mutex made from memory with other contents.\<close>

definition wide_demo :: "os_event wide_mutex" where
  "wide_demo = wide_create smartall_reset os_event_new None 0
     \<lparr>w_event = os_event_new, w_lock_word = 7, w_waiters = 3, w_cfile_name = None, w_cline = 0, w_count_os_wait = 9\<rparr>"

definition wide_start :: "(os_event, u64) wide_sys" where
  "wide_start = \<lparr>wm = wide_demo, wpcs = (\<lambda>_. Plain IOut), wide_sets = 0\<rparr>"

lemmas wide_demo_defs = wide_demo_def wide_create_def wide_set_waiters_def variant_defs

section \<open>Properties\<close>

text \<open>
  C11: The variants \<open>beta\<close>, \<open>all\<close> and \<open>trx_lock_func\<close> (with its elided entry on the same word), and
  \<open>smartall\<close> outside of transactions, refine the InnoDB mutex: their lock word is always 0 or 1, and every run is
  a run of the original mutex, so at most one thread is inside.
\<close>

theorem variants_refine_mutex:
  assumes "w_lock_word m0 = 0"
    and "(tas, reset, elided) \<in> {(\<lambda>_. beta_tas, beta_reset, False), (\<lambda>_. all_tas, all_reset, False),
      (\<lambda>_. trx_tas, trx_reset, True)} \<and> xs = UNIV \<or>
      (tas, reset, elided) = (smartall_tas, smartall_reset, False) \<and> xs = {False}"
    and "wide_reach tas reset xs elided W rounds m0 s"
  shows "word_typed (w_lock_word (wm s)) \<and> ib_reach W rounds (narrow m0) (narrow_sys s) \<and>
    (wpcs s t = Plain ICrit \<longrightarrow> wpcs s u = Plain ICrit \<longrightarrow> t = u)"
proof -
  have m0: "word_typed (w_lock_word m0)" using assms(1) by (simp add: word_typed_def)
  have smart: "smartall_tas = (\<lambda>x. if x \<in> {False} then smartall_tas False else smartall_tas True)" by auto
  consider (beta) "tas = (\<lambda>_. beta_tas)" "reset = beta_reset" "xs = UNIV" | (all) "tas = (\<lambda>_. all_tas)" "reset = all_reset" "xs = UNIV"
    | (trx) "tas = (\<lambda>_. trx_tas)" "reset = trx_reset" "xs = UNIV"
    | (smartall) "tas = smartall_tas" "reset = smartall_reset" "xs = {False}"
    using assms(2) by blast
  then have "word_typed (w_lock_word (wm s)) \<and> ib_reach W rounds (narrow m0) (narrow_sys s)"
  proof cases
    case beta
    show ?thesis by (rule beta.reach_narrow [OF m0, of UNIV]) (use assms(3) beta in simp)
  next
    case all
    show ?thesis by (rule all.reach_narrow [OF m0, of UNIV]) (use assms(3) all in simp)
  next
    case trx
    show ?thesis by (rule trx.reach_narrow [OF m0, of UNIV]) (use assms(3) trx in simp)
  next
    case smartall
    show ?thesis
      by (rule smartall.reach_narrow [OF m0, of "{False}" "smartall_tas True", folded smart]) (use assms(3) smartall in simp)
  qed
  moreover from this have "ib_word_inv (narrow_sys s)"
    using assms(1) by (intro ib_reach_word_inv [of "narrow m0"]) (auto simp: narrow_def)
  then have "wpcs s t = Plain ICrit \<longrightarrow> wpcs s u = Plain ICrit \<longrightarrow> t = u"
    unfolding ib_word_inv_def by (auto simp: narrow_sys_def)
  ultimately show ?thesis by blast
qed

theorem variants_refine_mutex_witness:
  "\<exists>s. wide_reach (\<lambda>_. trx_tas) trx_reset UNIV True count_cells 0 wide_demo s \<and> wpcs s 1 = Plain ICrit \<and>
     word_typed (w_lock_word (wm s)) \<and> ib_reach count_cells 0 (narrow wide_demo) (narrow_sys s)"
proof -
  let ?reach = "wide_reach (\<lambda>_. trx_tas) trx_reset UNIV True count_cells 0 wide_demo"
  let ?s = "wide_start\<lparr>wpcs := (\<lambda>_. Plain IOut)(1 := HleTry)\<rparr>"
  have "?reach wide_start" unfolding wide_start_def by (rule wide_reach.init)
  moreover have "wide_step (\<lambda>_. trx_tas) trx_reset UNIV True count_cells 0 wide_start ?s"
    using wide_step.elide [of wide_start 1 True "\<lambda>_. trx_tas" trx_reset UNIV count_cells 0]
    by (simp add: wide_start_def wide_put_def)
  moreover have "wide_step (\<lambda>_. trx_tas) trx_reset UNIV True count_cells 0 ?s
      (wide_put ?s 1 (Plain ICrit, (wm ?s)\<lparr>w_lock_word := 1\<rparr>))"
    by (rule wide_step.elided [of _ _ HleTry])
      (simp_all add: hle_exch_spec_lock_def wide_start_def wide_demo_defs)
  ultimately have r: "?reach (wide_put ?s 1 (Plain ICrit, (wm ?s)\<lparr>w_lock_word := 1\<rparr>))"
    by (blast intro: wide_reach.step)
  have "w_lock_word wide_demo = 0" by (simp add: wide_demo_defs)
  from variants_refine_mutex [OF this _ r, of 1 1] r show ?thesis by (auto simp: wide_put_def)
qed



end
