(* ===== verification/SbOltp.thy ===== *)
theory SbOltp
  imports SbTests DbDriver
begin

text \<open>
  The OLTP test of sysbench (\<open>tests/oltp/sb_oltp.c\<close>, \<open>tests/sb_oltp.h\<close>): options, random row ids, the
  generators of requests, prepared statements, the execution of a request with its retries after a
  deadlock, and the preparation and the cleanup of the test table.  The database is reached through
  the layer of \<open>DbDriver\<close>; the state of the test holds its static variables, the random number
  generator, the registered options and the state of that layer.

  Memory does not run out.  Sleeping, event timing, the timers of the debug mode and log messages are
  left out, but for the warning about an unexpected number of rows, which validation is about.  The
  counters, read and written under a mutex, and the seed are updated in one step.  The number of a
  thread, \<open>tid\<close>, is below the lengths of the pools.
\<close>

section \<open>Types\<close>

datatype oltp_mode = TEST_MODE_SIMPLE | TEST_MODE_COMPLEX | TEST_MODE_NONTRX | TEST_MODE_SP

datatype nontrx_mode =
  NONTRX_MODE_SELECT | NONTRX_MODE_UPDATE_KEY | NONTRX_MODE_UPDATE_NOKEY | NONTRX_MODE_INSERT | NONTRX_MODE_DELETE

datatype oltp_dist = DIST_TYPE_UNIFORM | DIST_TYPE_GAUSSIAN | DIST_TYPE_SPECIAL

datatype reconnect_mode =
  RECONNECT_SESSION | RECONNECT_QUERY | RECONNECT_TRANSACTION | RECONNECT_RANDOM | RECONNECT_LAST

record oltp_args_t =
  test_mode :: oltp_mode
  reconnect_mode :: reconnect_mode
  read_only :: bool
  skip_trx :: bool
  auto_inc :: bool
  range_size :: u32
  point_selects :: u32
  simple_ranges :: u32
  sum_ranges :: u32
  order_ranges :: u32
  distinct_ranges :: u32
  index_updates :: u32
  non_index_updates :: u32
  nontrx_mode :: nontrx_mode
  connect_delay :: u32
  user_delay_min :: u32
  user_delay_max :: u32
  table_name :: cstr
  sp_name :: cstr
  table_size :: u32
  dist_type :: oltp_dist
  dist_iter :: u32
  dist_pct :: u32
  dist_res :: u32

datatype sb_sql_query_type =
  SB_SQL_QUERY_NULL | SB_SQL_QUERY_LOCK | SB_SQL_QUERY_UNLOCK | SB_SQL_QUERY_POINT | SB_SQL_QUERY_CALL
| SB_SQL_QUERY_RANGE | SB_SQL_QUERY_RANGE_SUM | SB_SQL_QUERY_RANGE_ORDER | SB_SQL_QUERY_RANGE_DISTINCT
| SB_SQL_QUERY_UPDATE_INDEX | SB_SQL_QUERY_UPDATE_NON_INDEX | SB_SQL_QUERY_DELETE | SB_SQL_QUERY_INSERT
| SB_SQL_QUERY_RECONNECT

text \<open>
  The union of a query is its first \<open>int\<close> (an id, or the start of a range) and its second (the end of
  a range).  What a generator leaves unset, and no one reads, is 0.
\<close>

record sb_sql_query =
  q_type :: sb_sql_query_type
  num_times :: u32
  think_time :: u32
  nrows :: u64
  q_id :: u32
  q_to :: u32

text \<open>The fields of a set of statements, of a set of bind buffers, and a bind variable by its buffer.\<close>

datatype stmt_slot =
  St_lock | St_unlock | St_point | St_call | St_range | St_range_sum | St_range_order | St_range_distinct
| St_update_index | St_update_non_index | St_delete | St_insert

type_synonym oltp_stmt_set = "stmt_slot \<rightharpoonup> nat"

datatype bind_field =
  F_point_id | F_range_from | F_range_to | F_sum_from | F_sum_to | F_order_from | F_order_to
| F_distinct_from | F_distinct_to | F_update_index_id | F_update_non_index_id | F_delete_id | F_insert_id
| F_call_thread_id | F_call_nthreads

record oltp_bind_set =
  ints :: "bind_field \<Rightarrow> u32"
  c_buf :: string
  pad_buf :: string

datatype oltp_param = Int_param bind_field | C_param | Pad_param | Null_param

text \<open>What a driver reads through a bind variable when it executes the statement.\<close>

datatype oltp_value = V_int u32 | V_char string | V_null

definition param_value :: "oltp_bind_set \<Rightarrow> oltp_param \<Rightarrow> oltp_value" where
  "param_value buf p =
     (case p of Int_param f \<Rightarrow> V_int (ints buf f) | C_param \<Rightarrow> V_char (c_buf buf) | Pad_param \<Rightarrow> V_char (pad_buf buf)
      | Null_param \<Rightarrow> V_null)"

text \<open>
  \<open>bound\<close> is what the drivers know of a statement's bind variables; \<open>row_mismatches\<close> are the expected and
  received numbers of rows of the warnings.
\<close>

record 'w oltp_state =
  args :: oltp_args_t
  req_performed :: u32
  connections :: "nat option list"
  statements :: "oltp_stmt_set list"
  bind_bufs :: "oltp_bind_set list"
  reconnect_modes :: "reconnect_mode list"
  driver :: "'w db_driver option"
  driver_caps :: drv_caps
  read_ops :: u32
  write_ops :: u32
  other_ops :: u32
  transactions_done :: u32
  deadlocks :: u32
  rnd_seed :: u64
  oltp_rng :: "48 word"
  oltp_opts :: "option_t list"
  bound :: "nat \<Rightarrow> oltp_param list"
  row_mismatches :: "(u64 \<times> u64) list"
  oltp_db :: "'w db_state"

datatype oltp_fault = Db db_fault | Test test_fault | Endless_retry

text \<open>A call of the database layer.  The one driver in use has the address 0.\<close>

definition db_call :: "('w db_state \<Rightarrow> ('w, 'a) db_result) \<Rightarrow> 'w oltp_state \<Rightarrow> oltp_fault + 'a \<times> 'w oltp_state" where
  "db_call f s = (case f (oltp_db s) of Inl e \<Rightarrow> Inl (Db e) | Inr (x, d) \<Rightarrow> Inr (x, s\<lparr>oltp_db := d\<rparr>))"

definition drv :: "'w oltp_state \<Rightarrow> nat \<Rightarrow> 'w db_driver" where
  "drv s = (\<lambda>_. the (driver s))"

definition of_test :: "test_fault + 'a \<Rightarrow> oltp_fault + 'a" where
  "of_test r = map_sum Test id r"

section \<open>Random row ids\<close>

definition LARGE_PRIME :: u64 where "LARGE_PRIME = 2147483647"

definition rnd :: "'w oltp_state \<Rightarrow> nat \<times> 'w oltp_state" where
  "rnd s = (let (r, rng) = sb_rnd (oltp_rng s) in (r, s\<lparr>oltp_rng := rng\<rparr>))"

text \<open>\<open>1 + sb_rnd () % table_size\<close>, for a table that is not empty.\<close>

definition rnd_row :: "'w oltp_state \<Rightarrow> u32 \<times> 'w oltp_state" where
  "rnd_row s = (let (r, s) = rnd s in (of_nat (1 + r mod unat (table_size (args s))), s))"

definition rnd_func_uniform :: "'w oltp_state \<Rightarrow> oltp_fault + u32 \<times> 'w oltp_state" where
  "rnd_func_uniform s = (if table_size (args s) = 0 then Inl (Test Division_by_zero) else Inr (rnd_row s))"

primrec rnd_sum :: "nat \<Rightarrow> u32 \<Rightarrow> 'w oltp_state \<Rightarrow> u32 \<times> 'w oltp_state" where
  "rnd_sum 0 acc s = (acc, s)"
| "rnd_sum (Suc n) acc s = (let (r, s) = rnd_row s in rnd_sum n (acc + r) s)"

text \<open>The sum is a signed \<open>int\<close>, divided as an unsigned one.\<close>

definition rnd_func_gaussian :: "'w oltp_state \<Rightarrow> oltp_fault + u32 \<times> 'w oltp_state" where
  "rnd_func_gaussian s =
     (if dist_iter (args s) = 0 \<or> table_size (args s) = 0 then Inl (Test Division_by_zero)
      else let (acc, s) = rnd_sum (unat (dist_iter (args s))) 0 s in Inr (acc div dist_iter (args s), s))"

definition rnd_func_special :: "'w oltp_state \<Rightarrow> oltp_fault + u32 \<times> 'w oltp_state" where
  "rnd_func_special s =
     (let a = args s
      in if table_size a = 0 then Inr (0, s)
         else if 100 - dist_res a = 0 then Inl (Test Division_by_zero)
         else
           let size = table_size a * (100 div (100 - dist_res a))
           in if size = 0 then Inl (Test Division_by_zero)
              else
                let (r, s) = rnd s; res = of_nat (1 + r mod unat size)
                in if res \<le> table_size a then rnd_func_gaussian s
                   else
                     let d = table_size a * dist_pct a div 100;
                         d = (if d < 1 then 1 else d);
                         res = res mod d
                     in Inr (res + (table_size a div 2 - table_size a * dist_pct a div (100 * 2)), s))"

definition get_random_id :: "'w oltp_state \<Rightarrow> oltp_fault + u32 \<times> 'w oltp_state" where
  "get_random_id s =
     (case dist_type (args s) of
        DIST_TYPE_UNIFORM \<Rightarrow> rnd_func_uniform s
      | DIST_TYPE_GAUSSIAN \<Rightarrow> rnd_func_gaussian s
      | DIST_TYPE_SPECIAL \<Rightarrow> rnd_func_special s)"

definition get_unique_random_id :: "'w oltp_state \<Rightarrow> oltp_fault + u32 \<times> 'w oltp_state" where
  "get_unique_random_id s =
     (if table_size (args s) = 0 then Inl (Test Division_by_zero)
      else
        let res = ucast (rnd_seed s mod ucast (table_size (args s))) + 1
        in Inr (res, s\<lparr>rnd_seed := rnd_seed s + LARGE_PRIME\<rparr>))"

definition get_think_time :: "'w oltp_state \<Rightarrow> u32 \<times> 'w oltp_state" where
  "get_think_time s =
     (let t = user_delay_min (args s)
      in if user_delay_min (args s) < user_delay_max (args s) then
           let (r, s) = rnd s
           in (t + of_nat (r mod unat (user_delay_max (args s) - user_delay_min (args s))), s)
         else (t, s))"

section \<open>Requests\<close>

definition new_query :: "sb_sql_query_type \<Rightarrow> u32 \<Rightarrow> sb_sql_query" where
  "new_query ty t = \<lparr>q_type = ty, num_times = 1, think_time = t, nrows = 0, q_id = 0, q_to = 0\<rparr>"

definition add_reconnect_req :: "'w oltp_state \<Rightarrow> sb_sql_query \<times> 'w oltp_state" where
  "add_reconnect_req s = (let (t, s) = get_think_time s in (new_query SB_SQL_QUERY_RECONNECT t, s))"

definition reconnect_if :: "bool \<Rightarrow> 'w oltp_state \<Rightarrow> sb_sql_query list \<times> 'w oltp_state" where
  "reconnect_if b s = (if b then let (q, s) = add_reconnect_req s in ([q], s) else ([], s))"

text \<open>The end of the requests of one query: perhaps a reconnect, and the request is counted.\<close>

definition reconnect_wanted :: "'w oltp_state \<Rightarrow> bool \<times> 'w oltp_state" where
  "reconnect_wanted s =
     (case reconnect_mode (args s) of
        RECONNECT_QUERY \<Rightarrow> (True, s)
      | RECONNECT_RANDOM \<Rightarrow> (let (r, s) = rnd s in (r mod 2 \<noteq> 0, s))
      | _ \<Rightarrow> (False, s))"

definition sql_request :: "sb_sql_query list \<Rightarrow> sb_sql_query list sb_request" where
  "sql_request qs = \<lparr>req_type = SB_REQ_TYPE_SQL, req_data = qs\<rparr>"

definition finish_request ::
  "sb_sql_query \<Rightarrow> 'w oltp_state \<Rightarrow> sb_sql_query list sb_request \<times> 'w oltp_state" where
  "finish_request q s =
     (let (b, s) = reconnect_wanted s; (rs, s) = reconnect_if b s
      in (sql_request (q # rs), s\<lparr>req_performed := req_performed s + 1\<rparr>))"

definition get_request_sp :: "'w oltp_state \<Rightarrow> oltp_fault + sb_sql_query list sb_request \<times> 'w oltp_state" where
  "get_request_sp s = (let (t, s) = get_think_time s in Inr (finish_request (new_query SB_SQL_QUERY_CALL t) s))"

definition get_request_simple :: "'w oltp_state \<Rightarrow> oltp_fault + sb_sql_query list sb_request \<times> 'w oltp_state" where
  "get_request_simple s =
     (let (t, s) = get_think_time s
      in bind_res (get_random_id s) (\<lambda>(i, s).
           Inr (finish_request ((new_query SB_SQL_QUERY_POINT t)\<lparr>q_id := i, nrows := 1\<rparr>) s)))"

text \<open>Generators of queries, in sequence and repeated.\<close>

type_synonym 'w query_gen = "'w oltp_state \<Rightarrow> oltp_fault + sb_sql_query list \<times> 'w oltp_state"

primrec queries_all :: "'w query_gen list \<Rightarrow> 'w query_gen" where
  "queries_all [] s = Inr ([], s)"
| "queries_all (f # fs) s =
     bind_res (f s) (\<lambda>(qs, s). bind_res (queries_all fs s) (\<lambda>(rs, s). Inr (qs @ rs, s)))"

definition queries_times :: "u32 \<Rightarrow> 'w query_gen \<Rightarrow> 'w query_gen" where
  "queries_times n f = queries_all (replicate (unat n) f)"

definition id_query :: "sb_sql_query_type \<Rightarrow> u64 \<Rightarrow> reconnect_mode \<Rightarrow> 'w query_gen" where
  "id_query ty n rmode s =
     (let (t, s) = get_think_time s
      in bind_res (get_random_id s) (\<lambda>(i, s).
           let (rs, s) = reconnect_if (rmode = RECONNECT_QUERY) s
           in Inr ((new_query ty t)\<lparr>q_id := i, nrows := n\<rparr> # rs, s)))"

definition clip_range :: "oltp_args_t \<Rightarrow> u32 \<Rightarrow> u32" where
  "clip_range a r =
     (let r = (if r + range_size a > table_size a then table_size a - range_size a else r) in if r < 1 then 1 else r)"

definition range_query :: "sb_sql_query_type \<Rightarrow> u64 \<Rightarrow> u32 \<Rightarrow> reconnect_mode \<Rightarrow> 'w query_gen" where
  "range_query ty n width rmode s =
     (let (t, s) = get_think_time s
      in bind_res (get_random_id s) (\<lambda>(i, s).
           let r = clip_range (args s) i; (rs, s) = reconnect_if (rmode = RECONNECT_QUERY) s
           in Inr ((new_query ty t)\<lparr>q_id := r, q_to := r + width, nrows := n\<rparr> # rs, s)))"

text \<open>The update, the delete and the insert of one row.\<close>

definition same_row_queries :: "'w query_gen" where
  "same_row_queries s =
     (let (t, s) = get_think_time s
      in bind_res (get_random_id s) (\<lambda>(i, s).
           let (t', s) = get_think_time s; (t'', s) = get_think_time s
           in Inr ([(new_query SB_SQL_QUERY_UPDATE_INDEX t)\<lparr>q_id := i\<rparr>,
                    (new_query SB_SQL_QUERY_DELETE t')\<lparr>q_id := i\<rparr>,
                    (new_query SB_SQL_QUERY_INSERT t'')\<lparr>q_id := i\<rparr>], s)))"

definition random_mode :: "nat \<Rightarrow> reconnect_mode" where
  "random_mode r =
     (if r mod 3 = 0 then RECONNECT_SESSION else if r mod 3 = 1 then RECONNECT_QUERY else RECONNECT_TRANSACTION)"

definition complex_start :: "nat \<Rightarrow> 'w oltp_state \<Rightarrow> reconnect_mode \<times> sb_sql_query list \<times> 'w oltp_state" where
  "complex_start tid s =
     (if reconnect_mode (args s) = RECONNECT_RANDOM then
        let old = reconnect_modes s ! tid;
            (r, s) = rnd s;
            rmode = random_mode r;
            s = s\<lparr>reconnect_modes := (reconnect_modes s)[tid := rmode]\<rparr>;
            (rs, s) = reconnect_if (old = RECONNECT_SESSION \<and> rmode \<noteq> RECONNECT_SESSION) s
        in (rmode, rs, s)
      else (reconnect_mode (args s), [], s))"

definition begin_query :: "'w query_gen" where
  "begin_query s = Inr (if skip_trx (args s) then [] else [new_query SB_SQL_QUERY_LOCK 0], s)"

definition commit_query :: "reconnect_mode \<Rightarrow> 'w query_gen" where
  "commit_query rmode s =
     (if skip_trx (args s) then Inr ([], s)
      else let (rs, s) = reconnect_if (rmode = RECONNECT_TRANSACTION) s
           in Inr (new_query SB_SQL_QUERY_UNLOCK 0 # rs, s))"

definition read_queries :: "oltp_args_t \<Rightarrow> reconnect_mode \<Rightarrow> 'w query_gen list" where
  "read_queries a rmode =
     [queries_times (point_selects a) (id_query SB_SQL_QUERY_POINT 1 rmode),
      queries_times (simple_ranges a) (range_query SB_SQL_QUERY_RANGE (ucast (range_size a)) (range_size a - 1) rmode),
      queries_times (sum_ranges a) (range_query SB_SQL_QUERY_RANGE_SUM 1 (range_size a - 1) rmode),
      queries_times (order_ranges a)
        (range_query SB_SQL_QUERY_RANGE_ORDER (ucast (range_size a)) (range_size a - 1) rmode),
      queries_times (distinct_ranges a) (range_query SB_SQL_QUERY_RANGE_DISTINCT 0 (range_size a) rmode)]"

definition write_queries :: "oltp_args_t \<Rightarrow> reconnect_mode \<Rightarrow> 'w query_gen list" where
  "write_queries a rmode =
     (if read_only a then []
      else [queries_times (index_updates a) (id_query SB_SQL_QUERY_UPDATE_INDEX 0 rmode),
            queries_times (non_index_updates a) (id_query SB_SQL_QUERY_UPDATE_NON_INDEX 0 rmode),
            same_row_queries])"

definition get_request_complex ::
  "nat \<Rightarrow> 'w oltp_state \<Rightarrow> oltp_fault + sb_sql_query list sb_request \<times> 'w oltp_state" where
  "get_request_complex tid s =
     (let (rmode, rs, s) = complex_start tid s; a = args s
      in bind_res (queries_all (begin_query # read_queries a rmode @ write_queries a rmode @ [commit_query rmode]) s)
           (\<lambda>(qs, s). Inr (sql_request (rs @ qs), s\<lparr>req_performed := req_performed s + 1\<rparr>)))"

definition get_request_nontrx :: "'w oltp_state \<Rightarrow> oltp_fault + sb_sql_query list sb_request \<times> 'w oltp_state" where
  "get_request_nontrx s =
     (let (t, s) = get_think_time s
      in bind_res (if nontrx_mode (args s) = NONTRX_MODE_DELETE then get_unique_random_id s else get_random_id s)
           (\<lambda>(i, s).
              Inr (finish_request
                (case nontrx_mode (args s) of
                   NONTRX_MODE_SELECT \<Rightarrow> (new_query SB_SQL_QUERY_POINT t)\<lparr>q_id := i, nrows := 1\<rparr>
                 | NONTRX_MODE_UPDATE_KEY \<Rightarrow> (new_query SB_SQL_QUERY_UPDATE_INDEX t)\<lparr>q_id := i\<rparr>
                 | NONTRX_MODE_UPDATE_NOKEY \<Rightarrow> (new_query SB_SQL_QUERY_UPDATE_NON_INDEX t)\<lparr>q_id := i\<rparr>
                 | NONTRX_MODE_INSERT \<Rightarrow> (new_query SB_SQL_QUERY_INSERT t)\<lparr>q_id := i\<rparr>
                 | NONTRX_MODE_DELETE \<Rightarrow> (new_query SB_SQL_QUERY_DELETE t)\<lparr>q_id := i\<rparr>) s)))"

definition oltp_get_request ::
  "u32 \<Rightarrow> 'w oltp_state world \<Rightarrow> oltp_fault + sb_sql_query list sb_request \<times> 'w oltp_state world" where
  "oltp_get_request tid = (\<lambda>(g, s).
     if max_requests g > 0 \<and> req_performed s \<ge> max_requests g then
       Inr (\<lparr>req_type = SB_REQ_TYPE_NULL, req_data = []\<rparr>, g, s)
     else
       bind_res
         (case test_mode (args s) of
            TEST_MODE_SIMPLE \<Rightarrow> get_request_simple s
          | TEST_MODE_COMPLEX \<Rightarrow> get_request_complex (unat tid) s
          | TEST_MODE_NONTRX \<Rightarrow> get_request_nontrx s
          | TEST_MODE_SP \<Rightarrow> get_request_sp s)
         (\<lambda>(r, s). Inr (r, g, s)))"

section \<open>Prepared statements\<close>

text \<open>\<open>printf\<close> of a null pointer prints \<open>(null)\<close>; a query is cut to the length of its buffer.\<close>

definition cstr_text :: "cstr \<Rightarrow> string" where
  "cstr_text c = (case c of None \<Rightarrow> ''(null)'' | Some t \<Rightarrow> t)"

definition MAX_QUERY_LEN :: nat where "MAX_QUERY_LEN = 1024"

definition query_text :: "string \<Rightarrow> string" where
  "query_text t = fst (snprintf MAX_QUERY_LEN t)"

definition put_stmt :: "nat \<Rightarrow> stmt_slot \<Rightarrow> nat option \<Rightarrow> 'w oltp_state \<Rightarrow> 'w oltp_state" where
  "put_stmt tid slot st s = s\<lparr>statements := (statements s)[tid := (statements s ! tid)(slot := st)]\<rparr>"

definition bind_params :: "nat \<Rightarrow> oltp_param list \<Rightarrow> 'w oltp_state \<Rightarrow> (oltp_fault, 'w oltp_state) steps" where
  "bind_params st ps s =
     and_then (db_call (db_bind_param (drv s) st (length ps)) s) (\<lambda>s. check True (s\<lparr>bound := (bound s)(st := ps)\<rparr>))"

text \<open>A statement with no bind variables, or with ones that are bound later, is not bound here.\<close>

definition prepare_one ::
  "nat \<Rightarrow> nat \<Rightarrow> stmt_slot \<times> string \<times> oltp_param list \<Rightarrow> 'w oltp_state \<Rightarrow> (oltp_fault, 'w oltp_state) steps" where
  "prepare_one tid con = (\<lambda>(slot, text, ps) s.
     bind_res (db_call (db_prepare (drv s) con (query_text text)) s) (\<lambda>(st, s).
       let s = put_stmt tid slot st s
       in case st of
            None \<Rightarrow> check False s
          | Some st \<Rightarrow> if ps = [] then check True s else bind_params st ps s))"

primrec prepare_all ::
  "nat \<Rightarrow> nat \<Rightarrow> (stmt_slot \<times> string \<times> oltp_param list) list \<Rightarrow> 'w oltp_state \<Rightarrow> (oltp_fault, 'w oltp_state) steps" where
  "prepare_all tid con [] s = check True s"
| "prepare_all tid con (d # ds) s = and_then (prepare_one tid con d s) (prepare_all tid con ds)"

definition prepare_stmt_set_sp :: "nat \<Rightarrow> nat \<Rightarrow> 'w oltp_state \<Rightarrow> (oltp_fault, 'w oltp_state) steps" where
  "prepare_stmt_set_sp tid con s =
     prepare_one tid con
       (St_call, ''CALL '' @ cstr_text (sp_name (args s)) @ ''(?,?)'', [Int_param F_call_thread_id, Int_param F_call_nthreads]) s"

definition trx_statements :: "string \<Rightarrow> (stmt_slot \<times> string \<times> oltp_param list) list" where
  "trx_statements t =
     [(St_point, ''SELECT c from '' @ t @ '' where id=?'', [Int_param F_point_id]),
      (St_range, ''SELECT c from '' @ t @ '' where id between ? and ?'', [Int_param F_range_from, Int_param F_range_to]),
      (St_range_sum, ''SELECT SUM(K) from '' @ t @ '' where id between ? and ?'',
        [Int_param F_sum_from, Int_param F_sum_to]),
      (St_range_order, ''SELECT c from '' @ t @ '' where id between ? and ? order by c'',
        [Int_param F_order_from, Int_param F_order_to]),
      (St_range_distinct, ''SELECT DISTINCT c from '' @ t @ '' where id between ? and ? order by c'',
        [Int_param F_distinct_from, Int_param F_distinct_to]),
      (St_update_index, ''UPDATE '' @ t @ '' set k=k+1 where id=?'', [Int_param F_update_index_id]),
      (St_update_non_index, ''UPDATE '' @ t @ '' set c=? where id=?'', []),
      (St_delete, ''DELETE from '' @ t @ '' where id=?'', [Int_param F_delete_id]),
      (St_insert, ''INSERT INTO '' @ t @ '' values(?,0,'' @ quoted '' '' @ '','' @
          quoted ''aaaaaaaaaaffffffffffrrrrrrrrrreeeeeeeeeeyyyyyyyyyy'' @ '')'', [Int_param F_insert_id])]"

definition lock_statements :: "bool \<Rightarrow> bool \<Rightarrow> string \<Rightarrow> (stmt_slot \<times> string \<times> oltp_param list) list" where
  "lock_statements trx ro t =
     [(St_lock, if trx then ''BEGIN'' else ''LOCK TABLES '' @ t @ (if ro then '' READ'' else '' WRITE''), []),
      (St_unlock, if trx then ''COMMIT'' else ''UNLOCK TABLES'', [])]"

definition prepare_stmt_set_trx :: "nat \<Rightarrow> nat \<Rightarrow> 'w oltp_state \<Rightarrow> (oltp_fault, 'w oltp_state) steps" where
  "prepare_stmt_set_trx tid con s =
     (let a = args s; t = cstr_text (table_name a)
      in and_then (prepare_all tid con (trx_statements t) s) (\<lambda>s.
           if skip_trx a then check True s
           else prepare_all tid con (lock_statements (transactions (driver_caps s)) (read_only a) t) s))"

text \<open>The result of preparing the insert statement is not tested.\<close>

definition prepare_stmt_set_nontrx :: "nat \<Rightarrow> nat \<Rightarrow> 'w oltp_state \<Rightarrow> (oltp_fault, 'w oltp_state) steps" where
  "prepare_stmt_set_nontrx tid con s =
     (let t = cstr_text (table_name (args s))
      in and_then
           (prepare_all tid con
              [(St_point, ''SELECT pad from '' @ t @ '' where id=?'', [Int_param F_point_id]),
               (St_update_index, ''UPDATE '' @ t @ '' set k=k+1 where id=?'', [Int_param F_update_index_id]),
               (St_update_non_index, ''UPDATE '' @ t @ '' set c=? where id=?'', []),
               (St_delete, ''DELETE from '' @ t @ '' where id=?'', [Int_param F_delete_id])] s)
           (\<lambda>s. bind_res (db_call (db_prepare (drv s) con (query_text (''INSERT INTO '' @ t @ '' values(?,?,?,?)''))) s)
                  (\<lambda>(st, s). check True (put_stmt tid St_insert st s))))"

definition prepare_stmt_set :: "nat \<Rightarrow> nat \<Rightarrow> 'w oltp_state \<Rightarrow> (oltp_fault, 'w oltp_state) steps" where
  "prepare_stmt_set tid con s =
     (case test_mode (args s) of
        TEST_MODE_NONTRX \<Rightarrow> prepare_stmt_set_nontrx tid con s
      | TEST_MODE_COMPLEX \<Rightarrow> prepare_stmt_set_trx tid con s
      | TEST_MODE_SIMPLE \<Rightarrow> prepare_stmt_set_trx tid con s
      | TEST_MODE_SP \<Rightarrow> prepare_stmt_set_sp tid con s)"

definition all_slots :: "stmt_slot list" where
  "all_slots =
     [St_lock, St_unlock, St_point, St_call, St_range, St_range_sum, St_range_order, St_range_distinct,
      St_update_index, St_update_non_index, St_delete, St_insert]"

primrec close_slots :: "nat \<Rightarrow> stmt_slot list \<Rightarrow> 'w oltp_state \<Rightarrow> oltp_fault + 'w oltp_state" where
  "close_slots tid [] s = Inr s"
| "close_slots tid (x # xs) s =
     bind_res (db_call (db_close (drv s) ((statements s ! tid) x)) s) (\<lambda>(_, s). close_slots tid xs s)"

definition close_stmt_set :: "nat \<Rightarrow> 'w oltp_state \<Rightarrow> oltp_fault + 'w oltp_state" where
  "close_stmt_set tid s =
     bind_res (close_slots tid all_slots s) (\<lambda>s. Inr (s\<lparr>statements := (statements s)[tid := Map.empty]\<rparr>))"

section \<open>Connections\<close>

definition oltp_connect :: "'w oltp_state \<Rightarrow> nat option \<times> 'w oltp_state" where
  "oltp_connect s = (let (con, d) = db_connect (drv s) 0 (oltp_db s) in (con, s\<lparr>oltp_db := d\<rparr>))"

definition oltp_disconnect :: "nat option \<Rightarrow> 'w oltp_state \<Rightarrow> (oltp_fault, 'w oltp_state) steps" where
  "oltp_disconnect con s =
     (case con of None \<Rightarrow> Inl (Db NullDeref) | Some c \<Rightarrow> db_call (db_disconnect (drv s) c) s)"

definition oltp_reconnect :: "nat \<Rightarrow> 'w oltp_state \<Rightarrow> (oltp_fault, 'w oltp_state) steps" where
  "oltp_reconnect tid s =
     bind_res (close_stmt_set tid s) (\<lambda>s.
     bind_res (oltp_disconnect (connections s ! tid) s) (\<lambda>(rc, s).
       if rc \<noteq> 0 then check False s
       else
         let (con, s) = oltp_connect s;
             s = s\<lparr>connections := (connections s)[tid := con]\<rparr>
         in case con of
              None \<Rightarrow> check False s
            | Some c \<Rightarrow> bind_res (prepare_stmt_set tid c s) (\<lambda>(rc, s). check (rc = 0) s)))"

section \<open>The statement of a query\<close>

definition set_bufs :: "nat \<Rightarrow> (oltp_bind_set \<Rightarrow> oltp_bind_set) \<Rightarrow> 'w oltp_state \<Rightarrow> 'w oltp_state" where
  "set_bufs tid f s = s\<lparr>bind_bufs := (bind_bufs s)[tid := f (bind_bufs s ! tid)]\<rparr>"

definition set_int :: "bind_field \<Rightarrow> u32 \<Rightarrow> oltp_bind_set \<Rightarrow> oltp_bind_set" where
  "set_int f v b = b\<lparr>ints := (ints b)(f := v)\<rparr>"

text \<open>
  \<open>n\<close> random numbers with dashes between.  The order in which C evaluates the calls is not fixed; here
  it is the order of the text.
\<close>

fun random_text :: "nat \<Rightarrow> 'w oltp_state \<Rightarrow> string \<times> 'w oltp_state" where
  "random_text 0 s = ([], s)"
| "random_text (Suc 0) s = (let (r, s) = rnd s in (dec r, s))"
| "random_text (Suc n) s = (let (r, s) = rnd s; (t, s) = random_text n s in (dec r @ ''-'' @ t, s))"

text \<open>Binding the parameters of a statement that may be null, for a query.\<close>

definition bind_query ::
  "nat option \<Rightarrow> oltp_param list \<Rightarrow> 'w oltp_state \<Rightarrow> oltp_fault + nat option \<times> 'w oltp_state" where
  "bind_query st ps s =
     (case st of
        None \<Rightarrow> Inl (Db NullDeref)
      | Some st \<Rightarrow> bind_res (bind_params st ps s) (\<lambda>(rc, s). Inr (if rc \<noteq> 0 then None else Some st, s)))"

definition non_index_statement ::
  "sb_sql_query \<Rightarrow> nat \<Rightarrow> 'w oltp_state \<Rightarrow> oltp_fault + nat option \<times> 'w oltp_state" where
  "non_index_statement q tid s =
     (let (t, s) = random_text 10 s;
          s = set_bufs tid (\<lambda>b. set_int F_update_non_index_id (q_id q) (b\<lparr>c_buf := fst (snprintf 120 t)\<rparr>)) s
      in bind_query ((statements s ! tid) St_update_non_index) [C_param, Int_param F_update_non_index_id] s)"

definition get_sql_statement_sp ::
  "sb_globals \<Rightarrow> sb_sql_query \<Rightarrow> nat \<Rightarrow> 'w oltp_state \<Rightarrow> oltp_fault + nat option \<times> 'w oltp_state" where
  "get_sql_statement_sp g q tid s =
     Inr ((statements s ! tid) St_call,
          set_bufs tid (\<lambda>b. set_int F_call_nthreads (num_threads g) (set_int F_call_thread_id (of_nat tid) b)) s)"

definition get_sql_statement_trx ::
  "sb_sql_query \<Rightarrow> nat \<Rightarrow> 'w oltp_state \<Rightarrow> oltp_fault + nat option \<times> 'w oltp_state" where
  "get_sql_statement_trx q tid s =
     (let set = statements s ! tid;
          one = (\<lambda>slot f. Inr (set slot, set_bufs tid (set_int f (q_id q)) s));
          two = (\<lambda>slot f f'. Inr (set slot, set_bufs tid (\<lambda>b. set_int f' (q_to q) (set_int f (q_id q) b)) s))
      in case q_type q of
           SB_SQL_QUERY_LOCK \<Rightarrow> Inr (set St_lock, s)
         | SB_SQL_QUERY_UNLOCK \<Rightarrow> Inr (set St_unlock, s)
         | SB_SQL_QUERY_POINT \<Rightarrow> one St_point F_point_id
         | SB_SQL_QUERY_RANGE \<Rightarrow> two St_range F_range_from F_range_to
         | SB_SQL_QUERY_RANGE_SUM \<Rightarrow> two St_range_sum F_sum_from F_sum_to
         | SB_SQL_QUERY_RANGE_ORDER \<Rightarrow> two St_range_order F_order_from F_order_to
         | SB_SQL_QUERY_RANGE_DISTINCT \<Rightarrow> two St_range_distinct F_distinct_from F_distinct_to
         | SB_SQL_QUERY_UPDATE_INDEX \<Rightarrow> one St_update_index F_update_index_id
         | SB_SQL_QUERY_UPDATE_NON_INDEX \<Rightarrow> non_index_statement q tid s
         | SB_SQL_QUERY_DELETE \<Rightarrow> one St_delete F_delete_id
         | SB_SQL_QUERY_INSERT \<Rightarrow> one St_insert F_insert_id
         | _ \<Rightarrow> Inr (None, s))"

definition insert_statement ::
  "sb_sql_query \<Rightarrow> nat \<Rightarrow> 'w oltp_state \<Rightarrow> oltp_fault + nat option \<times> 'w oltp_state" where
  "insert_statement q tid s =
     (let s = set_bufs tid (set_int F_range_to (q_id q)) s;
          (c, s) = random_text 10 s; (p, s) = random_text 5 s;
          s = set_bufs tid (\<lambda>b. b\<lparr>c_buf := fst (snprintf 120 c), pad_buf := fst (snprintf 60 p)\<rparr>) s
      in bind_res
           (if auto_inc (args s) then Inr (Null_param, s)
            else bind_res (get_unique_random_id s) (\<lambda>(i, s). Inr (Int_param F_range_from, set_bufs tid (set_int F_range_from i) s)))
           (\<lambda>(p, s). bind_query ((statements s ! tid) St_insert) [p, Int_param F_range_to, C_param, Pad_param] s))"

definition get_sql_statement_nontrx ::
  "sb_sql_query \<Rightarrow> nat \<Rightarrow> 'w oltp_state \<Rightarrow> oltp_fault + nat option \<times> 'w oltp_state" where
  "get_sql_statement_nontrx q tid s =
     (let set = statements s ! tid;
          one = (\<lambda>slot f. Inr (set slot, set_bufs tid (set_int f (q_id q)) s))
      in case q_type q of
           SB_SQL_QUERY_POINT \<Rightarrow> one St_point F_point_id
         | SB_SQL_QUERY_UPDATE_INDEX \<Rightarrow> one St_update_index F_update_index_id
         | SB_SQL_QUERY_UPDATE_NON_INDEX \<Rightarrow> non_index_statement q tid s
         | SB_SQL_QUERY_DELETE \<Rightarrow> one St_delete F_delete_id
         | SB_SQL_QUERY_INSERT \<Rightarrow> insert_statement q tid s
         | _ \<Rightarrow> Inr (None, s))"

definition get_sql_statement ::
  "sb_globals \<Rightarrow> sb_sql_query \<Rightarrow> nat \<Rightarrow> 'w oltp_state \<Rightarrow> oltp_fault + nat option \<times> 'w oltp_state" where
  "get_sql_statement g q tid s =
     (case test_mode (args s) of
        TEST_MODE_NONTRX \<Rightarrow> get_sql_statement_nontrx q tid s
      | TEST_MODE_COMPLEX \<Rightarrow> get_sql_statement_trx q tid s
      | TEST_MODE_SIMPLE \<Rightarrow> get_sql_statement_trx q tid s
      | TEST_MODE_SP \<Rightarrow> get_sql_statement_sp g q tid s)"

section \<open>Executing a request\<close>

text \<open>
  How a query ends: executed, with a deadlock, or with an error that ends the request.  \<open>see\<close> is how the
  state of the drivers gets to know the values in the buffers of the bind variables.
\<close>

datatype query_end = Query_done | Query_deadlock | Query_error

definition is_select :: "sb_sql_query_type \<Rightarrow> bool" where
  "is_select ty \<longleftrightarrow>
     ty \<in> {SB_SQL_QUERY_POINT, SB_SQL_QUERY_CALL, SB_SQL_QUERY_RANGE, SB_SQL_QUERY_RANGE_SUM, SB_SQL_QUERY_RANGE_ORDER,
           SB_SQL_QUERY_RANGE_DISTINCT}"

definition bound_values :: "nat \<Rightarrow> nat \<Rightarrow> 'w oltp_state \<Rightarrow> oltp_value list" where
  "bound_values tid st s = map (param_value (bind_bufs s ! tid)) (bound s st)"

definition check_rows :: "sb_globals \<Rightarrow> sb_sql_query \<Rightarrow> nat \<Rightarrow> 'w oltp_state \<Rightarrow> oltp_fault + 'w oltp_state" where
  "check_rows g q rs s =
     (if validate g \<and> nrows q > 0 then
        bind_res (db_call (db_num_rows (drv s) rs) s) (\<lambda>(n, s).
          Inr (if n \<noteq> nrows q then s\<lparr>row_mismatches := row_mismatches s @ [(nrows q, n)]\<rparr> else s))
      else Inr s)"

definition free_results :: "nat \<Rightarrow> 'w oltp_state \<Rightarrow> oltp_fault + 'w oltp_state" where
  "free_results rs s = bind_res (db_call (db_free_results (drv s) rs) s) (\<lambda>(_, s). Inr s)"

text \<open>The results of an executed query; the code of a deadlock is 1.\<close>

definition fetch_results ::
  "sb_sql_query \<Rightarrow> nat \<Rightarrow> 'w oltp_state world \<Rightarrow> oltp_fault + query_end \<times> 'w oltp_state world" where
  "fetch_results q rs = (\<lambda>(g, s).
     if is_select (q_type q) then
       bind_res (db_call (db_store_results (drv s) rs) s) (\<lambda>(rc, s).
         if rc = 1 then bind_res (free_results rs s) (\<lambda>s. Inr (Query_deadlock, g, s))
         else if rc \<noteq> 0 then Inr (Query_error, g\<lparr>error := 1\<rparr>, s)
         else bind_res (check_rows g q rs s) (\<lambda>s. bind_res (free_results rs s) (\<lambda>s. Inr (Query_done, g, s))))
     else bind_res (free_results rs s) (\<lambda>s. Inr (Query_done, g, s)))"

definition conn_error :: "nat \<Rightarrow> 'w oltp_state \<Rightarrow> oltp_fault + db_error" where
  "conn_error tid s =
     (case connections s ! tid of
        None \<Rightarrow> Inl (Db NullDeref)
      | Some c \<Rightarrow> (case db_errno c (oltp_db s) of Inl e \<Rightarrow> Inl (Db e) | Inr rc \<Rightarrow> Inr rc))"

definition run_statement ::
  "(oltp_value list \<Rightarrow> 'w db_state \<Rightarrow> 'w db_state) \<Rightarrow> nat \<Rightarrow> sb_sql_query \<Rightarrow> nat \<Rightarrow> 'w oltp_state world \<Rightarrow>
   oltp_fault + query_end \<times> 'w oltp_state world" where
  "run_statement see tid q st = (\<lambda>(g, s).
     bind_res (db_call (\<lambda>d. db_execute (drv s) st (see (bound_values tid st s) d)) s) (\<lambda>(rs, s).
       case rs of
         None \<Rightarrow>
           bind_res (conn_error tid s) (\<lambda>rc.
             Inr (if rc \<noteq> SB_DB_ERROR_DEADLOCK then (Query_error, g\<lparr>error := 1\<rparr>, s) else (Query_deadlock, g, s)))
       | Some rs \<Rightarrow> fetch_results q rs (g, s)))"

text \<open>One execution of a query.\<close>

definition oltp_query ::
  "(oltp_value list \<Rightarrow> 'w db_state \<Rightarrow> 'w db_state) \<Rightarrow> nat \<Rightarrow> sb_sql_query \<Rightarrow> 'w oltp_state world \<Rightarrow>
   oltp_fault + query_end \<times> 'w oltp_state world" where
  "oltp_query see tid q = (\<lambda>(g, s).
     if q_type q = SB_SQL_QUERY_RECONNECT then
       bind_res (oltp_reconnect tid s) (\<lambda>(rc, s). Inr (if rc \<noteq> 0 then Query_error else Query_done, g, s))
     else
       bind_res (get_sql_statement g q tid s) (\<lambda>(st, s).
         case st of
           None \<Rightarrow> Inr (Query_error, g\<lparr>error := 1\<rparr>, s)
         | Some st \<Rightarrow> run_statement see tid q st (g, s)))"

primrec repeat_query ::
  "(oltp_value list \<Rightarrow> 'w db_state \<Rightarrow> 'w db_state) \<Rightarrow> nat \<Rightarrow> sb_sql_query \<Rightarrow> nat \<Rightarrow> 'w oltp_state world \<Rightarrow>
   oltp_fault + query_end \<times> 'w oltp_state world" where
  "repeat_query see tid q 0 w = Inr (Query_done, w)"
| "repeat_query see tid q (Suc n) w =
     bind_res (oltp_query see tid q w) (\<lambda>(e, w).
       if e = Query_done then repeat_query see tid q n w else Inr (e, w))"

text \<open>The local counters.\<close>

record op_counts =
  local_read_ops :: u32
  local_write_ops :: u32
  local_other_ops :: u32
  local_deadlocks :: u32

definition no_ops :: op_counts where
  "no_ops = \<lparr>local_read_ops = 0, local_write_ops = 0, local_other_ops = 0, local_deadlocks = 0\<rparr>"

definition is_read :: "sb_sql_query_type \<Rightarrow> bool" where
  "is_read ty \<longleftrightarrow>
     ty \<in> {SB_SQL_QUERY_POINT, SB_SQL_QUERY_RANGE, SB_SQL_QUERY_RANGE_SUM, SB_SQL_QUERY_RANGE_ORDER,
           SB_SQL_QUERY_RANGE_DISTINCT}"

definition is_write :: "sb_sql_query_type \<Rightarrow> bool" where
  "is_write ty \<longleftrightarrow>
     ty \<in> {SB_SQL_QUERY_UPDATE_INDEX, SB_SQL_QUERY_UPDATE_NON_INDEX, SB_SQL_QUERY_DELETE, SB_SQL_QUERY_INSERT}"

definition count_query :: "sb_sql_query \<Rightarrow> op_counts \<Rightarrow> op_counts" where
  "count_query q l =
     (if is_read (q_type q) then l\<lparr>local_read_ops := local_read_ops l + num_times q\<rparr>
      else if is_write (q_type q) then l\<lparr>local_write_ops := local_write_ops l + num_times q\<rparr>
      else l\<lparr>local_other_ops := local_other_ops l + num_times q\<rparr>)"

text \<open>One pass over the list of queries: a deadlock ends it after the query has been counted.\<close>

primrec oltp_pass ::
  "(oltp_value list \<Rightarrow> 'w db_state \<Rightarrow> 'w db_state) \<Rightarrow> nat \<Rightarrow> sb_sql_query list \<Rightarrow> op_counts \<Rightarrow> 'w oltp_state world \<Rightarrow>
   oltp_fault + query_end \<times> op_counts \<times> 'w oltp_state world" where
  "oltp_pass see tid [] l w = Inr (Query_done, l, w)"
| "oltp_pass see tid (q # qs) l w =
     bind_res (repeat_query see tid q (unat (num_times q)) w) (\<lambda>(e, w).
       case e of
         Query_error \<Rightarrow> Inr (Query_error, l, w)
       | Query_deadlock \<Rightarrow> Inr (Query_deadlock, count_query q (l\<lparr>local_deadlocks := local_deadlocks l + 1\<rparr>), w)
       | Query_done \<Rightarrow> oltp_pass see tid qs (count_query q l) w)"

text \<open>The passes, repeated while they end with a deadlock; \<open>None\<close> if there is no end.\<close>

partial_function (option) oltp_passes ::
  "(oltp_value list \<Rightarrow> 'w db_state \<Rightarrow> 'w db_state) \<Rightarrow> nat \<Rightarrow> sb_sql_query list \<Rightarrow> op_counts \<Rightarrow> 'w oltp_state world \<Rightarrow>
   (oltp_fault + query_end \<times> op_counts \<times> 'w oltp_state world) option" where
  "oltp_passes see tid qs l w =
     (case oltp_pass see tid qs l w of
        Inl e \<Rightarrow> Some (Inl e)
      | Inr r \<Rightarrow>
          if fst r = Query_deadlock then oltp_passes see tid qs (fst (snd r)) (snd (snd r)) else Some (Inr r))"

definition add_counts :: "op_counts \<Rightarrow> 'w oltp_state \<Rightarrow> 'w oltp_state" where
  "add_counts l s =
     s\<lparr>read_ops := read_ops s + local_read_ops l, write_ops := write_ops s + local_write_ops l,
       other_ops := other_ops s + local_other_ops l, transactions_done := transactions_done s + 1,
       deadlocks := deadlocks s + local_deadlocks l\<rparr>"

definition oltp_execute_request ::
  "(oltp_value list \<Rightarrow> 'w db_state \<Rightarrow> 'w db_state) \<Rightarrow> sb_sql_query list sb_request \<Rightarrow> u32 \<Rightarrow> 'w oltp_state world \<Rightarrow>
   (oltp_fault + int \<times> 'w oltp_state world) option" where
  "oltp_execute_request see req tid w =
     map_option
       (\<lambda>r. bind_res r (\<lambda>(e, l, g, s). Inr (if e = Query_error then (1, g, s) else (0, g, add_counts l s))))
       (oltp_passes see (unat tid) (req_data req) no_ops w)"

section \<open>Options\<close>

definition parse_oltp_mode :: "string \<Rightarrow> oltp_mode option" where
  "parse_oltp_mode m =
     (if m = ''simple'' then Some TEST_MODE_SIMPLE else if m = ''complex'' then Some TEST_MODE_COMPLEX
      else if m = ''nontrx'' then Some TEST_MODE_NONTRX else if m = ''sp'' then Some TEST_MODE_SP else None)"

definition parse_reconnect_mode :: "string \<Rightarrow> reconnect_mode option" where
  "parse_reconnect_mode m =
     (if strcaseeq m ''session'' then Some RECONNECT_SESSION else if strcaseeq m ''query'' then Some RECONNECT_QUERY
      else if strcaseeq m ''transaction'' then Some RECONNECT_TRANSACTION
      else if strcaseeq m ''random'' then Some RECONNECT_RANDOM else None)"

definition parse_nontrx_mode :: "string \<Rightarrow> nontrx_mode option" where
  "parse_nontrx_mode m =
     (if m = ''select'' then Some NONTRX_MODE_SELECT else if m = ''update_key'' then Some NONTRX_MODE_UPDATE_KEY
      else if m = ''update_nokey'' then Some NONTRX_MODE_UPDATE_NOKEY else if m = ''insert'' then Some NONTRX_MODE_INSERT
      else if m = ''delete'' then Some NONTRX_MODE_DELETE else None)"

definition parse_dist :: "string \<Rightarrow> oltp_dist option" where
  "parse_dist m =
     (if m = ''uniform'' then Some DIST_TYPE_UNIFORM else if m = ''gaussian'' then Some DIST_TYPE_GAUSSIAN
      else if m = ''special'' then Some DIST_TYPE_SPECIAL else None)"

definition set_args :: "(oltp_args_t \<Rightarrow> oltp_args_t) \<Rightarrow> 'w oltp_state \<Rightarrow> 'w oltp_state" where
  "set_args f s = s\<lparr>args := f (args s)\<rparr>"

text \<open>A named value must be known, a number must be one; \<open>f\<close> stores it.\<close>

definition parse_named ::
  "string \<Rightarrow> (string \<Rightarrow> 'a option) \<Rightarrow> ('a \<Rightarrow> oltp_args_t \<Rightarrow> oltp_args_t) \<Rightarrow> 'w oltp_state \<Rightarrow>
   (oltp_fault, 'w oltp_state) steps" where
  "parse_named name p f s =
     bind_res (of_test (opt_string name (oltp_opts s))) (\<lambda>v.
       case p v of None \<Rightarrow> check False s | Some m \<Rightarrow> check True (set_args (f m) s))"

definition parse_number ::
  "string \<times> (u32 \<Rightarrow> oltp_args_t \<Rightarrow> oltp_args_t) \<Rightarrow> 'w oltp_state \<Rightarrow> (oltp_fault, 'w oltp_state) steps" where
  "parse_number = (\<lambda>(name, f) s.
     bind_res (of_test (opt_u32 name (oltp_opts s))) (\<lambda>v. check True (set_args (f v) s)))"

primrec steps_all :: "('s \<Rightarrow> ('e, 's) steps) list \<Rightarrow> 's \<Rightarrow> ('e, 's) steps" where
  "steps_all [] s = check True s"
| "steps_all (f # fs) s = and_then (f s) (steps_all fs)"

definition parse_sp_name :: "'w oltp_state \<Rightarrow> (oltp_fault, 'w oltp_state) steps" where
  "parse_sp_name s =
     (let s = set_args (\<lambda>a. a\<lparr>sp_name := sb_get_value_string ''oltp-sp-name'' (oltp_opts s)\<rparr>) s
      in check (\<not> (test_mode (args s) = TEST_MODE_SP \<and> sp_name (args s) = None)) s)"

definition parse_oltp_flags :: "'w oltp_state \<Rightarrow> (oltp_fault, 'w oltp_state) steps" where
  "parse_oltp_flags s =
     check True (set_args (\<lambda>a. a\<lparr>read_only := sb_get_value_flag ''oltp-read-only'' (oltp_opts s),
       skip_trx := sb_get_value_flag ''oltp-skip-trx'' (oltp_opts s),
       auto_inc := sb_get_value_flag ''oltp-auto-inc'' (oltp_opts s)\<rparr>) s)"

definition parse_table_name :: "'w oltp_state \<Rightarrow> (oltp_fault, 'w oltp_state) steps" where
  "parse_table_name s =
     check True (set_args (\<lambda>a. a\<lparr>table_name := sb_get_value_string ''oltp-table-name'' (oltp_opts s)\<rparr>) s)"

definition select_driver ::
  "'w db_driver list \<Rightarrow> sb_globals \<Rightarrow> 'w oltp_state \<Rightarrow> (oltp_fault, 'w oltp_state) steps" where
  "select_driver drivers g s =
     bind_res (db_call (db_init None drivers (oltp_opts s) (of_bool (debug g))) s) (\<lambda>(d, s).
       check (d \<noteq> None) (s\<lparr>driver := d\<rparr>))"

definition parse_oltp_arguments ::
  "'w db_driver list \<Rightarrow> 'w oltp_state world \<Rightarrow> (oltp_fault, 'w oltp_state) steps" where
  "parse_oltp_arguments drivers = (\<lambda>(g, s).
     steps_all
       ([parse_named ''oltp-test-mode'' parse_oltp_mode (\<lambda>m a. a\<lparr>test_mode := m\<rparr>),
         parse_named ''oltp-reconnect-mode'' parse_reconnect_mode (\<lambda>m a. a\<lparr>reconnect_mode := m\<rparr>),
         parse_sp_name,
         parse_oltp_flags] @
        map parse_number
          [(''oltp-range-size'', \<lambda>v a. a\<lparr>range_size := v\<rparr>),
           (''oltp-point-selects'', \<lambda>v a. a\<lparr>point_selects := v\<rparr>),
           (''oltp-simple-ranges'', \<lambda>v a. a\<lparr>simple_ranges := v\<rparr>),
           (''oltp-sum-ranges'', \<lambda>v a. a\<lparr>sum_ranges := v\<rparr>),
           (''oltp-order-ranges'', \<lambda>v a. a\<lparr>order_ranges := v\<rparr>),
           (''oltp-distinct-ranges'', \<lambda>v a. a\<lparr>distinct_ranges := v\<rparr>),
           (''oltp-index-updates'', \<lambda>v a. a\<lparr>index_updates := v\<rparr>),
           (''oltp-non-index-updates'', \<lambda>v a. a\<lparr>non_index_updates := v\<rparr>)] @
        [parse_named ''oltp-nontrx-mode'' parse_nontrx_mode (\<lambda>m a. a\<lparr>nontrx_mode := m\<rparr>)] @
        map parse_number
          [(''oltp-connect-delay'', \<lambda>v a. a\<lparr>connect_delay := v\<rparr>),
           (''oltp-user-delay-min'', \<lambda>v a. a\<lparr>user_delay_min := v\<rparr>),
           (''oltp-user-delay-max'', \<lambda>v a. a\<lparr>user_delay_max := v\<rparr>)] @
        [parse_table_name,
         parse_number (''oltp-table-size'', \<lambda>v a. a\<lparr>table_size := v\<rparr>),
         parse_named ''oltp-dist-type'' parse_dist (\<lambda>m a. a\<lparr>dist_type := m\<rparr>)] @
        map parse_number
          [(''oltp-dist-iter'', \<lambda>v a. a\<lparr>dist_iter := v\<rparr>),
           (''oltp-dist-pct'', \<lambda>v a. a\<lparr>dist_pct := v\<rparr>),
           (''oltp-dist-res'', \<lambda>v a. a\<lparr>dist_res := v\<rparr>)] @
        [select_driver drivers g]) s)"

section \<open>Start and end of the test\<close>

text \<open>The capabilities of the driver; no table is the empty name.\<close>

definition describe_db :: "string \<Rightarrow> 'w oltp_state \<Rightarrow> (oltp_fault, 'w oltp_state) steps" where
  "describe_db t s =
     (let (rc, caps, d) = db_describe (drv s 0) (driver_caps s) t (oltp_db s)
      in check (rc = 0) (s\<lparr>driver_caps := caps, oltp_db := d\<rparr>))"

text \<open>A query whose failure ends the function.\<close>

definition must_query :: "nat \<Rightarrow> string \<Rightarrow> 'w oltp_state \<Rightarrow> (oltp_fault, 'w oltp_state) steps" where
  "must_query c t s = bind_res (db_call (db_query (drv s) c t) s) (\<lambda>(rs, s). check (rs \<noteq> None) s)"

definition connect_then ::
  "(nat \<Rightarrow> 'w oltp_state \<Rightarrow> (oltp_fault, 'w oltp_state) steps) \<Rightarrow> 'w oltp_state \<Rightarrow> (oltp_fault, 'w oltp_state) steps" where
  "connect_then f s = (let (con, s) = oltp_connect s in case con of None \<Rightarrow> check False s | Some c \<Rightarrow> f c s)"

definition truncate_table :: "'w oltp_state \<Rightarrow> (oltp_fault, 'w oltp_state) steps" where
  "truncate_table s =
     (if test_mode (args s) = TEST_MODE_NONTRX \<and> nontrx_mode (args s) = NONTRX_MODE_INSERT then
        connect_then (\<lambda>c s.
          and_then (must_query c (query_text (''TRUNCATE TABLE '' @ cstr_text (table_name (args s)))) s) (\<lambda>s.
            bind_res (oltp_disconnect (Some c) s) (\<lambda>(_, s). check True s))) s
      else check True s)"

text \<open>The pool is allocated with undefined contents, here null pointers.\<close>

primrec connect_threads :: "nat list \<Rightarrow> 'w oltp_state \<Rightarrow> (oltp_fault, 'w oltp_state) steps" where
  "connect_threads [] s = check True s"
| "connect_threads (i # is) s =
     (let (con, s) = oltp_connect s; s = s\<lparr>connections := (connections s)[i := con]\<rparr>
      in and_then (check (con \<noteq> None) s) (connect_threads is))"

primrec prepare_threads :: "nat list \<Rightarrow> 'w oltp_state \<Rightarrow> (oltp_fault, 'w oltp_state) steps" where
  "prepare_threads [] s = check True s"
| "prepare_threads (i # is) s =
     (case connections s ! i of
        None \<Rightarrow> Inl (Db NullDeref)
      | Some c \<Rightarrow>
          bind_res (prepare_stmt_set i c s) (\<lambda>(rc, s). and_then (check (rc = 0) s) (prepare_threads is)))"

definition zero_bufs :: oltp_bind_set where
  "zero_bufs = \<lparr>ints = (\<lambda>_. 0), c_buf = [], pad_buf = []\<rparr>"

definition oltp_init :: "'w db_driver list \<Rightarrow> 'w oltp_state world \<Rightarrow> (oltp_fault, 'w oltp_state) steps" where
  "oltp_init drivers = (\<lambda>(g, s).
     let n = unat (num_threads g)
     in and_then (parse_oltp_arguments drivers (g, s)) (\<lambda>s.
        and_then (describe_db (cstr_text (table_name (args s))) s) (\<lambda>s.
        and_then (truncate_table s) (\<lambda>s.
        and_then (connect_threads [0..<n] (s\<lparr>connections := replicate n None\<rparr>)) (\<lambda>s.
        and_then (prepare_threads [0..<n] (s\<lparr>statements := replicate n Map.empty, bind_bufs := replicate n zero_bufs\<rparr>)) (\<lambda>s.
          let s = s\<lparr>reconnect_modes := replicate n RECONNECT_SESSION\<rparr>
          in check True (if test_mode (args s) = TEST_MODE_NONTRX then s\<lparr>rnd_seed := LARGE_PRIME\<rparr> else s)))))))"

primrec close_threads :: "nat list \<Rightarrow> 'w oltp_state \<Rightarrow> (oltp_fault, 'w oltp_state) steps" where
  "close_threads [] s = check True s"
| "close_threads (i # is) s =
     bind_res (close_stmt_set i s) (\<lambda>s. bind_res (oltp_disconnect (connections s ! i) s) (\<lambda>(_, s). close_threads is s))"

definition oltp_done :: "'w oltp_state world \<Rightarrow> (oltp_fault, 'w oltp_state) steps" where
  "oltp_done = (\<lambda>(g, s).
     and_then (close_threads [0..<unat (num_threads g)] s) (\<lambda>s.
       check True (s\<lparr>connections := [], statements := [], bind_bufs := []\<rparr>)))"

section \<open>The test table\<close>

definition INSERT_ROWS :: u64 where "INSERT_ROWS = 10000"

definition ROWS_BEFORE_COMMIT :: u64 where "ROWS_BEFORE_COMMIT = 1000"

text \<open>The values of the row with the number \<open>i\<close>, counted from 1; the conversion \<open>%d\<close> reads it as signed.\<close>

definition row_values :: "oltp_args_t \<Rightarrow> u32 \<Rightarrow> string" where
  "row_values a i =
     (let pad = quoted '' '' @ '','' @ quoted ''qqqqqqqqqqwwwwwwwwwweeeeeeeeeerrrrrrrrrrtttttttttt''
      in fst (snprintf MAX_QUERY_LEN
           (if auto_inc a then ''(0,'' @ pad @ '')'' else ''('' @ show_u32 i @ '',0,'' @ pad @ '')'')))"

text \<open>
  The rows of one insert, appended to the query: row \<open>j\<close> of the batch that starts at \<open>i\<close>.  \<open>None\<close> if the
  query gets too long.
\<close>

function add_rows :: "oltp_args_t \<Rightarrow> nat \<Rightarrow> nat \<Rightarrow> u32 \<Rightarrow> nat \<Rightarrow> string \<Rightarrow> string option" where
  "add_rows a len n i j q =
     (if j < n then
        if length q \<ge> len then None
        else
          let last_row = (i + of_nat j = table_size a - 1);
              row = row_values a (i + of_nat j + 1) @ (if j = n - 1 \<or> last_row then [] else '','')
          in if length row \<ge> len - length q then None
             else if last_row then Some (q @ row)
             else add_rows a len n i (j + 1) (q @ row)
      else Some q)"
  by pat_completeness auto

termination by (relation "measure (\<lambda>(a, len, n, i, j, q). n - j)") auto

declare add_rows.simps [simp del]

definition insert_header :: "oltp_args_t \<Rightarrow> string" where
  "insert_header a =
     ''INSERT INTO '' @ cstr_text (table_name a) @ (if auto_inc a then ''(k, c, pad) VALUES '' else ''(id, k, c, pad) VALUES '')"

definition insert_query :: "oltp_args_t \<Rightarrow> nat \<Rightarrow> nat \<Rightarrow> u32 \<Rightarrow> string option" where
  "insert_query a len n i =
     (if length (insert_header a) \<ge> len then None else add_rows a len n i 0 (insert_header a))"

text \<open>The commits between the batches, and the rows counted since.\<close>

definition commit_rows :: "nat \<Rightarrow> u64 \<Rightarrow> 'w oltp_state \<Rightarrow> (oltp_fault, 'w oltp_state) steps" where
  "commit_rows c cnt s =
     (if needs_commit (driver_caps s) \<and> cnt \<ge> ROWS_BEFORE_COMMIT then must_query c ''COMMIT'' s else check True s)"

definition rest_rows :: "u64 \<Rightarrow> u64" where
  "rest_rows cnt = (if cnt \<ge> ROWS_BEFORE_COMMIT then cnt - ROWS_BEFORE_COMMIT else cnt)"

text \<open>The loop over the batches; \<open>i\<close> wraps around, and \<open>None\<close> is a loop without end.\<close>

partial_function (option) fill_table ::
  "nat \<Rightarrow> nat \<Rightarrow> u64 \<Rightarrow> u32 \<Rightarrow> u64 \<Rightarrow> 'w oltp_state \<Rightarrow> (oltp_fault, 'w oltp_state) steps option" where
  "fill_table c len n i cnt s =
     (if i < table_size (args s) then
        case insert_query (args s) len (unat n) i of
          None \<Rightarrow> Some (check False s)
        | Some q \<Rightarrow>
            (case and_then (must_query c q s) (commit_rows c (cnt + n)) of
               Inl e \<Rightarrow> Some (Inl e)
             | Inr r \<Rightarrow> if fst r \<noteq> 0 then Some (Inr r) else fill_table c len n (i + ucast n) (rest_rows (cnt + n)) (snd r))
      else Some (check True s))"

definition create_table_text :: "oltp_args_t \<Rightarrow> drv_caps \<Rightarrow> string" where
  "create_table_text a caps =
     (let uns = (if unsigned_int caps then ''UNSIGNED'' else [])
      in ''CREATE TABLE '' @ cstr_text (table_name a) @ '' (id '' @
         (if auto_inc a \<and> serial caps then ''SERIAL'' else ''INTEGER'') @ '' '' @ uns @ '' NOT NULL '' @
         (if auto_inc a \<and> auto_increment caps then ''AUTO_INCREMENT'' else []) @ '', k integer '' @ uns @
         '' DEFAULT '' @ quoted ''0'' @ '' NOT NULL, c char(120) DEFAULT '' @ quoted [] @
         '' NOT NULL, pad char(60) DEFAULT '' @ quoted [] @ '' NOT NULL, PRIMARY KEY  (id) ) '' @
         (case table_options_str caps of None \<Rightarrow> [] | Some t \<Rightarrow> t))"

definition create_sequence :: "nat \<Rightarrow> 'w oltp_state \<Rightarrow> (oltp_fault, 'w oltp_state) steps" where
  "create_sequence c s =
     (let caps = driver_caps s
      in if auto_inc (args s) \<and> \<not> serial caps \<and> \<not> auto_increment caps then
           and_then (must_query c ''CREATE SEQUENCE sbtest_seq'' s)
             (must_query c (''CREATE TRIGGER sbtest_trig BEFORE INSERT ON sbtest FOR EACH ROW BEGIN SELECT sbtest_seq.nextval '' @
                ''INTO :new.id FROM DUAL; END;''))
         else check True s)"

text \<open>The length of the query buffer.\<close>

definition query_len :: "oltp_args_t \<Rightarrow> u64 \<Rightarrow> nat" where
  "query_len a n = unat (of_nat (MAX_QUERY_LEN + unat n * (length (row_values a (table_size a)) + 1)) :: u32)"

definition create_tables :: "nat \<Rightarrow> u64 \<Rightarrow> 'w oltp_state \<Rightarrow> (oltp_fault, 'w oltp_state) steps option" where
  "create_tables c n s =
     (let len = query_len (args s) n; text = (\<lambda>t. fst (snprintf len t))
      in case and_then (must_query c (text (create_table_text (args s) (driver_caps s))) s) (\<lambda>s.
              and_then (create_sequence c s)
                (must_query c (text (''CREATE INDEX k on '' @ cstr_text (table_name (args s)) @ ''(k)'')))) of
           Inl e \<Rightarrow> Some (Inl e)
         | Inr (rc, s) \<Rightarrow> if rc \<noteq> 0 then Some (Inr (rc, s)) else fill_table c len n 0 0 s)"

text \<open>The last commit is tried twice; then the connection stays open.\<close>

definition last_commit :: "nat \<Rightarrow> 'w oltp_state \<Rightarrow> (oltp_fault, 'w oltp_state) steps" where
  "last_commit c s =
     (if needs_commit (driver_caps s) then
        bind_res (must_query c ''COMMIT'' s) (\<lambda>(rc, s). if rc \<noteq> 0 then must_query c ''COMMIT'' s else check True s)
      else check True s)"

definition disconnect_with :: "int \<Rightarrow> nat \<Rightarrow> 'w oltp_state \<Rightarrow> (oltp_fault, 'w oltp_state) steps" where
  "disconnect_with rc c s = bind_res (oltp_disconnect (Some c) s) (\<lambda>(_, s). Inr (rc, s))"

definition oltp_cmd_prepare ::
  "'w db_driver list \<Rightarrow> 'w oltp_state world \<Rightarrow> (oltp_fault, 'w oltp_state) steps option" where
  "oltp_cmd_prepare drivers = (\<lambda>(g, s).
     case and_then (parse_oltp_arguments drivers (g, s)) (describe_db []) of
       Inl e \<Rightarrow> Some (Inl e)
     | Inr (rc, s) \<Rightarrow>
         if rc \<noteq> 0 then Some (Inr (rc, s))
         else
           (case oltp_connect s of
              (None, s) \<Rightarrow> Some (check False s)
            | (Some c, s) \<Rightarrow>
                map_option
                  (\<lambda>r. bind_res r (\<lambda>(rc, s).
                     if rc \<noteq> 0 then disconnect_with 1 c s else and_then (last_commit c s) (disconnect_with 0 c)))
                  (create_tables c (if multi_rows_insert (driver_caps s) then INSERT_ROWS else 1) s)))"

definition oltp_cmd_cleanup :: "'w db_driver list \<Rightarrow> 'w oltp_state world \<Rightarrow> (oltp_fault, 'w oltp_state) steps" where
  "oltp_cmd_cleanup drivers = (\<lambda>(g, s).
     and_then (parse_oltp_arguments drivers (g, s)) (\<lambda>s.
     and_then (describe_db [] s) (\<lambda>s.
       connect_then (\<lambda>c s.
         bind_res (must_query c (fst (snprintf 256 (''DROP TABLE '' @ cstr_text (table_name (args s))))) s)
           (\<lambda>(rc, s). disconnect_with rc c s)) s)))"

section \<open>The assembled test\<close>

definition oltp_arg :: "string \<Rightarrow> string \<Rightarrow> sb_arg_type \<Rightarrow> string \<Rightarrow> sb_arg" where
  "oltp_arg name desc ty v = \<lparr>arg_name = ''oltp-'' @ name, arg_desc = desc, arg_type = ty, arg_value = Some v\<rparr>"

definition oltp_args :: "sb_arg list" where
  "oltp_args =
     [oltp_arg ''test-mode'' ''test type to use {simple,complex,nontrx,sp}'' SB_ARG_TYPE_STRING ''complex'',
      oltp_arg ''reconnect-mode'' ''reconnect mode {session,transaction,query,random}'' SB_ARG_TYPE_STRING ''session'',
      oltp_arg ''sp-name'' ''name of store procedure to call in SP test mode'' SB_ARG_TYPE_STRING [],
      oltp_arg ''read-only'' (''generate only '' @ quoted ''read'' @ '' queries (do not modify database)'') SB_ARG_TYPE_FLAG ''off'',
      oltp_arg ''skip-trx'' ''skip BEGIN/COMMIT statements'' SB_ARG_TYPE_FLAG ''off'',
      oltp_arg ''range-size'' ''range size for range queries'' SB_ARG_TYPE_INT ''100'',
      oltp_arg ''point-selects'' ''number of point selects'' SB_ARG_TYPE_INT ''10'',
      oltp_arg ''simple-ranges'' ''number of simple ranges'' SB_ARG_TYPE_INT ''1'',
      oltp_arg ''sum-ranges'' ''number of sum ranges'' SB_ARG_TYPE_INT ''1'',
      oltp_arg ''order-ranges'' ''number of ordered ranges'' SB_ARG_TYPE_INT ''1'',
      oltp_arg ''distinct-ranges'' ''number of distinct ranges'' SB_ARG_TYPE_INT ''1'',
      oltp_arg ''index-updates'' ''number of index update'' SB_ARG_TYPE_INT ''1'',
      oltp_arg ''non-index-updates'' ''number of non-index updates'' SB_ARG_TYPE_INT ''1'',
      oltp_arg ''nontrx-mode'' ''mode for non-transactional test {select, update_key, update_nokey, insert, delete}''
        SB_ARG_TYPE_STRING ''select'',
      oltp_arg ''auto-inc'' ''whether AUTO_INCREMENT (or equivalent) should be used on id column'' SB_ARG_TYPE_FLAG ''on'',
      oltp_arg ''connect-delay'' ''time in microseconds to sleep after connection to database'' SB_ARG_TYPE_INT ''10000'',
      oltp_arg ''user-delay-min'' ''minimum time in microseconds to sleep after each request'' SB_ARG_TYPE_INT ''0'',
      oltp_arg ''user-delay-max'' ''maximum time in microseconds to sleep after each request'' SB_ARG_TYPE_INT ''0'',
      oltp_arg ''table-name'' ''name of test table'' SB_ARG_TYPE_STRING ''sbtest'',
      oltp_arg ''table-size'' ''number of records in test table'' SB_ARG_TYPE_INT ''10000'',
      oltp_arg ''dist-type'' ''random numbers distribution {uniform,gaussian,special}'' SB_ARG_TYPE_STRING ''special'',
      oltp_arg ''dist-iter'' ''number of iterations used for numbers generation'' SB_ARG_TYPE_INT ''12'',
      oltp_arg ''dist-pct'' (''percentage of values to be treated as '' @ quoted ''special'' @ '' (for special distribution)'')
        SB_ARG_TYPE_INT ''1'',
      oltp_arg ''dist-res'' (''percentage of '' @ quoted ''special'' @ '' values to use (for special distribution)'')
        SB_ARG_TYPE_INT ''75'']"

text \<open>A function that need not return, as one that may fault.\<close>

definition ending :: "(oltp_fault + 'a) option \<Rightarrow> oltp_fault + 'a" where
  "ending r = (case r of None \<Rightarrow> Inl Endless_retry | Some r \<Rightarrow> r)"

definition faulty_exec ::
  "('r \<Rightarrow> u32 \<Rightarrow> 's world \<Rightarrow> 'e + int \<times> 's world) \<Rightarrow> 'r \<Rightarrow> u32 \<Rightarrow> ('e option \<times> 's) world \<Rightarrow> int \<times> ('e option \<times> 's) world" where
  "faulty_exec f r tid = (\<lambda>(g, _, s). case f r tid (g, s) of Inl e \<Rightarrow> (1, g, Some e, s) | Inr (rc, g, s) \<Rightarrow> (rc, g, None, s))"

definition oltp_test ::
  "(oltp_value list \<Rightarrow> 'w db_state \<Rightarrow> 'w db_state) \<Rightarrow> 'w db_driver list \<Rightarrow>
   (oltp_fault option \<times> 'w oltp_state, sb_sql_query list) sb_test" where
  "oltp_test see drivers =
     \<lparr>test_sname = ''oltp'', test_lname = ''OLTP test'',
      test_ops =
        \<lparr>t_init = Some (faulty_op (oltp_init drivers)), t_prepare = None, t_thread_init = None, t_print_mode = Some id,
         t_get_request = Some (faulty_get oltp_get_request []),
         t_execute_request = Some (faulty_exec (\<lambda>r tid w. ending (oltp_execute_request see r tid w))),
         t_print_stats = Some id, t_thread_done = None, t_cleanup = None, t_done = Some (faulty_op oltp_done)\<rparr>,
      test_cmds =
        \<lparr>cmd_help = Some (\<lambda>w. (0, w)),
         cmd_prepare = Some (faulty_op (\<lambda>w. ending (oltp_cmd_prepare drivers w))), cmd_run = None,
         cmd_cleanup = Some (faulty_op (oltp_cmd_cleanup drivers))\<rparr>,
      test_args = Some oltp_args\<rparr>"

text \<open>Registration: the options of the database layer come first.\<close>

definition register_test_oltp ::
  "(oltp_value list \<Rightarrow> 'w db_state \<Rightarrow> 'w db_state) \<Rightarrow> 'w db_driver list \<Rightarrow> option_t list \<Rightarrow>
   (oltp_fault option \<times> 'w oltp_state, sb_sql_query list) sb_test list \<Rightarrow>
   option_t list \<times> (oltp_fault option \<times> 'w oltp_state, sb_sql_query list) sb_test list" where
  "register_test_oltp see drivers opts tests = (db_register drivers opts, tests @ [oltp_test see drivers])"

end
