(* ===== verification/SbOltpGen.thy ===== *)
theory SbOltpGen
  imports SbOltp
begin

text \<open>
  The requests of the OLTP test: the ids that the three distributions draw, the unique ids, and the
  shape of a request of the complex mode.
\<close>

section \<open>Only the random numbers change\<close>

definition same_but_rng :: "'w oltp_state \<Rightarrow> 'w oltp_state \<Rightarrow> bool" where
  "same_but_rng s s' \<longleftrightarrow> (\<exists>rng. s' = s\<lparr>oltp_rng := rng\<rparr>)"

lemma same_but_rng_refl [simp]: "same_but_rng s s"
  unfolding same_but_rng_def by (rule exI [of _ "oltp_rng s"]) simp

lemma same_but_rng_trans [trans]: "same_but_rng s s' \<Longrightarrow> same_but_rng s' s'' \<Longrightarrow> same_but_rng s s''"
  by (auto simp: same_but_rng_def)

lemma same_but_rng_args: "same_but_rng s s' \<Longrightarrow> args s' = args s"
  by (auto simp: same_but_rng_def)

lemma rnd_same: "rnd s = (r, s') \<Longrightarrow> same_but_rng s s'"
  by (auto simp: rnd_def same_but_rng_def split: prod.splits)

lemma get_think_time_same: "get_think_time s = (t, s') \<Longrightarrow> same_but_rng s s'"
  by (auto simp: get_think_time_def Let_def dest: rnd_same split: if_splits prod.splits)

lemma reconnect_if_same:
  "reconnect_if b s = (qs, s') \<Longrightarrow> same_but_rng s s' \<and> map q_type qs = (if b then [SB_SQL_QUERY_RECONNECT] else [])"
  by (auto simp: reconnect_if_def add_reconnect_req_def new_query_def dest: get_think_time_same split: if_splits prod.splits)

section \<open>Row ids\<close>

definition id_ok :: "oltp_args_t \<Rightarrow> u32 \<Rightarrow> bool" where
  "id_ok a i \<longleftrightarrow> 1 \<le> i \<and> i \<le> table_size a"

lemma id_ok_unat: "id_ok a i \<longleftrightarrow> 1 \<le> unat i \<and> unat i \<le> unat (table_size a)"
  by (auto simp: id_ok_def word_le_nat_alt)

text \<open>The options with which the distribution is defined, does not overflow and stays in the table.\<close>

definition sound_dist :: "oltp_args_t \<Rightarrow> bool" where
  "sound_dist a \<longleftrightarrow>
     (let n = unat (table_size a); pct = unat (dist_pct a); res = unat (dist_res a)
      in n > 0 \<and>
         (dist_type a \<noteq> DIST_TYPE_UNIFORM \<longrightarrow> dist_iter a \<noteq> 0 \<and> unat (dist_iter a) * n < 2 ^ 32) \<and>
         (dist_type a = DIST_TYPE_SPECIAL \<longrightarrow>
            res < 100 \<and> n * (100 div (100 - res)) < 2 ^ 32 \<and> pct \<le> 100 \<and> n * pct < 2 ^ 32 \<and> n * pct div 200 < n div 2))"

lemma rnd_row_bounds:
  assumes "rnd_row s = (i, s')" and "table_size (args s) \<noteq> 0"
  shows "1 \<le> unat i \<and> unat i \<le> unat (table_size (args s)) \<and> same_but_rng s s'"
proof -
  obtain r where r: "rnd s = (r, s')" and "i = of_nat (1 + r mod unat (table_size (args s')))"
    using assms(1) by (auto simp: rnd_row_def split: prod.splits)
  with same_but_rng_args [OF rnd_same [OF r]] have i: "i = of_nat (1 + r mod unat (table_size (args s)))" by simp
  let ?n = "unat (table_size (args s))"
  have "0 < ?n" using assms(2) by (simp add: unat_gt_0)
  then have "r mod ?n < ?n" by simp
  moreover have "?n < 2 ^ 32" using unsigned_less [of "table_size (args s)", where ?'a = nat] by simp
  ultimately have "unat i = 1 + r mod ?n"
    unfolding i by (subst of_nat_inverse) simp_all
  then show ?thesis using \<open>r mod ?n < ?n\<close> rnd_same [OF r] by simp
qed

lemma rnd_sum_bounds:
  assumes "rnd_sum n acc s = (i, s')" and "table_size (args s) \<noteq> 0"
    and "unat acc + n * unat (table_size (args s)) < 2 ^ 32"
  shows "unat acc + n \<le> unat i \<and> unat i \<le> unat acc + n * unat (table_size (args s)) \<and> same_but_rng s s'"
  using assms
proof (induction n arbitrary: acc s)
  case (Suc n)
  obtain r s1 where r: "rnd_row s = (r, s1)" by fastforce
  note b = rnd_row_bounds [OF r Suc.prems(2)]
  have a: "args s1 = args s" using b same_but_rng_args by blast
  have u: "unat (acc + r) = unat acc + unat r"
    using b Suc.prems(3) by (intro unat_add_lem [THEN iffD1]) simp
  have "rnd_sum n (acc + r) s1 = (i, s')" using Suc.prems(1) r by simp
  from Suc.IH [OF this] Suc.prems(2,3) b u
  have "unat acc + unat r + n \<le> unat i \<and> unat i \<le> unat acc + unat r + n * unat (table_size (args s)) \<and> same_but_rng s1 s'"
    by (simp add: a)
  with b show ?case by (auto intro: same_but_rng_trans)
qed simp

definition draws_ok :: "('w oltp_state \<Rightarrow> oltp_fault + u32 \<times> 'w oltp_state) \<Rightarrow> 'w oltp_state \<Rightarrow> bool" where
  "draws_ok f s \<longleftrightarrow> (\<exists>i s'. f s = Inr (i, s') \<and> id_ok (args s) i \<and> same_but_rng s s')"

lemma rnd_func_uniform_ok: "table_size (args s) \<noteq> 0 \<Longrightarrow> draws_ok rnd_func_uniform s"
  using rnd_row_bounds [of s] by (cases "rnd_row s") (auto simp: draws_ok_def rnd_func_uniform_def id_ok_unat)

lemma rnd_func_gaussian_ok:
  assumes "table_size (args s) \<noteq> 0" and "dist_iter (args s) \<noteq> 0"
    and "unat (dist_iter (args s)) * unat (table_size (args s)) < 2 ^ 32"
  shows "draws_ok rnd_func_gaussian s"
proof -
  let ?k = "unat (dist_iter (args s))" and ?n = "unat (table_size (args s))"
  obtain i s' where i: "rnd_sum ?k 0 s = (i, s')" by fastforce
  have k: "0 < ?k" using assms(2) by (simp add: unat_gt_0)
  from rnd_sum_bounds [OF i assms(1)] assms(3) have b: "?k \<le> unat i" "unat i \<le> ?k * ?n" "same_but_rng s s'" by auto
  have "1 \<le> unat i div ?k" using b(1) k by (simp add: div_greater_zero_iff Suc_le_eq)
  moreover have "unat i div ?k \<le> ?n" using b(2) k by (metis div_le_mono nonzero_mult_div_cancel_left not_gr_zero)
  ultimately have "id_ok (args s) (i div dist_iter (args s))" by (simp add: id_ok_unat unat_div)
  moreover have "args s' = args s" using b(3) by (rule same_but_rng_args)
  ultimately show ?thesis using i b(3) assms by (simp add: draws_ok_def rnd_func_gaussian_def)
qed

text \<open>The special values are around the middle of the table.\<close>

lemma special_value_bounds:
  fixes n pct d :: nat
  assumes "pct \<le> 100" and "n * pct div 200 < n div 2" and "v < max 1 (n * pct div 100)"
  shows "1 \<le> v + (n div 2 - n * pct div 200) \<and> v + (n div 2 - n * pct div 200) \<le> n"
proof -
  have "n * pct div 100 \<le> 2 * (n * pct div 200) + 1" by linarith
  moreover have "n div 2 \<ge> 1" using assms(2) by linarith
  moreover have "2 * (n div 2) \<le> n" by simp
  ultimately show ?thesis using assms(2,3) by (auto simp: max_def split: if_splits)
qed

lemma rnd_func_special_ok:
  assumes "sound_dist (args s)" and "dist_type (args s) = DIST_TYPE_SPECIAL"
  shows "draws_ok rnd_func_special s"
proof -
  let ?a = "args s"
  let ?n = "unat (table_size ?a)" and ?pct = "unat (dist_pct ?a)" and ?res = "unat (dist_res ?a)"
  have h: "0 < ?n" "dist_iter ?a \<noteq> 0" "unat (dist_iter ?a) * ?n < 2 ^ 32" "?res < 100"
    "?n * (100 div (100 - ?res)) < 2 ^ 32" "?pct \<le> 100" "?n * ?pct < 2 ^ 32" "?n * ?pct div 200 < ?n div 2"
    using assms by (simp_all add: sound_dist_def Let_def)
  have ts: "table_size ?a \<noteq> 0" using h(1) by auto
  have sub: "unat (100 - dist_res ?a) = 100 - ?res"
    using h(4) by (subst unat_sub) (simp_all add: word_le_nat_alt)
  have res: "100 - dist_res ?a \<noteq> 0" using sub h(4) by (metis unat_0 zero_less_diff less_numeral_extra(3))
  define size where "size = table_size ?a * (100 div (100 - dist_res ?a))"
  have size: "unat size = ?n * (100 div (100 - ?res))"
    using h(5) unfolding size_def by (subst unat_mult_lem [THEN iffD1]) (simp_all add: unat_div sub)
  have "100 div (100 - ?res) \<noteq> 0" using h(4) by (simp add: div_eq_0_iff)
  then have "size \<noteq> 0" using size h(1) by (metis mult_eq_0_iff unat_0 less_numeral_extra(3))
  obtain r s1 where r: "rnd s = (r, s1)" by fastforce
  note same = rnd_same [OF r]
  have a1: "args s1 = ?a" by (rule same_but_rng_args [OF same])
  define v where "v = (1 + of_nat (r mod unat size) :: u32)"
  show ?thesis
  proof (cases "v \<le> table_size ?a")
    case True
    have "draws_ok rnd_func_gaussian s1" using h ts by (intro rnd_func_gaussian_ok) (simp_all add: a1)
    then obtain i s2 where "rnd_func_gaussian s1 = Inr (i, s2)" "id_ok ?a i" "same_but_rng s1 s2"
      by (auto simp: draws_ok_def a1)
    with True r res ts \<open>size \<noteq> 0\<close> same show ?thesis
      unfolding draws_ok_def rnd_func_special_def Let_def size_def [symmetric]
      by (auto simp: v_def [symmetric] intro: same_but_rng_trans)
  next
    case False
    define d where "d = table_size ?a * dist_pct ?a div 100"
    have prod: "unat (table_size ?a * dist_pct ?a) = ?n * ?pct"
      using h(7) by (intro unat_mult_lem [THEN iffD1]) simp
    have d: "unat d = ?n * ?pct div 100" by (simp add: d_def unat_div prod)
    define e where "e = (if d < 1 then 1 else d)"
    have e: "unat e = max 1 (unat d)"
      by (auto simp: e_def word_less_nat_alt max_def not_less)
    have "unat (v mod e) < max 1 (?n * ?pct div 100)"
      using e d by (simp add: unat_mod del: max_less_iff_conj)
    note b = special_value_bounds [OF h(6,8) this]
    have mid: "unat (table_size ?a div 2 - table_size ?a * dist_pct ?a div 200) = ?n div 2 - ?n * ?pct div 200"
      using h(8) by (subst unat_sub) (simp_all add: word_le_nat_alt unat_div prod)
    have "unat (v mod e + (table_size ?a div 2 - table_size ?a * dist_pct ?a div 200)) =
        unat (v mod e) + (?n div 2 - ?n * ?pct div 200)"
      using b unsigned_less [of "table_size ?a", where ?'a = nat] by (subst unat_add_lem [THEN iffD1]) (simp_all add: mid)
    then have "id_ok ?a (v mod e + (table_size ?a div 2 - table_size ?a * dist_pct ?a div 200))"
      using b by (simp add: id_ok_unat)
    with False r res ts \<open>size \<noteq> 0\<close> same show ?thesis
      unfolding draws_ok_def rnd_func_special_def Let_def size_def [symmetric]
      by (cases "d = 0") (auto simp: v_def [symmetric] d_def [symmetric] e_def)
  qed
qed

lemma get_random_id_ok:
  assumes "sound_dist (args s)"
  shows "draws_ok get_random_id s"
proof -
  have n: "table_size (args s) \<noteq> 0" using assms by (auto simp: sound_dist_def Let_def)
  show ?thesis
  proof (cases "dist_type (args s)")
    case DIST_TYPE_UNIFORM
    then show ?thesis using rnd_func_uniform_ok [OF n] by (simp add: draws_ok_def get_random_id_def)
  next
    case DIST_TYPE_GAUSSIAN
    have "draws_ok rnd_func_gaussian s"
      using assms DIST_TYPE_GAUSSIAN by (intro rnd_func_gaussian_ok n) (simp_all add: sound_dist_def Let_def)
    then show ?thesis using DIST_TYPE_GAUSSIAN by (simp add: draws_ok_def get_random_id_def)
  next
    case DIST_TYPE_SPECIAL
    then show ?thesis using rnd_func_special_ok [OF assms] by (simp add: draws_ok_def get_random_id_def)
  qed
qed

section \<open>Generators of queries\<close>

text \<open>
  What a generator yields with the options \<open>a\<close>: queries of the given types, each of which satisfies \<open>P\<close>,
  and only the random numbers change.
\<close>

definition yields ::
  "oltp_args_t \<Rightarrow> (sb_sql_query \<Rightarrow> bool) \<Rightarrow> sb_sql_query_type list \<Rightarrow> 'w query_gen \<Rightarrow> bool" where
  "yields a P tys f \<longleftrightarrow>
     (\<forall>s. args s = a \<longrightarrow>
       (\<exists>qs s'. f s = Inr (qs, s') \<and> map q_type qs = tys \<and> list_all P qs \<and> same_but_rng s s'))"

lemma yields_Nil: "yields a P [] (queries_all [])"
  by (simp add: yields_def)

lemma yields_Cons:
  assumes "yields a P tys f" and "yields a P tys' (queries_all fs)"
  shows "yields a P (tys @ tys') (queries_all (f # fs))"
  unfolding yields_def
proof (intro allI impI)
  fix s :: "'a oltp_state" assume a: "args s = a"
  from assms(1) a obtain qs s1 where 1: "f s = Inr (qs, s1)" "map q_type qs = tys" "list_all P qs" "same_but_rng s s1"
    unfolding yields_def by blast
  have "args s1 = a" using same_but_rng_args [OF 1(4)] a by simp
  with assms(2) obtain rs s2
    where 2: "queries_all fs s1 = Inr (rs, s2)" "map q_type rs = tys'" "list_all P rs" "same_but_rng s1 s2"
    unfolding yields_def by blast
  show "\<exists>qs s'. queries_all (f # fs) s = Inr (qs, s') \<and> map q_type qs = tys @ tys' \<and> list_all P qs \<and> same_but_rng s s'"
    using 1 2 same_but_rng_trans [OF 1(4) 2(4)] by simp
qed

lemma yields_times:
  "yields a P tys f \<Longrightarrow> yields a P (concat (replicate (unat n) tys)) (queries_times n f)"
proof -
  assume f: "yields a P tys f"
  have "yields a P (concat (replicate k tys)) (queries_all (replicate k f))" for k
    by (induction k) (simp_all add: yields_Nil yields_Cons [OF f] del: queries_all.simps)
  then show ?thesis unfolding queries_times_def .
qed

definition plus_reconnect :: "reconnect_mode \<Rightarrow> sb_sql_query_type \<Rightarrow> sb_sql_query_type list" where
  "plus_reconnect rmode ty = ty # (if rmode = RECONNECT_QUERY then [SB_SQL_QUERY_RECONNECT] else [])"

text \<open>
  A query of a request is within the table: its row, or its range, of the expected number of rows.  The
  range of a distinct query has one row more.
\<close>

definition range_ok :: "oltp_args_t \<Rightarrow> u32 \<Rightarrow> u32 \<Rightarrow> u32 \<Rightarrow> bool" where
  "range_ok a width from to \<longleftrightarrow>
     1 \<le> from \<and> from \<le> to \<and> unat to - unat from + 1 = unat width \<and> to \<le> table_size a"

definition query_ok :: "oltp_args_t \<Rightarrow> sb_sql_query \<Rightarrow> bool" where
  "query_ok a q \<longleftrightarrow>
     num_times q = 1 \<and>
     (case q_type q of
        SB_SQL_QUERY_POINT \<Rightarrow> id_ok a (q_id q) \<and> nrows q = 1
      | SB_SQL_QUERY_RANGE \<Rightarrow> range_ok a (range_size a) (q_id q) (q_to q) \<and> nrows q = ucast (range_size a)
      | SB_SQL_QUERY_RANGE_SUM \<Rightarrow> range_ok a (range_size a) (q_id q) (q_to q) \<and> nrows q = 1
      | SB_SQL_QUERY_RANGE_ORDER \<Rightarrow> range_ok a (range_size a) (q_id q) (q_to q) \<and> nrows q = ucast (range_size a)
      | SB_SQL_QUERY_RANGE_DISTINCT \<Rightarrow>
          (range_size a < table_size a \<longrightarrow> range_ok a (range_size a + 1) (q_id q) (q_to q)) \<and> nrows q = 0
      | SB_SQL_QUERY_UPDATE_INDEX \<Rightarrow> id_ok a (q_id q)
      | SB_SQL_QUERY_UPDATE_NON_INDEX \<Rightarrow> id_ok a (q_id q)
      | SB_SQL_QUERY_DELETE \<Rightarrow> id_ok a (q_id q)
      | SB_SQL_QUERY_INSERT \<Rightarrow> id_ok a (q_id q)
      | _ \<Rightarrow> True)"

definition sound_args :: "oltp_args_t \<Rightarrow> bool" where
  "sound_args a \<longleftrightarrow> sound_dist a \<and> 1 \<le> range_size a \<and> range_size a \<le> table_size a \<and> table_size a < 2 ^ 31"

lemma reconnect_ok: "reconnect_if b s = (qs, s') \<Longrightarrow> list_all (query_ok a) qs"
  by (auto simp: reconnect_if_def add_reconnect_req_def new_query_def query_ok_def split: if_splits prod.splits)

text \<open>Thinking, drawing an id, and perhaps a reconnect.\<close>

lemma draw_query:
  assumes "sound_dist a" and "args s = a" and "get_think_time s = (t, s1)"
  obtains i s2 rs s3 where "get_random_id s1 = Inr (i, s2)" and "id_ok a i" and "args s2 = a"
    and "reconnect_if b s2 = (rs, s3)" and "map q_type rs = (if b then [SB_SQL_QUERY_RECONNECT] else [])"
    and "list_all (query_ok a) rs" and "same_but_rng s s3" and "same_but_rng s s2"
proof -
  note t = get_think_time_same [OF assms(3)]
  have a: "args s1 = a" using same_but_rng_args [OF t] assms(2) by simp
  from get_random_id_ok [of s1] assms(1) a
  obtain i s2 where i: "get_random_id s1 = Inr (i, s2)" "id_ok a i" "same_but_rng s1 s2" by (auto simp: draws_ok_def)
  obtain rs s3 where r: "reconnect_if b s2 = (rs, s3)" by fastforce
  note same = same_but_rng_trans [OF t i(3)]
  show ?thesis
    using that [OF i(1,2) _ r] reconnect_if_same [OF r] reconnect_ok [OF r] same same_but_rng_trans [OF same]
      same_but_rng_args [OF same] assms(2) by simp
qed

lemma yields_id_query:
  assumes "sound_dist a"
    and "\<And>t i. id_ok a i \<Longrightarrow> query_ok a ((new_query ty t)\<lparr>q_id := i, nrows := n\<rparr>)"
  shows "yields a (query_ok a) (plus_reconnect rmode ty) (id_query ty n rmode)"
  unfolding yields_def
proof (intro allI impI)
  fix s :: "'a oltp_state" assume a: "args s = a"
  obtain t s1 where t: "get_think_time s = (t, s1)" by fastforce
  obtain i s2 rs s3 where "get_random_id s1 = Inr (i, s2)" "id_ok a i" "args s2 = a"
    "reconnect_if (rmode = RECONNECT_QUERY) s2 = (rs, s3)"
    "map q_type rs = (if rmode = RECONNECT_QUERY then [SB_SQL_QUERY_RECONNECT] else [])"
    "list_all (query_ok a) rs" "same_but_rng s s3" "same_but_rng s s2"
    by (rule draw_query [OF assms(1) a t])
  with t assms(2) show "\<exists>qs s'. id_query ty n rmode s = Inr (qs, s') \<and> map q_type qs = plus_reconnect rmode ty \<and>
      list_all (query_ok a) qs \<and> same_but_rng s s'"
    by (auto simp: id_query_def plus_reconnect_def new_query_def)
qed

lemma yields_range_query:
  assumes "sound_dist a"
    and "\<And>t i. id_ok a i \<Longrightarrow>
      query_ok a ((new_query ty t)\<lparr>q_id := clip_range a i, q_to := clip_range a i + width, nrows := n\<rparr>)"
  shows "yields a (query_ok a) (plus_reconnect rmode ty) (range_query ty n width rmode)"
  unfolding yields_def
proof (intro allI impI)
  fix s :: "'a oltp_state" assume a: "args s = a"
  obtain t s1 where t: "get_think_time s = (t, s1)" by fastforce
  obtain i s2 rs s3 where "get_random_id s1 = Inr (i, s2)" "id_ok a i" "args s2 = a"
    "reconnect_if (rmode = RECONNECT_QUERY) s2 = (rs, s3)"
    "map q_type rs = (if rmode = RECONNECT_QUERY then [SB_SQL_QUERY_RECONNECT] else [])"
    "list_all (query_ok a) rs" "same_but_rng s s3" "same_but_rng s s2"
    by (rule draw_query [OF assms(1) a t])
  with t assms(2) show "\<exists>qs s'. range_query ty n width rmode s = Inr (qs, s') \<and> map q_type qs = plus_reconnect rmode ty \<and>
      list_all (query_ok a) qs \<and> same_but_rng s s'"
    by (auto simp: range_query_def plus_reconnect_def new_query_def Let_def)
qed

text \<open>The clipped range has its first row, and \<open>width\<close> rows behind it, in the table.\<close>

lemma clip_range_bounds:
  assumes "sound_args a" and "id_ok a i"
  shows "1 \<le> unat (clip_range a i)"
    and "unat (clip_range a i) + unat (range_size a) \<le> unat (table_size a) + 1"
    and "range_size a < table_size a \<Longrightarrow> unat (clip_range a i) + unat (range_size a) \<le> unat (table_size a)"
proof -
  let ?w = "unat (range_size a)" and ?n = "unat (table_size a)"
  have h: "1 \<le> ?w" "?w \<le> ?n" "?n < 2 ^ 31" "1 \<le> unat i" "unat i \<le> ?n"
    using assms by (simp_all add: sound_args_def id_ok_unat word_le_nat_alt word_less_nat_alt)
  have add: "unat (i + range_size a) = unat i + ?w" using h by (intro unat_add_lem [THEN iffD1]) simp
  have sub: "unat (table_size a - range_size a) = ?n - ?w" using h(2) by (intro unat_sub) (simp add: word_le_nat_alt)
  have clip: "unat (clip_range a i) = (let r = (if unat i + ?w > ?n then ?n - ?w else unat i) in max 1 r)"
    using add sub by (simp add: clip_range_def Let_def word_less_nat_alt max_def not_less)
  show "1 \<le> unat (clip_range a i)" "unat (clip_range a i) + ?w \<le> ?n + 1"
    using h by (auto simp: clip Let_def max_def)
  show "unat (clip_range a i) + ?w \<le> ?n" if "range_size a < table_size a"
    using h that by (auto simp: clip Let_def max_def word_less_nat_alt)
qed

lemma clip_range_ok:
  assumes "sound_args a" and "id_ok a i"
  shows "range_ok a (range_size a) (clip_range a i) (clip_range a i + (range_size a - 1))"
    and "range_size a < table_size a \<Longrightarrow> range_ok a (range_size a + 1) (clip_range a i) (clip_range a i + range_size a)"
proof -
  let ?w = "unat (range_size a)" and ?n = "unat (table_size a)" and ?r = "unat (clip_range a i)"
  note b = clip_range_bounds [OF assms]
  have h: "1 \<le> ?w" "?w \<le> ?n" "?n < 2 ^ 31"
    using assms by (simp_all add: sound_args_def id_ok_unat word_le_nat_alt word_less_nat_alt)
  have m: "unat (range_size a - 1) = ?w - 1" using h(1) by (subst unat_sub) (simp_all add: word_le_nat_alt)
  have "unat (clip_range a i + (range_size a - 1)) = ?r + (?w - 1)"
    using b h m by (subst unat_add_lem [THEN iffD1]) simp_all
  with b h show "range_ok a (range_size a) (clip_range a i) (clip_range a i + (range_size a - 1))"
    unfolding range_ok_def word_le_nat_alt by (intro conjI) (simp; linarith)+
  assume less: "range_size a < table_size a"
  have "unat (clip_range a i + range_size a) = ?r + ?w"
    using b(3) [OF less] h by (subst unat_add_lem [THEN iffD1]) simp_all
  moreover have "unat (range_size a + 1) = ?w + 1" using h by (subst unat_add_lem [THEN iffD1]) simp_all
  ultimately show "range_ok a (range_size a + 1) (clip_range a i) (clip_range a i + range_size a)"
    using b(1) b(3) [OF less] h by (simp add: range_ok_def word_le_nat_alt)
qed

section \<open>The shape of a complex request\<close>

definition read_types :: "oltp_args_t \<Rightarrow> reconnect_mode \<Rightarrow> sb_sql_query_type list" where
  "read_types a rmode =
     concat (map (\<lambda>(n, ty). concat (replicate (unat n) (plus_reconnect rmode ty)))
       [(point_selects a, SB_SQL_QUERY_POINT), (simple_ranges a, SB_SQL_QUERY_RANGE), (sum_ranges a, SB_SQL_QUERY_RANGE_SUM),
        (order_ranges a, SB_SQL_QUERY_RANGE_ORDER), (distinct_ranges a, SB_SQL_QUERY_RANGE_DISTINCT)])"

definition update_types :: "oltp_args_t \<Rightarrow> reconnect_mode \<Rightarrow> sb_sql_query_type list" where
  "update_types a rmode =
     (if read_only a then []
      else concat (map (\<lambda>(n, ty). concat (replicate (unat n) (plus_reconnect rmode ty)))
             [(index_updates a, SB_SQL_QUERY_UPDATE_INDEX), (non_index_updates a, SB_SQL_QUERY_UPDATE_NON_INDEX)]))"

text \<open>The update, the delete and the insert of the row \<open>i\<close>.\<close>

definition row_queries :: "u32 \<Rightarrow> sb_sql_query list \<Rightarrow> bool" where
  "row_queries i qs \<longleftrightarrow>
     map (\<lambda>q. (q_type q, q_id q)) qs =
       [(SB_SQL_QUERY_UPDATE_INDEX, i), (SB_SQL_QUERY_DELETE, i), (SB_SQL_QUERY_INSERT, i)]"

lemma queries_all_append:
  "queries_all (fs @ gs) s =
     bind_res (queries_all fs s) (\<lambda>(qs, s). bind_res (queries_all gs s) (\<lambda>(rs, s). Inr (qs @ rs, s)))"
proof (induction fs arbitrary: s)
  case Nil
  then show ?case by (cases "queries_all gs s") auto
next
  case (Cons f fs)
  show ?case
    by (cases "f s") (auto simp: Cons bind_res_def split: sum.splits)
qed

lemma yields_reads:
  assumes "sound_args a"
  shows "yields a (query_ok a) (read_types a rmode) (queries_all (read_queries a rmode))"
proof -
  have d: "sound_dist a" using assms by (simp add: sound_args_def)
  note r = clip_range_ok [OF assms]
  show ?thesis
    unfolding read_queries_def read_types_def list.map concat.simps prod.case
    by (intro yields_Cons yields_Nil yields_times yields_id_query yields_range_query d;
      simp add: query_ok_def new_query_def r)
qed

lemma yields_updates:
  assumes "sound_dist a"
  shows "yields a (query_ok a) (concat (map (\<lambda>(n, ty). concat (replicate (unat n) (plus_reconnect rmode ty)))
             [(index_updates a, SB_SQL_QUERY_UPDATE_INDEX), (non_index_updates a, SB_SQL_QUERY_UPDATE_NON_INDEX)]))
    (queries_all [queries_times (index_updates a) (id_query SB_SQL_QUERY_UPDATE_INDEX 0 rmode),
            queries_times (non_index_updates a) (id_query SB_SQL_QUERY_UPDATE_NON_INDEX 0 rmode)])"
  unfolding list.map concat.simps prod.case
  by (intro yields_Cons yields_Nil yields_times yields_id_query assms; simp add: query_ok_def new_query_def)

lemma same_row_queries_ok:
  assumes "sound_dist a" and "args s = a"
  shows "\<exists>qs i s'. same_row_queries s = Inr (qs, s') \<and> row_queries i qs \<and> id_ok a i \<and> list_all (query_ok a) qs \<and>
    same_but_rng s s'"
proof -
  obtain t s1 where t: "get_think_time s = (t, s1)" by fastforce
  obtain i s2 where i: "get_random_id s1 = Inr (i, s2)" "id_ok a i" "same_but_rng s s2"
    by (rule draw_query [OF assms t, of False])
  obtain t' s3 where t': "get_think_time s2 = (t', s3)" by fastforce
  obtain t'' s4 where t'': "get_think_time s3 = (t'', s4)" by fastforce
  have "same_but_rng s s4"
    using i(3) get_think_time_same [OF t'] get_think_time_same [OF t''] by (blast intro: same_but_rng_trans)
  with t i t' t'' show ?thesis
    by (intro exI [of _ i] exI) (auto simp: same_row_queries_def row_queries_def new_query_def query_ok_def)
qed

text \<open>A complex request, after its reconnects at the start.\<close>

definition complex_queries :: "oltp_args_t \<Rightarrow> reconnect_mode \<Rightarrow> sb_sql_query list \<Rightarrow> bool" where
  "complex_queries a rmode qs \<longleftrightarrow>
     (\<exists>begin reads updates row commit.
        qs = begin @ reads @ updates @ row @ commit \<and>
        map q_type begin = (if skip_trx a then [] else [SB_SQL_QUERY_LOCK]) \<and>
        map q_type reads = read_types a rmode \<and>
        map q_type updates = update_types a rmode \<and>
        (if read_only a then row = [] else \<exists>i. id_ok a i \<and> row_queries i row) \<and>
        map q_type commit =
          (if skip_trx a then []
           else SB_SQL_QUERY_UNLOCK # (if rmode = RECONNECT_TRANSACTION then [SB_SQL_QUERY_RECONNECT] else [])) \<and>
        list_all (query_ok a) qs)"

lemma begin_query_yields:
  "yields a (query_ok a) (if skip_trx a then [] else [SB_SQL_QUERY_LOCK]) begin_query"
  by (auto simp: yields_def begin_query_def new_query_def query_ok_def)

lemma commit_query_yields:
  "yields a (query_ok a)
     (if skip_trx a then [] else SB_SQL_QUERY_UNLOCK # (if rmode = RECONNECT_TRANSACTION then [SB_SQL_QUERY_RECONNECT] else []))
     (commit_query rmode)"
  unfolding yields_def
proof (intro allI impI)
  fix s :: "'a oltp_state" assume a: "args s = a"
  obtain rs s' where r: "reconnect_if (rmode = RECONNECT_TRANSACTION) s = (rs, s')" by fastforce
  show "\<exists>qs s'. commit_query rmode s = Inr (qs, s') \<and> map q_type qs =
      (if skip_trx a then [] else SB_SQL_QUERY_UNLOCK # (if rmode = RECONNECT_TRANSACTION then [SB_SQL_QUERY_RECONNECT] else [])) \<and>
      list_all (query_ok a) qs \<and> same_but_rng s s'"
    using a reconnect_if_same [OF r] reconnect_ok [OF r]
    by (auto simp: commit_query_def r new_query_def query_ok_def)
qed

lemma yieldsE:
  assumes "yields a P tys f" and "args s = a"
  obtains qs s' where "f s = Inr (qs, s')" and "map q_type qs = tys" and "list_all P qs" and "same_but_rng s s'"
    and "args s' = a"
proof -
  from assms obtain qs s' where *: "f s = Inr (qs, s')" "map q_type qs = tys" "list_all P qs" "same_but_rng s s'"
    unfolding yields_def by blast
  show ?thesis using that [OF *] same_but_rng_args [OF *(4)] assms(2) by simp
qed

lemma complex_queries_generated:
  assumes "sound_args a" and "args s = a"
  shows "\<exists>qs s'. queries_all (begin_query # read_queries a rmode @ write_queries a rmode @ [commit_query rmode]) s = Inr (qs, s') \<and>
    complex_queries a rmode qs \<and> same_but_rng s s'"
proof -
  have d: "sound_dist a" using assms(1) by (simp add: sound_args_def)
  obtain b s1 where b: "begin_query s = Inr (b, s1)" "map q_type b = (if skip_trx a then [] else [SB_SQL_QUERY_LOCK])"
    "list_all (query_ok a) b" "same_but_rng s s1" "args s1 = a"
    by (rule yieldsE [OF begin_query_yields assms(2)])
  obtain r s2 where r: "queries_all (read_queries a rmode) s1 = Inr (r, s2)" "map q_type r = read_types a rmode"
    "list_all (query_ok a) r" "same_but_rng s1 s2" "args s2 = a"
    by (rule yieldsE [OF yields_reads [OF assms(1)] b(5)])
  have "\<exists>u w s3. queries_all (write_queries a rmode) s2 = Inr (u @ w, s3) \<and> map q_type u = update_types a rmode \<and>
      (if read_only a then w = [] else \<exists>i. id_ok a i \<and> row_queries i w) \<and> list_all (query_ok a) (u @ w) \<and> same_but_rng s2 s3"
  proof (cases "read_only a")
    case True
    then show ?thesis by (simp add: write_queries_def update_types_def)
  next
    case False
    let ?us = "[queries_times (index_updates a) (id_query SB_SQL_QUERY_UPDATE_INDEX 0 rmode),
            queries_times (non_index_updates a) (id_query SB_SQL_QUERY_UPDATE_NON_INDEX 0 rmode)] :: 'a query_gen list"
    obtain u s3 where u: "queries_all ?us s2 = Inr (u, s3)" "map q_type u = update_types a rmode"
      "list_all (query_ok a) u" "same_but_rng s2 s3" "args s3 = a"
      by (rule yieldsE [OF yields_updates [OF d] r(5)]) (use False in \<open>simp add: update_types_def\<close>)
    obtain w i s4 where w: "same_row_queries s3 = Inr (w, s4)" "row_queries i w" "id_ok a i" "list_all (query_ok a) w"
      "same_but_rng s3 s4"
      using same_row_queries_ok [OF d u(5)] by blast
    have "queries_all (write_queries a rmode) s2 = queries_all (?us @ [same_row_queries]) s2"
      using False by (simp add: write_queries_def)
    also have "\<dots> = Inr (u @ w, s4)"
      unfolding queries_all_append u(1) by (simp add: w(1))
    finally show ?thesis using False u w same_but_rng_trans [OF u(4) w(5)] by (metis list_all_append)
  qed
  then obtain u w s3 where w: "queries_all (write_queries a rmode) s2 = Inr (u @ w, s3)"
    "map q_type u = update_types a rmode" "if read_only a then w = [] else \<exists>i. id_ok a i \<and> row_queries i w"
    "list_all (query_ok a) (u @ w)" "same_but_rng s2 s3" by blast
  have "args s3 = a" using same_but_rng_args [OF w(5)] r(5) by simp
  then obtain c s4 where c: "commit_query rmode s3 = Inr (c, s4)"
    "map q_type c = (if skip_trx a then [] else SB_SQL_QUERY_UNLOCK # (if rmode = RECONNECT_TRANSACTION then [SB_SQL_QUERY_RECONNECT] else []))"
    "list_all (query_ok a) c" "same_but_rng s3 s4"
    by (rule yieldsE [OF commit_query_yields])
  have "queries_all (begin_query # read_queries a rmode @ write_queries a rmode @ [commit_query rmode]) s =
      Inr (b @ r @ u @ w @ c, s4)"
    by (simp add: queries_all_append b(1) r(1) w(1) c(1))
  moreover have "complex_queries a rmode (b @ r @ u @ w @ c)"
    unfolding complex_queries_def using b r w c
    by (intro exI [of _ b] exI [of _ r] exI [of _ u] exI [of _ w] exI [of _ c]) simp
  moreover have "same_but_rng s s4"
    using b(4) r(4) w(5) c(4) by (blast intro: same_but_rng_trans)
  ultimately show ?thesis by blast
qed

lemma complex_start_cases:
  assumes "complex_start tid s = (rmode, rs, s')" and "tid < length (reconnect_modes s)"
  shows "list_all (query_ok a) rs \<and> args s' = args s \<and> req_performed s' = req_performed s \<and>
    (if reconnect_mode (args s) = RECONNECT_RANDOM
     then rmode = reconnect_modes s' ! tid \<and> rmode \<in> {RECONNECT_SESSION, RECONNECT_QUERY, RECONNECT_TRANSACTION} \<and>
       map q_type rs =
         (if reconnect_modes s ! tid = RECONNECT_SESSION \<and> rmode \<noteq> RECONNECT_SESSION then [SB_SQL_QUERY_RECONNECT] else [])
     else rmode = reconnect_mode (args s) \<and> rs = [] \<and> s' = s)"
proof (cases "reconnect_mode (args s) = RECONNECT_RANDOM")
  case True
  obtain r s1 where r: "rnd s = (r, s1)" by fastforce
  let ?s2 = "s1\<lparr>reconnect_modes := (reconnect_modes s1)[tid := random_mode r]\<rparr>"
  obtain qs s3 where q: "reconnect_if (reconnect_modes s ! tid = RECONNECT_SESSION \<and> random_mode r \<noteq> RECONNECT_SESSION) ?s2 = (qs, s3)"
    by fastforce
  obtain rng where 1: "s1 = s\<lparr>oltp_rng := rng\<rparr>" using rnd_same [OF r] by (auto simp: same_but_rng_def)
  from reconnect_if_same [OF q] obtain rng' where 3: "s3 = ?s2\<lparr>oltp_rng := rng'\<rparr>" by (auto simp: same_but_rng_def)
  have "complex_start tid s = (random_mode r, qs, s3)"
    using True q by (simp add: complex_start_def r Let_def)
  with assms(1) have "rmode = random_mode r" "rs = qs" "s' = s3" by simp_all
  then show ?thesis
    using True assms(2) reconnect_ok [OF q, of a] reconnect_if_same [OF q] by (simp add: 1 3 random_mode_def)
next
  case False
  with assms(1) show ?thesis by (auto simp: complex_start_def)
qed

lemma finish_request_ok:
  assumes "finish_request q s = (r, s')" and "query_ok a q"
  shows "req_type r = SB_REQ_TYPE_SQL \<and> list_all (query_ok a) (req_data r) \<and> args s' = args s"
proof -
  obtain b s1 where b: "reconnect_wanted s = (b, s1)" by fastforce
  then have 1: "same_but_rng s s1"
    by (auto simp: reconnect_wanted_def dest: rnd_same split: reconnect_mode.splits prod.splits)
  obtain rs s2 where rs: "reconnect_if b s1 = (rs, s2)" by fastforce
  from reconnect_if_same [OF rs] have "same_but_rng s1 s2" ..
  with 1 have "args s2 = args s" by (metis same_but_rng_args)
  moreover from assms(1) b rs have "r = sql_request (q # rs)" "s' = s2\<lparr>req_performed := req_performed s2 + 1\<rparr>"
    by (simp_all add: finish_request_def)
  ultimately show ?thesis using assms(2) reconnect_ok [OF rs, of a] by (simp add: sql_request_def)
qed

lemma get_unique_random_id_ok:
  assumes "table_size (args s) \<noteq> 0"
  shows "\<exists>i. get_unique_random_id s = Inr (i, s\<lparr>rnd_seed := rnd_seed s + LARGE_PRIME\<rparr>) \<and> id_ok (args s) i \<and>
    unat i = unat (rnd_seed s) mod unat (table_size (args s)) + 1"
proof -
  let ?n = "unat (table_size (args s))" and ?v = "ucast (rnd_seed s mod ucast (table_size (args s))) :: u32"
  have n: "0 < ?n" using assms by (simp add: unat_gt_0)
  have small: "?n < 2 ^ 32" using unsigned_less [of "table_size (args s)", where ?'a = nat] by simp
  have "unat (ucast (table_size (args s)) :: u64) = ?n"
    using small by (simp add: unsigned_ucast_eq take_bit_nat_eq_self)
  then have m: "unat (rnd_seed s mod ucast (table_size (args s))) = unat (rnd_seed s) mod ?n"
    by (simp add: unat_mod)
  have "unat (rnd_seed s) mod ?n < ?n" using n by simp
  with small have "unat ?v = unat (rnd_seed s) mod ?n"
    by (simp add: unsigned_ucast_eq m take_bit_nat_eq_self)
  with \<open>unat (rnd_seed s) mod ?n < ?n\<close> small have "unat (?v + 1) = unat (rnd_seed s) mod ?n + 1"
    by (subst unat_Suc_lt) simp_all
  with \<open>unat (rnd_seed s) mod ?n < ?n\<close> assms show ?thesis
    by (simp add: get_unique_random_id_def id_ok_unat)
qed

section \<open>Unique ids\<close>

text \<open>\<open>k\<close> calls in a row.\<close>

primrec unique_ids :: "nat \<Rightarrow> 'w oltp_state \<Rightarrow> oltp_fault + u32 list \<times> 'w oltp_state" where
  "unique_ids 0 s = Inr ([], s)"
| "unique_ids (Suc k) s =
     bind_res (get_unique_random_id s) (\<lambda>(i, s). bind_res (unique_ids k s) (\<lambda>(is, s). Inr (i # is, s)))"

lemma unique_ids_eq:
  assumes "table_size (args s) \<noteq> 0" and "unat (rnd_seed s) = j * 2147483647" and "(j + k) * 2147483647 < 2 ^ 64"
  shows "\<exists>is s'. unique_ids k s = Inr (is, s') \<and> length is = k \<and> (\<forall>i\<in>set is. id_ok (args s) i) \<and>
    map unat is = map (\<lambda>m. m * 2147483647 mod unat (table_size (args s)) + 1) [j..<j + k]"
  using assms
proof (induction k arbitrary: j s)
  case (Suc k)
  let ?s = "s\<lparr>rnd_seed := rnd_seed s + LARGE_PRIME\<rparr>"
  obtain i where i: "get_unique_random_id s = Inr (i, ?s)" "id_ok (args s) i"
    "unat i = unat (rnd_seed s) mod unat (table_size (args s)) + 1"
    using get_unique_random_id_ok [OF Suc.prems(1)] by blast
  have "unat (rnd_seed ?s) = Suc j * 2147483647"
  proof (cases "k = 0 \<and> (Suc j) * 2147483647 \<ge> 2 ^ 64")
    case False
    then have "unat (rnd_seed s) + unat LARGE_PRIME < 2 ^ 64" using Suc.prems(2,3) by (simp add: LARGE_PRIME_def)
    then show ?thesis using Suc.prems(2) by (simp add: unat_word_ariths LARGE_PRIME_def)
  qed (use Suc.prems(3) in simp)
  moreover have "(Suc j + k) * 2147483647 < 2 ^ 64" using Suc.prems(3) by simp
  moreover have "table_size (args ?s) \<noteq> 0" using Suc.prems(1) by simp
  ultimately obtain "is" s' where r: "unique_ids k ?s = Inr (is, s')" "length is = k" "\<forall>i\<in>set is. id_ok (args s) i"
    "map unat is = map (\<lambda>m. m * 2147483647 mod unat (table_size (args s)) + 1) [Suc j..<Suc j + k]"
    using Suc.IH [of ?s "Suc j"] by auto
  have "map unat (i # is) = map (\<lambda>m. m * 2147483647 mod unat (table_size (args s)) + 1) [j..<j + Suc k]"
    using r(4) i(3) Suc.prems(2) by (simp add: upt_rec [of j])
  with r i show ?case by (intro exI [of _ "i # is"] exI [of _ s']) simp
qed simp

lemma mult_mod_inj:
  assumes "coprime p n" and "(x * p) mod n = (y * p) mod n" and "x < y + n" and "y < x + (n :: nat)"
  shows "x = y"
proof -
  have aux: "x = y" if "x \<le> y" "(x * p) mod n = (y * p) mod n" "y < x + n" for x y :: nat
  proof -
    have "n dvd (y - x) * p"
      using that(1,2) by (metis diff_mult_distrib mod_eq_dvd_iff_nat mult_le_mono1)
    then have "n dvd y - x" using assms(1) by (simp add: coprime_commute coprime_dvd_mult_left_iff)
    moreover have "y - x < n" using that(1,3) by simp
    ultimately have "y - x = 0" by (meson dvd_imp_le not_le gr0I)
    then show ?thesis using that(1) by simp
  qed
  show ?thesis
    using aux [of x y] aux [of y x] assms(2-4) by (cases "x \<le> y") auto
qed

lemma get_request_complex_ok:
  assumes "sound_args (args s)" and "tid < length (reconnect_modes s)"
  shows "\<exists>rmode rs qs s'. (get_request_complex tid s = Inr (sql_request (rs @ qs), s') \<and>
    complex_queries (args s) rmode qs \<and> req_performed s' = req_performed s + 1 \<and> args s' = args s \<and>
    (if reconnect_mode (args s) = RECONNECT_RANDOM
     then rmode = reconnect_modes s' ! tid \<and> rmode \<in> {RECONNECT_SESSION, RECONNECT_QUERY, RECONNECT_TRANSACTION} \<and>
       map q_type rs =
         (if reconnect_modes s ! tid = RECONNECT_SESSION \<and> rmode \<noteq> RECONNECT_SESSION then [SB_SQL_QUERY_RECONNECT] else [])
     else rmode = reconnect_mode (args s) \<and> rs = [])) \<and>
    list_all (query_ok (args s)) rs \<and>
    (reconnect_mode (args s) \<noteq> RECONNECT_RANDOM \<longrightarrow> same_but_rng (s\<lparr>req_performed := req_performed s + 1\<rparr>) s')"
proof -
  obtain rmode rs s3 where st: "complex_start tid s = (rmode, rs, s3)" by (metis prod_cases3)
  note start = complex_start_cases [OF st assms(2), of "args s"]
  obtain qs s4 where q: "queries_all (begin_query # read_queries (args s) rmode @ write_queries (args s) rmode @ [commit_query rmode]) s3 =
      Inr (qs, s4)" "complex_queries (args s) rmode qs" "same_but_rng s3 s4"
    using complex_queries_generated [of "args s" s3 rmode] assms(1) start by auto
  let ?s = "s4\<lparr>req_performed := req_performed s4 + 1\<rparr>"
  from start have "args s3 = args s" by blast
  then have "get_request_complex tid s = Inr (sql_request (rs @ qs), ?s)"
    unfolding get_request_complex_def st by (simp add: q(1) Let_def del: queries_all.simps)
  moreover obtain rng where s4: "s4 = s3\<lparr>oltp_rng := rng\<rparr>" using q(3) by (auto simp: same_but_rng_def)
  moreover have "args ?s = args s" "req_performed ?s = req_performed s + 1" using start by (simp_all add: s4)
  moreover have "if reconnect_mode (args s) = RECONNECT_RANDOM
     then rmode = reconnect_modes ?s ! tid \<and> rmode \<in> {RECONNECT_SESSION, RECONNECT_QUERY, RECONNECT_TRANSACTION} \<and>
       map q_type rs =
         (if reconnect_modes s ! tid = RECONNECT_SESSION \<and> rmode \<noteq> RECONNECT_SESSION then [SB_SQL_QUERY_RECONNECT] else [])
     else rmode = reconnect_mode (args s) \<and> rs = []"
    using start by (auto simp: s4 split: if_splits)
  moreover have "same_but_rng (s\<lparr>req_performed := req_performed s + 1\<rparr>) ?s" if "reconnect_mode (args s) \<noteq> RECONNECT_RANDOM"
  proof -
    from start that have "s3 = s" by presburger
    then show ?thesis unfolding same_but_rng_def s4 by (intro exI [of _ rng]) simp
  qed
  ultimately show ?thesis using start q(2) by blast
qed

lemma mult_mod_inj_on:
  assumes "coprime p (n :: nat)"
  shows "inj_on (\<lambda>m. m * p mod n + 1) {1..<1 + n}"
proof (rule inj_onI)
  fix x y assume xy: "x \<in> {1..<1 + n}" "y \<in> {1..<1 + n}" and eq: "x * p mod n + 1 = y * p mod n + 1"
  from eq have "x * p mod n = y * p mod n" by (rule add_right_imp_eq)
  moreover from xy have "x < y + n" "y < x + n" by simp_all
  ultimately show "x = y" by (rule mult_mod_inj [OF assms])
qed

section \<open>Properties\<close>

text \<open>
  C23: With sound options every request of the OLTP test, in every mode, stays in the table: the rows of
  its point selects, updates, deletes and inserts exist, and its ranges lie within the table and have
  as many rows as validation expects.
\<close>

theorem oltp_requests_in_table:
  assumes "sound_args (args s)" and "unat tid < length (reconnect_modes s)"
  shows "\<exists>r g' s'. oltp_get_request tid (g, s) = Inr (r, g', s') \<and> list_all (query_ok (args s)) (req_data r) \<and>
    args s' = args s"
proof (cases "max_requests g > 0 \<and> req_performed s \<ge> max_requests g")
  case True
  then show ?thesis by (simp add: oltp_get_request_def)
next
  case False
  let ?a = "args s"
  have d: "sound_dist ?a" and n: "table_size ?a \<noteq> 0" using assms(1) by (auto simp: sound_args_def sound_dist_def Let_def)
  obtain t s1 where t: "get_think_time s = (t, s1)" by fastforce
  have a1: "args s1 = ?a" by (rule same_but_rng_args [OF get_think_time_same [OF t]])
  obtain i s2 where i: "get_random_id s1 = Inr (i, s2)" "id_ok ?a i" "args s2 = ?a"
    by (rule draw_query [OF d refl t])
  have ends: "\<exists>r s''. finish_request q s' = (r, s'') \<and> list_all (query_ok ?a) (req_data r) \<and> args s'' = ?a"
    if "query_ok ?a q" "args s' = ?a" for q and s' :: "'a oltp_state"
    using finish_request_ok [of q s' _ _ ?a] that by (cases "finish_request q s'") auto
  show ?thesis
  proof (cases "test_mode ?a")
    case TEST_MODE_SIMPLE
    have "query_ok ?a ((new_query SB_SQL_QUERY_POINT t)\<lparr>q_id := i, nrows := 1\<rparr>)"
      using i(2) by (simp add: query_ok_def new_query_def)
    from ends [OF this i(3)] TEST_MODE_SIMPLE False t i show ?thesis
      by (auto simp: oltp_get_request_def get_request_simple_def)
  next
    case TEST_MODE_COMPLEX
    from get_request_complex_ok [OF assms] obtain rmode rs qs s' where "get_request_complex (unat tid) s = Inr (sql_request (rs @ qs), s')"
      "complex_queries ?a rmode qs" "list_all (query_ok ?a) rs" "args s' = ?a"
      by blast
    then show ?thesis
      using TEST_MODE_COMPLEX False by (auto simp: oltp_get_request_def sql_request_def complex_queries_def)
  next
    case TEST_MODE_SP
    have "query_ok ?a (new_query SB_SQL_QUERY_CALL t)" by (simp add: query_ok_def new_query_def)
    from ends [OF this a1] TEST_MODE_SP False t show ?thesis by (auto simp: oltp_get_request_def get_request_sp_def)
  next
    case TEST_MODE_NONTRX
    obtain i s2 where i: "(if nontrx_mode ?a = NONTRX_MODE_DELETE then get_unique_random_id s1 else get_random_id s1) = Inr (i, s2)"
      "id_ok ?a i" "args s2 = ?a"
    proof (cases "nontrx_mode ?a = NONTRX_MODE_DELETE")
      case True
      then show ?thesis using that get_unique_random_id_ok [of s1] n a1 by force
    next
      case False
      then show ?thesis using that i by force
    qed
    let ?q = "case nontrx_mode (args s2) of
                   NONTRX_MODE_SELECT \<Rightarrow> (new_query SB_SQL_QUERY_POINT t)\<lparr>q_id := i, nrows := 1\<rparr>
                 | NONTRX_MODE_UPDATE_KEY \<Rightarrow> (new_query SB_SQL_QUERY_UPDATE_INDEX t)\<lparr>q_id := i\<rparr>
                 | NONTRX_MODE_UPDATE_NOKEY \<Rightarrow> (new_query SB_SQL_QUERY_UPDATE_NON_INDEX t)\<lparr>q_id := i\<rparr>
                 | NONTRX_MODE_INSERT \<Rightarrow> (new_query SB_SQL_QUERY_INSERT t)\<lparr>q_id := i\<rparr>
                 | NONTRX_MODE_DELETE \<Rightarrow> (new_query SB_SQL_QUERY_DELETE t)\<lparr>q_id := i\<rparr>"
    have "query_ok ?a ?q" using i(2) by (simp add: query_ok_def new_query_def split: nontrx_mode.splits)
    from ends [OF this i(3)] TEST_MODE_NONTRX False t i(1) a1 show ?thesis
      by (auto simp: oltp_get_request_def get_request_nontrx_def)
  qed
qed

definition demo_args :: oltp_args_t where
  "demo_args =
     \<lparr>test_mode = TEST_MODE_COMPLEX, reconnect_mode = RECONNECT_SESSION, read_only = False, skip_trx = False, auto_inc = True,
      range_size = 100, point_selects = 10, simple_ranges = 1, sum_ranges = 1, order_ranges = 1, distinct_ranges = 1,
      index_updates = 1, non_index_updates = 1, nontrx_mode = NONTRX_MODE_SELECT, connect_delay = 10000,
      user_delay_min = 0, user_delay_max = 0, table_name = Some ''sbtest'', sp_name = None, table_size = 10000,
      dist_type = DIST_TYPE_SPECIAL, dist_iter = 12, dist_pct = 1, dist_res = 75\<rparr>"

definition demo_caps :: drv_caps where
  "demo_caps =
     \<lparr>multi_rows_insert = True, transactions = True, prepared_statements = True, auto_increment = True, needs_commit = False,
      serial = False, unsigned_int = True, table_options_str = None\<rparr>"

text \<open>The default options, as they are before the first request.\<close>

definition demo_oltp :: "'w db_driver \<Rightarrow> 'w db_state \<Rightarrow> 'w oltp_state" where
  "demo_oltp d db =
     \<lparr>args = demo_args, req_performed = 0, connections = [Some 0], statements = [Map.empty], bind_bufs = [zero_bufs],
      reconnect_modes = [RECONNECT_SESSION], driver = Some d, driver_caps = demo_caps, read_ops = 0, write_ops = 0,
      other_ops = 0, transactions_done = 0, deadlocks = 0, rnd_seed = LARGE_PRIME, oltp_rng = sb_srnd 0, oltp_opts = [],
      bound = (\<lambda>_. []), row_mismatches = [], oltp_db = db\<rparr>"

lemma demo_args_sound: "sound_args demo_args" "sound_dist demo_args"
  by (simp_all add: sound_args_def sound_dist_def demo_args_def)

theorem oltp_requests_in_table_witness:
  "\<exists>r g' s'. oltp_get_request 0 (one_thread_globals, demo_oltp (demo_driver ''mysql'') (demo_db 0)) = Inr (r, g', s') \<and>
     list_all (query_ok demo_args) (req_data r)"
  using oltp_requests_in_table [of "demo_oltp (demo_driver ''mysql'') (demo_db 0)" 0 one_thread_globals]
  by (auto simp: demo_oltp_def demo_args_sound)

text \<open>
  C24: With sound options a request of the complex mode is, after its reconnects, BEGIN, the configured
  numbers of selects and updates in order (each followed by a reconnect in the mode that asks for it),
  the update, delete and insert of a single row, and COMMIT; the random mode draws a new reconnect mode for
  each request of a thread and reconnects when it leaves the session mode.
\<close>

theorem oltp_complex_request:
  assumes "sound_args (args s)" and "tid < length (reconnect_modes s)"
  shows "\<exists>rmode rs qs s'. get_request_complex tid s = Inr (sql_request (rs @ qs), s') \<and>
    complex_queries (args s) rmode qs \<and> req_performed s' = req_performed s + 1 \<and> args s' = args s \<and>
    (if reconnect_mode (args s) = RECONNECT_RANDOM
     then rmode = reconnect_modes s' ! tid \<and> rmode \<in> {RECONNECT_SESSION, RECONNECT_QUERY, RECONNECT_TRANSACTION} \<and>
       map q_type rs =
         (if reconnect_modes s ! tid = RECONNECT_SESSION \<and> rmode \<noteq> RECONNECT_SESSION then [SB_SQL_QUERY_RECONNECT] else [])
     else rmode = reconnect_mode (args s) \<and> rs = [])"
  using get_request_complex_ok [OF assms] by blast

theorem oltp_complex_request_witness:
  "\<exists>qs s'. get_request_complex 0 (demo_oltp (demo_driver ''mysql'') (demo_db 0)) = Inr (sql_request qs, s') \<and>
     complex_queries demo_args RECONNECT_SESSION qs"
proof -
  let ?s = "demo_oltp (demo_driver ''mysql'') (demo_db 0)"
  have "sound_args (args ?s)" "0 < length (reconnect_modes ?s)" "reconnect_mode (args ?s) = RECONNECT_SESSION" "args ?s = demo_args"
    by (simp_all add: demo_oltp_def demo_args_sound) (simp add: demo_args_def)
  with oltp_complex_request [of ?s 0] show ?thesis by auto
qed

text \<open>
  C25: The ids for the delete test and for the inserts are unique: when the number of rows has no factor
  in common with the step 2147483647, that many calls in a row return every id of the table exactly once.
\<close>

theorem unique_ids_cover_table:
  assumes "table_size (args s) \<noteq> 0" and "rnd_seed s = LARGE_PRIME" and "coprime 2147483647 (unat (table_size (args s)))"
  shows "\<exists>is s'. unique_ids (unat (table_size (args s))) s = Inr (is, s') \<and> distinct is \<and>
    unat ` set is = {1..unat (table_size (args s))}"
proof -
  let ?n = "unat (table_size (args s))"
  have small: "?n < 2 ^ 32" using unsigned_less [of "table_size (args s)", where ?'a = nat] by simp
  then have "(1 + ?n) * 2147483647 < 2 ^ 64" by simp
  moreover have "unat (rnd_seed s) = 1 * 2147483647" by (simp add: assms(2) LARGE_PRIME_def)
  ultimately obtain "is" s' where r: "unique_ids ?n s = Inr (is, s')" "length is = ?n" "\<forall>i\<in>set is. id_ok (args s) i"
    "map unat is = map (\<lambda>m. m * 2147483647 mod ?n + 1) [1..<1 + ?n]"
    using unique_ids_eq [OF assms(1)] by blast
  have "inj_on (\<lambda>m. m * 2147483647 mod ?n + 1) {1..<1 + ?n}" by (rule mult_mod_inj_on [OF assms(3)])
  then have "distinct (map unat is)" unfolding r(4) by (simp only: distinct_map distinct_upt set_upt simp_thms)
  then have d: "distinct is" "card (unat ` set is) = ?n"
    using r(2) by (simp_all add: distinct_map card_image distinct_card)
  have "unat ` set is \<subseteq> {1..?n}" using r(3) by (auto simp: id_ok_unat)
  then have "unat ` set is = {1..?n}" using d(2) by (intro card_subset_eq) simp_all
  with r(1) d(1) show ?thesis by blast
qed

theorem unique_ids_cover_table_witness:
  "\<exists>is s'. unique_ids 10000 (demo_oltp (demo_driver ''mysql'') (demo_db 0)) = Inr (is, s') \<and> distinct is \<and>
     unat ` set is = {1..10000}"
proof -
  have "coprime (2147483647 :: nat) 10000" by (simp add: coprime_iff_gcd_eq_1 gcd_non_0_nat)
  then show ?thesis
    using unique_ids_cover_table [of "demo_oltp (demo_driver ''mysql'') (demo_db 0)"]
    by (auto simp: demo_oltp_def demo_args_def)
qed

section \<open>Where the options are not sound\<close>

text \<open>The special distribution draws the id 0 of a table with one row, and divides by zero.\<close>

lemma special_draws_zero:
  assumes "rnd s = (r, s')" and "r mod 4 \<noteq> 0"
    and "table_size (args s) = 1" and "dist_res (args s) = 75" and "dist_pct (args s) = 1" and "dist_type (args s) = DIST_TYPE_SPECIAL"
  shows "get_random_id s = Inr (0, s')"
proof -
  have "\<not> 1 + (of_nat (r mod 4) :: u32) \<le> 1"
  proof -
    have "r mod 4 < 4" by simp
    with assms(2) have "r mod 4 \<in> {1, 2, 3}" by auto
    then show ?thesis by (auto simp: word_le_nat_alt)
  qed
  with assms show ?thesis by (simp add: get_random_id_def rnd_func_special_def Let_def)
qed

lemma special_divides_by_zero:
  "dist_type (args s) = DIST_TYPE_SPECIAL \<Longrightarrow> dist_res (args s) = 100 \<Longrightarrow> table_size (args s) \<noteq> 0 \<Longrightarrow>
   get_random_id s = Inl (Test Division_by_zero)"
  by (simp add: get_random_id_def rnd_func_special_def)

text \<open>When a range is as large as the table, the distinct query reads one row beyond it.\<close>

lemma distinct_range_beyond_table:
  assumes "range_size a = table_size a" and "1 \<le> i" and "i \<le> table_size a" and "table_size a < 2 ^ 31"
  shows "clip_range a i + range_size a = table_size a + 1"
proof -
  have "unat (i + table_size a) = unat i + unat (table_size a)"
    using assms by (intro unat_add_lem [THEN iffD1]) (simp add: word_le_nat_alt word_less_nat_alt)
  then have "i + table_size a > table_size a" using assms(2) by (simp add: word_less_nat_alt word_le_nat_alt)
  then show ?thesis using assms(1) by (simp add: clip_range_def)
qed

end
