(* ===== verification/SbOltpRuns.thy ===== *)
theory SbOltpRuns
  imports SbOltpGen
begin

text \<open>
  What \<open>oltp_execute_request\<close> of \<open>sb_oltp.c\<close> does with the queries of a request, for every driver: how often
  they are executed, in which order, when the request is retried and what is added to the statistics.
\<close>

section \<open>The statistics stay\<close>

text \<open>The counters of the test, which only the end of a request may change.\<close>

definition counters :: "'w oltp_state \<Rightarrow> u32 \<times> u32 \<times> u32 \<times> u32 \<times> u32" where
  "counters s = (read_ops s, write_ops s, other_ops s, transactions_done s, deadlocks s)"

lemma counters_upd [simp]:
  "counters (s\<lparr>statements := a\<rparr>) = counters s" "counters (s\<lparr>bound := b\<rparr>) = counters s"
  "counters (s\<lparr>connections := c\<rparr>) = counters s" "counters (s\<lparr>oltp_db := d\<rparr>) = counters s"
  "counters (s\<lparr>oltp_rng := r\<rparr>) = counters s" "counters (s\<lparr>rnd_seed := i\<rparr>) = counters s"
  "counters (s\<lparr>row_mismatches := m\<rparr>) = counters s" "counters (s\<lparr>bind_bufs := bufs\<rparr>) = counters s"
  "counters (put_stmt tid slot st s) = counters s" "counters (set_bufs tid f s) = counters s"
  by (simp_all add: counters_def put_stmt_def set_bufs_def)

lemma db_call_counters: "db_call f s = Inr (x, s') \<Longrightarrow> counters s' = counters s"
  by (auto simp: db_call_def split: sum.splits)

lemma bind_params_counters: "bind_params st ps s = Inr (x, s') \<Longrightarrow> counters s' = counters s"
  by (auto simp: bind_params_def and_then_def check_def bind_res_Inr_iff dest: db_call_counters split: if_splits)

lemma prepare_one_counters: "prepare_one tid con d s = Inr (x, s') \<Longrightarrow> counters s' = counters s"
  by (auto simp: prepare_one_def check_def Let_def bind_res_Inr_iff dest!: db_call_counters bind_params_counters
      split: prod.splits option.splits if_splits)

lemma prepare_all_counters: "prepare_all tid con ds s = Inr (x, s') \<Longrightarrow> counters s' = counters s"
proof (induction ds arbitrary: s)
  case (Cons d ds)
  then show ?case
    by (auto simp: and_then_def bind_res_Inr_iff dest!: prepare_one_counters split: if_splits)
qed (simp add: check_def)

lemma and_then_counters:
  assumes "and_then p f = Inr (x, s')"
    and "\<And>x s1. p = Inr (x, s1) \<Longrightarrow> counters s1 = c"
    and "\<And>s1. counters s1 = c \<Longrightarrow> f s1 = Inr (x, s') \<Longrightarrow> counters s' = c"
  shows "counters s' = c"
  using assms by (auto simp: and_then_def bind_res_Inr_iff split: if_splits)

lemma prepare_stmt_set_counters:
  assumes "prepare_stmt_set tid con s = Inr (x, s')"
  shows "counters s' = counters s"
proof -
  have trx: "counters s' = counters s" if "prepare_stmt_set_trx tid con s = Inr (x, s')"
  proof (rule and_then_counters [OF that [unfolded prepare_stmt_set_trx_def Let_def]])
    show "counters s1 = counters s" if "prepare_all tid con (trx_statements (cstr_text (table_name (args s)))) s = Inr (y, s1)" for y s1
      using that by (rule prepare_all_counters)
  qed (auto simp: check_def dest: prepare_all_counters split: if_splits)
  have non: "counters s' = counters s" if "prepare_stmt_set_nontrx tid con s = Inr (x, s')"
    by (rule and_then_counters [OF that [unfolded prepare_stmt_set_nontrx_def Let_def] prepare_all_counters], assumption)
      (auto simp: check_def bind_res_Inr_iff dest: db_call_counters)
  have sp: "counters s' = counters s" if "prepare_stmt_set_sp tid con s = Inr (x, s')"
    using that unfolding prepare_stmt_set_sp_def by (rule prepare_one_counters)
  from assms trx non sp show ?thesis
    unfolding prepare_stmt_set_def by (cases "test_mode (args s)") simp_all
qed

lemma close_slots_counters: "close_slots tid xs s = Inr s' \<Longrightarrow> counters s' = counters s"
proof (induction xs arbitrary: s)
  case (Cons x xs)
  then show ?case by (auto simp: bind_res_Inr_iff dest!: db_call_counters)
qed simp

lemma oltp_connect_counters: "oltp_connect s = (con, s') \<Longrightarrow> counters s' = counters s"
  by (auto simp: oltp_connect_def split: prod.splits)

lemma oltp_disconnect_counters: "oltp_disconnect con s = Inr (x, s') \<Longrightarrow> counters s' = counters s"
  by (auto simp: oltp_disconnect_def dest: db_call_counters split: option.splits)

lemma oltp_reconnect_counters:
  assumes "oltp_reconnect tid s = Inr (x, s')"
  shows "counters s' = counters s"
proof -
  from assms obtain s1 rc s2 where 1: "close_stmt_set tid s = Inr s1"
    and 2: "oltp_disconnect (connections s1 ! tid) s1 = Inr (rc, s2)"
    and 3: "(if rc \<noteq> 0 then check False s2
       else let (con, s) = oltp_connect s2; s = s\<lparr>connections := (connections s)[tid := con]\<rparr>
         in case con of None \<Rightarrow> check False s
            | Some c \<Rightarrow> bind_res (prepare_stmt_set tid c s) (\<lambda>(rc, s). check (rc = 0) s)) = Inr (x, s')"
    unfolding oltp_reconnect_def bind_res_Inr_iff by auto
  have s1: "counters s1 = counters s"
    using 1 by (auto simp: close_stmt_set_def bind_res_Inr_iff dest: close_slots_counters)
  obtain con s3 where c: "oltp_connect s2 = (con, s3)" by fastforce
  have "counters s' = counters s2"
  proof (cases "rc = 0")
    case True
    with 3 c have "counters s' = counters s3"
      by (cases con) (auto simp: check_def bind_res_Inr_iff dest!: prepare_stmt_set_counters)
    with oltp_connect_counters [OF c] show ?thesis by simp
  qed (use 3 in \<open>simp add: check_def\<close>)
  with s1 oltp_disconnect_counters [OF 2] show ?thesis by simp
qed

lemma random_text_counters: "random_text n s = (x, s') \<Longrightarrow> counters s' = counters s"
  by (induction n s arbitrary: x s' rule: random_text.induct)
    (auto simp: rnd_def Let_def split: prod.splits)

lemma bind_query_counters: "bind_query st ps s = Inr (x, s') \<Longrightarrow> counters s' = counters s"
  by (auto simp: bind_query_def bind_res_Inr_iff dest!: bind_params_counters split: option.splits)

lemma non_index_counters: "non_index_statement q tid s = Inr (x, s') \<Longrightarrow> counters s' = counters s"
  by (auto simp: non_index_statement_def Let_def dest!: random_text_counters bind_query_counters split: prod.splits)

lemma insert_statement_counters: "insert_statement q tid s = Inr (x, s') \<Longrightarrow> counters s' = counters s"
  by (auto simp: insert_statement_def get_unique_random_id_def Let_def bind_res_Inr_iff
      dest!: random_text_counters bind_query_counters split: prod.splits if_splits)

lemma get_sql_statement_counters: "get_sql_statement g q tid s = Inr (x, s') \<Longrightarrow> counters s' = counters s"
  by (auto simp: get_sql_statement_def get_sql_statement_sp_def get_sql_statement_trx_def get_sql_statement_nontrx_def Let_def
      dest!: non_index_counters insert_statement_counters split: oltp_mode.splits sb_sql_query_type.splits)

lemma free_results_counters: "free_results rs s = Inr s' \<Longrightarrow> counters s' = counters s"
  by (auto simp: free_results_def bind_res_Inr_iff dest: db_call_counters)

lemma check_rows_counters:
  assumes "check_rows g q rs s = Inr s'"
  shows "counters s' = counters s"
proof (cases "db_call (db_num_rows (drv s) rs) s")
  case (Inr r)
  obtain n s1 where r: "r = (n, s1)" by fastforce
  have "counters s1 = counters s" using Inr unfolding r by (rule db_call_counters)
  with assms Inr r show ?thesis by (cases "n = nrows q") (auto simp: check_rows_def split: if_splits)
qed (use assms in \<open>auto simp: check_rows_def split: if_splits\<close>)

lemma fetch_results_counters:
  assumes "fetch_results q rs (g, s) = Inr (e, g', s')"
  shows "counters s' = counters s"
proof (cases "is_select (q_type q)")
  case True
  with assms obtain rc s1 where "db_call (db_store_results (drv s) rs) s = Inr (rc, s1)"
    and "(if rc = 1 then bind_res (free_results rs s1) (\<lambda>s. Inr (Query_deadlock, g, s))
         else if rc \<noteq> 0 then Inr (Query_error, g\<lparr>error := 1\<rparr>, s1)
         else bind_res (check_rows g q rs s1) (\<lambda>s. bind_res (free_results rs s) (\<lambda>s. Inr (Query_done, g, s)))) = Inr (e, g', s')"
    unfolding fetch_results_def by (auto simp: bind_res_Inr_iff)
  then show ?thesis
    by (auto simp: bind_res_Inr_iff dest!: db_call_counters free_results_counters check_rows_counters split: if_splits)
next
  case False
  with assms show ?thesis by (auto simp: fetch_results_def bind_res_Inr_iff dest: free_results_counters)
qed

lemma run_statement_counters:
  assumes "run_statement see tid q st (g, s) = Inr (e, g', s')"
  shows "counters s' = counters s"
proof -
  from assms obtain rs s1 where 1: "db_call (\<lambda>d. db_execute (drv s) st (see (bound_values tid st s) d)) s = Inr (rs, s1)"
    and 2: "(case rs of None \<Rightarrow> bind_res (conn_error tid s1) (\<lambda>rc.
               Inr (if rc \<noteq> SB_DB_ERROR_DEADLOCK then (Query_error, g\<lparr>error := 1\<rparr>, s1) else (Query_deadlock, g, s1)))
             | Some rs \<Rightarrow> fetch_results q rs (g, s1)) = Inr (e, g', s')"
    unfolding run_statement_def by (auto simp: bind_res_Inr_iff)
  have "counters s' = counters s1"
  proof (cases rs)
    case None
    with 2 show ?thesis by (auto simp: bind_res_Inr_iff split: if_splits)
  next
    case (Some r)
    with 2 show ?thesis using fetch_results_counters by auto
  qed
  with db_call_counters [OF 1] show ?thesis by simp
qed

lemma oltp_query_counters: "oltp_query see tid q (g, s) = Inr (e, g', s') \<Longrightarrow> counters s' = counters s"
  by (auto simp: oltp_query_def bind_res_Inr_iff
      dest!: oltp_reconnect_counters get_sql_statement_counters run_statement_counters split: option.splits if_splits)

section \<open>Passes over the queries\<close>

text \<open>The queries were all executed, one after the other.\<close>

primrec all_done ::
  "(oltp_value list \<Rightarrow> 'w db_state \<Rightarrow> 'w db_state) \<Rightarrow> nat \<Rightarrow> sb_sql_query list \<Rightarrow>
   'w oltp_state world \<Rightarrow> 'w oltp_state world \<Rightarrow> bool" where
  "all_done see tid [] w w' \<longleftrightarrow> w' = w"
| "all_done see tid (q # qs) w w' \<longleftrightarrow>
     (\<exists>w1. oltp_query see tid q w = Inr (Query_done, w1) \<and> all_done see tid qs w1 w')"

text \<open>The queries before the \<open>k\<close>-th were executed, and that one ended with \<open>e\<close>.\<close>

definition stopped_at ::
  "(oltp_value list \<Rightarrow> 'w db_state \<Rightarrow> 'w db_state) \<Rightarrow> nat \<Rightarrow> sb_sql_query list \<Rightarrow> query_end \<Rightarrow> nat \<Rightarrow>
   'w oltp_state world \<Rightarrow> 'w oltp_state world \<Rightarrow> bool" where
  "stopped_at see tid qs e k w w' \<longleftrightarrow> k < length qs \<and>
     (\<exists>w1. all_done see tid (take k qs) w w1 \<and> oltp_query see tid (qs ! k) w1 = Inr (e, w'))"

text \<open>Passes from the first query on, each ended by a deadlock, at the given positions.\<close>

primrec deadlocked_passes ::
  "(oltp_value list \<Rightarrow> 'w db_state \<Rightarrow> 'w db_state) \<Rightarrow> nat \<Rightarrow> sb_sql_query list \<Rightarrow> nat list \<Rightarrow>
   'w oltp_state world \<Rightarrow> 'w oltp_state world \<Rightarrow> bool" where
  "deadlocked_passes see tid qs [] w w' \<longleftrightarrow> w' = w"
| "deadlocked_passes see tid qs (k # ks) w w' \<longleftrightarrow>
     (\<exists>w1. stopped_at see tid qs Query_deadlock k w w1 \<and> deadlocked_passes see tid qs ks w1 w')"

text \<open>The queries that those passes and one without a deadlock executed, and the numbers of statements by kind.\<close>

definition executed :: "nat list \<Rightarrow> sb_sql_query list \<Rightarrow> sb_sql_query list" where
  "executed ks qs = concat (map (\<lambda>k. take (Suc k) qs) ks) @ qs"

definition write_types :: "sb_sql_query_type set" where
  "write_types =
     {SB_SQL_QUERY_UPDATE_INDEX, SB_SQL_QUERY_UPDATE_NON_INDEX, SB_SQL_QUERY_DELETE, SB_SQL_QUERY_INSERT}"

definition other_types :: "sb_sql_query_type set" where
  "other_types =
     {SB_SQL_QUERY_NULL, SB_SQL_QUERY_LOCK, SB_SQL_QUERY_UNLOCK, SB_SQL_QUERY_CALL, SB_SQL_QUERY_RECONNECT}"

definition count_of :: "sb_sql_query_type set \<Rightarrow> sb_sql_query list \<Rightarrow> u32" where
  "count_of T qs = of_nat (length (filter (\<lambda>q. q_type q \<in> T) qs))"

lemma all_done_keeps: "all_done see tid qs w w' \<Longrightarrow> counters (snd w') = counters (snd w)"
  by (induction qs arbitrary: w) (auto, metis oltp_query_counters prod.collapse)

lemma stopped_at_keeps: "stopped_at see tid qs e k w w' \<Longrightarrow> counters (snd w') = counters (snd w)"
  unfolding stopped_at_def by (metis all_done_keeps oltp_query_counters prod.collapse)

lemma deadlocked_passes_keeps:
  "deadlocked_passes see tid qs ks w w' \<Longrightarrow> counters (snd w') = counters (snd w)"
  by (induction ks arbitrary: w) (auto dest!: stopped_at_keeps)

lemma stopped_at_Cons:
  "stopped_at see tid (q # qs) e k w w' \<longleftrightarrow>
     k = 0 \<and> oltp_query see tid q w = Inr (e, w') \<or>
     (\<exists>j w1. k = Suc j \<and> oltp_query see tid q w = Inr (Query_done, w1) \<and> stopped_at see tid qs e j w1 w')"
  by (cases k) (auto simp: stopped_at_def)

lemma stopped_at_Nil [simp]: "\<not> stopped_at see tid [] e k w w'"
  by (simp add: stopped_at_def)

section \<open>What is counted\<close>

lemma count_query_deadlocks:
  "count_query q (l\<lparr>local_deadlocks := d\<rparr>) = (count_query q l)\<lparr>local_deadlocks := d\<rparr>"
  "local_deadlocks (count_query q l) = local_deadlocks l"
  by (simp_all add: count_query_def)

lemma fold_count_deadlocks: "local_deadlocks (fold count_query qs l) = local_deadlocks l"
  by (induction qs arbitrary: l) (simp_all add: count_query_deadlocks)

lemma fold_count_upd:
  "fold count_query qs (l\<lparr>local_deadlocks := d\<rparr>) = (fold count_query qs l)\<lparr>local_deadlocks := d\<rparr>"
  by (induction qs arbitrary: l) (simp_all add: count_query_deadlocks)

lemma fold_count_ops:
  assumes "\<forall>q \<in> set qs. num_times q = 1"
  shows "local_write_ops (fold count_query qs l) = local_write_ops l + count_of write_types qs"
    and "local_other_ops (fold count_query qs l) = local_other_ops l + count_of other_types qs"
    and "local_read_ops (fold count_query qs l) = local_read_ops l + count_of (- (write_types \<union> other_types)) qs"
proof -
  have one: "local_write_ops (count_query q l) = local_write_ops l + count_of write_types [q] \<and>
      local_other_ops (count_query q l) = local_other_ops l + count_of other_types [q] \<and>
      local_read_ops (count_query q l) = local_read_ops l + count_of (- (write_types \<union> other_types)) [q]"
    if "num_times q = 1" for q l
    using that
    by (cases "q_type q")
      (simp_all add: count_query_def count_of_def write_types_def other_types_def is_read_def is_write_def)
  have cons: "count_of T (q # qs) = count_of T [q] + count_of T qs" for T q qs
    by (simp add: count_of_def)
  have "local_write_ops (fold count_query qs l) = local_write_ops l + count_of write_types qs \<and>
      local_other_ops (fold count_query qs l) = local_other_ops l + count_of other_types qs \<and>
      local_read_ops (fold count_query qs l) = local_read_ops l + count_of (- (write_types \<union> other_types)) qs"
    using assms
  proof (induction qs arbitrary: l)
    case (Cons q qs)
    then show ?case using one [of q l] by (simp add: cons [of _ q qs])
  qed (simp add: count_of_def)
  then show "local_write_ops (fold count_query qs l) = local_write_ops l + count_of write_types qs"
    "local_other_ops (fold count_query qs l) = local_other_ops l + count_of other_types qs"
    "local_read_ops (fold count_query qs l) = local_read_ops l + count_of (- (write_types \<union> other_types)) qs"
    by simp_all
qed

text \<open>The local counters after deadlocked passes.\<close>

definition counted :: "sb_sql_query list \<Rightarrow> nat list \<Rightarrow> op_counts \<Rightarrow> op_counts" where
  "counted qs ks l =
     (fold count_query (concat (map (\<lambda>k. take (Suc k) qs) ks)) l)\<lparr>local_deadlocks := local_deadlocks l + of_nat (length ks)\<rparr>"

lemma counted_simps:
  "counted qs [] l = l"
  "counted qs (k # ks) l =
     counted qs ks ((fold count_query (take (Suc k) qs) l)\<lparr>local_deadlocks := local_deadlocks l + 1\<rparr>)"
  by (simp_all add: counted_def fold_count_upd)

section \<open>The code's passes\<close>

lemma repeat_query_once:
  "num_times q = 1 \<Longrightarrow> repeat_query see tid q (unat (num_times q)) w = oltp_query see tid q w"
  by (cases "oltp_query see tid q w") (auto split: if_splits)

text \<open>A pass ends in exactly one way.\<close>

lemma oltp_pass_iff:
  assumes "\<forall>q \<in> set qs. num_times q = 1"
  shows "oltp_pass see tid qs l w = Inr (e, l', w') \<longleftrightarrow>
    (case e of
       Query_done \<Rightarrow> all_done see tid qs w w' \<and> l' = fold count_query qs l
     | Query_deadlock \<Rightarrow> (\<exists>k. stopped_at see tid qs Query_deadlock k w w' \<and>
         l' = (fold count_query (take (Suc k) qs) l)\<lparr>local_deadlocks := local_deadlocks l + 1\<rparr>)
     | Query_error \<Rightarrow> (\<exists>k. stopped_at see tid qs Query_error k w w' \<and> l' = fold count_query (take k qs) l))"
  using assms
proof (induction qs arbitrary: l w)
  case Nil
  then show ?case by (cases e) auto
next
  case (Cons q qs)
  have q: "repeat_query see tid q (unat (num_times q)) w = oltp_query see tid q w"
    by (rule repeat_query_once) (use Cons.prems in simp)
  note IH = Cons.IH [of "count_query q l"]
  show ?case
  proof (cases "oltp_query see tid q w")
    case (Inl x)
    then show ?thesis by (cases e) (simp_all add: q stopped_at_Cons)
  next
    case (Inr r)
    obtain d w1 where r: "r = (d, w1)" by (metis surj_pair)
    show ?thesis
    proof (cases d)
      case Query_done
      then show ?thesis using Cons.prems Inr r q IH [of w1]
        by (cases e) (auto simp: stopped_at_Cons count_query_deadlocks)
    next
      case Query_deadlock
      then show ?thesis using Inr r q
        by (cases e) (auto simp: stopped_at_Cons count_query_deadlocks)
    next
      case Query_error
      then show ?thesis using Inr r q by (cases e) (auto simp: stopped_at_Cons)
    qed
  qed
qed

lemma oltp_passes_finite:
  assumes one: "\<forall>q \<in> set qs. num_times q = 1"
    and dl: "deadlocked_passes see tid qs ks w w1"
    and last: "oltp_pass see tid qs (counted qs ks l) w1 = Inr (e, l', w')" "e \<noteq> Query_deadlock"
  shows "oltp_passes see tid qs l w = Some (Inr (e, l', w'))"
  using dl last
proof (induction ks arbitrary: l w)
  case Nil
  then show ?case by (simp add: counted_simps oltp_passes.simps)
next
  case (Cons k ks)
  then obtain w2 where w2: "stopped_at see tid qs Query_deadlock k w w2" "deadlocked_passes see tid qs ks w2 w1"
    by auto
  let ?l = "(fold count_query (take (Suc k) qs) l)\<lparr>local_deadlocks := local_deadlocks l + 1\<rparr>"
  have "oltp_pass see tid qs l w = Inr (Query_deadlock, ?l, w2)"
    unfolding oltp_pass_iff [OF one] using w2(1) by auto
  then have "oltp_passes see tid qs l w = oltp_passes see tid qs ?l w2"
    by (simp add: oltp_passes.simps [of see tid qs l])
  with Cons.IH [OF w2(2), of ?l] Cons.prems(2,3) show ?case by (simp add: counted_simps)
qed

lemma oltp_passes_some_aux:
  "oltp_passes see tid qs l w = Some r \<Longrightarrow> 
   (\<forall>q \<in> set qs. num_times q = 1) \<longrightarrow> (\<forall>e l' w'. r = Inr (e, l', w') \<longrightarrow>
      (\<exists>ks w1. deadlocked_passes see tid qs ks w w1 \<and>
        oltp_pass see tid qs (counted qs ks l) w1 = Inr (e, l', w') \<and> e \<noteq> Query_deadlock))"
proof (induction see tid qs l w r rule: oltp_passes.raw_induct [rotated, consumes 1, case_names step])
  case (step passes see tid qs l w r)
  show ?case
  proof (intro impI allI)
    fix e l' w' assume one: "\<forall>q \<in> set qs. num_times q = 1" and r: "r = Inr (e, l', w')"
    show "\<exists>ks w1. deadlocked_passes see tid qs ks w w1 \<and>
        oltp_pass see tid qs (counted qs ks l) w1 = Inr (e, l', w') \<and> e \<noteq> Query_deadlock"
    proof (cases "oltp_pass see tid qs l w")
      case (Inr p)
      obtain d l1 w1 where p: "p = (d, l1, w1)" by (metis surj_pair)
      show ?thesis
      proof (cases "d = Query_deadlock")
        case True
        from Inr p True obtain k where k: "stopped_at see tid qs Query_deadlock k w w1"
          "l1 = (fold count_query (take (Suc k) qs) l)\<lparr>local_deadlocks := local_deadlocks l + 1\<rparr>"
          using oltp_pass_iff [OF one, of see tid l w d l1 w1] by auto
        have "passes see tid qs l1 w1 = Some r" using step(2) Inr p True by simp
        from step(1) [OF this] one r obtain ks w2 where "deadlocked_passes see tid qs ks w1 w2"
          "oltp_pass see tid qs (counted qs ks l1) w2 = Inr (e, l', w')" "e \<noteq> Query_deadlock" by blast
        moreover from this(1) k(1) have "deadlocked_passes see tid qs (k # ks) w w2"
          unfolding deadlocked_passes.simps by blast
        ultimately show ?thesis
          using k(2) by (intro exI [of _ "k # ks"] exI [of _ w2]) (simp add: counted_simps)
      next
        case False
        with step(2) Inr p have "r = Inr (d, l1, w1)" by simp
        with r Inr p False show ?thesis by (intro exI [of _ "[]"] exI [of _ w]) (auto simp: counted_simps)
      qed
    qed (use step(2) r in simp)
  qed
qed

lemma oltp_passes_some:
  assumes "\<forall>q \<in> set qs. num_times q = 1" and "oltp_passes see tid qs l w = Some (Inr (e, l', w'))"
  shows "\<exists>ks w1. deadlocked_passes see tid qs ks w w1 \<and>
    oltp_pass see tid qs (counted qs ks l) w1 = Inr (e, l', w') \<and> e \<noteq> Query_deadlock"
  using oltp_passes_some_aux [OF assms(2)] assms(1) by blast

lemma oltp_passes_some_stops:
  "oltp_passes see tid qs l w = Some r \<Longrightarrow>
   (\<forall>q \<in> set qs. num_times q = 1) \<longrightarrow>
   (\<forall>ws. ws 0 = w \<longrightarrow> \<not> (\<forall>i. \<exists>k. stopped_at see tid qs Query_deadlock k (ws i) (ws (Suc i))))"
proof (induction see tid qs l w r rule: oltp_passes.raw_induct [rotated, consumes 1, case_names step])
  case (step passes see tid qs l w r)
  show ?case
  proof (intro allI impI notI)
    fix ws assume one: "\<forall>q \<in> set qs. num_times q = 1" and ws: "ws 0 = w"
      and all: "\<forall>i. \<exists>k. stopped_at see tid qs Query_deadlock k (ws i) (ws (Suc i))"
    from all [rule_format, of 0] ws obtain l1 where p: "oltp_pass see tid qs l w = Inr (Query_deadlock, l1, ws (Suc 0))"
      unfolding oltp_pass_iff [OF one] by auto
    with step(2) have "passes see tid qs l1 (ws (Suc 0)) = Some r" by simp
    from step(1) [OF this, THEN mp, OF one, THEN spec, of "\<lambda>i. ws (Suc i)"]
    have "\<not> (\<forall>i. \<exists>k. stopped_at see tid qs Query_deadlock k (ws (Suc i)) (ws (Suc (Suc i))))" by simp
    with all show False by blast
  qed
qed

text \<open>The passes have no end exactly if each of them ends in a deadlock.\<close>

lemma oltp_passes_none:
  assumes one: "\<forall>q \<in> set qs. num_times q = 1"
  shows "oltp_passes see tid qs l w = None \<longleftrightarrow>
    (\<exists>ws. ws 0 = w \<and> (\<forall>i. \<exists>k. stopped_at see tid qs Query_deadlock k (ws i) (ws (Suc i))))"
proof
  assume none: "oltp_passes see tid qs l w = None"
  let ?P = "\<lambda>n x. (n = 0 \<longrightarrow> x = (l, w)) \<and> oltp_passes see tid qs (fst x) (snd x) = None"
  let ?Q = "\<lambda>n x y. \<exists>k. stopped_at see tid qs Query_deadlock k (snd x) (snd y)"
  have "\<exists>f. \<forall>n. ?P n (f n) \<and> ?Q n (f n) (f (Suc n))"
  proof (rule dependent_nat_choice [of ?P ?Q])
    fix x :: "op_counts \<times> 'a oltp_state world" and n :: nat assume x: "?P n x"
    obtain l0 w0 where x0: "x = (l0, w0)" by (metis surj_pair)
    with x have n0: "oltp_passes see tid qs l0 w0 = None" by simp
    then obtain l1 w1 where p: "oltp_pass see tid qs l0 w0 = Inr (Query_deadlock, l1, w1)"
      by (auto simp: oltp_passes.simps [of see tid qs l0] split: sum.splits if_splits)
    with n0 have "oltp_passes see tid qs l1 w1 = None" by (simp add: oltp_passes.simps [of see tid qs l0])
    with p show "\<exists>y. ?P (Suc n) y \<and> ?Q n x y"
      using oltp_pass_iff [OF one, of see tid l0 w0 Query_deadlock l1 w1] x0
      by (intro exI [of _ "(l1, w1)"]) auto
  qed (rule exI [of _ "(l, w)"], simp add: none)
  then obtain f where "f 0 = (l, w)" "\<forall>n. \<exists>k. stopped_at see tid qs Query_deadlock k (snd (f n)) (snd (f (Suc n)))"
    by blast
  then show "\<exists>ws. ws 0 = w \<and> (\<forall>i. \<exists>k. stopped_at see tid qs Query_deadlock k (ws i) (ws (Suc i)))"
    by (intro exI [of _ "snd \<circ> f"]) simp
next
  assume "\<exists>ws. ws 0 = w \<and> (\<forall>i. \<exists>k. stopped_at see tid qs Query_deadlock k (ws i) (ws (Suc i)))"
  with oltp_passes_some_stops [of see tid qs l w] one show "oltp_passes see tid qs l w = None"
    by (cases "oltp_passes see tid qs l w") blast+
qed

section \<open>Properties\<close>

lemma counted_ops:
  assumes "\<forall>q \<in> set qs. num_times q = 1"
  shows "fold count_query qs (counted qs ks no_ops) =
    \<lparr>local_read_ops = count_of (- (write_types \<union> other_types)) (executed ks qs),
     local_write_ops = count_of write_types (executed ks qs),
     local_other_ops = count_of other_types (executed ks qs), local_deadlocks = of_nat (length ks)\<rparr>"
proof -
  have "\<forall>q \<in> set (executed ks qs). num_times q = 1"
    using assms by (auto simp: executed_def dest: in_set_takeD)
  note ops = fold_count_ops [OF this, of no_ops]
  have "fold count_query qs (counted qs ks no_ops) =
      (fold count_query (executed ks qs) no_ops)\<lparr>local_deadlocks := of_nat (length ks)\<rparr>"
    by (simp add: counted_def executed_def fold_count_upd no_ops_def)
  with ops show ?thesis by (simp add: no_ops_def)
qed

text \<open>
  The statistics of \<open>s0\<close>, with those of a transaction added that was retried after deadlocks at the positions \<open>ks\<close>.
\<close>

definition with_statistics ::
  "'w oltp_state \<Rightarrow> nat list \<Rightarrow> sb_sql_query list \<Rightarrow> 'w oltp_state \<Rightarrow> 'w oltp_state" where
  "with_statistics s0 ks qs s =
     s\<lparr>read_ops := read_ops s0 + count_of (- (write_types \<union> other_types)) (executed ks qs),
       write_ops := write_ops s0 + count_of write_types (executed ks qs),
       other_ops := other_ops s0 + count_of other_types (executed ks qs),
       transactions_done := transactions_done s0 + 1, deadlocks := deadlocks s0 + of_nat (length ks)\<rparr>"

lemma add_counts_statistics:
  assumes "\<forall>q \<in> set qs. num_times q = 1"
    and "deadlocked_passes see tid qs ks (g0, s0) w" and "all_done see tid qs w (g, s)"
  shows "add_counts (fold count_query qs (counted qs ks no_ops)) s = with_statistics s0 ks qs s"
  using deadlocked_passes_keeps [OF assms(2)] all_done_keeps [OF assms(3)]
  by (simp add: counted_ops [OF assms(1)] add_counts_def counters_def with_statistics_def)

lemma request_ok_iff:
  assumes one: "\<forall>q \<in> set (req_data req). num_times q = 1"
  shows "oltp_execute_request see req tid (g0, s0) = Some (Inr (0, g, s')) \<longleftrightarrow>
    (\<exists>ks w s. deadlocked_passes see (unat tid) (req_data req) ks (g0, s0) w \<and>
       all_done see (unat tid) (req_data req) w (g, s) \<and> s' = with_statistics s0 ks (req_data req) s)"
    (is "?exec \<longleftrightarrow> (\<exists>ks w s. ?chain ks w s)")
proof
  let ?qs = "req_data req" and ?t = "unat tid"
  assume ?exec
  then obtain e l s where p: "oltp_passes see ?t ?qs no_ops (g0, s0) = Some (Inr (e, l, g, s))"
    and e: "e \<noteq> Query_error" "s' = add_counts l s"
    by (auto simp: oltp_execute_request_def bind_res_Inr_iff split: if_splits)
  from oltp_passes_some [OF one p] obtain ks w where w: "deadlocked_passes see ?t ?qs ks (g0, s0) w"
    "oltp_pass see ?t ?qs (counted ?qs ks no_ops) w = Inr (e, l, g, s)" "e \<noteq> Query_deadlock" by blast
  with e(1) have d: "all_done see ?t ?qs w (g, s)" "l = fold count_query ?qs (counted ?qs ks no_ops)"
    unfolding oltp_pass_iff [OF one, of see ?t] by (cases e; simp)+
  have "?chain ks w s" using w(1) d e(2) add_counts_statistics [OF one w(1) d(1)] by simp
  then show "\<exists>ks w s. ?chain ks w s" by blast
next
  let ?qs = "req_data req" and ?t = "unat tid"
  assume "\<exists>ks w s. ?chain ks w s"
  then obtain ks w s where w: "deadlocked_passes see ?t ?qs ks (g0, s0) w" "all_done see ?t ?qs w (g, s)"
    and s': "s' = with_statistics s0 ks ?qs s" by blast
  have "oltp_pass see ?t ?qs (counted ?qs ks no_ops) w =
      Inr (Query_done, fold count_query ?qs (counted ?qs ks no_ops), g, s)"
    unfolding oltp_pass_iff [OF one, of see ?t] using w(2) by simp
  from oltp_passes_finite [OF one w(1) this] add_counts_statistics [OF one w]
  show ?exec by (simp add: oltp_execute_request_def s')
qed

lemma request_error_iff:
  assumes one: "\<forall>q \<in> set (req_data req). num_times q = 1"
  shows "oltp_execute_request see req tid (g0, s0) = Some (Inr (1, g, s')) \<longleftrightarrow>
    (\<exists>ks k w. deadlocked_passes see (unat tid) (req_data req) ks (g0, s0) w \<and>
       stopped_at see (unat tid) (req_data req) Query_error k w (g, s'))"
    (is "?exec \<longleftrightarrow> (\<exists>ks k w. ?chain ks k w)")
proof
  let ?qs = "req_data req" and ?t = "unat tid"
  assume ?exec
  then obtain l where p: "oltp_passes see ?t ?qs no_ops (g0, s0) = Some (Inr (Query_error, l, g, s'))"
    by (auto simp: oltp_execute_request_def bind_res_Inr_iff split: if_splits)
  from oltp_passes_some [OF one p] obtain ks w where w: "deadlocked_passes see ?t ?qs ks (g0, s0) w"
    "oltp_pass see ?t ?qs (counted ?qs ks no_ops) w = Inr (Query_error, l, g, s')" by blast
  then obtain k where "stopped_at see ?t ?qs Query_error k w (g, s')"
    unfolding oltp_pass_iff [OF one, of see ?t] by auto
  with w(1) show "\<exists>ks k w. ?chain ks k w" by blast
next
  let ?qs = "req_data req" and ?t = "unat tid"
  assume "\<exists>ks k w. ?chain ks k w"
  then obtain ks k w where w: "deadlocked_passes see ?t ?qs ks (g0, s0) w" "stopped_at see ?t ?qs Query_error k w (g, s')"
    by blast
  have "oltp_pass see ?t ?qs (counted ?qs ks no_ops) w =
      Inr (Query_error, fold count_query (take k ?qs) (counted ?qs ks no_ops), g, s')"
    unfolding oltp_pass_iff [OF one, of see ?t] using w(2) by auto
  from oltp_passes_finite [OF one w(1) this] show ?exec by (simp add: oltp_execute_request_def)
qed

text \<open>
  C22: The retry loop of \<open>oltp_execute_request\<close>, for every driver and any schedule of deadlocks and errors
  that it reports, on a request each of whose queries
  is to be executed once, as those of all generated requests are (\<open>query_ok\<close>).  The request returns 0 exactly
  if there are passes that all start again at the first query, each of them ended by a deadlock, and then a
  pass that executes every query; the statistics then grow by one transaction, by the number of those
  deadlocks, and by one for every read, write and other statement that was executed in any of the passes,
  those that met the deadlock included.  It returns 1 exactly if after such passes a query ends with another
  error, and the statistics are then unchanged.  It does not return exactly if every one of infinitely many
  passes ends with a deadlock.
\<close>

theorem oltp_request_retries:
  assumes "\<forall>q \<in> set (req_data req). num_times q = 1"
  shows "(oltp_execute_request see req tid (g0, s0) = Some (Inr (0, g, s')) \<longleftrightarrow>
      (\<exists>ks w s. deadlocked_passes see (unat tid) (req_data req) ks (g0, s0) w \<and>
         all_done see (unat tid) (req_data req) w (g, s) \<and> s' = with_statistics s0 ks (req_data req) s)) \<and>
    (oltp_execute_request see req tid (g0, s0) = Some (Inr (1, g, s')) \<longleftrightarrow>
      (\<exists>ks k w. deadlocked_passes see (unat tid) (req_data req) ks (g0, s0) w \<and>
         stopped_at see (unat tid) (req_data req) Query_error k w (g, s') \<and> counters s' = counters s0)) \<and>
    (oltp_execute_request see req tid (g0, s0) = None \<longleftrightarrow>
      (\<exists>ws. ws 0 = (g0, s0) \<and>
         (\<forall>i. \<exists>k. stopped_at see (unat tid) (req_data req) Query_deadlock k (ws i) (ws (Suc i)))))"
proof -
  have "counters s' = counters s0"
    if "deadlocked_passes see (unat tid) (req_data req) ks (g0, s0) w"
      and "stopped_at see (unat tid) (req_data req) Query_error k w (g, s')" for ks k w
    using deadlocked_passes_keeps [OF that(1)] stopped_at_keeps [OF that(2)] by simp
  then have err: "oltp_execute_request see req tid (g0, s0) = Some (Inr (1, g, s')) \<longleftrightarrow>
      (\<exists>ks k w. deadlocked_passes see (unat tid) (req_data req) ks (g0, s0) w \<and>
         stopped_at see (unat tid) (req_data req) Query_error k w (g, s') \<and> counters s' = counters s0)"
    unfolding request_error_iff [OF assms] by blast
  have none: "oltp_execute_request see req tid (g0, s0) = None \<longleftrightarrow>
      (\<exists>ws. ws 0 = (g0, s0) \<and>
         (\<forall>i. \<exists>k. stopped_at see (unat tid) (req_data req) Query_deadlock k (ws i) (ws (Suc i))))"
    unfolding oltp_passes_none [OF assms, of see _ no_ops, symmetric] by (simp add: oltp_execute_request_def)
  show ?thesis by (intro conjI) (rule request_ok_iff [OF assms], rule err, rule none)
qed

text \<open>
  A driver that counts the statements it executes; the second one meets a deadlock.  So a transaction of
  \<open>BEGIN\<close> and an update is executed twice.
\<close>

definition retry_driver :: "nat db_driver" where
  "retry_driver = (demo_driver ''mysql'')\<lparr>ops := demo_ops\<lparr>op_free_results := (\<lambda>_ d. (0, d)),
     op_execute := (\<lambda>_ _ d. (if drv_state d = 1 then SB_DB_ERROR_DEADLOCK else SB_DB_ERROR_NONE,
       d\<lparr>drv_state := drv_state d + 1\<rparr>))\<rparr>\<rparr>"

definition retry_stmt :: "string \<Rightarrow> db_stmt" where
  "retry_stmt q = \<lparr>st_connection = Some 0, st_query = Some q, st_bound_param = True, st_emulated = False\<rparr>"

definition retry_state :: "nat oltp_state" where
  "retry_state =
     (demo_oltp retry_driver ((demo_db 0)\<lparr>stmts := [1 \<mapsto> retry_stmt ''BEGIN'', 2 \<mapsto> retry_stmt ''UPDATE'']\<rparr>))
     \<lparr>statements := [[St_lock \<mapsto> 1, St_update_index \<mapsto> 2]]\<rparr>"

definition retry_request :: "sb_sql_query list sb_request" where
  "retry_request = sql_request [new_query SB_SQL_QUERY_LOCK 1, (new_query SB_SQL_QUERY_UPDATE_INDEX 1)\<lparr>q_id := 17\<rparr>]"

text \<open>The state of that test after \<open>n\<close> statements.\<close>

definition retry_after :: "nat \<Rightarrow> nat oltp_state \<Rightarrow> bool" where
  "retry_after n s \<longleftrightarrow> driver s = Some retry_driver \<and> connections s = [Some 0] \<and> args s = demo_args \<and>
     statements s = [[St_lock \<mapsto> 1, St_update_index \<mapsto> 2]] \<and>
     stmts (oltp_db s) = [1 \<mapsto> retry_stmt ''BEGIN'', 2 \<mapsto> retry_stmt ''UPDATE''] \<and>
     (\<exists>con. conns (oltp_db s) 0 = Some con \<and> con_driver con = Some 0) \<and> drv_state (oltp_db s) = n"

lemma retry_query:
  assumes "retry_after n s" and "q \<in> set (req_data retry_request)"
  shows "\<exists>s'. oltp_query (\<lambda>_ d. d) 0 q (g, s) = Inr (if n = 1 then Query_deadlock else Query_done, g, s') \<and>
    retry_after (Suc n) s'"
  using assms
  by (auto simp: retry_after_def retry_request_def sql_request_def new_query_def oltp_query_def get_sql_statement_def
      get_sql_statement_trx_def demo_args_def run_statement_def db_call_def db_execute_def with_stmt_def retry_stmt_def
      drv_def retry_driver_def conn_error_def db_errno_def fetch_results_def is_select_def free_results_def
      db_free_results_def with_rs_def free_old_row_def rs_zero_def set_bufs_def set_conn_def Let_def)

theorem oltp_request_retries_witness:
  "\<exists>s s'. oltp_execute_request (\<lambda>_ d. d) retry_request 0 (one_thread_globals, retry_state) =
       Some (Inr (0, one_thread_globals, s')) \<and> s' = with_statistics retry_state [1] (req_data retry_request) s \<and>
     read_ops s' = 0 \<and> write_ops s' = 2 \<and> other_ops s' = 2 \<and> transactions_done s' = 1 \<and> deadlocks s' = 1"
proof -
  let ?see = "\<lambda>_ d. d" and ?g = one_thread_globals
  obtain q1 q2 where qs: "req_data retry_request = [q1, q2]" by (simp add: retry_request_def sql_request_def)
  have 0: "retry_after 0 retry_state"
    by (simp add: retry_after_def retry_state_def demo_oltp_def demo_db_def)
  obtain s1 where s1: "oltp_query ?see 0 q1 (?g, retry_state) = Inr (Query_done, ?g, s1)" "retry_after 1 s1"
    using retry_query [OF 0, of q1 ?g] qs by auto
  obtain s2 where s2: "oltp_query ?see 0 q2 (?g, s1) = Inr (Query_deadlock, ?g, s2)" "retry_after 2 s2"
    using retry_query [OF s1(2), of q2 ?g] qs by (auto simp: numeral_2_eq_2)
  obtain s3 where s3: "oltp_query ?see 0 q1 (?g, s2) = Inr (Query_done, ?g, s3)" "retry_after 3 s3"
    using retry_query [OF s2(2), of q1 ?g] qs by (auto simp: numeral_3_eq_3)
  obtain s4 where s4: "oltp_query ?see 0 q2 (?g, s3) = Inr (Query_done, ?g, s4)"
    using retry_query [OF s3(2), of q2 ?g] qs by auto
  have "stopped_at ?see 0 [q1, q2] Query_deadlock 1 (?g, retry_state) (?g, s2)"
    using s1(1) s2(1) by (auto simp: stopped_at_Cons)
  then have chain: "deadlocked_passes ?see (unat (0 :: u32)) (req_data retry_request) [1] (?g, retry_state) (?g, s2)"
    unfolding qs by simp
  have final: "all_done ?see (unat (0 :: u32)) (req_data retry_request) (?g, s2) (?g, s4)"
    using s3(1) s4 by (simp add: qs)
  have "\<forall>q \<in> set (req_data retry_request). num_times q = 1"
    by (simp add: retry_request_def sql_request_def new_query_def)
  from oltp_request_retries [OF this, of ?see 0 ?g retry_state ?g "with_statistics retry_state [1] (req_data retry_request) s4"]
    chain final
  have "oltp_execute_request ?see retry_request 0 (?g, retry_state) =
      Some (Inr (0, ?g, with_statistics retry_state [1] (req_data retry_request) s4))" by blast
  then show ?thesis
    by (intro exI [of _ s4] exI [of _ "with_statistics retry_state [1] (req_data retry_request) s4"])
      (simp add: with_statistics_def retry_state_def demo_oltp_def count_of_def executed_def retry_request_def sql_request_def
        new_query_def write_types_def other_types_def)
qed

end
