(* ===== verification/SbMysql.thy ===== *)
theory SbMysql
  imports DbDriver
begin

text \<open>
  The MySQL driver of sysbench (\<open>drivers/mysql/drv_mysql.c\<close>), built with prepared statements and for a
  server with engines: options, the capabilities of an engine, connections spread over the hosts, prepared
  and emulated statements, results.  The client library is a record of functions on its own state
  (\<open>mysql_lib\<close>); the layer of \<open>DbDriver\<close> calls the driver through the operations of \<open>mysql_driver\<close>.

  Objects of the library are numbers.  \<open>handles\<close> are the \<open>MYSQL\<close> structures that are allocated; using one
  that is not is a fault.  The driver's pointers in connections, statements and result sets are maps from
  the addresses of these, cleared where the layer clears the object.  The arrays that a caller passes to the
  binding functions are in \<open>my_params\<close>, the memory that bind variables point to in \<open>my_mem\<close>; a variable's type is
  that of its cell.  Log messages are left out, but for the calls that fetch the message to be logged.
\<close>

section \<open>Types\<close>

datatype mysql_type =
  MYSQL_TYPE_TINY | MYSQL_TYPE_SHORT | MYSQL_TYPE_LONG | MYSQL_TYPE_LONGLONG | MYSQL_TYPE_FLOAT | MYSQL_TYPE_DOUBLE
| MYSQL_TYPE_DATETIME | MYSQL_TYPE_TIMESTAMP | MYSQL_TYPE_STRING | MYSQL_TYPE_VAR_STRING

datatype mysql_drv_trx = ENGINE_TRX_YES | ENGINE_TRX_NO | ENGINE_TRX_AUTO

record mysql_drv_args =
  my_hosts :: "string list"
  my_port :: u32
  my_socket :: cstr
  my_user :: cstr
  my_password :: cstr
  my_db :: cstr
  myisam_max_rows :: u32
  engine_trx :: mysql_drv_trx
  use_ssl :: bool
  create_options :: string

text \<open>A bind variable of sysbench, and one of the library; the addresses of lengths and flags are 0 for \<open>NULL\<close>.\<close>

record my_param =
  p_buffer :: nat
  p_data_len :: nat
  p_max_len :: u64
  p_is_null :: nat

record mysql_bind =
  buffer_type :: "mysql_type option"
  my_buffer :: nat
  buffer_length :: u64
  length_ptr :: nat
  is_null_ptr :: nat

text \<open>
  The library.  \<open>'f\<close> are the floating point numbers, \<open>'m\<close> its state.  The first argument of a function is the
  handle, the statement or the result it works on.  The last four fields are the codes of its header.
\<close>

record ('f, 'm) mysql_lib =
  mysql_library_init :: "'m \<Rightarrow> 'm"
  mysql_library_end :: "'m \<Rightarrow> 'm"
  mysql_ssl_set :: "nat \<Rightarrow> string \<Rightarrow> string \<Rightarrow> string \<Rightarrow> 'm \<Rightarrow> 'm"
  mysql_real_connect :: "nat \<Rightarrow> string \<Rightarrow> mysql_drv_args \<Rightarrow> 'm \<Rightarrow> bool \<times> 'm"
  mysql_close :: "nat \<Rightarrow> 'm \<Rightarrow> 'm"
  mysql_errno :: "nat \<Rightarrow> 'm \<Rightarrow> nat"
  mysql_real_query :: "nat \<Rightarrow> string \<Rightarrow> 'm \<Rightarrow> nat \<times> 'm"
  mysql_store_result :: "nat \<Rightarrow> 'm \<Rightarrow> nat option \<times> 'm"
  mysql_num_rows :: "nat \<Rightarrow> 'm \<Rightarrow> u64"
  mysql_field_names :: "nat \<Rightarrow> 'm \<Rightarrow> string list"
  mysql_fetch_row :: "nat \<Rightarrow> 'm \<Rightarrow> cstr list option \<times> 'm"
  mysql_free_result :: "nat \<Rightarrow> 'm \<Rightarrow> 'm"
  mysql_stmt_init :: "nat \<Rightarrow> 'm \<Rightarrow> nat option \<times> 'm"
  mysql_stmt_prepare :: "nat \<Rightarrow> string \<Rightarrow> 'm \<Rightarrow> nat \<times> 'm"
  mysql_stmt_param_count :: "nat \<Rightarrow> 'm \<Rightarrow> nat"
  mysql_stmt_bind_param :: "nat \<Rightarrow> mysql_bind list \<Rightarrow> 'm \<Rightarrow> nat \<times> 'm"
  mysql_stmt_bind_result :: "nat \<Rightarrow> mysql_bind list \<Rightarrow> 'm \<Rightarrow> nat \<times> 'm"
  mysql_stmt_execute :: "nat \<Rightarrow> (nat \<Rightarrow> 'f db_bind) \<Rightarrow> 'm \<Rightarrow> nat \<times> 'm"
  mysql_stmt_store_result :: "nat \<Rightarrow> 'm \<Rightarrow> nat \<times> 'm"
  mysql_stmt_num_rows :: "nat \<Rightarrow> 'm \<Rightarrow> u64"
  mysql_stmt_fetch :: "nat \<Rightarrow> 'm \<Rightarrow> int \<times> 'm"
  mysql_stmt_free_result :: "nat \<Rightarrow> 'm \<Rightarrow> int \<times> 'm"
  mysql_stmt_close :: "nat \<Rightarrow> 'm \<Rightarrow> int \<times> 'm"
  ER_LOCK_DEADLOCK :: nat
  ER_LOCK_WAIT_TIMEOUT :: nat
  ER_CHECKREAD :: nat
  ER_UNSUPPORTED_PS :: nat

datatype my_fault = My_null | My_freed | My_overrun | My_endless | My_number

record ('f, 'm) my_state =
  my_args :: mysql_drv_args
  mysql_drv_caps :: drv_caps
  use_ps :: bool
  hosts_pos :: nat
  handles :: "nat set"
  next_handle :: nat
  con_ptr :: "nat \<rightharpoonup> nat"
  stmt_ptr :: "nat \<rightharpoonup> nat"
  res_ptr :: "nat \<rightharpoonup> nat"
  bound_param :: "nat \<rightharpoonup> my_param list"
  my_mem :: "nat \<Rightarrow> 'f db_bind"
  my_params :: "my_param list"
  my_crash :: "my_fault option"
  lib_state :: 'm

type_synonym ('f, 'm) my_db = "('f, 'm) my_state db_state"

text \<open>A call of the driver: a fault, or its result and the new state.\<close>

type_synonym ('f, 'm, 'a) my_res = "my_fault + 'a \<times> ('f, 'm) my_db"

definition on_drv :: "(('f, 'm) my_state \<Rightarrow> ('f, 'm) my_state) \<Rightarrow> ('f, 'm) my_db \<Rightarrow> ('f, 'm) my_db" where
  "on_drv f s = s\<lparr>drv_state := f (drv_state s)\<rparr>"

definition lib_call :: "('m \<Rightarrow> 'a \<times> 'm) \<Rightarrow> ('f, 'm) my_db \<Rightarrow> 'a \<times> ('f, 'm) my_db" where
  "lib_call f s = (let (x, m) = f (lib_state (drv_state s)) in (x, on_drv (\<lambda>w. w\<lparr>lib_state := m\<rparr>) s))"

definition lib_do :: "('m \<Rightarrow> 'm) \<Rightarrow> ('f, 'm) my_db \<Rightarrow> ('f, 'm) my_db" where
  "lib_do f = on_drv (\<lambda>w. w\<lparr>lib_state := f (lib_state w)\<rparr>)"

definition lib_get :: "('m \<Rightarrow> 'a) \<Rightarrow> ('f, 'm) my_db \<Rightarrow> 'a" where
  "lib_get f s = f (lib_state (drv_state s))"

text \<open>A handle to be used must be allocated.\<close>

definition live_handle :: "nat option \<Rightarrow> ('f, 'm) my_db \<Rightarrow> my_fault + nat" where
  "live_handle h s =
     (case h of None \<Rightarrow> Inl My_null | Some h \<Rightarrow> if h \<in> handles (drv_state s) then Inr h else Inl My_freed)"

definition conn_handle :: "nat \<Rightarrow> ('f, 'm) my_db \<Rightarrow> my_fault + nat" where
  "conn_handle c s = live_handle (con_ptr (drv_state s) c) s"

text \<open>The message of the last error, to be logged.\<close>

definition error_message :: "nat \<Rightarrow> ('f, 'm) my_db \<Rightarrow> my_fault + unit" where
  "error_message h s = bind_res (live_handle (Some h) s) (\<lambda>_. Inr ())"

section \<open>Engines and options\<close>

definition non_trx_engines :: "string list" where
  "non_trx_engines = [''myisam'', ''heap'', ''maria'']"

definition trx_engines :: "string list" where
  "trx_engines = [''innodb'', ''bdb'', ''berkeleydb'', ''ndbcluster'', ''federated'', ''pbxt'', ''falcon'']"

definition is_engine :: "string list \<Rightarrow> string \<Rightarrow> bool" where
  "is_engine names type = list_ex (strcaseeq type) names"

definition engine_options :: "mysql_drv_args \<Rightarrow> string \<Rightarrow> string" where
  "engine_options a type =
     fst (snprintf 1024
       (create_options a @ '' /*! ENGINE='' @
        (if strcaseeq type ''myisam'' then
           (if myisam_max_rows a > 0 then ''MyISAM MAX_ROWS='' @ dec (unat (myisam_max_rows a)) else ''MyISAM'')
         else if is_engine [''bdb'', ''berkeleydb''] type then ''BerkeleyDB''
         else if strcaseeq type ''ndbcluster'' then ''NDB''
         else type) @ '' */''))"

definition engine_transactions :: "mysql_drv_args \<Rightarrow> string \<Rightarrow> bool option" where
  "engine_transactions a type =
     (if engine_trx a = ENGINE_TRX_AUTO then
        if is_engine non_trx_engines type then Some False
        else if is_engine trx_engines type then Some True else None
      else Some (engine_trx a = ENGINE_TRX_YES))"

definition parse_table_engine :: "cstr \<Rightarrow> ('f, 'm) my_db \<Rightarrow> ('f, 'm, int) my_res" where
  "parse_table_engine type s =
     (case type of
        None \<Rightarrow> Inl My_null
      | Some ty \<Rightarrow>
          let a = my_args (drv_state s)
          in case engine_transactions a ty of
               None \<Rightarrow> Inr (1, s)
             | Some trx \<Rightarrow>
                 Inr (0, on_drv (\<lambda>w. w\<lparr>mysql_drv_caps := (mysql_drv_caps w)\<lparr>transactions := trx,
                           table_options_str := Some (engine_options a ty)\<rparr>\<rparr>) s))"

definition parse_engine_trx :: "string \<Rightarrow> mysql_drv_trx option" where
  "parse_engine_trx t =
     (if strcaseeq t ''yes'' then Some ENGINE_TRX_YES else if strcaseeq t ''no'' then Some ENGINE_TRX_NO
      else if strcaseeq t ''auto'' then Some ENGINE_TRX_AUTO else None)"

definition my_option_u32 :: "string \<Rightarrow> option_t list \<Rightarrow> my_fault + u32" where
  "my_option_u32 name opts =
     (case sb_get_value_int name opts of None \<Rightarrow> Inl My_number | Some v \<Rightarrow> Inr (word_of_int v))"

text \<open>The list starts before its first host; position \<open>i\<close> is the host \<open>i\<close>, counted from 1.\<close>

definition mysql_drv_init ::
  "('f, 'm) mysql_lib \<Rightarrow> option_t list \<Rightarrow> ('f, 'm) my_db \<Rightarrow> ('f, 'm, int) my_res" where
  "mysql_drv_init lib opts s =
     (case sb_get_value_list ''mysql-host'' opts of
        None \<Rightarrow> Inl My_null
      | Some vs \<Rightarrow>
          let s = on_drv (\<lambda>w. w\<lparr>my_args := (my_args w)\<lparr>my_hosts := map val_data vs\<rparr>\<rparr>) s
          in if vs = [] then Inr (1, s)
          else
            bind_res (my_option_u32 ''mysql-port'' opts) (\<lambda>port.
            bind_res (my_option_u32 ''myisam-max-rows'' opts) (\<lambda>max_rows.
              let s = on_drv (\<lambda>w. w\<lparr>hosts_pos := 0, my_args := (my_args w)\<lparr>
                        my_port := port,
                        my_socket := sb_get_value_string ''mysql-socket'' opts,
                        my_user := sb_get_value_string ''mysql-user'' opts,
                        my_password := sb_get_value_string ''mysql-password'' opts,
                        my_db := sb_get_value_string ''mysql-db'' opts, myisam_max_rows := max_rows,
                        use_ssl := sb_get_value_flag ''mysql-ssl'' opts,
                        create_options :=
                          (case sb_get_value_string ''mysql-create-options'' opts of None \<Rightarrow> [] | Some t \<Rightarrow> t)\<rparr>,
                        mysql_drv_caps := (mysql_drv_caps w)\<lparr>prepared_statements := True\<rparr>,
                        use_ps := (ps_mode (globals s) \<noteq> DB_PS_MODE_DISABLE)\<rparr>) s
              in case map_option parse_engine_trx (sb_get_value_string ''mysql-engine-trx'' opts) of
                   Some (Some trx) \<Rightarrow>
                     parse_table_engine (sb_get_value_string ''mysql-table-engine'' opts)
                       (lib_do (mysql_library_init lib) (on_drv (\<lambda>w. w\<lparr>my_args := (my_args w)\<lparr>engine_trx := trx\<rparr>\<rparr>) s))
                 | _ \<Rightarrow> Inr (1, s))))"

section \<open>Connections\<close>

text \<open>The next host of a list of \<open>n\<close>, whose head is skipped.\<close>

definition next_host :: "nat \<Rightarrow> nat \<Rightarrow> nat" where
  "next_host n pos = (if pos = n then 1 else pos + 1)"

text \<open>A new handle and whether it is connected; without a connection it is freed again.\<close>

definition my_connect :: "('f, 'm) mysql_lib \<Rightarrow> ('f, 'm) my_db \<Rightarrow> (nat \<times> int) \<times> ('f, 'm) my_db" where
  "my_connect lib s =
     (let w = drv_state s; a = my_args w; h = next_handle w; pos = next_host (length (my_hosts a)) (hosts_pos w);
          s = on_drv (\<lambda>w. w\<lparr>next_handle := h + 1, handles := insert h (handles w), hosts_pos := pos\<rparr>) s;
          s = (if use_ssl a then lib_do (mysql_ssl_set lib h ''client-key.pem'' ''client-cert.pem'' ''cacert.pem'') s else s);
          (ok, s) = lib_call (mysql_real_connect lib h (my_hosts a ! (pos - 1)) a) s
      in if ok then ((h, 0), s) else ((h, 1), on_drv (\<lambda>w. w\<lparr>handles := handles w - {h}\<rparr>) s))"

definition mysql_drv_connect :: "('f, 'm) mysql_lib \<Rightarrow> nat \<Rightarrow> ('f, 'm) my_db \<Rightarrow> ('f, 'm, int) my_res" where
  "mysql_drv_connect lib c s =
     (let ((h, rc), s) = my_connect lib s in Inr (rc, on_drv (\<lambda>w. w\<lparr>con_ptr := (con_ptr w)(c \<mapsto> h)\<rparr>) s))"

definition my_disconnect :: "('f, 'm) mysql_lib \<Rightarrow> nat option \<Rightarrow> ('f, 'm) my_db \<Rightarrow> ('f, 'm, int) my_res" where
  "my_disconnect lib con s =
     (case con of
        None \<Rightarrow> Inr (0, s)
      | Some _ \<Rightarrow> bind_res (live_handle con s) (\<lambda>h.
          Inr (0, on_drv (\<lambda>w. w\<lparr>handles := handles w - {h}\<rparr>) (lib_do (mysql_close lib h) s))))"

definition mysql_drv_disconnect :: "('f, 'm) mysql_lib \<Rightarrow> nat \<Rightarrow> ('f, 'm) my_db \<Rightarrow> ('f, 'm, int) my_res" where
  "mysql_drv_disconnect lib c s = my_disconnect lib (con_ptr (drv_state s) c) s"

text \<open>The type of the table in the answer to \<open>SHOW TABLE STATUS\<close>; \<open>None\<close> if it is not there.\<close>

definition engine_column :: "string list \<Rightarrow> nat option" where
  "engine_column names =
     (let i = length (takeWhile (\<lambda>f. \<not> strcaseeq f ''type'' \<and> \<not> strcaseeq f ''engine'') names)
      in if i < length names then Some i else None)"

definition table_engine ::
  "('f, 'm) mysql_lib \<Rightarrow> nat \<Rightarrow> ('f, 'm) my_db \<Rightarrow> my_fault + cstr \<times> ('f, 'm) my_db" where
  "table_engine lib res s =
     (case engine_column (lib_get (mysql_field_names lib res) s) of
        None \<Rightarrow> Inr (None, s)
      | Some i \<Rightarrow>
          (case lib_call (mysql_fetch_row lib res) s of
             (None, s) \<Rightarrow> Inr (None, s)
           | (Some row, s) \<Rightarrow> if i < length row then Inr (row ! i, s) else Inl My_overrun))"

definition describe_failed :: "nat \<Rightarrow> ('f, 'm) my_db \<Rightarrow> ('f, 'm, int) my_res" where
  "describe_failed h s = bind_res (error_message h s) (\<lambda>_. Inr (1, s))"

definition describe_table :: "('f, 'm) mysql_lib \<Rightarrow> nat \<Rightarrow> string \<Rightarrow> ('f, 'm) my_db \<Rightarrow> ('f, 'm, int) my_res" where
  "describe_table lib h table s =
     (let query = fst (snprintf 1024 (''SHOW TABLE STATUS LIKE '' @ quoted table));
          (rc, s) = lib_call (mysql_real_query lib h query) s
      in if rc \<noteq> 0 then describe_failed h s
         else
           (case lib_call (mysql_store_result lib h) s of
              (None, s) \<Rightarrow> describe_failed h s
            | (Some res, s) \<Rightarrow>
                bind_res (table_engine lib res s) (\<lambda>(ty, s).
                bind_res (case ty of None \<Rightarrow> describe_failed h s | Some _ \<Rightarrow> parse_table_engine ty s) (\<lambda>(rc, s).
                  Inr (rc, lib_do (mysql_free_result lib res) s)))))"

text \<open>
  No table is the empty name.  The capabilities are copied at the start, and once more when the type of the
  table is known; after an error they are those of the start.
\<close>

definition mysql_drv_describe ::
  "('f, 'm) mysql_lib \<Rightarrow> drv_caps \<Rightarrow> string \<Rightarrow> ('f, 'm) my_db \<Rightarrow> my_fault + int \<times> drv_caps \<times> ('f, 'm) my_db" where
  "mysql_drv_describe lib caps table s =
     (if table = [] then Inr (0, mysql_drv_caps (drv_state s), s)
      else
        let ((h, rc), s) = my_connect lib s
        in if rc \<noteq> 0 then
             bind_res (describe_failed h s) (\<lambda>(rc, s). Inr (rc, mysql_drv_caps (drv_state s), s))
           else
             bind_res (describe_table lib h table (on_drv (\<lambda>w. w\<lparr>hosts_pos := 0\<rparr>) s)) (\<lambda>(rc, s).
             bind_res (my_disconnect lib (Some h) s) (\<lambda>(_, s).
               Inr (rc, mysql_drv_caps (drv_state s), s))))"

section \<open>Prepared statements\<close>

definition stmt_conn :: "nat \<Rightarrow> ('f, 'm) my_db \<Rightarrow> my_fault + nat" where
  "stmt_conn st s =
     (case stmts s st of
        None \<Rightarrow> Inl My_freed
      | Some stmt \<Rightarrow> (case st_connection stmt of None \<Rightarrow> Inl My_null | Some c \<Rightarrow> Inr c))"

definition set_stmt :: "nat \<Rightarrow> (db_stmt \<Rightarrow> db_stmt) \<Rightarrow> ('f, 'm) my_db \<Rightarrow> ('f, 'm) my_db" where
  "set_stmt st f s = s\<lparr>stmts := (stmts s)(st := map_option f (stmts s st))\<rparr>"

definition emulate :: "nat \<Rightarrow> string \<Rightarrow> ('f, 'm) my_db \<Rightarrow> ('f, 'm, int) my_res" where
  "emulate st query s = Inr (0, set_stmt st (\<lambda>stmt. stmt\<lparr>st_emulated := True, st_query := Some query\<rparr>) s)"

text \<open>Statements that the server cannot prepare are emulated.\<close>

definition server_prepare ::
  "('f, 'm) mysql_lib \<Rightarrow> nat \<Rightarrow> nat \<Rightarrow> string \<Rightarrow> ('f, 'm) my_db \<Rightarrow> ('f, 'm, int) my_res" where
  "server_prepare lib h st query s =
     (case lib_call (mysql_stmt_init lib h) s of
        (None, s) \<Rightarrow> Inr (1, s)
      | (Some ms, s) \<Rightarrow>
          let (rc, s) = lib_call (mysql_stmt_prepare lib ms query) (on_drv (\<lambda>w. w\<lparr>stmt_ptr := (stmt_ptr w)(st \<mapsto> ms)\<rparr>) s)
          in if rc = 0 then Inr (0, s)
             else if lib_get (mysql_errno lib h) s = ER_UNSUPPORTED_PS lib then emulate st query s
             else bind_res (error_message h s) (\<lambda>_. let (_, s) = lib_call (mysql_stmt_close lib ms) s in Inr (1, s)))"

definition mysql_drv_prepare ::
  "('f, 'm) mysql_lib \<Rightarrow> nat \<Rightarrow> string \<Rightarrow> ('f, 'm) my_db \<Rightarrow> ('f, 'm, int) my_res" where
  "mysql_drv_prepare lib st query s =
     bind_res (stmt_conn st s) (\<lambda>c.
       if con_ptr (drv_state s) c = None then Inr (1, s)
       else if use_ps (drv_state s) then bind_res (conn_handle c s) (\<lambda>h. server_prepare lib h st query s)
       else emulate st query s)"

definition get_mysql_bind_type :: "'f db_bind \<Rightarrow> mysql_type option" where
  "get_mysql_bind_type b =
     (case b of
        DB_TYPE_TINYINT _ \<Rightarrow> Some MYSQL_TYPE_TINY | DB_TYPE_SMALLINT _ \<Rightarrow> Some MYSQL_TYPE_SHORT
      | DB_TYPE_INT _ \<Rightarrow> Some MYSQL_TYPE_LONG | DB_TYPE_BIGINT _ \<Rightarrow> Some MYSQL_TYPE_LONGLONG
      | DB_TYPE_FLOAT _ \<Rightarrow> Some MYSQL_TYPE_FLOAT | DB_TYPE_DOUBLE _ \<Rightarrow> Some MYSQL_TYPE_DOUBLE
      | DB_TYPE_DATETIME _ \<Rightarrow> Some MYSQL_TYPE_DATETIME | DB_TYPE_TIMESTAMP _ \<Rightarrow> Some MYSQL_TYPE_TIMESTAMP
      | DB_TYPE_CHAR _ \<Rightarrow> Some MYSQL_TYPE_STRING | DB_TYPE_VARCHAR _ \<Rightarrow> Some MYSQL_TYPE_VAR_STRING
      | DB_TYPE_NONE \<Rightarrow> None | DB_TYPE_TIME _ \<Rightarrow> None | DB_TYPE_DATE _ \<Rightarrow> None)"

definition to_mysql_bind :: "(nat \<Rightarrow> 'f db_bind) \<Rightarrow> my_param \<Rightarrow> mysql_bind" where
  "to_mysql_bind mem p =
     \<lparr>buffer_type = get_mysql_bind_type (mem (p_buffer p)), my_buffer = p_buffer p, buffer_length = p_max_len p,
      length_ptr = p_data_len p, is_null_ptr = p_is_null p\<rparr>"

text \<open>The array of \<open>len\<close> bind variables that the caller passes, and its translation.\<close>

definition passed_params :: "nat \<Rightarrow> ('f, 'm) my_db \<Rightarrow> my_fault + my_param list" where
  "passed_params len s =
     (let ps = my_params (drv_state s) in if length ps < len then Inl My_overrun else Inr (take len ps))"

definition passed_binds :: "nat \<Rightarrow> ('f, 'm) my_db \<Rightarrow> my_fault + mysql_bind list" where
  "passed_binds len s =
     bind_res (passed_params len s) (\<lambda>ps. Inr (map (to_mysql_bind (my_mem (drv_state s))) ps))"

definition mysql_drv_bind_param ::
  "('f, 'm) mysql_lib \<Rightarrow> nat \<Rightarrow> nat \<Rightarrow> ('f, 'm) my_db \<Rightarrow> ('f, 'm, int) my_res" where
  "mysql_drv_bind_param lib st len s =
     bind_res (stmt_conn st s) (\<lambda>c.
       if con_ptr (drv_state s) c = None then Inr (1, s)
       else if \<not> st_emulated (the (stmts s st)) then
         (case stmt_ptr (drv_state s) st of
            None \<Rightarrow> Inr (1, s)
          | Some ms \<Rightarrow>
              if lib_get (mysql_stmt_param_count lib ms) s \<noteq> len then Inr (1, s)
              else
                bind_res (passed_binds len s) (\<lambda>bs.
                  let (rc, s) = lib_call (mysql_stmt_bind_param lib ms bs) s
                  in if rc \<noteq> 0 then
                       bind_res (conn_handle c s) (\<lambda>h. bind_res (error_message h s) (\<lambda>_. Inr (1, s)))
                     else Inr (0, s)))
       else
         bind_res (passed_params len s) (\<lambda>ps.
           Inr (0, set_stmt st (\<lambda>stmt. stmt\<lparr>st_bound_param := True\<rparr>)
                     (on_drv (\<lambda>w. w\<lparr>bound_param := (bound_param w)(st \<mapsto> ps)\<rparr>) s))))"

definition mysql_drv_bind_result ::
  "('f, 'm) mysql_lib \<Rightarrow> nat \<Rightarrow> nat \<Rightarrow> ('f, 'm) my_db \<Rightarrow> ('f, 'm, int) my_res" where
  "mysql_drv_bind_result lib st len s =
     bind_res (stmt_conn st s) (\<lambda>c.
       case (con_ptr (drv_state s) c, stmt_ptr (drv_state s) st) of
         (Some _, Some ms) \<Rightarrow>
           bind_res (passed_binds len s) (\<lambda>bs.
             let (rc, s) = lib_call (mysql_stmt_bind_result lib ms bs) s in Inr (of_bool (rc \<noteq> 0), s))
       | _ \<Rightarrow> Inr (1, s))"

section \<open>Execution\<close>

definition deadlock_code :: "('f, 'm) mysql_lib \<Rightarrow> nat \<Rightarrow> bool" where
  "deadlock_code lib e \<longleftrightarrow> e \<in> {ER_LOCK_DEADLOCK lib, ER_LOCK_WAIT_TIMEOUT lib, ER_CHECKREAD lib}"

text \<open>The result of a call that returned \<open>rc\<close> on a connection.\<close>

definition error_of ::
  "('f, 'm) mysql_lib \<Rightarrow> nat \<Rightarrow> nat \<Rightarrow> ('f, 'm) my_db \<Rightarrow> ('f, 'm, db_error) my_res" where
  "error_of lib c rc s =
     (if rc = 0 then Inr (SB_DB_ERROR_NONE, s)
      else bind_res (conn_handle c s) (\<lambda>h.
        Inr (if deadlock_code lib (lib_get (mysql_errno lib h) s) then SB_DB_ERROR_DEADLOCK else SB_DB_ERROR_FAILED, s)))"

text \<open>The layer has cleared the result set, and with it the pointer to a result.\<close>

definition cleared_result :: "nat \<Rightarrow> ('f, 'm) my_db \<Rightarrow> ('f, 'm) my_db" where
  "cleared_result c = on_drv (\<lambda>w. w\<lparr>res_ptr := (res_ptr w)(c := None)\<rparr>)"

definition mysql_drv_query ::
  "('f, 'm) mysql_lib \<Rightarrow> nat \<Rightarrow> string \<Rightarrow> ('f, 'm) my_db \<Rightarrow> ('f, 'm, db_error) my_res" where
  "mysql_drv_query lib c query s =
     bind_res (conn_handle c s) (\<lambda>h.
       let (rc, s) = lib_call (mysql_real_query lib h query) (cleared_result c s) in error_of lib c rc s)"

text \<open>
  The text of an emulated query.  The buffer of length \<open>len\<close> holds \<open>out\<close>; \<open>v\<close> variables have been printed.  It
  is doubled when it is full, and when the next value does not fit; \<open>realloc\<close> of no bytes fails.  Writing
  a character, a value or the final NUL outside of the buffer is a fault; so is a buffer never allocated.
  \<open>buf_print\<close> prints a variable; its length is an \<open>int\<close>.  \<open>None\<close> is the failure of \<open>realloc\<close>.
\<close>

definition buf_print :: "('f \<Rightarrow> string) \<Rightarrow> 'f db_bind \<Rightarrow> u32 \<Rightarrow> string \<times> int" where
  "buf_print show_float var n = (if sint n < 0 then ([], - 1) else db_print_value show_float var (unat n))"

definition grown :: "u32 \<Rightarrow> u32" where
  "grown len = (if len > 0 then len * 2 else 256)"

definition fill_char ::
  "('f \<Rightarrow> string) \<Rightarrow> (nat \<Rightarrow> 'f db_bind) \<Rightarrow> my_param list \<Rightarrow> char \<Rightarrow> string \<Rightarrow> u32 \<Rightarrow> nat \<Rightarrow>
   my_fault + (string \<times> nat) option" where
  "fill_char show_float mem ps c out len v =
     (if c \<noteq> CHR ''?'' then (if length out \<ge> unat len then Inl My_overrun else Inr (Some (out @ [c], v)))
      else if v \<ge> length ps then Inl (if ps = [] then My_null else My_overrun)
      else if length out > unat len then Inl My_overrun
      else
        let (t, n) = buf_print show_float (mem (p_buffer (ps ! v))) (len - of_nat (length out))
        in Inr (if n < 0 then None else Some (out @ t, v + 1)))"

partial_function (option) fill_query ::
  "('f \<Rightarrow> string) \<Rightarrow> (nat \<Rightarrow> 'f db_bind) \<Rightarrow> my_param list \<Rightarrow> string \<Rightarrow> string \<Rightarrow> u32 \<Rightarrow> nat \<Rightarrow> bool \<Rightarrow>
   (my_fault + string option) option" where
  "fill_query show_float mem ps cs out len v need =
     (case cs of
        [] \<Rightarrow> Some (if len = 0 then Inl My_null else if length out \<ge> unat len then Inl My_overrun else Inr (Some out))
      | c # cs' \<Rightarrow>
          (if (need \<or> length out + 1 \<ge> unat len) \<and> grown len = 0 then Some (Inr None)
           else
             case fill_char show_float mem ps c out (if need \<or> length out + 1 \<ge> unat len then grown len else len) v of
               Inl e \<Rightarrow> Some (Inl e)
             | Inr None \<Rightarrow>
                 fill_query show_float mem ps cs out (if need \<or> length out + 1 \<ge> unat len then grown len else len) v True
             | Inr (Some r) \<Rightarrow>
                 fill_query show_float mem ps cs' (fst r)
                   (if need \<or> length out + 1 \<ge> unat len then grown len else len) (snd r) False))"

text \<open>The text of a query, from a buffer that is not allocated yet.\<close>

definition emulated_query ::
  "('f \<Rightarrow> string) \<Rightarrow> nat \<Rightarrow> ('f, 'm) my_db \<Rightarrow> my_fault + string option" where
  "emulated_query show_float st s =
     (case st_query (the (stmts s st)) of
        None \<Rightarrow> Inl My_null
      | Some q \<Rightarrow>
          let w = drv_state s
          in case fill_query show_float (my_mem w) (case bound_param w st of None \<Rightarrow> [] | Some ps \<Rightarrow> ps) q [] 0 0 True of
               None \<Rightarrow> Inl My_endless
             | Some r \<Rightarrow> r)"

definition mysql_drv_execute ::
  "('f, 'm) mysql_lib \<Rightarrow> ('f \<Rightarrow> string) \<Rightarrow> nat \<Rightarrow> nat \<Rightarrow> ('f, 'm) my_db \<Rightarrow> ('f, 'm, db_error) my_res" where
  "mysql_drv_execute lib show_float st c s =
     (case stmts s st of
        None \<Rightarrow> Inl My_freed
      | Some stmt \<Rightarrow>
          if \<not> st_emulated stmt then
            (case stmt_ptr (drv_state s) st of
               None \<Rightarrow> Inr (SB_DB_ERROR_FAILED, s)
             | Some ms \<Rightarrow>
                 let (rc, s) = lib_call (mysql_stmt_execute lib ms (my_mem (drv_state s))) (cleared_result c s)
                 in error_of lib c rc s)
          else
            bind_res (emulated_query show_float st s) (\<lambda>t.
              case t of
                None \<Rightarrow> Inr (SB_DB_ERROR_FAILED, s)
              | Some t \<Rightarrow> bind_res (mysql_drv_query lib c t s) (\<lambda>(e, s).
                  Inr (e, set_conn c (\<lambda>con. con\<lparr>con_errno := e\<rparr>) s))))"

section \<open>Results\<close>

definition mysql_drv_fetch :: "nat \<Rightarrow> ('f, 'm) my_db \<Rightarrow> int \<times> ('f, 'm) my_db" where
  "mysql_drv_fetch c s = (1, s)"

definition mysql_drv_fetch_row :: "nat \<Rightarrow> nat \<Rightarrow> ('f, 'm) my_db \<Rightarrow> int \<times> ('f, 'm) my_db" where
  "mysql_drv_fetch_row c row s = (1, s)"

definition mysql_drv_num_rows :: "nat \<Rightarrow> ('f, 'm) my_db \<Rightarrow> u64" where
  "mysql_drv_num_rows c s = (case conns s c of None \<Rightarrow> 0 | Some con \<Rightarrow> rs_nrows (con_rs con))"

text \<open>Fetching all rows of a statement and of a result; \<open>None\<close> is a loop without end.\<close>

partial_function (option) stmt_fetch_all :: "('f, 'm) mysql_lib \<Rightarrow> nat \<Rightarrow> 'm \<Rightarrow> 'm option" where
  "stmt_fetch_all lib ms m =
     (if fst (mysql_stmt_fetch lib ms m) = 0 then stmt_fetch_all lib ms (snd (mysql_stmt_fetch lib ms m))
      else Some (snd (mysql_stmt_fetch lib ms m)))"

partial_function (option) fetch_all :: "('f, 'm) mysql_lib \<Rightarrow> nat \<Rightarrow> 'm \<Rightarrow> 'm option" where
  "fetch_all lib res m =
     (if fst (mysql_fetch_row lib res m) \<noteq> None then fetch_all lib res (snd (mysql_fetch_row lib res m))
      else Some (snd (mysql_fetch_row lib res m)))"

definition fetched :: "'m option \<Rightarrow> ('f, 'm) my_db \<Rightarrow> ('f, 'm, int) my_res" where
  "fetched m s = (case m of None \<Rightarrow> Inl My_endless | Some m \<Rightarrow> Inr (0, on_drv (\<lambda>w. w\<lparr>lib_state := m\<rparr>) s))"

text \<open>The code of a failed attempt to store results: 1 for a deadlock, 2 for other errors.\<close>

definition store_error :: "('f, 'm) mysql_lib \<Rightarrow> nat \<Rightarrow> ('f, 'm) my_db \<Rightarrow> ('f, 'm, int) my_res" where
  "store_error lib c s =
     bind_res (conn_handle c s) (\<lambda>h.
       Inr (if lib_get (mysql_errno lib h) s \<in> {ER_LOCK_DEADLOCK lib, ER_LOCK_WAIT_TIMEOUT lib} then 1 else 2, s))"

definition set_nrows :: "nat \<Rightarrow> u64 \<Rightarrow> ('f, 'm) my_db \<Rightarrow> ('f, 'm) my_db" where
  "set_nrows c n = set_conn c (\<lambda>con. con\<lparr>con_rs := (con_rs con)\<lparr>rs_nrows := n\<rparr>\<rparr>)"

definition store_stmt :: "('f, 'm) mysql_lib \<Rightarrow> nat \<Rightarrow> nat \<Rightarrow> ('f, 'm) my_db \<Rightarrow> ('f, 'm, int) my_res" where
  "store_stmt lib c st s =
     (case stmt_ptr (drv_state s) st of
        None \<Rightarrow> Inr (1, s)
      | Some ms \<Rightarrow>
          let (rc, s) = lib_call (mysql_stmt_store_result lib ms) s
          in if rc \<noteq> 0 then store_error lib c s
             else
               let s = set_nrows c (lib_get (mysql_stmt_num_rows lib ms) s) s
               in fetched (stmt_fetch_all lib ms (lib_state (drv_state s))) s)"

definition store_query :: "('f, 'm) mysql_lib \<Rightarrow> nat \<Rightarrow> ('f, 'm) my_db \<Rightarrow> ('f, 'm, int) my_res" where
  "store_query lib c s =
     (if con_ptr (drv_state s) c = None then Inr (2, s)
      else
        bind_res (conn_handle c s) (\<lambda>h.
          case lib_call (mysql_store_result lib h) s of
            (None, s) \<Rightarrow> store_error lib c s
          | (Some res, s) \<Rightarrow>
              let s = set_nrows c (lib_get (mysql_num_rows lib res) s)
                        (on_drv (\<lambda>w. w\<lparr>res_ptr := (res_ptr w)(c \<mapsto> res)\<rparr>) s)
              in fetched (fetch_all lib res (lib_state (drv_state s))) s))"

text \<open>Is the result set that of a statement prepared on the server?\<close>

definition server_stmt :: "nat \<Rightarrow> ('f, 'm) my_db \<Rightarrow> my_fault + nat option" where
  "server_stmt c s =
     (case conns s c of
        None \<Rightarrow> Inl My_freed
      | Some con \<Rightarrow>
          (case rs_statement (con_rs con) of
             None \<Rightarrow> Inr None
           | Some st \<Rightarrow>
               (case stmts s st of
                  None \<Rightarrow> Inl My_freed
                | Some stmt \<Rightarrow> Inr (if st_emulated stmt then None else Some st))))"

definition mysql_drv_store_results :: "('f, 'm) mysql_lib \<Rightarrow> nat \<Rightarrow> ('f, 'm) my_db \<Rightarrow> ('f, 'm, int) my_res" where
  "mysql_drv_store_results lib c s =
     bind_res (server_stmt c s) (\<lambda>st. case st of Some st \<Rightarrow> store_stmt lib c st s | None \<Rightarrow> store_query lib c s)"

definition mysql_drv_free_results :: "('f, 'm) mysql_lib \<Rightarrow> nat \<Rightarrow> ('f, 'm) my_db \<Rightarrow> ('f, 'm, int) my_res" where
  "mysql_drv_free_results lib c s =
     bind_res (server_stmt c s) (\<lambda>st.
       case st of
         Some st \<Rightarrow>
           (case stmt_ptr (drv_state s) st of
              None \<Rightarrow> Inl My_null
            | Some ms \<Rightarrow> Inr (lib_call (mysql_stmt_free_result lib ms) s))
       | None \<Rightarrow>
           (case res_ptr (drv_state s) c of
              None \<Rightarrow> Inr (1, s)
            | Some res \<Rightarrow> Inr (0, lib_do (mysql_free_result lib res) s)))"

definition mysql_drv_close :: "('f, 'm) mysql_lib \<Rightarrow> nat \<Rightarrow> ('f, 'm) my_db \<Rightarrow> int \<times> ('f, 'm) my_db" where
  "mysql_drv_close lib st s =
     (case stmt_ptr (drv_state s) st of None \<Rightarrow> (1, s) | Some ms \<Rightarrow> lib_call (mysql_stmt_close lib ms) s)"

definition mysql_drv_done :: "('f, 'm) mysql_lib \<Rightarrow> ('f, 'm) my_db \<Rightarrow> int \<times> ('f, 'm) my_db" where
  "mysql_drv_done lib s = (0, lib_do (mysql_library_end lib) s)"

section \<open>The assembled driver\<close>

definition mysql_opt :: "string \<Rightarrow> string \<Rightarrow> sb_arg_type \<Rightarrow> cstr \<Rightarrow> sb_arg" where
  "mysql_opt name desc ty v = \<lparr>arg_name = name, arg_desc = desc, arg_type = ty, arg_value = v\<rparr>"

definition mysql_drv_options :: "sb_arg list" where
  "mysql_drv_options =
     [mysql_opt ''mysql-host'' ''MySQL server host'' SB_ARG_TYPE_LIST (Some ''localhost''),
      mysql_opt ''mysql-port'' ''MySQL server port'' SB_ARG_TYPE_INT (Some ''3306''),
      mysql_opt ''mysql-socket'' ''MySQL socket'' SB_ARG_TYPE_STRING None,
      mysql_opt ''mysql-user'' ''MySQL user'' SB_ARG_TYPE_STRING (Some ''sbtest''),
      mysql_opt ''mysql-password'' ''MySQL password'' SB_ARG_TYPE_STRING (Some []),
      mysql_opt ''mysql-db'' ''MySQL database name'' SB_ARG_TYPE_STRING (Some ''sbtest''),
      mysql_opt ''mysql-table-engine''
        ''storage engine to use for the test table {myisam,innodb,bdb,heap,ndbcluster,federated}''
        SB_ARG_TYPE_STRING (Some ''innodb''),
      mysql_opt ''mysql-engine-trx'' ''whether storage engine used is transactional or not {yes,no,auto}''
        SB_ARG_TYPE_STRING (Some ''auto''),
      mysql_opt ''mysql-ssl'' ''use SSL connections, if available in the client library'' SB_ARG_TYPE_FLAG (Some ''off''),
      mysql_opt ''myisam-max-rows'' ''max-rows parameter for MyISAM tables'' SB_ARG_TYPE_INT (Some ''1000000''),
      mysql_opt ''mysql-create-options'' ''additional options passed to CREATE TABLE'' SB_ARG_TYPE_STRING (Some [])]"

definition initial_caps :: drv_caps where
  "initial_caps =
     \<lparr>multi_rows_insert = True, transactions = False, prepared_statements = False, auto_increment = True,
      needs_commit = False, serial = False, unsigned_int = True, table_options_str = None\<rparr>"

text \<open>An operation that faulted leaves the state as it was, with the fault noted.\<close>

definition crashed :: "'a \<Rightarrow> my_fault \<Rightarrow> ('f, 'm) my_db \<Rightarrow> 'a \<times> ('f, 'm) my_db" where
  "crashed x e s = (x, on_drv (\<lambda>w. w\<lparr>my_crash := Some e\<rparr>) s)"

definition my_op :: "'a \<Rightarrow> (('f, 'm) my_db \<Rightarrow> ('f, 'm, 'a) my_res) \<Rightarrow> ('f, 'm) my_db \<Rightarrow> 'a \<times> ('f, 'm) my_db" where
  "my_op x f s = (case f s of Inl e \<Rightarrow> crashed x e s | Inr r \<Rightarrow> r)"

definition mysql_driver ::
  "('f, 'm) mysql_lib \<Rightarrow> ('f \<Rightarrow> string) \<Rightarrow> option_t list \<Rightarrow> ('f, 'm) my_state db_driver" where
  "mysql_driver lib show_float opts =
     \<lparr>sname = ''mysql'', lname = ''MySQL driver'', drv_args = Some mysql_drv_options,
      ops =
        \<lparr>op_init = my_op 1 (mysql_drv_init lib opts),
         op_describe = Some (\<lambda>caps table s.
           case mysql_drv_describe lib caps table s of Inl e \<Rightarrow> (let (rc, s) = crashed 1 e s in (rc, caps, s)) | Inr r \<Rightarrow> r),
         op_connect = (\<lambda>c. my_op 1 (mysql_drv_connect lib c)),
         op_disconnect = (\<lambda>c. my_op 1 (mysql_drv_disconnect lib c)),
         op_prepare = (\<lambda>st q. my_op 1 (mysql_drv_prepare lib st q)),
         op_bind_param = (\<lambda>st n. my_op 1 (mysql_drv_bind_param lib st n)),
         op_bind_result = (\<lambda>st n. my_op 1 (mysql_drv_bind_result lib st n)),
         op_execute = (\<lambda>st c. my_op SB_DB_ERROR_FAILED (mysql_drv_execute lib show_float st c)),
         op_fetch = mysql_drv_fetch, op_fetch_row = mysql_drv_fetch_row, op_num_rows = mysql_drv_num_rows,
         op_free_results = (\<lambda>c. my_op 1 (mysql_drv_free_results lib c)),
         op_close = mysql_drv_close lib,
         op_query = (\<lambda>c q. my_op SB_DB_ERROR_FAILED (mysql_drv_query lib c q)),
         op_store_results = (\<lambda>c. my_op 2 (mysql_drv_store_results lib c)),
         op_done = mysql_drv_done lib\<rparr>\<rparr>"

end
