(* ===== verification/SbMysqlRuns.thy ===== *)
theory SbMysqlRuns
  imports SbMysql
begin

text \<open>
  Properties of the MySQL driver of \<open>SbMysql\<close>: the text of emulated queries, what the layer reports of a
  failed statement, and the hosts that connections go to.
\<close>

section \<open>Emulated queries\<close>












section \<open>Statements through the database layer\<close>

lemma on_drv_fields [simp]:
  "drv_state (on_drv f s) = f (drv_state s)" "conns (on_drv f s) = conns s" "stmts (on_drv f s) = stmts s"
  by (simp_all add: on_drv_def)

lemma set_conn_drv [simp]: "drv_state (set_conn c f s) = drv_state s"
  by (simp add: set_conn_def)

text \<open>The connection \<open>c\<close> is open, on the handle \<open>h\<close>.\<close>

definition connected :: "nat \<Rightarrow> nat \<Rightarrow> ('f, 'm) my_db \<Rightarrow> bool" where
  "connected c h s \<longleftrightarrow>
     (\<exists>con d. conns s c = Some con \<and> con_driver con = Some d) \<and> con_ptr (drv_state s) c = Some h \<and>
     h \<in> handles (drv_state s)"

text \<open>
  What the layer makes of a call of the library that returned \<open>rc\<close> with its new state \<open>m\<close>: a result set only
  after success, and an error code that says deadlock for exactly three codes of the library.
\<close>

definition reported ::
  "('f, 'm) mysql_lib \<Rightarrow> nat \<Rightarrow> nat \<Rightarrow> nat \<times> 'm \<Rightarrow> my_fault option \<Rightarrow> (db_fault + nat option \<times> ('f, 'm) my_db) \<Rightarrow> bool" where
  "reported lib c h ret crash r \<longleftrightarrow>
     (\<exists>s'. r = Inr (if fst ret = 0 then Some c else None, s') \<and> lib_state (drv_state s') = snd ret \<and>
       my_crash (drv_state s') = crash \<and>
       db_errno c s' = Inr (if fst ret = 0 then SB_DB_ERROR_NONE
         else if mysql_errno lib h (snd ret) = ER_LOCK_DEADLOCK lib \<or>
           mysql_errno lib h (snd ret) = ER_LOCK_WAIT_TIMEOUT lib \<or> mysql_errno lib h (snd ret) = ER_CHECKREAD lib
         then SB_DB_ERROR_DEADLOCK else SB_DB_ERROR_FAILED))"

lemma error_of_connected:
  assumes "con_ptr (drv_state s) c = Some h" and "h \<in> handles (drv_state s)"
  shows "error_of lib c rc s =
    Inr (if rc = 0 then SB_DB_ERROR_NONE
         else if deadlock_code lib (mysql_errno lib h (lib_state (drv_state s))) then SB_DB_ERROR_DEADLOCK
         else SB_DB_ERROR_FAILED, s)"
  using assms by (simp add: error_of_def conn_handle_def live_handle_def lib_get_def)

lemma db_execute_mysql:
  assumes "stmts s st = Some stmt" and "st_connection stmt = Some c" and "connected c h s"
    and "\<And>s'. stmts s' = stmts s \<Longrightarrow> drv_state s' = drv_state s \<Longrightarrow>
      \<exists>f. mysql_drv_execute lib show_float st c s' =
        Inr (if rc = 0 then SB_DB_ERROR_NONE
             else if deadlock_code lib (mysql_errno lib h m) then SB_DB_ERROR_DEADLOCK else SB_DB_ERROR_FAILED, f) \<and>
        lib_state (drv_state f) = m \<and> my_crash (drv_state f) = my_crash (drv_state s) \<and> (conns f c \<noteq> None) = (conns s' c \<noteq> None)"
  shows "reported lib c h (rc, m) (my_crash (drv_state s)) (db_execute (\<lambda>_. mysql_driver lib show_float opts) st s)"
proof -
  obtain con d where c: "conns s c = Some con" "con_driver con = Some d" using assms(3) by (auto simp: connected_def)
  let ?s = "set_conn c (\<lambda>con. con\<lparr>con_rs := rs_zero\<lparr>rs_statement := Some st, rs_connection := Some c\<rparr>\<rparr>) s"
  from assms(4) [of ?s] obtain f where f: "mysql_drv_execute lib show_float st c ?s =
        Inr (if rc = 0 then SB_DB_ERROR_NONE
             else if deadlock_code lib (mysql_errno lib h m) then SB_DB_ERROR_DEADLOCK else SB_DB_ERROR_FAILED, f)"
    "lib_state (drv_state f) = m" "my_crash (drv_state f) = my_crash (drv_state s)" "conns f c \<noteq> None"
    using c by (auto simp: set_conn_def)
  from f(4) obtain con' where "conns f c = Some con'" by blast
  then show ?thesis
    using c assms(1,2) f(1-3)
    by (auto simp: db_execute_def with_stmt_def mysql_driver_def my_op_def reported_def db_errno_def deadlock_code_def Let_def)
qed

section \<open>Properties\<close>



text \<open>
  C27: A statement prepared on the server is executed there, with the memory of its variables, and the layer
  reports a failure as a deadlock exactly if the library's error code is that of a deadlock, of a lock wait
  timeout or of \<open>ER_CHECKREAD\<close>.
\<close>

theorem server_statement_executed:
  assumes "stmts s st = Some stmt" and "st_connection stmt = Some c" and "connected c h s"
    and "\<not> st_emulated stmt" and "stmt_ptr (drv_state s) st = Some ms"
  shows "reported lib c h (mysql_stmt_execute lib ms (my_mem (drv_state s)) (lib_state (drv_state s)))
    (my_crash (drv_state s)) (db_execute (\<lambda>_. mysql_driver lib show_float opts) st s)"
proof -
  obtain rc m where q: "mysql_stmt_execute lib ms (my_mem (drv_state s)) (lib_state (drv_state s)) = (rc, m)" by fastforce
  have h: "con_ptr (drv_state s) c = Some h" "h \<in> handles (drv_state s)" using assms(3) by (auto simp: connected_def)
  show ?thesis
    unfolding q
    by (rule db_execute_mysql [OF assms(1-3)])
      (use assms(1,4,5) h q in \<open>auto simp: mysql_drv_execute_def lib_call_def cleared_result_def error_of_connected\<close>)
qed

text \<open>
  A library that records what it is told.  It refuses connections to \<open>down\<close>, and every statement fails with
  the code 7, which is no deadlock.
\<close>

definition demo_lib :: "(nat, string list) mysql_lib" where
  "demo_lib =
     \<lparr>mysql_library_init = id, mysql_library_end = id, mysql_ssl_set = (\<lambda>_ _ _ _ m. m),
      mysql_real_connect = (\<lambda>_ host _ m. (host \<noteq> ''down'', m @ [host])), mysql_close = (\<lambda>_ m. m @ [''bye'']),
      mysql_errno = (\<lambda>_ _. 7), mysql_real_query = (\<lambda>_ q m. (0, m @ [q])),
      mysql_store_result = (\<lambda>_ m. (None, m)), mysql_num_rows = (\<lambda>_ _. 0), mysql_field_names = (\<lambda>_ _. []),
      mysql_fetch_row = (\<lambda>_ m. (None, m)), mysql_free_result = (\<lambda>_ m. m),
      mysql_stmt_init = (\<lambda>_ m. (Some 0, m)), mysql_stmt_prepare = (\<lambda>_ q m. (0, m @ [q])),
      mysql_stmt_param_count = (\<lambda>_ _. 1), mysql_stmt_bind_param = (\<lambda>_ _ m. (0, m)),
      mysql_stmt_bind_result = (\<lambda>_ _ m. (0, m)), mysql_stmt_execute = (\<lambda>_ _ m. (1, m @ [''executed''])),
      mysql_stmt_store_result = (\<lambda>_ m. (0, m)), mysql_stmt_num_rows = (\<lambda>_ _. 0), mysql_stmt_fetch = (\<lambda>_ m. (1, m)),
      mysql_stmt_free_result = (\<lambda>_ m. (0, m)), mysql_stmt_close = (\<lambda>_ m. (0, m)),
      ER_LOCK_DEADLOCK = 1213, ER_LOCK_WAIT_TIMEOUT = 1205, ER_CHECKREAD = 1020, ER_UNSUPPORTED_PS = 1295\<rparr>"

definition demo_my_args :: "string list \<Rightarrow> mysql_drv_args" where
  "demo_my_args hs =
     \<lparr>my_hosts = hs, my_port = 3306, my_socket = None, my_user = Some ''sbtest'', my_password = Some [],
      my_db = Some ''sbtest'', myisam_max_rows = 0, engine_trx = ENGINE_TRX_AUTO, use_ssl = False, create_options = []\<rparr>"

text \<open>A connection with a statement that has one variable, the number 42.\<close>

definition demo_my_db :: "bool \<Rightarrow> (nat, string list) my_db" where
  "demo_my_db emu =
     \<lparr>conns = [1 \<mapsto> \<lparr>con_driver = Some 0, con_errno = SB_DB_ERROR_NONE, con_rs = rs_zero\<rparr>],
      stmts = [2 \<mapsto> \<lparr>st_connection = Some 1, st_query = Some ''DELETE from t where id=?'', st_bound_param = True, st_emulated = emu\<rparr>],
      rows = {}, brk = 3, globals = \<lparr>ps_mode = DB_PS_MODE_AUTO, gl_driver = None, gl_debug = 0\<rparr>,
      drv_state =
        \<lparr>my_args = demo_my_args [''a'', ''b''], mysql_drv_caps = initial_caps, use_ps = \<not> emu, hosts_pos = 1, handles = {5},
         next_handle = 6, con_ptr = [1 \<mapsto> 5], stmt_ptr = [2 \<mapsto> 0], res_ptr = Map.empty,
         bound_param = [2 \<mapsto> [\<lparr>p_buffer = 9, p_data_len = 0, p_max_len = 0, p_is_null = 0\<rparr>]], my_mem = (\<lambda>_. DB_TYPE_INT 42),
         my_params = [], my_crash = None, lib_state = []\<rparr>\<rparr>"

lemma demo_connected: "connected 1 5 (demo_my_db emu)"
  by (simp add: connected_def demo_my_db_def)


theorem server_statement_executed_witness:
  "reported demo_lib 1 5 (1, [''executed'']) None
     (db_execute (\<lambda>_. mysql_driver demo_lib (\<lambda>_. []) []) 2 (demo_my_db False))"
  using server_statement_executed [of "demo_my_db False" 2 "the (stmts (demo_my_db False) 2)" 1 5 0 demo_lib "\<lambda>_. []" "[]",
      OF _ _ demo_connected]
  by (simp add: demo_my_db_def demo_lib_def)

section \<open>Hosts\<close>

text \<open>Connections that are opened one after the other.\<close>

primrec connect_all :: "('f, 'm) mysql_lib \<Rightarrow> nat list \<Rightarrow> ('f, 'm) my_db \<Rightarrow> ('f, 'm) my_db" where
  "connect_all lib [] s = s"
| "connect_all lib (c # cs) s =
     connect_all lib cs (case mysql_drv_connect lib c s of Inl _ \<Rightarrow> s | Inr (_, s') \<Rightarrow> s')"

lemma next_host_mod: "0 < n \<Longrightarrow> pos \<le> n \<Longrightarrow> next_host n pos = pos mod n + 1"
  by (cases "pos = n") (auto simp: next_host_def)

lemma my_connect_effect:
  assumes "\<And>h host a m. snd (mysql_real_connect lib h host a m) = m @ [host]" and "\<And>h a b c m. mysql_ssl_set lib h a b c m = m"
  shows "\<exists>s'. mysql_drv_connect lib c s = Inr (snd (fst (my_connect lib s)), s') \<and>
    my_args (drv_state s') = my_args (drv_state s) \<and>
    hosts_pos (drv_state s') = next_host (length (my_hosts (my_args (drv_state s)))) (hosts_pos (drv_state s)) \<and>
    lib_state (drv_state s') = lib_state (drv_state s) @
      [my_hosts (my_args (drv_state s)) ! (next_host (length (my_hosts (my_args (drv_state s)))) (hosts_pos (drv_state s)) - 1)]"
proof -
  have *: "mysql_real_connect lib h host a m = (fst (mysql_real_connect lib h host a m), m @ [host])" for h host a m
    using assms(1) by (metis prod.collapse)
  show ?thesis
    unfolding mysql_drv_connect_def my_connect_def lib_call_def lib_do_def Let_def
    by (subst *) (auto simp: assms(2) split: prod.splits)
qed

text \<open>
  C28: Connections are spread evenly over the hosts: the \<open>k\<close>-th connection after the start goes to the host \<open>k\<close> modulo
  their number, whether the attempts succeed or not.
\<close>

theorem hosts_round_robin:
  assumes "\<And>h host a m. snd (mysql_real_connect lib h host a m) = m @ [host]" and "\<And>h a b c m. mysql_ssl_set lib h a b c m = m"
    and "my_hosts (my_args (drv_state s)) \<noteq> []" and "hosts_pos (drv_state s) \<le> length (my_hosts (my_args (drv_state s)))"
  shows "lib_state (drv_state (connect_all lib cs s)) = lib_state (drv_state s) @
    map (\<lambda>k. my_hosts (my_args (drv_state s)) ! ((hosts_pos (drv_state s) + k) mod length (my_hosts (my_args (drv_state s)))))
      [0..<length cs]"
  using assms(3,4)
proof (induction cs arbitrary: s)
  case Nil
  then show ?case by simp
next
  case (Cons c cs)
  let ?hs = "my_hosts (my_args (drv_state s))" and ?p = "hosts_pos (drv_state s)"
  let ?n = "length ?hs"
  obtain s' where s': "mysql_drv_connect lib c s = Inr (snd (fst (my_connect lib s)), s')"
    "my_args (drv_state s') = my_args (drv_state s)" "hosts_pos (drv_state s') = next_host ?n ?p"
    "lib_state (drv_state s') = lib_state (drv_state s) @ [?hs ! (next_host ?n ?p - 1)]"
    using my_connect_effect [OF assms(1,2)] by blast
  have n: "0 < ?n" using Cons.prems(1) by simp
  then have nh: "next_host ?n ?p = ?p mod ?n + 1" using next_host_mod Cons.prems(2) by blast
  then have "lib_state (drv_state (connect_all lib cs s')) = lib_state (drv_state s') @
      map (\<lambda>k. ?hs ! ((?p mod ?n + 1 + k) mod ?n)) [0..<length cs]"
    using Cons.IH [of s'] Cons.prems(1) n s'(2,3) by (simp add: Suc_le_eq)
  also have "map (\<lambda>k. ?hs ! ((?p mod ?n + 1 + k) mod ?n)) [0..<length cs] = map (\<lambda>k. ?hs ! ((?p + k) mod ?n)) [Suc 0..<Suc (length cs)]"
    unfolding map_Suc_upt [symmetric] map_map comp_def
    using mod_add_left_eq [of ?p ?n "Suc _"] by (intro map_cong refl) simp
  finally show ?case
    using s'(1,4) nh by (simp add: upt_conv_Cons del: upt_Suc)
qed

theorem hosts_round_robin_witness:
  "lib_state (drv_state (connect_all demo_lib [7, 8, 9] (demo_my_db True))) = [''b'', ''a'', ''b'']"
proof -
  let ?s = "demo_my_db True"
  have d: "my_hosts (my_args (drv_state ?s)) = [''a'', ''b'']" "hosts_pos (drv_state ?s) = 1" "lib_state (drv_state ?s) = []"
    by (simp_all add: demo_my_db_def demo_my_args_def)
  have h: "map (\<lambda>k. [''a'', ''b''] ! ((1 + k) mod length [''a'', ''b''])) [0..<length [7 :: nat, 8, 9]] = [''b'', ''a'', ''b'']"
    by code_simp
  have "lib_state (drv_state (connect_all demo_lib [7, 8, 9] ?s)) = lib_state (drv_state ?s) @
      map (\<lambda>k. my_hosts (my_args (drv_state ?s)) ! ((hosts_pos (drv_state ?s) + k) mod length (my_hosts (my_args (drv_state ?s)))))
        [0..<length [7 :: nat, 8, 9]]"
    by (rule hosts_round_robin) (simp_all add: demo_lib_def d)
  then show ?thesis unfolding d h by simp
qed

text \<open>
  When the connection for \<open>SHOW TABLE STATUS\<close> cannot be opened, the message of the error is fetched from the
  handle that \<open>mysql_drv_connect\<close> has freed.
\<close>

lemma describe_uses_freed_handle:
  assumes "table \<noteq> []" and "snd (fst (my_connect lib s)) \<noteq> 0"
  shows "mysql_drv_describe lib caps table s = Inl My_freed"
proof -
  obtain h rc s' where c: "my_connect lib s = ((h, rc), s')" by (metis surj_pair)
  with assms(2) have "h \<notin> handles (drv_state s')"
    by (auto simp: my_connect_def Let_def split: prod.splits if_splits)
  then show ?thesis
    using assms c by (simp add: mysql_drv_describe_def describe_failed_def error_message_def live_handle_def)
qed

end
