(* ===== verification/Spec2Isabelle.thy ===== *)
theory Spec2Isabelle
  imports IbSync SyncLevels SbBatch DbDriver SbRunner HleShared HleHashMap HleListBench HleUtil Crc32 SbTests SbFileioRuns IbVariants SbOltpRuns SbMysqlRuns
begin

text \<open>
  This development is about the program of the repository htmsql: the use of Intel's transactional memory
  (HLE and RTM) for the locks of MySQL's storage engine InnoDB, the data structure benchmarks in C++ that
  explore it, and the sysbench program that drives the database.  The theories model the code under
  \<open>src/\<close>, component by component, and prove what makes each component correct.  Where the code is wrong, a
  theorem says what it does instead.

  \<^bold>\<open>The parts of the program and how they interact\<close>

  \<^item> InnoDB.  Every directory \<open>mysql/mysql-5.6.10-*\<close> holds the files that one variant of MySQL changes.  A mutex
    (\<open>sync0sync\<close>) is a lock word with a test-and-set instruction, a flag for waiters and an event; threads spin
    on the word and then wait for the event through the wait array.  Events, slow and fast mutexes belong to
    the layer of the operating system (\<open>os0sync\<close>).  The debug build checks that threads take latches in a
    fixed order.  The variants replace the instruction, add an elided way to enter (\<open>myhle\<close>), or run the
    critical section as a transaction (\<open>myrtm\<close>).
  \<^item> The benchmarks under \<open>hle\<close>: \<open>LockType\<close> dispatches to one of the lock functions, which are built on the
    operations of \<open>hle-emulation.h\<close>.  Counters, bank accounts, hash map and list take such a lock around
    each of their operations, or run them as transactions, and their main programs start threads that call
    the operations in loops.  \<open>util.cpp\<close> and \<open>Stats.cpp\<close> serve all of them.
  \<^item> sysbench: \<open>main\<close> parses the command line with the option library, selects a test and runs it.  The threads
    of a run fetch requests from the test and execute them, timers measure them, and the logger collects
    statistics.  The tests are cpu, threads, mutex, memory, fileio and oltp.  The last one talks to the
    database through the layer of \<open>db_driver.c\<close>, to which drivers attach.

  \<^bold>\<open>Theories and sources\<close>

  Definitions keep the names of the functions they translate; a struct or class is a record, an enumeration a
  datatype, a machine integer a word of its width (the types \<open>u8\<close> to \<open>u64\<close> of \<open>Prelude\<close>), a fallible function
  returns a sum or an option, and a state that functions share is passed along.  Threads that interleave are
  step relations over the memory accesses of the code.  A loop that need not end is a partial function in the
  option type, or takes fuel.

  \<^item> \<open>Prelude\<close>: machine types, results, the theorem collections, lemmas on lists, maps and words.  \<open>CLib\<close>: what
    sysbench uses of the C library on strings.
  \<^item> \<open>OsEvent\<close>, \<open>OsSync\<close> (\<open>mysql-5.6.10-glibc\<close>, \<open>os0sync.cc\<close>): the event with any number of waiting threads
    (\<open>os_event_set\<close>, \<open>os_event_reset\<close>, \<open>os_event_wait_low\<close>, the timed wait); the lists of events and mutexes,
    start and shutdown of the layer.
  \<^item> \<open>IbMutex\<close>, \<open>IbSync\<close>, \<open>SyncLevels\<close> (\<open>mysql-5.6.10-syslock\<close>, \<open>sync0sync.cc\<close>, \<open>.ic\<close>, \<open>.h\<close>, \<open>myhle.cc\<close>): entry,
    spinning, suspension and exit of the mutex by any number of threads, the wait array being a locale with
    its documented behaviour; creation and freeing of mutexes on the global list; the latching order.
    \<open>rtm_lock\<close> of the two RTM variants (\<open>myrtm.cc\<close>) is here, too.
  \<^item> \<open>IbVariants\<close> (\<open>mysql-5.6.10-beta\<close>, \<open>-all\<close>, \<open>-smartall\<close>, \<open>-trx_lock_func\<close>): the mutex over a word of four bytes,
    parametrised by the instructions that the variants put in.
  \<^item> \<open>HleOps\<close> (\<open>hle/lib/hle-emulation.h\<close>), \<open>SpinLock\<close>, \<open>LockFunctions\<close> (\<open>hle/lock_functions\<close>): the operations
    at all widths; the spin lock in general, with the interface \<open>spin_lock\<close>; all lock functions as instances
    of it, and the dispatcher.
  \<^item> \<open>LockedData\<close>, \<open>HleShared\<close> (\<open>hle/shared_counter\<close>, \<open>hle/bank\<close>): data behind a lock; counters and the bank.
  \<^item> \<open>HleHeap\<close>, \<open>HleBench\<close>, \<open>HleHashMap\<close> (\<open>hle/hashmap\<close>), \<open>HleList\<close>, \<open>HleListBench\<close> (\<open>hle/list\<close>): the C++ heap
    with undefined behaviour as an error, the hash map, the list with its three allocators, and the loops
    of their benchmarks.
  \<^item> \<open>HleUtil\<close> (\<open>util.cpp\<close>, \<open>Stats.cpp\<close>): arguments, random numbers, statistics.
  \<^item> \<open>SbList\<close> (\<open>sb_list.h\<close>), \<open>SbOptions\<close> (\<open>sb_options.c\<close>), \<open>SbTimer\<close> (\<open>sb_timer.c\<close>), \<open>SbGlobals\<close> (\<open>sysbench.h\<close>),
    \<open>SbLogger\<close> and \<open>SbBatch\<close> (\<open>sb_logger.c\<close>), \<open>DbDriver\<close> (\<open>db_driver.c\<close>): the libraries of sysbench.
  \<^item> \<open>Sysbench\<close> and \<open>SbRunner\<close> (\<open>sysbench.c\<close>): the program from \<open>main\<close> on, and the run of a test with its threads.
  \<^item> \<open>SbTests\<close> (\<open>tests/cpu\<close>, \<open>threads\<close>, \<open>mutex\<close>, \<open>memory\<close>), \<open>Crc32Tbl\<close>, \<open>Crc32\<close>, \<open>SbFileio\<close>, \<open>SbFileioRuns\<close>
    (\<open>tests/fileio\<close>), \<open>SbOltp\<close>, \<open>SbOltpGen\<close>, \<open>SbOltpRuns\<close> (\<open>tests/oltp\<close>): the tests.
  \<^item> \<open>SbMysql\<close>, \<open>SbMysqlRuns\<close> (\<open>drivers/mysql/drv_mysql.c\<close>): the MySQL driver over an abstract client library.

  \<^bold>\<open>What the theorems show\<close>

  \<^item> Locks.  Mutual exclusion of the InnoDB mutex, of its four-byte variants (a simulation by the original)
    and of every spin lock, from one invariant each; progress.  LEMMA 1 and LEMMA 2 of the comments in
    \<open>sync0sync.cc\<close>: in every run in which threads that are inside the mutex move on (\<open>ib_run\<close>, \<open>ib_fair\<close> of \<open>IbMutex\<close>)
    a waiting thread is woken in the end, and a thread that a set of the event has woken does not go back to
    sleep.  The strictly ordered levels admit no cycle of waiting threads.  Elision: what \<open>rtm_lock\<close> and
    \<open>rtm_lock_smart\<close> really do, and that in \<open>smartall\<close> any thread inside a transaction breaks the exclusion.
  \<^item> Layer of the operating system: an invariant over lists, counters and mutexes, kept by every operation;
    the shutdown ends and releases everything.
  \<^item> Data structures: the hash map refines a set of integers, its variants are equivalent; the list is a
    doubly linked chain, any interleaving of the steps of its benchmark, in which memory is taken and given
    back outside of the lock, is safe, keeps the right contents and frees every item; the counters count and the bank keeps its money under any lock.
  \<^item> sysbench: the list macros implement a sequence; option values come back as they were set; \<open>read_config\<close>
    ends on quoted values only; the logger prints every message or keeps it counted; timers hold the exact statistics; \<open>main\<close> runs
    just the requested test, no thread starts before all are created, all are joined, and a thread executes
    the requests its test serves, in order.
  \<^item> Tests: the checksum equals its bitwise reference; files that were written validate, and damage is found;
    requests stay within files and tables; a request of the OLTP test has the shape the options ask for,
    and what its retries execute and count is stated for every driver.  The MySQL driver sends an emulated
    statement with the values of its variables, without writing outside of its buffer, and reports the errors
    of the library.

  \<^bold>\<open>Interfaces\<close>

  The locales are the contracts between components: \<open>event_sem\<close> and \<open>sync_array\<close> (what a mutex needs of its
  event and of the wait array), \<open>spin_lock\<close> (what the instruction of a lock and its waiting promise), \<open>wide_word\<close>
  (the instructions of a four-byte mutex), \<open>heap_allocator\<close> and \<open>list_allocator\<close> (the memory of map and list),
  \<open>set_impl\<close> (what a benchmark needs of its structure), \<open>item_sequence\<close> (the macros of the list) and \<open>word_at_a_time\<close>
  (the loops of the checksum).  Each is interpreted on the model's own definitions.  Code outside of the
  repository, such as the wait array, the allocator behind \<open>new\<close> and the system calls of the file test, is a
  parameter with its documented behaviour.

  \<^bold>\<open>Bounds and fuel\<close>

  \<^item> Fuel counts the rounds of a loop.  \<open>runner_run\<close> takes four steps for a request and four to end, so four times
    the number of requests and four more are enough; the theorems about it state the result for a
    sufficient amount.
  \<^item> \<open>oltp_passes\<close>, \<open>fill_table\<close> and \<open>fill_query\<close> are partial functions: no fuel is chosen.  A request of the OLTP
    test does not end exactly if each of its passes ends with a deadlock; that \<open>fill_query\<close> ends is proved.
  \<^item> The signal count of an event has 64 bits; LEMMA 1 and the wake-ups hold until it has wrapped around.
  \<^item> Floating point numbers are reals in the logger and in the statistics of the benchmarks.

  \<^bold>\<open>Not modelled\<close>

  \<^item> The hardware.  The result of \<open>_xbegin\<close> and the aborts are arguments; memory is sequentially consistent.
    Assembler listings, traces and result files are not code of the program.
  \<^item> Windows, Solaris and other branches that a build on Linux does not contain (\<open>sb_win.c\<close>, the asynchronous
    and Windows modes of the file test), and the parts of sysbench that only print (\<open>oltp_print_stats\<close>,
    \<open>oltp_print_mode\<close> and their kind), help texts apart from the options.
  \<^item> The rest of InnoDB and MySQL that the variants carry along unchanged: transactions (\<open>trx0*\<close>), locks
    (\<open>lock0*\<close>), read-write locks, the wrappers of the performance schema, \<open>my_pthread.h\<close> and
    \<open>my_thr_init.c\<close>.  \<open>global_latch\<close>, \<open>global_hle_latch\<close>, \<open>trx_all\<close> and \<open>mutexlock_glibc\<close> repeat the files modelled
    here up to a few lines.
  \<^item> The drivers for PostgreSQL and Oracle, which are built like the one for MySQL over other client libraries.
  \<^item> Races of \<open>PreAllocator\<close>, which the list calls outside of its lock: its operations are atomic here, and
    the theorem about the benchmark is for the other two allocators.  The lines that several threads log at
    the same time are in the order in which the handler's mutex was taken.
  \<^item> Programs that only measure the processor: \<open>micro\<close>, \<open>helpers\<close>, \<open>hle/elision_properties\<close>, \<open>hle/nesting\<close>,
    \<open>hle/asm_cmp\<close>, \<open>hle/type_size\<close>, \<open>hle/test\<close>, \<open>hle/pthread_cpp11\<close>; the vendored \<open>intel-tsx-tools\<close> and the
    headers of other vendors in \<open>hle/lib\<close>; shell scripts.
\<close>

end
